(* ===== verification/Prelude.thy ===== *)
theory Prelude
  imports Main "HOL-Library.List_Lexorder" "HOL-Library.Char_ord"
begin

text \<open>
  Shared vocabulary of the development: the fixed-width arithmetic of the Rust sources
  (saturating and wrapping operations on the unsigned widths), the ordered maps
  (\<open>BTreeMap\<close>) with their interface locale, the byte strings with the string operations of
  the standard library that the sources use, and the theorem collections that carry the
  proofs of the components.

  Unsigned integers are natural numbers with the width written out in every operation that
  can leave it. A Rust \<open>String\<close> is the list of its UTF-8 bytes, so a length counts bytes, as
  \<open>str::len\<close> does.
\<close>

section \<open>Theorem collections\<close>

named_theorems u32_simps \<open>saturating arithmetic that stays in range\<close>
named_theorems inv_pres \<open>operations that keep a component's invariant\<close>
named_theorems frame_simps \<open>what an operation leaves unchanged\<close>

section \<open>Fixed-width unsigned arithmetic\<close>

definition u32_max :: nat where
  "u32_max = 4294967295"

definition u64_max :: nat where
  "u64_max = 18446744073709551615"

definition sat_add32 :: "nat \<Rightarrow> nat \<Rightarrow> nat" where
  "sat_add32 a b = min (a + b) u32_max"

definition wrap_add32 :: "nat \<Rightarrow> nat \<Rightarrow> nat" where
  "wrap_add32 a b = (a + b) mod (u32_max + 1)"

text \<open>\<open>u64::checked_add\<close>, and \<open>u32::try_from(x).unwrap_or(d)\<close> on a wider value.\<close>

definition checked_add64 :: "nat \<Rightarrow> nat \<Rightarrow> nat option" where
  "checked_add64 a b = (if a + b \<le> u64_max then Some (a + b) else None)"

definition u32_or :: "nat \<Rightarrow> nat \<Rightarrow> nat" where
  "u32_or x d = (if x \<le> u32_max then x else d)"

text \<open>\<open>saturating_sub\<close> on unsigned values is the subtraction of natural numbers.\<close>

lemma sat_add32_exact [u32_simps]: "a + b \<le> u32_max \<Longrightarrow> sat_add32 a b = a + b"
  by (simp add: sat_add32_def)

lemma sat_add32_le [simp]: "sat_add32 a b \<le> a + b" "sat_add32 a b \<le> u32_max"
  by (simp_all add: sat_add32_def)

lemma sat_add32_zero [simp]: "a \<le> u32_max \<Longrightarrow> sat_add32 a 0 = a" "b \<le> u32_max \<Longrightarrow> sat_add32 0 b = b"
  by (simp_all add: sat_add32_def)

lemma wrap_add32_exact [u32_simps]: "a + b \<le> u32_max \<Longrightarrow> wrap_add32 a b = a + b"
  by (simp add: wrap_add32_def)

lemma u32_or_exact [u32_simps]: "x \<le> u32_max \<Longrightarrow> u32_or x d = x"
  by (simp add: u32_or_def)

lemma checked_add64_Some: "checked_add64 a b = Some c \<longleftrightarrow> a + b \<le> u64_max \<and> c = a + b"
  by (auto simp: checked_add64_def)

text \<open>A fold of saturating additions, as the sources sum counters.\<close>

definition sat_sum32 :: "nat \<Rightarrow> nat list \<Rightarrow> nat" where
  "sat_sum32 a xs = foldl sat_add32 a xs"

lemma sat_sum32_simps [simp]:
  "sat_sum32 a [] = a" "sat_sum32 a (x # xs) = sat_sum32 (sat_add32 a x) xs"
  by (simp_all add: sat_sum32_def)

lemma sat_sum32_exact [u32_simps]: "a + sum_list xs \<le> u32_max \<Longrightarrow> sat_sum32 a xs = a + sum_list xs"
  by (induction xs arbitrary: a) (simp_all add: sat_add32_exact add.assoc)

section \<open>Ordered maps\<close>

text \<open>
  The interface of a map that the stores of the program rely on. The laws are those of
  \<open>BTreeMap\<close>: what a lookup returns after an insertion, a removal and an update in place.
\<close>

locale keyed_map =
  fixes get :: "'m \<Rightarrow> 'k \<Rightarrow> 'v option"
    and ins :: "'k \<Rightarrow> 'v \<Rightarrow> 'm \<Rightarrow> 'm"
    and del :: "'k \<Rightarrow> 'm \<Rightarrow> 'm"
    and upd :: "'k \<Rightarrow> ('v \<Rightarrow> 'v) \<Rightarrow> 'm \<Rightarrow> 'm"
    and wf :: "'m \<Rightarrow> bool"
  assumes get_ins: "get (ins k v m) = (get m)(k \<mapsto> v)"
    and get_del: "get (del k m) = (get m)(k := None)"
    and get_upd: "get (upd k f m) = (get m)(k := map_option f (get m k))"
    and wf_ins: "wf m \<Longrightarrow> wf (ins k v m)"
    and wf_del: "wf m \<Longrightarrow> wf (del k m)"
    and wf_upd: "wf m \<Longrightarrow> wf (upd k f m)"
begin

lemma get_ins_same: "get (ins k v m) k = Some v"
  by (simp add: get_ins)

lemma get_ins_other: "k' \<noteq> k \<Longrightarrow> get (ins k v m) k' = get m k'"
  by (simp add: get_ins)

lemma get_del_same: "get (del k m) k = None"
  by (simp add: get_del)

lemma get_del_other: "k' \<noteq> k \<Longrightarrow> get (del k m) k' = get m k'"
  by (simp add: get_del)

lemma dom_ins: "dom (get (ins k v m)) = insert k (dom (get m))"
  by (auto simp: get_ins)

lemma dom_upd: "dom (get (upd k f m)) = dom (get m)"
  by (auto simp: get_upd split: if_splits)

text \<open>A property of all values survives an operation that only stores such values.\<close>

definition all_values :: "('v \<Rightarrow> bool) \<Rightarrow> 'm \<Rightarrow> bool" where
  "all_values P m \<longleftrightarrow> (\<forall>k v. get m k = Some v \<longrightarrow> P v)"

lemma all_values_ins: "all_values P m \<Longrightarrow> P v \<Longrightarrow> all_values P (ins k v m)"
  by (auto simp: all_values_def get_ins split: if_splits)

lemma all_values_upd: "all_values P m \<Longrightarrow> (\<And>v. P v \<Longrightarrow> P (f v)) \<Longrightarrow> all_values P (upd k f m)"
  by (auto simp: all_values_def get_upd split: if_splits)

lemma all_values_del: "all_values P m \<Longrightarrow> all_values P (del k m)"
  by (auto simp: all_values_def get_del split: if_splits)

end

text \<open>
  \<open>BTreeMap\<close> as the list of its entries in key order: \<open>bt_insert\<close> keeps the order, so an
  iteration over the entries is the iteration of the source.
\<close>

type_synonym ('k, 'v) btree = "('k \<times> 'v) list"

abbreviation bt_get :: "('k, 'v) btree \<Rightarrow> 'k \<Rightarrow> 'v option" where
  "bt_get \<equiv> map_of"

fun bt_insert :: "'k::linorder \<Rightarrow> 'v \<Rightarrow> ('k, 'v) btree \<Rightarrow> ('k, 'v) btree" where
  "bt_insert k v [] = [(k, v)]"
| "bt_insert k v ((k', v') # m) =
     (if k < k' then (k, v) # (k', v') # m
      else if k = k' then (k, v) # m
      else (k', v') # bt_insert k v m)"

definition bt_remove :: "'k \<Rightarrow> ('k, 'v) btree \<Rightarrow> ('k, 'v) btree" where
  "bt_remove k m = filter (\<lambda>e. fst e \<noteq> k) m"

definition bt_update :: "'k \<Rightarrow> ('v \<Rightarrow> 'v) \<Rightarrow> ('k, 'v) btree \<Rightarrow> ('k, 'v) btree" where
  "bt_update k f m = map (\<lambda>(k', v). if k' = k then (k', f v) else (k', v)) m"

definition bt_wf :: "('k::linorder, 'v) btree \<Rightarrow> bool" where
  "bt_wf m \<longleftrightarrow> sorted_wrt (<) (map fst m)"

lemma bt_insert_get: "bt_get (bt_insert k v m) = (bt_get m)(k \<mapsto> v)"
  by (induction k v m rule: bt_insert.induct) (auto simp: fun_eq_iff)

lemma bt_remove_get: "bt_get (bt_remove k m) = (bt_get m)(k := None)"
  by (induction m) (auto simp: bt_remove_def fun_eq_iff)

lemma bt_update_get: "bt_get (bt_update k f m) = (bt_get m)(k := map_option f (bt_get m k))"
  by (induction m) (auto simp: bt_update_def fun_eq_iff)

lemma bt_insert_keys: "fst ` set (bt_insert k v m) = insert k (fst ` set m)"
  by (induction k v m rule: bt_insert.induct) auto

lemma bt_insert_wf: "bt_wf m \<Longrightarrow> bt_wf (bt_insert k v m)"
proof (induction k v m rule: bt_insert.induct)
  case (2 k v k' v' m)
  then show ?case
    using bt_insert_keys [of k v m] by (fastforce simp: bt_wf_def)
qed (simp add: bt_wf_def)

lemma bt_remove_wf: "bt_wf m \<Longrightarrow> bt_wf (bt_remove k m)"
  by (induction m) (auto simp: bt_wf_def bt_remove_def)

lemma bt_update_keys: "map fst (bt_update k f m) = map fst m"
  by (induction m) (auto simp: bt_update_def)

lemma bt_update_wf: "bt_wf m \<Longrightarrow> bt_wf (bt_update k f m)"
  by (simp add: bt_wf_def bt_update_keys)

interpretation bt: keyed_map bt_get bt_insert bt_remove bt_update bt_wf
  by unfold_locales
    (simp_all add: bt_insert_get bt_remove_get bt_update_get bt_insert_wf bt_remove_wf bt_update_wf)

lemma bt_wf_distinct: "bt_wf m \<Longrightarrow> distinct (map fst m)"
  by (auto simp: bt_wf_def strict_sorted_iff)

lemma bt_wf_get_iff: "bt_wf m \<Longrightarrow> bt_get m k = Some v \<longleftrightarrow> (k, v) \<in> set m"
  by (auto dest: map_of_SomeD bt_wf_distinct simp: map_of_is_SomeI)

lemma bt_insert_mem:
  "e \<in> set (bt_insert k v m) \<Longrightarrow> e = (k, v) \<or> e \<in> set m"
  by (induction k v m rule: bt_insert.induct) (auto split: if_splits)

lemmas bt_simps = bt.get_ins bt.get_del bt.get_upd

section \<open>Lists updated at one element\<close>

text \<open>\<open>iter_mut().find(p)\<close> and a write through the reference it returns.\<close>

fun update_first :: "('a \<Rightarrow> bool) \<Rightarrow> ('a \<Rightarrow> 'a) \<Rightarrow> 'a list \<Rightarrow> 'a list" where
  "update_first p f [] = []"
| "update_first p f (x # xs) = (if p x then f x # xs else x # update_first p f xs)"

lemma find_SomeD: "find p xs = Some x \<Longrightarrow> p x \<and> x \<in> set xs"
  by (induction xs) (auto split: if_splits)

lemma update_first_length [simp]: "length (update_first p f xs) = length xs"
  by (induction xs) auto

lemma update_first_map: "(\<And>x. p x \<Longrightarrow> g (f x) = g x) \<Longrightarrow> map g (update_first p f xs) = map g xs"
  by (induction xs) auto

lemma update_first_none: "find p xs = None \<Longrightarrow> update_first p f xs = xs"
  by (induction xs) (auto split: if_splits)

lemma update_first_id [simp]: "update_first p (\<lambda>x. x) xs = xs"
  by (induction xs) auto

lemma map_update_same: "g y = g (xs ! i) \<Longrightarrow> map g (xs[i := y]) = map g xs"
  by (metis list_update_beyond list_update_id map_update not_le)

lemma update_first_sum:
  fixes m :: "'a \<Rightarrow> nat"
  shows "find p xs = Some y \<Longrightarrow>
    sum_list (map m (update_first p f xs)) + m y = sum_list (map m xs) + m (f y)"
  by (induction xs) (auto split: if_splits)

lemma find_le_sum:
  fixes m :: "'a \<Rightarrow> nat"
  shows "find p xs = Some y \<Longrightarrow> m y \<le> sum_list (map m xs)"
  by (induction xs) (auto split: if_splits)

section \<open>Byte strings\<close>

text \<open>
  \<open>str::trim\<close> strips the Unicode white space characters; on bytes these are the following
  UTF-8 sequences.
\<close>

definition ws_seqs :: "string list" where
  "ws_seqs =
     [[CHR 0x09], [CHR 0x0A], [CHR 0x0B], [CHR 0x0C], [CHR 0x0D], [CHR 0x20],
      [CHR 0xC2, CHR 0x85], [CHR 0xC2, CHR 0xA0], [CHR 0xE1, CHR 0x9A, CHR 0x80],
      [CHR 0xE2, CHR 0x80, CHR 0x80], [CHR 0xE2, CHR 0x80, CHR 0x81], [CHR 0xE2, CHR 0x80, CHR 0x82],
      [CHR 0xE2, CHR 0x80, CHR 0x83], [CHR 0xE2, CHR 0x80, CHR 0x84], [CHR 0xE2, CHR 0x80, CHR 0x85],
      [CHR 0xE2, CHR 0x80, CHR 0x86], [CHR 0xE2, CHR 0x80, CHR 0x87], [CHR 0xE2, CHR 0x80, CHR 0x88],
      [CHR 0xE2, CHR 0x80, CHR 0x89], [CHR 0xE2, CHR 0x80, CHR 0x8A], [CHR 0xE2, CHR 0x80, CHR 0xA8],
      [CHR 0xE2, CHR 0x80, CHR 0xA9], [CHR 0xE2, CHR 0x80, CHR 0xAF], [CHR 0xE2, CHR 0x81, CHR 0x9F],
      [CHR 0xE3, CHR 0x80, CHR 0x80]]"

definition is_prefix_of :: "string \<Rightarrow> string \<Rightarrow> bool" where
  "is_prefix_of p s \<longleftrightarrow> take (length p) s = p"

fun strip_seqs :: "string list \<Rightarrow> nat \<Rightarrow> string \<Rightarrow> string" where
  "strip_seqs ws 0 s = s"
| "strip_seqs ws (Suc n) s =
     (case find (\<lambda>w. is_prefix_of w s) ws of
        None \<Rightarrow> s
      | Some w \<Rightarrow> strip_seqs ws n (drop (length w) s))"

definition trim_start :: "string \<Rightarrow> string" where
  "trim_start s = strip_seqs ws_seqs (length s) s"

definition trim_end :: "string \<Rightarrow> string" where
  "trim_end s = rev (strip_seqs (map rev ws_seqs) (length s) (rev s))"

definition trim :: "string \<Rightarrow> string" where
  "trim s = trim_end (trim_start s)"

definition strip_prefix :: "string \<Rightarrow> string \<Rightarrow> string option" where
  "strip_prefix p s = (if is_prefix_of p s then Some (drop (length p) s) else None)"

definition strip_suffix :: "string \<Rightarrow> string \<Rightarrow> string option" where
  "strip_suffix p s =
     (if is_prefix_of (rev p) (rev s) then Some (take (length s - length p) s) else None)"

text \<open>\<open>str::split_once\<close> on a byte, \<open>str::split\<close> on a byte.\<close>

fun split_once :: "char \<Rightarrow> string \<Rightarrow> (string \<times> string) option" where
  "split_once c [] = None"
| "split_once c (x # xs) =
     (if x = c then Some ([], xs) else map_option (\<lambda>(a, b). (x # a, b)) (split_once c xs))"

fun split_on :: "char \<Rightarrow> string \<Rightarrow> string list" where
  "split_on c [] = [[]]"
| "split_on c (x # xs) =
     (if x = c then [] # split_on c xs
      else case split_on c xs of [] \<Rightarrow> [[x]] | p # ps \<Rightarrow> (x # p) # ps)"

lemma split_once_Some: "split_once c s = Some (a, b) \<Longrightarrow> s = a @ c # b \<and> c \<notin> set a"
  by (induction s arbitrary: a) (auto split: if_splits)

lemma split_once_None: "split_once c s = None \<longleftrightarrow> c \<notin> set s"
  by (induction s) auto

lemma strip_prefix_Some: "strip_prefix p s = Some r \<longleftrightarrow> s = p @ r"
proof
  assume "strip_prefix p s = Some r"
  then have "take (length p) s = p" "r = drop (length p) s"
    by (simp_all add: strip_prefix_def is_prefix_of_def split: if_splits)
  then show "s = p @ r" by (metis append_take_drop_id)
qed (simp add: strip_prefix_def is_prefix_of_def)

lemma is_prefix_of_iff: "is_prefix_of p s \<longleftrightarrow> (\<exists>r. s = p @ r)"
  by (metis append_eq_conv_conj append_take_drop_id is_prefix_of_def)

definition is_digit :: "char \<Rightarrow> bool" where
  "is_digit c \<longleftrightarrow> CHR ''0'' \<le> c \<and> c \<le> CHR ''9''"

definition is_lower :: "char \<Rightarrow> bool" where
  "is_lower c \<longleftrightarrow> CHR ''a'' \<le> c \<and> c \<le> CHR ''z''"

definition is_upper :: "char \<Rightarrow> bool" where
  "is_upper c \<longleftrightarrow> CHR ''A'' \<le> c \<and> c \<le> CHR ''Z''"

text \<open>\<open>u8::is_ascii_graphic\<close>: \<open>'!'..='~'\<close>.\<close>

definition is_graphic :: "char \<Rightarrow> bool" where
  "is_graphic c \<longleftrightarrow> CHR 0x21 \<le> c \<and> c \<le> CHR 0x7E"

section \<open>Runs of a step function\<close>

text \<open>
  The contract between a state machine and the lemmas about its runs: an invariant that
  every step keeps, under a condition on the event that its caller guarantees.
\<close>

locale step_invariant =
  fixes step :: "'s \<Rightarrow> 'e \<Rightarrow> 's"
    and ok :: "'s \<Rightarrow> 'e \<Rightarrow> bool"
    and inv :: "'s \<Rightarrow> bool"
  assumes step_inv: "inv s \<Longrightarrow> ok s e \<Longrightarrow> inv (step s e)"
begin

primrec ok_run :: "'s \<Rightarrow> 'e list \<Rightarrow> bool" where
  "ok_run s [] = True"
| "ok_run s (e # es) = (ok s e \<and> ok_run (step s e) es)"

lemma run_inv: "inv s \<Longrightarrow> ok_run s es \<Longrightarrow> inv (foldl step s es)"
  by (induction es arbitrary: s) (auto intro: step_inv)

lemma run_inv_total: "inv s \<Longrightarrow> (\<And>s e. ok s e) \<Longrightarrow> inv (foldl step s es)"
  by (induction es arbitrary: s) (auto intro: step_inv)

text \<open>A quantity no step increases is not increased by a run.\<close>

lemma run_mono:
  fixes m :: "'s \<Rightarrow> nat"
  assumes "\<And>s e. inv s \<Longrightarrow> ok s e \<Longrightarrow> m (step s e) \<le> m s"
  shows "inv s \<Longrightarrow> ok_run s es \<Longrightarrow> m (foldl step s es) \<le> m s"
proof (induction es arbitrary: s)
  case (Cons e es)
  then have "m (foldl step (step s e) es) \<le> m (step s e)" by (simp add: step_inv)
  also have "\<dots> \<le> m s" using Cons.prems assms by simp
  finally show ?case by simp
qed simp

end

end
