(* ===== verification/Allocation.thy ===== *)
theory Allocation
  imports Prelude
begin

text \<open>
  Adaptive output allocation (\<open>crates/lightagent-core/src/allocation.rs\<close>): the output plan and
  its validation, the division of an amount between the lead's reserve, the follow-up reserve
  and the planned roles, and the weighted split with caps.
\<close>

section \<open>Demand classes and plans\<close>

definition lead_reserve_percent :: nat where
  "lead_reserve_percent = 25"

definition follow_up_reserve_percent :: nat where
  "follow_up_reserve_percent = 10"

definition max_shares :: nat where
  "max_shares = 4"

definition max_role_chars :: nat where
  "max_role_chars = 32"

datatype demand = Light | Standard | Heavy

fun weight :: "demand \<Rightarrow> nat" where
  "weight Light = 1"
| "weight Standard = 2"
| "weight Heavy = 3"

fun demand_as_str :: "demand \<Rightarrow> string" where
  "demand_as_str Light = ''light''"
| "demand_as_str Standard = ''standard''"
| "demand_as_str Heavy = ''heavy''"

fun raised :: "demand \<Rightarrow> demand" where
  "raised Light = Standard"
| "raised Standard = Heavy"
| "raised Heavy = Heavy"

record planned_share =
  pl_role :: string
  pl_demand :: demand

record output_plan =
  op_source :: string
  op_fallback_reason :: "string option"
  op_shares :: "planned_share list"
  op_lead_floor :: nat
  op_follow_up :: bool

definition role_ok :: "string \<Rightarrow> bool" where
  "role_ok role \<longleftrightarrow> \<not> (role = [] \<or> length role > max_role_chars
     \<or> \<not> list_all (\<lambda>c. is_lower c \<or> c = CHR ''_'' \<or> c = CHR ''-'') role)"

fun validate_roles :: "string set \<Rightarrow> planned_share list \<Rightarrow> string + unit" where
  "validate_roles seen [] = Inr ()"
| "validate_roles seen (share # shares) =
     (if \<not> role_ok (pl_role share) then Inl ''invalid_role''
      else if pl_role share \<in> seen then Inl ''duplicate_role''
      else validate_roles (insert (pl_role share) seen) shares)"

definition validate :: "output_plan \<Rightarrow> string + unit" where
  "validate plan =
     (if length (op_shares plan) > max_shares then Inl ''too_many_shares''
      else validate_roles {} (op_shares plan))"

lemma validate_roles_Inr:
  "validate_roles seen shares = Inr () \<longleftrightarrow>
     (\<forall>s \<in> set shares. role_ok (pl_role s)) \<and> distinct (map pl_role shares)
     \<and> pl_role ` set shares \<inter> seen = {}"
  by (induction seen shares rule: validate_roles.induct) auto

lemma validate_Inr:
  "validate plan = Inr () \<longleftrightarrow>
     length (op_shares plan) \<le> max_shares \<and> (\<forall>s \<in> set (op_shares plan). role_ok (pl_role s))
     \<and> distinct (map pl_role (op_shares plan))"
  by (simp add: validate_def validate_roles_Inr)

section \<open>The weighted split\<close>

text \<open>
  A part is a weight and an optional cap. \<open>assign_all\<close> is the loop that stores a value at each
  of the listed indices.
\<close>

type_synonym part = "nat \<times> nat option"

definition assign_all :: "(nat \<Rightarrow> nat) \<Rightarrow> nat list \<Rightarrow> nat list \<Rightarrow> nat list" where
  "assign_all f is s = foldl (\<lambda>s i. s[i := f i]) s is"

definition total_weight :: "part list \<Rightarrow> nat list \<Rightarrow> nat" where
  "total_weight parts is = sum_list (map (\<lambda>i. fst (parts ! i)) is)"

definition proportional :: "part list \<Rightarrow> nat list \<Rightarrow> nat \<Rightarrow> nat \<Rightarrow> nat" where
  "proportional parts is left i =
     u32_or (left * fst (parts ! i) div total_weight parts is) left"

definition is_capped :: "part list \<Rightarrow> nat list \<Rightarrow> nat \<Rightarrow> nat \<Rightarrow> bool" where
  "is_capped parts is left i =
     (case snd (parts ! i) of None \<Rightarrow> False | Some cap \<Rightarrow> cap \<le> proportional parts is left i)"

definition cap_or_zero :: "part list \<Rightarrow> nat \<Rightarrow> nat" where
  "cap_or_zero parts i = (case snd (parts ! i) of None \<Rightarrow> 0 | Some cap \<Rightarrow> cap)"

function split_loop :: "part list \<Rightarrow> nat list \<Rightarrow> nat list \<Rightarrow> nat \<Rightarrow> nat list" where
  "split_loop parts shares is left =
     (if is = [] \<or> left = 0 then shares
      else
        let capped = filter (is_capped parts is left) is
        in if capped = [] then assign_all (proportional parts is left) is shares
           else
             let shares' = assign_all (cap_or_zero parts) capped shares;
                 given = sat_sum32 0 (map (\<lambda>i. shares' ! i) capped)
             in split_loop parts shares' (filter (\<lambda>i. i \<notin> set capped) is) (left - given))"
  by pat_completeness auto
termination
  by (relation "measure (\<lambda>(parts, shares, is, left). length is)")
    (auto simp: filter_empty_conv intro!: length_filter_less)

declare split_loop.simps [simp del]

definition split :: "nat \<Rightarrow> part list \<Rightarrow> nat list" where
  "split tokens parts =
     split_loop parts (replicate (length parts) 0)
       (filter (\<lambda>i. fst (parts ! i) > 0) [0..<length parts]) tokens"

section \<open>The division of a pool\<close>

definition percent :: "nat \<Rightarrow> nat \<Rightarrow> nat" where
  "percent tokens p = u32_or (tokens * p div 100) tokens"

record allocation =
  al_lead :: nat
  al_follow_up :: nat
  al_shares :: "nat list"
  al_unallocated :: nat

definition allocate :: "nat \<Rightarrow> output_plan \<Rightarrow> allocation" where
  "allocate available plan =
     (let lead = min (max (percent available lead_reserve_percent)
                          (min (op_lead_floor plan) (available div 2))) available;
          follow_up = min (if op_follow_up plan then percent available follow_up_reserve_percent
                           else 0) (available - lead);
          workers = available - lead - follow_up;
          shares = split workers (map (\<lambda>s. (weight (pl_demand s), None)) (op_shares plan));
          given = sat_sum32 0 shares
      in \<lparr>al_lead = lead, al_follow_up = follow_up, al_shares = shares,
          al_unallocated = workers - given\<rparr>)"

section \<open>Turn purposes and accounts\<close>

datatype turn_purpose = Turn | Answer | Continuation

definition is_final :: "turn_purpose \<Rightarrow> bool" where
  "is_final p \<longleftrightarrow> p \<noteq> Turn"

datatype account = Lead | Share string | FollowUp | Unplanned

fun account_as_str :: "account \<Rightarrow> string" where
  "account_as_str Lead = ''lead''"
| "account_as_str (Share _) = ''share''"
| "account_as_str FollowUp = ''follow_up''"
| "account_as_str Unplanned = ''unplanned''"

fun account_role :: "account \<Rightarrow> string option" where
  "account_role (Share role) = Some role"
| "account_role _ = None"

section \<open>Lemmas on the split\<close>

lemma assign_all_length [simp]: "length (assign_all f is s) = length s"
  by (induction "is" arbitrary: s) (auto simp: assign_all_def)

lemma assign_all_Cons: "assign_all f (i # is) s = assign_all f is (s[i := f i])"
  by (simp add: assign_all_def)

lemma assign_all_nth:
  "j < length s \<Longrightarrow> assign_all f is s ! j = (if j \<in> set is then f j else s ! j)"
  by (induction "is" arbitrary: s) (auto simp: assign_all_Cons nth_list_update assign_all_def [of f "[]"])

lemma assign_all_sum:
  "distinct is \<Longrightarrow> (\<And>i. i \<in> set is \<Longrightarrow> i < length s \<and> s ! i = 0) \<Longrightarrow>
     sum_list (assign_all f is s) = sum_list s + sum_list (map f is)"
proof (induction "is" arbitrary: s)
  case (Cons i "is")
  have "sum_list (s[i := f i]) = sum_list s + f i"
    using Cons.prems(2) [of i] elem_le_sum_list [of i s] by (simp add: sum_list_update)
  moreover have "j < length (s[i := f i]) \<and> s[i := f i] ! j = 0" if "j \<in> set is" for j
    using that Cons.prems by (auto simp: nth_list_update)
  ultimately show ?case
    using Cons.prems(1) Cons.IH [of "s[i := f i]"] by (simp add: assign_all_Cons)
qed (simp add: assign_all_def)

lemma sum_list_filter_le: "sum_list (map f (filter P xs)) \<le> (sum_list (map f xs) :: nat)"
  by (induction xs) auto

lemma sum_div_le:
  fixes w :: "'a \<Rightarrow> nat"
  shows "sum_list (map (\<lambda>i. left * w i div t) is) * t \<le> left * sum_list (map w is)"
proof (induction "is")
  case (Cons i "is")
  then show ?case
    using div_times_less_eq_dividend [of "left * w i" t]
    by (simp add: distrib_left distrib_right add_mono)
qed simp

lemma sum_div_ge:
  fixes w :: "'a \<Rightarrow> nat"
  assumes "0 < t"
  shows "left * sum_list (map w is)
           \<le> sum_list (map (\<lambda>i. left * w i div t) is) * t + length is * (t - 1)"
proof (induction "is")
  case (Cons i "is")
  have "left * w i \<le> (left * w i div t) * t + (t - 1)"
    using assms by (metis Suc_pred' add.commute div_mod_decomp lessI less_Suc_eq_le
        mod_less_divisor mult.commute nat_add_left_cancel_le)
  then show ?case
    using Cons.IH by (simp add: distrib_left distrib_right)
qed simp

lemma proportional_exact:
  assumes "left \<le> u32_max" and "i \<in> set is"
  shows "proportional parts is left i = left * fst (parts ! i) div total_weight parts is"
proof -
  have "fst (parts ! i) \<le> total_weight parts is"
    using assms(2) by (auto simp: total_weight_def intro: member_le_sum_list)
  then have "left * fst (parts ! i) div total_weight parts is \<le> left"
    by (cases "total_weight parts is = 0") (auto simp: div_le_mono2 intro: div_le_dividend
        less_eq_div_iff_mult_less_eq [THEN iffD1] mult_le_mono2 order_trans [OF div_le_mono
          [of _ "left * total_weight parts is"]])
  then show ?thesis
    using assms(1) by (simp add: proportional_def u32_or_def)
qed

lemma proportional_sum_le:
  assumes "left \<le> u32_max" and "set js \<subseteq> set is" and "distinct js" and "distinct is"
  shows "sum_list (map (proportional parts is left) js) \<le> left"
proof -
  let ?t = "total_weight parts is"
  let ?w = "\<lambda>i. fst (parts ! i)"
  have eq: "map (proportional parts is left) js = map (\<lambda>i. left * ?w i div ?t) js"
    using assms(2) by (auto simp: proportional_exact [OF assms(1)])
  have "sum_list (map ?w js) \<le> ?t"
    using assms(2-4) by (simp add: total_weight_def sum_list_distinct_conv_sum_set sum_mono2)
  then have "sum_list (map (\<lambda>i. left * ?w i div ?t) js) * ?t \<le> left * ?t"
    using sum_div_le [of left ?w ?t js] by (meson le_trans mult_le_mono2)
  then show ?thesis
    by (cases "?t = 0") (simp_all add: eq)
qed

text \<open>
  What every call of the loop starts from: the open indices are distinct and in range, hold
  nothing yet and have a positive weight.
\<close>

definition split_inv :: "part list \<Rightarrow> nat list \<Rightarrow> nat list \<Rightarrow> bool" where
  "split_inv parts shares is \<longleftrightarrow>
     length shares = length parts \<and> distinct is \<and>
     (\<forall>i \<in> set is. i < length shares \<and> shares ! i = 0 \<and> 0 < fst (parts ! i))"

text \<open>The step in which some open parts reach their cap.\<close>

definition capped_of :: "part list \<Rightarrow> nat list \<Rightarrow> nat \<Rightarrow> nat list" where
  "capped_of parts is left = filter (is_capped parts is left) is"

lemma capped_cap: "i \<in> set (capped_of parts is left) \<Longrightarrow> snd (parts ! i) = Some (cap_or_zero parts i)"
  by (auto simp: capped_of_def is_capped_def cap_or_zero_def split: option.splits)

lemma capped_le: "i \<in> set (capped_of parts is left) \<Longrightarrow> cap_or_zero parts i \<le> proportional parts is left i"
  by (auto simp: capped_of_def is_capped_def cap_or_zero_def split: option.splits)

lemma capped_sum_le:
  assumes "left \<le> u32_max" and "distinct is"
  shows "sum_list (map (cap_or_zero parts) (capped_of parts is left)) \<le> left"
proof -
  have "sum_list (map (cap_or_zero parts) (capped_of parts is left))
      \<le> sum_list (map (proportional parts is left) (capped_of parts is left))"
    by (rule sum_list_mono) (rule capped_le)
  also have "\<dots> \<le> left"
    using assms by (intro proportional_sum_le) (auto simp: capped_of_def)
  finally show ?thesis .
qed

lemma split_loop_stop: "is = [] \<or> left = 0 \<Longrightarrow> split_loop parts shares is left = shares"
  by (simp add: split_loop.simps)

lemma split_loop_last:
  "is \<noteq> [] \<Longrightarrow> left \<noteq> 0 \<Longrightarrow> capped_of parts is left = [] \<Longrightarrow>
     split_loop parts shares is left = assign_all (proportional parts is left) is shares"
  by (simp add: split_loop.simps capped_of_def)

lemma split_loop_step:
  assumes "is \<noteq> []" and "left \<noteq> 0" and ne: "capped_of parts is left \<noteq> []"
    and "left \<le> u32_max" and "split_inv parts shares is"
  shows "split_loop parts shares is left =
    split_loop parts (assign_all (cap_or_zero parts) (capped_of parts is left) shares)
      (filter (\<lambda>i. i \<notin> set (capped_of parts is left)) is)
      (left - sum_list (map (cap_or_zero parts) (capped_of parts is left)))"
proof -
  let ?c = "capped_of parts is left"
  let ?s = "assign_all (cap_or_zero parts) ?c shares"
  have "map (\<lambda>i. ?s ! i) ?c = map (cap_or_zero parts) ?c"
    using assms(5) by (auto simp: assign_all_nth split_inv_def capped_of_def)
  moreover have "sum_list (map (cap_or_zero parts) ?c) \<le> left"
    using assms(4,5) by (intro capped_sum_le) (auto simp: split_inv_def)
  ultimately have "sat_sum32 0 (map (\<lambda>i. ?s ! i) ?c) = sum_list (map (cap_or_zero parts) ?c)"
    using assms(4) by (metis add_0 le_trans sat_sum32_exact)
  then show ?thesis
    using assms(1-3) by (simp add: split_loop.simps [of parts shares "is"] capped_of_def Let_def)
qed

lemma split_inv_step:
  assumes "split_inv parts shares is"
  shows "split_inv parts (assign_all (cap_or_zero parts) (capped_of parts is left) shares)
           (filter (\<lambda>i. i \<notin> set (capped_of parts is left)) is)"
  using assms by (auto simp: split_inv_def assign_all_nth)

lemma split_step_sum:
  assumes "split_inv parts shares is"
  shows "sum_list (assign_all (cap_or_zero parts) (capped_of parts is left) shares) =
           sum_list shares + sum_list (map (cap_or_zero parts) (capped_of parts is left))"
  using assms by (intro assign_all_sum) (auto simp: split_inv_def capped_of_def)

lemma split_loop_induct [consumes 2, case_names stop last step]:
  assumes inv: "split_inv parts shares is" and le: "left \<le> u32_max"
    and stop: "\<And>shares is left. split_inv parts shares is \<Longrightarrow> left \<le> u32_max \<Longrightarrow>
      is = [] \<or> left = 0 \<Longrightarrow> P shares is left shares"
    and last: "\<And>shares is left. split_inv parts shares is \<Longrightarrow> left \<le> u32_max \<Longrightarrow> is \<noteq> [] \<Longrightarrow>
      left \<noteq> 0 \<Longrightarrow> capped_of parts is left = [] \<Longrightarrow>
      P shares is left (assign_all (proportional parts is left) is shares)"
    and step: "\<And>shares is left r. split_inv parts shares is \<Longrightarrow> left \<le> u32_max \<Longrightarrow> is \<noteq> [] \<Longrightarrow>
      capped_of parts is left \<noteq> [] \<Longrightarrow>
      P (assign_all (cap_or_zero parts) (capped_of parts is left) shares)
        (filter (\<lambda>i. i \<notin> set (capped_of parts is left)) is)
        (left - sum_list (map (cap_or_zero parts) (capped_of parts is left))) r \<Longrightarrow>
      P shares is left r"
  shows "P shares is left (split_loop parts shares is left)"
  using inv le
proof (induction "length is" arbitrary: shares "is" left rule: less_induct)
  case less
  let ?c = "capped_of parts is left"
  show ?case
  proof (cases "is = [] \<or> left = 0")
    case True
    then show ?thesis using stop less.prems by (simp add: split_loop_stop)
  next
    case nonempty: False
    show ?thesis
    proof (cases "?c = []")
      case True
      then show ?thesis using last less.prems nonempty by (simp add: split_loop_last)
    next
      case False
      then have "length (filter (\<lambda>i. i \<notin> set ?c) is) < length is"
        by (auto simp: capped_of_def filter_empty_conv intro!: length_filter_less)
      from less.hyps [OF this split_inv_step [OF less.prems(1), of left]]
      have "P (assign_all (cap_or_zero parts) ?c shares) (filter (\<lambda>i. i \<notin> set ?c) is)
          (left - sum_list (map (cap_or_zero parts) ?c)) (split_loop parts shares is left)"
        using nonempty False less.prems by (simp add: split_loop_step)
      then show ?thesis using step less.prems nonempty False by blast
    qed
  qed
qed

lemma split_inv_init: "split_inv parts (replicate (length parts) 0)
    (filter (\<lambda>i. 0 < fst (parts ! i)) [0..<length parts])"
  by (auto simp: split_inv_def)

lemma split_length [simp]:
  assumes "tokens \<le> u32_max"
  shows "length (split tokens parts) = length parts"
  unfolding split_def using split_inv_init assms
  by (induction rule: split_loop_induct) (simp_all add: split_inv_def)

lemma split_loop_sum_le:
  assumes "split_inv parts shares is" and "left \<le> u32_max"
  shows "sum_list (split_loop parts shares is left) \<le> sum_list shares + left"
  using assms
proof (induction rule: split_loop_induct)
  case (last shares "is" left)
  then show ?case
    using proportional_sum_le [of left "is" "is" parts]
    by (subst assign_all_sum) (auto simp: split_inv_def)
next
  case (step shares "is" left r)
  then show ?case
    using capped_sum_le [of left "is" parts]
    by (simp add: split_step_sum) (simp add: split_inv_def)
qed simp

lemma split_sum_le: "tokens \<le> u32_max \<Longrightarrow> sum_list (split tokens parts) \<le> tokens"
  using split_loop_sum_le [OF split_inv_init, of tokens parts]
  by (simp add: split_def sum_list_replicate)

text \<open>A part that is not open any more keeps what it has.\<close>

lemma split_loop_closed:
  assumes "split_inv parts shares is" and "left \<le> u32_max"
  shows "\<forall>j < length parts. j \<notin> set is \<longrightarrow> split_loop parts shares is left ! j = shares ! j"
  using assms
  by (induction rule: split_loop_induct) (auto simp: split_inv_def assign_all_nth capped_of_def)

lemma split_loop_caps:
  assumes "split_inv parts shares is" and "left \<le> u32_max"
    and "\<forall>j < length parts. \<forall>cap. snd (parts ! j) = Some cap \<longrightarrow> shares ! j \<le> cap"
  shows "\<forall>j < length parts. \<forall>cap. snd (parts ! j) = Some cap \<longrightarrow>
           split_loop parts shares is left ! j \<le> cap"
  using assms
proof (induction rule: split_loop_induct)
  case (last shares "is" left)
  have "proportional parts is left j \<le> cap" if "j \<in> set is" "snd (parts ! j) = Some cap" for j cap
    using that last.hyps(5) by (auto simp: capped_of_def filter_empty_conv is_capped_def)
  then show ?case
    using last by (auto simp: assign_all_nth split_inv_def)
next
  case (step shares "is" left r)
  have "cap_or_zero parts j \<le> cap" if "snd (parts ! j) = Some cap" for j cap
    using that by (simp add: cap_or_zero_def)
  then show ?case
    using step by (auto simp: assign_all_nth split_inv_def)
qed simp

lemma length_capped_rest:
  "length is = length (capped_of parts is left)
      + length (filter (\<lambda>i. i \<notin> set (capped_of parts is left)) is)"
proof -
  have "filter (\<lambda>i. i \<notin> set (capped_of parts is left)) is = filter (\<lambda>i. \<not> is_capped parts is left i) is"
    by (rule filter_cong) (auto simp: capped_of_def)
  then show ?thesis
    using sum_length_filter_compl [of "is_capped parts is left" "is"] by (simp add: capped_of_def)
qed

text \<open>
  Nothing is stranded: either every open part receives its cap, or what is left over is less
  than one token per open part.
\<close>

lemma proportional_sum_ge:
  assumes "left \<le> u32_max" and "is \<noteq> []" and "\<forall>i \<in> set is. 0 < fst (parts ! i)"
  shows "left < sum_list (map (proportional parts is left) is) + length is"
proof -
  let ?t = "total_weight parts is"
  let ?S = "sum_list (map (proportional parts is left) is)"
  obtain i where i: "i \<in> set is" using assms(2) by (cases "is") auto
  then have "fst (parts ! i) \<le> ?t" by (auto simp: total_weight_def intro: member_le_sum_list)
  with i assms(3) have t: "0 < ?t" by fastforce
  have eq: "map (proportional parts is left) is = map (\<lambda>i. left * fst (parts ! i) div ?t) is"
    by (auto simp: proportional_exact [OF assms(1)])
  have "left * ?t \<le> ?S * ?t + length is * (?t - 1)"
    using sum_div_ge [OF t, of left "\<lambda>i. fst (parts ! i)" "is"]
    unfolding eq total_weight_def [symmetric] .
  also have "\<dots> < (?S + length is) * ?t"
    using t assms(2) by (simp add: distrib_right)
  finally show ?thesis by simp
qed

lemma split_loop_no_strand:
  assumes "split_inv parts shares is" and "left \<le> u32_max"
  shows "(\<forall>j < length parts. j \<notin> set is \<longrightarrow> split_loop parts shares is left ! j = shares ! j) \<and>
    (sum_list shares + left < sum_list (split_loop parts shares is left) + max 1 (length is)
     \<or> (\<forall>i \<in> set is. snd (parts ! i) = Some (split_loop parts shares is left ! i)))"
  using assms
proof (induction rule: split_loop_induct)
  case (stop shares "is" left)
  then show ?case by auto
next
  case (last shares "is" left)
  then have "sum_list (assign_all (proportional parts is left) is shares)
      = sum_list shares + sum_list (map (proportional parts is left) is)"
    by (intro assign_all_sum) (auto simp: split_inv_def)
  moreover have "left < sum_list (map (proportional parts is left) is) + length is"
    using last by (intro proportional_sum_ge) (auto simp: split_inv_def)
  moreover have "\<forall>j < length parts. j \<notin> set is \<longrightarrow>
      assign_all (proportional parts is left) is shares ! j = shares ! j"
    using last.hyps(1) by (simp add: assign_all_nth split_inv_def)
  ultimately show ?case by auto
next
  case (step shares "is" left r)
  let ?c = "capped_of parts is left"
  let ?is = "filter (\<lambda>i. i \<notin> set ?c) is"
  let ?s = "assign_all (cap_or_zero parts) ?c shares"
  have g: "sum_list (map (cap_or_zero parts) ?c) \<le> left"
    using step.hyps by (intro capped_sum_le) (auto simp: split_inv_def)
  have len: "max 1 (length ?is) \<le> max 1 (length is)"
    by (meson length_filter_le max.mono order_refl)
  have sub: "set ?c \<subseteq> set is" by (auto simp: capped_of_def)
  have closed: "r ! j = ?s ! j" if "j < length parts" "j \<notin> set ?is" for j
    using step.IH that by blast
  have s: "?s ! j = (if j \<in> set ?c then cap_or_zero parts j else shares ! j)" if "j < length parts" for j
    using that step.hyps(1) by (simp add: assign_all_nth split_inv_def)
  have fst_part: "\<forall>j < length parts. j \<notin> set is \<longrightarrow> r ! j = shares ! j"
    using closed s sub by auto
  have lt: "i < length parts" if "i \<in> set is" for i
    using that step.hyps(1) by (auto simp: split_inv_def)
  from step.IH consider
      (few) "sum_list ?s + (left - sum_list (map (cap_or_zero parts) ?c)) < sum_list r + max 1 (length ?is)"
    | (all) "\<forall>i \<in> set ?is. snd (parts ! i) = Some (r ! i)" by blast
  then show ?case
  proof cases
    case few
    then have "sum_list shares + left < sum_list r + max 1 (length is)"
      using g len by (simp add: split_step_sum [OF step.hyps(1)])
    then show ?thesis using fst_part by blast
  next
    case all
    have "snd (parts ! i) = Some (r ! i)" if "i \<in> set is" for i
    proof (cases "i \<in> set ?c")
      case True
      then show ?thesis using closed [OF lt [OF that]] s [OF lt [OF that]] capped_cap by simp
    next
      case False
      then show ?thesis using all that by simp
    qed
    then show ?thesis using fst_part by blast
  qed
qed

lemma split_loop_no_caps:
  assumes "split_inv parts shares is" and "left \<le> u32_max" and "\<forall>i \<in> set is. snd (parts ! i) = None"
    and "j < length parts"
  shows "split_loop parts shares is left ! j =
    (if j \<in> set is \<and> left \<noteq> 0 then left * fst (parts ! j) div total_weight parts is else shares ! j)"
proof (cases "is = [] \<or> left = 0")
  case False
  moreover have "capped_of parts is left = []"
    using assms(3) by (auto simp: capped_of_def filter_empty_conv is_capped_def)
  ultimately show ?thesis
    using assms by (simp add: split_loop_last assign_all_nth split_inv_def proportional_exact)
qed (auto simp: split_loop_stop)

text \<open>Without caps a part gets its proportion of the whole, rounded down.\<close>

lemma split_uncapped_nth:
  assumes "tokens \<le> u32_max" and "\<forall>p \<in> set parts. snd p = None" and "j < length parts"
  shows "split tokens parts ! j = tokens * fst (parts ! j) div
           total_weight parts (filter (\<lambda>i. 0 < fst (parts ! i)) [0..<length parts])"
  unfolding split_def
  using assms by (subst split_loop_no_caps [OF split_inv_init]) auto

lemma percent_exact: "p \<le> 100 \<Longrightarrow> t \<le> u32_max \<Longrightarrow> percent t p = t * p div 100"
  using div_le_mono [of "t * p" "t * 100" 100] by (simp add: percent_def u32_or_def)

lemma allocate_sel:
  "al_lead (allocate available plan) =
     min (max (percent available lead_reserve_percent) (min (op_lead_floor plan) (available div 2)))
       available"
  "al_follow_up (allocate available plan) =
     min (if op_follow_up plan then percent available follow_up_reserve_percent else 0)
       (available - al_lead (allocate available plan))"
  "al_shares (allocate available plan) =
     split (available - al_lead (allocate available plan) - al_follow_up (allocate available plan))
       (map (\<lambda>s. (weight (pl_demand s), None)) (op_shares plan))"
  "al_unallocated (allocate available plan) =
     available - al_lead (allocate available plan) - al_follow_up (allocate available plan)
       - sat_sum32 0 (al_shares (allocate available plan))"
  unfolding allocate_def Let_def by (simp_all only: allocation.simps)

lemma allocate_parts:
  assumes "available \<le> u32_max"
  shows "al_lead (allocate available plan) + al_follow_up (allocate available plan)
       + sum_list (al_shares (allocate available plan)) + al_unallocated (allocate available plan)
       = available"
    and "length (al_shares (allocate available plan)) = length (op_shares plan)"
proof -
  let ?a = "allocate available plan"
  let ?parts = "map (\<lambda>s. (weight (pl_demand s), None)) (op_shares plan)"
  let ?workers = "available - al_lead ?a - al_follow_up ?a"
  have lead: "al_lead ?a \<le> available" and fu: "al_follow_up ?a \<le> available - al_lead ?a"
    by (simp_all add: allocate_sel(1,2))
  have w: "?workers \<le> u32_max" using assms by simp
  have shares: "al_shares ?a = split ?workers ?parts"
    and un: "al_unallocated ?a = ?workers - sat_sum32 0 (al_shares ?a)"
    by (rule allocate_sel)+
  have le: "sum_list (al_shares ?a) \<le> ?workers"
    unfolding shares by (rule split_sum_le [OF w])
  then have "sat_sum32 0 (al_shares ?a) = sum_list (al_shares ?a)"
    using w by (simp add: sat_sum32_exact)
  with un le lead fu
  show "al_lead ?a + al_follow_up ?a + sum_list (al_shares ?a) + al_unallocated ?a = available"
    by simp
  show "length (al_shares ?a) = length (op_shares plan)"
    unfolding shares using w by simp
qed

section \<open>Properties\<close>

text \<open>
  A split never gives more than it was given, keeps every part at or below its cap, gives a
  part of weight zero nothing, and strands nothing: either what is left over is less than one
  token per part, or every part with a weight received exactly its cap.
\<close>

theorem split_is_sound_and_complete:
  assumes "tokens \<le> u32_max"
  shows "length (split tokens parts) = length parts \<and>
    sum_list (split tokens parts) \<le> tokens \<and>
    (\<forall>j < length parts. \<forall>cap. snd (parts ! j) = Some cap \<longrightarrow> split tokens parts ! j \<le> cap) \<and>
    (\<forall>j < length parts. fst (parts ! j) = 0 \<longrightarrow> split tokens parts ! j = 0) \<and>
    (tokens < sum_list (split tokens parts) + max 1 (length parts) \<or>
     (\<forall>j < length parts. 0 < fst (parts ! j) \<longrightarrow> snd (parts ! j) = Some (split tokens parts ! j)))"
proof -
  let ?is = "filter (\<lambda>i. 0 < fst (parts ! i)) [0..<length parts]"
  let ?z = "replicate (length parts) (0::nat)"
  note inv = split_inv_init [of parts]
  have caps: "\<forall>j < length parts. \<forall>cap. snd (parts ! j) = Some cap \<longrightarrow> split tokens parts ! j \<le> cap"
    unfolding split_def by (rule split_loop_caps [OF inv assms]) simp
  note ns = split_loop_no_strand [OF inv assms]
  have zero: "\<forall>j < length parts. fst (parts ! j) = 0 \<longrightarrow> split tokens parts ! j = 0"
    using ns by (auto simp: split_def)
  have "length ?is \<le> length parts"
    by (metis diff_zero length_filter_le length_upt)
  then have "tokens < sum_list (split tokens parts) + max 1 (length parts) \<or>
      (\<forall>j \<in> set ?is. snd (parts ! j) = Some (split tokens parts ! j))"
    using ns unfolding split_def by (fastforce simp: sum_list_replicate)
  then show ?thesis
    using caps zero assms by (auto simp: split_sum_le)
qed

theorem split_is_sound_and_complete_witness:
  "sum_list (split 100 [(1, Some 10), (2, None), (0, None), (3, Some 1000)]) \<le> 100"
  using split_is_sound_and_complete [of 100 "[(1, Some 10), (2, None), (0, None), (3, Some 1000)]"]
  by (simp add: u32_max_def)

text \<open>
  Dividing a pool conserves it: the lead's reserve, the follow-up reserve, the roles' shares
  and the unallocated rest add up to exactly what was available. The lead gets at least a
  quarter, and its own floor unless that is more than half; roles of equal demand get equal
  shares, and a heavier role never less than a lighter one.
\<close>

theorem allocate_conserves_and_orders:
  assumes "available \<le> u32_max"
  shows "(let a = allocate available plan in
    al_lead a + al_follow_up a + sum_list (al_shares a) + al_unallocated a = available \<and>
    available * 25 div 100 \<le> al_lead a \<and>
    min (op_lead_floor plan) (available div 2) \<le> al_lead a \<and>
    (\<not> op_follow_up plan \<longrightarrow> al_follow_up a = 0) \<and>
    (\<forall>i < length (op_shares plan). \<forall>j < length (op_shares plan).
       weight (pl_demand (op_shares plan ! i)) \<le> weight (pl_demand (op_shares plan ! j)) \<longrightarrow>
       al_shares a ! i \<le> al_shares a ! j))"
proof -
  let ?a = "allocate available plan"
  let ?parts = "map (\<lambda>s. (weight (pl_demand s), None :: nat option)) (op_shares plan)"
  have q: "available * 25 div 100 \<le> available" "available div 2 \<le> available" by simp_all
  have lead: "available * 25 div 100 \<le> al_lead ?a" "min (op_lead_floor plan) (available div 2) \<le> al_lead ?a"
    using assms q by (auto simp: allocate_sel(1) percent_exact lead_reserve_percent_def)
  have fu: "\<not> op_follow_up plan \<longrightarrow> al_follow_up ?a = 0"
    by (simp add: allocate_sel(2))
  obtain w where shares: "al_shares ?a = split w ?parts" and w: "w \<le> u32_max"
    using assms by (simp add: allocate_sel(3))
  have "al_shares ?a ! i \<le> al_shares ?a ! j"
    if "i < length (op_shares plan)" "j < length (op_shares plan)"
      "weight (pl_demand (op_shares plan ! i)) \<le> weight (pl_demand (op_shares plan ! j))" for i j
    unfolding shares using that w
    by (simp add: split_uncapped_nth div_le_mono)
  then show ?thesis
    unfolding Let_def using lead fu allocate_parts(1) [OF assms, of plan] by blast
qed

definition sample_plan :: output_plan where
  "sample_plan = \<lparr>op_source = ''role_defaults'', op_fallback_reason = None,
     op_shares = [\<lparr>pl_role = ''researcher'', pl_demand = Light\<rparr>, \<lparr>pl_role = ''coder'', pl_demand = Heavy\<rparr>],
     op_lead_floor = 2048, op_follow_up = True\<rparr>"

theorem allocate_conserves_and_orders_witness:
  "al_lead (allocate 16000 sample_plan) + al_follow_up (allocate 16000 sample_plan)
     + sum_list (al_shares (allocate 16000 sample_plan)) + al_unallocated (allocate 16000 sample_plan)
   = 16000"
  using allocate_conserves_and_orders [of 16000 sample_plan] by (simp add: u32_max_def Let_def)

end
