(* ===== verification/OutputPool.thy ===== *)
theory OutputPool
  imports Allocation
begin

text \<open>
  The run-wide output pool (\<open>OutputPool\<close>, \<open>PoolState\<close>, \<open>PlanState\<close>, \<open>ShareClaim\<close> and
  \<open>Reservation\<close> in \<open>crates/lightagent-core/src/generation.rs\<close>): reservations and their
  settlement, the installed plan's accounts, and the claims of started workers.

  Every handle shares one \<open>PoolState\<close> behind a mutex and each method holds the lock for its
  whole body, so a method is one atomic step on that state; the handle itself is its account.
  A poisoned lock (a panic while it was held) is not modelled.
\<close>

section \<open>State\<close>

definition min_grant :: nat where
  "min_grant = 16"

definition default_turn_tokens :: nat where
  "default_turn_tokens = 2048"

datatype stage = Planned | Running | Released

fun stage_as_str :: "stage \<Rightarrow> string" where
  "stage_as_str Planned = ''planned''"
| "stage_as_str Running = ''running''"
| "stage_as_str Released = ''released''"

record share_state =
  sh_role :: string
  sh_demand :: demand
  sh_planned :: nat
  sh_cap :: "nat option"
  sh_left :: nat
  sh_stage :: stage

record plan_state =
  ps_plan :: output_plan
  ps_lead :: nat
  ps_lead_left :: nat
  ps_follow_up :: nat
  ps_follow_up_left :: nat
  ps_shares :: "share_state list"

record pool_state =
  po_total :: nat
  po_spent :: nat
  po_reserved :: nat
  po_estimated :: bool
  po_turn_tokens :: nat
  po_overrun :: nat
  po_plan :: "plan_state option"

record reach =
  re_own :: nat
  re_follow_up :: nat
  re_free :: nat
  re_unstarted :: nat

record reservation =
  rv_account :: account
  rv_tokens :: nat
  rv_own :: nat
  rv_follow_up :: nat
  rv_lent :: "(nat \<times> nat) list"

section \<open>Operations on the accounts of a plan\<close>

definition held :: "plan_state \<Rightarrow> nat" where
  "held ps = sat_sum32 (sat_add32 (ps_lead_left ps) (ps_follow_up_left ps))
               (map sh_left (ps_shares ps))"

definition unstarted :: "plan_state \<Rightarrow> nat" where
  "unstarted ps = sat_sum32 0 (map sh_left (filter (\<lambda>s. sh_stage s = Planned) (ps_shares ps)))"

definition own_of :: "plan_state \<Rightarrow> account \<Rightarrow> nat" where
  "own_of ps acc =
     (case acc of
        Lead \<Rightarrow> ps_lead_left ps
      | Share role \<Rightarrow>
          (case find (\<lambda>s. sh_role s = role \<and> sh_stage s = Running) (ps_shares ps) of
             None \<Rightarrow> 0 | Some s \<Rightarrow> sh_left s)
      | FollowUp \<Rightarrow> 0
      | Unplanned \<Rightarrow> 0)"

text \<open>The loop of \<open>lend\<close>, with the index of the first share of the list.\<close>

fun lend_loop :: "nat \<Rightarrow> nat \<Rightarrow> share_state list \<Rightarrow> (nat \<times> nat) list \<times> share_state list" where
  "lend_loop i tokens [] = ([], [])"
| "lend_loop i tokens (s # ss) =
     (if tokens = 0 then ([], s # ss)
      else if sh_stage s \<noteq> Planned \<or> sh_left s = 0 then
        (let (lent, rest) = lend_loop (Suc i) tokens ss in (lent, s # rest))
      else
        (let taken = min tokens (sh_left s);
             (lent, rest) = lend_loop (Suc i) (tokens - taken) ss
         in ((i, taken) # lent, s\<lparr>sh_left := sh_left s - taken\<rparr> # rest)))"

definition lend :: "nat \<Rightarrow> plan_state \<Rightarrow> (nat \<times> nat) list \<times> plan_state" where
  "lend tokens ps =
     (let (lent, shares) = lend_loop 0 tokens (ps_shares ps) in (lent, ps\<lparr>ps_shares := shares\<rparr>))"

definition with_share :: "string \<Rightarrow> (share_state \<Rightarrow> share_state) \<Rightarrow> plan_state \<Rightarrow> plan_state" where
  "with_share role f ps = ps\<lparr>ps_shares := update_first (\<lambda>s. sh_role s = role) f (ps_shares ps)\<rparr>"

definition plan_take :: "account \<Rightarrow> nat \<Rightarrow> nat \<Rightarrow> plan_state \<Rightarrow> plan_state" where
  "plan_take acc own follow_up ps =
     (let ps = (case acc of
          Lead \<Rightarrow> ps\<lparr>ps_lead_left := ps_lead_left ps - own\<rparr>
        | Share role \<Rightarrow> with_share role (\<lambda>s. s\<lparr>sh_left := sh_left s - own\<rparr>) ps
        | FollowUp \<Rightarrow> ps
        | Unplanned \<Rightarrow> ps)
      in ps\<lparr>ps_follow_up_left := ps_follow_up_left ps - follow_up\<rparr>)"

definition repay :: "nat \<Rightarrow> nat \<Rightarrow> plan_state \<Rightarrow> plan_state" where
  "repay index tokens ps =
     (if index < length (ps_shares ps) \<and> sh_stage (ps_shares ps ! index) \<noteq> Released
      then ps\<lparr>ps_shares := (ps_shares ps)[index :=
             (ps_shares ps ! index)\<lparr>sh_left := sat_add32 (sh_left (ps_shares ps ! index)) tokens\<rparr>]\<rparr>
      else ps)"

definition give_back :: "account \<Rightarrow> nat \<Rightarrow> nat \<Rightarrow> plan_state \<Rightarrow> plan_state" where
  "give_back acc own follow_up ps =
     (let ps = (case acc of
          Lead \<Rightarrow> ps\<lparr>ps_lead_left := sat_add32 (ps_lead_left ps) own\<rparr>
        | Share role \<Rightarrow> with_share role
            (\<lambda>s. if sh_stage s = Running then s\<lparr>sh_left := sat_add32 (sh_left s) own\<rparr> else s) ps
        | FollowUp \<Rightarrow> ps
        | Unplanned \<Rightarrow> ps)
      in ps\<lparr>ps_follow_up_left := sat_add32 (ps_follow_up_left ps) follow_up\<rparr>)"

definition add_extra :: "nat \<Rightarrow> share_state \<Rightarrow> share_state" where
  "add_extra extra s =
     s\<lparr>sh_planned := sat_add32 (sh_planned s) extra, sh_left := sat_add32 (sh_left s) extra\<rparr>"

definition redistribute :: "nat \<Rightarrow> plan_state \<Rightarrow> plan_state" where
  "redistribute tokens ps =
     (let waiting = filter (\<lambda>i. sh_stage (ps_shares ps ! i) = Planned) [0..<length (ps_shares ps)];
          parts = map (\<lambda>i. (weight (sh_demand (ps_shares ps ! i)), None)) waiting
      in ps\<lparr>ps_shares := foldl (\<lambda>ss (i, extra). ss[i := add_extra extra (ss ! i)]) (ps_shares ps)
             (zip waiting (split tokens parts))\<rparr>)"

section \<open>Operations on the pool\<close>

definition pool_new :: "nat \<Rightarrow> pool_state" where
  "pool_new tokens = \<lparr>po_total = tokens, po_spent = 0, po_reserved = 0, po_estimated = False,
     po_turn_tokens = default_turn_tokens, po_overrun = 0, po_plan = None\<rparr>"

definition with_turn_tokens :: "nat \<Rightarrow> pool_state \<Rightarrow> pool_state" where
  "with_turn_tokens tokens st = st\<lparr>po_turn_tokens := max tokens min_grant\<rparr>"

definition pool_free :: "pool_state \<Rightarrow> nat" where
  "pool_free st = po_total st - po_spent st - po_reserved st
     - (case po_plan st of None \<Rightarrow> 0 | Some ps \<Rightarrow> held ps)"

definition reachable :: "pool_state \<Rightarrow> account \<Rightarrow> turn_purpose \<Rightarrow> reach" where
  "reachable st acc purpose =
     (case po_plan st of
        None \<Rightarrow> \<lparr>re_own = 0, re_follow_up = 0, re_free = pool_free st, re_unstarted = 0\<rparr>
      | Some ps \<Rightarrow>
          (let lead_final = (acc = Lead \<and> is_final purpose)
           in \<lparr>re_own = own_of ps acc,
               re_follow_up = (if lead_final \<or> purpose = Continuation \<or> acc = FollowUp
                               then ps_follow_up_left ps else 0),
               re_free = pool_free st,
               re_unstarted = (if lead_final then unstarted ps else 0)\<rparr>))"

definition reach_total :: "reach \<Rightarrow> nat" where
  "reach_total r =
     sat_add32 (sat_add32 (sat_add32 (re_own r) (re_follow_up r)) (re_free r)) (re_unstarted r)"

definition available_in :: "pool_state \<Rightarrow> account \<Rightarrow> turn_purpose \<Rightarrow> nat" where
  "available_in st acc purpose = reach_total (reachable st acc purpose)"

text \<open>Where the tokens of a grant come from: the follow-up reserve and the unstarted shares.\<close>

definition draw :: "account \<Rightarrow> reach \<Rightarrow> nat \<Rightarrow> nat \<times> nat" where
  "draw acc reach rest =
     (if acc = Lead then
        (let rest' = rest - min rest (re_free reach);
             from_follow_up = min rest' (re_follow_up reach)
         in (from_follow_up, min (rest' - from_follow_up) (re_unstarted reach)))
      else (min rest (re_follow_up reach), 0))"

definition grant_tokens :: "nat option \<Rightarrow> nat \<Rightarrow> nat" where
  "grant_tokens ask available =
     max (case ask of None \<Rightarrow> available | Some a \<Rightarrow> min a available) 1"

definition draw_plan ::
  "account \<Rightarrow> nat \<Rightarrow> nat \<Rightarrow> nat \<Rightarrow> plan_state option \<Rightarrow> (nat \<times> nat) list \<times> plan_state option" where
  "draw_plan acc from_own from_follow_up from_unstarted plan =
     (case plan of
        None \<Rightarrow> ([], None)
      | Some ps \<Rightarrow>
          (let (l, ps') = lend from_unstarted (plan_take acc from_own from_follow_up ps)
           in (l, Some ps')))"

definition reserve_in ::
  "pool_state \<Rightarrow> account \<Rightarrow> nat option \<Rightarrow> turn_purpose \<Rightarrow> (reservation \<times> pool_state) option" where
  "reserve_in st acc ask purpose =
     (if po_overrun st > 0 then None
      else
        let reach = reachable st acc purpose;
            available = reach_total reach
        in if available < min_grant then None
           else
             let tokens = grant_tokens ask available;
                 from_own = min tokens (re_own reach);
                 (from_follow_up, from_unstarted) = draw acc reach (tokens - from_own);
                 (lent, plan) = draw_plan acc from_own from_follow_up from_unstarted (po_plan st)
             in Some (\<lparr>rv_account = acc, rv_tokens = tokens, rv_own = from_own,
                       rv_follow_up = from_follow_up, rv_lent = lent\<rparr>,
                      st\<lparr>po_plan := plan, po_reserved := sat_add32 (po_reserved st) tokens\<rparr>))"

text \<open>The repayment loop of \<open>charge\<close>: \<open>rest\<close> is what of the use is not yet accounted for.\<close>

fun repay_loop :: "nat \<Rightarrow> (nat \<times> nat) list \<Rightarrow> plan_state \<Rightarrow> plan_state" where
  "repay_loop rest [] ps = ps"
| "repay_loop rest ((index, lent) # ls) ps =
     (let used_lent = min rest lent
      in repay_loop (rest - used_lent) ls (repay index (lent - used_lent) ps))"

definition settle_plan :: "reservation \<Rightarrow> nat \<Rightarrow> plan_state \<Rightarrow> plan_state" where
  "settle_plan rv used ps =
     (let used_own = min used (rv_own rv);
          rest = used - used_own;
          used_follow_up = min rest (rv_follow_up rv)
      in repay_loop (rest - used_follow_up) (rv_lent rv)
           (give_back (rv_account rv) (rv_own rv - used_own) (rv_follow_up rv - used_follow_up) ps))"

definition charge :: "pool_state \<Rightarrow> reservation \<Rightarrow> nat option \<Rightarrow> pool_state" where
  "charge st rv used =
     (let reserved = rv_tokens rv;
          st = st\<lparr>po_reserved := po_reserved st - reserved,
                  po_spent := sat_add32 (po_spent st) (case used of None \<Rightarrow> reserved | Some u \<Rightarrow> u),
                  po_estimated := (po_estimated st \<or> used = None)\<rparr>
      in case used of
           None \<Rightarrow> st
         | Some u \<Rightarrow> st\<lparr>po_overrun := sat_add32 (po_overrun st) (u - reserved),
                        po_plan := map_option (settle_plan rv u) (po_plan st)\<rparr>)"

definition install :: "pool_state \<Rightarrow> output_plan \<Rightarrow> (string + allocation) \<times> pool_state" where
  "install st plan =
     (case validate plan of
        Inl e \<Rightarrow> (Inl e, st)
      | Inr _ \<Rightarrow>
          if po_plan st \<noteq> None then (Inl ''already_installed'', st)
          else if po_overrun st > 0 then (Inl ''overrun'', st)
          else
            let al = allocate (pool_free st) plan;
                shares = map (\<lambda>(share, tokens).
                    \<lparr>sh_role = pl_role share, sh_demand = pl_demand share, sh_planned = tokens,
                     sh_cap = None, sh_left = tokens, sh_stage = Planned\<rparr>)
                  (zip (op_shares plan) (al_shares al))
            in (Inr al, st\<lparr>po_plan := Some \<lparr>ps_plan = plan, ps_lead = al_lead al,
                  ps_lead_left = al_lead al, ps_follow_up = al_follow_up al,
                  ps_follow_up_left = al_follow_up al, ps_shares = shares\<rparr>\<rparr>))"

text \<open>The account of the new handle, whether it holds a claim, and the state.\<close>

definition claim :: "pool_state \<Rightarrow> string \<Rightarrow> nat option \<Rightarrow> account \<times> bool \<times> pool_state" where
  "claim st role cap =
     (case po_plan st of
        None \<Rightarrow> (Unplanned, False, st)
      | Some ps \<Rightarrow>
          (case find (\<lambda>s. sh_role s = role) (ps_shares ps) of
             None \<Rightarrow> (Unplanned, False, st)
           | Some share \<Rightarrow>
               if sh_stage share \<noteq> Planned then (FollowUp, False, st)
               else
                 let excess = (case cap of None \<Rightarrow> 0 | Some c \<Rightarrow> sh_left share - c);
                     ps' = with_share role (\<lambda>s. s\<lparr>sh_stage := Running, sh_cap := cap,
                       sh_left := sh_left s - excess, sh_planned := sh_planned s - excess\<rparr>) ps
                 in (Share role, True, st\<lparr>po_plan := Some (redistribute excess ps')\<rparr>)))"

definition release :: "pool_state \<Rightarrow> string \<Rightarrow> pool_state" where
  "release st role =
     (case po_plan st of
        None \<Rightarrow> st
      | Some ps \<Rightarrow> st\<lparr>po_plan := Some (with_share role
          (\<lambda>s. if sh_stage s = Running then s\<lparr>sh_stage := Released, sh_left := 0\<rparr> else s) ps)\<rparr>)"

section \<open>The amounts the accounts hold\<close>

text \<open>The exact sums behind the saturating ones.\<close>

definition shares_left :: "share_state list \<Rightarrow> nat" where
  "shares_left ss = sum_list (map sh_left ss)"

definition plan_hold :: "plan_state \<Rightarrow> nat" where
  "plan_hold ps = ps_lead_left ps + ps_follow_up_left ps + shares_left (ps_shares ps)"

definition pool_hold :: "pool_state \<Rightarrow> nat" where
  "pool_hold st = (case po_plan st of None \<Rightarrow> 0 | Some ps \<Rightarrow> plan_hold ps)"

definition plan_ok :: "plan_state \<Rightarrow> bool" where
  "plan_ok ps \<longleftrightarrow> distinct (map sh_role (ps_shares ps))"

lemma held_exact [u32_simps]: "plan_hold ps \<le> u32_max \<Longrightarrow> held ps = plan_hold ps"
  by (simp add: held_def plan_hold_def shares_left_def sat_add32_exact sat_sum32_exact)

lemma sum_filter_stage_le: "sum_list (map sh_left (filter P ss)) \<le> shares_left ss"
  by (simp add: shares_left_def sum_list_filter_le)

lemma unstarted_exact:
  "plan_hold ps \<le> u32_max \<Longrightarrow>
     unstarted ps = sum_list (map sh_left (filter (\<lambda>s. sh_stage s = Planned) (ps_shares ps)))"
  using sum_filter_stage_le [of "\<lambda>s. sh_stage s = Planned" "ps_shares ps"]
  by (simp add: unstarted_def sat_sum32_exact plan_hold_def)

lemma unstarted_le: "plan_hold ps \<le> u32_max \<Longrightarrow> unstarted ps \<le> shares_left (ps_shares ps)"
  by (simp add: unstarted_exact sum_filter_stage_le)

lemma find_role_running:
  assumes "distinct (map sh_role ss)"
    and "find (\<lambda>s. sh_role s = role \<and> sh_stage s = Running) ss = Some s"
  shows "find (\<lambda>s. sh_role s = role) ss = Some s"
  using assms by (induction ss) (auto split: if_splits dest!: find_SomeD)

lemma with_share_ok: "(\<And>s. sh_role (f s) = sh_role s) \<Longrightarrow> plan_ok (with_share role f ps) = plan_ok ps"
  by (simp add: plan_ok_def with_share_def update_first_map)

lemma with_share_hold:
  assumes "find (\<lambda>s. sh_role s = role) (ps_shares ps) = Some s"
  shows "plan_hold (with_share role f ps) + sh_left s = plan_hold ps + sh_left (f s)"
  using update_first_sum [OF assms, of sh_left f] by (simp add: with_share_def plan_hold_def shares_left_def)

lemma with_share_none:
  "find (\<lambda>s. sh_role s = role) (ps_shares ps) = None \<Longrightarrow> with_share role f ps = ps"
  by (simp add: with_share_def update_first_none)

lemma own_of_le: "own_of ps acc \<le> plan_hold ps"
  using find_le_sum [of _ "ps_shares ps" _ sh_left]
  by (cases acc) (auto simp: own_of_def plan_hold_def shares_left_def split: option.splits
      intro: trans_le_add2)

text \<open>Lending: what is lent comes out of the shares not started, and no more than is there.\<close>

lemma lend_loop_sum:
  assumes "lend_loop i tokens ss = (lent, ss')"
  shows "sum_list (map snd lent) = min tokens (sum_list (map sh_left (filter (\<lambda>s. sh_stage s = Planned) ss)))
    \<and> shares_left ss' + sum_list (map snd lent) = shares_left ss
    \<and> map sh_role ss' = map sh_role ss \<and> map sh_stage ss' = map sh_stage ss \<and> length ss' = length ss"
  using assms
proof (induction i tokens ss arbitrary: lent ss' rule: lend_loop.induct)
  case (2 i tokens s ss)
  consider (stop) "tokens = 0" | (skip) "tokens \<noteq> 0" "sh_stage s \<noteq> Planned \<or> sh_left s = 0"
    | (take) "tokens \<noteq> 0" "\<not> (sh_stage s \<noteq> Planned \<or> sh_left s = 0)"
    by metis
  then show ?case
  proof cases
    case stop
    then show ?thesis using "2.prems" by auto
  next
    case skip
    then obtain r where r: "lend_loop (Suc i) tokens ss = (lent, r)" and ss': "ss' = s # r"
      using "2.prems" by (auto split: prod.splits)
    show ?thesis using "2.IH"(1) [OF skip r] skip(2) by (auto simp: ss' shares_left_def)
  next
    case take
    let ?t = "min tokens (sh_left s)"
    obtain l r where r: "lend_loop (Suc i) (tokens - ?t) ss = (l, r)"
      and lent: "lent = (i, ?t) # l" and ss': "ss' = s\<lparr>sh_left := sh_left s - ?t\<rparr> # r"
      using "2.prems" take by (auto simp: Let_def split: prod.splits)
    have "sum_list (map snd l) = min (tokens - ?t) (sum_list (map sh_left (filter (\<lambda>s. sh_stage s = Planned) ss)))
      \<and> shares_left r + sum_list (map snd l) = shares_left ss
      \<and> map sh_role r = map sh_role ss \<and> map sh_stage r = map sh_stage ss \<and> length r = length ss"
      using "2.IH"(2) [OF take(1) _ _ r] take(2) by simp
    then show ?thesis using take(2) by (auto simp: ss' lent shares_left_def)
  qed
qed simp

lemma lend_hold:
  assumes "lend tokens ps = (lent, ps')" and "plan_hold ps \<le> u32_max"
  shows "sum_list (map snd lent) = min tokens (unstarted ps)"
    and "plan_hold ps' + sum_list (map snd lent) = plan_hold ps"
    and "plan_ok ps' = plan_ok ps"
    and "ps_lead_left ps' = ps_lead_left ps" and "ps_follow_up_left ps' = ps_follow_up_left ps"
proof -
  obtain ss where l: "lend_loop 0 tokens (ps_shares ps) = (lent, ss)" and ps': "ps' = ps\<lparr>ps_shares := ss\<rparr>"
    using assms(1) by (auto simp: lend_def split: prod.splits)
  note * = lend_loop_sum [OF l]
  show "sum_list (map snd lent) = min tokens (unstarted ps)"
    using * by (simp add: unstarted_exact [OF assms(2)])
  show "plan_hold ps' + sum_list (map snd lent) = plan_hold ps"
    using * by (simp add: ps' plan_hold_def)
  show "plan_ok ps' = plan_ok ps" using * by (simp add: ps' plan_ok_def)
qed (use assms(1) in \<open>auto simp: lend_def split: prod.splits\<close>)

lemma plan_take_hold:
  assumes "plan_ok ps" and "own \<le> own_of ps acc" and "follow_up \<le> ps_follow_up_left ps"
  shows "plan_hold (plan_take acc own follow_up ps) + own + follow_up = plan_hold ps"
proof (cases acc)
  case (Share role)
  show ?thesis
  proof (cases "find (\<lambda>s. sh_role s = role \<and> sh_stage s = Running) (ps_shares ps)")
    case None
    then have "own = 0" using assms(2) by (simp add: Share own_of_def)
    then show ?thesis using assms(3) by (simp add: plan_take_def Share plan_hold_def with_share_def)
  next
    case (Some s)
    then have f: "find (\<lambda>s. sh_role s = role) (ps_shares ps) = Some s" and le: "own \<le> sh_left s"
      using assms by (auto simp: own_of_def Share plan_ok_def intro: find_role_running)
    let ?g = "\<lambda>s. s\<lparr>sh_left := sh_left s - own\<rparr>"
    have "plan_hold (with_share role ?g ps) + own = plan_hold ps"
      using with_share_hold [OF f, of ?g] le by simp
    moreover have "ps_follow_up_left (with_share role ?g ps) = ps_follow_up_left ps"
      by (simp add: with_share_def)
    ultimately show ?thesis using assms(3) by (simp add: plan_take_def Share plan_hold_def)
  qed
qed (use assms in \<open>simp_all add: plan_take_def plan_hold_def own_of_def\<close>)

lemma plan_take_ok [simp]: "plan_ok (plan_take acc own follow_up ps) = plan_ok ps"
  by (cases acc) (simp_all add: plan_take_def plan_ok_def with_share_def update_first_map)

lemma with_share_le:
  assumes "\<And>s. sh_left (f s) \<le> sh_left s + d"
  shows "plan_hold (with_share role f ps) \<le> plan_hold ps + d"
proof (cases "find (\<lambda>s. sh_role s = role) (ps_shares ps)")
  case (Some s)
  then show ?thesis using with_share_hold [OF Some, of f] assms [of s] by linarith
qed (simp add: with_share_none)

lemma give_back_hold: "plan_hold (give_back acc own follow_up ps) \<le> plan_hold ps + own + follow_up"
proof -
  let ?f = "\<lambda>s. if sh_stage s = Running then s\<lparr>sh_left := sat_add32 (sh_left s) own\<rparr> else s"
  let ?fu = "\<lambda>q. q\<lparr>ps_follow_up_left := sat_add32 (ps_follow_up_left q) follow_up\<rparr>"
  have fu: "plan_hold (?fu q) \<le> plan_hold ps + own + follow_up" if "plan_hold q \<le> plan_hold ps + own" for q
    using that sat_add32_le(1) [of "ps_follow_up_left q" follow_up]
    by (simp add: plan_hold_def del: sat_add32_le)
  have lead: "plan_hold (ps\<lparr>ps_lead_left := sat_add32 (ps_lead_left ps) own\<rparr>) \<le> plan_hold ps + own"
    using sat_add32_le(1) [of "ps_lead_left ps" own]
    by (simp add: plan_hold_def del: sat_add32_le)
  show ?thesis
  proof (cases acc)
    case Lead
    then show ?thesis using fu [OF lead] by (simp add: give_back_def)
  next
    case (Share role)
    have "plan_hold (with_share role ?f ps) \<le> plan_hold ps + own"
      by (rule with_share_le) simp
    from fu [OF this] show ?thesis by (simp add: give_back_def Share Let_def)
  qed (use fu [of ps] in \<open>simp_all add: give_back_def Let_def\<close>)
qed

lemma give_back_ok [simp]: "plan_ok (give_back acc own follow_up ps) = plan_ok ps"
  by (cases acc) (simp_all add: give_back_def plan_ok_def with_share_def update_first_map)

lemma repay_hold: "plan_hold (repay index tokens ps) \<le> plan_hold ps + tokens"
proof (cases "index < length (ps_shares ps)")
  case True
  then have "sh_left (ps_shares ps ! index) \<le> shares_left (ps_shares ps)"
    by (simp add: shares_left_def member_le_sum_list)
  moreover have "sat_add32 (sh_left (ps_shares ps ! index)) tokens \<le> sh_left (ps_shares ps ! index) + tokens"
    by (rule sat_add32_le)
  ultimately show ?thesis using True
    by (auto simp: repay_def plan_hold_def shares_left_def map_update sum_list_update
        simp del: sat_add32_le)
qed (simp add: repay_def)

lemma repay_ok [simp]: "plan_ok (repay index tokens ps) = plan_ok ps"
  by (simp add: repay_def plan_ok_def map_update_same)

lemma repay_loop_hold:
  "plan_hold (repay_loop rest ls ps) + min rest (sum_list (map snd ls)) \<le> plan_hold ps + sum_list (map snd ls)"
proof (induction rest ls ps rule: repay_loop.induct)
  case (2 rest index lent ls ps)
  let ?u = "min rest lent" and ?S = "sum_list (map snd ls)"
  have "plan_hold (repay index (lent - ?u) ps) \<le> plan_hold ps + (lent - ?u)"
    by (rule repay_hold)
  moreover have "min rest (lent + ?S) \<le> ?u + min (rest - ?u) ?S" and "?u \<le> lent" by auto
  moreover have "plan_hold (repay_loop (rest - ?u) ls (repay index (lent - ?u) ps)) + min (rest - ?u) ?S
      \<le> plan_hold (repay index (lent - ?u) ps) + ?S"
    using "2.IH" by blast
  ultimately have "plan_hold (repay_loop (rest - ?u) ls (repay index (lent - ?u) ps)) + min rest (lent + ?S)
      \<le> plan_hold ps + (lent + ?S)" by linarith
  then show ?case by (simp add: Let_def)
qed simp

lemma repay_loop_ok [simp]: "plan_ok (repay_loop rest ls ps) = plan_ok ps"
  by (induction rest ls ps rule: repay_loop.induct) (simp_all add: Let_def)

lemma settle_arith:
  fixes a b l t u :: nat
  assumes "a + b + l \<le> t"
  shows "(a - min u a) + (b - min (u - min u a) b)
       + (l - min (u - min u a - min (u - min u a) b) l) \<le> t - u"
  using assms by (cases "u \<le> a"; cases "u - a \<le> b"; cases "u - a - b \<le> l") auto

lemma settle_combine:
  fixes d g h l m r x y :: nat
  assumes "g \<le> h + x + y" and "r + m \<le> g + l" and "m \<le> l" and "x + y + (l - m) \<le> d"
  shows "r \<le> h + d"
  using assms by linarith

lemma settle_plan_hold:
  assumes "rv_own rv + rv_follow_up rv + sum_list (map snd (rv_lent rv)) \<le> rv_tokens rv"
  shows "plan_hold (settle_plan rv used ps) \<le> plan_hold ps + (rv_tokens rv - used)"
proof -
  let ?uo = "min used (rv_own rv)"
  let ?uf = "min (used - ?uo) (rv_follow_up rv)"
  let ?g = "give_back (rv_account rv) (rv_own rv - ?uo) (rv_follow_up rv - ?uf) ps"
  let ?l = "sum_list (map snd (rv_lent rv))"
  have "plan_hold (repay_loop (used - ?uo - ?uf) (rv_lent rv) ?g)
      \<le> plan_hold ps + (rv_tokens rv - used)"
    by (rule settle_combine [OF give_back_hold repay_loop_hold min.cobounded2 settle_arith [OF assms]])
  then show ?thesis by (simp add: settle_plan_def Let_def)
qed

lemma settle_plan_ok [simp]: "plan_ok (settle_plan rv used ps) = plan_ok ps"
  by (simp add: settle_plan_def Let_def)

lemma foldl_extra_hold:
  assumes "\<forall>i \<in> set is. i < length ss"
  shows "shares_left (foldl (\<lambda>ss (i, extra). ss[i := add_extra extra (ss ! i)]) ss (zip is es))
      \<le> shares_left ss + sum_list es
    \<and> map sh_role (foldl (\<lambda>ss (i, extra). ss[i := add_extra extra (ss ! i)]) ss (zip is es)) = map sh_role ss"
  using assms
proof (induction "is" es arbitrary: ss rule: list_induct2')
  case (4 i "is" e es)
  let ?s = "ss[i := add_extra e (ss ! i)]"
  have "sh_left (ss ! i) \<le> shares_left ss" and i: "i < length ss"
    using "4.prems" by (auto simp: shares_left_def member_le_sum_list)
  then have "shares_left ?s \<le> shares_left ss + e"
    using sat_add32_le(1) [of "sh_left (ss ! i)" e]
    by (simp add: shares_left_def map_update sum_list_update add_extra_def del: sat_add32_le)
  moreover have "map sh_role ?s = map sh_role ss"
    by (rule map_update_same) (simp add: add_extra_def)
  moreover have "\<forall>j \<in> set is. j < length ?s" using "4.prems" by simp
  ultimately show ?case using "4.IH" [of ?s] by fastforce
qed auto

lemma redistribute_hold:
  assumes "tokens \<le> u32_max"
  shows "plan_hold (redistribute tokens ps) \<le> plan_hold ps + tokens"
    and "plan_ok (redistribute tokens ps) = plan_ok ps"
proof -
  let ?w = "filter (\<lambda>i. sh_stage (ps_shares ps ! i) = Planned) [0..<length (ps_shares ps)]"
  let ?es = "split tokens (map (\<lambda>i. (weight (sh_demand (ps_shares ps ! i)), None)) ?w)"
  have "\<forall>i \<in> set ?w. i < length (ps_shares ps)" by simp
  note * = foldl_extra_hold [OF this, of ?es]
  show "plan_hold (redistribute tokens ps) \<le> plan_hold ps + tokens"
    using * split_sum_le [OF assms] by (simp add: redistribute_def plan_hold_def Let_def) (meson add_left_mono le_trans)
  show "plan_ok (redistribute tokens ps) = plan_ok ps"
    using * by (simp add: redistribute_def plan_ok_def Let_def)
qed

section \<open>One reservation, one settlement\<close>

definition pool_plan_ok :: "pool_state \<Rightarrow> bool" where
  "pool_plan_ok st \<longleftrightarrow> (case po_plan st of None \<Rightarrow> True | Some ps \<Rightarrow> plan_ok ps)"

text \<open>What the accounts hold and what is reserved fit into the pool, and the pool into its width.\<close>

definition pool_fits :: "pool_state \<Rightarrow> bool" where
  "pool_fits st \<longleftrightarrow> po_total st \<le> u32_max \<and> po_reserved st + pool_hold st \<le> po_total st
     \<and> pool_plan_ok st"

lemma pool_free_exact:
  "pool_fits st \<Longrightarrow> pool_free st = po_total st - po_spent st - po_reserved st - pool_hold st"
  by (auto simp: pool_free_def pool_fits_def pool_hold_def held_exact split: option.splits)

lemma reach_parts_le:
  assumes "pool_fits st"
  shows "re_own (reachable st acc p) + re_follow_up (reachable st acc p)
       + re_unstarted (reachable st acc p) \<le> pool_hold st"
    and "acc \<noteq> Lead \<Longrightarrow> re_unstarted (reachable st acc p) = 0"
    and "re_free (reachable st acc p) = pool_free st"
proof -
  have parts: "own_of ps acc + ps_follow_up_left ps + (if acc = Lead then unstarted ps else 0) \<le> plan_hold ps"
    if "plan_hold ps \<le> u32_max" for ps
    using unstarted_le [OF that] find_le_sum [of _ "ps_shares ps" _ sh_left]
    by (cases acc) (auto simp: own_of_def plan_hold_def shares_left_def split: option.splits
        intro: trans_le_add2)
  show "re_own (reachable st acc p) + re_follow_up (reachable st acc p)
       + re_unstarted (reachable st acc p) \<le> pool_hold st"
  proof (cases "po_plan st")
    case (Some ps)
    then have "plan_hold ps \<le> u32_max" using assms by (simp add: pool_fits_def pool_hold_def)
    from parts [OF this] show ?thesis
      by (auto simp: reachable_def pool_hold_def Some Let_def)
  qed (simp add: reachable_def)
qed (auto simp: reachable_def Let_def split: option.splits)

lemma reach_total_exact:
  assumes "pool_fits st"
  shows "reach_total (reachable st acc p) = re_own (reachable st acc p)
    + re_follow_up (reachable st acc p) + pool_free st + re_unstarted (reachable st acc p)"
proof -
  let ?r = "reachable st acc p"
  have "re_own ?r + re_follow_up ?r + pool_free st + re_unstarted ?r \<le> u32_max"
    using reach_parts_le(1) [OF assms, of acc p] assms pool_free_exact [OF assms]
    unfolding pool_fits_def by linarith
  then show ?thesis
    by (simp add: reach_total_def sat_add32_exact reach_parts_le(3) [OF assms])
qed

lemma draw_arith:
  fixes rest f fu un d e :: nat
  assumes d: "d = min (rest - min rest f) fu" and e: "e = min (rest - min rest f - d) un"
  shows "d \<le> fu \<and> e \<le> un \<and> d + e \<le> rest \<and> (rest \<le> fu + f + un \<longrightarrow> rest \<le> d + e + f)"
proof -
  have 1: "d \<le> fu" "d \<le> rest - min rest f" unfolding d by (rule min.cobounded2, rule min.cobounded1)
  have 2: "e \<le> un" "e \<le> rest - min rest f - d" unfolding e by (rule min.cobounded2, rule min.cobounded1)
  have 3: "rest \<le> d + e + f" if *: "rest \<le> fu + f + un"
  proof (cases "rest \<le> f")
    case False
    then have m: "min rest f = f" by simp
    show ?thesis
    proof (cases "rest - f \<le> fu")
      case True
      then have "d = rest - f" using d m by (simp only: min_absorb1)
      then show ?thesis by linarith
    next
      case False
      then have "d = fu" using d m by simp
      moreover have "rest - f - fu \<le> un" using * by linarith
      ultimately have "e = rest - f - fu" using e m by (simp only: min_absorb1)
      then show ?thesis using \<open>d = fu\<close> by linarith
    qed
  qed simp
  have "d + e \<le> rest" using 1(2) 2(2) by linarith
  with 1 2 3 show ?thesis by blast
qed

lemma draw_spec:
  assumes "draw acc r rest = (f, u)" and "acc = Lead \<or> re_unstarted r = 0"
  shows "f \<le> re_follow_up r" "u \<le> re_unstarted r" "f + u \<le> rest"
    and "rest \<le> re_follow_up r + re_free r + re_unstarted r \<Longrightarrow> rest \<le> f + u + re_free r"
proof -
  have "f \<le> re_follow_up r \<and> u \<le> re_unstarted r \<and> f + u \<le> rest \<and>
    (rest \<le> re_follow_up r + re_free r + re_unstarted r \<longrightarrow> rest \<le> f + u + re_free r)"
  proof (cases "acc = Lead")
    case True
    then have "f = min (rest - min rest (re_free r)) (re_follow_up r)"
      "u = min (rest - min rest (re_free r) - f) (re_unstarted r)"
      using assms(1) by (auto simp: draw_def Let_def)
    from draw_arith [OF this] show ?thesis by simp
  next
    case False
    then have "f = min rest (re_follow_up r)" "u = 0" "re_unstarted r = 0"
      using assms by (auto simp: draw_def)
    then show ?thesis by (cases "rest \<le> re_follow_up r") simp_all
  qed
  then show "f \<le> re_follow_up r" "u \<le> re_unstarted r" "f + u \<le> rest"
    "rest \<le> re_follow_up r + re_free r + re_unstarted r \<Longrightarrow> rest \<le> f + u + re_free r" by blast+
qed

lemma reserve_in_unfold:
  assumes "reserve_in st acc ask p = Some (rv, st')"
  shows "po_overrun st = 0" and "min_grant \<le> available_in st acc p"
    and "rv_account rv = acc"
    and "rv_tokens rv = grant_tokens ask (available_in st acc p)"
    and "rv_own rv = min (rv_tokens rv) (re_own (reachable st acc p))"
    and "rv_follow_up rv = fst (draw acc (reachable st acc p) (rv_tokens rv - rv_own rv))"
    and "draw_plan acc (rv_own rv) (rv_follow_up rv)
           (snd (draw acc (reachable st acc p) (rv_tokens rv - rv_own rv))) (po_plan st)
         = (rv_lent rv, po_plan st')"
    and "st' = st\<lparr>po_plan := po_plan st', po_reserved := sat_add32 (po_reserved st) (rv_tokens rv)\<rparr>"
  using assms
  by (auto simp: reserve_in_def available_in_def Let_def split: if_splits prod.splits)

lemma reserve_in_Some:
  assumes "reserve_in st acc ask p = Some (rv, st')" and fits: "pool_fits st"
  shows "rv_own rv + rv_follow_up rv + sum_list (map snd (rv_lent rv)) \<le> rv_tokens rv"
    and "pool_hold st' + rv_own rv + rv_follow_up rv + sum_list (map snd (rv_lent rv)) = pool_hold st"
    and "rv_tokens rv \<le> rv_own rv + rv_follow_up rv + sum_list (map snd (rv_lent rv)) + pool_free st"
    and "pool_plan_ok st'" and "1 \<le> rv_tokens rv" and "rv_tokens rv \<le> available_in st acc p"
proof -
  let ?r = "reachable st acc p"
  note u = reserve_in_unfold [OF assms(1)]
  note parts = reach_parts_le [OF fits, of acc p]
  obtain f v where fv: "draw acc ?r (rv_tokens rv - rv_own rv) = (f, v)" by fastforce
  have "acc = Lead \<or> re_unstarted ?r = 0" using parts(2) by (cases "acc = Lead") simp_all
  note d = draw_spec [OF fv this]
  have f: "rv_follow_up rv = f" using u(6) fv by simp
  have own: "rv_own rv \<le> re_own ?r" "rv_own rv \<le> rv_tokens rv" using u(5) by simp_all
  show tok1: "1 \<le> rv_tokens rv" using u(4) by (simp add: grant_tokens_def)
  show tok: "rv_tokens rv \<le> available_in st acc p"
    using u(2,4) by (auto simp: min_grant_def grant_tokens_def split: option.splits)
  have rest: "rv_tokens rv - rv_own rv \<le> re_follow_up ?r + re_free ?r + re_unstarted ?r"
    using tok u(5) parts(3)
    by (simp add: available_in_def reach_total_exact [OF fits] min_def split: if_splits)
  have lent: "sum_list (map snd (rv_lent rv)) = v \<and> pool_plan_ok st' \<and>
      pool_hold st' + rv_own rv + f + v = pool_hold st"
  proof (cases "po_plan st")
    case None
    then have "v = 0 \<and> f = 0 \<and> rv_own rv = 0"
      using d u(5) by (simp add: reachable_def)
    then show ?thesis using u(7) None by (simp add: draw_plan_def pool_plan_ok_def pool_hold_def)
  next
    case (Some ps)
    let ?t = "plan_take acc (rv_own rv) f ps"
    obtain ps' where ps': "po_plan st' = Some ps'" and l: "lend v ?t = (rv_lent rv, ps')"
      using u(7) fv f by (auto simp: draw_plan_def Some split: prod.splits)
    have pok: "plan_ok ps" and hold: "plan_hold ps \<le> u32_max"
      using fits Some by (auto simp: pool_fits_def pool_plan_ok_def pool_hold_def)
    have "rv_own rv \<le> own_of ps acc" "f \<le> ps_follow_up_left ps"
      using own(1) d(1) by (auto simp: reachable_def Some Let_def split: if_splits)
    note take = plan_take_hold [OF pok this]
    then have hold': "plan_hold ?t \<le> u32_max" using hold by linarith
    note lh = lend_hold [OF l hold']
    have "v \<le> unstarted ?t"
    proof (cases "acc = Lead")
      case True
      then have "unstarted ?t = unstarted ps" by (simp add: unstarted_def plan_take_def)
      moreover have "v \<le> unstarted ps"
        using d(2) by (auto simp: reachable_def Some Let_def split: if_splits)
      ultimately show ?thesis by simp
    qed (use d(2) parts(2) in simp)
    then show ?thesis
      using lh take pok by (simp add: ps' Some pool_plan_ok_def pool_hold_def)
  qed
  show "rv_own rv + rv_follow_up rv + sum_list (map snd (rv_lent rv)) \<le> rv_tokens rv"
    using d(3) own(2) lent f by linarith
  show "pool_hold st' + rv_own rv + rv_follow_up rv + sum_list (map snd (rv_lent rv)) = pool_hold st"
    using lent f by simp
  show "rv_tokens rv \<le> rv_own rv + rv_follow_up rv + sum_list (map snd (rv_lent rv)) + pool_free st"
    using d(4) [OF rest] lent f own(2) parts(3) by linarith
  show "pool_plan_ok st'" using lent by simp
qed

lemma charge_Some_sel:
  "po_total (charge st rv u) = po_total st"
  "po_reserved (charge st rv u) = po_reserved st - rv_tokens rv"
  "po_spent (charge st rv (Some n)) = sat_add32 (po_spent st) n"
  "po_spent (charge st rv None) = sat_add32 (po_spent st) (rv_tokens rv)"
  "po_overrun (charge st rv (Some n)) = sat_add32 (po_overrun st) (n - rv_tokens rv)"
  "po_overrun (charge st rv None) = po_overrun st"
  "po_plan (charge st rv (Some n)) = map_option (settle_plan rv n) (po_plan st)"
  "po_plan (charge st rv None) = po_plan st"
  by (auto simp: charge_def Let_def split: option.splits)

lemma charge_hold:
  assumes "rv_own rv + rv_follow_up rv + sum_list (map snd (rv_lent rv)) \<le> rv_tokens rv"
  shows "pool_hold (charge st rv (Some n)) \<le> pool_hold st + (rv_tokens rv - n)"
    and "pool_hold (charge st rv None) = pool_hold st"
    and "pool_plan_ok (charge st rv u) = pool_plan_ok st"
  using settle_plan_hold [OF assms]
  by (cases u; auto simp: pool_hold_def pool_plan_ok_def charge_Some_sel split: option.splits)+

section \<open>The shared pool as a state machine\<close>

text \<open>
  The pool with the reservations its turns hold. A reservation is settled exactly once: either
  with the provider's count or, when it is dropped unsettled or no count was reported, with
  none.
\<close>

record pool_sys =
  sy_pool :: pool_state
  sy_flight :: "reservation list"

datatype pool_event =
    EvReserve account "nat option" turn_purpose
  | EvSettle nat "nat option"
  | EvInstall output_plan
  | EvClaim string "nat option"
  | EvRelease string

fun pool_step :: "pool_sys \<Rightarrow> pool_event \<Rightarrow> pool_sys" where
  "pool_step s (EvReserve acc ask purpose) =
     (case reserve_in (sy_pool s) acc ask purpose of
        None \<Rightarrow> s
      | Some (rv, st) \<Rightarrow> s\<lparr>sy_pool := st, sy_flight := sy_flight s @ [rv]\<rparr>)"
| "pool_step s (EvSettle i used) =
     (if i < length (sy_flight s) then
        s\<lparr>sy_pool := charge (sy_pool s) (sy_flight s ! i) used,
          sy_flight := take i (sy_flight s) @ drop (Suc i) (sy_flight s)\<rparr>
      else s)"
| "pool_step s (EvInstall plan) = s\<lparr>sy_pool := snd (install (sy_pool s) plan)\<rparr>"
| "pool_step s (EvClaim role cap) = s\<lparr>sy_pool := snd (snd (claim (sy_pool s) role cap))\<rparr>"
| "pool_step s (EvRelease role) = s\<lparr>sy_pool := release (sy_pool s) role\<rparr>"

definition sys_new :: "nat \<Rightarrow> pool_sys" where
  "sys_new tokens = \<lparr>sy_pool = pool_new tokens, sy_flight = []\<rparr>"

definition flight_tokens :: "reservation list \<Rightarrow> nat" where
  "flight_tokens rvs = sum_list (map rv_tokens rvs)"

definition rv_ok :: "reservation \<Rightarrow> bool" where
  "rv_ok rv \<longleftrightarrow> rv_own rv + rv_follow_up rv + sum_list (map snd (rv_lent rv)) \<le> rv_tokens rv"

text \<open>
  The books balance: what is reserved is what the turns in flight were granted, and what was
  spent, what is reserved and what the accounts hold never exceed the pool and the recorded
  overrun.
\<close>

definition pool_inv :: "pool_sys \<Rightarrow> bool" where
  "pool_inv s \<longleftrightarrow>
     pool_fits (sy_pool s) \<and>
     po_reserved (sy_pool s) = flight_tokens (sy_flight s) \<and>
     po_spent (sy_pool s) \<le> u32_max \<and>
     po_spent (sy_pool s) + po_reserved (sy_pool s) + pool_hold (sy_pool s)
       \<le> po_total (sy_pool s) + po_overrun (sy_pool s) \<and>
     (\<forall>rv \<in> set (sy_flight s). rv_ok rv)"

lemma flight_remove:
  "i < length rvs \<Longrightarrow> flight_tokens (take i rvs @ drop (Suc i) rvs) + rv_tokens (rvs ! i) = flight_tokens rvs"
proof -
  assume i: "i < length rvs"
  have "flight_tokens rvs = flight_tokens (take i rvs @ rvs ! i # drop (Suc i) rvs)"
    using id_take_nth_drop [OF i] by simp
  then show ?thesis by (simp add: flight_tokens_def)
qed

lemma pool_inv_new: "tokens \<le> u32_max \<Longrightarrow> pool_inv (sys_new tokens)"
  by (simp add: pool_inv_def sys_new_def pool_new_def pool_fits_def pool_hold_def pool_plan_ok_def
      flight_tokens_def)

lemma pool_inv_reserve [inv_pres]:
  assumes "pool_inv s"
  shows "pool_inv (pool_step s (EvReserve acc ask p))"
proof (cases "reserve_in (sy_pool s) acc ask p")
  case (Some x)
  then obtain rv st where r: "reserve_in (sy_pool s) acc ask p = Some (rv, st)" by (cases x) auto
  have fits: "pool_fits (sy_pool s)" using assms by (simp add: pool_inv_def)
  note u = reserve_in_unfold [OF r] and v = reserve_in_Some [OF r fits]
  note free = pool_free_exact [OF fits]
  have sum: "po_spent (sy_pool s) + po_reserved (sy_pool s) + pool_hold (sy_pool s) \<le> po_total (sy_pool s)"
    using assms u(1) by (simp add: pool_inv_def)
  have bound: "po_reserved (sy_pool s) + rv_tokens rv + pool_hold st + po_spent (sy_pool s) \<le> po_total (sy_pool s)"
    using v(2,3) free sum by linarith
  then have "sat_add32 (po_reserved (sy_pool s)) (rv_tokens rv) = po_reserved (sy_pool s) + rv_tokens rv"
    using fits by (simp add: sat_add32_exact pool_fits_def)
  then have st: "po_reserved st = po_reserved (sy_pool s) + rv_tokens rv"
      "po_total st = po_total (sy_pool s)" "po_spent st = po_spent (sy_pool s)"
      "po_overrun st = po_overrun (sy_pool s)"
    using arg_cong [OF u(8), of po_reserved] arg_cong [OF u(8), of po_total]
      arg_cong [OF u(8), of po_spent] arg_cong [OF u(8), of po_overrun] by simp_all
  show ?thesis
    using assms bound fits v(1,4) st
    by (auto simp: r pool_inv_def pool_fits_def flight_tokens_def rv_ok_def)
qed (use assms in simp)

lemma pool_inv_settle [inv_pres]:
  assumes "pool_inv s"
  shows "pool_inv (pool_step s (EvSettle i used))"
proof (cases "i < length (sy_flight s)")
  case True
  let ?rv = "sy_flight s ! i" and ?st = "sy_pool s"
  let ?c = "charge ?st ?rv used"
  let ?rest = "take i (sy_flight s) @ drop (Suc i) (sy_flight s)"
  have rv: "rv_own ?rv + rv_follow_up ?rv + sum_list (map snd (rv_lent ?rv)) \<le> rv_tokens ?rv"
    using assms True by (simp add: pool_inv_def rv_ok_def)
  have fits: "pool_fits ?st" and res: "po_reserved ?st = flight_tokens (sy_flight s)"
    and spent: "po_spent ?st \<le> u32_max"
    and bal: "po_spent ?st + po_reserved ?st + pool_hold ?st \<le> po_total ?st + po_overrun ?st"
    using assms by (simp_all add: pool_inv_def)
  note rm = flight_remove [OF True]
  have sub: "set ?rest \<subseteq> set (sy_flight s)"
    by (auto dest: in_set_takeD in_set_dropD)
  have res': "po_reserved ?c = flight_tokens ?rest"
    using rm res by (simp add: charge_Some_sel)
  have "po_reserved ?c + pool_hold ?c \<le> po_total ?st \<and> po_spent ?c \<le> u32_max
      \<and> po_spent ?c + po_reserved ?c + pool_hold ?c \<le> po_total ?st + po_overrun ?c"
  proof (cases used)
    case None
    have sp: "po_spent ?c = sat_add32 (po_spent ?st) (rv_tokens ?rv)"
      and ov: "po_overrun ?c = po_overrun ?st" by (simp_all add: None charge_Some_sel)
    have "po_spent ?c \<le> po_spent ?st + rv_tokens ?rv" "po_spent ?c \<le> u32_max"
      unfolding sp by (rule sat_add32_le)+
    moreover have "po_reserved ?c + rv_tokens ?rv = po_reserved ?st"
      using rm res by (simp add: charge_Some_sel)
    moreover have "pool_hold ?c = pool_hold ?st" unfolding None by (rule charge_hold(2) [OF rv])
    ultimately show ?thesis
      using bal fits unfolding ov pool_fits_def by linarith
  next
    case (Some u)
    let ?t = "rv_tokens ?rv"
    have hold: "pool_hold ?c \<le> pool_hold ?st + (?t - u)"
      unfolding Some by (rule charge_hold(1) [OF rv])
    have resd: "po_reserved ?c + ?t = po_reserved ?st"
      using rm res by (simp add: charge_Some_sel)
    have a: "po_reserved ?c + pool_hold ?c \<le> po_total ?st"
      using hold resd fits by (simp add: pool_fits_def) linarith
    have sp: "po_spent ?c = sat_add32 (po_spent ?st) u" and
      ov: "po_overrun ?c = sat_add32 (po_overrun ?st) (u - ?t)"
      by (simp_all add: Some charge_Some_sel)
    have "po_spent ?c + po_reserved ?c + pool_hold ?c \<le> po_total ?st + po_overrun ?c"
    proof (cases "po_overrun ?st + (u - ?t) \<le> u32_max")
      case True
      then have "po_overrun ?c = po_overrun ?st + (u - ?t)" by (simp add: ov sat_add32_exact)
      moreover have "po_spent ?c \<le> po_spent ?st + u" by (simp add: sp)
      ultimately show ?thesis using bal hold resd by linarith
    next
      case False
      then have "po_overrun ?c = u32_max" by (simp add: ov sat_add32_def)
      moreover have "po_spent ?c \<le> u32_max" by (simp add: sp)
      ultimately show ?thesis using a by linarith
    qed
    then show ?thesis using a by (simp add: sp)
  qed
  then show ?thesis
    using assms True res' sub fits charge_hold(3) [OF rv, of ?st used]
    by (auto simp: pool_inv_def pool_fits_def charge_Some_sel(1))
qed (use assms in simp)

lemma pool_inv_plan:
  assumes "pool_inv s"
    and "\<And>ps. po_plan (sy_pool s) = Some ps \<Longrightarrow> plan_hold ps \<le> u32_max \<Longrightarrow> plan_ok ps \<Longrightarrow>
           plan_hold (f ps) \<le> plan_hold ps \<and> plan_ok (f ps)"
  shows "pool_inv (s\<lparr>sy_pool := (sy_pool s)\<lparr>po_plan := map_option f (po_plan (sy_pool s))\<rparr>\<rparr>)"
proof (cases "po_plan (sy_pool s)")
  case None
  then have "(sy_pool s)\<lparr>po_plan := map_option f (po_plan (sy_pool s))\<rparr> = sy_pool s" by simp
  then show ?thesis using assms(1) by simp
next
  case (Some ps)
  then have "plan_hold ps \<le> u32_max" "plan_ok ps"
    using assms(1) by (auto simp: pool_inv_def pool_fits_def pool_hold_def pool_plan_ok_def)
  from assms(2) [OF Some this] show ?thesis
    using assms(1) Some by (auto simp: pool_inv_def pool_fits_def pool_hold_def pool_plan_ok_def)
qed

lemma install_plan_ok:
  assumes "validate plan = Inr ()" and "length ts = length (op_shares plan)"
  shows "distinct (map sh_role (map (\<lambda>(share, tokens).
           \<lparr>sh_role = pl_role share, sh_demand = pl_demand share, sh_planned = tokens,
            sh_cap = None, sh_left = tokens, sh_stage = Planned\<rparr>) (zip (op_shares plan) ts)))"
    and "shares_left (map (\<lambda>(share, tokens).
           \<lparr>sh_role = pl_role share, sh_demand = pl_demand share, sh_planned = tokens,
            sh_cap = None, sh_left = tokens, sh_stage = Planned\<rparr>) (zip (op_shares plan) ts))
         = sum_list ts"
proof -
  have "map sh_role (map (\<lambda>(share, tokens). \<lparr>sh_role = pl_role share, sh_demand = pl_demand share,
      sh_planned = tokens, sh_cap = None, sh_left = tokens, sh_stage = Planned\<rparr>)
      (zip (op_shares plan) ts)) = map pl_role (map fst (zip (op_shares plan) ts))"
    by auto
  then show "distinct (map sh_role (map (\<lambda>(share, tokens).
           \<lparr>sh_role = pl_role share, sh_demand = pl_demand share, sh_planned = tokens,
            sh_cap = None, sh_left = tokens, sh_stage = Planned\<rparr>) (zip (op_shares plan) ts)))"
    using assms by (simp only: map_fst_zip validate_Inr)
  have "map sh_left (map (\<lambda>(share, tokens). \<lparr>sh_role = pl_role share, sh_demand = pl_demand share,
      sh_planned = tokens, sh_cap = None, sh_left = tokens, sh_stage = Planned\<rparr>)
      (zip (op_shares plan) ts)) = map snd (zip (op_shares plan) ts)"
    by auto
  then show "shares_left (map (\<lambda>(share, tokens).
           \<lparr>sh_role = pl_role share, sh_demand = pl_demand share, sh_planned = tokens,
            sh_cap = None, sh_left = tokens, sh_stage = Planned\<rparr>) (zip (op_shares plan) ts))
         = sum_list ts"
    unfolding shares_left_def using assms by (simp only: map_snd_zip)
qed

text \<open>Installing a valid plan divides what is free, and nothing more.\<close>

lemma install_Inr:
  assumes "install st plan = (Inr al, st')" and "pool_fits st"
  shows "\<exists>ps. st' = st\<lparr>po_plan := Some ps\<rparr> \<and> plan_ok ps \<and> po_plan st = None \<and> po_overrun st = 0
    \<and> plan_hold ps + al_unallocated al = pool_free st \<and> al = allocate (pool_free st) plan
    \<and> ps_lead_left ps = al_lead al \<and> ps_follow_up_left ps = al_follow_up al
    \<and> validate plan = Inr ()"
proof -
  have v: "validate plan = Inr ()" and al: "al = allocate (pool_free st) plan"
    and none: "po_plan st = None" "po_overrun st = 0"
    using assms(1) by (auto simp: install_def Let_def split: sum.splits if_splits)
  have f: "pool_free st \<le> u32_max"
    using pool_free_exact [OF assms(2)] assms(2) unfolding pool_fits_def by linarith
  note parts = allocate_parts [OF f, of plan]
  note ok = install_plan_ok [OF v parts(2)]
  show ?thesis
    using assms(1) v none ok parts(1) al
    by (auto simp: install_def Let_def plan_ok_def plan_hold_def)
qed

lemma install_Inl: "install st plan = (Inl e, st') \<Longrightarrow> st' = st"
  by (auto simp: install_def Let_def split: sum.splits if_splits)

lemma pool_inv_install [inv_pres]:
  assumes "pool_inv s"
  shows "pool_inv (pool_step s (EvInstall plan))"
proof (cases "install (sy_pool s) plan")
  case (Pair r st)
  show ?thesis
  proof (cases r)
    case (Inl e)
    then show ?thesis using assms Pair install_Inl by fastforce
  next
    case (Inr al)
    have fits: "pool_fits (sy_pool s)" using assms by (simp add: pool_inv_def)
    from install_Inr [OF _ fits] Pair Inr obtain ps where
      ps: "st = (sy_pool s)\<lparr>po_plan := Some ps\<rparr>" "plan_ok ps" "po_plan (sy_pool s) = None"
        "po_overrun (sy_pool s) = 0" "plan_hold ps + al_unallocated al = pool_free (sy_pool s)" by metis
    have hold0: "pool_hold (sy_pool s) = 0" using ps(3) by (simp add: pool_hold_def)
    have "plan_hold ps + po_spent (sy_pool s) + po_reserved (sy_pool s) \<le> po_total (sy_pool s)"
      using ps(4,5) assms pool_free_exact [OF fits] hold0 unfolding pool_inv_def pool_fits_def by linarith
    then show ?thesis
      using assms ps Pair by (auto simp: pool_inv_def pool_fits_def pool_hold_def pool_plan_ok_def)
  qed
qed

lemma claim_plan:
  "snd (snd (claim st role cap)) = st \<or>
   (\<exists>ps share excess. po_plan st = Some ps \<and> find (\<lambda>s. sh_role s = role) (ps_shares ps) = Some share \<and>
      sh_stage share = Planned \<and> excess \<le> sh_left share \<and>
      snd (snd (claim st role cap)) = st\<lparr>po_plan := Some (redistribute excess (with_share role
        (\<lambda>s. s\<lparr>sh_stage := Running, sh_cap := cap, sh_left := sh_left s - excess,
               sh_planned := sh_planned s - excess\<rparr>) ps))\<rparr>)"
proof (cases "po_plan st")
  case (Some ps)
  show ?thesis
  proof (cases "find (\<lambda>s. sh_role s = role) (ps_shares ps)")
    case share: (Some share)
    let ?e = "case cap of None \<Rightarrow> 0 | Some c \<Rightarrow> sh_left share - c"
    have "?e \<le> sh_left share" by (cases cap) auto
    then show ?thesis
      by (cases "sh_stage share = Planned") (auto simp: claim_def Some share Let_def)
  qed (simp add: claim_def Some)
qed (simp add: claim_def)

lemma pool_inv_claim [inv_pres]:
  assumes "pool_inv s"
  shows "pool_inv (pool_step s (EvClaim role cap))"
  using claim_plan [of "sy_pool s" role cap]
proof (elim disjE exE conjE)
  fix ps share excess
  let ?g = "\<lambda>s. s\<lparr>sh_stage := Running, sh_cap := cap, sh_left := sh_left s - excess,
                 sh_planned := sh_planned s - excess\<rparr>"
  assume ps: "po_plan (sy_pool s) = Some ps"
    and f: "find (\<lambda>s. sh_role s = role) (ps_shares ps) = Some share" and le: "excess \<le> sh_left share"
    and eq: "snd (snd (claim (sy_pool s) role cap)) = (sy_pool s)\<lparr>po_plan := Some (redistribute excess (with_share role ?g ps))\<rparr>"
  have "plan_hold (redistribute excess (with_share role ?g ps)) \<le> plan_hold ps
      \<and> plan_ok (redistribute excess (with_share role ?g ps))"
    if "plan_hold ps \<le> u32_max" "plan_ok ps"
  proof -
    have h: "plan_hold (with_share role ?g ps) + excess = plan_hold ps"
      using with_share_hold [OF f, of ?g] le by simp
    then have e: "excess \<le> u32_max" using that by linarith
    show ?thesis
      using redistribute_hold [OF e, of "with_share role ?g ps"] h that(2)
      by (simp add: with_share_ok)
  qed
  then have "pool_inv (s\<lparr>sy_pool := (sy_pool s)\<lparr>po_plan := map_option
      (\<lambda>ps. redistribute excess (with_share role ?g ps)) (po_plan (sy_pool s))\<rparr>\<rparr>)"
    by (intro pool_inv_plan assms) (simp add: ps)
  then show ?thesis by (simp add: eq ps)
qed (use assms in simp)

lemma release_plan:
  "release st role = st\<lparr>po_plan := map_option (with_share role
     (\<lambda>s. if sh_stage s = Running then s\<lparr>sh_stage := Released, sh_left := 0\<rparr> else s)) (po_plan st)\<rparr>"
  by (cases "po_plan st") (simp_all add: release_def)

lemma pool_inv_release [inv_pres]:
  assumes "pool_inv s"
  shows "pool_inv (pool_step s (EvRelease role))"
proof -
  let ?g = "\<lambda>s. if sh_stage s = Running then s\<lparr>sh_stage := Released, sh_left := 0\<rparr> else s"
  have "plan_hold (with_share role ?g ps) \<le> plan_hold ps \<and> plan_ok (with_share role ?g ps)"
    if "plan_ok ps" for ps
    using that with_share_le [of ?g 0 role ps] by (simp add: with_share_ok)
  then show ?thesis
    unfolding pool_step.simps release_plan by (intro pool_inv_plan assms) auto
qed

interpretation pool: step_invariant pool_step "\<lambda>_ _. True" pool_inv
proof
  fix s e
  assume "pool_inv s"
  then show "pool_inv (pool_step s e)" by (cases e) (simp_all only: inv_pres)
qed

lemmas pool_run_inv = pool.run_inv_total [OF _ TrueI]

end
