(* ===== verification/GenBudget.thy ===== *)
theory GenBudget
  imports OutputPool
begin

text \<open>
  The budget of a run (\<open>crates/lightagent-core/src/generation.rs\<close>, outside the pool): context
  and history windows, the reasoning setting, the budgets of delegated and routed workers, the
  context guard, the token estimates, and the shortening of tool results and continuations.

  A pool handle is the identity of the shared pool with the account it reserves for. The JSON
  rendering of a tool's parameter schema is a parameter of the estimates.
\<close>

section \<open>Windows\<close>

datatype window_source = ProviderWindow | ConfiguredWindow

fun window_source_as_str :: "window_source \<Rightarrow> string" where
  "window_source_as_str ProviderWindow = ''provider''"
| "window_source_as_str ConfiguredWindow = ''configured''"

record context_window =
  cw_tokens :: nat
  cw_source :: window_source

definition positive :: "nat option \<Rightarrow> nat option" where
  "positive x = (case x of Some n \<Rightarrow> if n > 0 then Some n else None | None \<Rightarrow> None)"

definition resolve_context_window :: "nat option \<Rightarrow> nat option \<Rightarrow> context_window option" where
  "resolve_context_window reported configured =
     (case (positive reported, positive configured) of
        (Some r, Some c) \<Rightarrow>
          if c < r then Some \<lparr>cw_tokens = c, cw_source = ConfiguredWindow\<rparr>
          else Some \<lparr>cw_tokens = r, cw_source = ProviderWindow\<rparr>
      | (Some r, None) \<Rightarrow> Some \<lparr>cw_tokens = r, cw_source = ProviderWindow\<rparr>
      | (None, Some c) \<Rightarrow> Some \<lparr>cw_tokens = c, cw_source = ConfiguredWindow\<rparr>
      | (None, None) \<Rightarrow> None)"

datatype history_source = ProviderHistory | ConfiguredHistory | PlacementHistory | FallbackHistory

fun history_source_as_str :: "history_source \<Rightarrow> string" where
  "history_source_as_str ProviderHistory = ''provider''"
| "history_source_as_str ConfiguredHistory = ''configured''"
| "history_source_as_str PlacementHistory = ''placement''"
| "history_source_as_str FallbackHistory = ''fallback''"

definition fallback_window :: nat where
  "fallback_window = 4096"

record history_window =
  hw_tokens :: nat
  hw_source :: history_source

definition resolve_history_window :: "context_window option \<Rightarrow> nat option \<Rightarrow> history_window" where
  "resolve_history_window window placement =
     (case window of
        Some w \<Rightarrow> \<lparr>hw_tokens = cw_tokens w,
          hw_source = (case cw_source w of ProviderWindow \<Rightarrow> ProviderHistory
                       | ConfiguredWindow \<Rightarrow> ConfiguredHistory)\<rparr>
      | None \<Rightarrow> (case positive placement of
          Some t \<Rightarrow> \<lparr>hw_tokens = t, hw_source = PlacementHistory\<rparr>
        | None \<Rightarrow> \<lparr>hw_tokens = fallback_window, hw_source = FallbackHistory\<rparr>))"

definition known_window :: "history_window \<Rightarrow> nat option" where
  "known_window w = (if hw_source w \<noteq> FallbackHistory then Some (hw_tokens w) else None)"

section \<open>Reasoning\<close>

datatype reasoning = DefaultReasoning | AppliedReasoning string | UnsupportedReasoning string

definition resolve_reasoning :: "string option \<Rightarrow> string list \<Rightarrow> reasoning" where
  "resolve_reasoning effort supported =
     (case map_option trim effort of
        None \<Rightarrow> DefaultReasoning
      | Some e \<Rightarrow>
          if e = [] then DefaultReasoning
          else if list_ex (\<lambda>known. trim known = e) supported then AppliedReasoning e
          else UnsupportedReasoning e)"

fun reasoning_effort :: "reasoning \<Rightarrow> string option" where
  "reasoning_effort (AppliedReasoning e) = Some e"
| "reasoning_effort _ = None"

fun reasoning_label :: "reasoning \<Rightarrow> string option" where
  "reasoning_label (AppliedReasoning e) = Some e"
| "reasoning_label (UnsupportedReasoning e) = Some e"
| "reasoning_label DefaultReasoning = None"

fun reasoning_as_str :: "reasoning \<Rightarrow> string" where
  "reasoning_as_str DefaultReasoning = ''default''"
| "reasoning_as_str (AppliedReasoning _) = ''applied''"
| "reasoning_as_str (UnsupportedReasoning _) = ''unsupported''"

section \<open>The budget\<close>

record pool_handle =
  ph_pool :: nat
  ph_account :: account

record generation_budget =
  gb_context_window :: "context_window option"
  gb_max_output_tokens :: "nat option"
  gb_reserve_answer_tokens :: nat
  gb_reasoning :: reasoning
  gb_output_pool :: "pool_handle option"
  gb_max_continuations :: nat

definition message_overhead :: nat where
  "message_overhead = 5"

definition note_tokens :: nat where
  "note_tokens = 48"

definition continue_min_tokens :: nat where
  "continue_min_tokens = 256"

definition max_continuations :: nat where
  "max_continuations = 3"

definition min_overlap :: nat where
  "min_overlap = 32"

definition overlap_tail :: nat where
  "overlap_tail = 512"

definition budget_is_active :: "generation_budget \<Rightarrow> bool" where
  "budget_is_active b \<longleftrightarrow> gb_context_window b \<noteq> None \<or> gb_max_output_tokens b \<noteq> None
     \<or> gb_reasoning b \<noteq> DefaultReasoning \<or> gb_output_pool b \<noteq> None"

definition margin :: "nat \<Rightarrow> nat" where
  "margin window = max (window div 50) 16"

definition requested_max_tokens :: "generation_budget \<Rightarrow> nat option" where
  "requested_max_tokens b =
     (case positive (gb_max_output_tokens b) of
        None \<Rightarrow> None
      | Some allowance \<Rightarrow> Some (case gb_context_window b of
            Some w \<Rightarrow> min allowance (max (cw_tokens w - 1) 1)
          | None \<Rightarrow> allowance))"

definition room :: "generation_budget \<Rightarrow> nat \<Rightarrow> nat option" where
  "room b prompt =
     map_option (\<lambda>w. cw_tokens w - prompt - margin (cw_tokens w)) (gb_context_window b)"

definition guards_context :: "generation_budget \<Rightarrow> bool" where
  "guards_context b \<longleftrightarrow> gb_context_window b \<noteq> None \<and> gb_reserve_answer_tokens b > 0"

definition needs_answer_now :: "generation_budget \<Rightarrow> nat \<Rightarrow> bool" where
  "needs_answer_now b prompt \<longleftrightarrow> guards_context b \<and>
     (case room b prompt of Some r \<Rightarrow> r < gb_reserve_answer_tokens b | None \<Rightarrow> False)"

definition result_allowance :: "generation_budget \<Rightarrow> nat \<Rightarrow> nat option" where
  "result_allowance b prompt =
     (if \<not> guards_context b then None
      else map_option (\<lambda>r. r - gb_reserve_answer_tokens b) (room b prompt))"

definition worker_pool :: "generation_budget \<Rightarrow> pool_handle option" where
  "worker_pool b = map_option (\<lambda>h. h\<lparr>ph_account := Unplanned\<rparr>) (gb_output_pool b)"

definition for_worker :: "bool \<Rightarrow> generation_budget \<Rightarrow> generation_budget" where
  "for_worker same_model b =
     \<lparr>gb_context_window = (if same_model then gb_context_window b else None),
      gb_max_output_tokens = gb_max_output_tokens b,
      gb_reserve_answer_tokens = gb_reserve_answer_tokens b,
      gb_reasoning = (if same_model then gb_reasoning b else DefaultReasoning),
      gb_output_pool = worker_pool b,
      gb_max_continuations = gb_max_continuations b\<rparr>"

definition turn_capacity :: "(nat \<Rightarrow> pool_state) \<Rightarrow> generation_budget \<Rightarrow> nat option" where
  "turn_capacity pools b =
     (case requested_max_tokens b of
        Some t \<Rightarrow> Some t
      | None \<Rightarrow> (case gb_context_window b of
          Some w \<Rightarrow> Some (cw_tokens w - margin (cw_tokens w))
        | None \<Rightarrow> map_option (\<lambda>h. po_turn_tokens (pools (ph_pool h))) (gb_output_pool b)))"

definition for_routed_worker :: "generation_budget \<Rightarrow> generation_budget \<Rightarrow> generation_budget" where
  "for_routed_worker own lead =
     \<lparr>gb_context_window = gb_context_window own,
      gb_max_output_tokens = (case (gb_max_output_tokens own, gb_max_output_tokens lead) of
          (Some m, Some l) \<Rightarrow> Some (min m l)
        | (Some m, None) \<Rightarrow> Some m
        | (None, l) \<Rightarrow> l),
      gb_reserve_answer_tokens = gb_reserve_answer_tokens own,
      gb_reasoning = gb_reasoning own,
      gb_output_pool = worker_pool lead,
      gb_max_continuations = min (gb_max_continuations own) (gb_max_continuations lead)\<rparr>"

definition may_continue_with :: "generation_budget \<Rightarrow> nat \<Rightarrow> bool" where
  "may_continue_with b prompt =
     (case room b prompt of Some r \<Rightarrow> r \<ge> continue_min_tokens | None \<Rightarrow> False)"

section \<open>Estimates\<close>

definition estimate_text :: "string \<Rightarrow> nat" where
  "estimate_text text = u32_or ((length text + 2) div 3) u32_max"

record provider_tool_call =
  tc_id :: string
  tc_name :: string
  tc_arguments :: string

datatype role = System | User | Assistant | Tool

record provider_message =
  pm_role :: role
  pm_content :: string
  pm_name :: "string option"
  pm_tool_call_id :: "string option"
  pm_tool_calls :: "provider_tool_call list"

record 'json tool_schema =
  ts_name :: string
  ts_description :: string
  ts_parameters :: 'json

definition estimate_calls :: "provider_tool_call list \<Rightarrow> nat" where
  "estimate_calls calls = foldl (\<lambda>sum call.
     sat_add32 (sat_add32 (sat_add32 (sat_add32 sum (estimate_text (tc_id call)))
       (estimate_text (tc_name call))) (estimate_text (tc_arguments call))) message_overhead) 0 calls"

definition estimate_messages :: "provider_message list \<Rightarrow> nat" where
  "estimate_messages messages = foldl (\<lambda>total message.
     sat_add32 (sat_add32 (sat_add32 total (estimate_text (pm_content message)))
       (estimate_calls (pm_tool_calls message))) message_overhead) 0 messages"

definition estimate_tools :: "('json \<Rightarrow> string) \<Rightarrow> 'json tool_schema list \<Rightarrow> nat" where
  "estimate_tools to_string tools = foldl (\<lambda>total tool.
     sat_add32 (sat_add32 (sat_add32 (sat_add32 total (estimate_text (ts_name tool)))
       (estimate_text (ts_description tool))) (estimate_text (to_string (ts_parameters tool))))
       message_overhead) 0 tools"

definition padded :: "nat \<Rightarrow> nat" where
  "padded estimate = sat_add32 estimate (estimate div 10)"

record measured =
  me_messages :: nat
  me_prompt_tokens :: nat

datatype prompt_basis = Measured | Estimated

fun prompt_basis_as_str :: "prompt_basis \<Rightarrow> string" where
  "prompt_basis_as_str Measured = ''measured''"
| "prompt_basis_as_str Estimated = ''estimated''"

definition prompt_tokens ::
  "('json \<Rightarrow> string) \<Rightarrow> measured option \<Rightarrow> provider_message list \<Rightarrow> 'json tool_schema list
    \<Rightarrow> nat \<times> prompt_basis" where
  "prompt_tokens to_string m messages tools =
     (let estimated = (padded (sat_add32 (estimate_messages messages) (estimate_tools to_string tools)),
                       Estimated)
      in case m of
           None \<Rightarrow> estimated
         | Some m \<Rightarrow>
             if me_prompt_tokens m > 0 \<and> me_messages m \<le> length messages then
               (sat_add32 (me_prompt_tokens m)
                  (padded (estimate_messages (drop (me_messages m) messages))), Measured)
             else estimated)"

section \<open>Cuts on character boundaries\<close>

text \<open>A byte that continues a UTF-8 sequence, and the positions between characters.\<close>

definition is_continuation :: "char \<Rightarrow> bool" where
  "is_continuation c \<longleftrightarrow> CHR 0x80 \<le> c \<and> c < CHR 0xC0"

definition is_char_boundary :: "string \<Rightarrow> nat \<Rightarrow> bool" where
  "is_char_boundary s i \<longleftrightarrow> i = 0 \<or> i = length s \<or> (i < length s \<and> \<not> is_continuation (s ! i))"

fun floor_boundary :: "string \<Rightarrow> nat \<Rightarrow> nat" where
  "floor_boundary s 0 = 0"
| "floor_boundary s (Suc k) = (if is_char_boundary s (Suc k) then Suc k else floor_boundary s k)"

function ceil_boundary :: "string \<Rightarrow> nat \<Rightarrow> nat" where
  "ceil_boundary s i = (if i < length s \<and> \<not> is_char_boundary s i then ceil_boundary s (Suc i) else i)"
  by pat_completeness auto
termination by (relation "measure (\<lambda>(s, i). length s - i)") auto

declare ceil_boundary.simps [simp del]

text \<open>A \<open>usize\<close> in decimal, and its saturating product at 64 bits.\<close>

fun decimal :: "nat \<Rightarrow> string" where
  "decimal n = (if n < 10 then [char_of (48 + n)] else decimal (n div 10) @ [char_of (48 + n mod 10)])"

declare decimal.simps [simp del]

definition sat_mul64 :: "nat \<Rightarrow> nat \<Rightarrow> nat" where
  "sat_mul64 a b = min (a * b) u64_max"

definition fit_result :: "string \<Rightarrow> nat \<Rightarrow> string option" where
  "fit_result content allowance =
     (if padded (estimate_text content) \<le> max allowance note_tokens then None
      else
        let budget = allowance - note_tokens;
            keep = floor_boundary content
              (min (sat_mul64 (sat_mul64 budget 3) 10 div 11) (length content))
        in Some (take keep content @ [CHR 0x0A, CHR 0x0A] @
             ''[Lightagent shortened this result to fit the model'' @ [CHR 0x27] @
             ''s context window: the first '' @ decimal keep @ '' of '' @ decimal (length content) @
             '' bytes are shown.]''))"

definition text_tail :: "string \<Rightarrow> string" where
  "text_tail text = drop (ceil_boundary text (length text - overlap_tail)) text"

definition ends_with :: "string \<Rightarrow> string \<Rightarrow> bool" where
  "ends_with s t \<longleftrightarrow> is_prefix_of (rev t) (rev s)"

text \<open>The last character is white space; some character is.\<close>

definition ends_in_ws :: "string \<Rightarrow> bool" where
  "ends_in_ws s \<longleftrightarrow> list_ex (ends_with s) ws_seqs"

fun has_ws :: "string \<Rightarrow> bool" where
  "has_ws [] = False"
| "has_ws (c # cs) = (list_ex (\<lambda>w. is_prefix_of w (c # cs)) ws_seqs \<or> has_ws cs)"

definition overlap_at :: "string \<Rightarrow> string \<Rightarrow> nat \<Rightarrow> bool" where
  "overlap_at tail nxt n \<longleftrightarrow>
     is_char_boundary nxt n \<and> ends_with tail (take n nxt) \<and>
     (let before = take (length tail - n) tail in before = [] \<or> ends_in_ws before) \<and>
     has_ws (trim (take n nxt))"

definition strip_overlap :: "string \<Rightarrow> string \<Rightarrow> string" where
  "strip_overlap tail nxt =
     (case find (overlap_at tail nxt) (rev [min_overlap..<Suc (min (length tail) (length nxt))]) of
        Some n \<Rightarrow> drop n nxt
      | None \<Rightarrow> nxt)"

record usage =
  us_prompt_tokens :: nat
  us_completion_tokens :: nat
  us_total_tokens :: nat

definition length_cause :: "nat option \<Rightarrow> nat option \<Rightarrow> usage option \<Rightarrow> string" where
  "length_cause requested window usage =
     (case usage of
        None \<Rightarrow> ''unknown''
      | Some u \<Rightarrow>
          if (case requested of Some r \<Rightarrow> us_completion_tokens u \<ge> r | None \<Rightarrow> False)
          then ''output_allowance''
          else
            let used = sat_add32 (sat_add32 (us_prompt_tokens u) (us_completion_tokens u)) 1
            in if (case window of Some w \<Rightarrow> used \<ge> w | None \<Rightarrow> False) then ''context_window''
               else ''unknown'')"

section \<open>The report of an installed plan\<close>

record share_report =
  sr_role :: string
  sr_demand :: string
  sr_weight :: nat
  sr_planned :: nat
  sr_capacity_cap :: "nat option"
  sr_left :: nat
  sr_state :: string

record allocation_report =
  ar_version :: string
  ar_source :: string
  ar_fallback_reason :: "string option"
  ar_account :: string
  ar_role :: "string option"
  ar_lead_reserve :: nat
  ar_lead_reserve_left :: nat
  ar_follow_up_reserve :: nat
  ar_follow_up_left :: nat
  ar_shares :: "share_report list"
  ar_unallocated_available :: nat
  ar_asked :: "nat option"
  ar_granted :: "nat option"

definition allocation_report ::
  "pool_state \<Rightarrow> account \<Rightarrow> (nat \<times> nat) option \<Rightarrow> allocation_report option" where
  "allocation_report st acc grant =
     map_option (\<lambda>plan.
       \<lparr>ar_version = ''output-plan.v1'',
        ar_source = op_source (ps_plan plan),
        ar_fallback_reason = op_fallback_reason (ps_plan plan),
        ar_account = account_as_str acc,
        ar_role = account_role acc,
        ar_lead_reserve = ps_lead plan,
        ar_lead_reserve_left = ps_lead_left plan,
        ar_follow_up_reserve = ps_follow_up plan,
        ar_follow_up_left = ps_follow_up_left plan,
        ar_shares = map (\<lambda>share.
          \<lparr>sr_role = sh_role share, sr_demand = demand_as_str (sh_demand share),
           sr_weight = weight (sh_demand share), sr_planned = sh_planned share,
           sr_capacity_cap = sh_cap share, sr_left = sh_left share,
           sr_state = stage_as_str (sh_stage share)\<rparr>) (ps_shares plan),
        ar_unallocated_available = pool_free st,
        ar_asked = map_option fst grant,
        ar_granted = map_option snd grant\<rparr>) (po_plan st)"

section \<open>Lemmas\<close>

lemma decimal_length:
  assumes "n < 10 ^ k" and "0 < k"
  shows "length (decimal n) \<le> k"
  using assms
proof (induction k arbitrary: n)
  case (Suc k)
  show ?case
  proof (cases "n < 10")
    case True
    then show ?thesis by (subst decimal.simps) simp
  next
    case False
    then have "0 < k" using Suc.prems(1) by (cases k) auto
    moreover have "n div 10 < 10 ^ k" using Suc.prems(1) by (simp add: div_less_iff_less_mult mult.commute)
    ultimately have "length (decimal (n div 10)) \<le> k" by (rule Suc.IH [rotated])
    then show ?thesis using False by (subst decimal.simps) simp
  qed
qed simp

lemma floor_boundary_le: "floor_boundary s k \<le> k"
  by (induction k) (auto intro: le_SucI)

lemma floor_boundary_ok: "is_char_boundary s (floor_boundary s k)"
  by (induction k) (auto simp: is_char_boundary_def)

lemma ceil_boundary_props:
  "i \<le> length s \<Longrightarrow> i \<le> ceil_boundary s i \<and> ceil_boundary s i \<le> length s
     \<and> is_char_boundary s (ceil_boundary s i)"
proof (induction s i rule: ceil_boundary.induct)
  case (1 s i)
  show ?case
  proof (cases "i < length s \<and> \<not> is_char_boundary s i")
    case True
    then have "Suc i \<le> ceil_boundary s (Suc i) \<and> ceil_boundary s (Suc i) \<le> length s
        \<and> is_char_boundary s (ceil_boundary s (Suc i))" using 1 by simp
    moreover have "ceil_boundary s i = ceil_boundary s (Suc i)"
      using True by (subst ceil_boundary.simps) simp
    ultimately show ?thesis by simp
  next
    case False
    then have "ceil_boundary s i = i" by (subst ceil_boundary.simps) (simp only: if_False)
    then show ?thesis using False 1 by (auto simp: is_char_boundary_def)
  qed
qed

lemma estimate_text_le: "3 * estimate_text t \<le> length t + 2"
proof -
  have "estimate_text t \<le> (length t + 2) div 3" by (simp add: estimate_text_def u32_or_def)
  then show ?thesis by linarith
qed

lemma padded_le: "10 * padded e \<le> 11 * e"
proof -
  have "padded e \<le> e + e div 10" by (simp add: padded_def)
  then show ?thesis by linarith
qed

lemma fit_result_Some:
  assumes "fit_result content allowance = Some r"
  shows "\<exists>keep. is_char_boundary content keep \<and> 11 * keep \<le> 30 * (allowance - note_tokens) \<and>
    keep \<le> length content \<and> take keep r = take keep content \<and>
    length r = keep + 103 + length (decimal keep) + length (decimal (length content))"
proof -
  let ?b = "allowance - note_tokens"
  let ?m = "min (sat_mul64 (sat_mul64 ?b 3) 10 div 11) (length content)"
  let ?k = "floor_boundary content ?m"
  have k: "?k \<le> ?m" by (rule floor_boundary_le)
  have "sat_mul64 (sat_mul64 ?b 3) 10 \<le> sat_mul64 ?b 3 * 10" by (simp add: sat_mul64_def)
  also have "\<dots> \<le> ?b * 3 * 10" by (simp add: sat_mul64_def)
  finally have "11 * ?k \<le> 30 * ?b" using k by linarith
  moreover have "?k \<le> length content" using k by linarith
  ultimately show ?thesis
    using assms floor_boundary_ok [of content ?m]
    by (intro exI [of _ ?k]) (auto simp: fit_result_def Let_def split: if_splits)
qed

text \<open>The cut is the last one the budget permits; the saturation of the product never shows.\<close>

lemma floor_boundary_last: "floor_boundary s k < j \<Longrightarrow> j \<le> k \<Longrightarrow> \<not> is_char_boundary s j"
  by (induction s k rule: floor_boundary.induct) (auto simp: le_Suc_eq split: if_splits)

lemma cut_target:
  assumes "n < 10 ^ 12"
  shows "min (sat_mul64 (sat_mul64 b 3) 10 div 11) n = min (30 * b div 11) n"
proof (cases "30 * b \<le> u64_max")
  case True
  then have "b * 3 \<le> u64_max" by linarith
  with True show ?thesis by (simp add: sat_mul64_def min_absorb1 mult.commute)
next
  case False
  then have "u64_max - 9 \<le> sat_mul64 (sat_mul64 b 3) 10" by (simp add: sat_mul64_def u64_max_def)
  moreover have "11 * n \<le> u64_max - 9" using assms by (simp add: u64_max_def)
  ultimately have "n \<le> sat_mul64 (sat_mul64 b 3) 10 div 11" "n \<le> 30 * b div 11"
    using False by linarith+
  then show ?thesis by simp
qed

lemma fit_result_shape:
  assumes "fit_result content allowance = Some r" and "length content < 10 ^ 12"
  shows "\<exists>keep note. r = take keep content @ note \<and> length note \<le> 127 \<and> keep \<le> length content \<and>
    is_char_boundary content keep \<and>
    (\<forall>j. keep < j \<and> j \<le> min (30 * (allowance - note_tokens) div 11) (length content) \<longrightarrow>
       \<not> is_char_boundary content j)"
proof -
  let ?m = "min (30 * (allowance - note_tokens) div 11) (length content)"
  let ?k = "floor_boundary content ?m"
  have k: "?k \<le> length content" using floor_boundary_le [of content ?m] by linarith
  have "length (decimal ?k) \<le> 12" "length (decimal (length content)) \<le> 12"
    using decimal_length [of _ 12] k assms(2) by simp_all
  moreover have "r = take ?k content @ [CHR 0x0A, CHR 0x0A] @
      ''[Lightagent shortened this result to fit the model'' @ [CHR 0x27] @
      ''s context window: the first '' @ decimal ?k @ '' of '' @ decimal (length content) @
      '' bytes are shown.]''"
    using assms(1) by (simp add: fit_result_def Let_def cut_target [OF assms(2)] split: if_splits)
  ultimately show ?thesis using k floor_boundary_ok [of content ?m] floor_boundary_last [of content ?m]
    by (intro exI [of _ ?k] exI [of _ "drop ?k r"]) (simp add: min_absorb2)
qed

text \<open>What a fitted result costs, for a result below a terabyte.\<close>

lemma fit_result_cost:
  assumes "fit_result content allowance = Some r" and "length content < 10 ^ 12"
  shows "padded (estimate_text r) \<le> max allowance note_tokens"
proof -
  from fit_result_Some [OF assms(1)] obtain keep where
    k: "11 * keep \<le> 30 * (allowance - note_tokens)" "keep \<le> length content"
      "length r = keep + 103 + length (decimal keep) + length (decimal (length content))" by blast
  have "length (decimal keep) \<le> 12" "length (decimal (length content)) \<le> 12"
    using decimal_length [of _ 12] k(2) assms(2) by simp_all
  then have "length r \<le> keep + 127" using k(3) by linarith
  then have "30 * padded (estimate_text r) \<le> 30 * (allowance - note_tokens) + 11 * 129"
    using padded_le [of "estimate_text r"] estimate_text_le [of r] k(1) by linarith
  then show ?thesis by (cases "allowance \<le> 48") (simp_all add: note_tokens_def)
qed

lemma ends_with_iff: "ends_with s t \<longleftrightarrow> (\<exists>p. s = p @ t)"
  unfolding ends_with_def is_prefix_of_iff
  by (metis rev_append rev_rev_ident)

lemma find_rev_upt:
  "find P (rev [a..<b]) = Some n \<longleftrightarrow> a \<le> n \<and> n < b \<and> P n \<and> (\<forall>m. n < m \<and> m < b \<longrightarrow> \<not> P m)"
proof (induction b)
  case (Suc b)
  show ?case
  proof (cases "a \<le> b")
    case True
    then show ?thesis using Suc.IH
      by (cases "P b") (auto simp: less_Suc_eq)
  next
    case False
    then show ?thesis by auto
  qed
qed simp

lemma positive_Some: "positive x = Some n \<longleftrightarrow> x = Some n \<and> 0 < n"
  by (auto simp: positive_def split: option.splits)

section \<open>Properties\<close>

text \<open>
  C35. A tool result is cut to its allowance, or to the 48 tokens of the note where the allowance is
  smaller. For a content below 10^12 bytes and with the guard on, what the model is shown, whole or
  shortened, costs at most that; so when the allowance is at least the note's, the prompt with the
  shown result never makes the guard ask for an answer. A result is shortened exactly when it does
  not fit, to a prefix and a note of at most 127 bytes, and the prefix ends at the last boundary
  between characters that the budget permits.
\<close>

theorem fitted_results_keep_the_answer_room:
  assumes "result_allowance b prompt = Some allowance" and "length content < 10 ^ 12"
  shows "(let shown = (case fit_result content allowance of Some r \<Rightarrow> r | None \<Rightarrow> content) in
    padded (estimate_text shown) \<le> max allowance note_tokens \<and>
    (note_tokens \<le> allowance \<longrightarrow> \<not> needs_answer_now b (prompt + padded (estimate_text shown))) \<and>
    (fit_result content allowance = None \<longleftrightarrow> padded (estimate_text content) \<le> max allowance note_tokens) \<and>
    (\<forall>r. fit_result content allowance = Some r \<longrightarrow>
       (\<exists>keep note. r = take keep content @ note \<and> length note \<le> 127 \<and> keep \<le> length content \<and>
          is_char_boundary content keep \<and>
          (\<forall>j. keep < j \<and> j \<le> min (30 * (allowance - note_tokens) div 11) (length content) \<longrightarrow>
             \<not> is_char_boundary content j))))"
proof -
  define shown where "shown = (case fit_result content allowance of Some r \<Rightarrow> r | None \<Rightarrow> content)"
  have whole: "fit_result content allowance = None \<longleftrightarrow> padded (estimate_text content) \<le> max allowance note_tokens"
    by (simp add: fit_result_def Let_def)
  have cost: "padded (estimate_text shown) \<le> max allowance note_tokens"
    using whole fit_result_cost [OF _ assms(2)] by (auto simp: shown_def split: option.splits)
  obtain w where w: "gb_context_window b = Some w" and
    al: "allowance = cw_tokens w - prompt - margin (cw_tokens w) - gb_reserve_answer_tokens b"
    using assms(1) by (auto simp: result_allowance_def room_def guards_context_def split: if_splits)
  have "\<not> needs_answer_now b (prompt + padded (estimate_text shown))" if "note_tokens \<le> allowance"
  proof -
    have "gb_reserve_answer_tokens b
        \<le> cw_tokens w - (prompt + padded (estimate_text shown)) - margin (cw_tokens w)"
      using cost al that unfolding note_tokens_def by linarith
    then show ?thesis by (simp add: needs_answer_now_def room_def w)
  qed
  with cost whole fit_result_shape [OF _ assms(2)] show ?thesis
    unfolding Let_def shown_def [symmetric] by blast
qed

definition sample_budget :: generation_budget where
  "sample_budget = \<lparr>gb_context_window = Some \<lparr>cw_tokens = 4096, cw_source = ProviderWindow\<rparr>,
     gb_max_output_tokens = Some 1024, gb_reserve_answer_tokens = 512,
     gb_reasoning = AppliedReasoning ''high'', gb_output_pool = Some \<lparr>ph_pool = 0, ph_account = Lead\<rparr>,
     gb_max_continuations = 2\<rparr>"

text \<open>A result that is cut: two bytes of two hundred are left.\<close>

theorem fitted_results_keep_the_answer_room_witness:
  "\<exists>r note. fit_result (replicate 200 (CHR ''a'')) 49 = Some r \<and> r = ''aa'' @ note \<and>
     \<not> needs_answer_now sample_budget (3454 + padded (estimate_text r))"
proof -
  let ?c = "replicate 200 (CHR ''a'')"
  have a: "result_allowance sample_budget 3454 = Some 49"
    by (simp add: sample_budget_def result_allowance_def guards_context_def room_def margin_def)
  have cost: "\<not> padded (estimate_text ?c) \<le> max 49 note_tokens"
    by (simp add: padded_def estimate_text_def u32_or_def u32_max_def sat_add32_def note_tokens_def)
  note fits = fitted_results_keep_the_answer_room [OF a, of ?c, unfolded Let_def]
  obtain r where r: "fit_result ?c 49 = Some r" using fits cost by auto
  obtain keep tail where k: "r = take keep ?c @ tail" "keep \<le> 200"
    "\<forall>j. keep < j \<and> j \<le> 2 \<longrightarrow> \<not> is_char_boundary ?c j"
    using fits r by (auto simp: note_tokens_def)
  have "is_char_boundary ?c 2" by (simp add: is_char_boundary_def is_continuation_def)
  then have "2 \<le> keep" using k(3) by (meson le_refl not_le)
  then have "take keep ?c = ''aa'' @ replicate (keep - 2) (CHR ''a'')"
    using k(2) by (simp add: min_absorb1 replicate_Suc [symmetric] Suc_diff_le del: replicate_Suc)
  then show ?thesis using fits r k(1) by (auto simp: note_tokens_def)
qed

text \<open>
  A delegated worker never gets more than the run it works for: with either kind of budget
  its output ceiling is at most the run's, its continuations are at most the run's, it draws on
  the run's own pool and never under the lead's account, and with another model it takes over
  neither the run's window nor its reasoning setting.
\<close>

theorem worker_budgets_never_widen:
  assumes "w \<in> {for_worker same b, for_routed_worker own b}"
  shows "(\<forall>m. gb_max_output_tokens b = Some m \<longrightarrow>
      (\<exists>k. gb_max_output_tokens w = Some k \<and> k \<le> m)) \<and>
    gb_max_continuations w \<le> gb_max_continuations b \<and>
    map_option ph_pool (gb_output_pool w) = map_option ph_pool (gb_output_pool b) \<and>
    (\<forall>h. gb_output_pool w = Some h \<longrightarrow> ph_account h = Unplanned) \<and>
    (w = for_routed_worker own b \<longrightarrow> gb_context_window w = gb_context_window own) \<and>
    (w = for_worker False b \<longrightarrow> gb_context_window w = None \<and> gb_reasoning w = DefaultReasoning)"
  using assms
  by (auto simp: for_worker_def for_routed_worker_def worker_pool_def option.map_comp comp_def
      split: option.splits)

theorem worker_budgets_never_widen_witness:
  "gb_max_continuations (for_routed_worker (sample_budget\<lparr>gb_max_continuations := 3\<rparr>) sample_budget) \<le> 2"
  using worker_budgets_never_widen [of "for_routed_worker (sample_budget\<lparr>gb_max_continuations := 3\<rparr>) sample_budget"
      True sample_budget "sample_budget\<lparr>gb_max_continuations := 3\<rparr>"]
  by (simp add: sample_budget_def)

text \<open>
  Trimming a continuation removes nothing but a restated ending: the result is the
  continuation itself, or what follows an opening of at least 32 bytes that the earlier text
  ends with, that starts where a word starts there, ends between characters and holds more than
  one word; and of all such openings it is the longest.
\<close>

theorem only_a_restated_ending_is_trimmed:
  "(strip_overlap prev nxt = nxt \<and>
      \<not> (\<exists>n. min_overlap \<le> n \<and> n \<le> length prev \<and> n \<le> length nxt \<and> overlap_at prev nxt n)) \<or>
   (\<exists>restated before. nxt = restated @ strip_overlap prev nxt \<and> prev = before @ restated \<and>
      32 \<le> length restated \<and> (before = [] \<or> ends_in_ws before) \<and> has_ws (trim restated) \<and>
      is_char_boundary nxt (length restated) \<and>
      \<not> (\<exists>n. length restated < n \<and> n \<le> length prev \<and> n \<le> length nxt \<and> overlap_at prev nxt n))"
proof (cases "find (overlap_at prev nxt) (rev [min_overlap..<Suc (min (length prev) (length nxt))])")
  case None
  then have "strip_overlap prev nxt = nxt" by (simp only: strip_overlap_def option.case)
  moreover have "\<not> overlap_at prev nxt n"
    if "min_overlap \<le> n" "n \<le> length prev" "n \<le> length nxt" for n
    using None that unfolding find_None_iff by (simp only: set_rev set_upt) auto
  ultimately show ?thesis by blast
next
  case (Some n)
  then have n: "32 \<le> n" "n \<le> length prev" "n \<le> length nxt" and ov: "overlap_at prev nxt n"
    and mx: "\<And>m. n < m \<Longrightarrow> m \<le> length prev \<Longrightarrow> m \<le> length nxt \<Longrightarrow> \<not> overlap_at prev nxt m"
    by (auto simp only: find_rev_upt min_overlap_def less_Suc_eq_le min.bounded_iff)
  obtain before where prev: "prev = before @ take n nxt" using ov by (auto simp: overlap_at_def ends_with_iff)
  then have b: "take (length prev - n) prev = before"
    using n by (metis append_eq_conv_conj diff_add_inverse2 length_append length_take min_absorb2)
  have s: "strip_overlap prev nxt = drop n nxt" using Some by (simp add: strip_overlap_def)
  have len: "length (take n nxt) = n" using n by simp
  have "before = [] \<or> ends_in_ws before" "has_ws (trim (take n nxt))" "is_char_boundary nxt n"
    using ov b by (simp_all add: overlap_at_def Let_def)
  then have "nxt = take n nxt @ strip_overlap prev nxt \<and> prev = before @ take n nxt \<and>
      32 \<le> length (take n nxt) \<and> (before = [] \<or> ends_in_ws before) \<and> has_ws (trim (take n nxt)) \<and>
      is_char_boundary nxt (length (take n nxt)) \<and>
      \<not> (\<exists>m. length (take n nxt) < m \<and> m \<le> length prev \<and> m \<le> length nxt \<and> overlap_at prev nxt m)"
    unfolding s len using n(1) mx prev by (auto simp: min_absorb2)
  then show ?thesis by blast
qed

end
