(* ===== verification/Delegation.thy ===== *)
theory Delegation
  imports GenBudget
begin

text \<open>
  What a delegation tree may spend and how many workers may run at once
  (\<open>crates/lightagent-tools/src/budget.rs\<close>), with the run limits it starts from
  (\<open>crates/lightagent-core/src/limits.rs\<close>) and the generation settings a routed worker is
  budgeted by (\<open>GenerationConfig\<close> in \<open>crates/lightagent-core/src/config.rs\<close>).

  Times are nanoseconds. Tokio's semaphore is modelled by its documented behaviour: a permit can
  be taken when one is free. Its fairness only removes schedules; every schedule it allows is one
  of the model's.
\<close>

section \<open>Run limits\<close>

record run_limits =
  rl_max_turns :: nat
  rl_max_tool_calls :: nat
  rl_max_parallel_tools :: nat
  rl_max_repeated_identical_calls :: nat
  rl_max_tool_output_bytes :: nat
  rl_wall_clock_secs :: "nat option"

definition default_limits :: run_limits where
  "default_limits = \<lparr>rl_max_turns = 8, rl_max_tool_calls = 32, rl_max_parallel_tools = 1,
     rl_max_repeated_identical_calls = 2, rl_max_tool_output_bytes = 262144,
     rl_wall_clock_secs = Some 300\<rparr>"

definition nanos_per_sec :: nat where
  "nanos_per_sec = 1000000000"

definition wall_clock :: "run_limits \<Rightarrow> nat option" where
  "wall_clock l = map_option (\<lambda>s. s * nanos_per_sec) (rl_wall_clock_secs l)"

fun min_opt :: "nat option \<Rightarrow> nat option \<Rightarrow> nat option" where
  "min_opt (Some a) (Some b) = Some (min a b)"
| "min_opt (Some a) None = Some a"
| "min_opt None (Some b) = Some b"
| "min_opt None None = None"

definition limits_intersect :: "run_limits \<Rightarrow> run_limits \<Rightarrow> run_limits" where
  "limits_intersect a b =
     \<lparr>rl_max_turns = min (rl_max_turns a) (rl_max_turns b),
      rl_max_tool_calls = min (rl_max_tool_calls a) (rl_max_tool_calls b),
      rl_max_parallel_tools = min (rl_max_parallel_tools a) (rl_max_parallel_tools b),
      rl_max_repeated_identical_calls =
        min (rl_max_repeated_identical_calls a) (rl_max_repeated_identical_calls b),
      rl_max_tool_output_bytes = min (rl_max_tool_output_bytes a) (rl_max_tool_output_bytes b),
      rl_wall_clock_secs = min_opt (rl_wall_clock_secs a) (rl_wall_clock_secs b)\<rparr>"

section \<open>Generation settings\<close>

record generation_override =
  go_max_output_tokens :: "nat option"
  go_reserve_answer_tokens :: "nat option"
  go_max_run_output_tokens :: "nat option"
  go_context_window :: "nat option"
  go_reasoning_effort :: "string option"
  go_reasoning_supported :: "string list option"
  go_continuations :: "nat option"

record generation_config =
  gc_max_output_tokens :: "nat option"
  gc_reserve_answer_tokens :: "nat option"
  gc_max_run_output_tokens :: "nat option"
  gc_context_window :: "nat option"
  gc_reasoning_effort :: "string option"
  gc_reasoning_supported :: "string list"
  gc_continuations :: "nat option"
  gc_unknown_capacity_turn_tokens :: "nat option"
  gc_models :: "(string, generation_override) btree"

definition or_else :: "'a option \<Rightarrow> 'a option \<Rightarrow> 'a option" where
  "or_else a b = (case a of Some x \<Rightarrow> Some x | None \<Rightarrow> b)"

definition default_answer_reserve :: nat where
  "default_answer_reserve = 1024"

definition unwrap_or :: "'a \<Rightarrow> 'a option \<Rightarrow> 'a" where
  "unwrap_or d x = (case x of Some y \<Rightarrow> y | None \<Rightarrow> d)"

text \<open>
  The budget for a model, and the state of the pool it opens when it has one: \<open>fresh\<close> is the
  identity of that new pool.
\<close>

definition budget_for ::
  "generation_config \<Rightarrow> nat \<Rightarrow> string \<Rightarrow> nat option \<Rightarrow> generation_budget \<times> pool_state option" where
  "budget_for cfg fresh model reported =
     (let own = bt_get (gc_models cfg) model;
          pick = (\<lambda>field base. or_else (Option.bind own field) base);
          window = resolve_context_window reported (pick go_context_window (gc_context_window cfg));
          reserve = unwrap_or (case window of None \<Rightarrow> default_answer_reserve
                      | Some w \<Rightarrow> min default_answer_reserve (cw_tokens w div 4))
            (pick go_reserve_answer_tokens (gc_reserve_answer_tokens cfg));
          effort = or_else (Option.bind own go_reasoning_effort) (gc_reasoning_effort cfg);
          supported = unwrap_or (gc_reasoning_supported cfg) (Option.bind own go_reasoning_supported);
          pool = map_option (\<lambda>total. with_turn_tokens
              (unwrap_or default_turn_tokens (gc_unknown_capacity_turn_tokens cfg)) (pool_new total))
            (pick go_max_run_output_tokens (gc_max_run_output_tokens cfg))
      in (\<lparr>gb_context_window = window,
           gb_max_output_tokens = pick go_max_output_tokens (gc_max_output_tokens cfg),
           gb_reserve_answer_tokens = reserve,
           gb_reasoning = resolve_reasoning effort supported,
           gb_output_pool = map_option (\<lambda>_. \<lparr>ph_pool = fresh, ph_account = Lead\<rparr>) pool,
           gb_max_continuations = unwrap_or 1 (pick go_continuations (gc_continuations cfg))\<rparr>,
          pool))"

section \<open>The budget of delegated workers\<close>

record model_routing =
  mr_provider :: string
  mr_model :: string
  mr_base_url :: "string option"

record served_model =
  sm_model :: "string option"
  sm_context_window :: "nat option"

record lead_generation =
  lg_model :: string
  lg_budget :: generation_budget
  lg_settings :: "generation_config option"

definition default_budget :: generation_budget where
  "default_budget = \<lparr>gb_context_window = None, gb_max_output_tokens = None,
     gb_reserve_answer_tokens = 0, gb_reasoning = DefaultReasoning, gb_output_pool = None,
     gb_max_continuations = 0\<rparr>"

definition same_model :: "model_routing \<Rightarrow> string \<Rightarrow> bool" where
  "same_model routing lead_model =
     (let model = trim (mr_model routing)
      in mr_base_url routing = None \<and> (model = [] \<or> model = ''default'' \<or> model = lead_model))"

text \<open>The slot holds the lead's budget or nothing; a poisoned lock is not modelled.\<close>

definition slot_for_worker :: "lead_generation option \<Rightarrow> model_routing \<Rightarrow> generation_budget" where
  "slot_for_worker slot routing =
     (case slot of None \<Rightarrow> default_budget
      | Some lead \<Rightarrow> for_worker (same_model routing (lg_model lead)) (lg_budget lead))"

text \<open>\<open>served\<close> is what the worker's provider answered within the time limit, if it did.\<close>

definition slot_for_worker_on ::
  "lead_generation option \<Rightarrow> model_routing \<Rightarrow> served_model option \<Rightarrow> nat \<Rightarrow> generation_budget" where
  "slot_for_worker_on slot routing served fresh =
     (case slot of None \<Rightarrow> default_budget
      | Some lead \<Rightarrow>
          if same_model routing (lg_model lead) then for_worker True (lg_budget lead)
          else (case lg_settings lead of
              None \<Rightarrow> for_worker False (lg_budget lead)
            | Some settings \<Rightarrow>
                (let s = unwrap_or \<lparr>sm_model = None, sm_context_window = None\<rparr> served;
                     model = unwrap_or (trim (mr_model routing)) (sm_model s)
                 in for_routed_worker (fst (budget_for settings fresh model (sm_context_window s)))
                      (lg_budget lead))))"

section \<open>The allowance of a tree\<close>

record tree_remaining =
  tr_turns :: nat
  tr_tool_calls :: nat
  tr_workers :: nat
  tr_deadline :: "nat option"

record tree_grant =
  tg_turns :: nat
  tg_tool_calls :: nat
  tg_seconds :: "nat option"

definition tree_new :: "run_limits \<Rightarrow> nat \<Rightarrow> nat \<Rightarrow> tree_remaining" where
  "tree_new limits workers now =
     \<lparr>tr_turns = rl_max_turns limits, tr_tool_calls = rl_max_tool_calls limits,
      tr_workers = workers, tr_deadline = map_option (\<lambda>d. now + d) (wall_clock limits)\<rparr>"

definition tree_seconds :: "tree_remaining \<Rightarrow> nat \<Rightarrow> nat option" where
  "tree_seconds r now = map_option (\<lambda>d. (d - now) div nanos_per_sec) (tr_deadline r)"

definition tree_spent :: "tree_remaining \<Rightarrow> nat \<Rightarrow> string option" where
  "tree_spent r now =
     (if tr_workers r = 0 then Some ''workers''
      else if tr_turns r = 0 then Some ''model turns''
      else if tr_tool_calls r = 0 then Some ''tool calls''
      else if tree_seconds r now = Some 0 then Some ''time''
      else None)"

definition tree_grant_to ::
  "tree_remaining \<Rightarrow> nat \<Rightarrow> run_limits \<Rightarrow> (string + tree_grant) \<times> tree_remaining" where
  "tree_grant_to r now want =
     (case tree_spent r now of
        Some what \<Rightarrow> (Inl (''the delegation budget has no '' @ what @ '' left''), r)
      | None \<Rightarrow>
          (let turns = min (rl_max_turns want) (tr_turns r);
               calls = min (rl_max_tool_calls want) (tr_tool_calls r);
               secs = (case (rl_wall_clock_secs want, tree_seconds r now) of
                   (Some own, Some left) \<Rightarrow> Some (min own left)
                 | (own, None) \<Rightarrow> own
                 | (None, left) \<Rightarrow> left)
           in (Inr \<lparr>tg_turns = turns, tg_tool_calls = calls, tg_seconds = secs\<rparr>,
               r\<lparr>tr_turns := tr_turns r - turns, tr_tool_calls := tr_tool_calls r - calls,
                 tr_workers := tr_workers r - 1\<rparr>)))"

text \<open>\<open>settle\<close> adds with the wrapping \<open>+\<close> of an optimised build.\<close>

definition tree_settle :: "tree_remaining \<Rightarrow> tree_grant \<Rightarrow> nat \<Rightarrow> nat \<Rightarrow> tree_remaining" where
  "tree_settle r g used_turns used_calls =
     r\<lparr>tr_turns := wrap_add32 (tr_turns r) (tg_turns g - used_turns),
       tr_tool_calls := wrap_add32 (tr_tool_calls r) (tg_tool_calls g - used_calls)\<rparr>"

definition tree_left :: "tree_remaining \<Rightarrow> nat \<times> nat" where
  "tree_left r = (tr_turns r, tr_tool_calls r)"

text \<open>
  A tree with the grants its running workers hold, and the sums of what finished workers used
  of their grants.
\<close>

record tree_sys =
  ty_rem :: tree_remaining
  ty_flight :: "tree_grant list"
  ty_used_turns :: nat
  ty_used_calls :: nat
  ty_granted :: nat

datatype tree_event = TreeGrant run_limits nat | TreeSettle nat nat nat

fun tree_step :: "tree_sys \<Rightarrow> tree_event \<Rightarrow> tree_sys" where
  "tree_step s (TreeGrant want now) =
     (case tree_grant_to (ty_rem s) now want of
        (Inl _, _) \<Rightarrow> s
      | (Inr g, r) \<Rightarrow> s\<lparr>ty_rem := r, ty_flight := ty_flight s @ [g], ty_granted := Suc (ty_granted s)\<rparr>)"
| "tree_step s (TreeSettle i turns calls) =
     (if i < length (ty_flight s) then
        (let g = ty_flight s ! i
         in s\<lparr>ty_rem := tree_settle (ty_rem s) g turns calls,
              ty_flight := take i (ty_flight s) @ drop (Suc i) (ty_flight s),
              ty_used_turns := ty_used_turns s + min turns (tg_turns g),
              ty_used_calls := ty_used_calls s + min calls (tg_tool_calls g)\<rparr>)
      else s)"

definition tree_sys_new :: "run_limits \<Rightarrow> nat \<Rightarrow> nat \<Rightarrow> tree_sys" where
  "tree_sys_new limits workers now = \<lparr>ty_rem = tree_new limits workers now, ty_flight = [],
     ty_used_turns = 0, ty_used_calls = 0, ty_granted = 0\<rparr>"

definition tree_inv :: "nat \<Rightarrow> nat \<Rightarrow> nat \<Rightarrow> tree_sys \<Rightarrow> bool" where
  "tree_inv turns calls workers s \<longleftrightarrow>
     tr_turns (ty_rem s) + sum_list (map tg_turns (ty_flight s)) + ty_used_turns s = turns \<and>
     tr_tool_calls (ty_rem s) + sum_list (map tg_tool_calls (ty_flight s)) + ty_used_calls s = calls \<and>
     tr_workers (ty_rem s) + ty_granted s = workers \<and> length (ty_flight s) \<le> ty_granted s"

lemma sum_remove_nth:
  fixes f :: "'a \<Rightarrow> nat"
  assumes "i < length xs"
  shows "sum_list (map f (take i xs @ drop (Suc i) xs)) + f (xs ! i) = sum_list (map f xs)"
proof -
  have "sum_list (map f xs) = sum_list (map f (take i xs @ xs ! i # drop (Suc i) xs))"
    using id_take_nth_drop [OF assms] by simp
  then show ?thesis by simp
qed

lemma tree_grant_Inr:
  "tree_grant_to r now want = (Inr g, r') \<Longrightarrow>
     tree_spent r now = None \<and> tg_turns g = min (rl_max_turns want) (tr_turns r) \<and>
     tg_tool_calls g = min (rl_max_tool_calls want) (tr_tool_calls r) \<and>
     r' = r\<lparr>tr_turns := tr_turns r - tg_turns g, tr_tool_calls := tr_tool_calls r - tg_tool_calls g,
            tr_workers := tr_workers r - 1\<rparr>"
  by (auto simp: tree_grant_to_def Let_def split: option.splits)

lemma tree_inv_step:
  assumes "tree_inv turns calls workers s" and "turns \<le> u32_max" and "calls \<le> u32_max"
  shows "tree_inv turns calls workers (tree_step s e)"
proof (cases e)
  case (TreeGrant want now)
  obtain x r where x: "tree_grant_to (ty_rem s) now want = (x, r)" by fastforce
  show ?thesis
  proof (cases x)
    case (Inl e)
    then show ?thesis using assms(1) x TreeGrant by simp
  next
    case (Inr g)
    note g = tree_grant_Inr [OF x [unfolded Inr]]
    then have "0 < tr_workers (ty_rem s)" by (auto simp: tree_spent_def split: if_splits)
    then show ?thesis using assms(1) g x Inr TreeGrant by (auto simp: tree_inv_def)
  qed
next
  case (TreeSettle i t c)
  show ?thesis
  proof (cases "i < length (ty_flight s)")
    case True
    let ?g = "ty_flight s ! i"
    note a = sum_remove_nth [OF True, of tg_turns] and b = sum_remove_nth [OF True, of tg_tool_calls]
    have t: "tr_turns (ty_rem s) + (tg_turns ?g - t) \<le> u32_max"
      and c: "tr_tool_calls (ty_rem s) + (tg_tool_calls ?g - c) \<le> u32_max"
      using assms a b unfolding tree_inv_def by linarith+
    show ?thesis
      using assms(1) a b True
      by (auto simp: TreeSettle tree_inv_def tree_settle_def wrap_add32_exact [OF t]
          wrap_add32_exact [OF c] Let_def)
  qed (use assms(1) TreeSettle in simp)
qed

interpretation tree: step_invariant tree_step "\<lambda>_ _. turns \<le> u32_max \<and> calls \<le> u32_max"
  "tree_inv turns calls workers" for turns calls workers
  by unfold_locales (simp add: tree_inv_step)

lemma tree_inv_new: "tree_inv (rl_max_turns l) (rl_max_tool_calls l) w (tree_sys_new l w now)"
  by (simp add: tree_inv_def tree_sys_new_def tree_new_def)

text \<open>
  C36. Siblings share one allowance: through any run of grants and settlements, what is left,
  what running workers hold and what finished workers used of their grants add up to exactly
  the lead's own turns and tool calls (no settlement wraps), and no more workers are ever
  granted than the tree allows.
\<close>

theorem siblings_share_one_allowance:
  assumes "rl_max_turns limits \<le> u32_max" and "rl_max_tool_calls limits \<le> u32_max"
  shows "(let s = foldl tree_step (tree_sys_new limits workers now) es in
    fst (tree_left (ty_rem s)) + sum_list (map tg_turns (ty_flight s)) + ty_used_turns s
      = rl_max_turns limits \<and>
    snd (tree_left (ty_rem s)) + sum_list (map tg_tool_calls (ty_flight s)) + ty_used_calls s
      = rl_max_tool_calls limits \<and>
    ty_granted s \<le> workers \<and> length (ty_flight s) \<le> ty_granted s)"
proof -
  let ?s = "foldl tree_step (tree_sys_new limits workers now) es"
  have "tree_inv (rl_max_turns limits) (rl_max_tool_calls limits) workers ?s"
    by (rule tree.run_inv_total [OF tree_inv_new]) (use assms in simp)
  then show ?thesis by (auto simp: Let_def tree_inv_def tree_left_def)
qed

theorem siblings_share_one_allowance_witness:
  "ty_granted (foldl tree_step (tree_sys_new default_limits 2 0)
     [TreeGrant default_limits 5, TreeSettle 0 3 1, TreeGrant default_limits 9]) \<le> 2"
  using siblings_share_one_allowance [of default_limits 2 0
      "[TreeGrant default_limits 5, TreeSettle 0 3 1, TreeGrant default_limits 9]"]
  by (simp add: default_limits_def u32_max_def Let_def del: foldl.simps)

text \<open>
  A worker routed by the slot never gets a larger ceiling than the lead, never reserves
  under the lead's account, and opens no pool of its own; the lead's window and reasoning
  setting reach it only on the same model at the same endpoint. Without a lead budget nothing
  bounds it.
\<close>

theorem slot_workers_stay_within_the_lead:
  "(case slot of
      None \<Rightarrow> slot_for_worker_on slot routing served fresh = default_budget
    | Some lead \<Rightarrow>
        (let w = slot_for_worker_on slot routing served fresh; b = lg_budget lead in
         (case gb_max_output_tokens b of None \<Rightarrow> True
          | Some m \<Rightarrow> (case gb_max_output_tokens w of None \<Rightarrow> False | Some k \<Rightarrow> k \<le> m)) \<and>
         gb_max_continuations w \<le> gb_max_continuations b \<and>
         gb_output_pool w = map_option (\<lambda>h. h\<lparr>ph_account := Unplanned\<rparr>) (gb_output_pool b) \<and>
         (mr_base_url routing = None \<or> lg_settings lead \<noteq> None \<or>
            gb_context_window w = None \<and> gb_reasoning w = DefaultReasoning)))"
  by (auto simp: slot_for_worker_on_def for_worker_def for_routed_worker_def worker_pool_def
      same_model_def Let_def split: option.splits)

definition sample_lead :: lead_generation where
  "sample_lead = \<lparr>lg_model = ''lfm2'', lg_budget = sample_budget, lg_settings = None\<rparr>"

theorem slot_workers_stay_within_the_lead_witness:
  "gb_context_window (slot_for_worker_on (Some sample_lead)
     \<lparr>mr_provider = ''openai'', mr_model = ''lfm2'', mr_base_url = Some ''http://x''\<rparr> None 0) = None"
  using slot_workers_stay_within_the_lead [of "Some sample_lead"
      "\<lparr>mr_provider = ''openai'', mr_model = ''lfm2'', mr_base_url = Some ''http://x''\<rparr>" None 0]
  by (simp add: Let_def sample_lead_def del: not_None_eq)

end
