(* ===== verification/Permissions.thy ===== *)
theory Permissions
  imports Prelude
begin

text \<open>
  The permission vocabulary and the approval policy (\<open>crates/lightagent-core/src/permissions.rs\<close>):
  risk classes with their order, scopes, approval requests and decisions, the policy engine with
  its remembered grants, and the per-profile append-only log of those grants.

  Time is a natural number of ticks (\<open>SystemTime\<close>, \<open>Duration\<close>). The JSON codec of the log
  (\<open>serde_json\<close>) and the file primitive that replaces the log are parameters.
\<close>

section \<open>Vocabulary\<close>

datatype risk_class = Observe | External | Sensitive | Mutating | Executable | Privileged

text \<open>The derived order is the order of the constructors.\<close>

fun risk_rank :: "risk_class \<Rightarrow> nat" where
  "risk_rank Observe = 0"
| "risk_rank External = 1"
| "risk_rank Sensitive = 2"
| "risk_rank Mutating = 3"
| "risk_rank Executable = 4"
| "risk_rank Privileged = 5"

lemma risk_rank_inject: "risk_rank a = risk_rank b \<longleftrightarrow> a = b"
  by (cases a; cases b) simp_all

instantiation risk_class :: linorder
begin

definition less_eq_risk_class :: "risk_class \<Rightarrow> risk_class \<Rightarrow> bool" where
  "less_eq_risk_class a b \<longleftrightarrow> risk_rank a \<le> risk_rank b"

definition less_risk_class :: "risk_class \<Rightarrow> risk_class \<Rightarrow> bool" where
  "less_risk_class a b \<longleftrightarrow> risk_rank a < risk_rank b"

instance
  by standard (auto simp: less_eq_risk_class_def less_risk_class_def risk_rank_inject)

end

lemmas risk_order = less_eq_risk_class_def less_risk_class_def

fun risk_as_str :: "risk_class \<Rightarrow> string" where
  "risk_as_str Observe = ''observe''"
| "risk_as_str External = ''external''"
| "risk_as_str Sensitive = ''sensitive''"
| "risk_as_str Mutating = ''mutating''"
| "risk_as_str Executable = ''executable''"
| "risk_as_str Privileged = ''privileged''"

type_synonym scope = string
type_synonym approval_id = string
type_synonym time = nat

text \<open>Rendering of bytes as lowercase hexadecimal; a byte is a number below 256.\<close>

definition nibble :: "nat \<Rightarrow> char" where
  "nibble v = (if v \<le> 9 then char_of (48 + v) else char_of (97 + (v - 10)))"

definition hex :: "nat list \<Rightarrow> string" where
  "hex bytes = concat (map (\<lambda>b. [nibble (b div 16), nibble (b mod 16)]) bytes)"

text \<open>Sixteen bytes of entropy, when the operating system gives them; otherwise the fallback id.\<close>

definition approval_id_new :: "nat list option \<Rightarrow> string \<Rightarrow> approval_id" where
  "approval_id_new entropy fallback =
     (case entropy of Some bytes \<Rightarrow> ''apr-'' @ hex bytes | None \<Rightarrow> ''apr-'' @ fallback)"

section \<open>Policy, requests, decisions and records\<close>

record approval_request =
  rq_id :: approval_id
  rq_tool :: string
  rq_risk :: risk_class
  rq_scopes :: "scope list"
  rq_preview :: string

record approval_record =
  rec_tool :: string
  rec_risk :: risk_class
  rec_scopes :: "scope list"
  rec_granted_at :: time
  rec_expires_at :: "time option"

record approval_policy =
  auto_approve_max :: risk_class
  grants :: "approval_record list"
  deny :: "risk_class list"

definition permissive :: approval_policy where
  "permissive = \<lparr>auto_approve_max = Privileged, grants = [], deny = []\<rparr>"

definition balanced :: approval_policy where
  "balanced = \<lparr>auto_approve_max = External, grants = [], deny = [Privileged]\<rparr>"

definition strict :: approval_policy where
  "strict = \<lparr>auto_approve_max = Observe, grants = [], deny = [Privileged]\<rparr>"

text \<open>The coarse setting a profile holds (\<open>config::ApprovalPolicy\<close>) and its rules.\<close>

datatype coarse_policy = Permissive | Balanced | Strict

fun policy_from :: "coarse_policy \<Rightarrow> approval_policy" where
  "policy_from Permissive = permissive"
| "policy_from Balanced = balanced"
| "policy_from Strict = strict"

datatype approval_need = AutoApprove | Require approval_request | Deny string

record approval_decision =
  dec_id :: approval_id
  granted :: bool
  remember_for :: "time option"
  unrestricted :: bool

definition decision_grant :: "approval_id \<Rightarrow> approval_decision" where
  "decision_grant i = \<lparr>dec_id = i, granted = True, remember_for = None, unrestricted = False\<rparr>"

definition decision_grant_for :: "approval_id \<Rightarrow> time \<Rightarrow> approval_decision" where
  "decision_grant_for i ttl =
     \<lparr>dec_id = i, granted = True, remember_for = Some ttl, unrestricted = False\<rparr>"

definition decision_grant_unrestricted :: "approval_id \<Rightarrow> approval_decision" where
  "decision_grant_unrestricted i =
     \<lparr>dec_id = i, granted = True, remember_for = None, unrestricted = True\<rparr>"

definition decision_deny :: "approval_id \<Rightarrow> approval_decision" where
  "decision_deny i = \<lparr>dec_id = i, granted = False, remember_for = None, unrestricted = False\<rparr>"

definition record_from_request ::
  "approval_request \<Rightarrow> time \<Rightarrow> time option \<Rightarrow> approval_record" where
  "record_from_request rq now ttl =
     \<lparr>rec_tool = rq_tool rq, rec_risk = rq_risk rq, rec_scopes = rq_scopes rq,
      rec_granted_at = now, rec_expires_at = map_option (\<lambda>t. now + t) ttl\<rparr>"

text \<open>Valid strictly before the expiry; a record without one never expires.\<close>

definition unexpired :: "approval_record \<Rightarrow> time \<Rightarrow> bool" where
  "unexpired r now = (case rec_expires_at r of Some expiry \<Rightarrow> now < expiry | None \<Rightarrow> True)"

definition covers :: "approval_record \<Rightarrow> approval_request \<Rightarrow> time \<Rightarrow> bool" where
  "covers r rq now =
     (if rec_tool r \<noteq> rq_tool rq \<or> rec_risk r \<noteq> rq_risk rq then False
      else if \<not> list_all (\<lambda>s. s \<in> set (rec_scopes r)) (rq_scopes rq) then False
      else (case rec_expires_at r of Some expiry \<Rightarrow> now < expiry | None \<Rightarrow> True))"

section \<open>The policy engine\<close>

definition quoted :: "string \<Rightarrow> string" where
  "quoted s = CHR 0x27 # s @ [CHR 0x27]"

definition remember :: "approval_policy \<Rightarrow> approval_record \<Rightarrow> approval_policy" where
  "remember p r = p\<lparr>grants := grants p @ [r]\<rparr>"

definition allow_without_restrictions :: "approval_policy \<Rightarrow> approval_policy" where
  "allow_without_restrictions p = permissive"

definition mandatory_ask :: "approval_request \<Rightarrow> bool" where
  "mandatory_ask rq \<longleftrightarrow>
     rq_risk rq \<in> {Mutating, Executable} \<or>
     list_ex (\<lambda>s. s \<in> {''fs:write'', ''terminal:exec''}) (rq_scopes rq)"

definition evaluate :: "approval_policy \<Rightarrow> approval_request \<Rightarrow> time \<Rightarrow> approval_need" where
  "evaluate p rq now =
     (if rq_risk rq = Privileged then
        Deny (''the tool '' @ quoted (rq_tool rq) @ '' is blocked (privileged operation)'')
      else if rq_risk rq \<in> set (deny p) then
        Deny (''the tool '' @ quoted (rq_tool rq) @ '' is denied by policy (risk class ''
              @ quoted (risk_as_str (rq_risk rq)) @ '')'')
      else if mandatory_ask rq then Require rq
      else if list_ex (\<lambda>g. covers g rq now) (grants p) then AutoApprove
      else if rq_risk rq \<le> auto_approve_max p then AutoApprove
      else Require rq)"

text \<open>
  What one answered request does to the engine of a session: a remembered grant is recorded, an
  unrestricted answer relaxes the session's policy.
\<close>

datatype engine_event = Remember approval_record | Unrestrict

fun engine_step :: "approval_policy \<Rightarrow> engine_event \<Rightarrow> approval_policy" where
  "engine_step p (Remember r) = remember p r"
| "engine_step p Unrestrict = allow_without_restrictions p"

section \<open>The log of remembered grants\<close>

datatype approval_store_error = Corrupt string | Io string

text \<open>\<open>str::lines\<close>: pieces between line feeds, a final empty piece dropped, one trailing carriage
  return of a piece removed.\<close>

definition drop_cr :: "string \<Rightarrow> string" where
  "drop_cr s = (case strip_suffix [CHR 0x0D] s of Some t \<Rightarrow> t | None \<Rightarrow> s)"

definition text_lines :: "string \<Rightarrow> string list" where
  "text_lines s =
     (let ps = split_on (CHR 0x0A) s
      in map drop_cr (if last ps = [] then butlast ps else ps))"

fun parse_lines :: "(string \<Rightarrow> string + approval_record) \<Rightarrow> string list
    \<Rightarrow> approval_store_error + approval_record list" where
  "parse_lines from_str [] = Inr []"
| "parse_lines from_str (l # ls) =
     (if trim l = [] then parse_lines from_str ls
      else case from_str (trim l) of
          Inl err \<Rightarrow> Inl (Corrupt err)
        | Inr r \<Rightarrow> (case parse_lines from_str ls of Inl e \<Rightarrow> Inl e | Inr rs \<Rightarrow> Inr (r # rs)))"

text \<open>Reading the file: its text, no such file, or another error with its message.\<close>

datatype file_read = Text string | NotFound | ReadError string

definition store_list ::
  "(string \<Rightarrow> string + approval_record) \<Rightarrow> file_read \<Rightarrow> approval_store_error + approval_record list" where
  "store_list from_str f =
     (case f of
        Text text \<Rightarrow> parse_lines from_str (text_lines text)
      | NotFound \<Rightarrow> Inr []
      | ReadError err \<Rightarrow> Inl (Io err))"

fun encode_records :: "(approval_record \<Rightarrow> string + string) \<Rightarrow> approval_record list
    \<Rightarrow> approval_store_error + string" where
  "encode_records to_str [] = Inr []"
| "encode_records to_str (r # rs) =
     (case to_str r of
        Inl err \<Rightarrow> Inl (Corrupt err)
      | Inr line \<Rightarrow> (case encode_records to_str rs of
            Inl e \<Rightarrow> Inl e | Inr rest \<Rightarrow> Inr (line @ CHR 0x0A # rest)))"

text \<open>
  \<open>rewrite\<close> replaces the file in one step: the result is the new file content, or the error
  with the old content kept. \<open>write\<close> is the primitive \<open>paths::write_private\<close>: \<open>None\<close> when
  it succeeds, its message when it fails.
\<close>

definition store_rewrite ::
  "(approval_record \<Rightarrow> string + string) \<Rightarrow> (string \<Rightarrow> string option) \<Rightarrow> file_read
    \<Rightarrow> approval_record list \<Rightarrow> (approval_store_error option) \<times> file_read" where
  "store_rewrite to_str write f rs =
     (case encode_records to_str rs of
        Inl e \<Rightarrow> (Some e, f)
      | Inr bytes \<Rightarrow> (case write bytes of
            Some err \<Rightarrow> (Some (Io err), f)
          | None \<Rightarrow> (None, Text bytes)))"

definition store_append ::
  "(string \<Rightarrow> string + approval_record) \<Rightarrow> (approval_record \<Rightarrow> string + string)
    \<Rightarrow> (string \<Rightarrow> string option) \<Rightarrow> file_read \<Rightarrow> approval_record
    \<Rightarrow> approval_store_error option \<times> file_read" where
  "store_append from_str to_str write f r =
     (case store_list from_str f of
        Inl e \<Rightarrow> (Some e, f)
      | Inr rs \<Rightarrow> store_rewrite to_str write f (rs @ [r]))"

definition store_prune_expired ::
  "(string \<Rightarrow> string + approval_record) \<Rightarrow> (approval_record \<Rightarrow> string + string)
    \<Rightarrow> (string \<Rightarrow> string option) \<Rightarrow> file_read \<Rightarrow> time
    \<Rightarrow> (approval_store_error + nat) \<times> file_read" where
  "store_prune_expired from_str to_str write f now =
     (case store_list from_str f of
        Inl e \<Rightarrow> (Inl e, f)
      | Inr rs \<Rightarrow>
          (let kept = filter (\<lambda>r. unexpired r now) rs
           in case store_rewrite to_str write f kept of
                (Some e, f') \<Rightarrow> (Inl e, f')
              | (None, f') \<Rightarrow> (Inr (length kept), f')))"

section \<open>Lemmas\<close>

lemma covers_iff:
  "covers r rq now \<longleftrightarrow>
     rec_tool r = rq_tool rq \<and> rec_risk r = rq_risk rq \<and>
     set (rq_scopes rq) \<subseteq> set (rec_scopes r) \<and> unexpired r now"
  by (auto simp: covers_def unexpired_def list_all_iff)

lemma unexpired_antimono: "unexpired r now \<Longrightarrow> now' \<le> now \<Longrightarrow> unexpired r now'"
  by (auto simp: unexpired_def split: option.splits)

lemma covers_antimono: "covers r rq now \<Longrightarrow> now' \<le> now \<Longrightarrow> covers r rq now'"
  by (auto simp: covers_iff intro: unexpired_antimono)

lemma evaluate_AutoApprove_iff:
  "evaluate p rq now = AutoApprove \<longleftrightarrow>
     rq_risk rq \<noteq> Privileged \<and> rq_risk rq \<notin> set (deny p) \<and> \<not> mandatory_ask rq \<and>
     (rq_risk rq \<le> auto_approve_max p \<or> (\<exists>g \<in> set (grants p). covers g rq now))"
  by (auto simp: evaluate_def list_ex_iff)

lemma evaluate_Deny_iff:
  "(\<exists>why. evaluate p rq now = Deny why) \<longleftrightarrow> rq_risk rq = Privileged \<or> rq_risk rq \<in> set (deny p)"
  by (auto simp: evaluate_def)

lemma evaluate_Require:
  "evaluate p rq now = Require rq' \<Longrightarrow> rq' = rq"
  by (auto simp: evaluate_def split: if_splits)

lemma engine_step_deny: "set (deny (engine_step p e)) \<subseteq> set (deny p)"
  by (cases e) (auto simp: remember_def allow_without_restrictions_def permissive_def)

lemma engine_step_no_grant_without_event:
  "g \<in> set (grants (engine_step p e)) \<Longrightarrow> g \<in> set (grants p) \<or> e = Remember g"
  by (cases e) (auto simp: remember_def allow_without_restrictions_def permissive_def)

lemma engine_run_grants:
  "g \<in> set (grants (foldl engine_step p es)) \<Longrightarrow> g \<in> set (grants p) \<or> Remember g \<in> set es"
  by (induction es arbitrary: p) (auto dest: engine_step_no_grant_without_event)

text \<open>Lines of an encoded log: each record is one line.\<close>

lemma split_on_app: "c \<notin> set a \<Longrightarrow> split_on c (a @ c # b) = a # split_on c b"
  by (induction a) auto

lemma split_on_nonempty: "split_on c s \<noteq> []"
  by (cases s) (auto split: list.splits)

text \<open>
  What the log relies on of the codec (\<open>serde_json\<close>): a record is one nonempty line without
  white space at its ends, and reading it back gives the record.
\<close>

definition codec_ok ::
  "(approval_record \<Rightarrow> string + string) \<Rightarrow> (string \<Rightarrow> string + approval_record) \<Rightarrow> bool" where
  "codec_ok to_str from_str \<longleftrightarrow>
     (\<forall>r l. to_str r = Inr l \<longrightarrow>
        from_str l = Inr r \<and> CHR 0x0A \<notin> set l \<and> trim l = l \<and> drop_cr l = l \<and> l \<noteq> [])"

lemma codec_okD:
  assumes "codec_ok to_str from_str" and "to_str r = Inr l"
  shows "from_str l = Inr r" "CHR 0x0A \<notin> set l" "trim l = l" "drop_cr l = l" "l \<noteq> []"
  using assms by (auto simp: codec_ok_def)

lemma text_lines_encode:
  assumes ok: "codec_ok to_str from_str"
  shows "encode_records to_str rs = Inr bytes \<Longrightarrow>
     parse_lines from_str (text_lines bytes) = Inr rs \<and> last (split_on (CHR 0x0A) bytes) = []"
proof (induction rs arbitrary: bytes)
  case Nil
  then show ?case by (simp add: text_lines_def)
next
  case (Cons r rs)
  from Cons.prems obtain l rest where l: "to_str r = Inr l"
    and rest: "encode_records to_str rs = Inr rest" and b: "bytes = l @ CHR 0x0A # rest"
    by (auto split: sum.splits)
  note IH = Cons.IH [OF rest] and l' = codec_okD [OF ok l]
  have sp: "split_on (CHR 0x0A) bytes = l # split_on (CHR 0x0A) rest"
    by (simp add: b split_on_app [OF l'(2)])
  have "text_lines bytes = l # text_lines rest"
    using IH l' split_on_nonempty [of "CHR 0x0A" rest] by (simp add: text_lines_def sp)
  then show ?case
    using IH l' split_on_nonempty [of "CHR 0x0A" rest] by (simp add: sp)
qed

lemma rewrite_list:
  assumes "codec_ok to_str from_str" and "store_rewrite to_str write f rs = (None, f')"
  shows "store_list from_str f' = Inr rs"
  using assms(2) text_lines_encode [OF assms(1)]
  by (auto simp: store_rewrite_def store_list_def split: sum.splits option.splits)

lemma append_list:
  assumes "codec_ok to_str from_str" and "store_list from_str f = Inr rs"
    and "store_append from_str to_str write f r = (None, f')"
  shows "store_list from_str f' = Inr (rs @ [r])"
  using assms(2,3) rewrite_list [OF assms(1)] by (auto simp: store_append_def)

lemma prune_list:
  assumes "codec_ok to_str from_str" and "store_list from_str f = Inr rs"
    and "store_prune_expired from_str to_str write f now = (Inr n, f')"
  shows "store_list from_str f' = Inr (filter (\<lambda>r. unexpired r now) rs)
         \<and> n = length (filter (\<lambda>r. unexpired r now) rs)"
proof -
  from assms(2,3) have rw: "store_rewrite to_str write f (filter (\<lambda>r. unexpired r now) rs) = (None, f')"
    and n: "n = length (filter (\<lambda>r. unexpired r now) rs)"
    by (auto simp: store_prune_expired_def Let_def split: prod.splits option.splits)
  then show ?thesis using rewrite_list [OF assms(1)] by blast
qed

text \<open>
  An engine's deny list and ceiling along a session without an unrestricted answer: only grants
  are added.
\<close>

definition engine_inv :: "approval_policy \<Rightarrow> approval_policy \<Rightarrow> bool" where
  "engine_inv p0 p \<longleftrightarrow> deny p = deny p0 \<and> auto_approve_max p = auto_approve_max p0"

interpretation engine: step_invariant engine_step "\<lambda>p e. e \<noteq> Unrestrict" "engine_inv p0" for p0
proof
  fix p e
  assume "engine_inv p0 p" and "e \<noteq> Unrestrict"
  then show "engine_inv p0 (engine_step p e)"
    by (cases e) (simp_all add: engine_inv_def remember_def)
qed

lemma engine_ok_run: "Unrestrict \<notin> set es \<Longrightarrow> engine.ok_run p es"
  by (induction es arbitrary: p) auto

section \<open>Properties\<close>

text \<open>
  C34. Whatever a session's engine has been told (remembered grants, an unrestricted answer), and
  whatever policy it started with, a privileged call is denied, and a mutating or executable call
  or one that needs the scope \<open>fs:write\<close> or \<open>terminal:exec\<close> never runs without a decision.
\<close>

theorem mandatory_asks_survive_any_session:
  "(let need = evaluate (foldl engine_step p es) rq now in
     (rq_risk rq = Privileged \<longrightarrow> (\<exists>why. need = Deny why)) \<and>
     (rq_risk rq = Mutating \<or> rq_risk rq = Executable
        \<or> ''fs:write'' \<in> set (rq_scopes rq) \<or> ''terminal:exec'' \<in> set (rq_scopes rq)
      \<longrightarrow> need = Require rq \<or> (\<exists>why. need = Deny why)))"
  by (auto simp: evaluate_def mandatory_ask_def list_ex_iff Let_def)

definition sample_request :: approval_request where
  "sample_request = \<lparr>rq_id = ''apr-1'', rq_tool = ''private.read'', rq_risk = Sensitive,
     rq_scopes = [''fs:read''], rq_preview = ''{}''\<rparr>"

definition sample_write :: approval_request where
  "sample_write = \<lparr>rq_id = ''apr-2'', rq_tool = ''fs.write'', rq_risk = Mutating,
     rq_scopes = [''fs:write''], rq_preview = ''{}''\<rparr>"

theorem mandatory_asks_survive_any_session_witness:
  "evaluate (foldl engine_step strict [Remember (record_from_request sample_write 0 None), Unrestrict])
     sample_write 5 = Require sample_write"
  using mandatory_asks_survive_any_session [of strict
      "[Remember (record_from_request sample_write 0 None), Unrestrict]" sample_write 5]
  by (simp add: evaluate_def sample_write_def allow_without_restrictions_def permissive_def
      mandatory_ask_def)

text \<open>
  In a session without an unrestricted answer, a call that runs without asking is of a class
  its starting policy does not deny, and it is at or below that policy's ceiling or covered by a
  grant, of the policy or remembered in the session, for the same tool and risk, holding every
  scope it needs and not yet expired. So a grant never resurrects a denied class and never
  covers a wider call.
\<close>

theorem auto_approval_is_justified:
  assumes "Unrestrict \<notin> set es"
    and "evaluate (foldl engine_step p es) rq now = AutoApprove"
  shows "rq_risk rq \<notin> set (deny p) \<and>
    (rq_risk rq \<le> auto_approve_max p \<or>
     (\<exists>g. (g \<in> set (grants p) \<or> Remember g \<in> set es) \<and> rec_tool g = rq_tool rq \<and>
        rec_risk g = rq_risk rq \<and> set (rq_scopes rq) \<subseteq> set (rec_scopes g) \<and> unexpired g now))"
proof -
  let ?q = "foldl engine_step p es"
  have inv: "engine_inv p ?q"
    by (rule engine.run_inv) (simp add: engine_inv_def, rule engine_ok_run [OF assms(1)])
  show ?thesis
    using assms(2) inv engine_run_grants [of _ p es]
    by (auto simp: evaluate_AutoApprove_iff engine_inv_def covers_iff)
qed

theorem auto_approval_is_justified_witness:
  "evaluate (foldl engine_step strict [Remember (record_from_request sample_request 10 (Some 5))])
     sample_request 14 = AutoApprove
   \<and> rq_risk sample_request \<notin> set (deny strict)"
proof -
  let ?es = "[Remember (record_from_request sample_request 10 (Some 5))]"
  have a: "evaluate (foldl engine_step strict ?es) sample_request 14 = AutoApprove"
    by (simp add: evaluate_def strict_def sample_request_def record_from_request_def remember_def
        covers_def mandatory_ask_def)
  show ?thesis
    using a auto_approval_is_justified [OF _ a] by simp
qed

text \<open>
  The log of remembered grants is a faithful list: what an append that succeeded wrote reads
  back as the records before it followed by the new one, pruning keeps exactly the records not
  yet expired, in order, and reports their number, and a failed append leaves the file as it was.
  The hypothesis is the documented behaviour of the JSON codec on one record.
\<close>

theorem approvals_log_round_trip:
  assumes "codec_ok to_str from_str" and "store_list from_str f = Inr rs"
  shows "(case store_append from_str to_str write f r of
            (None, f') \<Rightarrow> store_list from_str f' = Inr (rs @ [r])
          | (Some _, f') \<Rightarrow> f' = f) \<and>
         (case store_prune_expired from_str to_str write f now of
            (Inr n, f') \<Rightarrow> store_list from_str f' = Inr (filter (\<lambda>r. unexpired r now) rs) \<and>
                           n = length (filter (\<lambda>r. unexpired r now) rs)
          | (Inl _, f') \<Rightarrow> f' = f)"
proof -
  have fail: "store_rewrite to_str write f rs' = (Some e, f') \<Longrightarrow> f' = f" for rs' e f'
    by (auto simp: store_rewrite_def split: sum.splits option.splits)
  show ?thesis
    using rewrite_list [OF assms(1)] fail
    by (auto simp: store_append_def store_prune_expired_def Let_def assms(2)
        split: prod.splits option.splits)
qed

definition one_codec :: "approval_record \<Rightarrow> string + string" where
  "one_codec r = (if r = record_from_request sample_request 10 (Some 5) then Inr ''r'' else Inl ''no'')"

definition one_decode :: "string \<Rightarrow> string + approval_record" where
  "one_decode s = (if s = ''r'' then Inr (record_from_request sample_request 10 (Some 5)) else Inl ''bad'')"

theorem approvals_log_round_trip_witness:
  "store_list one_decode (snd (store_append one_decode one_codec (\<lambda>_. None) NotFound
     (record_from_request sample_request 10 (Some 5))))
   = Inr [record_from_request sample_request 10 (Some 5)]"
proof -
  let ?r = "record_from_request sample_request 10 (Some 5)"
  have trim: "trim ''r'' = ''r''" by code_simp
  have cr: "drop_cr ''r'' = ''r''" by code_simp
  have ok: "codec_ok one_codec one_decode"
    by (auto simp: codec_ok_def one_codec_def one_decode_def trim cr split: if_splits)
  have list: "store_list one_decode NotFound = Inr []"
    by (simp add: store_list_def)
  have app: "store_append one_decode one_codec (\<lambda>_. None) NotFound ?r = (None, Text (''r'' @ [CHR 0x0A]))"
    by (simp add: store_append_def store_list_def store_rewrite_def one_codec_def)
  show ?thesis
    using approvals_log_round_trip [OF ok list, of ?r "\<lambda>_. None" 0] by (simp add: app)
qed

end
