(* ===== verification/RunEvents.thy ===== *)
theory RunEvents
  imports Delegation Permissions
begin

text \<open>
  The data a run exchanges with its surroundings: the messages and requests sent to the provider
  and the decoded events of its stream (\<open>crates/lightagent-core/src/provider.rs\<close>), the tool calls
  and their results (\<open>invoker.rs\<close>), the fragments a streamed tool call is rebuilt from
  (\<open>tool_stream.rs\<close>), the events of the run's log (\<open>event.rs\<close>) and the diagnostics of a turn
  (\<open>GenerationReport\<close> in \<open>generation.rs\<close>).

  Of the log's events, those the loop itself emits are constructors here; routing and
  classification events are emitted by callers before the loop starts.
\<close>

section \<open>Messages and requests\<close>

fun message_role_as_str :: "GenBudget.role \<Rightarrow> string" where
  "message_role_as_str System = ''system''"
| "message_role_as_str User = ''user''"
| "message_role_as_str Assistant = ''assistant''"
| "message_role_as_str Tool = ''tool''"

definition plain_message :: "GenBudget.role \<Rightarrow> string \<Rightarrow> provider_message" where
  "plain_message r content = \<lparr>pm_role = r, pm_content = content, pm_name = None,
     pm_tool_call_id = None, pm_tool_calls = []\<rparr>"

definition system_message :: "string \<Rightarrow> provider_message" where
  "system_message = plain_message System"

definition user_message :: "string \<Rightarrow> provider_message" where
  "user_message = plain_message User"

definition assistant_message :: "string \<Rightarrow> provider_message" where
  "assistant_message = plain_message Assistant"

definition assistant_tool_calls :: "string \<Rightarrow> provider_tool_call list \<Rightarrow> provider_message" where
  "assistant_tool_calls content calls = \<lparr>pm_role = Assistant, pm_content = content, pm_name = None,
     pm_tool_call_id = None, pm_tool_calls = calls\<rparr>"

definition tool_result :: "string \<Rightarrow> string \<Rightarrow> provider_message" where
  "tool_result call_id content = \<lparr>pm_role = Tool, pm_content = content, pm_name = None,
     pm_tool_call_id = Some call_id, pm_tool_calls = []\<rparr>"

text \<open>A request; the loop always leaves the temperature unset.\<close>

record 'json provider_request =
  pq_model :: string
  pq_messages :: "provider_message list"
  pq_tools :: "'json tool_schema list"
  pq_max_tokens :: "nat option"
  pq_reasoning_effort :: "string option"

datatype finish_reason = FinStop | FinToolCalls | FinLength | FinError | FinIncomplete

fun finish_as_str :: "finish_reason \<Rightarrow> string" where
  "finish_as_str FinStop = ''stop''"
| "finish_as_str FinToolCalls = ''tool_calls''"
| "finish_as_str FinLength = ''length''"
| "finish_as_str FinError = ''error''"
| "finish_as_str FinIncomplete = ''incomplete''"

datatype provider_event =
    RoleStarted
  | ReasoningDelta string
  | ContentDelta string
  | ToolCallDelta nat "string option" "string option" "string option"
  | StreamFinished finish_reason "usage option"

datatype provider_error =
    Transport string | Upstream string | StreamBroken string | FrameTooLarge nat | MidStream string

fun provider_error_message :: "provider_error \<Rightarrow> string" where
  "provider_error_message (Transport m) = ''could not reach the provider: '' @ m"
| "provider_error_message (Upstream m) = ''the provider rejected the request: '' @ m"
| "provider_error_message (StreamBroken m) = ''the provider stream failed: '' @ m"
| "provider_error_message (FrameTooLarge n) =
     ''a provider event exceeded '' @ decimal n @ '' bytes without ending''"
| "provider_error_message (MidStream m) = ''the provider reported an error mid-stream: '' @ m"

section \<open>Tool calls\<close>

record tool_call =
  cl_id :: string
  cl_name :: string
  cl_arguments :: string

definition replayed_call :: "tool_call \<Rightarrow> provider_tool_call" where
  "replayed_call c = \<lparr>tc_id = cl_id c, tc_name = cl_name c, tc_arguments = cl_arguments c\<rparr>"

record tool_outcome =
  oc_content :: string
  oc_is_error :: bool

definition outcome_ok :: "string \<Rightarrow> tool_outcome" where
  "outcome_ok content = \<lparr>oc_content = content, oc_is_error = False\<rparr>"

definition outcome_error :: "string \<Rightarrow> tool_outcome" where
  "outcome_error content = \<lparr>oc_content = content, oc_is_error = True\<rparr>"

record tool_progress =
  tp_stage :: string
  tp_completed :: "nat option"
  tp_total :: "nat option"
  tp_outcome :: "string option"

section \<open>Rebuilding streamed calls\<close>

record partial_call =
  pa_id :: "string option"
  pa_name :: "string option"
  pa_arguments :: string

record accumulator =
  ac_calls :: "(nat, partial_call) btree"
  ac_order :: "nat list"

definition accumulator_new :: accumulator where
  "accumulator_new = \<lparr>ac_calls = [], ac_order = []\<rparr>"

definition accumulator_push ::
  "nat \<Rightarrow> string option \<Rightarrow> string option \<Rightarrow> string option \<Rightarrow> accumulator \<Rightarrow> accumulator" where
  "accumulator_push index i n args a =
     (let order = (if bt_get (ac_calls a) index = None then ac_order a @ [index] else ac_order a);
          entry = unwrap_or \<lparr>pa_id = None, pa_name = None, pa_arguments = ''''\<rparr>
                    (bt_get (ac_calls a) index)
      in \<lparr>ac_calls = bt_insert index
            \<lparr>pa_id = (if pa_id entry = None then i else pa_id entry),
             pa_name = (if pa_name entry = None then n else pa_name entry),
             pa_arguments = pa_arguments entry @ unwrap_or '''' args\<rparr> (ac_calls a),
          ac_order = order\<rparr>)"

definition accumulator_is_empty :: "accumulator \<Rightarrow> bool" where
  "accumulator_is_empty a \<longleftrightarrow> ac_order a = []"

definition call_of_partial :: "nat \<Rightarrow> partial_call \<Rightarrow> tool_call" where
  "call_of_partial index p = \<lparr>cl_id = unwrap_or (''call_'' @ decimal index) (pa_id p),
     cl_name = unwrap_or '''' (pa_name p), cl_arguments = pa_arguments p\<rparr>"

fun take_calls :: "(nat, partial_call) btree \<Rightarrow> nat list \<Rightarrow> tool_call list" where
  "take_calls calls [] = []"
| "take_calls calls (index # order) =
     (case bt_get calls index of
        None \<Rightarrow> take_calls calls order
      | Some p \<Rightarrow> call_of_partial index p # take_calls (bt_remove index calls) order)"

definition into_calls :: "accumulator \<Rightarrow> tool_call list" where
  "into_calls a = take_calls (ac_calls a) (ac_order a)"

section \<open>The log\<close>

datatype stop_reason =
    EndTurn | MaxTurns | MaxToolCalls | RepeatedToolCalls | WallClockExceeded | MaxTokens
  | ContextLimit | OutputBudgetUsed | Incomplete | Cancelled | Failed

definition is_complete :: "stop_reason \<Rightarrow> bool" where
  "is_complete r \<longleftrightarrow> r = EndTurn"

fun explanation :: "stop_reason \<Rightarrow> string option" where
  "explanation EndTurn = None"
| "explanation MaxTurns = Some ''the run reached its turn limit''"
| "explanation MaxToolCalls = Some ''the run reached its tool-call limit''"
| "explanation RepeatedToolCalls = Some ''the run stopped repeating the same tool call''"
| "explanation WallClockExceeded = Some ''the run reached its time limit''"
| "explanation MaxTokens =
     Some (''the answer was cut off at the model'' @ [CHR 0x27] @ ''s output limit'')"
| "explanation ContextLimit =
     Some (''the run filled the model'' @ [CHR 0x27] @ ''s context window'')"
| "explanation OutputBudgetUsed = Some ''the run used its output-token budget''"
| "explanation Incomplete = Some ''the model stream ended early; the answer may be incomplete''"
| "explanation Cancelled = Some ''the run was cancelled''"
| "explanation Failed = Some ''the run failed''"

record generation_report =
  gr_turn :: nat
  gr_purpose :: string
  gr_context_window :: "nat option"
  gr_context_source :: "string option"
  gr_prompt_estimate :: nat
  gr_prompt_basis :: string
  gr_configured_max_tokens :: "nat option"
  gr_requested_max_tokens :: "nat option"
  gr_reasoning :: string
  gr_reasoning_effort :: "string option"
  gr_tools_offered :: nat
  gr_shortened_results :: nat
  gr_finish :: string
  gr_prompt_tokens :: "nat option"
  gr_completion_tokens :: "nat option"
  gr_length_cause :: "string option"
  gr_output_budget :: "nat option"
  gr_output_spent :: "nat option"
  gr_output_estimated :: bool
  gr_continuations :: nat
  gr_reservation_basis :: "string option"
  gr_output_overrun :: nat
  gr_allocation :: "allocation_report option"

datatype agent_event =
    RunStarted string "string option"
  | Reasoning string
  | Content string
  | ToolCallRequested tool_call
  | ToolCallStarted string string
  | ToolProgress string tool_progress
  | ToolCallCompleted string tool_outcome
  | AwaitingApprovalOf approval_id string string
  | Report generation_report
  | TurnCompleted "usage option"
  | WallClockPaused nat
  | RunCompleted stop_reason
  | ErrorEvent string

section \<open>Lemmas\<close>

lemma unwrap_or_simps [simp]: "unwrap_or d None = d" "unwrap_or d (Some x) = x"
  by (simp_all add: unwrap_or_def)

lemmas message_defs = plain_message_def system_message_def user_message_def assistant_message_def
  assistant_tool_calls_def tool_result_def

text \<open>Every index seen has its call, in the order the indices arrived.\<close>

definition acc_ok :: "accumulator \<Rightarrow> bool" where
  "acc_ok a \<longleftrightarrow> distinct (ac_order a) \<and> set (ac_order a) = dom (bt_get (ac_calls a))"

lemma acc_ok_new: "acc_ok accumulator_new"
  by (simp add: acc_ok_def accumulator_new_def)

lemma acc_ok_push: "acc_ok a \<Longrightarrow> acc_ok (accumulator_push index i n args a)"
  by (auto simp: acc_ok_def accumulator_push_def Let_def bt_insert_get)

lemma take_calls_all:
  "distinct order \<Longrightarrow> set order \<subseteq> dom (bt_get calls) \<Longrightarrow>
     take_calls calls order = map (\<lambda>i. call_of_partial i (the (bt_get calls i))) order"
proof (induction calls order rule: take_calls.induct)
  case (2 calls index order)
  then obtain p where p: "bt_get calls index = Some p" by auto
  moreover have "set order \<subseteq> dom (bt_get (bt_remove index calls))"
    using 2(3,4) by (auto simp: bt_remove_get)
  ultimately have "take_calls (bt_remove index calls) order
      = map (\<lambda>i. call_of_partial i (the (bt_get (bt_remove index calls) i))) order"
    using 2(2) 2(3) by simp
  also have "\<dots> = map (\<lambda>i. call_of_partial i (the (bt_get calls i))) order"
    using 2(3) by (auto simp: bt_remove_get)
  finally show ?case using p by simp
qed simp

lemma into_calls_length: "acc_ok a \<Longrightarrow> length (into_calls a) = length (ac_order a)"
  by (simp add: into_calls_def acc_ok_def take_calls_all)

end
