(* ===== verification/AgentLoop.thy ===== *)
theory AgentLoop
  imports RunEvents
begin

text \<open>
  The agent loop (\<open>crates/lightagent-core/src/loop_.rs\<close>): turns over a provider and an invoker
  under the limits of the run, with pauses for approvals and for the wall clock.

  The surroundings of a run are the record \<open>loop_env\<close> over an arbitrary world: the clock, the
  cancellation token, the provider, the invoker and the lock of the shared output pool each
  answer from the world and may change it in any way, so whatever other runs do between two
  observations is covered. A turn's stream is the list of what the loop's \<open>select!\<close> returned for
  it; a stream that neither ends nor is cancelled is not modelled. Clock readings are
  nanoseconds. \<open>io_trace\<close> lists what the run asked of its surroundings.
\<close>

section \<open>The surroundings\<close>

datatype stream_item = StreamEvent provider_event | StreamError provider_error | StreamCancelled

record ('json, 'w) loop_env =
  le_json :: "'json \<Rightarrow> string"
  le_schemas :: "'w \<Rightarrow> 'json tool_schema list"
  le_now :: "'w \<Rightarrow> nat \<times> 'w"
  le_cancelled :: "'w \<Rightarrow> bool \<times> 'w"
  le_stream :: "'json provider_request \<Rightarrow> 'w \<Rightarrow> (provider_error + stream_item list) \<times> 'w"
  le_approval :: "tool_call \<Rightarrow> 'w \<Rightarrow> approval_need \<times> 'w"
  le_remember :: "approval_decision \<Rightarrow> tool_call \<Rightarrow> 'w \<Rightarrow> 'w"
  le_invoke :: "tool_call \<Rightarrow> 'w \<Rightarrow> tool_progress list \<times> tool_outcome \<times> 'w"
  le_lock :: "nat \<Rightarrow> 'w \<Rightarrow> pool_state \<times> 'w"
  le_unlock :: "nat \<Rightarrow> pool_state \<Rightarrow> 'w \<Rightarrow> 'w"

datatype 'json io_event =
    Streamed "'json provider_request"
  | Asked tool_call approval_need
  | Remembered approval_decision tool_call
  | Invoked tool_call

record ('json, 'w) io =
  io_world :: 'w
  io_trace :: "'json io_event list"

definition io_start :: "'w \<Rightarrow> ('json, 'w) io" where
  "io_start w = \<lparr>io_world = w, io_trace = []\<rparr>"

definition io_schemas :: "('json, 'w) loop_env \<Rightarrow> ('json, 'w) io \<Rightarrow> 'json tool_schema list" where
  "io_schemas env s = le_schemas env (io_world s)"

definition io_now :: "('json, 'w) loop_env \<Rightarrow> ('json, 'w) io \<Rightarrow> nat \<times> ('json, 'w) io" where
  "io_now env s = (let (n, w) = le_now env (io_world s) in (n, s\<lparr>io_world := w\<rparr>))"

definition io_cancelled :: "('json, 'w) loop_env \<Rightarrow> ('json, 'w) io \<Rightarrow> bool \<times> ('json, 'w) io" where
  "io_cancelled env s = (let (b, w) = le_cancelled env (io_world s) in (b, s\<lparr>io_world := w\<rparr>))"

definition io_stream ::
  "('json, 'w) loop_env \<Rightarrow> 'json provider_request \<Rightarrow> ('json, 'w) io
    \<Rightarrow> (provider_error + stream_item list) \<times> ('json, 'w) io" where
  "io_stream env rq s =
     (let (r, w) = le_stream env rq (io_world s)
      in (r, \<lparr>io_world = w, io_trace = io_trace s @ [Streamed rq]\<rparr>))"

definition io_approval ::
  "('json, 'w) loop_env \<Rightarrow> tool_call \<Rightarrow> ('json, 'w) io \<Rightarrow> approval_need \<times> ('json, 'w) io" where
  "io_approval env c s =
     (let (need, w) = le_approval env c (io_world s)
      in (need, \<lparr>io_world = w, io_trace = io_trace s @ [Asked c need]\<rparr>))"

definition io_remember ::
  "('json, 'w) loop_env \<Rightarrow> approval_decision \<Rightarrow> tool_call \<Rightarrow> ('json, 'w) io \<Rightarrow> ('json, 'w) io" where
  "io_remember env d c s =
     \<lparr>io_world = le_remember env d c (io_world s), io_trace = io_trace s @ [Remembered d c]\<rparr>"

definition io_invoke ::
  "('json, 'w) loop_env \<Rightarrow> tool_call \<Rightarrow> ('json, 'w) io
    \<Rightarrow> tool_progress list \<times> tool_outcome \<times> ('json, 'w) io" where
  "io_invoke env c s =
     (let (progress, outcome, w) = le_invoke env c (io_world s)
      in (progress, outcome, \<lparr>io_world = w, io_trace = io_trace s @ [Invoked c]\<rparr>))"

text \<open>One critical section on the pool of a handle: a read, and an update with a result.\<close>

definition io_pool ::
  "('json, 'w) loop_env \<Rightarrow> pool_handle \<Rightarrow> (pool_state \<Rightarrow> 'r \<times> pool_state) \<Rightarrow> ('json, 'w) io
    \<Rightarrow> 'r \<times> ('json, 'w) io" where
  "io_pool env h f s =
     (let (st, w) = le_lock env (ph_pool h) (io_world s);
          (r, st') = f st
      in (r, s\<lparr>io_world := le_unlock env (ph_pool h) st' w\<rparr>))"

definition io_pool_read ::
  "('json, 'w) loop_env \<Rightarrow> pool_handle \<Rightarrow> (pool_state \<Rightarrow> 'r) \<Rightarrow> ('json, 'w) io \<Rightarrow> 'r \<times> ('json, 'w) io" where
  "io_pool_read env h f = io_pool env h (\<lambda>st. (f st, st))"

section \<open>Configuration and state\<close>

datatype wrap_up = WallClockWrap | TurnBudgetWrap | ToolCallBudgetWrap | ContextBudgetWrap | OutputBudgetWrap

fun wrap_up_instruction :: "wrap_up \<Rightarrow> string" where
  "wrap_up_instruction WallClockWrap = ''The time budget for this request has run out, so no more tools can be called. Answer the original request now, as well as you can, from the tool results above, and say briefly if anything is incomplete.''"
| "wrap_up_instruction TurnBudgetWrap = ''This is the last step allowed for this request, so no more tools can be called. Answer the original request now from the tool results above, cite the sources you used, and say briefly what is missing or could not be checked.''"
| "wrap_up_instruction ToolCallBudgetWrap = ''The tool-call budget for this request has run out, so no more tools can be called. Answer the original request now from the tool results above, cite the sources you used, and say briefly what is missing or could not be checked.''"
| "wrap_up_instruction ContextBudgetWrap = ''The conversation has nearly filled the model'' @ [CHR 0x27] @ ''s context window, so no more tools can be called. Answer the original request now from the tool results above, cite the sources you used, and say briefly what is missing or could not be checked.''"
| "wrap_up_instruction OutputBudgetWrap = ''The output budget for this request is nearly used up, so no more tools can be called. Answer the original request now, briefly, from the tool results above, and say what is missing or could not be checked.''"

fun wrap_up_reason :: "wrap_up \<Rightarrow> stop_reason" where
  "wrap_up_reason WallClockWrap = WallClockExceeded"
| "wrap_up_reason TurnBudgetWrap = MaxTurns"
| "wrap_up_reason ToolCallBudgetWrap = MaxToolCalls"
| "wrap_up_reason ContextBudgetWrap = ContextLimit"
| "wrap_up_reason OutputBudgetWrap = OutputBudgetUsed"

definition continue_instruction :: string where
  "continue_instruction = ''Your previous reply was cut off by the output limit. Continue it exactly where it stopped: do not repeat anything already written, do not start again, and do not call tools.''"

definition max_progress_per_call :: nat where
  "max_progress_per_call = 64"

datatype wall_clock_policy = WrapUpPolicy | PausePolicy

datatype continuation = Extend | WrapUpNow

record run_config =
  rc_model :: string
  rc_system :: "string option"
  rc_limits :: run_limits
  rc_parent :: "string option"
  rc_on_wall_clock :: wall_clock_policy
  rc_generation :: generation_budget

definition run_config_new :: "string \<Rightarrow> run_config" where
  "run_config_new model = \<lparr>rc_model = model, rc_system = None, rc_limits = default_limits,
     rc_parent = None, rc_on_wall_clock = WrapUpPolicy, rc_generation = default_budget\<rparr>"

text \<open>The configuration a profile gives: its persona, the model it routes to and its limits.\<close>

definition from_profile :: "string \<Rightarrow> model_routing \<Rightarrow> run_limits \<Rightarrow> run_config" where
  "from_profile persona routing limits = \<lparr>rc_model = mr_model routing,
     rc_system = (if persona = [] then None else Some persona), rc_limits = limits,
     rc_parent = None, rc_on_wall_clock = WrapUpPolicy, rc_generation = default_budget\<rparr>"

record batch =
  ba_calls :: "tool_call list"
  ba_next :: nat

record driver =
  dr_started :: nat
  dr_limits :: run_limits
  dr_model :: string
  dr_messages :: "provider_message list"
  dr_events :: "agent_event list"
  dr_turn :: nat
  dr_tool_calls_made :: nat
  dr_call_counts :: "(string, nat) btree"
  dr_pending :: "batch option"
  dr_sink :: "agent_event list option"
  dr_wrap_up :: "wrap_up option"
  dr_measured :: "measured option"
  dr_shortened :: nat
  dr_sent_max_tokens :: "nat option"
  dr_reservation_basis :: "string option"
  dr_grant :: "(nat \<times> nat) option"
  dr_continuations :: nat
  dr_continuing :: "string option"

record suspended =
  su_driver :: driver
  su_approval :: "approval_request option"

datatype run_outcome =
    Completed "agent_event list"
  | AwaitingApproval "agent_event list" approval_request suspended
  | OutOfTime "agent_event list" nat suspended

fun outcome_events :: "run_outcome \<Rightarrow> agent_event list" where
  "outcome_events (Completed events) = events"
| "outcome_events (AwaitingApproval events _ _) = events"
| "outcome_events (OutOfTime events _ _) = events"

fun is_completed :: "run_outcome \<Rightarrow> bool" where
  "is_completed (Completed _) = True"
| "is_completed _ = False"

fun outcome_request :: "run_outcome \<Rightarrow> approval_request option" where
  "outcome_request (AwaitingApproval _ rq _) = Some rq"
| "outcome_request _ = None"

datatype turn_result = TurnFinished run_outcome | TurnBatch | TurnOutOfTime nat | TurnContinue

datatype batch_result = BatchDone | BatchCompleted | BatchSuspended approval_request

datatype agent_error = ProviderFailed provider_error | InvalidApproval

text \<open>An event goes to the log and, with a live sink, to the list of what that sink was sent.\<close>

definition emit :: "agent_event \<Rightarrow> driver \<Rightarrow> driver" where
  "emit e d = d\<lparr>dr_events := dr_events d @ [e], dr_sink := map_option (\<lambda>l. l @ [e]) (dr_sink d)\<rparr>"

definition has_tool_results :: "driver \<Rightarrow> bool" where
  "has_tool_results d \<longleftrightarrow> list_ex (\<lambda>m. pm_role m = Tool) (dr_messages d)"

definition end_run :: "stop_reason \<Rightarrow> driver \<Rightarrow> turn_result \<times> driver" where
  "end_run reason d =
     (let d' = emit (RunCompleted reason) d
      in (TurnFinished (Completed (dr_events d')), d'\<lparr>dr_events := []\<rparr>))"

definition push_message :: "provider_message \<Rightarrow> driver \<Rightarrow> driver" where
  "push_message m d = d\<lparr>dr_messages := dr_messages d @ [m]\<rparr>"

definition new_driver ::
  "('json, 'w) loop_env \<Rightarrow> run_config \<Rightarrow> string \<Rightarrow> provider_message list \<Rightarrow> string \<Rightarrow> bool
    \<Rightarrow> ('json, 'w) io \<Rightarrow> driver \<times> ('json, 'w) io" where
  "new_driver env cfg run history user_input streaming s =
     (let (now, s) = io_now env s
      in (emit (RunStarted run (rc_parent cfg))
           \<lparr>dr_started = now, dr_limits = rc_limits cfg, dr_model = rc_model cfg,
            dr_messages = (case rc_system cfg of None \<Rightarrow> [] | Some p \<Rightarrow> [system_message p])
              @ history @ [user_message user_input],
            dr_events = [], dr_turn = 0, dr_tool_calls_made = 0, dr_call_counts = [],
            dr_pending = None, dr_sink = (if streaming then Some [] else None), dr_wrap_up = None,
            dr_measured = None, dr_shortened = 0, dr_sent_max_tokens = None,
            dr_reservation_basis = None, dr_grant = None, dr_continuations = 0,
            dr_continuing = None\<rparr>, s))"

section \<open>A model turn\<close>

text \<open>The checks at the boundary of a turn, in the order of \<open>take_turn\<close>.\<close>

definition unread_results :: "driver \<Rightarrow> bool" where
  "unread_results d \<longleftrightarrow> dr_messages d \<noteq> [] \<and> pm_role (last (dr_messages d)) = Tool"

definition check_wall_clock ::
  "('json, 'w) loop_env \<Rightarrow> run_config \<Rightarrow> driver \<Rightarrow> ('json, 'w) io
    \<Rightarrow> turn_result option \<times> driver \<times> ('json, 'w) io" where
  "check_wall_clock env cfg d s =
     (case (if dr_wrap_up d = None then wall_clock (dr_limits d) else None) of
        None \<Rightarrow> (None, d, s)
      | Some budget \<Rightarrow>
          (let (now, s) = io_now env s
           in if now - dr_started d < budget then (None, d, s)
              else if \<not> unread_results d then
                (let (r, d) = end_run (if dr_continuing d \<noteq> None then MaxTokens
                                       else WallClockExceeded) d
                 in (Some r, d, s))
              else case rc_on_wall_clock cfg of
                  PausePolicy \<Rightarrow>
                    (let (now, s) = io_now env s; elapsed = now - dr_started d
                     in (Some (TurnOutOfTime elapsed),
                         emit (WallClockPaused (elapsed div nanos_per_sec)) d, s))
                | WrapUpPolicy \<Rightarrow> (None, d\<lparr>dr_wrap_up := Some WallClockWrap\<rparr>, s)))"

definition check_turn_budget :: "driver \<Rightarrow> driver" where
  "check_turn_budget d =
     (if dr_wrap_up d = None \<and> dr_continuing d = None
         \<and> sat_add32 (dr_turn d) 1 \<ge> rl_max_turns (dr_limits d) \<and> has_tool_results d
      then d\<lparr>dr_wrap_up := Some TurnBudgetWrap\<rparr> else d)"

definition check_context ::
  "('json, 'w) loop_env \<Rightarrow> generation_budget \<Rightarrow> driver \<Rightarrow> ('json, 'w) io \<Rightarrow> driver" where
  "check_context env b d s =
     (if dr_wrap_up d = None \<and> dr_continuing d = None \<and> guards_context b \<and> has_tool_results d
         \<and> needs_answer_now b
             (fst (prompt_tokens (le_json env) (dr_measured d) (dr_messages d) (io_schemas env s)))
      then d\<lparr>dr_wrap_up := Some ContextBudgetWrap\<rparr> else d)"

definition check_output ::
  "('json, 'w) loop_env \<Rightarrow> generation_budget \<Rightarrow> driver \<Rightarrow> ('json, 'w) io \<Rightarrow> driver \<times> ('json, 'w) io" where
  "check_output env b d s =
     (case (if dr_wrap_up d = None \<and> dr_continuing d = None \<and> has_tool_results d
            then gb_output_pool b else None) of
        None \<Rightarrow> (d, s)
      | Some pool \<Rightarrow>
          (let (available, s) = io_pool_read env pool
                 (\<lambda>st. available_in st (ph_account pool) Turn) s
           in (if available < max (gb_reserve_answer_tokens b) min_grant
               then d\<lparr>dr_wrap_up := Some OutputBudgetWrap\<rparr> else d, s)))"

definition purpose_of :: "driver \<Rightarrow> turn_purpose" where
  "purpose_of d = (if dr_continuing d \<noteq> None then Continuation
                   else if dr_wrap_up d \<noteq> None then Answer else Turn)"

definition turn_ask ::
  "('json, 'w) loop_env \<Rightarrow> generation_budget \<Rightarrow> pool_handle \<Rightarrow> driver \<Rightarrow> ('json, 'w) io
    \<Rightarrow> (nat \<times> string) \<times> ('json, 'w) io" where
  "turn_ask env b pool d s =
     (case (requested_max_tokens b, gb_context_window b) of
        (Some ceiling, _) \<Rightarrow> ((ceiling, ''ceiling''), s)
      | (None, Some _) \<Rightarrow>
          (let (prompt, _) = prompt_tokens (le_json env) (dr_measured d) (dr_messages d)
                               (io_schemas env s)
           in ((max (unwrap_or 0 (room b prompt)) min_grant, ''remaining_context''), s))
      | (None, None) \<Rightarrow>
          (let (t, s) = io_pool_read env pool po_turn_tokens s in ((t, ''unknown_capacity''), s)))"

definition reserve_turn ::
  "('json, 'w) loop_env \<Rightarrow> generation_budget \<Rightarrow> driver \<Rightarrow> ('json, 'w) io
    \<Rightarrow> (unit + reservation option) \<times> driver \<times> ('json, 'w) io" where
  "reserve_turn env b d s =
     (case gb_output_pool b of
        None \<Rightarrow> (Inr None, d, s)
      | Some pool \<Rightarrow>
          (let ((ask, basis), s) = turn_ask env b pool d s;
               d = d\<lparr>dr_reservation_basis := Some basis\<rparr>;
               (granted, s) = io_pool env pool (\<lambda>st.
                  case reserve_in st (ph_account pool) (Some ask) (purpose_of d) of
                    None \<Rightarrow> (None, st) | Some (rv, st') \<Rightarrow> (Some rv, st')) s
           in case granted of
                None \<Rightarrow> (Inl (), d, s)
              | Some rv \<Rightarrow> (Inr (Some rv), d\<lparr>dr_grant := Some (ask, rv_tokens rv)\<rparr>, s)))"

definition turn_request ::
  "('json, 'w) loop_env \<Rightarrow> driver \<Rightarrow> ('json, 'w) io
    \<Rightarrow> provider_message list \<times> 'json tool_schema list" where
  "turn_request env d s =
     (if dr_continuing d \<noteq> None then (dr_messages d @ [user_message continue_instruction], [])
      else case dr_wrap_up d of
          Some w \<Rightarrow> (dr_messages d @ [user_message (wrap_up_instruction w)], [])
        | None \<Rightarrow> (dr_messages d, io_schemas env s))"

text \<open>The settlement of a turn's reservation; \<open>None\<close> is also what dropping it charges.\<close>

definition settle ::
  "('json, 'w) loop_env \<Rightarrow> generation_budget \<Rightarrow> reservation option \<Rightarrow> nat option \<Rightarrow> ('json, 'w) io
    \<Rightarrow> ('json, 'w) io" where
  "settle env b rv used s =
     (case (gb_output_pool b, rv) of
        (Some pool, Some rv) \<Rightarrow> snd (io_pool env pool (\<lambda>st. ((), charge st rv used)) s)
      | _ \<Rightarrow> s)"

section \<open>The stream of a turn\<close>

record stream_state =
  ss_driver :: driver
  ss_calls :: accumulator
  ss_text :: string
  ss_finish :: "(finish_reason \<times> usage option) option"
  ss_held :: "(string \<times> string) option"

text \<open>\<open>release\<close>: the held opening of a continuation, less what it restates.\<close>

definition release_held :: "stream_state \<Rightarrow> stream_state" where
  "release_held st =
     (case ss_held st of
        None \<Rightarrow> st
      | Some (tail, opening) \<Rightarrow>
          (let fresh = strip_overlap tail opening; st = st\<lparr>ss_held := None\<rparr>
           in if fresh = [] then st
              else st\<lparr>ss_text := ss_text st @ fresh,
                      ss_driver := emit (Content fresh) (ss_driver st)\<rparr>))"

fun stream_event :: "provider_event \<Rightarrow> stream_state \<Rightarrow> stream_state" where
  "stream_event RoleStarted st = st"
| "stream_event (ReasoningDelta text) st =
     st\<lparr>ss_driver := emit (Reasoning text) (ss_driver st)\<rparr>"
| "stream_event (ContentDelta text) st =
     (case ss_held st of
        Some (tail, opening) \<Rightarrow>
          (let st = st\<lparr>ss_held := Some (tail, opening @ text)\<rparr>
           in if length (opening @ text) \<ge> length tail then release_held st else st)
      | None \<Rightarrow> st\<lparr>ss_text := ss_text st @ text,
                   ss_driver := emit (Content text) (ss_driver st)\<rparr>)"
| "stream_event (ToolCallDelta index i n args) st =
     st\<lparr>ss_calls := accumulator_push index i n args (ss_calls st)\<rparr>"
| "stream_event (StreamFinished reason u) st = st\<lparr>ss_finish := Some (reason, u)\<rparr>"

definition stream_end :: "agent_event list \<Rightarrow> stop_reason \<Rightarrow> stream_state \<Rightarrow> turn_result \<times> stream_state" where
  "stream_end events reason st =
     (let st = release_held st;
          (r, d) = end_run reason (fold emit events (ss_driver st))
      in (r, st\<lparr>ss_driver := d\<rparr>))"

fun stream_loop :: "stream_item list \<Rightarrow> stream_state \<Rightarrow> turn_result option \<times> stream_state" where
  "stream_loop [] st = (None, release_held st)"
| "stream_loop (StreamCancelled # _) st = (let (r, st) = stream_end [] Cancelled st in (Some r, st))"
| "stream_loop (StreamError e # _) st =
     (let (r, st) = stream_end [ErrorEvent (provider_error_message e)] Failed st in (Some r, st))"
| "stream_loop (StreamEvent ev # items) st = stream_loop items (stream_event ev st)"

section \<open>The end of a turn\<close>

definition may_continue ::
  "('json, 'w) loop_env \<Rightarrow> generation_budget \<Rightarrow> driver \<Rightarrow> string \<Rightarrow> bool \<Rightarrow> ('json, 'w) io
    \<Rightarrow> bool \<times> ('json, 'w) io" where
  "may_continue env b d text asked_for_tools s =
     (if dr_continuations d \<ge> min (gb_max_continuations b) max_continuations \<or> asked_for_tools
         \<or> trim text = [] then (False, s)
      else
        let (cancelled, s) = io_cancelled env s
        in if cancelled \<or> dr_turn d \<ge> rl_max_turns (dr_limits d) then (False, s)
           else
             let (low, s) = (case gb_output_pool b of
                 None \<Rightarrow> (False, s)
               | Some pool \<Rightarrow> io_pool_read env pool
                   (\<lambda>st. available_in st (ph_account pool) Continuation < continue_min_tokens) s)
             in if low then (False, s)
                else
                  let (late, s) = (case wall_clock (dr_limits d) of
                      None \<Rightarrow> (False, s)
                    | Some limit \<Rightarrow>
                        (let (now, s) = io_now env s in (now - dr_started d \<ge> limit, s)))
                  in if late then (False, s)
                     else
                       (may_continue_with b (fst (prompt_tokens (le_json env) (dr_measured d)
                          (dr_messages d @ [assistant_message text, user_message continue_instruction])
                          [])), s))"

definition pool_report ::
  "('json, 'w) loop_env \<Rightarrow> generation_budget \<Rightarrow> 'r \<Rightarrow> (pool_handle \<Rightarrow> pool_state \<Rightarrow> 'r)
    \<Rightarrow> ('json, 'w) io \<Rightarrow> 'r \<times> ('json, 'w) io" where
  "pool_report env b otherwise f s =
     (case gb_output_pool b of None \<Rightarrow> (otherwise, s) | Some h \<Rightarrow> io_pool_read env h (f h) s)"

fun purpose_as_str :: "turn_purpose \<Rightarrow> string" where
  "purpose_as_str Continuation = ''continuation''"
| "purpose_as_str Answer = ''answer''"
| "purpose_as_str Turn = ''turn''"

definition report ::
  "('json, 'w) loop_env \<Rightarrow> generation_budget \<Rightarrow> driver \<Rightarrow> finish_reason \<Rightarrow> usage option \<Rightarrow> nat
    \<Rightarrow> prompt_basis \<Rightarrow> nat \<Rightarrow> ('json, 'w) io \<Rightarrow> generation_report \<times> ('json, 'w) io" where
  "report env b d reason u prompt basis tools_offered s =
     (let tokens = map_option cw_tokens (gb_context_window b);
          requested = dr_sent_max_tokens d;
          (total, s) = pool_report env b None (\<lambda>_ st. Some (po_total st)) s;
          (spent, s) = pool_report env b None (\<lambda>_ st. Some (po_spent st)) s;
          (estimated, s) = pool_report env b False (\<lambda>_. po_estimated) s;
          (overrun, s) = pool_report env b 0 (\<lambda>_. po_overrun) s;
          (allocation, s) = pool_report env b None
            (\<lambda>h st. allocation_report st (ph_account h) (dr_grant d)) s
      in (\<lparr>gr_turn = dr_turn d,
           gr_purpose = purpose_as_str (purpose_of d),
           gr_context_window = tokens,
           gr_context_source = map_option (window_source_as_str \<circ> cw_source) (gb_context_window b),
           gr_prompt_estimate = prompt,
           gr_prompt_basis = prompt_basis_as_str basis,
           gr_configured_max_tokens = gb_max_output_tokens b,
           gr_requested_max_tokens = requested,
           gr_reasoning = reasoning_as_str (gb_reasoning b),
           gr_reasoning_effort = reasoning_label (gb_reasoning b),
           gr_tools_offered = tools_offered,
           gr_shortened_results = dr_shortened d,
           gr_finish = finish_as_str reason,
           gr_prompt_tokens = map_option us_prompt_tokens u,
           gr_completion_tokens = map_option us_completion_tokens u,
           gr_length_cause = (if reason = FinLength then Some (length_cause requested tokens u)
                              else None),
           gr_output_budget = total,
           gr_output_spent = spent,
           gr_output_estimated = estimated,
           gr_continuations = dr_continuations d,
           gr_reservation_basis = dr_reservation_basis d,
           gr_output_overrun = overrun,
           gr_allocation = allocation\<rparr>, s))"

text \<open>An answer cut off at its length limit: its text joins the conversation and the next turn continues it.\<close>

definition keep_answer :: "bool \<Rightarrow> string \<Rightarrow> provider_message list \<Rightarrow> provider_message list" where
  "keep_answer continued text messages =
     (if continued \<and> messages \<noteq> [] \<and> pm_role (last messages) = Assistant
      then butlast messages @ [(last messages)\<lparr>pm_content := pm_content (last messages) @ text\<rparr>]
      else messages @ [assistant_message text])"

definition start_continuation :: "bool \<Rightarrow> string \<Rightarrow> driver \<Rightarrow> driver" where
  "start_continuation continued text d =
     (let messages = keep_answer continued text (dr_messages d)
      in d\<lparr>dr_messages := messages,
           dr_continuing := Some (text_tail (pm_content (last messages))),
           dr_continuations := sat_add32 (dr_continuations d) 1\<rparr>)"

definition ask_for_tools :: "string \<Rightarrow> tool_call list \<Rightarrow> driver \<Rightarrow> driver" where
  "ask_for_tools text calls d =
     (push_message (assistant_tool_calls text (map replayed_call calls)) d)
       \<lparr>dr_pending := Some \<lparr>ba_calls = calls, ba_next = 0\<rparr>\<rparr>"

text \<open>What a finished stream leads to, by its finish reason.\<close>

definition conclude_turn ::
  "('json, 'w) loop_env \<Rightarrow> generation_budget \<Rightarrow> finish_reason \<Rightarrow> bool \<Rightarrow> string \<Rightarrow> accumulator \<Rightarrow> driver
    \<Rightarrow> ('json, 'w) io \<Rightarrow> turn_result \<times> driver \<times> ('json, 'w) io" where
  "conclude_turn env b reason continued text calls d s =
     (case reason of
        FinLength \<Rightarrow>
          (let (more, s) = may_continue env b d text (\<not> accumulator_is_empty calls) s
           in if more then (TurnContinue, start_continuation continued text d, s)
              else (let (r, d) = end_run MaxTokens d in (r, d, s)))
      | FinIncomplete \<Rightarrow> (let (r, d) = end_run Incomplete d in (r, d, s))
      | FinError \<Rightarrow>
          (let (r, d) = end_run Failed
                 (emit (ErrorEvent ''the provider ended the turn with an error'') d)
           in (r, d, s))
      | _ \<Rightarrow>
          if dr_wrap_up d \<noteq> None \<or> continued then
            (let (r, d) = end_run (case dr_wrap_up d of None \<Rightarrow> EndTurn | Some w \<Rightarrow> wrap_up_reason w) d
             in (r, d, s))
          else if reason = FinStop then (let (r, d) = end_run EndTurn d in (r, d, s))
          else (TurnBatch, ask_for_tools text (into_calls calls) d, s))"

text \<open>
  The accounts of a turn whose stream ended: the settlement, the measured prompt, the report
  (with \<open>planned\<close> the prompt estimate made before the request), and the end of the turn.
\<close>

definition finish_turn ::
  "('json, 'w) loop_env \<Rightarrow> generation_budget \<Rightarrow> reservation option \<Rightarrow> (nat \<times> prompt_basis \<times> nat) option
    \<Rightarrow> nat \<Rightarrow> stream_state \<Rightarrow> ('json, 'w) io \<Rightarrow> turn_result \<times> driver \<times> ('json, 'w) io" where
  "finish_turn env b rv planned measured_from st s =
     (let d = ss_driver st;
          (reason, u) = unwrap_or (FinIncomplete, None) (ss_finish st);
          s = settle env b rv (map_option us_completion_tokens u) s;
          d = (case u of
                 Some u \<Rightarrow> if us_prompt_tokens u > 0
                   then d\<lparr>dr_measured := Some \<lparr>me_messages = measured_from,
                                               me_prompt_tokens = us_prompt_tokens u\<rparr>\<rparr> else d
               | None \<Rightarrow> d);
          (d, s) = (case planned of
                 None \<Rightarrow> (d, s)
               | Some (prompt, basis, tools_offered) \<Rightarrow>
                   (let (r, s) = report env b d reason u prompt basis tools_offered s
                    in (emit (Report r) d, s)));
          d = emit (TurnCompleted u) d;
          continued = (dr_continuing d \<noteq> None)
      in conclude_turn env b reason continued (ss_text st) (ss_calls st) (d\<lparr>dr_continuing := None\<rparr>) s)"

text \<open>The request of a turn whose reservation is made, and its stream.\<close>

definition start_turn :: "generation_budget \<Rightarrow> reservation option \<Rightarrow> driver \<Rightarrow> driver" where
  "start_turn b rv d =
     d\<lparr>dr_sent_max_tokens := (case rv of None \<Rightarrow> requested_max_tokens b
                               | Some rv \<Rightarrow> Some (rv_tokens rv)),
       dr_turn := dr_turn d + 1\<rparr>"

definition stream_start :: "driver \<Rightarrow> stream_state" where
  "stream_start d = \<lparr>ss_driver = d, ss_calls = accumulator_new, ss_text = '''', ss_finish = None,
     ss_held = map_option (\<lambda>tail. (tail, '''')) (dr_continuing d)\<rparr>"

definition turn_provider_request ::
  "generation_budget \<Rightarrow> driver \<Rightarrow> provider_message list \<times> 'json tool_schema list
    \<Rightarrow> 'json provider_request" where
  "turn_provider_request b d offered =
     \<lparr>pq_model = dr_model d, pq_messages = fst offered, pq_tools = snd offered,
      pq_max_tokens = dr_sent_max_tokens d, pq_reasoning_effort = reasoning_effort (gb_reasoning b)\<rparr>"

text \<open>The prompt estimate of an active budget, and the number of tools offered.\<close>

definition planned_prompt ::
  "('json, 'w) loop_env \<Rightarrow> generation_budget \<Rightarrow> driver
    \<Rightarrow> provider_message list \<times> 'json tool_schema list \<Rightarrow> (nat \<times> prompt_basis \<times> nat) option" where
  "planned_prompt env b d offered =
     (if budget_is_active b then
        (let (prompt, basis) = prompt_tokens (le_json env) (dr_measured d) (fst offered) (snd offered)
         in Some (prompt, basis, u32_or (length (snd offered)) u32_max))
      else None)"

definition send_turn ::
  "('json, 'w) loop_env \<Rightarrow> generation_budget \<Rightarrow> reservation option \<Rightarrow> driver \<Rightarrow> ('json, 'w) io
    \<Rightarrow> (agent_error + turn_result) \<times> driver \<times> ('json, 'w) io" where
  "send_turn env b rv d s =
     (let d = start_turn b rv d;
          offered = turn_request env d s;
          planned = planned_prompt env b d offered;
          (answer, s) = io_stream env (turn_provider_request b d offered) s
      in case answer of
           Inl e \<Rightarrow> (Inl (ProviderFailed e), d, settle env b rv None s)
         | Inr items \<Rightarrow>
             (case stream_loop items (stream_start d) of
                (Some r, st) \<Rightarrow> (Inr r, ss_driver st, settle env b rv None s)
              | (None, st) \<Rightarrow>
                  (let (r, d, s) = finish_turn env b rv planned (length (dr_messages d)) st s
                   in (Inr r, d, s))))"

definition take_turn ::
  "('json, 'w) loop_env \<Rightarrow> run_config \<Rightarrow> driver \<Rightarrow> ('json, 'w) io
    \<Rightarrow> (agent_error + turn_result) \<times> driver \<times> ('json, 'w) io" where
  "take_turn env cfg d s =
     (let b = rc_generation cfg in
      case check_wall_clock env cfg d s of
        (Some r, d, s) \<Rightarrow> (Inr r, d, s)
      | (None, d, s) \<Rightarrow>
          (let d = check_turn_budget d;
               d = check_context env b d s;
               (d, s) = check_output env b d s
           in case reserve_turn env b d s of
                (Inl _, d, s) \<Rightarrow> (let (r, d) = end_run OutputBudgetUsed d in (Inr r, d, s))
              | (Inr rv, d, s) \<Rightarrow> send_turn env b rv d s))"

section \<open>A tool batch\<close>

definition fit_to_context ::
  "('json, 'w) loop_env \<Rightarrow> generation_budget \<Rightarrow> string \<Rightarrow> driver \<Rightarrow> ('json, 'w) io \<Rightarrow> string \<times> driver" where
  "fit_to_context env b content d s =
     (if \<not> guards_context b then (content, d)
      else
        let prompt = fst (prompt_tokens (le_json env) (dr_measured d) (dr_messages d) (io_schemas env s))
        in case Option.bind (result_allowance b prompt) (fit_result content) of
             Some fitted \<Rightarrow>
               (fitted, d\<lparr>dr_shortened := sat_add32 (dr_shortened d) 1,
                          dr_wrap_up := or_else (dr_wrap_up d) (Some ContextBudgetWrap)\<rparr>)
           | None \<Rightarrow> (content, d))"

definition answer_call :: "tool_call \<Rightarrow> string \<Rightarrow> tool_outcome \<Rightarrow> driver \<Rightarrow> driver" where
  "answer_call c content outcome d =
     emit (ToolCallCompleted (cl_id c) outcome) (push_message (tool_result (cl_id c) content) d)"

definition run_call ::
  "('json, 'w) loop_env \<Rightarrow> generation_budget \<Rightarrow> tool_call \<Rightarrow> driver \<Rightarrow> ('json, 'w) io
    \<Rightarrow> driver \<times> ('json, 'w) io" where
  "run_call env b c d s =
     (let d = emit (ToolCallStarted (cl_id c) (cl_name c)) d;
          (progress, outcome, s) = io_invoke env c s;
          d = fold (\<lambda>p. emit (ToolProgress (cl_id c) p)) (take max_progress_per_call progress) d;
          (content, d) = fit_to_context env b (oc_content outcome) d s
      in (answer_call c content outcome d, s))"

definition refuse_call :: "tool_call \<Rightarrow> string \<Rightarrow> driver \<Rightarrow> driver" where
  "refuse_call c why d = answer_call c why (outcome_error why) d"

definition out_of_calls_message :: "tool_call \<Rightarrow> string" where
  "out_of_calls_message c =
     quoted (cl_name c) @ '' did not run: the tool-call budget for this request is used up''"

text \<open>The first of the calls that do not run was already announced.\<close>

fun refuse_rest :: "bool \<Rightarrow> tool_call list \<Rightarrow> driver \<Rightarrow> driver" where
  "refuse_rest announced [] d = d"
| "refuse_rest announced (c # cs) d =
     refuse_rest False cs (refuse_call c (out_of_calls_message c)
       (if announced then d else emit (ToolCallRequested c) d))"

definition out_of_tool_calls :: "nat \<Rightarrow> driver \<Rightarrow> batch_result \<times> driver" where
  "out_of_tool_calls index d =
     (let unrun = (case dr_pending d of None \<Rightarrow> [] | Some b \<Rightarrow> drop index (ba_calls b));
          d = refuse_rest True unrun d;
          d = d\<lparr>dr_pending := map_option (\<lambda>b. b\<lparr>ba_next := length (ba_calls b)\<rparr>) (dr_pending d)\<rparr>
      in if dr_turn d < rl_max_turns (dr_limits d)
         then (BatchDone, d\<lparr>dr_wrap_up := or_else (dr_wrap_up d) (Some ToolCallBudgetWrap)\<rparr>)
         else (BatchCompleted, emit (RunCompleted MaxToolCalls) d))"

definition call_key :: "tool_call \<Rightarrow> string" where
  "call_key c = cl_name c @ [CHR 0x00] @ cl_arguments c"

definition set_next :: "nat \<Rightarrow> driver \<Rightarrow> driver" where
  "set_next n d = d\<lparr>dr_pending := map_option (\<lambda>b. b\<lparr>ba_next := n\<rparr>) (dr_pending d)\<rparr>"

text \<open>The call a batch is at, and the handling of one call: either the batch ends, or it goes on.\<close>

definition next_call :: "driver \<Rightarrow> (nat \<times> tool_call) option" where
  "next_call d =
     (case dr_pending d of
        None \<Rightarrow> None
      | Some b \<Rightarrow> if ba_next b < length (ba_calls b) then Some (ba_next b, ba_calls b ! ba_next b)
                  else None)"

definition batch_step ::
  "('json, 'w) loop_env \<Rightarrow> run_config \<Rightarrow> nat \<Rightarrow> tool_call \<Rightarrow> driver \<Rightarrow> ('json, 'w) io
    \<Rightarrow> batch_result option \<times> driver \<times> ('json, 'w) io" where
  "batch_step env cfg index c d s =
     (let d = emit (ToolCallRequested c) d;
          d = d\<lparr>dr_tool_calls_made := dr_tool_calls_made d + 1\<rparr>
      in if dr_tool_calls_made d > rl_max_tool_calls (dr_limits d)
         then (let (r, d) = out_of_tool_calls index d in (Some r, d, s))
         else
           let count = unwrap_or 0 (bt_get (dr_call_counts d) (call_key c)) + 1;
               d = d\<lparr>dr_call_counts := bt_insert (call_key c) count (dr_call_counts d)\<rparr>
           in if count > rl_max_repeated_identical_calls (dr_limits d)
              then (Some BatchCompleted, emit (RunCompleted RepeatedToolCalls) d, s)
              else case io_approval env c s of
                  (AutoApprove, s) \<Rightarrow>
                    (let (d, s) = run_call env (rc_generation cfg) c d s
                     in (None, set_next (index + 1) d, s))
                | (Deny why, s) \<Rightarrow> (None, set_next (index + 1) (refuse_call c why d), s)
                | (Require rq, s) \<Rightarrow>
                    (Some (BatchSuspended rq),
                     emit (AwaitingApprovalOf (rq_id rq) (cl_id c) (cl_name c)) d, s))"

section \<open>What the steps leave unchanged\<close>

text \<open>
  \<open>same_run\<close> relates two states of one run: its limits stay, and its turn counter and the calls
  of its batch are as given.
\<close>

lemma emit_frame [simp]:
  "dr_started (emit e d) = dr_started d" "dr_limits (emit e d) = dr_limits d"
  "dr_model (emit e d) = dr_model d" "dr_messages (emit e d) = dr_messages d"
  "dr_turn (emit e d) = dr_turn d" "dr_tool_calls_made (emit e d) = dr_tool_calls_made d"
  "dr_call_counts (emit e d) = dr_call_counts d" "dr_pending (emit e d) = dr_pending d"
  "dr_wrap_up (emit e d) = dr_wrap_up d" "dr_measured (emit e d) = dr_measured d"
  "dr_shortened (emit e d) = dr_shortened d" "dr_sent_max_tokens (emit e d) = dr_sent_max_tokens d"
  "dr_continuations (emit e d) = dr_continuations d" "dr_continuing (emit e d) = dr_continuing d"
  "dr_events (emit e d) = dr_events d @ [e]"
  by (simp_all add: emit_def)

definition loop_core :: "driver \<Rightarrow> run_limits \<times> nat \<times> nat \<times> provider_message list \<times> batch option" where
  "loop_core d = (dr_limits d, dr_turn d, dr_tool_calls_made d, dr_messages d, dr_pending d)"

lemma loop_core_eq_iff:
  "loop_core d = loop_core d' \<longleftrightarrow> dr_limits d = dr_limits d' \<and> dr_turn d = dr_turn d' \<and>
     dr_tool_calls_made d = dr_tool_calls_made d' \<and> dr_messages d = dr_messages d' \<and>
     dr_pending d = dr_pending d'"
  by (auto simp: loop_core_def)


lemma fold_emit_frame [simp]:
  "dr_limits (fold (\<lambda>x. emit (f x)) xs d) = dr_limits d"
  "dr_turn (fold (\<lambda>x. emit (f x)) xs d) = dr_turn d"
  "dr_tool_calls_made (fold (\<lambda>x. emit (f x)) xs d) = dr_tool_calls_made d"
  "dr_messages (fold (\<lambda>x. emit (f x)) xs d) = dr_messages d"
  "dr_pending (fold (\<lambda>x. emit (f x)) xs d) = dr_pending d"
  "dr_wrap_up (fold (\<lambda>x. emit (f x)) xs d) = dr_wrap_up d"
  "dr_continuing (fold (\<lambda>x. emit (f x)) xs d) = dr_continuing d"
  by (induction xs arbitrary: d) simp_all

text \<open>What a call that is answered changes: one message, and possibly the owed answer.\<close>

definition answered :: "tool_call \<Rightarrow> driver \<Rightarrow> driver \<Rightarrow> bool" where
  "answered c d d' \<longleftrightarrow> dr_limits d' = dr_limits d \<and> dr_turn d' = dr_turn d \<and>
     dr_tool_calls_made d' = dr_tool_calls_made d \<and> dr_pending d' = dr_pending d \<and>
     dr_continuing d' = dr_continuing d \<and>
     (\<exists>content. dr_messages d' = dr_messages d @ [tool_result (cl_id c) content])"

lemma fit_to_context_frame:
  assumes "fit_to_context env b content d s = (fitted, d')"
  shows "dr_limits d' = dr_limits d" "dr_turn d' = dr_turn d"
    "dr_tool_calls_made d' = dr_tool_calls_made d" "dr_messages d' = dr_messages d"
    "dr_pending d' = dr_pending d" "dr_continuing d' = dr_continuing d"
  using assms by (auto simp: fit_to_context_def Let_def split: if_splits option.splits)

lemma answer_call_answered:
  "dr_limits d' = dr_limits d \<Longrightarrow> dr_turn d' = dr_turn d \<Longrightarrow>
   dr_tool_calls_made d' = dr_tool_calls_made d \<Longrightarrow> dr_pending d' = dr_pending d \<Longrightarrow>
   dr_continuing d' = dr_continuing d \<Longrightarrow> dr_messages d' = dr_messages d \<Longrightarrow>
   answered c d (answer_call c content outcome d')"
  by (auto simp: answered_def answer_call_def push_message_def)

lemma run_call_answered:
  assumes "run_call env b c d s = (d', s')"
  shows "answered c d d'"
proof -
  let ?d0 = "emit (ToolCallStarted (cl_id c) (cl_name c)) d"
  obtain progress outcome s1 where inv: "io_invoke env c s = (progress, outcome, s1)"
    by (cases "io_invoke env c s") auto
  let ?d1 = "fold (\<lambda>p. emit (ToolProgress (cl_id c) p)) (take max_progress_per_call progress) ?d0"
  obtain content d2 where fit: "fit_to_context env b (oc_content outcome) ?d1 s1 = (content, d2)"
    by (cases "fit_to_context env b (oc_content outcome) ?d1 s1") auto
  have "d' = answer_call c content outcome d2"
    using assms inv fit by (simp add: run_call_def Let_def)
  then show ?thesis
    using fit_to_context_frame [OF fit] by (simp add: answer_call_answered)
qed

lemma refuse_call_answered: "answered c d (refuse_call c why d)"
  by (simp add: refuse_call_def answer_call_answered)

lemma set_next_frame [simp]:
  "dr_limits (set_next n d) = dr_limits d" "dr_turn (set_next n d) = dr_turn d"
  "dr_tool_calls_made (set_next n d) = dr_tool_calls_made d" "dr_messages (set_next n d) = dr_messages d"
  "dr_pending (set_next n d) = map_option (\<lambda>b. b\<lparr>ba_next := n\<rparr>) (dr_pending d)"
  "dr_continuing (set_next n d) = dr_continuing d" "dr_wrap_up (set_next n d) = dr_wrap_up d"
  by (simp_all add: set_next_def)

text \<open>The cases of a batch step.\<close>

lemma batch_step_cases:
  assumes "batch_step env cfg index c d s = (r, d', s')"
  obtains
    (out) r0 where "rl_max_tool_calls (dr_limits d) < dr_tool_calls_made d + 1" "s' = s" "r = Some r0"
      "out_of_tool_calls index
         ((emit (ToolCallRequested c) d)\<lparr>dr_tool_calls_made := dr_tool_calls_made d + 1\<rparr>) = (r0, d')"
  | (repeated) "r = Some BatchCompleted" "s' = s" "dr_tool_calls_made d + 1 \<le> rl_max_tool_calls (dr_limits d)"
      "dr_pending d' = dr_pending d" "dr_limits d' = dr_limits d" "dr_turn d' = dr_turn d"
      "dr_events d' = dr_events d @ [ToolCallRequested c, RunCompleted RepeatedToolCalls]"
      "dr_tool_calls_made d' = dr_tool_calls_made d + 1"
  | (auto_run) d0 d1 s1 where "r = None" "dr_tool_calls_made d + 1 \<le> rl_max_tool_calls (dr_limits d)"
      "io_approval env c s = (AutoApprove, s1)" "run_call env (rc_generation cfg) c d0 s1 = (d1, s')"
      "d' = set_next (index + 1) d1" "dr_limits d0 = dr_limits d" "dr_turn d0 = dr_turn d"
      "dr_pending d0 = dr_pending d" "dr_messages d0 = dr_messages d" "dr_continuing d0 = dr_continuing d"
      "dr_tool_calls_made d0 = dr_tool_calls_made d + 1" "dr_wrap_up d0 = dr_wrap_up d"
      "dr_events d0 = dr_events d @ [ToolCallRequested c]"
  | (denied) d0 why where "r = None" "dr_tool_calls_made d + 1 \<le> rl_max_tool_calls (dr_limits d)"
      "io_approval env c s = (Deny why, s')"
      "d' = set_next (index + 1) (refuse_call c why d0)" "dr_limits d0 = dr_limits d"
      "dr_turn d0 = dr_turn d" "dr_pending d0 = dr_pending d" "dr_messages d0 = dr_messages d"
      "dr_continuing d0 = dr_continuing d" "dr_tool_calls_made d0 = dr_tool_calls_made d + 1"
      "dr_wrap_up d0 = dr_wrap_up d" "dr_events d0 = dr_events d @ [ToolCallRequested c]"
  | (suspend) rq where "r = Some (BatchSuspended rq)"
      "dr_tool_calls_made d + 1 \<le> rl_max_tool_calls (dr_limits d)" "io_approval env c s = (Require rq, s')"
      "dr_limits d' = dr_limits d" "dr_turn d' = dr_turn d" "dr_pending d' = dr_pending d"
      "dr_messages d' = dr_messages d" "dr_continuing d' = dr_continuing d"
      "dr_tool_calls_made d' = dr_tool_calls_made d + 1" "dr_wrap_up d' = dr_wrap_up d"
      "dr_events d' = dr_events d @ [ToolCallRequested c, AwaitingApprovalOf (rq_id rq) (cl_id c) (cl_name c)]"
proof -
  let ?d1 = "(emit (ToolCallRequested c) d)\<lparr>dr_tool_calls_made := dr_tool_calls_made d + 1\<rparr>"
  let ?n = "unwrap_or 0 (bt_get (dr_call_counts d) (call_key c)) + 1"
  let ?d2 = "?d1\<lparr>dr_call_counts := bt_insert (call_key c) ?n (dr_call_counts d)\<rparr>"
  obtain need s1 where ap: "io_approval env c s = (need, s1)" by (cases "io_approval env c s")
  obtain d3 s3 where rc: "run_call env (rc_generation cfg) c ?d2 s1 = (d3, s3)"
    by (cases "run_call env (rc_generation cfg) c ?d2 s1")
  note unf = batch_step_def Let_def
  consider "rl_max_tool_calls (dr_limits d) < dr_tool_calls_made d + 1"
    | "\<not> rl_max_tool_calls (dr_limits d) < dr_tool_calls_made d + 1"
      "rl_max_repeated_identical_calls (dr_limits d) < ?n"
    | "\<not> rl_max_tool_calls (dr_limits d) < dr_tool_calls_made d + 1"
      "\<not> rl_max_repeated_identical_calls (dr_limits d) < ?n" by blast
  then show ?thesis
  proof cases
    case 1
    then show ?thesis using assms out by (auto simp: unf split: prod.splits)
  next
    case 2
    then show ?thesis using assms repeated by (auto simp: unf emit_def)
  next
    case 3
    show ?thesis
    proof (cases need)
      case AutoApprove
      have "r = None" "s' = s3" "d' = set_next (index + 1) d3"
        using 3 assms ap rc AutoApprove by (simp_all add: unf)
      then show ?thesis using auto_run [of s1 ?d2 d3] 3 ap rc AutoApprove by simp
    next
      case (Require rq)
      have "r = Some (BatchSuspended rq)" "s' = s1"
        "d' = emit (AwaitingApprovalOf (rq_id rq) (cl_id c) (cl_name c)) ?d2"
        using 3 assms ap Require by (simp_all add: unf)
      then show ?thesis using suspend [of rq] 3 ap Require by simp
    next
      case (Deny why)
      have "r = None" "s' = s1" "d' = set_next (index + 1) (refuse_call c why ?d2)"
        using 3 assms ap Deny by (simp_all add: unf)
      then show ?thesis using denied [of why ?d2] 3 ap Deny by simp
    qed
  qed
qed

section \<open>The batch loop and the run loop\<close>

lemma batch_step_next:
  assumes "batch_step env cfg index c d s = (None, d', s')"
  shows "dr_limits d' = dr_limits d" "dr_turn d' = dr_turn d"
    "dr_pending d' = map_option (\<lambda>b. b\<lparr>ba_next := index + 1\<rparr>) (dr_pending d)"
proof -
  have "dr_limits d' = dr_limits d \<and> dr_turn d' = dr_turn d \<and>
    dr_pending d' = map_option (\<lambda>b. b\<lparr>ba_next := index + 1\<rparr>) (dr_pending d)"
  proof (rule batch_step_cases [OF assms])
    fix d0 d1 s1
    assume "run_call env (rc_generation cfg) c d0 s1 = (d1, s')" "d' = set_next (index + 1) d1"
      "dr_limits d0 = dr_limits d" "dr_turn d0 = dr_turn d" "dr_pending d0 = dr_pending d"
    then show ?thesis using run_call_answered by (fastforce simp: answered_def)
  next
    fix d0 why
    assume "d' = set_next (index + 1) (refuse_call c why d0)" "dr_limits d0 = dr_limits d"
      "dr_turn d0 = dr_turn d" "dr_pending d0 = dr_pending d"
    then show ?thesis using refuse_call_answered [of c d0 why] by (simp add: answered_def)
  qed simp_all
  then show "dr_limits d' = dr_limits d" "dr_turn d' = dr_turn d"
    "dr_pending d' = map_option (\<lambda>b. b\<lparr>ba_next := index + 1\<rparr>) (dr_pending d)" by auto
qed

lemma next_call_Some:
  "next_call d = Some (index, c) \<longleftrightarrow>
     (\<exists>b. dr_pending d = Some b \<and> index = ba_next b \<and> index < length (ba_calls b) \<and> c = ba_calls b ! index)"
  by (auto simp: next_call_def split: option.splits if_splits)

definition batch_left :: "driver \<Rightarrow> nat" where
  "batch_left d = (case dr_pending d of None \<Rightarrow> 0 | Some b \<Rightarrow> length (ba_calls b) - ba_next b)"

function process_batch ::
  "('json, 'w) loop_env \<Rightarrow> run_config \<Rightarrow> driver \<Rightarrow> ('json, 'w) io
    \<Rightarrow> batch_result \<times> driver \<times> ('json, 'w) io" where
  "process_batch env cfg d s =
     (case next_call d of
        None \<Rightarrow> (BatchDone, d, s)
      | Some (index, c) \<Rightarrow>
          (case batch_step env cfg index c d s of
             (Some r, d', s') \<Rightarrow> (r, d', s')
           | (None, d', s') \<Rightarrow> process_batch env cfg d' s'))"
  by pat_completeness auto
termination
proof (relation "measure (\<lambda>(env, cfg, d, s). batch_left d)")
  fix env :: "('json, 'w) loop_env" and cfg d and s :: "('json, 'w) io" and r index c p q d' s'
  assume *: "next_call d = Some r" "(index, c) = r" "(p, q) = batch_step env cfg index c d s"
    "p = None" "(d', s') = q"
  have "batch_step env cfg index c d s = (None, d', s')" using * by simp
  from batch_step_next(3) [OF this] show
    "((env, cfg, d', s'), env, cfg, d, s) \<in> measure (\<lambda>(env, cfg, d, s). batch_left d)"
    using * by (auto simp: next_call_Some batch_left_def)
qed simp

declare process_batch.simps [simp del]

definition unended :: "agent_event list \<Rightarrow> bool" where
  "unended es \<longleftrightarrow> (\<forall>r. RunCompleted r \<notin> set es)"

lemma unended_simps [simp]:
  "unended []" "unended (es @ es') \<longleftrightarrow> unended es \<and> unended es'"
  "unended (e # es) \<longleftrightarrow> (\<forall>r. e \<noteq> RunCompleted r) \<and> unended es"
  by (auto simp: unended_def)

text \<open>Only events that do not end the run are added: the log stays open.\<close>

definition log_grows :: "driver \<Rightarrow> driver \<Rightarrow> bool" where
  "log_grows d d' \<longleftrightarrow> (\<exists>es. dr_events d' = dr_events d @ es \<and> unended es)"

lemma log_grows_refl [simp]: "log_grows d d"
  by (simp add: log_grows_def)

lemma log_grows_trans: "log_grows d d1 \<Longrightarrow> log_grows d1 d2 \<Longrightarrow> log_grows d d2"
  by (auto simp: log_grows_def)

lemma log_grows_emit: "log_grows d d' \<Longrightarrow> (\<And>r. e \<noteq> RunCompleted r) \<Longrightarrow> log_grows d (emit e d')"
  by (fastforce simp: log_grows_def)

lemma log_grows_eq: "dr_events d' = dr_events d \<Longrightarrow> log_grows d d'"
  by (simp add: log_grows_def)

lemma log_grows_eq_trans: "log_grows d d1 \<Longrightarrow> dr_events d2 = dr_events d1 \<Longrightarrow> log_grows d d2"
  by (simp add: log_grows_def)

text \<open>The stages of a turn keep the limits and what the loop counts by.\<close>

definition turn_frame :: "driver \<Rightarrow> driver \<Rightarrow> bool" where
  "turn_frame d d' \<longleftrightarrow> dr_limits d' = dr_limits d \<and> dr_turn d' = dr_turn d \<and>
     dr_tool_calls_made d' = dr_tool_calls_made d \<and> dr_messages d' = dr_messages d \<and>
     dr_pending d' = dr_pending d \<and> dr_continuing d' = dr_continuing d \<and>
     (dr_wrap_up d \<noteq> None \<longrightarrow> dr_wrap_up d' = dr_wrap_up d)"

lemma turn_frame_refl [simp]: "turn_frame d d"
  by (simp add: turn_frame_def)

lemma turn_frame_trans: "turn_frame d d1 \<Longrightarrow> turn_frame d1 d2 \<Longrightarrow> turn_frame d d2"
  by (auto simp: turn_frame_def)

lemma turn_frame_emit [simp]: "turn_frame d (emit e d') \<longleftrightarrow> turn_frame d d'"
  by (simp add: turn_frame_def)

lemma end_run_frame: "end_run reason d = (r, d') \<Longrightarrow> turn_frame d d'"
  by (auto simp: end_run_def Let_def turn_frame_def)

lemma end_run_result: "end_run reason d = (r, d') \<Longrightarrow> r = TurnFinished (Completed (dr_events d @ [RunCompleted reason]))"
  by (auto simp: end_run_def Let_def)

lemma check_wall_clock_frame:
  "check_wall_clock env cfg d s = (r, d', s') \<Longrightarrow> turn_frame d d'"
  by (auto simp: check_wall_clock_def Let_def turn_frame_def dest!: end_run_frame
      split: option.splits prod.splits if_splits wall_clock_policy.splits)

lemma check_turn_budget_frame: "turn_frame d (check_turn_budget d)"
  by (simp add: check_turn_budget_def turn_frame_def)

lemma check_context_frame: "turn_frame d (check_context env b d s)"
  by (simp add: check_context_def turn_frame_def)

lemma check_output_frame: "check_output env b d s = (d', s') \<Longrightarrow> turn_frame d d'"
  by (auto simp: check_output_def Let_def turn_frame_def split: option.splits prod.splits if_splits)

lemma reserve_turn_frame: "reserve_turn env b d s = (r, d', s') \<Longrightarrow> turn_frame d d'"
  by (auto simp: reserve_turn_def Let_def turn_frame_def split: option.splits prod.splits)

lemma release_held_frame: "turn_frame (ss_driver st) (ss_driver (release_held st))"
  by (simp add: release_held_def Let_def split: option.splits)

lemma release_held_calls [simp]: "ss_calls (release_held st) = ss_calls st"
  by (simp add: release_held_def Let_def split: option.splits)

lemma stream_event_frame: "turn_frame (ss_driver st) (ss_driver (stream_event ev st))"
  by (cases ev)
    (auto simp: Let_def split: option.splits intro: release_held_frame
      turn_frame_trans [OF _ release_held_frame])

lemma stream_end_frame:
  assumes "stream_end events reason st = (r, st')"
  shows "turn_frame (ss_driver st) (ss_driver st')"
proof -
  let ?st = "release_held st"
  have "turn_frame d (fold emit es d')" if "turn_frame d d'" for es d d'
    using that by (induction es arbitrary: d') simp_all
  then have f: "turn_frame (ss_driver st) (fold emit events (ss_driver ?st))"
    using release_held_frame by blast
  obtain r' d where e: "end_run reason (fold emit events (ss_driver ?st)) = (r', d)"
    by (cases "end_run reason (fold emit events (ss_driver ?st))")
  then have "ss_driver st' = d" using assms by (auto simp: stream_end_def Let_def)
  then show ?thesis using turn_frame_trans [OF f end_run_frame [OF e]] by simp
qed

lemma stream_loop_frame:
  "stream_loop items st = (r, st') \<Longrightarrow> turn_frame (ss_driver st) (ss_driver st')"
proof (induction items st arbitrary: r st' rule: stream_loop.induct)
  case (4 ev items st)
  then show ?case using turn_frame_trans [OF stream_event_frame] by simp
qed (auto simp: release_held_frame Let_def dest: stream_end_frame split: prod.splits)

lemma stream_event_calls: "acc_ok (ss_calls st) \<Longrightarrow> acc_ok (ss_calls (stream_event ev st))"
  by (cases ev) (auto simp: Let_def acc_ok_push split: option.splits)

lemma stream_end_result:
  "stream_end events reason st = (r, st') \<Longrightarrow> \<exists>es. r = TurnFinished (Completed (es @ [RunCompleted reason]))"
  by (auto simp: stream_end_def Let_def dest!: end_run_result split: prod.splits)

text \<open>A turn the loop counts as taken: what its end may be.\<close>

lemma may_continue_bound:
  "may_continue env b d text asked s = (True, s') \<Longrightarrow> dr_turn d < rl_max_turns (dr_limits d)"
  by (auto simp: may_continue_def Let_def split: if_splits prod.splits option.splits)

lemma conclude_turn_frame:
  assumes "conclude_turn env b reason continued text calls d s = (r, d', s')"
  shows "dr_limits d' = dr_limits d \<and> dr_turn d' = dr_turn d \<and>
    dr_tool_calls_made d' = dr_tool_calls_made d \<and> dr_wrap_up d' = dr_wrap_up d \<and>
    (r = TurnContinue \<longrightarrow> dr_turn d < rl_max_turns (dr_limits d))"
  using assms may_continue_bound [of env b d _ "\<not> accumulator_is_empty calls" s]
  by (auto simp: conclude_turn_def Let_def turn_frame_def start_continuation_def ask_for_tools_def
      push_message_def end_run_def
      split: finish_reason.splits prod.splits if_splits)

lemma finish_turn_conclude:
  assumes "finish_turn env b rv planned n st s = (r, d', s')"
  obtains reason d s1 where
    "conclude_turn env b reason (dr_continuing (ss_driver st) \<noteq> None) (ss_text st) (ss_calls st)
       (d\<lparr>dr_continuing := None\<rparr>) s1 = (r, d', s')"
    "turn_frame (ss_driver st) d" "log_grows (ss_driver st) d"
proof -
  let ?d = "ss_driver st"
  obtain reason u where ru: "unwrap_or (FinIncomplete, None) (ss_finish st) = (reason, u)"
    by (cases "unwrap_or (FinIncomplete, None) (ss_finish st)")
  let ?s = "settle env b rv (map_option us_completion_tokens u) s"
  define d1 where "d1 = (case u of
      Some u \<Rightarrow> if us_prompt_tokens u > 0
        then ?d\<lparr>dr_measured := Some \<lparr>me_messages = n, me_prompt_tokens = us_prompt_tokens u\<rparr>\<rparr> else ?d
    | None \<Rightarrow> ?d)"
  obtain d2 s2 where d2: "(case planned of
        None \<Rightarrow> (d1, ?s)
      | Some (prompt, basis, tools_offered) \<Rightarrow>
          (let (r, s) = report env b d1 reason u prompt basis tools_offered ?s
           in (emit (Report r) d1, s))) = (d2, s2)"
    by (cases "case planned of
        None \<Rightarrow> (d1, ?s)
      | Some (prompt, basis, tools_offered) \<Rightarrow>
          (let (r, s) = report env b d1 reason u prompt basis tools_offered ?s
           in (emit (Report r) d1, s))")
  have d1: "dr_events d1 = dr_events ?d" by (simp add: d1_def split: option.splits)
  have "log_grows ?d d2" using d2 d1
    by (auto simp: Let_def log_grows_def split: option.splits prod.splits)
  then have g: "log_grows ?d (emit (TurnCompleted u) d2)" by (rule log_grows_emit) simp
  have "turn_frame ?d d1" by (auto simp: d1_def turn_frame_def split: option.splits)
  then have f: "turn_frame ?d (emit (TurnCompleted u) d2)"
    using d2 by (auto simp: Let_def split: option.splits prod.splits)
  have "finish_turn env b rv planned n st s =
    conclude_turn env b reason (dr_continuing (emit (TurnCompleted u) d2) \<noteq> None) (ss_text st)
      (ss_calls st) ((emit (TurnCompleted u) d2)\<lparr>dr_continuing := None\<rparr>) s2"
    by (simp only: finish_turn_def Let_def ru prod.case d1_def [symmetric] d2 [unfolded Let_def])
  then show thesis using that f g assms by (simp add: turn_frame_def)
qed

text \<open>One more turn than before, within the limits when it is followed by a continuation.\<close>

definition turn_taken :: "driver \<Rightarrow> turn_result \<Rightarrow> driver \<Rightarrow> bool" where
  "turn_taken d r d' \<longleftrightarrow> dr_limits d' = dr_limits d \<and>
     (r = TurnContinue \<longrightarrow> dr_turn d' = dr_turn d + 1 \<and> dr_turn d' < rl_max_turns (dr_limits d)) \<and>
     (r = TurnBatch \<longrightarrow> dr_turn d' = dr_turn d + 1)"

lemma stream_loop_result:
  "stream_loop items st = (Some r, st') \<Longrightarrow> \<exists>es reason. r = TurnFinished (Completed (es @ [RunCompleted reason]))"
  by (induction items st rule: stream_loop.induct)
    (auto simp: Let_def dest: stream_end_result split: prod.splits)

text \<open>The turn's request is streamed; its stream fails, is cut, or ends.\<close>

lemma send_turn_cases:
  assumes "send_turn env b rv d s = (x, d', s')"
  obtains
    (failed) e s1 where "x = Inl (ProviderFailed e)" "d' = start_turn b rv d"
      "io_stream env (turn_provider_request b (start_turn b rv d)
        (turn_request env (start_turn b rv d) s)) s = (Inl e, s1)" "s' = settle env b rv None s1"
  | (cut) items s1 r st where "x = Inr r" "d' = ss_driver st"
      "io_stream env (turn_provider_request b (start_turn b rv d)
        (turn_request env (start_turn b rv d) s)) s = (Inr items, s1)"
      "stream_loop items (stream_start (start_turn b rv d)) = (Some r, st)" "s' = settle env b rv None s1"
  | (ended) items s1 r st planned where "x = Inr r"
      "io_stream env (turn_provider_request b (start_turn b rv d)
        (turn_request env (start_turn b rv d) s)) s = (Inr items, s1)"
      "stream_loop items (stream_start (start_turn b rv d)) = (None, st)"
      "finish_turn env b rv planned (length (dr_messages (start_turn b rv d))) st s1 = (r, d', s')"
proof -
  let ?d = "start_turn b rv d"
  obtain answer s1 where st: "io_stream env (turn_provider_request b ?d (turn_request env ?d s)) s = (answer, s1)"
    by (cases "io_stream env (turn_provider_request b ?d (turn_request env ?d s)) s")
  show thesis
  proof (cases answer)
    case (Inl e)
    then have "x = Inl (ProviderFailed e)" "d' = ?d" "s' = settle env b rv None s1"
      using assms st by (simp_all add: send_turn_def Let_def)
    then show thesis using st Inl failed by blast
  next
    case (Inr items)
    obtain r st' where loop: "stream_loop items (stream_start ?d) = (r, st')"
      by (cases "stream_loop items (stream_start ?d)")
    show thesis
    proof (cases r)
      case None
      let ?p = "planned_prompt env b ?d (turn_request env ?d s)"
      obtain y e s2 where fin: "finish_turn env b rv ?p (length (dr_messages ?d)) st' s1 = (y, e, s2)"
        by (cases "finish_turn env b rv ?p (length (dr_messages ?d)) st' s1")
      then have "x = Inr y" "e = d'" "s2 = s'"
        using assms st loop Inr None by (simp_all add: send_turn_def Let_def)
      then show thesis using fin st loop Inr None ended by blast
    next
      case (Some r')
      then have "x = Inr r'" "d' = ss_driver st'" "s' = settle env b rv None s1"
        using assms st loop Inr by (simp_all add: send_turn_def Let_def)
      then show thesis using loop st Inr Some cut by blast
    qed
  qed
qed

lemma start_turn_frame [simp]:
  "dr_limits (start_turn b rv d) = dr_limits d" "dr_turn (start_turn b rv d) = dr_turn d + 1"
  "dr_messages (start_turn b rv d) = dr_messages d" "dr_pending (start_turn b rv d) = dr_pending d"
  "dr_wrap_up (start_turn b rv d) = dr_wrap_up d" "dr_continuing (start_turn b rv d) = dr_continuing d"
  "dr_tool_calls_made (start_turn b rv d) = dr_tool_calls_made d" "dr_events (start_turn b rv d) = dr_events d"
  by (simp_all add: start_turn_def)

lemma stream_start_frame [simp]: "ss_driver (stream_start d) = d" "ss_calls (stream_start d) = accumulator_new"
  by (simp_all add: stream_start_def)

lemma send_turn_taken:
  assumes "send_turn env b rv d s = (Inr r, d', s')"
  shows "turn_taken d r d'"
  using assms
proof (cases rule: send_turn_cases)
  case (cut items s1 r' st)
  then show ?thesis
    using stream_loop_frame [OF cut(4)] stream_loop_result [OF cut(4)]
    by (auto simp: turn_taken_def turn_frame_def)
next
  case (ended items s1 r' st planned)
  from stream_loop_frame [OF ended(3)] ended(1) show ?thesis
    by (cases rule: finish_turn_conclude [OF ended(4)])
      (auto simp: turn_taken_def turn_frame_def dest!: conclude_turn_frame)
qed simp

text \<open>The stages before a turn's request, and what follows from each.\<close>

lemma take_turn_cases:
  assumes "take_turn env cfg d s = (x, d', s')"
  obtains
    (clock) r where "x = Inr r" "check_wall_clock env cfg d s = (Some r, d', s')"
  | (no_output) d1 s1 d2 r where "turn_frame d d1" "x = Inr r" "end_run OutputBudgetUsed d1 = (r, d')"
      "reserve_turn env (rc_generation cfg) d2 s1 = (Inl (), d1, s')" "turn_frame d d2"
  | (sent) d1 s1 rv where "turn_frame d d1" "send_turn env (rc_generation cfg) rv d1 s1 = (x, d', s')"
proof -
  obtain y d1 s1 where wc: "check_wall_clock env cfg d s = (y, d1, s1)"
    by (cases "check_wall_clock env cfg d s") auto
  have f1: "turn_frame d d1" using wc by (rule check_wall_clock_frame)
  let ?b = "rc_generation cfg"
  let ?d2 = "check_context env ?b (check_turn_budget d1) s1"
  obtain d3 s3 where co: "check_output env ?b ?d2 s1 = (d3, s3)" by (cases "check_output env ?b ?d2 s1")
  obtain rv d4 s4 where rt: "reserve_turn env ?b d3 s3 = (rv, d4, s4)" by (cases "reserve_turn env ?b d3 s3") auto
  have f3: "turn_frame d d3"
    using f1 check_turn_budget_frame check_context_frame check_output_frame [OF co]
    by (meson turn_frame_trans)
  then have f4: "turn_frame d d4" using reserve_turn_frame [OF rt] turn_frame_trans by blast
  show thesis
  proof (cases y)
    case (Some r)
    then have "x = Inr r" "d1 = d'" "s1 = s'" using assms wc by (simp_all add: take_turn_def Let_def)
    then show thesis using clock wc Some by simp
  next
    case None
    show thesis
    proof (cases rv)
      case (Inl u)
      then show thesis using assms wc None co rt f4 f3 no_output [of d4 _ d3 s3]
        by (auto simp: take_turn_def Let_def split: prod.splits)
    next
      case (Inr rv')
      then show thesis
        using assms wc None co rt f4 sent by (simp add: take_turn_def Let_def)
    qed
  qed
qed

lemma check_wall_clock_result:
  assumes "check_wall_clock env cfg d s = (Some r, d', s')"
  shows "(\<exists>es reason. r = TurnFinished (Completed (es @ [RunCompleted reason]))) \<or>
    (\<exists>n. r = TurnOutOfTime n \<and> unread_results d \<and> dr_wrap_up d = None \<and> rc_on_wall_clock cfg = PausePolicy)"
  using assms
  by (auto simp: check_wall_clock_def Let_def dest!: end_run_result
      split: option.splits prod.splits if_splits wall_clock_policy.splits)

lemma take_turn_taken:
  assumes "take_turn env cfg d s = (Inr r, d', s')"
  shows "turn_taken d r d'"
  using assms
proof (cases rule: take_turn_cases)
  case (clock r')
  with check_wall_clock_result [of env cfg d s r' d' s'] check_wall_clock_frame [of env cfg d s "Some r'" d' s']
  show ?thesis by (auto simp: turn_taken_def turn_frame_def)
next
  case (no_output d1 s1 d2 r')
  then show ?thesis using end_run_frame [of _ d1 r' d'] end_run_result [of _ d1 r' d']
    by (auto simp: turn_taken_def turn_frame_def)
next
  case (sent d1 s1 rv)
  from send_turn_taken [OF sent(2)] sent(1) show ?thesis by (auto simp: turn_taken_def turn_frame_def)
qed

section \<open>The run loop\<close>

text \<open>A pending batch is processed before another turn is taken.\<close>

definition turn_or_batch ::
  "('json, 'w) loop_env \<Rightarrow> run_config \<Rightarrow> driver \<Rightarrow> ('json, 'w) io
    \<Rightarrow> (agent_error + turn_result) \<times> driver \<times> ('json, 'w) io" where
  "turn_or_batch env cfg d s =
     (if dr_pending d = None then take_turn env cfg d s else (Inr TurnBatch, d, s))"

definition turns_left :: "driver \<Rightarrow> nat" where
  "turns_left d = 2 * (rl_max_turns (dr_limits d) - dr_turn d) + (if dr_pending d = None then 0 else 1)"

lemma turn_or_batch_left:
  assumes "turn_or_batch env cfg d s = (Inr r, d', s')"
  shows "r = TurnContinue \<Longrightarrow> turns_left d' < turns_left d"
    and "r = TurnBatch \<Longrightarrow> dr_limits d' = dr_limits d \<and> dr_turn d \<le> dr_turn d' \<and>
      (dr_turn d' = dr_turn d \<longrightarrow> dr_pending d \<noteq> None)"
proof -
  have "(r = TurnContinue \<longrightarrow> turns_left d' < turns_left d) \<and>
    (r = TurnBatch \<longrightarrow> dr_limits d' = dr_limits d \<and> dr_turn d \<le> dr_turn d' \<and>
      (dr_turn d' = dr_turn d \<longrightarrow> dr_pending d \<noteq> None))"
    using assms take_turn_taken [of env cfg d s r d' s']
    by (auto simp: turn_or_batch_def turn_taken_def turns_left_def split: if_splits)
  then show "r = TurnContinue \<Longrightarrow> turns_left d' < turns_left d"
    and "r = TurnBatch \<Longrightarrow> dr_limits d' = dr_limits d \<and> dr_turn d \<le> dr_turn d' \<and>
      (dr_turn d' = dr_turn d \<longrightarrow> dr_pending d \<noteq> None)" by auto
qed

lemma refuse_rest_frame [simp]:
  "dr_limits (refuse_rest b cs d) = dr_limits d" "dr_turn (refuse_rest b cs d) = dr_turn d"
  "dr_tool_calls_made (refuse_rest b cs d) = dr_tool_calls_made d"
  "dr_pending (refuse_rest b cs d) = dr_pending d" "dr_continuing (refuse_rest b cs d) = dr_continuing d"
  "dr_wrap_up (refuse_rest b cs d) = dr_wrap_up d"
  by (induction b cs d rule: refuse_rest.induct)
    (simp_all add: refuse_call_def answer_call_def push_message_def)

lemma out_of_tool_calls_frame:
  assumes "out_of_tool_calls index d = (r, d')"
  shows "dr_limits d' = dr_limits d \<and> dr_turn d' = dr_turn d \<and>
    dr_tool_calls_made d' = dr_tool_calls_made d \<and> dr_continuing d' = dr_continuing d"
  using assms by (auto simp: out_of_tool_calls_def Let_def split: if_splits)

lemma batch_step_frame:
  assumes "batch_step env cfg index c d s = (r, d', s')"
  shows "dr_limits d' = dr_limits d \<and> dr_turn d' = dr_turn d"
proof (cases r)
  case None
  then show ?thesis using assms batch_step_next [of env cfg index c d s d' s'] by simp
next
  case (Some r')
  from assms show ?thesis
    by (cases rule: batch_step_cases) (use Some in \<open>auto dest!: out_of_tool_calls_frame\<close>)
qed

text \<open>The loop rule of a batch.\<close>

lemma process_batch_rule:
  assumes "P d s"
    and "process_batch env cfg d s = (r, d', s')"
    and stop: "\<And>d s. P d s \<Longrightarrow> next_call d = None \<Longrightarrow> Q BatchDone d s"
    and leave: "\<And>d s index c r d' s'. P d s \<Longrightarrow> next_call d = Some (index, c) \<Longrightarrow>
      batch_step env cfg index c d s = (Some r, d', s') \<Longrightarrow> Q r d' s'"
    and step: "\<And>d s index c d' s'. P d s \<Longrightarrow> next_call d = Some (index, c) \<Longrightarrow>
      batch_step env cfg index c d s = (None, d', s') \<Longrightarrow> P d' s'"
  shows "Q r d' s'"
  using assms(1,2)
proof (induction "batch_left d" arbitrary: d s rule: less_induct)
  case less
  show ?case
  proof (cases "next_call d")
    case None
    then show ?thesis using less.prems stop by (auto simp: process_batch.simps [of env cfg d])
  next
    case (Some ic)
    then obtain index c where nc: "next_call d = Some (index, c)" by (cases ic) auto
    obtain x d1 s1 where st: "batch_step env cfg index c d s = (x, d1, s1)"
      by (cases "batch_step env cfg index c d s") auto
    show ?thesis
    proof (cases x)
      case None
      then have "process_batch env cfg d1 s1 = (r, d', s')"
        using less.prems(2) nc st by (simp add: process_batch.simps [of env cfg d])
      moreover have "batch_left d1 < batch_left d"
        using batch_step_next(3) [of env cfg index c d s d1 s1] st nc None
        by (auto simp: next_call_Some batch_left_def)
      moreover have "P d1 s1" using step less.prems(1) nc st None by blast
      ultimately show ?thesis using less.hyps by blast
    next
      case (Some y)
      then have "r = y" "d' = d1" "s' = s1"
        using less.prems(2) nc st by (simp_all add: process_batch.simps [of env cfg d])
      then show ?thesis using leave less.prems(1) nc st Some by blast
    qed
  qed
qed

lemma process_batch_frame:
  assumes "process_batch env cfg d s = (r, d', s')"
  shows "dr_limits d' = dr_limits d \<and> dr_turn d' = dr_turn d"
  by (rule process_batch_rule [where P = "\<lambda>e _. dr_limits e = dr_limits d \<and> dr_turn e = dr_turn d", OF _ assms])
    (auto dest: batch_step_frame)

function drive ::
  "('json, 'w) loop_env \<Rightarrow> run_config \<Rightarrow> driver \<Rightarrow> ('json, 'w) io
    \<Rightarrow> (agent_error + run_outcome) \<times> ('json, 'w) io" where
  "drive env cfg d s =
     (case turn_or_batch env cfg d s of
        (Inl e, d1, s1) \<Rightarrow> (Inl e, s1)
      | (Inr (TurnFinished outcome), d1, s1) \<Rightarrow> (Inr outcome, s1)
      | (Inr (TurnOutOfTime elapsed), d1, s1) \<Rightarrow>
          (Inr (OutOfTime (dr_events d1) elapsed \<lparr>su_driver = d1, su_approval = None\<rparr>), s1)
      | (Inr TurnContinue, d1, s1) \<Rightarrow> drive env cfg d1 s1
      | (Inr TurnBatch, d1, s1) \<Rightarrow>
          (case process_batch env cfg d1 s1 of
             (BatchDone, d2, s2) \<Rightarrow>
               (let d3 = d2\<lparr>dr_pending := None\<rparr>
                in if dr_turn d3 \<ge> rl_max_turns (dr_limits d3)
                   then (Inr (Completed (dr_events (emit (RunCompleted MaxTurns) d3))), s2)
                   else drive env cfg d3 s2)
           | (BatchCompleted, d2, s2) \<Rightarrow> (Inr (Completed (dr_events d2)), s2)
           | (BatchSuspended rq, d2, s2) \<Rightarrow>
               (Inr (AwaitingApproval (dr_events d2) rq \<lparr>su_driver = d2, su_approval = Some rq\<rparr>), s2)))"
  by pat_completeness auto
termination
proof (relation "measure (\<lambda>(env, cfg, d, s). turns_left d)", goal_cases)
  case (2 env cfg d s x y xa d1 s1 r yb d2 s2 d3)
  have "turn_or_batch env cfg d s = (Inr TurnBatch, d1, s1)" using 2 by auto
  from turn_or_batch_left(2) [OF this] process_batch_frame [of env cfg d1 s1 r d2 s2] 2
  show ?case by (auto simp: turns_left_def)
next
  case (3 env cfg d s x y xa d1 s1)
  then have "turn_or_batch env cfg d s = (Inr TurnContinue, d1, s1)" by simp
  from turn_or_batch_left(1) [OF this] show ?case by simp
qed simp

declare drive.simps [simp del]

section \<open>Starting and resuming a run\<close>

definition run_with_history ::
  "('json, 'w) loop_env \<Rightarrow> run_config \<Rightarrow> string \<Rightarrow> provider_message list \<Rightarrow> string \<Rightarrow> bool
    \<Rightarrow> ('json, 'w) io \<Rightarrow> (agent_error + run_outcome) \<times> ('json, 'w) io" where
  "run_with_history env cfg run history user_input streaming s =
     (let (d, s) = new_driver env cfg run history user_input streaming s in drive env cfg d s)"

text \<open>\<open>run\<close> starts without a history; the streaming variants differ by their sink only.\<close>

definition run_fresh ::
  "('json, 'w) loop_env \<Rightarrow> run_config \<Rightarrow> string \<Rightarrow> string \<Rightarrow> bool \<Rightarrow> ('json, 'w) io
    \<Rightarrow> (agent_error + run_outcome) \<times> ('json, 'w) io" where
  "run_fresh env cfg run user_input streaming s =
     run_with_history env cfg run [] user_input streaming s"

definition awaited_call :: "driver \<Rightarrow> tool_call option" where
  "awaited_call d =
     (case dr_pending d of
        None \<Rightarrow> None
      | Some b \<Rightarrow> if ba_next b < length (ba_calls b) then Some (ba_calls b ! ba_next b) else None)"

definition denied_message :: "tool_call \<Rightarrow> string" where
  "denied_message c = ''the approval for '' @ quoted (cl_name c) @ '' was denied; the tool did not run''"

definition apply_decision ::
  "('json, 'w) loop_env \<Rightarrow> run_config \<Rightarrow> approval_decision \<Rightarrow> driver \<Rightarrow> ('json, 'w) io
    \<Rightarrow> driver \<times> ('json, 'w) io" where
  "apply_decision env cfg dec d s =
     (case awaited_call d of
        None \<Rightarrow> (d, s)
      | Some c \<Rightarrow>
          (let (d, s) = (if granted dec
                 then run_call env (rc_generation cfg) c d (io_remember env dec c s)
                 else (refuse_call c (denied_message c) d, s))
           in (d\<lparr>dr_pending := map_option (\<lambda>b. b\<lparr>ba_next := ba_next b + 1\<rparr>) (dr_pending d)\<rparr>, s)))"

definition resume ::
  "('json, 'w) loop_env \<Rightarrow> run_config \<Rightarrow> suspended \<Rightarrow> approval_decision \<Rightarrow> ('json, 'w) io
    \<Rightarrow> (agent_error + run_outcome) \<times> ('json, 'w) io" where
  "resume env cfg sus dec s =
     (if (case su_approval sus of None \<Rightarrow> True | Some rq \<Rightarrow> rq_id rq \<noteq> dec_id dec)
      then (Inl InvalidApproval, s)
      else (let (d, s) = apply_decision env cfg dec (su_driver sus) s in drive env cfg d s))"

definition continue_out_of_time ::
  "('json, 'w) loop_env \<Rightarrow> run_config \<Rightarrow> suspended \<Rightarrow> continuation \<Rightarrow> ('json, 'w) io
    \<Rightarrow> (agent_error + run_outcome) \<times> ('json, 'w) io" where
  "continue_out_of_time env cfg sus how s =
     (let d = su_driver sus in
      case how of
        Extend \<Rightarrow> (let (now, s) = io_now env s in drive env cfg (d\<lparr>dr_started := now\<rparr>) s)
      | WrapUpNow \<Rightarrow> drive env cfg (d\<lparr>dr_wrap_up := Some WallClockWrap\<rparr>) s)"

text \<open>
  A session: a run and what its caller does at each pause. A paused run is taken once (the source
  moves it); the caller may answer any pause with a decision or a continuation, fitting or not.
\<close>

fun outcome_suspended :: "run_outcome \<Rightarrow> suspended option" where
  "outcome_suspended (Completed _) = None"
| "outcome_suspended (AwaitingApproval _ _ sus) = Some sus"
| "outcome_suspended (OutOfTime _ _ sus) = Some sus"

datatype caller_move = Decide approval_decision | Prolong continuation

fun session_moves ::
  "('json, 'w) loop_env \<Rightarrow> run_config \<Rightarrow> caller_move list \<Rightarrow> (agent_error + run_outcome) \<times> ('json, 'w) io
    \<Rightarrow> (agent_error + run_outcome) \<times> ('json, 'w) io" where
  "session_moves env cfg [] r = r"
| "session_moves env cfg (m # ms) (r, s) =
     (case (case r of Inl _ \<Rightarrow> None | Inr outcome \<Rightarrow> outcome_suspended outcome) of
        None \<Rightarrow> (r, s)
      | Some sus \<Rightarrow> session_moves env cfg ms (case m of
            Decide dec \<Rightarrow> resume env cfg sus dec s
          | Prolong how \<Rightarrow> continue_out_of_time env cfg sus how s))"

definition session ::
  "('json, 'w) loop_env \<Rightarrow> run_config \<Rightarrow> string \<Rightarrow> provider_message list \<Rightarrow> string \<Rightarrow> bool
    \<Rightarrow> caller_move list \<Rightarrow> 'w \<Rightarrow> (agent_error + run_outcome) \<times> ('json, 'w) io" where
  "session env cfg run history user_input streaming moves w =
     session_moves env cfg moves (run_with_history env cfg run history user_input streaming (io_start w))"

end
