(* ===== verification/Identity.thy ===== *)
theory Identity
  imports Prelude
begin

text \<open>
  Caller identity and profile authorization: principals, roles, capabilities, credential
  restrictions and the authorization decision (\<open>crates/lightagent-core/src/identity/mod.rs\<close>), the
  ownership registry with its grants (\<open>identity/ownership.rs\<close>), the audit records
  (\<open>identity/audit.rs\<close>), and the id rule of \<open>profile.rs\<close>.

  Principal and profile ids are byte strings; the validated types are the strings that satisfy
  \<open>valid_id\<close>. A \<open>BTreeSet\<close> is the set of its elements.
\<close>

section \<open>Ids\<close>

definition max_id_len :: nat where
  "max_id_len = 64"

fun valid_id :: "string \<Rightarrow> bool" where
  "valid_id [] = False"
| "valid_id (b # bs) =
     (length (b # bs) \<le> max_id_len \<and> (is_lower b \<or> is_digit b) \<and>
      list_all (\<lambda>c. is_lower c \<or> is_digit c \<or> c = CHR ''_'' \<or> c = CHR ''-'') bs)"

datatype profile_error = InvalidId string

definition profile_id_new :: "string \<Rightarrow> profile_error + string" where
  "profile_id_new i = (if valid_id i then Inr i else Inl (InvalidId i))"

datatype identity_error = InvalidPrincipal

definition principal_id_new :: "string \<Rightarrow> identity_error + string" where
  "principal_id_new i = (case profile_id_new i of Inr _ \<Rightarrow> Inr i | Inl _ \<Rightarrow> Inl InvalidPrincipal)"

section \<open>Principals and capabilities\<close>

datatype role = Operator | User

datatype principal_source = LocalCompatibility | LocalProcess | Credential string | LegacyOperatorKey

datatype run_trust = LocalOperator | RemoteUser

fun run_trust_of :: "role \<Rightarrow> run_trust" where
  "run_trust_of Operator = LocalOperator"
| "run_trust_of User = RemoteUser"

record principal =
  pr_id :: string
  pr_role :: role
  pr_source :: principal_source

definition principal_local_operator :: "principal_source \<Rightarrow> principal" where
  "principal_local_operator source =
     \<lparr>pr_id = ''local-operator'', pr_role = Operator, pr_source = source\<rparr>"

datatype capability = RunsRead | RunsWrite | SessionsRead | SessionsWrite | ToolsRead
  | ApprovalsWrite | Administer | Provision

definition all_capabilities :: "capability list" where
  "all_capabilities = [RunsRead, RunsWrite, SessionsRead, SessionsWrite, ToolsRead, ApprovalsWrite,
     Administer, Provision]"

definition operator_only :: "capability \<Rightarrow> bool" where
  "operator_only c = (case c of Administer \<Rightarrow> True | Provision \<Rightarrow> True | _ \<Rightarrow> False)"

fun capability_as_str :: "capability \<Rightarrow> string" where
  "capability_as_str RunsRead = ''runs_read''"
| "capability_as_str RunsWrite = ''runs_write''"
| "capability_as_str SessionsRead = ''sessions_read''"
| "capability_as_str SessionsWrite = ''sessions_write''"
| "capability_as_str ToolsRead = ''tools_read''"
| "capability_as_str ApprovalsWrite = ''approvals_write''"
| "capability_as_str Administer = ''administer''"
| "capability_as_str Provision = ''provision''"

record restriction =
  rs_capabilities :: "capability set option"
  rs_profiles :: "string set option"

record caller =
  ca_principal :: principal
  ca_restriction :: restriction

definition no_restriction :: restriction where
  "no_restriction = \<lparr>rs_capabilities = None, rs_profiles = None\<rparr>"

definition caller_local_operator :: "principal_source \<Rightarrow> caller" where
  "caller_local_operator source =
     \<lparr>ca_principal = principal_local_operator source, ca_restriction = no_restriction\<rparr>"

datatype denial = Unauthenticated | Revoked | Expired | MissingCapability
  | ProfileOutsideCredential | ProfileUnowned | ProfileNotGranted

fun denial_code :: "denial \<Rightarrow> string" where
  "denial_code Unauthenticated = ''unauthenticated''"
| "denial_code Revoked = ''revoked''"
| "denial_code Expired = ''expired''"
| "denial_code MissingCapability = ''missing_capability''"
| "denial_code ProfileOutsideCredential = ''profile_outside_credential''"
| "denial_code ProfileUnowned = ''profile_unowned''"
| "denial_code ProfileNotGranted = ''profile_not_granted''"

definition http_status :: "denial \<Rightarrow> nat" where
  "http_status d = (case d of Unauthenticated \<Rightarrow> 401 | Revoked \<Rightarrow> 401 | Expired \<Rightarrow> 401 | _ \<Rightarrow> 403)"

section \<open>Ownership\<close>

record profile_ownership =
  ow_owner :: string
  ow_grants :: "(string, capability set) btree"

definition owner_default :: "capability set" where
  "owner_default = {RunsRead, RunsWrite, SessionsRead, ApprovalsWrite}"

definition permits :: "profile_ownership \<Rightarrow> string \<Rightarrow> capability \<Rightarrow> bool" where
  "permits record pid c =
     (if operator_only c then False
      else
        (case bt_get (ow_grants record) pid of None \<Rightarrow> False | Some g \<Rightarrow> c \<in> g) \<or>
        (pid = ow_owner record \<and> c \<in> owner_default))"

datatype assignment = Created | Unchanged | Reassigned

datatype ownership_error = Conflict | Unowned | OperatorOnly | GrantToOwner

type_synonym ownership_registry = "(string, profile_ownership) btree"

definition owned_by :: "ownership_registry \<Rightarrow> string \<Rightarrow> string list" where
  "owned_by reg pid = map fst (filter (\<lambda>(_, record). ow_owner record = pid) reg)"

definition new_ownership :: "string \<Rightarrow> profile_ownership" where
  "new_ownership owner = \<lparr>ow_owner = owner, ow_grants = []\<rparr>"

definition ownership_assign ::
  "ownership_registry \<Rightarrow> string \<Rightarrow> string \<Rightarrow> (ownership_error + assignment) \<times> ownership_registry" where
  "ownership_assign reg profile owner =
     (case bt_get reg profile of
        Some record \<Rightarrow> if ow_owner record = owner then (Inr Unchanged, reg) else (Inl Conflict, reg)
      | None \<Rightarrow> (Inr Created, bt_insert profile (new_ownership owner) reg))"

definition ownership_reassign ::
  "ownership_registry \<Rightarrow> string \<Rightarrow> string \<Rightarrow> assignment \<times> ownership_registry" where
  "ownership_reassign reg profile owner =
     (case bt_get reg profile of
        Some record \<Rightarrow>
          if ow_owner record = owner then (Unchanged, reg)
          else (Reassigned, bt_update profile (\<lambda>r. r\<lparr>ow_owner := owner, ow_grants := []\<rparr>) reg)
      | None \<Rightarrow> (Created, bt_insert profile (new_ownership owner) reg))"

definition add_grant :: "string \<Rightarrow> capability \<Rightarrow> profile_ownership \<Rightarrow> profile_ownership" where
  "add_grant pid c r =
     r\<lparr>ow_grants := bt_insert pid
        (insert c (case bt_get (ow_grants r) pid of None \<Rightarrow> {} | Some g \<Rightarrow> g)) (ow_grants r)\<rparr>"

definition ownership_grant ::
  "ownership_registry \<Rightarrow> string \<Rightarrow> string \<Rightarrow> capability \<Rightarrow> (ownership_error + unit) \<times> ownership_registry" where
  "ownership_grant reg profile pid c =
     (if operator_only c then (Inl OperatorOnly, reg)
      else case bt_get reg profile of
          None \<Rightarrow> (Inl Unowned, reg)
        | Some record \<Rightarrow>
            if ow_owner record = pid \<and> c \<in> owner_default then (Inl GrantToOwner, reg)
            else (Inr (), bt_update profile (add_grant pid c) reg))"

definition drop_grant :: "string \<Rightarrow> capability \<Rightarrow> profile_ownership \<Rightarrow> profile_ownership" where
  "drop_grant pid c r =
     (case bt_get (ow_grants r) pid of
        None \<Rightarrow> r
      | Some g \<Rightarrow>
          if g - {c} = {} then r\<lparr>ow_grants := bt_remove pid (ow_grants r)\<rparr>
          else r\<lparr>ow_grants := bt_insert pid (g - {c}) (ow_grants r)\<rparr>)"

definition ownership_revoke ::
  "ownership_registry \<Rightarrow> string \<Rightarrow> string \<Rightarrow> capability \<Rightarrow> ownership_registry" where
  "ownership_revoke reg profile pid c = bt_update profile (drop_grant pid c) reg"

definition ownership_remove ::
  "ownership_registry \<Rightarrow> string \<Rightarrow> profile_ownership option \<times> ownership_registry" where
  "ownership_remove reg profile = (bt_get reg profile, bt_remove profile reg)"

section \<open>Authorization\<close>

record authorized_profile =
  ap_profile :: string
  ap_principal :: string
  ap_capability :: capability

definition authorize_capability :: "caller \<Rightarrow> capability \<Rightarrow> denial + unit" where
  "authorize_capability caller c =
     (let role_allows = (case pr_role (ca_principal caller) of
            Operator \<Rightarrow> True | User \<Rightarrow> \<not> operator_only c);
          credential_allows = (case rs_capabilities (ca_restriction caller) of
            None \<Rightarrow> True | Some allowed \<Rightarrow> c \<in> allowed)
      in if role_allows \<and> credential_allows then Inr () else Inl MissingCapability)"

definition authorize ::
  "caller \<Rightarrow> capability \<Rightarrow> string \<Rightarrow> ownership_registry \<Rightarrow> denial + authorized_profile" where
  "authorize caller c profile ownership =
     (case authorize_capability caller c of
        Inl d \<Rightarrow> Inl d
      | Inr _ \<Rightarrow>
          if (case rs_profiles (ca_restriction caller) of None \<Rightarrow> False | Some allowed \<Rightarrow> profile \<notin> allowed)
          then Inl ProfileOutsideCredential
          else
            let proof = Inr \<lparr>ap_profile = profile, ap_principal = pr_id (ca_principal caller),
                             ap_capability = c\<rparr>
            in if pr_role (ca_principal caller) = User then
                 (case bt_get ownership profile of
                    None \<Rightarrow> Inl ProfileUnowned
                  | Some record \<Rightarrow>
                      if \<not> permits record (pr_id (ca_principal caller)) c then Inl ProfileNotGranted
                      else proof)
               else proof)"

section \<open>Audit records\<close>

datatype audit_action = Authenticate | Request capability | CredentialIssued | CredentialRevoked
  | OwnerAssigned | OwnerReassigned | GrantAdded | GrantRevoked | CredentialRotated
  | PrincipalCreated | PrincipalSuspended | PrincipalReactivated | IssuerTrusted | OwnerRemoved
  | IdempotentReplay

datatype audit_outcome = Allowed | Denied denial

record audit_record =
  au_at :: nat
  au_principal :: "string option"
  au_key_id :: "string option"
  au_action :: audit_action
  au_profile :: "string option"
  au_outcome :: audit_outcome

definition audit_decision ::
  "nat \<Rightarrow> caller option \<Rightarrow> audit_action \<Rightarrow> string option \<Rightarrow> denial + unit \<Rightarrow> audit_record" where
  "audit_decision at who action profile outcome =
     \<lparr>au_at = at,
      au_principal = map_option (\<lambda>c. pr_id (ca_principal c)) who,
      au_key_id = Option.bind who (\<lambda>c. case pr_source (ca_principal c) of
          Credential key \<Rightarrow> Some key | _ \<Rightarrow> None),
      au_action = action,
      au_profile = profile,
      au_outcome = (case outcome of Inr _ \<Rightarrow> Allowed | Inl d \<Rightarrow> Denied d)\<rparr>"

section \<open>Lemmas\<close>

lemma authorize_capability_Inr:
  "authorize_capability caller c = Inr () \<longleftrightarrow>
     (pr_role (ca_principal caller) = User \<longrightarrow> \<not> operator_only c) \<and>
     (\<forall>allowed. rs_capabilities (ca_restriction caller) = Some allowed \<longrightarrow> c \<in> allowed)"
  by (auto simp: authorize_capability_def Let_def split: role.splits option.splits)

lemma permits_not_operator_only: "permits record pid c \<Longrightarrow> \<not> operator_only c"
  by (simp add: permits_def split: if_splits)

text \<open>A registry whose grants are never operator-only: what every operation keeps.\<close>

definition grants_ok :: "profile_ownership \<Rightarrow> bool" where
  "grants_ok r \<longleftrightarrow> (\<forall>p g. bt_get (ow_grants r) p = Some g \<longrightarrow> (\<forall>c \<in> g. \<not> operator_only c))"

abbreviation registry_ok :: "ownership_registry \<Rightarrow> bool" where
  "registry_ok \<equiv> bt.all_values grants_ok"

lemma grants_ok_new: "grants_ok (new_ownership owner)"
  by (simp add: grants_ok_def new_ownership_def)

lemma add_grant_ok: "grants_ok r \<Longrightarrow> \<not> operator_only c \<Longrightarrow> grants_ok (add_grant p c r)"
  by (auto simp: grants_ok_def add_grant_def bt_simps split: if_splits option.splits)

lemma drop_grant_ok: "grants_ok r \<Longrightarrow> grants_ok (drop_grant p c r)"
  by (auto simp: grants_ok_def drop_grant_def bt_simps split: if_splits option.splits)

lemma registry_assign:
  "registry_ok reg \<Longrightarrow> registry_ok (snd (ownership_assign reg profile owner))"
  by (auto simp: ownership_assign_def intro: bt.all_values_ins grants_ok_new split: option.splits)

lemma registry_reassign:
  "registry_ok reg \<Longrightarrow> registry_ok (snd (ownership_reassign reg profile owner))"
  by (auto simp: ownership_reassign_def grants_ok_def intro!: bt.all_values_ins bt.all_values_upd
      grants_ok_new split: option.splits)

lemma registry_grant:
  "registry_ok reg \<Longrightarrow> registry_ok (snd (ownership_grant reg profile pid c))"
  by (auto simp: ownership_grant_def intro!: bt.all_values_upd add_grant_ok split: option.splits)

lemma registry_revoke: "registry_ok reg \<Longrightarrow> registry_ok (ownership_revoke reg profile pid c)"
  by (auto simp: ownership_revoke_def intro!: bt.all_values_upd drop_grant_ok)

lemma registry_remove: "registry_ok reg \<Longrightarrow> registry_ok (snd (ownership_remove reg profile))"
  by (simp add: ownership_remove_def bt.all_values_del)

lemmas registry_pres = registry_assign registry_reassign registry_grant registry_revoke registry_remove

section \<open>Properties\<close>

text \<open>
  C38. An authorization is never wider than the role, the credential and the ownership allow:
  whoever is authorized holds the capability by role and by credential, the profile is inside
  the credential's limit, and an ordinary user acts only on an owned profile, as its owner within
  the default capabilities or by an explicit grant, and never with an operator-only capability.
  The proof names exactly the requested profile, caller and capability.
\<close>

theorem authorization_is_justified:
  assumes "authorize caller c profile ownership = Inr p"
  shows "p = \<lparr>ap_profile = profile, ap_principal = pr_id (ca_principal caller), ap_capability = c\<rparr> \<and>
    (\<forall>allowed. rs_capabilities (ca_restriction caller) = Some allowed \<longrightarrow> c \<in> allowed) \<and>
    (\<forall>allowed. rs_profiles (ca_restriction caller) = Some allowed \<longrightarrow> profile \<in> allowed) \<and>
    (pr_role (ca_principal caller) = User \<longrightarrow> \<not> operator_only c \<and>
      (\<exists>record. bt_get ownership profile = Some record \<and>
        ((ow_owner record = pr_id (ca_principal caller) \<and> c \<in> owner_default) \<or>
         (\<exists>g. bt_get (ow_grants record) (pr_id (ca_principal caller)) = Some g \<and> c \<in> g))))"
proof -
  have cap: "authorize_capability caller c = Inr ()"
    using assms by (auto simp: authorize_def split: sum.splits)
  moreover have "\<exists>record. bt_get ownership profile = Some record \<and> permits record (pr_id (ca_principal caller)) c"
    if "pr_role (ca_principal caller) = User"
    using assms that by (auto simp: authorize_def Let_def split: sum.splits option.splits if_splits)
  moreover have "p = \<lparr>ap_profile = profile, ap_principal = pr_id (ca_principal caller), ap_capability = c\<rparr>"
    and "\<forall>allowed. rs_profiles (ca_restriction caller) = Some allowed \<longrightarrow> profile \<in> allowed"
    using assms by (auto simp: authorize_def Let_def split: sum.splits option.splits if_splits)
  ultimately show ?thesis
    by (fastforce simp: authorize_capability_Inr permits_def split: if_splits option.splits)
qed

definition sample_user :: caller where
  "sample_user = \<lparr>ca_principal = \<lparr>pr_id = ''ana'', pr_role = User, pr_source = Credential ''k1''\<rparr>,
     ca_restriction = no_restriction\<rparr>"

theorem authorization_is_justified_witness:
  "authorize sample_user RunsWrite ''bot'' [(''bot'', new_ownership ''ana'')] =
     Inr \<lparr>ap_profile = ''bot'', ap_principal = ''ana'', ap_capability = RunsWrite\<rparr>
   \<and> RunsWrite \<in> owner_default"
proof -
  have a: "authorize sample_user RunsWrite ''bot'' [(''bot'', new_ownership ''ana'')] =
     Inr \<lparr>ap_profile = ''bot'', ap_principal = ''ana'', ap_capability = RunsWrite\<rparr>"
    by (simp add: authorize_def authorize_capability_def sample_user_def no_restriction_def
        operator_only_def permits_def new_ownership_def owner_default_def)
  show ?thesis
    using authorization_is_justified [OF a] a by (auto simp: sample_user_def new_ownership_def)
qed

text \<open>
  Withdrawing takes effect: after a grant is revoked the principal is permitted the
  capability only if it owns the profile and holds it by default, after a reassignment the
  previous owner's rights and every grant it made are gone, and after a removal no ordinary user
  is authorized on the profile; no other profile changes.
\<close>

theorem withdrawn_rights_are_gone:
  assumes "bt_get reg profile = Some record"
  shows "(\<exists>r. bt_get (ownership_revoke reg profile pid c) profile = Some r \<and>
      (permits r pid c \<longrightarrow> pid = ow_owner r \<and> c \<in> owner_default)) \<and>
    (owner \<noteq> ow_owner record \<longrightarrow>
      (\<exists>r. bt_get (snd (ownership_reassign reg profile owner)) profile = Some r \<and>
        (\<forall>q d. permits r q d \<longrightarrow> q = owner))) \<and>
    (\<forall>caller d. pr_role (ca_principal caller) = User \<longrightarrow>
      (\<forall>p. authorize caller d profile (snd (ownership_remove reg profile)) \<noteq> Inr p)) \<and>
    (\<forall>other. other \<noteq> profile \<longrightarrow>
      bt_get (ownership_revoke reg profile pid c) other = bt_get reg other \<and>
      bt_get (snd (ownership_reassign reg profile owner)) other = bt_get reg other \<and>
      bt_get (snd (ownership_remove reg profile)) other = bt_get reg other)"
proof (intro conjI)
  show "\<exists>r. bt_get (ownership_revoke reg profile pid c) profile = Some r \<and>
      (permits r pid c \<longrightarrow> pid = ow_owner r \<and> c \<in> owner_default)"
    using assms by (auto simp: ownership_revoke_def bt_simps drop_grant_def permits_def
        split: option.splits if_splits)
  show "owner \<noteq> ow_owner record \<longrightarrow>
      (\<exists>r. bt_get (snd (ownership_reassign reg profile owner)) profile = Some r \<and>
        (\<forall>q d. permits r q d \<longrightarrow> q = owner))"
    using assms by (auto simp: ownership_reassign_def bt_simps permits_def)
  show "\<forall>caller d. pr_role (ca_principal caller) = User \<longrightarrow>
      (\<forall>p. authorize caller d profile (snd (ownership_remove reg profile)) \<noteq> Inr p)"
    by (auto simp: authorize_def ownership_remove_def bt_simps Let_def split: sum.splits)
qed (use assms in \<open>auto simp: ownership_revoke_def ownership_reassign_def ownership_remove_def bt_simps\<close>)

theorem withdrawn_rights_are_gone_witness:
  "bt_get (snd (ownership_remove [(''bot'', new_ownership ''ana'')] ''bot'')) ''cat'' = None"
  using withdrawn_rights_are_gone [of "[(''bot'', new_ownership ''ana'')]" "''bot''"
      "new_ownership ''ana''" "''ana''" RunsRead "''bob''"]
  by (simp add: ownership_remove_def bt_remove_def)

end
