(* ===== verification/Json.thy ===== *)
theory Json
  imports GenBudget Complex_Main
begin

text \<open>
  JSON values as the tools see them (\<open>serde_json::Value\<close> without extra features): a number is an
  unsigned 64-bit integer, a negative 64-bit integer or a finite double, an object is a map ordered
  by its keys, here the sorted list of its entries. A double is the rational it denotes; negative
  zero is not told from zero. Reading and printing the text form are parameters of the theories
  that need them.
\<close>

section \<open>Values\<close>

datatype number = PosInt nat | NegInt int | Float rat

datatype json =
    JNull
  | JBool bool
  | JNumber number
  | JString string
  | JArray "json list"
  | JObject "(string \<times> json) list"

text \<open>The reads by type.\<close>

fun as_object :: "json \<Rightarrow> (string \<times> json) list option" where
  "as_object (JObject m) = Some m"
| "as_object _ = None"

fun as_str :: "json \<Rightarrow> string option" where
  "as_str (JString s) = Some s"
| "as_str _ = None"

fun as_bool :: "json \<Rightarrow> bool option" where
  "as_bool (JBool b) = Some b"
| "as_bool _ = None"

fun as_u64 :: "json \<Rightarrow> nat option" where
  "as_u64 (JNumber (PosInt n)) = Some n"
| "as_u64 _ = None"

text \<open>A value's member, for values that are objects.\<close>

fun json_get :: "string \<Rightarrow> json \<Rightarrow> json option" where
  "json_get k (JObject m) = bt_get m k"
| "json_get k _ = None"

section \<open>Integers as doubles\<close>

text \<open>
  An integer converts to the double next to it, ties to the even one of the two: the excess is the
  number of low bits a 53-bit mantissa cannot hold.
\<close>

fun excess :: "nat \<Rightarrow> nat" where
  "excess n = (if n < 2 ^ 53 then 0 else Suc (excess (n div 2)))"

declare excess.simps [simp del]

definition round_to_double :: "nat \<Rightarrow> nat" where
  "round_to_double n =
     (let unit = 2 ^ excess n; kept = n div unit; rest = 2 * (n mod unit)
      in if rest > unit \<or> rest = unit \<and> odd kept then (kept + 1) * unit else kept * unit)"

fun as_double :: "number \<Rightarrow> rat" where
  "as_double (PosInt n) = of_nat (round_to_double n)"
| "as_double (NegInt i) = - of_nat (round_to_double (nat (- i)))"
| "as_double (Float r) = r"

fun as_f64 :: "json \<Rightarrow> rat option" where
  "as_f64 (JNumber n) = Some (as_double n)"
| "as_f64 _ = None"

lemma small_integers_are_exact: "n < 2 ^ 53 \<Longrightarrow> round_to_double n = n"
  by (simp add: round_to_double_def excess.simps)

section \<open>Objects\<close>

text \<open>The values the decoder builds: the keys of every object are in order, without repetition.\<close>

fun wf_json :: "json \<Rightarrow> bool" where
  "wf_json (JArray xs) \<longleftrightarrow> list_all wf_json xs"
| "wf_json (JObject m) \<longleftrightarrow> bt_wf m \<and> list_all (\<lambda>e. wf_json (snd e)) m"
| "wf_json _ \<longleftrightarrow> True"

lemma size_member [termination_simp]: "map_of m k = Some v \<Longrightarrow> size v < size (JObject m)"
proof -
  assume "map_of m k = Some v"
  then have "(k, v) \<in> set m" by (rule map_of_SomeD)
  then have "size_prod (\<lambda>_. 0) size (k, v) \<le> size_list (size_prod (\<lambda>_. 0) size) m"
    by (intro size_list_estimation') auto
  then show ?thesis by simp
qed

lemma size_element [termination_simp]: "v \<in> set xs \<Longrightarrow> size v < size (JArray xs)"
  using size_list_estimation' [of v xs "size v" size] by simp

section \<open>Numerals\<close>

text \<open>Distinct numbers have distinct decimal numerals: the digits determine the number.\<close>

definition digits_value :: "string \<Rightarrow> nat" where
  "digits_value s = foldl (\<lambda>n c. 10 * n + (of_char c - 48)) 0 s"

lemma digits_value_decimal: "digits_value (decimal n) = n"
proof (induction n rule: decimal.induct)
  case (1 n)
  show ?case
  proof (cases "n < 10")
    case True
    then show ?thesis by (subst decimal.simps) (simp add: digits_value_def)
  next
    case False
    then have "foldl (\<lambda>n c. 10 * n + (of_char c - 48)) 0 (decimal (n div 10)) = n div 10"
      using 1 by (simp add: digits_value_def)
    with False show ?thesis by (subst decimal.simps) (simp add: digits_value_def)
  qed
qed

lemma decimal_inject [simp]: "decimal m = decimal n \<longleftrightarrow> m = n"
  by (metis digits_value_decimal)

lemma decimal_digits: "c \<in> set (decimal n) \<Longrightarrow> is_digit c"
proof (induction n rule: decimal.induct)
  case (1 n)
  have digit: "is_digit (char_of (48 + k))" if "k < 10" for k :: nat
    using that by (simp add: is_digit_def less_eq_char_def)
  from 1 show ?case
    by (subst (asm) (2) decimal.simps) (auto simp: digit split: if_splits)
qed

end
