(* ===== verification/Schema.thy ===== *)
theory Schema
  imports Json
begin

text \<open>
  The validator of tool arguments (\<open>crates/lightagent-tools/src/schema.rs\<close>). \<open>check\<close> returns the
  errors that the code appends to its vector, in their order. The rendering of a double in a
  message is the parameter \<open>render\<close>. The reference is declarative: \<open>governs\<close> says which parts of a
  schema apply to which parts of a value, \<open>meets\<close> when a value satisfies the keywords of one
  schema, by itself.
\<close>

section \<open>Errors\<close>

record schema_error =
  se_pointer :: string
  se_message :: string

definition schema_error_new :: "string \<Rightarrow> string \<Rightarrow> schema_error" where
  "schema_error_new pointer message =
     \<lparr>se_pointer = (if pointer = [] then ''/'' else pointer), se_message = message\<rparr>"

definition schema_error_to_string :: "schema_error \<Rightarrow> string" where
  "schema_error_to_string e = se_pointer e @ '': '' @ se_message e"

text \<open>\<open>str::replace\<close> of one byte, and the pointer of a member.\<close>

definition replace_byte :: "char \<Rightarrow> string \<Rightarrow> string \<Rightarrow> string" where
  "replace_byte c t s = concat (map (\<lambda>x. if x = c then t else [x]) s)"

definition escape_token :: "string \<Rightarrow> string" where
  "escape_token name = replace_byte (CHR ''/'') ''~1'' (replace_byte (CHR ''~'') ''~0'' name)"

definition child_pointer :: "string \<Rightarrow> string \<Rightarrow> string" where
  "child_pointer parent name = parent @ ''/'' @ escape_token name"

section \<open>The checks\<close>

text \<open>Backquotes around a piece of a message.\<close>

definition ticked :: "string \<Rightarrow> string" where
  "ticked s = CHR 0x60 # s @ [CHR 0x60]"

definition is_integral :: "json \<Rightarrow> bool" where
  "is_integral v =
     (case v of
        JNumber n \<Rightarrow>
          (case n of PosInt _ \<Rightarrow> True | NegInt _ \<Rightarrow> True | Float r \<Rightarrow> r = of_int (floor r))
      | _ \<Rightarrow> False)"

definition has_type :: "string \<Rightarrow> json \<Rightarrow> bool" where
  "has_type expected v =
     (if expected = ''object'' then (case v of JObject _ \<Rightarrow> True | _ \<Rightarrow> False)
      else if expected = ''array'' then (case v of JArray _ \<Rightarrow> True | _ \<Rightarrow> False)
      else if expected = ''string'' then (case v of JString _ \<Rightarrow> True | _ \<Rightarrow> False)
      else if expected = ''boolean'' then (case v of JBool _ \<Rightarrow> True | _ \<Rightarrow> False)
      else if expected = ''null'' then v = JNull
      else if expected = ''number'' then (case v of JNumber _ \<Rightarrow> True | _ \<Rightarrow> False)
      else if expected = ''integer'' then is_integral v
      else True)"

definition check_type :: "json \<Rightarrow> json \<Rightarrow> string \<Rightarrow> schema_error list" where
  "check_type type_value instance_value pointer =
     (case as_str type_value of
        None \<Rightarrow> []
      | Some expected \<Rightarrow>
          if has_type expected instance_value then []
          else [schema_error_new pointer (''expected type '' @ ticked expected)])"

definition check_enum :: "(string \<times> json) list \<Rightarrow> json \<Rightarrow> string \<Rightarrow> schema_error list" where
  "check_enum schema instance_value pointer =
     (case bt_get schema ''enum'' of
        Some (JArray allowed) \<Rightarrow>
          if list_ex (\<lambda>candidate. candidate = instance_value) allowed then []
          else [schema_error_new pointer
                  (''value is not one of the permitted '' @ ticked ''enum'' @ '' values'')]
      | _ \<Rightarrow> [])"

text \<open>A bound read by \<open>f\<close> that the value violates by \<open>bad\<close>.\<close>

definition check_limit ::
  "(json \<Rightarrow> 'n option) \<Rightarrow> string \<Rightarrow> ('n \<Rightarrow> bool) \<Rightarrow> ('n \<Rightarrow> string) \<Rightarrow> (string \<times> json) list \<Rightarrow> string
    \<Rightarrow> schema_error list" where
  "check_limit f key bad message schema pointer =
     (case Option.bind (bt_get schema key) f of
        Some limit \<Rightarrow> if bad limit then [schema_error_new pointer (message limit)] else []
      | None \<Rightarrow> [])"

text \<open>Characters of a UTF-8 string: its bytes that continue no other.\<close>

definition char_count :: "string \<Rightarrow> nat" where
  "char_count s = length (filter (\<lambda>c. \<not> is_continuation c) s)"

definition check_string :: "(string \<times> json) list \<Rightarrow> string \<Rightarrow> string \<Rightarrow> schema_error list" where
  "check_string schema s pointer =
     check_limit as_u64 ''minLength'' (\<lambda>m. char_count s < m)
       (\<lambda>m. ''string is shorter than '' @ decimal m @ '' characters'') schema pointer @
     check_limit as_u64 ''maxLength'' (\<lambda>m. char_count s > m)
       (\<lambda>m. ''string is longer than '' @ decimal m @ '' characters'') schema pointer"

definition check_number ::
  "(rat \<Rightarrow> string) \<Rightarrow> (string \<times> json) list \<Rightarrow> rat \<Rightarrow> string \<Rightarrow> schema_error list" where
  "check_number render schema value pointer =
     check_limit as_f64 ''minimum'' (\<lambda>m. value < m)
       (\<lambda>m. ''value is below the minimum '' @ render m) schema pointer @
     check_limit as_f64 ''maximum'' (\<lambda>m. value > m)
       (\<lambda>m. ''value is above the maximum '' @ render m) schema pointer"

definition missing_properties :: "(string \<times> json) list \<Rightarrow> (string \<times> json) list \<Rightarrow> string list" where
  "missing_properties schema m =
     (case bt_get schema ''required'' of
        Some (JArray required) \<Rightarrow>
          filter (\<lambda>name. bt_get m name = None) (List.map_filter as_str required)
      | _ \<Rightarrow> [])"

definition declared :: "(string \<times> json) list \<Rightarrow> (string \<times> json) list option" where
  "declared schema = Option.bind (bt_get schema ''properties'') as_object"

definition undeclared_properties :: "(string \<times> json) list \<Rightarrow> (string \<times> json) list \<Rightarrow> string list" where
  "undeclared_properties schema m =
     (if bt_get schema ''additionalProperties'' = Some (JBool False)
      then filter (\<lambda>name. case declared schema of None \<Rightarrow> True
                          | Some properties \<Rightarrow> bt_get properties name = None) (map fst m)
      else [])"

definition check_lengths :: "(string \<times> json) list \<Rightarrow> json list \<Rightarrow> string \<Rightarrow> schema_error list" where
  "check_lengths schema items pointer =
     check_limit as_u64 ''minItems'' (\<lambda>m. length items < m)
       (\<lambda>m. ''array has fewer than '' @ decimal m @ '' items'') schema pointer @
     check_limit as_u64 ''maxItems'' (\<lambda>m. length items > m)
       (\<lambda>m. ''array has more than '' @ decimal m @ '' items'') schema pointer"

text \<open>
  The recursion descends into the value; \<open>check_object\<close> and \<open>check_array\<close> are the parts of
  \<open>check\<close> that call it again.
\<close>

function
  check :: "(rat \<Rightarrow> string) \<Rightarrow> json \<Rightarrow> json \<Rightarrow> string \<Rightarrow> schema_error list" and
  check_object :: "(rat \<Rightarrow> string) \<Rightarrow> (string \<times> json) list \<Rightarrow> (string \<times> json) list \<Rightarrow> string
    \<Rightarrow> schema_error list" and
  check_array :: "(rat \<Rightarrow> string) \<Rightarrow> (string \<times> json) list \<Rightarrow> json list \<Rightarrow> string
    \<Rightarrow> schema_error list"
where
  "check render schema instance_value pointer =
     (case as_object schema of
        None \<Rightarrow> []
      | Some schema \<Rightarrow>
          (case bt_get schema ''type'' of
             None \<Rightarrow> []
           | Some type_value \<Rightarrow> check_type type_value instance_value pointer) @
          check_enum schema instance_value pointer @
          (case instance_value of
             JObject m \<Rightarrow> check_object render schema m pointer
           | JArray items \<Rightarrow> check_array render schema items pointer
           | JString s \<Rightarrow> check_string schema s pointer
           | JNumber n \<Rightarrow> check_number render schema (as_double n) pointer
           | _ \<Rightarrow> []))"
| "check_object render schema m pointer =
     map (\<lambda>name. schema_error_new pointer (''missing required property '' @ ticked name))
       (missing_properties schema m) @
     (case declared schema of
        None \<Rightarrow> []
      | Some properties \<Rightarrow>
          concat (map (\<lambda>(name, subschema).
            case bt_get m name of
              None \<Rightarrow> []
            | Some child \<Rightarrow> check render subschema child (child_pointer pointer name)) properties)) @
     map (\<lambda>name. schema_error_new pointer (''property '' @ ticked name @ '' is not permitted''))
       (undeclared_properties schema m)"
| "check_array render schema items pointer =
     check_lengths schema items pointer @
     (case bt_get schema ''items'' of
        Some (JObject sub) \<Rightarrow>
          concat (map (\<lambda>(i, item). check render (JObject sub) item (pointer @ ''/'' @ decimal i))
            (enumerate 0 items))
      | _ \<Rightarrow> [])"
  by pat_completeness auto

termination
proof (relation "measure (\<lambda>x. case x of
      Inl (_, _, v, _) \<Rightarrow> 2 * size v + 1
    | Inr (Inl (_, _, m, _)) \<Rightarrow> 2 * size (JObject m)
    | Inr (Inr (_, _, xs, _)) \<Rightarrow> 2 * size (JArray xs))")
qed (auto dest: size_member size_element simp: in_set_enumerate_eq
    dest!: nth_mem)

declare check.simps [simp del] check_object.simps [simp del] check_array.simps [simp del]

definition validate :: "(rat \<Rightarrow> string) \<Rightarrow> json \<Rightarrow> json \<Rightarrow> schema_error list + unit" where
  "validate render schema instance_value =
     (let errors = check render schema instance_value ''''
      in if errors = [] then Inr () else Inl errors)"

section \<open>The reference\<close>

text \<open>The seven types, and the names that constrain nothing.\<close>

inductive typed :: "string \<Rightarrow> json \<Rightarrow> bool" where
  "typed ''object'' (JObject m)"
| "typed ''array'' (JArray xs)"
| "typed ''string'' (JString s)"
| "typed ''boolean'' (JBool b)"
| "typed ''null'' JNull"
| "typed ''number'' (JNumber n)"
| "typed ''integer'' (JNumber (PosInt n))"
| "typed ''integer'' (JNumber (NegInt i))"
| "typed ''integer'' (JNumber (Float (of_int i)))"
| "t \<notin> {''object'', ''array'', ''string'', ''boolean'', ''null'', ''number'', ''integer''} \<Longrightarrow> typed t v"

definition bounded ::
  "(json \<Rightarrow> ('n::linorder) option) \<Rightarrow> (string \<times> json) list \<Rightarrow> string \<Rightarrow> string \<Rightarrow> 'n \<Rightarrow> bool" where
  "bounded f schema low high x \<longleftrightarrow>
     (\<forall>v b. bt_get schema low = Some v \<and> f v = Some b \<longrightarrow> b \<le> x) \<and>
     (\<forall>v b. bt_get schema high = Some v \<and> f v = Some b \<longrightarrow> x \<le> b)"

definition meets_object :: "(string \<times> json) list \<Rightarrow> (string \<times> json) list \<Rightarrow> bool" where
  "meets_object schema m \<longleftrightarrow>
     (\<forall>required name. bt_get schema ''required'' = Some (JArray required) \<and> JString name \<in> set required
        \<longrightarrow> bt_get m name \<noteq> None) \<and>
     (bt_get schema ''additionalProperties'' = Some (JBool False) \<longrightarrow>
        (\<forall>name. bt_get m name \<noteq> None \<longrightarrow>
           (\<exists>properties. bt_get schema ''properties'' = Some (JObject properties)
              \<and> bt_get properties name \<noteq> None)))"

definition meets :: "json \<Rightarrow> json \<Rightarrow> bool" where
  "meets s v \<longleftrightarrow> (\<forall>schema. s = JObject schema \<longrightarrow>
     (\<forall>t. bt_get schema ''type'' = Some (JString t) \<longrightarrow> typed t v) \<and>
     (\<forall>allowed. bt_get schema ''enum'' = Some (JArray allowed) \<longrightarrow> v \<in> set allowed) \<and>
     (\<forall>m. v = JObject m \<longrightarrow> meets_object schema m) \<and>
     (\<forall>xs. v = JArray xs \<longrightarrow> bounded as_u64 schema ''minItems'' ''maxItems'' (length xs)) \<and>
     (\<forall>t. v = JString t \<longrightarrow> bounded as_u64 schema ''minLength'' ''maxLength'' (char_count t)) \<and>
     (\<forall>n. v = JNumber n \<longrightarrow> bounded as_f64 schema ''minimum'' ''maximum'' (as_double n)))"

text \<open>\<open>governs s v path s' v'\<close>: following \<open>path\<close>, the subschema \<open>s'\<close> applies to the part \<open>v'\<close>.\<close>

inductive governs :: "json \<Rightarrow> json \<Rightarrow> string list \<Rightarrow> json \<Rightarrow> json \<Rightarrow> bool" where
  here: "governs s v [] s v"
| at_property:
    "bt_get schema ''properties'' = Some (JObject properties) \<Longrightarrow> (name, sub) \<in> set properties \<Longrightarrow>
     bt_get m name = Some child \<Longrightarrow> governs sub child path s' v' \<Longrightarrow>
     governs (JObject schema) (JObject m) (name # path) s' v'"
| at_item:
    "bt_get schema ''items'' = Some (JObject sub) \<Longrightarrow> i < length xs \<Longrightarrow>
     governs (JObject sub) (xs ! i) path s' v' \<Longrightarrow>
     governs (JObject schema) (JArray xs) (decimal i # path) s' v'"

inductive_cases governs_hereE: "governs s v [] s' v'"

text \<open>The parts a schema and a value lead to directly, in the order in which \<open>check\<close> visits them.\<close>

definition parts :: "json \<Rightarrow> json \<Rightarrow> (string \<times> json \<times> json) list" where
  "parts s v =
     (case (s, v) of
        (JObject schema, JObject m) \<Rightarrow>
          (case declared schema of
             None \<Rightarrow> []
           | Some properties \<Rightarrow>
               concat (map (\<lambda>(name, sub). case bt_get m name of
                   None \<Rightarrow> [] | Some child \<Rightarrow> [(name, sub, child)]) properties))
      | (JObject schema, JArray xs) \<Rightarrow>
          (case bt_get schema ''items'' of
             Some (JObject sub) \<Rightarrow> map (\<lambda>(i, x). (decimal i, JObject sub, x)) (enumerate 0 xs)
           | _ \<Rightarrow> [])
      | _ \<Rightarrow> [])"

lemma governs_Nil: "governs s v [] s' v' \<longleftrightarrow> s' = s \<and> v' = v"
  by (auto intro: here elim: governs_hereE)

lemma declared_Some: "declared schema = Some ps \<longleftrightarrow> bt_get schema ''properties'' = Some (JObject ps)"
  by (auto simp: declared_def bind_eq_Some_conv elim: as_object.elims)

lemma governs_Cons:
  "governs s v (t # path) s' v' \<longleftrightarrow> (\<exists>s1 v1. (t, s1, v1) \<in> set (parts s v) \<and> governs s1 v1 path s' v')"
proof
  assume "governs s v (t # path) s' v'"
  then show "\<exists>s1 v1. (t, s1, v1) \<in> set (parts s v) \<and> governs s1 v1 path s' v'"
  proof (cases rule: governs.cases)
    case (at_property schema properties sub m child)
    then have "(t, sub, child) \<in> set (parts s v)"
      by (force simp: parts_def declared_Some [THEN iffD2] split: option.splits)
    with at_property show ?thesis by blast
  next
    case (at_item schema sub i xs)
    then have "(i, xs ! i) \<in> set (enumerate 0 xs)" by (simp add: in_set_enumerate_eq)
    with at_item have "(t, JObject sub, xs ! i) \<in> set (parts s v)" by (force simp: parts_def)
    with at_item show ?thesis by blast
  qed
next
  assume "\<exists>s1 v1. (t, s1, v1) \<in> set (parts s v) \<and> governs s1 v1 path s' v'"
  then show "governs s v (t # path) s' v'"
    by (cases s; cases v)
      (auto simp: parts_def in_set_enumerate_eq declared_Some dest!: sym [of "Some _"]
        intro: at_property at_item split: json.split_asm option.split_asm)
qed

section \<open>The checks against the reference\<close>

inductive_simps typed_simps:
  "typed ''object'' v" "typed ''array'' v" "typed ''string'' v" "typed ''boolean'' v"
  "typed ''null'' v" "typed ''number'' v" "typed ''integer'' v"

lemma is_integral_typed: "is_integral v \<longleftrightarrow> typed ''integer'' v"
proof -
  have "r = of_int \<lfloor>r\<rfloor> \<longleftrightarrow> (\<exists>i. r = of_int i)" for r :: rat
    by (metis floor_of_int)
  then show ?thesis
    by (auto simp: is_integral_def typed_simps split: json.split number.split)
qed

lemma has_type_typed: "has_type t v \<longleftrightarrow> typed t v"
proof (cases "t \<in> {''object'', ''array'', ''string'', ''boolean'', ''null'', ''number'', ''integer''}")
  case True
  then show ?thesis
    by (elim insertE emptyE)
      (simp_all add: has_type_def typed_simps is_integral_typed split: json.split)
next
  case False
  then show ?thesis by (simp add: has_type_def typed.intros(10))
qed

lemma check_limit_Nil:
  "check_limit f key bad message schema p = [] \<longleftrightarrow>
     (\<forall>v b. bt_get schema key = Some v \<and> f v = Some b \<longrightarrow> \<not> bad b)"
  by (auto simp: check_limit_def bind_eq_Some_conv split: option.splits bind_splits)

text \<open>The errors of one place, without those of its parts.\<close>

definition value_errors :: "(rat \<Rightarrow> string) \<Rightarrow> (string \<times> json) list \<Rightarrow> json \<Rightarrow> string \<Rightarrow> schema_error list" where
  "value_errors render schema v p =
     (case v of
        JObject m \<Rightarrow>
          map (\<lambda>n. schema_error_new p (''missing required property '' @ ticked n))
            (missing_properties schema m) @
          map (\<lambda>n. schema_error_new p (''property '' @ ticked n @ '' is not permitted''))
            (undeclared_properties schema m)
      | JArray xs \<Rightarrow> check_lengths schema xs p
      | JString t \<Rightarrow> check_string schema t p
      | JNumber n \<Rightarrow> check_number render schema (as_double n) p
      | _ \<Rightarrow> [])"

definition own_errors :: "(rat \<Rightarrow> string) \<Rightarrow> json \<Rightarrow> json \<Rightarrow> string \<Rightarrow> schema_error list" where
  "own_errors render s v p =
     (case as_object s of
        None \<Rightarrow> []
      | Some schema \<Rightarrow>
          (case bt_get schema ''type'' of None \<Rightarrow> [] | Some t \<Rightarrow> check_type t v p) @
          check_enum schema v p @ value_errors render schema v p)"

lemma schema_error_new_pointer: "se_pointer (schema_error_new p m) = (if p = [] then ''/'' else p)"
  by (simp add: schema_error_new_def)

lemma check_limit_pointer:
  "e \<in> set (check_limit f key bad message schema p) \<Longrightarrow> se_pointer e = (if p = [] then ''/'' else p)"
  by (auto simp: check_limit_def schema_error_new_pointer split: option.splits if_splits)

lemma value_errors_pointer:
  "e \<in> set (value_errors render schema v p) \<Longrightarrow> se_pointer e = (if p = [] then ''/'' else p)"
  unfolding value_errors_def check_lengths_def check_string_def check_number_def
  by (cases v) (auto simp: schema_error_new_pointer dest: check_limit_pointer)

lemma own_errors_pointer:
  "e \<in> set (own_errors render s v p) \<Longrightarrow> se_pointer e = (if p = [] then ''/'' else p)"
  by (auto simp: own_errors_def check_type_def check_enum_def schema_error_new_pointer
      dest: value_errors_pointer split: option.splits json.splits if_splits)

lemma map_filter_as_str: "name \<in> set (List.map_filter as_str xs) \<longleftrightarrow> JString name \<in> set xs"
  by (force simp: List.map_filter_def elim!: as_str.elims)

lemma missing_Nil:
  "missing_properties schema m = [] \<longleftrightarrow>
     (\<forall>required name. bt_get schema ''required'' = Some (JArray required) \<and> JString name \<in> set required
        \<longrightarrow> bt_get m name \<noteq> None)"
  by (auto simp: missing_properties_def filter_empty_conv map_filter_as_str
      split: option.splits json.splits)

lemma undeclared_Nil:
  "undeclared_properties schema m = [] \<longleftrightarrow>
     (bt_get schema ''additionalProperties'' = Some (JBool False) \<longrightarrow>
        (\<forall>name. bt_get m name \<noteq> None \<longrightarrow>
           (\<exists>properties. bt_get schema ''properties'' = Some (JObject properties)
              \<and> bt_get properties name \<noteq> None)))"
proof -
  have "bt_get m name \<noteq> None \<longleftrightarrow> name \<in> set (map fst m)" for name
    by (simp add: map_of_eq_None_iff)
  then show ?thesis
    by (cases "declared schema")
      (auto simp: undeclared_properties_def filter_empty_conv declared_Some [symmetric])
qed

lemma value_errors_Nil:
  "value_errors render schema v p = [] \<longleftrightarrow>
     (\<forall>m. v = JObject m \<longrightarrow> meets_object schema m) \<and>
     (\<forall>xs. v = JArray xs \<longrightarrow> bounded as_u64 schema ''minItems'' ''maxItems'' (length xs)) \<and>
     (\<forall>t. v = JString t \<longrightarrow> bounded as_u64 schema ''minLength'' ''maxLength'' (char_count t)) \<and>
     (\<forall>n. v = JNumber n \<longrightarrow> bounded as_f64 schema ''minimum'' ''maximum'' (as_double n))"
  by (cases v)
    (simp_all add: value_errors_def meets_object_def missing_Nil undeclared_Nil check_lengths_def
      check_string_def check_number_def check_limit_Nil bounded_def not_less)

lemma own_errors_Nil: "own_errors render s v p = [] \<longleftrightarrow> meets s v"
proof (cases s)
  case (JObject schema)
  have "check_type t v p = [] \<longleftrightarrow> (\<forall>n. t = JString n \<longrightarrow> typed n v)" for t
    by (cases t) (simp_all add: check_type_def has_type_typed)
  moreover have "check_enum schema v p = [] \<longleftrightarrow>
      (\<forall>allowed. bt_get schema ''enum'' = Some (JArray allowed) \<longrightarrow> v \<in> set allowed)"
    by (auto simp: check_enum_def list_ex_iff split: option.splits json.splits)
  ultimately show ?thesis
    by (simp add: JObject own_errors_def meets_def value_errors_Nil split: option.split)
qed (simp_all add: own_errors_def meets_def)

lemma replace_byte_absent: "c \<notin> set s \<Longrightarrow> replace_byte c t s = s"
  by (induction s) (auto simp: replace_byte_def)

lemma child_pointer_decimal: "child_pointer p (decimal i) = p @ ''/'' @ decimal i"
proof -
  have "CHR ''~'' \<notin> set (decimal i)" "CHR ''/'' \<notin> set (decimal i)"
    by (auto dest: decimal_digits simp: is_digit_def less_eq_char_def)
  then show ?thesis by (simp add: child_pointer_def escape_token_def replace_byte_absent)
qed

text \<open>\<open>check\<close> reports the errors of the place it is at and those of its parts.\<close>

lemma check_set:
  "set (check render s v p) = set (own_errors render s v p) \<union>
     (\<Union>(t, s1, v1) \<in> set (parts s v). set (check render s1 v1 (child_pointer p t)))"
proof (cases s)
  case (JObject schema)
  show ?thesis
  proof (cases v)
    case (JObject m)
    show ?thesis
    proof (cases "declared schema")
      case (Some ps)
      have "(\<Union>x \<in> set ps. set (case x of (name, sub) \<Rightarrow> case bt_get m name of None \<Rightarrow> []
              | Some child \<Rightarrow> check render sub child (child_pointer p name))) =
          (\<Union>x \<in> set ps. \<Union>(t, s1, v1) \<in> set (case x of (name, sub) \<Rightarrow> case bt_get m name of
              None \<Rightarrow> [] | Some child \<Rightarrow> [(name, sub, child)]). set (check render s1 v1 (child_pointer p t)))"
      proof (rule SUP_cong)
        fix x
        show "set (case x of (name, sub) \<Rightarrow> case bt_get m name of None \<Rightarrow> []
              | Some child \<Rightarrow> check render sub child (child_pointer p name)) =
            (\<Union>(t, s1, v1) \<in> set (case x of (name, sub) \<Rightarrow> case bt_get m name of
              None \<Rightarrow> [] | Some child \<Rightarrow> [(name, sub, child)]). set (check render s1 v1 (child_pointer p t)))"
          by (cases x; cases "bt_get m (fst x)") simp_all
      qed simp
      then show ?thesis using Some
        by (simp add: \<open>s = JObject schema\<close> JObject check.simps [of _ "JObject schema"] check_object.simps
            own_errors_def value_errors_def parts_def ac_simps)
    qed (simp_all add: \<open>s = JObject schema\<close> JObject check.simps check_object.simps own_errors_def
        value_errors_def parts_def)
  next
    case (JArray xs)
    note evaluation = \<open>s = JObject schema\<close> JArray check.simps [of _ "JObject schema"] check_array.simps
      own_errors_def value_errors_def parts_def child_pointer_decimal split_beta ac_simps
    show ?thesis
    proof (cases "bt_get schema ''items''")
      case (Some items)
      then show ?thesis by (cases items) (simp_all add: evaluation)
    qed (simp add: evaluation)
  qed (simp_all add: JObject check.simps own_errors_def value_errors_def parts_def)
qed (simp_all add: check.simps own_errors_def parts_def)

lemma own_pointers:
  "se_pointer ` set (own_errors render s v p) =
     (if meets s v then {} else {se_pointer (schema_error_new p [])})"
proof (cases "own_errors render s v p")
  case Nil
  then show ?thesis using own_errors_Nil [of render s v p] by simp
next
  case (Cons e es)
  have "se_pointer ` set (own_errors render s v p) =
      (\<lambda>_. se_pointer (schema_error_new p [])) ` set (own_errors render s v p)"
    by (rule image_cong [OF refl]) (simp add: own_errors_pointer schema_error_new_pointer)
  then show ?thesis using Cons own_errors_Nil [of render s v p] by auto
qed

definition pointer_of :: "string list \<Rightarrow> string" where
  "pointer_of path = concat (map (\<lambda>t. ''/'' @ escape_token t) path)"

lemma parts_size: "(t, s1, v1) \<in> set (parts s v) \<Longrightarrow> size v1 < size v"
  by (cases s; cases v)
    (auto simp: parts_def in_set_enumerate_eq size_element [OF nth_mem, simplified] dest!: sym [of "Some _"]
      dest: size_member split: option.split_asm json.split_asm)

lemma check_pointers:
  "se_pointer ` set (check render s v p) =
     {se_pointer (schema_error_new (p @ pointer_of path) []) | path.
        \<exists>s' v'. governs s v path s' v' \<and> \<not> meets s' v'}"
proof (induction v arbitrary: s p rule: measure_induct_rule [of size])
  case (less v)
  let ?at = "\<lambda>path. se_pointer (schema_error_new (p @ pointer_of path) [])"
  have own: "se_pointer ` set (own_errors render s v p) = (if meets s v then {} else {?at []})"
    by (simp add: own_pointers pointer_of_def)
  have part: "se_pointer ` set (check render s1 v1 (child_pointer p t)) =
      {?at (t # path) | path. \<exists>s' v'. governs s1 v1 path s' v' \<and> \<not> meets s' v'}"
    if "(t, s1, v1) \<in> set (parts s v)" for t s1 v1
    using less.IH [OF parts_size [OF that]] by (simp add: child_pointer_def pointer_of_def)
  have "se_pointer ` set (check render s v p) =
      se_pointer ` set (own_errors render s v p) \<union>
      (\<Union>(t, s1, v1) \<in> set (parts s v). se_pointer ` set (check render s1 v1 (child_pointer p t)))"
    unfolding check_set [of render s v p] by (simp add: image_Un image_UN split_beta)
  also have "\<dots> = {?at path | path. \<exists>s' v'. governs s v path s' v' \<and> \<not> meets s' v'}"
    (is "?L = ?R")
  proof (intro equalityI subsetI)
    fix x assume "x \<in> ?L"
    then show "x \<in> ?R"
    proof
      assume "x \<in> se_pointer ` set (own_errors render s v p)"
      then have "x = ?at []" "\<not> meets s v" by (simp_all add: own split: if_splits)
      then show ?thesis using here by blast
    next
      assume "x \<in> (\<Union>(t, s1, v1) \<in> set (parts s v). se_pointer ` set (check render s1 v1 (child_pointer p t)))"
      then obtain t s1 v1 where "(t, s1, v1) \<in> set (parts s v)"
        "x \<in> se_pointer ` set (check render s1 v1 (child_pointer p t))" by auto
      with part show ?thesis using governs_Cons by fastforce
    qed
  next
    fix x assume "x \<in> ?R"
    then obtain path s' v' where x: "x = ?at path" and g: "governs s v path s' v'" "\<not> meets s' v'"
      by blast
    show "x \<in> ?L"
    proof (cases path)
      case Nil
      with g have "\<not> meets s v" by (simp add: governs_Nil)
      with Nil x show ?thesis by (simp add: own)
    next
      case (Cons t rest)
      with g obtain s1 v1 where "(t, s1, v1) \<in> set (parts s v)" "governs s1 v1 rest s' v'"
        using governs_Cons by blast
      with part x Cons g(2) show ?thesis by fastforce
    qed
  qed
  finally show ?case .
qed

section \<open>Pointers\<close>

text \<open>Reading a pointer (RFC 6901): the pieces after the first slash, unescaped.\<close>

fun unescape_token :: "string \<Rightarrow> string" where
  "unescape_token (c # d # s) =
     (if c = CHR ''~'' \<and> d = CHR ''1'' then CHR ''/'' # unescape_token s
      else if c = CHR ''~'' \<and> d = CHR ''0'' then CHR ''~'' # unescape_token s
      else c # unescape_token (d # s))"
| "unescape_token s = s"

definition pointer_tokens :: "string \<Rightarrow> string list" where
  "pointer_tokens p = map unescape_token (tl (split_on (CHR ''/'') p))"

fun child_at :: "json \<Rightarrow> string \<Rightarrow> json option" where
  "child_at (JObject m) t = bt_get m t"
| "child_at (JArray xs) t = map_of (zip (map decimal [0..<length xs]) xs) t"
| "child_at _ t = None"

fun resolve_path :: "json \<Rightarrow> string list \<Rightarrow> json option" where
  "resolve_path v [] = Some v"
| "resolve_path v (t # ts) = (case child_at v t of None \<Rightarrow> None | Some v' \<Rightarrow> resolve_path v' ts)"

lemma escape_token_Cons:
  "escape_token (c # s) = (if c = CHR ''~'' then ''~0'' else if c = CHR ''/'' then ''~1'' else [c])
     @ escape_token s"
  by (simp add: escape_token_def replace_byte_def)

lemma escape_token_Nil: "escape_token [] = []"
  by (simp add: escape_token_def replace_byte_def)

lemma unescape_other: "c \<noteq> CHR ''~'' \<Longrightarrow> unescape_token (c # s) = c # unescape_token s"
  by (cases s) auto

lemma unescape_escape: "unescape_token (escape_token s) = s"
  by (induction s) (auto simp: escape_token_Cons escape_token_Nil unescape_other)

lemma escape_no_slash: "CHR ''/'' \<notin> set (escape_token s)"
  by (induction s) (auto simp: escape_token_Cons escape_token_Nil)

lemma split_on_absent: "c \<notin> set s \<Longrightarrow> split_on c s = [s]"
  by (induction s) auto

lemma split_on_append: "c \<notin> set s \<Longrightarrow> split_on c (s @ c # r) = s # split_on c r"
  by (induction s) auto

lemma split_pointer: "split_on (CHR ''/'') (s @ pointer_of path) = s # map escape_token path"
  if "CHR ''/'' \<notin> set s"
  using that
proof (induction path arbitrary: s)
  case Nil
  then show ?case by (simp add: pointer_of_def split_on_absent)
next
  case (Cons t path)
  then show ?case using Cons.IH [OF escape_no_slash [of t]]
    by (simp add: pointer_of_def split_on_append)
qed

lemma pointer_tokens_of: "pointer_tokens (pointer_of path) = path"
  using split_pointer [of "[]" path] by (simp add: pointer_tokens_def comp_def unescape_escape)

lemma parts_child: "(t, s1, v1) \<in> set (parts s v) \<Longrightarrow> child_at v t = Some v1"
proof (cases s; cases v)
  fix schema xs assume *: "(t, s1, v1) \<in> set (parts s v)" "s = JObject schema" "v = JArray xs"
  then obtain i where i: "t = decimal i" "i < length xs" "v1 = xs ! i"
    by (auto simp: parts_def in_set_enumerate_eq split: option.split_asm json.split_asm)
  have "distinct (map decimal [0..<length xs])" by (simp add: distinct_map inj_on_def)
  moreover have "map decimal [0..<length xs] ! i = decimal i" using i by simp
  ultimately show ?thesis using i * map_of_zip_nth [of "map decimal [0..<length xs]" xs i] by simp
qed (auto simp: parts_def dest!: sym [of "Some _"] split: option.split_asm json.split_asm)

lemma governs_resolve: "governs s v path s' v' \<Longrightarrow> resolve_path v path = Some v'"
proof (induction path arbitrary: s v)
  case Nil
  then show ?case by (simp add: governs_Nil)
next
  case (Cons t path)
  then obtain s1 v1 where "(t, s1, v1) \<in> set (parts s v)" "governs s1 v1 path s' v'"
    by (auto simp: governs_Cons)
  with Cons.IH show ?case by (auto simp: parts_child)
qed

text \<open>
  The place an error names: the value itself is written as a slash (which as a pointer would be
  the member with the empty name), any other part by its pointer.
\<close>

definition points_to :: "schema_error \<Rightarrow> string list \<Rightarrow> bool" where
  "points_to e path \<longleftrightarrow>
     (if path = [] then se_pointer e = ''/'' else pointer_tokens (se_pointer e) = path)"

lemma points_to_pointer: "se_pointer e = se_pointer (schema_error_new (pointer_of path) []) \<Longrightarrow> points_to e path"
proof (cases path)
  case (Cons t ts)
  then have "pointer_of path \<noteq> []" by (simp add: pointer_of_def)
  moreover assume "se_pointer e = se_pointer (schema_error_new (pointer_of path) [])"
  ultimately show ?thesis using Cons by (simp add: points_to_def schema_error_new_pointer pointer_tokens_of)
qed (simp add: points_to_def schema_error_new_pointer pointer_of_def)

section \<open>Properties\<close>

lemma sample_numerals: "decimal 0 = ''0''" "decimal (Suc 0) = ''1''"
  by (simp_all add: decimal.simps char_of_def bit_Suc_0_iff)

definition command_schema :: json where
  "command_schema = JObject [(''additionalProperties'', JBool False),
     (''properties'', JObject
       [(''args'', JObject [(''items'', JObject [(''type'', JString ''string'')]),
                            (''type'', JString ''array'')]),
        (''command'', JObject [(''type'', JString ''string'')])]),
     (''required'', JArray [JString ''command'']), (''type'', JString ''object'')]"

definition good_command :: json where
  "good_command = JObject [(''args'', JArray [JString ''-l'']), (''command'', JString ''ls'')]"

definition bad_command :: json where
  "bad_command = JObject [(''args'', JArray [JString ''-l'', JNull]), (''command'', JString ''ls'')]"

lemma command_verdicts:
  "validate render command_schema good_command = Inr ()"
  "validate render command_schema bad_command =
     Inl [\<lparr>se_pointer = ''/args/1'', se_message = ''expected type '' @ ticked ''string''\<rparr>]"
  by (simp_all add: validate_def check.simps check_object.simps check_array.simps command_schema_def
      good_command_def bad_command_def check_type_def check_enum_def check_lengths_def check_limit_def
      check_string_def missing_properties_def undeclared_properties_def declared_def has_type_def
      child_pointer_def escape_token_def replace_byte_def schema_error_new_def sample_numerals
      List.map_filter_def)

text \<open>
  C29. The validator accepts a value exactly when every part of it meets the keywords of every part of
  the schema that applies to it: the recursive checks agree with the declarative reading.
\<close>

theorem validation_agrees_with_the_reference:
  "validate render s v = Inr () \<longleftrightarrow> (\<forall>path s' v'. governs s v path s' v' \<longrightarrow> meets s' v')"
proof -
  have "check render s v [] = [] \<longleftrightarrow> se_pointer ` set (check render s v []) = {}" by simp
  then show ?thesis by (auto simp: validate_def Let_def check_pointers)
qed

theorem validation_agrees_with_the_reference_witness:
  "governs command_schema good_command [''args'', ''0''] (JObject [(''type'', JString ''string'')])
     (JString ''-l'') \<and>
   meets (JObject [(''type'', JString ''string'')]) (JString ''-l'') \<and>
   \<not> (\<forall>path s' v'. governs command_schema bad_command path s' v' \<longrightarrow> meets s' v')"
proof (intro conjI)
  show at: "governs command_schema good_command [''args'', ''0'']
      (JObject [(''type'', JString ''string'')]) (JString ''-l'')"
    by (simp add: governs_Cons governs_Nil parts_def command_schema_def good_command_def declared_def
        sample_numerals)
  then show "meets (JObject [(''type'', JString ''string'')]) (JString ''-l'')"
    using validation_agrees_with_the_reference [of "\<lambda>_. []" command_schema good_command]
    by (simp add: command_verdicts)
  show "\<not> (\<forall>path s' v'. governs command_schema bad_command path s' v' \<longrightarrow> meets s' v')"
    using validation_agrees_with_the_reference [of "\<lambda>_. []" command_schema bad_command]
    by (simp add: command_verdicts)
qed

text \<open>
  C30. Errors point at the failures: every error of a rejected value carries the pointer of a part of
  it that fails a subschema applying to it (a slash stands for the value itself, otherwise reading
  the pointer back gives the path to the part), and every such part has an error.
\<close>

theorem errors_point_at_the_failures:
  assumes "validate render s v = Inl errors"
  shows "(\<forall>e \<in> set errors. \<exists>path s' v'. governs s v path s' v' \<and> \<not> meets s' v' \<and>
      resolve_path v path = Some v' \<and> points_to e path) \<and>
    (\<forall>path s' v'. governs s v path s' v' \<and> \<not> meets s' v' \<longrightarrow> (\<exists>e \<in> set errors. points_to e path))"
proof -
  have errors: "errors = check render s v []"
    using assms by (auto simp: validate_def Let_def split: if_splits)
  note pointers = check_pointers [of render s v "[]", folded errors, simplified]
  have 1: "\<exists>path s' v'. governs s v path s' v' \<and> \<not> meets s' v' \<and>
      resolve_path v path = Some v' \<and> points_to e path" if "e \<in> set errors" for e
  proof -
    have "se_pointer e \<in> se_pointer ` set errors" using that by (rule imageI)
    then obtain path s' v' where "se_pointer e = se_pointer (schema_error_new (pointer_of path) [])"
      "governs s v path s' v'" "\<not> meets s' v'" using pointers by blast
    with points_to_pointer governs_resolve show ?thesis by blast
  qed
  have 2: "\<exists>e \<in> set errors. points_to e path"
    if "governs s v path s' v' \<and> \<not> meets s' v'" for path s' v'
  proof -
    have "se_pointer (schema_error_new (pointer_of path) []) \<in> se_pointer ` set errors"
      using that pointers by blast
    then obtain e where "e \<in> set errors"
      and "se_pointer e = se_pointer (schema_error_new (pointer_of path) [])" by (auto simp: image_iff)
    then show ?thesis using points_to_pointer by blast
  qed
  show ?thesis using 1 2 by simp
qed

theorem errors_point_at_the_failures_witness:
  "\<exists>s' v'. governs command_schema bad_command [''args'', ''1''] s' v' \<and> \<not> meets s' v' \<and>
     resolve_path bad_command [''args'', ''1''] = Some v'"
  using errors_point_at_the_failures [OF command_verdicts(2)]
proof -
  let ?e = "\<lparr>se_pointer = ''/args/1'', se_message = ''expected type '' @ ticked ''string''\<rparr>"
  obtain path s' v' where "governs command_schema bad_command path s' v'" "\<not> meets s' v'"
    "resolve_path bad_command path = Some v'" "points_to ?e path"
    using errors_point_at_the_failures [OF command_verdicts(2)] by auto
  moreover from this have "path = [''args'', ''1'']"
    by (simp add: points_to_def pointer_tokens_def split: if_splits)
  ultimately show ?thesis by blast
qed

end
