(* ===== verification/ToolPolicy.thy ===== *)
theory ToolPolicy
  imports Identity Schema Permissions
begin

text \<open>
  Which tools a run may use: the registry (\<open>crates/lightagent-tools/src/registry.rs\<close>), the
  definitions in it (\<open>definition.rs\<close>) and the policy of a profile (\<open>policy.rs\<close>, with the modes of
  \<open>crates/lightagent-core/src/config.rs\<close> and the trust of \<open>identity/mod.rs\<close>). What a tool does when
  it is called is a parameter of the executor; here a tool is its definition.
\<close>

section \<open>Definitions and the registry\<close>

record tool_definition =
  td_name :: string
  td_description :: string
  td_parameters :: json
  td_risk :: risk_class
  td_scopes :: "string list"

definition to_schema :: "tool_definition \<Rightarrow> json tool_schema" where
  "to_schema t = \<lparr>ts_name = td_name t, ts_description = td_description t,
     ts_parameters = td_parameters t\<rparr>"

type_synonym registry = "(string, tool_definition) btree"

definition registry_new :: registry where
  "registry_new = []"

definition registry_insert :: "tool_definition \<Rightarrow> registry \<Rightarrow> registry" where
  "registry_insert t r = bt_insert (td_name t) t r"

definition registry_with :: "registry \<Rightarrow> tool_definition \<Rightarrow> registry" where
  "registry_with r t = registry_insert t r"

definition registry_without :: "string \<Rightarrow> registry \<Rightarrow> registry" where
  "registry_without name r = bt_remove name r"

definition scoped :: "registry \<Rightarrow> string list \<Rightarrow> registry" where
  "scoped r allow =
     fold (\<lambda>name tools. case bt_get r name of
         None \<Rightarrow> tools | Some t \<Rightarrow> bt_insert name t tools) allow []"

definition registry_contains :: "registry \<Rightarrow> string \<Rightarrow> bool" where
  "registry_contains r name \<longleftrightarrow> bt_get r name \<noteq> None"

definition registry_names :: "registry \<Rightarrow> string list" where
  "registry_names r = map fst r"

definition registry_schemas :: "registry \<Rightarrow> json tool_schema list" where
  "registry_schemas r = map (\<lambda>e. to_schema (snd e)) r"

text \<open>A registry holds each tool under the name of its definition.\<close>

definition tools_ok :: "registry \<Rightarrow> bool" where
  "tools_ok r \<longleftrightarrow> bt_wf r \<and> (\<forall>n t. bt_get r n = Some t \<longrightarrow> td_name t = n)"

section \<open>What a tool reaches\<close>

datatype tool_reach =
  Inert | Network | ProfileData | RemoteExecution | LocalFilesystem | LocalCommand | Delegation

definition requires_isolation :: "tool_reach \<Rightarrow> bool" where
  "requires_isolation r \<longleftrightarrow> r \<in> {LocalFilesystem, LocalCommand, RemoteExecution, Delegation}"

definition reach_of :: "string \<Rightarrow> string list \<Rightarrow> tool_reach" where
  "reach_of name network_mcp_servers =
     (if name = ''datetime.now'' then Inert
      else if name \<in> set [''web.fetch'', ''web.search'', ''rag.realtime'', ''jev.classify_task'']
        then Network
      else if name = ''agent.research'' then Network
      else if name \<in> set [''memory.write'', ''memory.search'', ''memory.reflect'', ''session.lookup'',
                          ''rag.search'', ''skill.read''] then ProfileData
      else if name = ''open_terminal.run'' then RemoteExecution
      else if name \<in> set [''actions.dispatch'', ''actions.status'', ''actions.logs'', ''actions.cancel'']
        then RemoteExecution
      else if name \<in> set [''fs.read'', ''fs.list'', ''fs.write'', ''patch.propose'', ''patch.apply'']
        then LocalFilesystem
      else if name = ''repo.commit'' then RemoteExecution
      else if name = ''terminal.run'' then LocalCommand
      else if name \<in> set [''agent.delegate'', ''agent.resume_worker'', ''agent.decline_worker'']
        then Delegation
      else case Option.bind (strip_prefix ''mcp.'' name) (split_once (CHR ''.'')) of
          Some (server, _) \<Rightarrow> if server \<in> set network_mcp_servers then Network else LocalCommand
        | None \<Rightarrow> LocalCommand)"

section \<open>Entries of a profile's toolsets\<close>

datatype entry = AllTools | ReadOnlyTools | Namespace string | Exact string

definition valid_tool_name :: "string \<Rightarrow> bool" where
  "valid_tool_name name \<longleftrightarrow> name \<noteq> [] \<and>
     list_all (\<lambda>part. part \<noteq> [] \<and>
         list_all (\<lambda>c. is_lower c \<or> is_digit c \<or> c = CHR ''_'' \<or> c = CHR ''-'') part)
       (split_on (CHR ''.'') name)"

definition parse_entry :: "string \<Rightarrow> entry option" where
  "parse_entry raw =
     (if raw = ''all'' then Some AllTools
      else if raw = ''read-only'' then Some ReadOnlyTools
      else case strip_suffix ''.*'' raw of
          Some prefix \<Rightarrow> if valid_tool_name prefix then Some (Namespace (prefix @ ''.'')) else None
        | None \<Rightarrow> if CHR ''.'' \<in> set raw \<and> valid_tool_name raw then Some (Exact raw) else None)"

section \<open>The policy of a run\<close>

datatype tool_policy_mode = PolicyOff | ReportOnly | Enforce | StrictPolicy

fun policy_mode_as_str :: "tool_policy_mode \<Rightarrow> string" where
  "policy_mode_as_str PolicyOff = ''off''"
| "policy_mode_as_str ReportOnly = ''report_only''"
| "policy_mode_as_str Enforce = ''enforce''"
| "policy_mode_as_str StrictPolicy = ''strict''"

text \<open>\<open>str::to_ascii_lowercase\<close> on one byte.\<close>

definition ascii_lower :: "char \<Rightarrow> char" where
  "ascii_lower c = (if is_upper c then char_of (of_char c + (32 :: nat)) else c)"

definition policy_mode_from_str :: "string \<Rightarrow> string + tool_policy_mode" where
  "policy_mode_from_str value =
     (let v = map ascii_lower (trim value)
      in if v = ''off'' then Inr PolicyOff
         else if v = ''report_only'' then Inr ReportOnly
         else if v = ''enforce'' then Inr Enforce
         else if v = ''strict'' then Inr StrictPolicy
         else Inl ''tool profile policy must be off, report_only, enforce or strict'')"

datatype withheld = NotInProfile | InvalidProfileToolsets | RequiresIsolation

fun withheld_as_str :: "withheld \<Rightarrow> string" where
  "withheld_as_str NotInProfile = ''not_in_profile''"
| "withheld_as_str InvalidProfileToolsets = ''invalid_profile_toolsets''"
| "withheld_as_str RequiresIsolation = ''requires_isolation''"

record tool_policy =
  tp_mode :: tool_policy_mode
  tp_trust :: run_trust
  tp_enforced :: bool
  tp_allowed :: "string list"
  tp_withheld :: "(string \<times> withheld) list"
  tp_invalid_entries :: "string list"

definition apply_policy :: "tool_policy \<Rightarrow> registry \<Rightarrow> registry" where
  "apply_policy p r = (if tp_enforced p then scoped r (tp_allowed p) else r)"

definition worker_registry :: "tool_policy \<Rightarrow> registry \<Rightarrow> registry" where
  "worker_registry p worker_default =
     (if tp_enforced p then scoped worker_default (tp_allowed p) else worker_default)"

fun join_with :: "string \<Rightarrow> string list \<Rightarrow> string" where
  "join_with sep [] = []"
| "join_with sep [x] = x"
| "join_with sep (x # y # ys) = x @ sep @ join_with sep (y # ys)"

definition policy_summary :: "tool_policy \<Rightarrow> string \<Rightarrow> string option" where
  "policy_summary p profile =
     (if tp_withheld p = [] \<and> tp_invalid_entries p = [] then None
      else
        let held = join_with '', '' (map (\<lambda>(name, why). name @ '' ('' @ withheld_as_str why @ '')'')
                     (tp_withheld p));
            verb = (if tp_enforced p then ''withholds'' else ''would withhold'');
            line = ''tool policy ('' @ policy_mode_as_str (tp_mode p) @ '') '' @ verb @ '' for profile ''
                     @ profile @ '': '' @ (if held = [] then ''nothing'' else held)
        in Some (line @ (if tp_invalid_entries p = [] then []
             else ''; unrecognized toolsets entries: '' @ decimal (length (tp_invalid_entries p)))))"

text \<open>The entries a policy reads, and those it does not accept, both in order.\<close>

definition read_entries :: "bool \<Rightarrow> string list \<Rightarrow> entry list" where
  "read_entries strictly toolsets =
     List.map_filter (\<lambda>raw. case parse_entry (trim raw) of
         None \<Rightarrow> None
       | Some e \<Rightarrow> if e = AllTools \<and> strictly then None else Some e) toolsets"

definition unread_entries :: "bool \<Rightarrow> string list \<Rightarrow> string list" where
  "unread_entries strictly toolsets =
     filter (\<lambda>raw. case parse_entry (trim raw) of
         None \<Rightarrow> True | Some e \<Rightarrow> e = AllTools \<and> strictly) toolsets"

definition entry_lists :: "registry \<Rightarrow> string \<Rightarrow> entry \<Rightarrow> bool" where
  "entry_lists r name e =
     (case e of
        AllTools \<Rightarrow> True
      | ReadOnlyTools \<Rightarrow> (case bt_get r name of None \<Rightarrow> False | Some t \<Rightarrow> td_risk t = Observe)
      | Namespace prefix \<Rightarrow> is_prefix_of prefix name
      | Exact exact \<Rightarrow> exact = name)"

definition effective_mode :: "run_trust \<Rightarrow> tool_policy_mode \<Rightarrow> tool_policy_mode" where
  "effective_mode trust configured =
     (case trust of RemoteUser \<Rightarrow> StrictPolicy | LocalOperator \<Rightarrow> configured)"

definition withhold_reason ::
  "registry \<Rightarrow> bool \<Rightarrow> string list \<Rightarrow> run_trust \<Rightarrow> string list \<Rightarrow> string \<Rightarrow> withheld option" where
  "withhold_reason r strictly toolsets trust servers name =
     (if strictly \<and> unread_entries strictly toolsets \<noteq> [] then Some InvalidProfileToolsets
      else if trust = RemoteUser \<and> requires_isolation (reach_of name servers)
        then Some RequiresIsolation
      else if \<not> (\<not> strictly \<and> toolsets = [] \<or> list_ex (entry_lists r name) (read_entries strictly toolsets))
        then Some NotInProfile
      else None)"

definition resolve_policy ::
  "registry \<Rightarrow> string list \<Rightarrow> tool_policy_mode \<Rightarrow> run_trust \<Rightarrow> string list \<Rightarrow> tool_policy" where
  "resolve_policy r toolsets configured trust servers =
     (let mode = effective_mode trust configured; names = registry_names r
      in if mode = PolicyOff
         then \<lparr>tp_mode = mode, tp_trust = trust, tp_enforced = False, tp_allowed = names,
               tp_withheld = [], tp_invalid_entries = []\<rparr>
         else
           let strictly = (mode = StrictPolicy);
               reason = withhold_reason r strictly toolsets trust servers;
               enforced = (mode \<noteq> ReportOnly)
           in \<lparr>tp_mode = mode, tp_trust = trust, tp_enforced = enforced,
               tp_allowed = (if enforced then filter (\<lambda>n. reason n = None) names else names),
               tp_withheld = List.map_filter (\<lambda>n. map_option (\<lambda>why. (n, why)) (reason n)) names,
               tp_invalid_entries = unread_entries strictly toolsets\<rparr>)"

section \<open>The registry as a finite map\<close>

lemma scoped_step:
  "bt_wf m \<Longrightarrow> bt_wf (case bt_get r n of None \<Rightarrow> m | Some t \<Rightarrow> bt_insert n t m)"
  by (simp add: bt_insert_wf split: option.split)

lemma scoped_fold:
  "bt_get (fold (\<lambda>n m. case bt_get r n of None \<Rightarrow> m | Some t \<Rightarrow> bt_insert n t m) ns m) =
     bt_get m ++ bt_get r |` set ns"
proof (induction ns arbitrary: m)
  case (Cons n ns)
  have "bt_get (case bt_get r n of None \<Rightarrow> m | Some t \<Rightarrow> bt_insert n t m) ++ bt_get r |` set ns
      = bt_get m ++ bt_get r |` set (n # ns)"
    by (rule ext) (auto simp: map_add_def restrict_map_def bt_insert_get split: option.split)
  then show ?case by (simp only: fold_Cons comp_def Cons.IH)
qed simp

lemma scoped_get: "bt_get (scoped r ns) = bt_get r |` set ns"
  by (simp add: scoped_def scoped_fold)

lemma scoped_wf: "bt_wf (scoped r ns)"
proof -
  have "bt_wf m \<Longrightarrow>
      bt_wf (fold (\<lambda>n m. case bt_get r n of None \<Rightarrow> m | Some t \<Rightarrow> bt_insert n t m) ns m)" for m
    by (induction ns arbitrary: m) (simp_all add: scoped_step)
  then show ?thesis by (simp add: scoped_def bt_wf_def)
qed

lemma tools_ok_insert: "tools_ok r \<Longrightarrow> tools_ok (registry_insert t r)"
  by (auto simp: tools_ok_def registry_insert_def bt_insert_wf bt_insert_get)

lemma tools_ok_without: "tools_ok r \<Longrightarrow> tools_ok (registry_without n r)"
  by (simp add: tools_ok_def registry_without_def bt_remove_wf bt_remove_get)

lemma tools_ok_scoped: "tools_ok r \<Longrightarrow> tools_ok (scoped r ns)"
  by (auto simp: tools_ok_def scoped_wf scoped_get restrict_map_def)

lemma registry_names_set: "set (registry_names r) = dom (bt_get r)"
  by (simp add: registry_names_def dom_map_of_conv_image_fst)

section \<open>The policy as a restriction\<close>

text \<open>A raw entry as the documentation reads it: which are recognized, and which tools one lists.\<close>

inductive recognized :: "string \<Rightarrow> bool" where
  "trim raw = ''all'' \<Longrightarrow> recognized raw"
| "trim raw = ''read-only'' \<Longrightarrow> recognized raw"
| "trim raw = ns @ ''.*'' \<Longrightarrow> valid_tool_name ns \<Longrightarrow> recognized raw"
| "valid_tool_name (trim raw) \<Longrightarrow> CHR ''.'' \<in> set (trim raw) \<Longrightarrow> recognized raw"

inductive lists_tool :: "registry \<Rightarrow> string \<Rightarrow> string \<Rightarrow> bool" for r where
  "trim raw = ''all'' \<Longrightarrow> lists_tool r raw name"
| "trim raw = ''read-only'' \<Longrightarrow> bt_get r name = Some t \<Longrightarrow> td_risk t = Observe \<Longrightarrow> lists_tool r raw name"
| "trim raw = ns @ ''.*'' \<Longrightarrow> valid_tool_name ns \<Longrightarrow> name = ns @ ''.'' @ rest \<Longrightarrow> lists_tool r raw name"
| "trim raw = name \<Longrightarrow> valid_tool_name name \<Longrightarrow> CHR ''.'' \<in> set name \<Longrightarrow> lists_tool r raw name"

fun profile_offers :: "tool_policy_mode \<Rightarrow> registry \<Rightarrow> string list \<Rightarrow> string \<Rightarrow> bool" where
  "profile_offers PolicyOff r toolsets name \<longleftrightarrow> True"
| "profile_offers ReportOnly r toolsets name \<longleftrightarrow> True"
| "profile_offers Enforce r toolsets name \<longleftrightarrow>
     toolsets = [] \<or> (\<exists>raw \<in> set toolsets. lists_tool r raw name)"
| "profile_offers StrictPolicy r toolsets name \<longleftrightarrow>
     (\<forall>raw \<in> set toolsets. recognized raw \<and> trim raw \<noteq> ''all'') \<and>
     (\<exists>raw \<in> set toolsets. lists_tool r raw name)"

definition run_offers ::
  "tool_policy_mode \<Rightarrow> run_trust \<Rightarrow> registry \<Rightarrow> string list \<Rightarrow> string list \<Rightarrow> string \<Rightarrow> bool" where
  "run_offers configured trust r toolsets servers name \<longleftrightarrow>
     (case trust of
        LocalOperator \<Rightarrow> profile_offers configured r toolsets name
      | RemoteUser \<Rightarrow> profile_offers StrictPolicy r toolsets name \<and>
          \<not> requires_isolation (reach_of name servers))"

lemma strip_suffix_Some: "strip_suffix p s = Some r \<longleftrightarrow> s = r @ p"
proof
  assume "strip_suffix p s = Some r"
  then have "take (length p) (rev s) = rev p" and r: "r = take (length s - length p) s"
    by (simp_all add: strip_suffix_def is_prefix_of_def split: if_splits)
  then have "drop (length s - length p) s = p" by (simp add: take_rev)
  with r show "s = r @ p" by (metis append_take_drop_id)
qed (simp add: strip_suffix_def is_prefix_of_def)

lemma valid_tool_name_chars: "valid_tool_name name \<Longrightarrow> c \<in> set name \<Longrightarrow> c \<noteq> CHR ''*''"
proof -
  have "\<exists>part \<in> set (split_on (CHR ''.'') name). c \<in> set part \<or> c = CHR ''.''" if "c \<in> set name"
    using that
    by (induction name) (fastforce split: list.splits)+
  moreover assume "valid_tool_name name" "c \<in> set name"
  moreover have "\<not> (is_lower (CHR ''*'') \<or> is_digit (CHR ''*''))"
    by (simp add: is_lower_def is_digit_def less_eq_char_def)
  ultimately show ?thesis unfolding valid_tool_name_def list_all_iff by fastforce
qed

lemma valid_no_suffix: "valid_tool_name name \<Longrightarrow> strip_suffix ''.*'' name = None"
proof (cases "strip_suffix ''.*'' name")
  case (Some r)
  then have "CHR ''*'' \<in> set name" by (simp add: strip_suffix_Some)
  moreover assume "valid_tool_name name"
  ultimately show ?thesis using valid_tool_name_chars by blast
qed

lemma parse_entry_recognized: "parse_entry (trim raw) \<noteq> None \<longleftrightarrow> recognized raw"
proof -
  have "recognized raw \<longleftrightarrow> trim raw = ''all'' \<or> trim raw = ''read-only'' \<or>
      (\<exists>ns. strip_suffix ''.*'' (trim raw) = Some ns \<and> valid_tool_name ns) \<or>
      valid_tool_name (trim raw) \<and> CHR ''.'' \<in> set (trim raw)"
    by (subst recognized.simps) (auto simp: strip_suffix_Some)
  then show ?thesis
    by (auto simp: parse_entry_def valid_no_suffix split: option.split)
qed

lemma parse_entry_all: "parse_entry raw = Some AllTools \<longleftrightarrow> raw = ''all''"
  by (simp add: parse_entry_def split: option.split)

lemma entry_lists_iff:
  "(\<exists>e. parse_entry (trim raw) = Some e \<and> entry_lists r name e) \<longleftrightarrow> lists_tool r raw name"
proof -
  have *: "lists_tool r raw name \<longleftrightarrow> trim raw = ''all'' \<or>
      trim raw = ''read-only'' \<and> (\<exists>t. bt_get r name = Some t \<and> td_risk t = Observe) \<or>
      (\<exists>ns. strip_suffix ''.*'' (trim raw) = Some ns \<and> valid_tool_name ns \<and>
         is_prefix_of (ns @ ''.'') name) \<or>
      trim raw = name \<and> valid_tool_name name \<and> CHR ''.'' \<in> set name"
    by (subst lists_tool.simps) (auto simp: strip_suffix_Some is_prefix_of_iff)
  moreover have "strip_suffix ''.*'' ''all'' = None" "strip_suffix ''.*'' ''read-only'' = None"
    "\<not> valid_tool_name ''all'' \<or> CHR ''.'' \<notin> set ''all''" "CHR ''.'' \<notin> set ''read-only''"
    by (simp_all add: strip_suffix_def is_prefix_of_def)
  ultimately show ?thesis
  proof (cases "trim raw = ''all'' \<or> trim raw = ''read-only''")
    case False
    with * show ?thesis
      by (cases "strip_suffix ''.*'' (trim raw)")
        (auto simp: parse_entry_def entry_lists_def valid_no_suffix)
  qed (auto simp: * parse_entry_def entry_lists_def split: option.split)
qed

lemma list_ex_map_filter: "list_ex P (List.map_filter f xs) \<longleftrightarrow> (\<exists>x \<in> set xs. \<exists>y. f x = Some y \<and> P y)"
  by (induction xs) (simp_all add: List.map_filter_simps split: option.split)

lemma read_entries_list:
  "list_ex (entry_lists r name) (read_entries strictly toolsets) \<longleftrightarrow>
     (\<exists>raw \<in> set toolsets. lists_tool r raw name \<and> (strictly \<longrightarrow> trim raw \<noteq> ''all''))"
  unfolding read_entries_def list_ex_map_filter
proof (rule bex_cong [OF refl])
  fix raw
  show "(\<exists>e. (case parse_entry (trim raw) of None \<Rightarrow> None
           | Some e \<Rightarrow> if e = AllTools \<and> strictly then None else Some e) = Some e \<and> entry_lists r name e)
      \<longleftrightarrow> lists_tool r raw name \<and> (strictly \<longrightarrow> trim raw \<noteq> ''all'')"
    using entry_lists_iff [of raw r name] parse_entry_all [of "trim raw"]
    by (cases "parse_entry (trim raw)") auto
qed

lemma unread_entries_Nil:
  "unread_entries strictly toolsets = [] \<longleftrightarrow>
     (\<forall>raw \<in> set toolsets. recognized raw \<and> (strictly \<longrightarrow> trim raw \<noteq> ''all''))"
proof -
  have "(case parse_entry (trim raw) of None \<Rightarrow> True | Some e \<Rightarrow> e = AllTools \<and> strictly) \<longleftrightarrow>
      \<not> (recognized raw \<and> (strictly \<longrightarrow> trim raw \<noteq> ''all''))" for raw
    using parse_entry_recognized [of raw] parse_entry_all [of "trim raw"]
    by (auto split: option.split)
  then show ?thesis by (simp add: unread_entries_def filter_empty_conv)
qed

lemma withhold_reason_strict:
  "withhold_reason r True toolsets trust servers name = None \<longleftrightarrow>
     profile_offers StrictPolicy r toolsets name \<and>
     \<not> (trust = RemoteUser \<and> requires_isolation (reach_of name servers))"
  using unread_entries_Nil [of True toolsets]
  by (auto simp: withhold_reason_def read_entries_list)

lemma withhold_reason_enforce:
  "withhold_reason r False toolsets LocalOperator servers name = None \<longleftrightarrow>
     profile_offers Enforce r toolsets name"
  by (auto simp: withhold_reason_def read_entries_list)

definition enforcing :: "tool_policy_mode \<Rightarrow> run_trust \<Rightarrow> bool" where
  "enforcing configured trust \<longleftrightarrow> effective_mode trust configured \<notin> {PolicyOff, ReportOnly}"

lemma resolved_allowed:
  assumes "enforcing configured trust"
  shows "set (tp_allowed (resolve_policy r toolsets configured trust servers)) =
    {n \<in> dom (bt_get r). run_offers configured trust r toolsets servers n}"
  using assms
  by (cases trust; cases configured)
    (auto simp: enforcing_def resolve_policy_def effective_mode_def registry_names_set run_offers_def
      withhold_reason_strict withhold_reason_enforce Let_def simp del: profile_offers.simps)

lemma resolved_enforced:
  "tp_enforced (resolve_policy r toolsets configured trust servers) \<longleftrightarrow> enforcing configured trust"
  by (auto simp: resolve_policy_def enforcing_def Let_def)

lemma policy_restricts:
  assumes "tools_ok r"
  shows "bt_get (apply_policy (resolve_policy r toolsets configured trust servers) r) =
    bt_get r |` {n. run_offers configured trust r toolsets servers n}"
proof (cases "enforcing configured trust")
  case True
  have "bt_get r |` {n \<in> dom (bt_get r). P n} = bt_get r |` {n. P n}" for P
    by (rule ext) (auto simp: restrict_map_def dom_def)
  with True show ?thesis by (simp add: apply_policy_def resolved_enforced resolved_allowed scoped_get)
next
  case False
  then have "run_offers configured trust r toolsets servers n" for n
    by (cases trust; cases configured) (auto simp: enforcing_def effective_mode_def run_offers_def)
  with False show ?thesis by (simp add: apply_policy_def resolved_enforced restrict_map_def)
qed

text \<open>
  C31. The registry of a run is the installation's registry restricted to the tools that its profile
  offers and its caller's trust allows; the registry of its workers is their own restricted to the
  tools the run has, unless the policy is off or only reports. A restricted registry is again a
  registry.
\<close>

theorem policies_restrict_the_registry:
  assumes "tools_ok r" and "tools_ok workers"
    and "p = resolve_policy r toolsets configured trust servers"
  shows "tools_ok (apply_policy p r) \<and> tools_ok (worker_registry p workers) \<and>
    bt_get (apply_policy p r) = bt_get r |` {n. run_offers configured trust r toolsets servers n} \<and>
    bt_get (worker_registry p workers) =
      (if enforcing configured trust
       then bt_get workers |` {n \<in> dom (bt_get r). run_offers configured trust r toolsets servers n}
       else bt_get workers)"
proof -
  have "tools_ok (apply_policy p r)" "tools_ok (worker_registry p workers)"
    using assms(1,2) by (simp_all add: apply_policy_def worker_registry_def tools_ok_scoped)
  moreover have "bt_get (worker_registry p workers) = (if enforcing configured trust
      then bt_get workers |` {n \<in> dom (bt_get r). run_offers configured trust r toolsets servers n}
      else bt_get workers)"
    by (simp add: assms(3) worker_registry_def resolved_enforced resolved_allowed scoped_get)
  ultimately show ?thesis by (simp add: assms(3) policy_restricts [OF assms(1)])
qed

definition sample_tool :: "string \<Rightarrow> risk_class \<Rightarrow> tool_definition" where
  "sample_tool name risk = \<lparr>td_name = name, td_description = [], td_parameters = JObject [],
     td_risk = risk, td_scopes = []\<rparr>"

definition sample_registry :: registry where
  "sample_registry = [(''fs.read'', sample_tool ''fs.read'' Observe),
     (''web.fetch'', sample_tool ''web.fetch'' External)]"

lemma sample_tools_ok: "tools_ok sample_registry"
  by (auto simp: tools_ok_def sample_registry_def bt_wf_def sample_tool_def split: if_splits)

lemma sample_policy_allowed:
  "registry_names (apply_policy (resolve_policy sample_registry [''read-only'', ''web.*''] PolicyOff
     RemoteUser []) sample_registry) = [''web.fetch'']"
  by code_simp

theorem policies_restrict_the_registry_witness:
  "\<not> run_offers PolicyOff RemoteUser sample_registry [''read-only'', ''web.*''] [] ''fs.read'' \<and>
   run_offers PolicyOff RemoteUser sample_registry [''read-only'', ''web.*''] [] ''web.fetch''"
proof -
  let ?p = "resolve_policy sample_registry [''read-only'', ''web.*''] PolicyOff RemoteUser []"
  have restricted: "bt_get (apply_policy ?p sample_registry) =
      bt_get sample_registry |` {n. run_offers PolicyOff RemoteUser sample_registry
        [''read-only'', ''web.*''] [] n}"
    using policies_restrict_the_registry [OF sample_tools_ok sample_tools_ok refl] by blast
  have "dom (bt_get (apply_policy ?p sample_registry)) = {''web.fetch''}"
    using sample_policy_allowed by (simp add: registry_names_set [symmetric])
  then have "n \<in> dom (bt_get sample_registry) \<Longrightarrow>
      run_offers PolicyOff RemoteUser sample_registry [''read-only'', ''web.*''] [] n \<longleftrightarrow> n = ''web.fetch''" for n
    unfolding restricted by auto
  then show ?thesis by (simp add: sample_registry_def)
qed

end
