(* ===== verification/Revocation.thy ===== *)
theory Revocation
  imports Identity
begin

text \<open>
  Revocation during a run (\<open>crates/lightagent-core/src/identity/revocation.rs\<close>): the run's
  authorization that is asked again at every enforcement point, the provider that asks before
  each model request, and the sweep of a supervisor.

  A run is shared by several threads. \<open>verify\<close> is not atomic: it reads the recorded refusal,
  consults the check (which reads the current identity state, a parameter of each step) and then
  records a refusal. The model has these as separate steps, so checks that started before a
  refusal may finish after it, in any order. Recording a refusal is one atomic step
  (\<open>OnceLock::set\<close>). The check counter wraps at 64 bits.
\<close>

section \<open>The authorization of a run\<close>

record run_authorization =
  rn_revocable :: bool
  rn_cancelled :: bool
  rn_revoked :: "denial option"
  rn_generation :: "nat option"
  rn_checks :: nat

definition unconditional :: "bool \<Rightarrow> run_authorization" where
  "unconditional cancelled = \<lparr>rn_revocable = False, rn_cancelled = cancelled, rn_revoked = None,
     rn_generation = None, rn_checks = 0\<rparr>"

definition revocable :: "bool \<Rightarrow> nat option \<Rightarrow> run_authorization" where
  "revocable cancelled generation = \<lparr>rn_revocable = True, rn_cancelled = cancelled,
     rn_revoked = None, rn_generation = generation, rn_checks = 0\<rparr>"

definition run_revoke :: "denial \<Rightarrow> run_authorization \<Rightarrow> bool \<times> run_authorization" where
  "run_revoke d a =
     (rn_revoked a = None,
      a\<lparr>rn_revoked := (case rn_revoked a of None \<Rightarrow> Some d | Some e \<Rightarrow> Some e), rn_cancelled := True\<rparr>)"

text \<open>The start of \<open>verify\<close>: an answer, or the check has to be consulted (and was counted).\<close>

definition verify_start :: "run_authorization \<Rightarrow> (denial + unit) option \<times> run_authorization" where
  "verify_start a =
     (case rn_revoked a of
        Some d \<Rightarrow> (Some (Inl d), a)
      | None \<Rightarrow>
          if \<not> rn_revocable a then (Some (Inr ()), a)
          else (None, a\<lparr>rn_checks := (rn_checks a + 1) mod 2 ^ 64\<rparr>))"

text \<open>The end of \<open>verify\<close>, with the answer of the check.\<close>

definition verify_finish :: "denial + unit \<Rightarrow> run_authorization \<Rightarrow> (denial + unit) \<times> run_authorization" where
  "verify_finish answer a =
     (case answer of
        Inr _ \<Rightarrow> (Inr (), a)
      | Inl d \<Rightarrow>
          (let (_, a') = run_revoke d a
           in (Inl (case rn_revoked a' of Some e \<Rightarrow> e | None \<Rightarrow> d), a')))"

definition verify :: "denial + unit \<Rightarrow> run_authorization \<Rightarrow> (denial + unit) \<times> run_authorization" where
  "verify answer a =
     (case verify_start a of
        (Some r, a') \<Rightarrow> (r, a')
      | (None, a') \<Rightarrow> verify_finish answer a')"

definition revoked_message :: "denial \<Rightarrow> string" where
  "revoked_message d = ''the run's authorization was withdrawn ('' @ denial_code d
     @ ''); no further actions are taken''"

section \<open>The provider of an authorized run\<close>

datatype 'm served = ServedDefault | ServedInner 'm

definition provider_served_model ::
  "denial + unit \<Rightarrow> 'm \<Rightarrow> run_authorization \<Rightarrow> 'm served \<times> run_authorization" where
  "provider_served_model answer inner a =
     (case verify answer a of
        (Inl _, a') \<Rightarrow> (ServedDefault, a')
      | (Inr _, a') \<Rightarrow> (ServedInner inner, a'))"

text \<open>What \<open>stream\<close> does with a request: nothing is sent, it is sent, or it is sent unless the
  cancellation comes first while the connection is set up.\<close>

datatype stream_choice = NeverYields | SendsRequest | SendsUnlessCancelled

definition provider_stream ::
  "denial + unit \<Rightarrow> run_authorization \<Rightarrow> stream_choice \<times> run_authorization" where
  "provider_stream answer a =
     (case verify answer a of
        (Inl _, a') \<Rightarrow> (NeverYields, a'\<lparr>rn_cancelled := True\<rparr>)
      | (Inr _, a') \<Rightarrow>
          (if \<not> rn_revocable a' then (SendsRequest, a')
           else if rn_cancelled a' then (NeverYields, a') else (SendsUnlessCancelled, a')))"

section \<open>Sweeps\<close>

text \<open>The process-wide sweep counter (64 bits) and the sweep the calling thread is in.\<close>

record sweep_state =
  sw_next :: nat
  sw_current :: "nat option"

definition sweep :: "(sweep_state \<Rightarrow> 'r \<times> sweep_state) \<Rightarrow> sweep_state \<Rightarrow> 'r \<times> sweep_state" where
  "sweep checks s =
     (let epoch = sw_next s;
          (r, s') = checks \<lparr>sw_next = (epoch + 1) mod 2 ^ 64, sw_current = Some epoch\<rparr>
      in (r, s'\<lparr>sw_current := sw_current s\<rparr>))"

section \<open>Which runs a change affects\<close>

datatype revocation_scope =
    ScopeCredential string
  | ScopePrincipal string
  | ScopeProfile string
  | ScopeGrant string string

section \<open>Interleaved verification\<close>

datatype run_event = Starts | Finishes "denial + unit" | Supervisor denial

fun run_step :: "run_authorization \<Rightarrow> run_event \<Rightarrow> run_authorization" where
  "run_step a Starts = snd (verify_start a)"
| "run_step a (Finishes answer) = (if rn_revocable a then snd (verify_finish answer a) else a)"
| "run_step a (Supervisor d) = snd (run_revoke d a)"

definition lost :: "denial \<Rightarrow> run_authorization \<Rightarrow> bool" where
  "lost d a \<longleftrightarrow> rn_revoked a = Some d \<and> rn_cancelled a"

lemma run_revoke_lost: "lost d a \<Longrightarrow> run_revoke e a = (False, a)"
  by (cases a) (simp add: run_revoke_def lost_def)

interpretation lost_run: step_invariant run_step "\<lambda>_ _. True" "lost d" for d
proof
  fix a :: run_authorization and e
  assume a: "lost d a"
  then show "lost d (run_step a e)"
    by (cases e) (auto simp: run_revoke_lost verify_start_def verify_finish_def lost_def
        split: option.splits sum.splits)
qed

text \<open>
  The first refusal is final: once any check or supervisor refused the run, whatever checks
  are still running and however they end, the recorded denial never changes, the run stays
  cancelled, every later verification answers with that denial without consulting the check, every
  check that ends in a refusal reports it too, and the provider sends nothing to the model.
\<close>

theorem the_first_refusal_is_final:
  assumes "rn_revoked a = None" and "a' = foldl run_step (snd (run_revoke d a)) events"
  shows "rn_revoked a' = Some d \<and> rn_cancelled a' \<and>
    verify answer a' = (Inl d, a') \<and> rn_checks (snd (verify answer a')) = rn_checks a' \<and>
    verify_finish (Inl e) a' = (Inl d, a') \<and>
    fst (provider_stream answer a') = NeverYields \<and>
    fst (provider_served_model answer m a') = ServedDefault"
proof -
  have "lost d (snd (run_revoke d a))" using assms(1) by (simp add: lost_def run_revoke_def)
  then have l: "lost d a'" unfolding assms(2) by (rule lost_run.run_inv_total) simp
  then have "verify answer a' = (Inl d, a')"
    by (simp add: verify_def verify_start_def lost_def)
  moreover have "verify_finish (Inl e) a' = (Inl d, a')"
    using l by (simp add: verify_finish_def run_revoke_lost [OF l] lost_def)
  ultimately show ?thesis
    using l by (simp add: lost_def provider_stream_def provider_served_model_def)
qed

theorem the_first_refusal_is_final_witness:
  "fst (verify (Inr ()) (foldl run_step (snd (run_revoke Expired (revocable False None)))
     [Starts, Finishes (Inl Revoked), Supervisor Unauthenticated])) = Inl Expired"
  using the_first_refusal_is_final [of "revocable False None"
      "foldl run_step (snd (run_revoke Expired (revocable False None)))
         [Starts, Finishes (Inl Revoked), Supervisor Unauthenticated]" Expired
      "[Starts, Finishes (Inl Revoked), Supervisor Unauthenticated]" "Inr ()" Expired "()"]
  by (simp add: revocable_def del: foldl.simps)

text \<open>
  A run that can lose its authorization never acts on a remembered answer: each verification
  of a run not yet refused consults the check exactly once and answers what the check says now; a
  trusted run never consults it and is never refused by it.
\<close>

theorem verification_reads_the_current_state:
  assumes "rn_revoked a = None"
  shows "(rn_revocable a \<longrightarrow> fst (verify answer a) = answer \<and>
      rn_checks (snd (verify answer a)) = (rn_checks a + 1) mod 2 ^ 64 \<and>
      (answer = Inr () \<longleftrightarrow> rn_revoked (snd (verify answer a)) = None)) \<and>
    (\<not> rn_revocable a \<longrightarrow> verify answer a = (Inr (), a) \<and> provider_stream answer a = (SendsRequest, a))"
  using assms
  by (cases answer)
    (auto simp: verify_def verify_start_def verify_finish_def run_revoke_def provider_stream_def)

theorem verification_reads_the_current_state_witness:
  "fst (verify (Inl Revoked) (revocable False (Some 3))) = Inl Revoked"
  using verification_reads_the_current_state [of "revocable False (Some 3)" "Inl Revoked"]
  by (simp add: revocable_def)

end
