(* ===== verification/Executor.thy ===== *)
theory Executor
  imports AgentLoop ToolPolicy Revocation
begin

text \<open>
  The executor of a run's tool calls (\<open>crates/lightagent-tools/src/executor.rs\<close>, with
  \<open>output.rs\<close> and the deny-list of \<open>builtins/terminal.rs\<close>): the approval of a call, the memory of
  what a person approved, and the checks before a tool is launched.

  The executor's three mutexes are its state; a poisoned one (a thread panicked while holding it)
  is \<open>None\<close>. Everything outside the executor is the world \<open>'w\<close>: other threads, the run's shared
  authorization, the guard's settings, the clock, the tools. The parameters of a host are the JSON
  codec, the renderings of a double, a quoted string and a duration, the source of approval ids,
  the clock and the tools; a tool answers, times out, or is cut off by the run's cancellation.
\<close>

section \<open>Bounded output\<close>

definition clamp :: "string \<Rightarrow> nat \<Rightarrow> string" where
  "clamp content max_bytes =
     (if length content \<le> max_bytes then content
      else
        let cut = floor_boundary content (min max_bytes (length content));
            kept = take cut content
        in kept @ [CHR 0x0A, CHR 0xE2, CHR 0x80, CHR 0xA6] @ ''[truncated, ''
             @ decimal (length content - length kept) @ '' bytes]'')"

section \<open>Secrets and previews\<close>

fun contains_str :: "string \<Rightarrow> string \<Rightarrow> bool" where
  "contains_str needle [] \<longleftrightarrow> needle = []"
| "contains_str needle (c # s) \<longleftrightarrow> is_prefix_of needle (c # s) \<or> contains_str needle s"

definition is_secret_key :: "string \<Rightarrow> bool" where
  "is_secret_key key =
     (let lowered = map ascii_lower key
      in list_ex (\<lambda>needle. contains_str needle lowered)
           [''key'', ''secret'', ''token'', ''password'', ''passwd'', ''credential'', ''authorization''])"

fun redact :: "json \<Rightarrow> json" where
  "redact (JObject m) = JObject (map (\<lambda>(key, child).
       if is_secret_key key then (key, JString ''<redacted>'') else (key, redact child)) m)"
| "redact (JArray xs) = JArray (map redact xs)"
| "redact v = v"

definition preview_max_bytes :: nat where
  "preview_max_bytes = 200"

section \<open>The executor\<close>

datatype call_end = Returned tool_outcome | TimedOut | CutOff

record 'w host =
  ho_parse :: "string \<Rightarrow> string + json"
  ho_print :: "json \<Rightarrow> string"
  ho_render :: "rat \<Rightarrow> string"
  ho_debug :: "string \<Rightarrow> string"
  ho_duration :: "nat \<Rightarrow> string"
  ho_fresh :: "'w \<Rightarrow> approval_id \<times> 'w"
  ho_now :: "'w \<Rightarrow> time \<times> 'w"
  ho_call :: "tool_definition \<Rightarrow> json \<Rightarrow> nat \<Rightarrow> 'w \<Rightarrow> (tool_progress list \<times> call_end) \<times> 'w"

record 'w executor =
  xe_guard :: "(string \<Rightarrow> 'w \<Rightarrow> bool \<times> 'w) option"
  xe_authorization :: "('w \<Rightarrow> (denial + unit) \<times> 'w) option"
  xe_registry :: registry
  xe_per_call :: nat
  xe_max_output_bytes :: nat
  xe_delegate_timeout :: "nat option"
  xe_parked :: "(string \<Rightarrow> 'w \<Rightarrow> string option) option"
  xe_open_terminal_timeout :: "nat option"
  xe_actions_wait :: "nat option"
  xe_patches :: "(string \<Rightarrow> 'w \<Rightarrow> string option) option"

record exec_state =
  es_policy :: "approval_policy option"
  es_pending :: "(string \<rightharpoonup> approval_request \<times> string) option"
  es_approved :: "(string \<rightharpoonup> string) option"

definition executor_new :: "registry \<Rightarrow> approval_policy \<Rightarrow> nat \<Rightarrow> nat \<Rightarrow> 'w executor \<times> exec_state" where
  "executor_new r policy per_call max_output_bytes =
     (\<lparr>xe_guard = None, xe_authorization = None, xe_registry = r, xe_per_call = per_call,
       xe_max_output_bytes = max_output_bytes, xe_delegate_timeout = None, xe_parked = None,
       xe_open_terminal_timeout = None, xe_actions_wait = None, xe_patches = None\<rparr>,
      \<lparr>es_policy = Some policy, es_pending = Some Map.empty, es_approved = Some Map.empty\<rparr>)"

definition with_call_guard :: "'w executor \<Rightarrow> (string \<Rightarrow> 'w \<Rightarrow> bool \<times> 'w) \<Rightarrow> 'w executor" where
  "with_call_guard ex guard = ex\<lparr>xe_guard := Some guard\<rparr>"

definition with_authorization :: "'w executor \<Rightarrow> ('w \<Rightarrow> (denial + unit) \<times> 'w) \<Rightarrow> 'w executor" where
  "with_authorization ex verifies = ex\<lparr>xe_authorization := Some verifies\<rparr>"

definition reset_session_policy :: "approval_policy \<Rightarrow> exec_state \<Rightarrow> exec_state" where
  "reset_session_policy policy st =
     \<lparr>es_policy = map_option (\<lambda>_. policy) (es_policy st),
      es_pending = map_option (\<lambda>_. Map.empty) (es_pending st),
      es_approved = map_option (\<lambda>_. Map.empty) (es_approved st)\<rparr>"

definition unrestrict_session :: "exec_state \<Rightarrow> exec_state" where
  "unrestrict_session st = st\<lparr>es_policy := map_option allow_without_restrictions (es_policy st)\<rparr>"

definition guard_refuses :: "'w executor \<Rightarrow> string \<Rightarrow> 'w \<Rightarrow> bool \<times> 'w" where
  "guard_refuses ex name w =
     (case xe_guard ex of
        None \<Rightarrow> (False, w)
      | Some guard \<Rightarrow> (let (permits, w) = guard name w in (\<not> permits, w)))"

definition unauthorized :: "'w executor \<Rightarrow> 'w \<Rightarrow> string option \<times> 'w" where
  "unauthorized ex w =
     (case xe_authorization ex of
        None \<Rightarrow> (None, w)
      | Some verifies \<Rightarrow>
          (let (r, w) = verifies w
           in (case r of Inl d \<Rightarrow> Some (revoked_message d) | Inr _ \<Rightarrow> None, w)))"

definition classify :: "'w executor \<Rightarrow> tool_call \<Rightarrow> (risk_class \<times> string list) option" where
  "classify ex c = map_option (\<lambda>t. (td_risk t, td_scopes t)) (bt_get (xe_registry ex) (cl_name c))"

definition preview :: "'w host \<Rightarrow> string \<Rightarrow> string" where
  "preview h arguments =
     clamp (case ho_parse h arguments of Inr v \<Rightarrow> ho_print h (redact v) | Inl _ \<Rightarrow> arguments)
       preview_max_bytes"

definition write_preview :: "'w host \<Rightarrow> json \<Rightarrow> string" where
  "write_preview h args =
     (let path = unwrap_or ''<missing>'' (Option.bind (json_get ''path'' args) as_str);
          bytes = unwrap_or 0 (map_option length (Option.bind (json_get ''content'' args) as_str));
          mode = (if Option.bind (json_get ''append'' args) as_bool = Some True
                  then ''append'' else ''write'')
      in ''path='' @ ho_debug h path @ '', mode='' @ mode @ '', content_bytes='' @ decimal bytes)"

definition patch_preview :: "'w executor \<Rightarrow> json \<Rightarrow> 'w \<Rightarrow> string option" where
  "patch_preview ex args w =
     Option.bind (Option.bind (json_get ''patch_id'' args) as_str) (\<lambda>i.
     Option.bind (xe_patches ex) (\<lambda>describe.
     map_option (\<lambda>patch. case Option.bind (json_get ''branch'' args) as_str of
         Some branch \<Rightarrow> patch @ '' branch='' @ branch
       | None \<Rightarrow> patch) (describe i w)))"

definition resumed_action :: "'w host \<Rightarrow> 'w executor \<Rightarrow> string \<Rightarrow> 'w \<Rightarrow> string option" where
  "resumed_action h ex arguments w =
     (case ho_parse h arguments of
        Inl _ \<Rightarrow> None
      | Inr args \<Rightarrow>
          Option.bind (Option.bind (json_get ''handle'' args) as_str) (\<lambda>handle.
          Option.bind (xe_parked ex) (\<lambda>describe. describe handle w)))"

definition arguments_preview :: "'w host \<Rightarrow> 'w executor \<Rightarrow> tool_call \<Rightarrow> 'w \<Rightarrow> string" where
  "arguments_preview h ex c w =
     (let name = cl_name c; raw = cl_arguments c in
      if name = ''fs.write'' then
        (case ho_parse h raw of Inr args \<Rightarrow> write_preview h args | Inl _ \<Rightarrow> preview h raw)
      else if name = ''terminal.run'' then
        (case ho_parse h raw of Inr args \<Rightarrow> ho_print h (redact args) | Inl _ \<Rightarrow> preview h raw)
      else if name = ''patch.apply'' \<or> name = ''repo.commit'' then
        (case ho_parse h raw of
           Inr args \<Rightarrow> unwrap_or (preview h raw) (patch_preview ex args w)
         | Inl _ \<Rightarrow> preview h raw)
      else if name = ''agent.resume_worker'' then
        unwrap_or ''no worker is waiting under this handle'' (resumed_action h ex raw w)
      else preview h raw)"

definition request_for ::
  "'w host \<Rightarrow> 'w executor \<Rightarrow> tool_call \<Rightarrow> risk_class \<Rightarrow> string list \<Rightarrow> 'w \<Rightarrow> approval_request \<times> 'w" where
  "request_for h ex c risk scopes w =
     (let p = arguments_preview h ex c w; (i, w) = ho_fresh h w
      in (\<lparr>rq_id = i, rq_tool = cl_name c, rq_risk = risk, rq_scopes = scopes, rq_preview = p\<rparr>, w))"

text \<open>The last component of a path, unless it is the parent or the path has none.\<close>

definition file_name :: "string \<Rightarrow> string option" where
  "file_name path =
     (let parts = filter (\<lambda>x. x \<noteq> [] \<and> x \<noteq> ''.'') (split_on (CHR ''/'') path)
      in if parts = [] \<or> last parts = ''..'' then None else Some (last parts))"

definition blocked_command :: "string \<Rightarrow> string option" where
  "blocked_command command =
     (case map_option (map ascii_lower) (file_name command) of
        None \<Rightarrow> None
      | Some name \<Rightarrow>
          if name \<in> set [''rm'', ''rmdir'', ''unlink'', ''shred'', ''dd'', ''wipefs'', ''sudo'', ''doas'',
               ''shutdown'', ''reboot'', ''poweroff'', ''bash'', ''sh'', ''zsh'', ''fish'', ''dash'', ''cmd'',
               ''cmd.exe'', ''powershell'', ''pwsh'', ''busybox''] \<or> is_prefix_of ''mkfs'' name
          then Some ''program is blocked by the terminal deny-list'' else None)"

definition blocked_terminal_call :: "'w host \<Rightarrow> tool_call \<Rightarrow> string option" where
  "blocked_terminal_call h c =
     (if cl_name c \<noteq> ''terminal.run'' then None
      else case ho_parse h (cl_arguments c) of
          Inl _ \<Rightarrow> None
        | Inr args \<Rightarrow>
            (case Option.bind (json_get ''command'' args) as_str of
               None \<Rightarrow> None
             | Some command \<Rightarrow>
                 if length (ho_print h (redact args)) > 512
                 then Some ''terminal arguments exceed the review limit''
                 else blocked_command command))"

definition parse_arguments :: "'w host \<Rightarrow> string \<Rightarrow> string + json" where
  "parse_arguments h raw =
     (if trim raw = [] then Inr (JObject [])
      else case ho_parse h raw of
          Inr v \<Rightarrow> Inr v
        | Inl e \<Rightarrow> Inl (''arguments were not valid JSON: '' @ e))"

section \<open>Approval and execution of a call\<close>

definition not_permitted_message :: "string \<Rightarrow> string" where
  "not_permitted_message name = ''the tool '' @ quoted name @ '' is no longer permitted for this run''"

text \<open>What the session's policy says of a request; a worker's paused action always needs a person.\<close>

definition call_need ::
  "'w host \<Rightarrow> tool_call \<Rightarrow> approval_request \<Rightarrow> exec_state \<Rightarrow> 'w \<Rightarrow> approval_need \<times> 'w" where
  "call_need h c rq st w =
     (let (need, w) =
        (case es_policy st of
           None \<Rightarrow> (Deny ''the approval policy is unavailable'', w)
         | Some policy \<Rightarrow> (let (now, w) = ho_now h w in (evaluate policy rq now, w)))
      in (if cl_name c = ''agent.resume_worker'' \<and> need = AutoApprove then Require rq else need, w))"

definition approval_for ::
  "'w host \<Rightarrow> 'w executor \<Rightarrow> tool_call \<Rightarrow> exec_state \<Rightarrow> 'w \<Rightarrow> approval_need \<times> exec_state \<times> 'w" where
  "approval_for h ex c st w =
     (case classify ex c of
        None \<Rightarrow> (AutoApprove, st, w)
      | Some (risk, scopes) \<Rightarrow>
          (let (refused, w) = unauthorized ex w in
           case refused of Some why \<Rightarrow> (Deny why, st, w) | None \<Rightarrow>
          (let (refuses, w) = guard_refuses ex (cl_name c) w in
           if refuses then (Deny (not_permitted_message (cl_name c)), st, w) else
           case blocked_terminal_call h c of Some why \<Rightarrow> (Deny why, st, w) | None \<Rightarrow>
          (let (rq, w) = request_for h ex c risk scopes w; (need, w) = call_need h c rq st w in
           case need of
             Require rq \<Rightarrow>
               (case es_pending st of
                  None \<Rightarrow> (Deny ''the approval tracker is unavailable'', st, w)
                | Some pending \<Rightarrow>
                    (need, st\<lparr>es_pending := Some (pending(cl_id c \<mapsto> (rq, call_key c)))\<rparr>, w))
           | _ \<Rightarrow> (need, st, w)))))"

definition invalid_arguments_message :: "string \<Rightarrow> schema_error list \<Rightarrow> string" where
  "invalid_arguments_message name errors =
     ''arguments for '' @ quoted name @ '' are invalid: ''
       @ join_with ''; '' (map schema_error_to_string errors)"

definition per_call_timeout :: "'w executor \<Rightarrow> string \<Rightarrow> nat" where
  "per_call_timeout ex name =
     (if name = ''open_terminal.run'' then unwrap_or (xe_per_call ex) (xe_open_terminal_timeout ex)
      else if name = ''agent.delegate'' \<or> name = ''agent.research''
        then unwrap_or (xe_per_call ex) (xe_delegate_timeout ex)
      else if is_prefix_of ''actions.'' name
        then (case xe_actions_wait ex of None \<Rightarrow> xe_per_call ex
              | Some max_wait \<Rightarrow> xe_per_call ex + max_wait + 60 * nanos_per_sec)
      else xe_per_call ex)"

text \<open>
  Whether a call may be launched: an error for the model, or nothing. An approval is used up when
  it is looked at, whether or not it is the call's own.
\<close>

definition take_approval :: "tool_call \<Rightarrow> exec_state \<Rightarrow> bool \<times> exec_state" where
  "take_approval c st =
     (case es_approved st of
        None \<Rightarrow> (False, st)
      | Some approved \<Rightarrow>
          (approved (cl_id c) = Some (call_key c),
           st\<lparr>es_approved := Some (approved(cl_id c := None))\<rparr>))"

definition settle_need ::
  "tool_call \<Rightarrow> approval_need \<Rightarrow> exec_state \<Rightarrow> string option \<times> exec_state" where
  "settle_need c need st =
     (case need of
        Deny why \<Rightarrow> (Some why, st)
      | Require _ \<Rightarrow>
          (let (allowed, st) = take_approval c st
           in (if allowed then None
               else Some (''the tool '' @ quoted (cl_name c) @ '' requires approval for this call''), st))
      | AutoApprove \<Rightarrow> (None, snd (take_approval c st)))"

text \<open>The call itself under its timeout, its result clamped.\<close>

definition launch ::
  "'w host \<Rightarrow> 'w executor \<Rightarrow> tool_definition \<Rightarrow> tool_call \<Rightarrow> json \<Rightarrow> 'w
    \<Rightarrow> tool_progress list \<times> tool_outcome \<times> 'w" where
  "launch h ex t c args w =
     (let per_call = per_call_timeout ex (cl_name c);
          ((progress, ending), w) = ho_call h t args per_call w;
          outcome = (case ending of
             Returned o1 \<Rightarrow> o1
           | TimedOut \<Rightarrow> outcome_error (''the tool '' @ quoted (cl_name c) @ '' timed out after ''
                           @ ho_duration h per_call)
           | CutOff \<Rightarrow> outcome_error (''the tool '' @ quoted (cl_name c) @ '' was cancelled''))
      in (progress, outcome\<lparr>oc_content := clamp (oc_content outcome) (xe_max_output_bytes ex)\<rparr>, w))"

text \<open>
  \<open>prepare\<close> is \<open>execute\<close> up to the launch: an error for the model, or the tool and its arguments.
\<close>

definition prepare ::
  "'w host \<Rightarrow> 'w executor \<Rightarrow> tool_call \<Rightarrow> exec_state \<Rightarrow> 'w
    \<Rightarrow> (string + tool_definition \<times> json) \<times> exec_state \<times> 'w" where
  "prepare h ex c st w =
     (case bt_get (xe_registry ex) (cl_name c) of
        None \<Rightarrow> (Inl (''the tool '' @ quoted (cl_name c) @ '' is not available''), st, w)
      | Some t \<Rightarrow>
          (let (refused, w) = unauthorized ex w in
           case refused of Some why \<Rightarrow> (Inl why, st, w) | None \<Rightarrow>
          (let (refuses, w) = guard_refuses ex (cl_name c) w in
           if refuses then (Inl (not_permitted_message (cl_name c)), st, w) else
           case parse_arguments h (cl_arguments c) of Inl why \<Rightarrow> (Inl why, st, w) | Inr args \<Rightarrow>
           case validate (ho_render h) (td_parameters t) args of
             Inl errors \<Rightarrow> (Inl (invalid_arguments_message (cl_name c) errors), st, w)
           | Inr _ \<Rightarrow>
           case blocked_terminal_call h c of Some why \<Rightarrow> (Inl why, st, w) | None \<Rightarrow>
          (let (rq, w) = request_for h ex c (td_risk t) (td_scopes t) w;
               (need, w) = call_need h c rq st w;
               (refused, st) = settle_need c need st
           in (case refused of Some why \<Rightarrow> Inl why | None \<Rightarrow> Inr (t, args), st, w)))))"

definition execute ::
  "'w host \<Rightarrow> 'w executor \<Rightarrow> tool_call \<Rightarrow> exec_state \<Rightarrow> 'w
    \<Rightarrow> (tool_progress list \<times> tool_outcome) \<times> exec_state \<times> 'w" where
  "execute h ex c st w =
     (let (prepared, st, w) = prepare h ex c st w
      in case prepared of
          Inl why \<Rightarrow> (([], outcome_error why), st, w)
        | Inr (t, args) \<Rightarrow>
            (let (progress, outcome, w) = launch h ex t c args w in ((progress, outcome), st, w)))"

definition remembered_record :: "approval_request \<Rightarrow> bool" where
  "remembered_record rq \<longleftrightarrow>
     \<not> (rq_risk rq \<in> {Mutating, Executable, Privileged} \<or>
        list_ex (\<lambda>s. s \<in> {''fs:write'', ''terminal:exec''}) (rq_scopes rq))"

text \<open>
  A granted decision, when the request it names is the one raised for exactly this call: the call
  is approved once, and the policy of the session remembers what the decision asks to remember.
\<close>

definition exec_remember ::
  "'w host \<Rightarrow> approval_decision \<Rightarrow> tool_call \<Rightarrow> exec_state \<Rightarrow> 'w \<Rightarrow> exec_state \<times> 'w" where
  "exec_remember h dec c st w =
     (if \<not> granted dec then (st, w) else
      case es_pending st of None \<Rightarrow> (st, w) | Some pending \<Rightarrow>
        (let st = st\<lparr>es_pending := Some (pending(cl_id c := None))\<rparr> in
         case pending (cl_id c) of None \<Rightarrow> (st, w) | Some (rq, key) \<Rightarrow>
           if \<not> (rq_id rq = dec_id dec \<and> rq_tool rq = cl_name c \<and> key = call_key c) then (st, w) else
           case es_approved st of None \<Rightarrow> (st, w) | Some approved \<Rightarrow>
             (let st = st\<lparr>es_approved := Some (approved(cl_id c \<mapsto> call_key c))\<rparr> in
              if unrestricted dec then (unrestrict_session st, w) else
              case remember_for dec of None \<Rightarrow> (st, w) | Some ttl \<Rightarrow>
                if \<not> remembered_record rq then (st, w)
                else (let (now, w) = ho_now h w
                      in (st\<lparr>es_policy := map_option (\<lambda>p. remember p (record_from_request rq now (Some ttl)))
                              (es_policy st)\<rparr>, w)))))"

definition exec_schemas :: "'w executor \<Rightarrow> json tool_schema list" where
  "exec_schemas ex = registry_schemas (xe_registry ex)"

end
