(* ===== verification/RunWorld.thy ===== *)
theory RunWorld
  imports AgentLoop
begin

text \<open>
  What a run does to the world around it. The loop touches the world only through the operations of
  its environment; a predicate that each of them keeps is kept by a whole session. The predicate is
  indexed by a number that only a granted decision of the caller may raise, so that a bound can
  count the decisions.
\<close>

text \<open>The granted decisions among the answers of a caller.\<close>

definition grants_in :: "caller_move list \<Rightarrow> nat" where
  "grants_in moves = length (filter (\<lambda>m. case m of Decide dec \<Rightarrow> granted dec | _ \<Rightarrow> False) moves)"

section \<open>The contract of the operations\<close>

locale world_invariant =
  fixes env :: "('json, 'w) loop_env"
    and inv :: "nat \<Rightarrow> 'w \<Rightarrow> bool"
  assumes weaken: "inv k w \<Longrightarrow> inv (Suc k) w"
    and now: "le_now env w = (n, w') \<Longrightarrow> inv k w \<Longrightarrow> inv k w'"
    and cancelled: "le_cancelled env w = (b, w') \<Longrightarrow> inv k w \<Longrightarrow> inv k w'"
    and stream: "le_stream env rq w = (x, w') \<Longrightarrow> inv k w \<Longrightarrow> inv k w'"
    and approval: "le_approval env c w = (need, w') \<Longrightarrow> inv k w \<Longrightarrow> inv k w'"
    and remember: "granted dec \<Longrightarrow> inv k w \<Longrightarrow> inv (Suc k) (le_remember env dec c w)"
    and invoke: "le_invoke env c w = (progress, outcome, w') \<Longrightarrow> inv k w \<Longrightarrow> inv k w'"
    and lock: "le_lock env p w = (st, w') \<Longrightarrow> inv k w \<Longrightarrow> inv k w'"
    and unlock: "inv k w \<Longrightarrow> inv k (le_unlock env p st w)"
begin

lemma io_now: "io_now env s = (n, s') \<Longrightarrow> inv k (io_world s) \<Longrightarrow> inv k (io_world s')"
  by (auto simp: io_now_def split: prod.splits intro: now)

lemma io_cancelled: "io_cancelled env s = (b, s') \<Longrightarrow> inv k (io_world s) \<Longrightarrow> inv k (io_world s')"
  by (auto simp: io_cancelled_def split: prod.splits intro: cancelled)

lemma io_stream: "io_stream env rq s = (x, s') \<Longrightarrow> inv k (io_world s) \<Longrightarrow> inv k (io_world s')"
  by (auto simp: io_stream_def split: prod.splits intro: stream)

lemma io_approval: "io_approval env c s = (need, s') \<Longrightarrow> inv k (io_world s) \<Longrightarrow> inv k (io_world s')"
  by (auto simp: io_approval_def split: prod.splits intro: approval)

lemma io_invoke: "io_invoke env c s = (p, o1, s') \<Longrightarrow> inv k (io_world s) \<Longrightarrow> inv k (io_world s')"
  by (auto simp: io_invoke_def split: prod.splits intro: invoke)

lemma io_pool: "io_pool env h f s = (r, s') \<Longrightarrow> inv k (io_world s) \<Longrightarrow> inv k (io_world s')"
  by (auto simp: io_pool_def split: prod.splits intro!: unlock elim: lock)

lemma io_pool_read: "io_pool_read env h f s = (r, s') \<Longrightarrow> inv k (io_world s) \<Longrightarrow> inv k (io_world s')"
  unfolding io_pool_read_def by (rule io_pool)

section \<open>The stages of a turn\<close>

lemma settle: "inv k (io_world s) \<Longrightarrow> inv k (io_world (settle env b rv used s))"
  by (simp add: settle_def split: option.split)
    (metis io_pool prod.collapse)

lemma check_wall_clock:
  "check_wall_clock env cfg d s = (r, d', s') \<Longrightarrow> inv k (io_world s) \<Longrightarrow> inv k (io_world s')"
  by (auto simp: check_wall_clock_def Let_def dest: io_now
      split: option.splits prod.splits if_splits wall_clock_policy.splits)

lemma check_output: "check_output env b d s = (d', s') \<Longrightarrow> inv k (io_world s) \<Longrightarrow> inv k (io_world s')"
  by (auto simp: check_output_def dest: io_pool_read split: option.splits prod.splits)

lemma turn_ask: "turn_ask env b pool d s = (x, s') \<Longrightarrow> inv k (io_world s) \<Longrightarrow> inv k (io_world s')"
  by (auto simp: turn_ask_def dest: io_pool_read split: option.splits prod.splits)

lemma reserve_turn:
  "reserve_turn env b d s = (r, d', s') \<Longrightarrow> inv k (io_world s) \<Longrightarrow> inv k (io_world s')"
  by (auto simp: reserve_turn_def Let_def split: option.splits prod.splits)
    (erule io_pool turn_ask; assumption?)+

lemma may_continue:
  "may_continue env b d t asked s = (r, s') \<Longrightarrow> inv k (io_world s) \<Longrightarrow> inv k (io_world s')"
  by (auto simp: may_continue_def dest: io_now io_cancelled io_pool_read
      split: option.splits prod.splits if_splits)

lemma pool_report: "pool_report env b x f s = (r, s') \<Longrightarrow> inv k (io_world s) \<Longrightarrow> inv k (io_world s')"
  by (auto simp: pool_report_def dest: io_pool_read split: option.splits prod.splits)

lemma report:
  "report env b d reason u p basis n s = (r, s') \<Longrightarrow> inv k (io_world s) \<Longrightarrow> inv k (io_world s')"
  by (auto simp: report_def Let_def split: prod.splits) (erule pool_report)+

lemma conclude_turn:
  "conclude_turn env b reason continued t calls d s = (r, d', s') \<Longrightarrow> inv k (io_world s)
    \<Longrightarrow> inv k (io_world s')"
  by (auto simp: conclude_turn_def dest: may_continue
      split: finish_reason.splits prod.splits if_splits)

lemma finish_turn:
  "finish_turn env b rv planned measured_from st s = (r, d', s') \<Longrightarrow> inv k (io_world s)
    \<Longrightarrow> inv k (io_world s')"
  by (auto simp: finish_turn_def Let_def dest!: conclude_turn report intro: settle
      split: option.splits prod.splits if_splits)

lemma send_turn: "send_turn env b rv d s = (r, d', s') \<Longrightarrow> inv k (io_world s) \<Longrightarrow> inv k (io_world s')"
  by (auto simp: send_turn_def Let_def dest!: io_stream finish_turn intro: settle
      split: sum.splits option.splits prod.splits)

lemma take_turn: "take_turn env cfg d s = (r, d', s') \<Longrightarrow> inv k (io_world s) \<Longrightarrow> inv k (io_world s')"
  by (auto simp: take_turn_def Let_def dest!: check_wall_clock check_output reserve_turn send_turn
      split: sum.splits option.splits prod.splits)

lemma turn_or_batch:
  "turn_or_batch env cfg d s = (r, d', s') \<Longrightarrow> inv k (io_world s) \<Longrightarrow> inv k (io_world s')"
  by (auto simp: turn_or_batch_def dest: take_turn split: if_splits)

section \<open>Batches\<close>

lemma run_call: "run_call env b c d s = (d', s') \<Longrightarrow> inv k (io_world s) \<Longrightarrow> inv k (io_world s')"
  by (auto simp: run_call_def Let_def dest: io_invoke split: prod.splits)

lemma batch_step:
  "batch_step env cfg index c d s = (r, d', s') \<Longrightarrow> inv k (io_world s) \<Longrightarrow> inv k (io_world s')"
  by (auto simp: batch_step_def Let_def dest: io_approval run_call
      split: prod.splits if_splits approval_need.splits)

lemma process_batch:
  assumes "process_batch env cfg d s = (r, d', s')" and "inv k (io_world s)"
  shows "inv k (io_world s')"
  using assms(2,1)
  by (rule process_batch_rule [where P = "\<lambda>d s. inv k (io_world s)" and Q = "\<lambda>r d s. inv k (io_world s)"])
    (auto dest: batch_step)

section \<open>Whole runs\<close>

lemma drive: "drive env cfg d s = (r, s') \<Longrightarrow> inv k (io_world s) \<Longrightarrow> inv k (io_world s')"
proof (induction "turns_left d" arbitrary: d s rule: less_induct)
  case less
  obtain x d1 s1 where tb: "turn_or_batch env cfg d s = (x, d1, s1)"
    by (cases "turn_or_batch env cfg d s")
  note T = turn_or_batch [OF tb less.prems(2)]
  note D = less.prems(1) [unfolded drive.simps [of env cfg d s] tb prod.case]
  consider (left) "s' = s1" | (continued) "x = Inr TurnContinue" | (batch) "x = Inr TurnBatch"
    using D by (auto split: sum.splits turn_result.splits)
  then show ?case
  proof cases
    case left
    with T show ?thesis by simp
  next
    case continued
    then show ?thesis
      using less.hyps [of d1 s1] turn_or_batch_left(1) [of env cfg d s _ d1 s1] tb D T by simp
  next
    case batch
    obtain z d2 s2 where pb: "process_batch env cfg d1 s1 = (z, d2, s2)"
      by (cases "process_batch env cfg d1 s1")
    note B = process_batch [OF pb T] and F = process_batch_frame [OF pb]
    note D' = D [unfolded batch sum.case turn_result.case pb prod.case]
    show ?thesis
    proof (cases "z = BatchDone \<and> \<not> dr_turn d2 \<ge> rl_max_turns (dr_limits d2)")
      case True
      then have "turns_left (d2\<lparr>dr_pending := None\<rparr>) < turns_left d"
        using turn_or_batch_left(2) [of env cfg d s _ d1 s1] tb batch F by (auto simp: turns_left_def)
      then show ?thesis using less.hyps [of "d2\<lparr>dr_pending := None\<rparr>" s2] D' True B by (simp add: Let_def)
    next
      case False
      then have "s' = s2" using D' by (auto simp: Let_def split: batch_result.splits if_splits)
      with B show ?thesis by simp
    qed
  qed
qed

lemma run_with_history:
  "run_with_history env cfg run history user_input streaming s = (r, s') \<Longrightarrow> inv k (io_world s)
    \<Longrightarrow> inv k (io_world s')"
  by (auto simp: run_with_history_def new_driver_def Let_def dest: io_now drive split: prod.splits)

lemma apply_decision:
  "apply_decision env cfg dec d s = (d', s') \<Longrightarrow> inv k (io_world s)
    \<Longrightarrow> inv (if granted dec then Suc k else k) (io_world s')"
  by (auto simp: apply_decision_def Let_def io_remember_def weaken remember dest!: run_call
      split: option.splits prod.splits if_splits)

lemma resume:
  "resume env cfg sus dec s = (r, s') \<Longrightarrow> inv k (io_world s)
    \<Longrightarrow> inv (if granted dec then Suc k else k) (io_world s')"
  by (auto simp: resume_def weaken dest: apply_decision drive split: prod.splits if_splits)

lemma continue_out_of_time:
  "continue_out_of_time env cfg sus how s = (r, s') \<Longrightarrow> inv k (io_world s) \<Longrightarrow> inv k (io_world s')"
  by (auto simp: continue_out_of_time_def Let_def dest: io_now drive split: prod.splits continuation.splits)

lemma weaken_add: "inv k w \<Longrightarrow> inv (k + n) w"
  by (induction n) (simp_all add: weaken)

lemma session_moves:
  "session_moves env cfg moves (x, s) = (r, s') \<Longrightarrow> inv k (io_world s)
    \<Longrightarrow> inv (k + grants_in moves) (io_world s')"
proof (induction moves arbitrary: x s k)
  case Nil
  then show ?case by (simp add: grants_in_def)
next
  case (Cons m moves)
  let ?sus = "case x of Inl _ \<Rightarrow> None | Inr outcome \<Rightarrow> outcome_suspended outcome"
  show ?case
  proof (cases ?sus)
    case None
    then show ?thesis using Cons.prems weaken_add by simp
  next
    case (Some sus)
    obtain x1 s1 where next_step: "(case m of Decide dec \<Rightarrow> resume env cfg sus dec s
        | Prolong how \<Rightarrow> continue_out_of_time env cfg sus how s) = (x1, s1)" (is "?step = _")
      by (cases ?step)
    then have "inv (k + (case m of Decide dec \<Rightarrow> if granted dec then 1 else 0 | _ \<Rightarrow> 0)) (io_world s1)"
      using Cons.prems(2) by (auto dest: resume continue_out_of_time split: caller_move.splits)
    then have "inv (k + (case m of Decide dec \<Rightarrow> if granted dec then 1 else 0 | _ \<Rightarrow> 0) + grants_in moves)
        (io_world s')"
      using Cons.IH Cons.prems(1) Some next_step by simp
    then show ?thesis by (cases m) (simp_all add: grants_in_def split: if_splits)
  qed
qed

lemma session:
  assumes "session env cfg run history user_input streaming moves w = (r, s)" and "inv 0 w"
  shows "inv (grants_in moves) (io_world s)"
proof -
  obtain x s0 where start: "run_with_history env cfg run history user_input streaming (io_start w) = (x, s0)"
    by (cases "run_with_history env cfg run history user_input streaming (io_start w)")
  have "inv 0 (io_world s0)" using run_with_history [OF start] assms(2) by (simp add: io_start_def)
  from session_moves [OF assms(1) [unfolded session_def start] this] show ?thesis by simp
qed

end

end
