(* ===== verification/AgentLoopProperties.thy ===== *)
theory AgentLoopProperties
  imports AgentLoop
begin

text \<open>
  What holds of every session of the agent loop, whatever its surroundings answer: its turns and
  tool calls stay within the limits, the conversation sent to the provider is well formed, a
  tool-less turn ends the work with tools, and nothing runs that was not approved. The invariant
  \<open>loop_inv\<close> is kept by a turn, by a step of a batch and by a caller's move; the loop rule of a run
  and the session rule lift it.
\<close>

section \<open>Reading the conversation and the trace\<close>

text \<open>
  The calls still owed a result after a list of messages: a tool result must answer the first of
  them, and nothing else may come before the last is answered.
\<close>

fun owed :: "string list \<Rightarrow> provider_message list \<Rightarrow> string list option" where
  "owed ids [] = Some ids"
| "owed [] (m # ms) = (if pm_role m = Tool then None else owed (map tc_id (pm_tool_calls m)) ms)"
| "owed (i # ids) (m # ms) =
     (if pm_role m = Tool \<and> pm_tool_call_id m = Some i \<and> pm_tool_calls m = [] then owed ids ms else None)"

fun is_streamed :: "'json io_event \<Rightarrow> bool" where
  "is_streamed (Streamed _) = True"
| "is_streamed _ = False"

fun is_invoked :: "'json io_event \<Rightarrow> bool" where
  "is_invoked (Invoked _) = True"
| "is_invoked _ = False"

definition turns_of :: "'json io_event list \<Rightarrow> nat" where
  "turns_of t = length (filter is_streamed t)"

definition runs_of :: "'json io_event list \<Rightarrow> nat" where
  "runs_of t = length (filter is_invoked t)"

fun well_formed_event :: "'json io_event \<Rightarrow> bool" where
  "well_formed_event (Streamed rq) = (owed [] (pq_messages rq) = Some [])"
| "well_formed_event _ = True"

fun toolless :: "'json io_event \<Rightarrow> bool" where
  "toolless (Streamed rq) = (pq_tools rq = [])"
| "toolless _ = False"

text \<open>After the first request without tools only such requests follow.\<close>

fun closed_after :: "'json io_event list \<Rightarrow> bool" where
  "closed_after [] = True"
| "closed_after (e # es) = (if toolless e then list_all toolless es else closed_after es)"

text \<open>
  The permission to run a call: an automatic approval of that call, or a granted decision on the
  very request the invoker raised for it, given at once before the call and used once.
\<close>

fun permit_next ::
  "(tool_call \<times> approval_need) option \<Rightarrow> 'json io_event \<Rightarrow> (tool_call \<times> approval_need) option option" where
  "permit_next st (Streamed _) = Some None"
| "permit_next st (Asked c need) = Some (Some (c, need))"
| "permit_next st (Remembered dec c) =
     (case st of
        Some (c', Require rq) \<Rightarrow>
          if c' = c \<and> granted dec \<and> dec_id dec = rq_id rq then Some (Some (c, AutoApprove)) else None
      | _ \<Rightarrow> None)"
| "permit_next st (Invoked c) = (if st = Some (c, AutoApprove) then Some None else None)"

fun permit_run ::
  "(tool_call \<times> approval_need) option \<Rightarrow> 'json io_event list \<Rightarrow> (tool_call \<times> approval_need) option option" where
  "permit_run st [] = Some st"
| "permit_run st (e # es) = (case permit_next st e of None \<Rightarrow> None | Some st' \<Rightarrow> permit_run st' es)"

lemma owed_append:
  "owed ids (ms @ ms') = (case owed ids ms of None \<Rightarrow> None | Some rest \<Rightarrow> owed rest ms')"
  by (induction ids ms rule: owed.induct) auto

lemma owed_last_content:
  "ms \<noteq> [] \<Longrightarrow> owed ids (butlast ms @ [(last ms)\<lparr>pm_content := c\<rparr>]) = owed ids ms"
proof -
  assume "ms \<noteq> []"
  then have ms: "owed ids ms = owed ids (butlast ms @ [last ms])" by simp
  have "owed rest [m\<lparr>pm_content := c\<rparr>] = owed rest [m]" for rest m by (cases rest) simp_all
  then show ?thesis unfolding ms by (simp only: owed_append)
qed

lemma turns_of_simps [simp]:
  "turns_of [] = 0" "turns_of (t @ [e]) = turns_of t + (if is_streamed e then 1 else 0)"
  by (simp_all add: turns_of_def)

lemma runs_of_simps [simp]:
  "runs_of [] = 0" "runs_of (t @ [e]) = runs_of t + (if is_invoked e then 1 else 0)"
  by (simp_all add: runs_of_def)

lemma closed_after_snoc:
  "closed_after (t @ [e]) \<longleftrightarrow> closed_after t \<and> (list_ex toolless t \<longrightarrow> toolless e)"
  by (induction t) auto

lemma permit_run_snoc:
  "permit_run st (t @ [e]) = (case permit_run st t of None \<Rightarrow> None | Some st' \<Rightarrow> permit_next st' e)"
  by (induction t arbitrary: st) (auto split: option.splits)

section \<open>The trace of each step\<close>

lemma io_trace_frame:
  "io_now env s = (n, s') \<Longrightarrow> io_trace s' = io_trace s"
  "io_cancelled env s = (b, s') \<Longrightarrow> io_trace s' = io_trace s"
  "io_pool env h f s = (r, s') \<Longrightarrow> io_trace s' = io_trace s"
  "io_pool_read env h g s = (q, s') \<Longrightarrow> io_trace s' = io_trace s"
  by (auto simp: io_now_def io_cancelled_def io_pool_def io_pool_read_def split: prod.splits)

lemma io_trace_step:
  "io_stream env rq s = (x, s') \<Longrightarrow> io_trace s' = io_trace s @ [Streamed rq]"
  "io_approval env c s = (need, s') \<Longrightarrow> io_trace s' = io_trace s @ [Asked c need]"
  "io_invoke env c s = (p, q, s') \<Longrightarrow> io_trace s' = io_trace s @ [Invoked c]"
  "io_trace (io_remember env dec c s) = io_trace s @ [Remembered dec c]"
  by (auto simp: io_stream_def io_approval_def io_invoke_def io_remember_def split: prod.splits)

lemma settle_trace [simp]: "io_trace (settle env b rv used s) = io_trace s"
  by (simp add: settle_def io_pool_def split: option.splits prod.splits)

lemma check_wall_clock_trace: "check_wall_clock env cfg d s = (r, d', s') \<Longrightarrow> io_trace s' = io_trace s"
  by (auto simp: check_wall_clock_def Let_def dest!: io_trace_frame
      split: option.splits prod.splits if_splits wall_clock_policy.splits)

lemma check_output_trace: "check_output env b d s = (d', s') \<Longrightarrow> io_trace s' = io_trace s"
  by (auto simp: check_output_def dest!: io_trace_frame split: option.splits prod.splits if_splits)

lemma reserve_turn_trace: "reserve_turn env b d s = (r, d', s') \<Longrightarrow> io_trace s' = io_trace s"
  by (auto simp: reserve_turn_def turn_ask_def Let_def dest!: io_trace_frame
      split: option.splits prod.splits if_splits)

lemma may_continue_trace: "may_continue env b d t asked s = (r, s') \<Longrightarrow> io_trace s' = io_trace s"
  by (auto simp: may_continue_def Let_def dest!: io_trace_frame
      split: option.splits prod.splits if_splits)

lemma pool_report_trace: "pool_report env b x f s = (r, s') \<Longrightarrow> io_trace s' = io_trace s"
  by (auto simp: pool_report_def dest: io_trace_frame split: option.splits)

lemma report_trace: "report env b d reason u p basis n s = (r, s') \<Longrightarrow> io_trace s' = io_trace s"
  by (auto simp: report_def Let_def dest!: pool_report_trace split: prod.splits)

lemma conclude_turn_trace:
  "conclude_turn env b reason continued t calls d s = (r, d', s') \<Longrightarrow> io_trace s' = io_trace s"
  by (auto simp: conclude_turn_def Let_def dest!: may_continue_trace
      split: finish_reason.splits prod.splits if_splits)

lemma finish_turn_trace:
  assumes "finish_turn env b rv planned n st s = (r, d', s')"
  shows "io_trace s' = io_trace s"
  using assms
  by (auto simp: finish_turn_def Let_def dest!: conclude_turn_trace report_trace
      split: prod.splits option.splits)

section \<open>The invariant\<close>

definition offers_tools :: "('json, 'w) loop_env \<Rightarrow> bool" where
  "offers_tools env \<longleftrightarrow> (\<forall>w. le_schemas env w \<noteq> [])"

definition conv_ok :: "driver \<Rightarrow> bool" where
  "conv_ok d \<longleftrightarrow> (case dr_pending d of
     None \<Rightarrow> owed [] (dr_messages d) = Some []
   | Some b \<Rightarrow> owed [] (dr_messages d) = Some (map cl_id (drop (ba_next b) (ba_calls b))))"

definition log_ok :: "agent_event list \<Rightarrow> bool" where
  "log_ok es \<longleftrightarrow> (\<exists>run parent rest. es = RunStarted run parent # rest \<and> unended rest)"

definition log_ended :: "agent_event list \<Rightarrow> bool" where
  "log_ended es \<longleftrightarrow> (\<exists>run parent rest reason. es = RunStarted run parent # rest @ [RunCompleted reason] \<and> unended rest)"

text \<open>What every trace shows, also when the run failed.\<close>

definition final_ok :: "('json, 'w) loop_env \<Rightarrow> run_config \<Rightarrow> 'json io_event list \<Rightarrow> bool" where
  "final_ok env cfg t \<longleftrightarrow> list_all well_formed_event t \<and>
     turns_of t \<le> max 1 (rl_max_turns (rc_limits cfg)) \<and> runs_of t \<le> rl_max_tool_calls (rc_limits cfg) \<and>
     (offers_tools env \<longrightarrow> closed_after t) \<and> permit_run None t \<noteq> None"

definition loop_inv :: "('json, 'w) loop_env \<Rightarrow> run_config \<Rightarrow> driver \<Rightarrow> 'json io_event list \<Rightarrow> bool" where
  "loop_inv env cfg d t \<longleftrightarrow> final_ok env cfg t \<and> conv_ok d \<and> log_ok (dr_events d) \<and>
     dr_limits d = rc_limits cfg \<and> turns_of t = dr_turn d \<and> runs_of t \<le> dr_tool_calls_made d \<and>
     (dr_pending d = None \<longrightarrow> dr_turn d = 0 \<or> dr_turn d < rl_max_turns (rc_limits cfg)) \<and>
     (offers_tools env \<and> list_ex toolless t \<longrightarrow> dr_pending d = None \<and> dr_continuing d \<noteq> None)"

definition suspended_ok :: "('json, 'w) loop_env \<Rightarrow> run_config \<Rightarrow> suspended \<Rightarrow> 'json io_event list \<Rightarrow> bool" where
  "suspended_ok env cfg sus t \<longleftrightarrow> loop_inv env cfg (su_driver sus) t \<and>
     (case su_approval sus of
        None \<Rightarrow> True
      | Some rq \<Rightarrow> \<exists>c. awaited_call (su_driver sus) = Some c \<and>
          permit_run None t = Some (Some (c, Require rq)) \<and>
          runs_of t < dr_tool_calls_made (su_driver sus) \<and>
          dr_tool_calls_made (su_driver sus) \<le> rl_max_tool_calls (rc_limits cfg))"

fun result_ok ::
  "('json, 'w) loop_env \<Rightarrow> run_config \<Rightarrow> agent_error + run_outcome \<Rightarrow> 'json io_event list \<Rightarrow> bool" where
  "result_ok env cfg (Inl e) t = final_ok env cfg t"
| "result_ok env cfg (Inr (Completed es)) t = (final_ok env cfg t \<and> log_ended es)"
| "result_ok env cfg (Inr (AwaitingApproval es rq sus)) t =
     (suspended_ok env cfg sus t \<and> es = dr_events (su_driver sus))"
| "result_ok env cfg (Inr (OutOfTime es elapsed sus)) t =
     (suspended_ok env cfg sus t \<and> es = dr_events (su_driver sus))"

lemma log_ok_append: "unended es' \<Longrightarrow> log_ok es \<Longrightarrow> log_ok (es @ es')"
  by (auto simp: log_ok_def)

lemma log_ok_snoc [intro]: "log_ok es \<Longrightarrow> (\<And>r. e \<noteq> RunCompleted r) \<Longrightarrow> log_ok (es @ [e])"
  by (auto intro: log_ok_append)

lemma log_ended_snoc [intro]: "log_ok es \<Longrightarrow> log_ended (es @ [RunCompleted reason])"
  by (auto simp: log_ok_def log_ended_def)

lemma log_grows_ok: "log_grows d d' \<Longrightarrow> log_ok (dr_events d) \<Longrightarrow> log_ok (dr_events d')"
  by (auto simp: log_grows_def log_ok_append)

section \<open>A step of a batch\<close>

lemma fit_to_context_log: "fit_to_context env b content d s = (x, d') \<Longrightarrow> dr_events d' = dr_events d"
  by (auto simp: fit_to_context_def Let_def split: if_splits option.splits)

lemma fold_emit_log:
  "(\<And>x r. f x \<noteq> RunCompleted r) \<Longrightarrow> log_grows d d' \<Longrightarrow> log_grows d (fold (\<lambda>x. emit (f x)) xs d')"
  by (induction xs arbitrary: d') (simp_all add: log_grows_emit)

lemma answer_call_log: "log_grows d d' \<Longrightarrow> log_grows d (answer_call c content outcome d')"
  unfolding answer_call_def push_message_def
  by (intro log_grows_emit) (simp_all add: log_grows_def)

lemma refuse_call_log: "log_grows d d' \<Longrightarrow> log_grows d (refuse_call c why d')"
  by (simp add: refuse_call_def answer_call_log)

lemma run_call_io:
  assumes "run_call env b c d s = (d', s')"
  shows "io_trace s' = io_trace s @ [Invoked c] \<and> log_grows d d'"
proof -
  let ?d0 = "emit (ToolCallStarted (cl_id c) (cl_name c)) d"
  obtain progress outcome s1 where inv: "io_invoke env c s = (progress, outcome, s1)"
    by (cases "io_invoke env c s") auto
  let ?d1 = "fold (\<lambda>p. emit (ToolProgress (cl_id c) p)) (take max_progress_per_call progress) ?d0"
  obtain content d2 where fit: "fit_to_context env b (oc_content outcome) ?d1 s1 = (content, d2)"
    by (cases "fit_to_context env b (oc_content outcome) ?d1 s1") auto
  have d': "d' = answer_call c content outcome d2" "s' = s1"
    using assms inv fit by (simp_all add: run_call_def Let_def)
  have "log_grows d ?d1" by (intro fold_emit_log log_grows_emit) simp_all
  then have "log_grows d d2" using fit_to_context_log [OF fit] by (rule log_grows_eq_trans)
  then show ?thesis using d' io_trace_step(3) [OF inv] by (simp add: answer_call_log)
qed

lemma refuse_rest_log: "log_grows d d' \<Longrightarrow> log_grows d (refuse_rest announced cs d')"
  by (induction announced cs d' rule: refuse_rest.induct)
    (simp_all add: refuse_call_log log_grows_emit)

lemma refuse_rest_owed:
  "owed [] (dr_messages d) = Some (map cl_id cs) \<Longrightarrow> owed [] (dr_messages (refuse_rest announced cs d)) = Some []"
  by (induction announced cs d rule: refuse_rest.induct)
    (simp_all add: refuse_call_def answer_call_def push_message_def owed_append tool_result_def)

lemma out_of_tool_calls_ok:
  assumes "out_of_tool_calls index d = (r, d')" and "dr_pending d = Some b" and "index = ba_next b"
    and "conv_ok d" and "log_ok (dr_events d)"
  shows "case r of
      BatchDone \<Rightarrow> conv_ok d' \<and> log_ok (dr_events d') \<and> dr_turn d < rl_max_turns (dr_limits d) \<and>
        (\<exists>b'. dr_pending d' = Some b' \<and> ba_next b' = length (ba_calls b'))
    | BatchCompleted \<Rightarrow> log_ended (dr_events d')
    | BatchSuspended rq \<Rightarrow> False"
proof -
  let ?d = "refuse_rest True (drop index (ba_calls b)) d"
  have "owed [] (dr_messages ?d) = Some []"
    using assms(2-4) by (intro refuse_rest_owed) (simp add: conv_ok_def)
  moreover have "log_ok (dr_events ?d)"
    using log_grows_ok [OF refuse_rest_log [OF log_grows_refl]] assms(5) .
  ultimately show ?thesis
    using assms(1,2) by (auto simp: out_of_tool_calls_def Let_def conv_ok_def split: if_splits)
qed

lemma awaited_next: "awaited_call d = map_option snd (next_call d)"
  by (simp add: awaited_call_def next_call_def split: option.splits)

lemma owed_answer:
  "owed [] ms = Some (i # rest) \<Longrightarrow> owed [] (ms @ [tool_result i content]) = Some rest"
  by (simp add: owed_append tool_result_def)

lemma conv_ok_answer:
  assumes "conv_ok d" and "next_call d = Some (index, c)"
    and "dr_messages d' = dr_messages d @ [tool_result (cl_id c) content]"
    and "dr_pending d' = map_option (\<lambda>b. b\<lparr>ba_next := index + 1\<rparr>) (dr_pending d)"
  shows "conv_ok d'"
proof -
  obtain b where b: "dr_pending d = Some b" "index = ba_next b" "index < length (ba_calls b)"
    "c = ba_calls b ! index" using assms(2) by (auto simp: next_call_Some)
  then have "owed [] (dr_messages d) = Some (cl_id c # map cl_id (drop (Suc index) (ba_calls b)))"
    using assms(1) by (simp add: conv_ok_def Cons_nth_drop_Suc [symmetric])
  from owed_answer [OF this, of content] show ?thesis using assms(3,4) b by (simp add: conv_ok_def)
qed

lemma final_okD:
  assumes "final_ok env cfg t"
  shows "list_all well_formed_event t" "turns_of t \<le> max 1 (rl_max_turns (rc_limits cfg))"
    "runs_of t \<le> rl_max_tool_calls (rc_limits cfg)" "offers_tools env \<Longrightarrow> closed_after t"
    "\<exists>st. permit_run None t = Some st"
  using assms by (auto simp: final_ok_def)

text \<open>In a batch no tool-less request was sent, so asking and running keep the trace in order.\<close>

lemma final_ok_ask:
  assumes "final_ok env cfg t" and "offers_tools env \<Longrightarrow> \<not> list_ex toolless t"
  shows "final_ok env cfg (t @ [Asked c need])" "permit_run None (t @ [Asked c need]) = Some (Some (c, need))"
  using assms by (auto simp: final_ok_def closed_after_snoc permit_run_snoc)

lemma final_ok_remember:
  assumes "final_ok env cfg t" and "offers_tools env \<Longrightarrow> \<not> list_ex toolless t"
    and "permit_run None t = Some (Some (c, Require rq))" and "granted dec" and "dec_id dec = rq_id rq"
  shows "final_ok env cfg (t @ [Remembered dec c])"
    "permit_run None (t @ [Remembered dec c]) = Some (Some (c, AutoApprove))"
  using assms by (auto simp: final_ok_def closed_after_snoc permit_run_snoc)

lemma final_ok_invoke:
  assumes "final_ok env cfg t" and "offers_tools env \<Longrightarrow> \<not> list_ex toolless t"
    and "permit_run None t = Some (Some (c, AutoApprove))" and "runs_of t < rl_max_tool_calls (rc_limits cfg)"
  shows "final_ok env cfg (t @ [Invoked c])"
  using assms by (auto simp: final_ok_def closed_after_snoc permit_run_snoc)

lemma loop_invD:
  assumes "loop_inv env cfg d t"
  shows "final_ok env cfg t" "conv_ok d" "log_ok (dr_events d)" "dr_limits d = rc_limits cfg"
    "turns_of t = dr_turn d" "runs_of t \<le> dr_tool_calls_made d"
    "dr_pending d = None \<Longrightarrow> dr_turn d = 0 \<or> dr_turn d < rl_max_turns (rc_limits cfg)"
    "dr_pending d \<noteq> None \<Longrightarrow> offers_tools env \<Longrightarrow> \<not> list_ex toolless t"
    "offers_tools env \<Longrightarrow> list_ex toolless t \<Longrightarrow> dr_continuing d \<noteq> None"
  using assms by (auto simp: loop_inv_def)

lemma conv_ok_cong: "conv_ok d \<Longrightarrow> dr_pending d' = dr_pending d \<Longrightarrow> dr_messages d' = dr_messages d \<Longrightarrow> conv_ok d'"
  by (simp add: conv_ok_def split: option.splits)

lemma loop_inv_answered:
  assumes inv: "loop_inv env cfg d t" and nc: "next_call d = Some (index, c)"
    and fin: "final_ok env cfg (t @ t')" and toolless: "\<not> list_ex toolless t'" "turns_of (t @ t') = turns_of t"
    and runs: "runs_of (t @ t') \<le> dr_tool_calls_made d'"
    and d': "dr_limits d' = dr_limits d" "dr_turn d' = dr_turn d" "log_ok (dr_events d')"
      "dr_messages d' = dr_messages d @ [tool_result (cl_id c) content]"
      "dr_pending d' = map_option (\<lambda>b. b\<lparr>ba_next := index + 1\<rparr>) (dr_pending d)"
  shows "loop_inv env cfg d' (t @ t')"
proof -
  have p: "dr_pending d \<noteq> None" using nc by (auto simp: next_call_Some)
  then have "offers_tools env \<Longrightarrow> \<not> list_ex toolless (t @ t')"
    using loop_invD(8) [OF inv] toolless by auto
  then show ?thesis
    using fin toolless runs d' p conv_ok_answer [OF loop_invD(2) [OF inv] nc d'(4,5)] loop_invD(4,5) [OF inv]
    by (auto simp: loop_inv_def)
qed

lemma batch_step_inv:
  assumes inv: "loop_inv env cfg d (io_trace s)" and nc: "next_call d = Some (index, c)"
    and st: "batch_step env cfg index c d s = (r, d', s')"
  shows "case r of
      None \<Rightarrow> loop_inv env cfg d' (io_trace s')
    | Some BatchDone \<Rightarrow> loop_inv env cfg d' (io_trace s') \<and> dr_turn d' < rl_max_turns (dr_limits d') \<and>
        next_call d' = None
    | Some BatchCompleted \<Rightarrow> final_ok env cfg (io_trace s') \<and> log_ended (dr_events d')
    | Some (BatchSuspended rq) \<Rightarrow>
        suspended_ok env cfg \<lparr>su_driver = d', su_approval = Some rq\<rparr> (io_trace s')"
proof -
  let ?t = "io_trace s"
  note I = loop_invD [OF inv]
  have p: "dr_pending d \<noteq> None" using nc by (auto simp: next_call_Some)
  note quiet = I(8) [OF p]
  from st show ?thesis
  proof (cases rule: batch_step_cases)
    case (out r0)
    let ?d = "(emit (ToolCallRequested c) d)\<lparr>dr_tool_calls_made := dr_tool_calls_made d + 1\<rparr>"
    obtain b where b: "dr_pending d = Some b" "index = ba_next b" using nc by (auto simp: next_call_Some)
    have "conv_ok ?d" using I(2) b(1) by (simp add: conv_ok_def)
    moreover have "log_ok (dr_events ?d)" using I(3) by auto
    ultimately have ok: "case r0 of
        BatchDone \<Rightarrow> conv_ok d' \<and> log_ok (dr_events d') \<and> dr_turn ?d < rl_max_turns (dr_limits ?d) \<and>
          (\<exists>b'. dr_pending d' = Some b' \<and> ba_next b' = length (ba_calls b'))
      | BatchCompleted \<Rightarrow> log_ended (dr_events d')
      | BatchSuspended rq \<Rightarrow> False"
      using out_of_tool_calls_ok [OF out(4) _ b(2)] b(1) by simp
    show ?thesis
      using ok out(2,3) I quiet out_of_tool_calls_frame [OF out(4)]
      by (cases r0) (auto simp: loop_inv_def next_call_def)
  next
    case repeated
    have "log_ended (dr_events d')"
      using log_ended_snoc [OF log_ok_snoc [OF I(3)]] repeated(7) by simp
    then show ?thesis using repeated(1,2) I(1) by simp
  next
    case (auto_run d0 d1 s1)
    note tr = io_trace_step(2) [OF auto_run(3)]
    obtain trace: "io_trace s' = (?t @ [Asked c AutoApprove]) @ [Invoked c]" and grow: "log_grows d0 d1"
      using run_call_io [OF auto_run(4)] tr by simp
    have ans: "answered c d0 d1" using run_call_answered auto_run(4) .
    have asked: "final_ok env cfg (?t @ [Asked c AutoApprove])"
      and perm: "permit_run None (?t @ [Asked c AutoApprove]) = Some (Some (c, AutoApprove))"
      using final_ok_ask [OF I(1)] quiet by blast+
    have runs: "runs_of ?t < rl_max_tool_calls (rc_limits cfg)" using auto_run(2) I(4,6) by simp
    have fin: "final_ok env cfg ((?t @ [Asked c AutoApprove]) @ [Invoked c])"
      by (rule final_ok_invoke [OF asked _ perm]) (use quiet runs in auto)
    have log: "log_ok (dr_events d1)" using grow auto_run(13) I(3) by (auto intro!: log_grows_ok [OF grow])
    obtain content where msg: "dr_messages d1 = dr_messages d0 @ [tool_result (cl_id c) content]"
      using ans by (auto simp: answered_def)
    have "loop_inv env cfg d' (?t @ [Asked c AutoApprove, Invoked c])"
      using fin ans auto_run I(6) log msg
      by (intro loop_inv_answered [OF inv nc, where content = content])
        (auto simp: answered_def set_next_def turns_of_def runs_of_def)
    then show ?thesis using auto_run(1) trace by simp
  next
    case (denied d0 why)
    note tr = io_trace_step(2) [OF denied(3)]
    have ans: "answered c d0 (refuse_call c why d0)" by (rule refuse_call_answered)
    have log: "log_ok (dr_events (refuse_call c why d0))"
      by (rule log_grows_ok [OF refuse_call_log [OF log_grows_refl]])
        (simp add: denied(12) log_ok_append [OF _ I(3)])
    obtain content where msg: "dr_messages (refuse_call c why d0) = dr_messages d0 @ [tool_result (cl_id c) content]"
      using ans by (auto simp: answered_def)
    have fin: "final_ok env cfg (?t @ [Asked c (Deny why)])" using final_ok_ask [OF I(1)] quiet by blast
    have "loop_inv env cfg d' (?t @ [Asked c (Deny why)])"
      using fin ans denied I(6) log msg
      by (intro loop_inv_answered [OF inv nc, where content = content])
        (auto simp: answered_def set_next_def)
    then show ?thesis using denied(1) tr by simp
  next
    case (suspend rq)
    note tr = io_trace_step(2) [OF suspend(3)]
    have fin: "final_ok env cfg (?t @ [Asked c (Require rq)])"
      and perm: "permit_run None (?t @ [Asked c (Require rq)]) = Some (Some (c, Require rq))"
      using final_ok_ask [OF I(1)] quiet by blast+
    have log: "log_ok (dr_events d')" using suspend(11) log_ok_append [OF _ I(3)] by simp
    have "awaited_call d' = Some c"
      using nc suspend(6) by (simp add: awaited_next next_call_def)
    moreover have "conv_ok d'" using I(2) suspend(6,7) conv_ok_cong by blast
    ultimately show ?thesis
      using suspend tr fin perm log I quiet p by (auto simp: suspended_ok_def loop_inv_def)
  qed
qed

lemma process_batch_inv:
  assumes "loop_inv env cfg d (io_trace s)" and "dr_pending d \<noteq> None"
    and "process_batch env cfg d s = (r, d', s')"
  shows "case r of
      BatchDone \<Rightarrow> loop_inv env cfg d' (io_trace s') \<and> dr_pending d' \<noteq> None \<and> next_call d' = None
    | BatchCompleted \<Rightarrow> final_ok env cfg (io_trace s') \<and> log_ended (dr_events d')
    | BatchSuspended rq \<Rightarrow>
        suspended_ok env cfg \<lparr>su_driver = d', su_approval = Some rq\<rparr> (io_trace s')"
  using assms
proof -
  have pend: "dr_pending d' \<noteq> None \<or> r \<noteq> Some BatchDone" if "dr_pending d \<noteq> None"
    "batch_step env cfg index c d s = (r, d', s')" for d d' index c r s and s' :: "('a, 'b) io"
    using that(2) by (cases rule: batch_step_cases)
      (use that(1) in \<open>auto simp: out_of_tool_calls_def Let_def split: if_splits\<close>)
  show ?thesis
  proof (rule process_batch_rule [where P = "\<lambda>d s. loop_inv env cfg d (io_trace s) \<and> dr_pending d \<noteq> None", OF _ assms(3)])
    fix d s index c and r and d' and s' :: "('a, 'b) io"
    assume "loop_inv env cfg d (io_trace s) \<and> dr_pending d \<noteq> None" "next_call d = Some (index, c)"
      "batch_step env cfg index c d s = (Some r, d', s')"
    with batch_step_inv [of env cfg d s index c "Some r" d' s'] pend [of d index c s "Some r" d' s']
    show "case r of
      BatchDone \<Rightarrow> loop_inv env cfg d' (io_trace s') \<and> dr_pending d' \<noteq> None \<and> next_call d' = None
    | BatchCompleted \<Rightarrow> final_ok env cfg (io_trace s') \<and> log_ended (dr_events d')
    | BatchSuspended rq \<Rightarrow>
        suspended_ok env cfg \<lparr>su_driver = d', su_approval = Some rq\<rparr> (io_trace s')"
      by (cases r) auto
  next
    fix d s index c and d' and s' :: "('a, 'b) io"
    assume "loop_inv env cfg d (io_trace s) \<and> dr_pending d \<noteq> None" "next_call d = Some (index, c)"
      "batch_step env cfg index c d s = (None, d', s')"
    with batch_step_inv [of env cfg d s index c None d' s'] batch_step_next(3) [of env cfg index c d s d' s']
    show "loop_inv env cfg d' (io_trace s') \<and> dr_pending d' \<noteq> None" by auto
  qed (use assms in auto)
qed

section \<open>A turn\<close>

lemma check_wall_clock_log:
  assumes "check_wall_clock env cfg d s = (r, d', s')"
  shows "(r = None \<or> (\<exists>n. r = Some (TurnOutOfTime n)) \<longrightarrow> log_grows d d') \<and>
    (\<forall>out. r = Some (TurnFinished out) \<longrightarrow> (\<exists>reason. out = Completed (dr_events d @ [RunCompleted reason]))) \<and>
    r \<noteq> Some TurnBatch \<and> r \<noteq> Some TurnContinue"
  using assms
  by (auto simp: check_wall_clock_def Let_def log_grows_def dest!: end_run_result
      split: option.splits prod.splits if_splits wall_clock_policy.splits)

lemma check_turn_budget_log: "dr_events (check_turn_budget d) = dr_events d"
  by (simp add: check_turn_budget_def)

lemma check_context_log: "dr_events (check_context env b d s) = dr_events d"
  by (simp add: check_context_def)

lemma check_output_log: "check_output env b d s = (d', s') \<Longrightarrow> dr_events d' = dr_events d"
  by (auto simp: check_output_def split: option.splits prod.splits if_splits)

lemma reserve_turn_log: "reserve_turn env b d s = (r, d', s') \<Longrightarrow> dr_events d' = dr_events d"
  by (auto simp: reserve_turn_def Let_def split: option.splits prod.splits)

lemma release_held_log: "log_grows (ss_driver st) (ss_driver (release_held st))"
  by (auto simp: release_held_def Let_def intro!: log_grows_emit split: option.splits)

lemma stream_event_log: "log_grows (ss_driver st) (ss_driver (stream_event ev st))"
proof (cases ev)
  case (ContentDelta x)
  then show ?thesis
    using release_held_log [of "st\<lparr>ss_held := Some (fst (the (ss_held st)), snd (the (ss_held st)) @ x)\<rparr>"]
    by (auto simp: Let_def intro!: log_grows_emit split: option.splits)
qed (auto intro!: log_grows_emit)

lemma stream_end_log:
  assumes "stream_end events reason st = (r, st')" and "unended events"
  shows "\<exists>es. r = TurnFinished (Completed (dr_events (ss_driver st) @ es @ [RunCompleted reason])) \<and> unended es"
proof -
  let ?st = "release_held st"
  have "log_grows d (fold emit es d')" if "log_grows d d'" "unended es" for es d d'
    using that by (induction es arbitrary: d') (auto intro!: log_grows_emit)
  then have g: "log_grows (ss_driver st) (fold emit events (ss_driver ?st))"
    using release_held_log assms(2) by blast
  obtain r' d where e: "end_run reason (fold emit events (ss_driver ?st)) = (r', d)"
    by (cases "end_run reason (fold emit events (ss_driver ?st))")
  then have "r = r'" using assms by (auto simp: stream_end_def Let_def)
  with end_run_result [OF e] g show ?thesis by (auto simp: log_grows_def)
qed

lemma stream_loop_log:
  "stream_loop items st = (r, st') \<Longrightarrow>
    (case r of
       None \<Rightarrow> log_grows (ss_driver st) (ss_driver st')
     | Some x \<Rightarrow> \<exists>es reason. x = TurnFinished (Completed (dr_events (ss_driver st) @ es @ [RunCompleted reason])) \<and> unended es)"
proof (induction items st arbitrary: r st' rule: stream_loop.induct)
  case (2 items st)
  then show ?case using stream_end_log [of "[]" Cancelled st] by (auto simp: Let_def split: prod.splits)
next
  case (3 e items st)
  then show ?case using stream_end_log [of "[ErrorEvent (provider_error_message e)]" Failed st]
    by (auto simp: Let_def split: prod.splits)
next
  case (4 ev items st)
  obtain es where "dr_events (ss_driver (stream_event ev st)) = dr_events (ss_driver st) @ es" "unended es"
    using stream_event_log [of st ev] by (auto simp: log_grows_def)
  with 4 show ?case by (fastforce simp: log_grows_def split: option.splits)
qed (simp add: release_held_log)

lemma conclude_turn_inv:
  assumes "conclude_turn env b reason continued t calls d s = (r, d', s')"
    and "owed [] (dr_messages d) = Some []" and "dr_pending d = None" and "dr_continuing d = None"
  shows "case r of
      TurnFinished out \<Rightarrow> \<exists>es reason. out = Completed (dr_events d @ es @ [RunCompleted reason]) \<and> unended es
    | TurnBatch \<Rightarrow> conv_ok d' \<and> dr_events d' = dr_events d \<and> dr_pending d' \<noteq> None \<and>
        dr_wrap_up d = None \<and> \<not> continued
    | TurnContinue \<Rightarrow> conv_ok d' \<and> dr_events d' = dr_events d \<and> dr_pending d' = None \<and> dr_continuing d' \<noteq> None
    | TurnOutOfTime n \<Rightarrow> False"
proof (cases r)
  case (TurnFinished out)
  have "\<exists>es reason. out = Completed (dr_events d @ es @ [RunCompleted reason]) \<and> unended es"
    using assms(1) TurnFinished
    by (auto simp: conclude_turn_def Let_def end_run_def intro: exI [of _ "[]"] exI [of _ "[ErrorEvent x]" for x]
        split: finish_reason.splits prod.splits if_splits option.splits)
  then show ?thesis using TurnFinished by simp
next
  case TurnBatch
  have "conv_ok d' \<and> dr_events d' = dr_events d \<and> dr_pending d' \<noteq> None \<and> dr_wrap_up d = None \<and> \<not> continued"
    using assms(1,2) TurnBatch
    by (auto simp: conclude_turn_def Let_def end_run_def ask_for_tools_def push_message_def conv_ok_def
        owed_append assistant_tool_calls_def replayed_call_def comp_def
        split: finish_reason.splits prod.splits if_splits option.splits)
  then show ?thesis using TurnBatch by simp
next
  case TurnContinue
  have "d' = start_continuation continued t d"
    using assms(1) TurnContinue
    by (auto simp: conclude_turn_def Let_def end_run_def
        split: finish_reason.splits prod.splits if_splits option.splits)
  moreover have "owed [] (keep_answer continued t (dr_messages d)) = Some []"
    using assms(2) owed_last_content [of "dr_messages d"]
    by (auto simp: keep_answer_def owed_append message_defs)
  ultimately show ?thesis
    using assms(3) TurnContinue by (simp add: start_continuation_def Let_def conv_ok_def)
next
  case (TurnOutOfTime n)
  then show ?thesis using assms(1)
    by (auto simp: conclude_turn_def Let_def end_run_def
        split: finish_reason.splits prod.splits if_splits option.splits)
qed

text \<open>The request of a turn is well formed, and offers no tools once the run owes its answer.\<close>

lemma turn_request_ok:
  assumes "owed [] (dr_messages d) = Some []"
  shows "owed [] (fst (turn_request env d s)) = Some []"
    "offers_tools env \<Longrightarrow> snd (turn_request env d s) = [] \<longleftrightarrow> dr_continuing d \<noteq> None \<or> dr_wrap_up d \<noteq> None"
  using assms by (auto simp: turn_request_def owed_append message_defs io_schemas_def offers_tools_def
      split: option.splits)

lemma send_turn_inv:
  assumes inv: "loop_inv env cfg d0 (io_trace s0)" and pend: "dr_pending d0 = None"
    and f: "turn_frame d0 d" and ev: "dr_events d = dr_events d0 \<or> log_grows d0 d" and tr: "io_trace s = io_trace s0"
    and send: "send_turn env b rv d s = (x, d', s')"
  shows "case x of
      Inl e \<Rightarrow> final_ok env cfg (io_trace s')
    | Inr (TurnFinished out) \<Rightarrow> result_ok env cfg (Inr out) (io_trace s')
    | Inr TurnBatch \<Rightarrow> loop_inv env cfg d' (io_trace s') \<and> dr_pending d' \<noteq> None
    | Inr TurnContinue \<Rightarrow> loop_inv env cfg d' (io_trace s')
    | Inr (TurnOutOfTime n) \<Rightarrow> False"
proof -
  note I = loop_invD [OF inv]
  let ?t = "io_trace s0" and ?d = "start_turn b rv d"
  define rq where "rq = turn_provider_request b ?d (turn_request env ?d s)"
  have msgs: "owed [] (dr_messages d) = Some []"
    using I(2) pend f by (simp add: conv_ok_def turn_frame_def)
  have rq: "owed [] (pq_messages rq) = Some []" using turn_request_ok(1) [of ?d env s] msgs
    by (simp add: rq_def turn_provider_request_def)
  have none: "offers_tools env \<Longrightarrow> pq_tools rq = [] \<longleftrightarrow> dr_continuing d \<noteq> None \<or> dr_wrap_up d \<noteq> None"
    using turn_request_ok(2) [of ?d env s] msgs by (simp add: rq_def turn_provider_request_def)
  have late: "offers_tools env \<Longrightarrow> list_ex toolless ?t \<Longrightarrow> pq_tools rq = []"
    using I(9) none f by (auto simp: turn_frame_def)
  have turn: "turns_of (?t @ [Streamed rq]) = Suc (dr_turn d)"
    and turn_le: "Suc (dr_turn d) \<le> max 1 (rl_max_turns (rc_limits cfg))"
    using I(5,7) pend f by (auto simp: turn_frame_def)
  have fin: "final_ok env cfg (?t @ [Streamed rq])"
    using I(1) rq late turn turn_le
    by (auto simp: final_ok_def closed_after_snoc permit_run_snoc)
  have log: "log_ok (dr_events d)" using ev I(3) log_grows_ok by auto
  from send show ?thesis
  proof (cases rule: send_turn_cases)
    case (failed e s1)
    then show ?thesis using fin io_trace_step(1) [OF failed(3)] tr by (simp add: rq_def)
  next
    case (cut items s1 r st)
    obtain es reason where "r = TurnFinished (Completed (dr_events d @ es @ [RunCompleted reason]))" "unended es"
      using stream_loop_log [OF cut(4)] by auto
    moreover have "log_ended (dr_events d @ es @ [RunCompleted reason])" if "unended es" for es reason
      using log_ended_snoc [OF log_ok_append [OF that log]] by simp
    ultimately show ?thesis using fin cut(1,5) io_trace_step(1) [OF cut(3)] tr by (simp add: rq_def)
  next
    case (ended items s1 r st planned)
    have trace: "io_trace s' = ?t @ [Streamed rq]"
      using io_trace_step(1) [OF ended(2)] tr finish_turn_trace [OF ended(4)] by (simp add: rq_def)
    have fs: "turn_frame ?d (ss_driver st)" using stream_loop_frame [OF ended(3)] by simp
    have gs: "log_grows ?d (ss_driver st)" using stream_loop_log [OF ended(3)] by simp
    from ended(4) obtain reason e s2 where
      con: "conclude_turn env b reason (dr_continuing (ss_driver st) \<noteq> None) (ss_text st) (ss_calls st)
        (e\<lparr>dr_continuing := None\<rparr>) s2 = (r, d', s')"
      and fe: "turn_frame (ss_driver st) e" and ge: "log_grows (ss_driver st) e"
      by (rule finish_turn_conclude)
    have fe': "turn_frame ?d e" using turn_frame_trans [OF fs fe] .
    have ge': "log_ok (dr_events e)"
      using log_grows_trans [OF gs ge] log by (auto simp: log_grows_def log_ok_append)
    have C: "case r of
      TurnFinished out \<Rightarrow> \<exists>es reason. out = Completed (dr_events e @ es @ [RunCompleted reason]) \<and> unended es
    | TurnBatch \<Rightarrow> conv_ok d' \<and> dr_events d' = dr_events e \<and> dr_pending d' \<noteq> None \<and>
        dr_wrap_up e = None \<and> dr_continuing d = None
    | TurnContinue \<Rightarrow> conv_ok d' \<and> dr_events d' = dr_events e \<and> dr_pending d' = None \<and> dr_continuing d' \<noteq> None
    | TurnOutOfTime n \<Rightarrow> False"
      using conclude_turn_inv [OF con] fs fe' f pend msgs by (auto simp: turn_frame_def split: turn_result.splits)
    have F: "dr_limits d' = rc_limits cfg" "dr_turn d' = Suc (dr_turn d)"
      "dr_tool_calls_made d' = dr_tool_calls_made d0"
      "r = TurnContinue \<Longrightarrow> dr_turn d' < rl_max_turns (rc_limits cfg)"
      using conclude_turn_frame [OF con] fe' f I(4) by (auto simp: turn_frame_def)
    have runs: "runs_of (?t @ [Streamed rq]) \<le> dr_tool_calls_made d'" using I(6) F(3) by simp
    show ?thesis
    proof (cases r)
      case (TurnFinished out)
      then obtain es reason where "out = Completed (dr_events e @ es @ [RunCompleted reason])" "unended es"
        using C by auto
      then show ?thesis using log_ended_snoc [OF log_ok_append [OF _ ge']] fin trace ended(1) TurnFinished
        by simp
    next
      case TurnBatch
      have w: "dr_wrap_up d = None" using C TurnBatch fe' by (auto simp: turn_frame_def)
      then have "offers_tools env \<Longrightarrow> \<not> list_ex toolless (?t @ [Streamed rq])"
        using C TurnBatch none late by auto
      then show ?thesis
        using C TurnBatch F turn runs fin trace ge' ended(1) by (auto simp: loop_inv_def)
    next
      case TurnContinue
      then show ?thesis
        using C F turn runs fin trace ge' ended(1) by (auto simp: loop_inv_def)
    next
      case (TurnOutOfTime n)
      then show ?thesis using C by simp
    qed
  qed
qed

text \<open>The stages before the request add nothing to the log but what pauses or ends the run.\<close>

lemma take_turn_stages:
  assumes "take_turn env cfg d s = (x, d', s')"
  obtains
    (clock) r where "x = Inr r" "check_wall_clock env cfg d s = (Some r, d', s')"
  | (no_output) d1 r where "turn_frame d d1" "log_grows d d1" "x = Inr r"
      "end_run OutputBudgetUsed d1 = (r, d')" "io_trace s' = io_trace s"
  | (sent) d1 s1 rv where "turn_frame d d1" "log_grows d d1" "io_trace s1 = io_trace s"
      "send_turn env (rc_generation cfg) rv d1 s1 = (x, d', s')"
proof -
  obtain y d1 s1 where wc: "check_wall_clock env cfg d s = (y, d1, s1)"
    by (cases "check_wall_clock env cfg d s") auto
  let ?b = "rc_generation cfg"
  let ?d2 = "check_context env ?b (check_turn_budget d1) s1"
  obtain d3 s3 where co: "check_output env ?b ?d2 s1 = (d3, s3)" by (cases "check_output env ?b ?d2 s1")
  obtain rv d4 s4 where rt: "reserve_turn env ?b d3 s3 = (rv, d4, s4)" by (cases "reserve_turn env ?b d3 s3") auto
  have f4: "turn_frame d d4"
    using check_wall_clock_frame [OF wc] check_turn_budget_frame check_context_frame
      check_output_frame [OF co] reserve_turn_frame [OF rt] by (meson turn_frame_trans)
  have tr: "io_trace s4 = io_trace s"
    using check_wall_clock_trace [OF wc] check_output_trace [OF co] reserve_turn_trace [OF rt] by simp
  have ev: "dr_events d4 = dr_events d1"
    using check_output_log [OF co] reserve_turn_log [OF rt]
    by (simp add: check_context_log check_turn_budget_log)
  show thesis
  proof (cases y)
    case (Some r)
    then have "x = Inr r" "d1 = d'" "s1 = s'" using assms wc by (simp_all add: take_turn_def Let_def)
    then show thesis using clock wc Some by simp
  next
    case None
    then have g4: "log_grows d d4" using check_wall_clock_log [OF wc] ev by (auto simp: log_grows_def)
    show thesis
    proof (cases rv)
      case (Inl u)
      obtain r e where er: "end_run OutputBudgetUsed d4 = (r, e)" by (cases "end_run OutputBudgetUsed d4")
      then have "x = Inr r" "d' = e" "s' = s4"
        using assms wc None co rt Inl by (simp_all add: take_turn_def Let_def)
      then show thesis using er f4 g4 tr no_output by blast
    next
      case (Inr rv')
      then have "send_turn env ?b rv' d4 s4 = (x, d', s')"
        using assms wc None co rt by (simp add: take_turn_def Let_def)
      then show thesis using f4 g4 tr sent by blast
    qed
  qed
qed

lemma take_turn_inv:
  assumes inv: "loop_inv env cfg d (io_trace s)" and pend: "dr_pending d = None"
    and turn: "take_turn env cfg d s = (x, d', s')"
  shows "case x of
      Inl e \<Rightarrow> final_ok env cfg (io_trace s')
    | Inr (TurnFinished out) \<Rightarrow> result_ok env cfg (Inr out) (io_trace s')
    | Inr TurnBatch \<Rightarrow> loop_inv env cfg d' (io_trace s') \<and> dr_pending d' \<noteq> None
    | Inr TurnContinue \<Rightarrow> loop_inv env cfg d' (io_trace s')
    | Inr (TurnOutOfTime n) \<Rightarrow> loop_inv env cfg d' (io_trace s')"
proof -
  note I = loop_invD [OF inv]
  from turn show ?thesis
  proof (cases rule: take_turn_stages)
    case (clock r)
    have f: "turn_frame d d'" and tr: "io_trace s' = io_trace s"
      using check_wall_clock_frame [OF clock(2)] check_wall_clock_trace [OF clock(2)] by auto
    note L = check_wall_clock_log [OF clock(2)]
    show ?thesis
    proof (cases r)
      case (TurnFinished out)
      then obtain reason where "out = Completed (dr_events d @ [RunCompleted reason])" using L by auto
      then show ?thesis using TurnFinished clock(1) I(1,3) tr by auto
    next
      case (TurnOutOfTime n)
      then have "log_ok (dr_events d')" using L log_grows_ok I(3) by auto
      moreover have "conv_ok d'" using I(2) f conv_ok_cong by (auto simp: turn_frame_def)
      ultimately have "loop_inv env cfg d' (io_trace s')"
        using inv f tr by (auto simp: loop_inv_def turn_frame_def)
      then show ?thesis using TurnOutOfTime clock(1) by simp
    qed (use L in auto)
  next
    case (no_output d1 r)
    have "log_ended (dr_events d1 @ [RunCompleted OutputBudgetUsed])"
      using log_grows_ok [OF no_output(2) I(3)] by auto
    then show ?thesis using no_output(3,5) I(1) end_run_result [OF no_output(4)] by simp
  next
    case (sent d1 s1 rv)
    have s: "case x of
        Inl e \<Rightarrow> final_ok env cfg (io_trace s')
      | Inr (TurnFinished out) \<Rightarrow> result_ok env cfg (Inr out) (io_trace s')
      | Inr TurnBatch \<Rightarrow> loop_inv env cfg d' (io_trace s') \<and> dr_pending d' \<noteq> None
      | Inr TurnContinue \<Rightarrow> loop_inv env cfg d' (io_trace s')
      | Inr (TurnOutOfTime n) \<Rightarrow> False"
      using send_turn_inv [OF inv pend sent(1) _ sent(3,4)] sent(2) by blast
    then show ?thesis by (auto split: sum.splits turn_result.splits)
  qed
qed

section \<open>The run loop and the session\<close>

lemma drive_inv:
  "loop_inv env cfg d (io_trace s) \<Longrightarrow> drive env cfg d s = (r, s') \<Longrightarrow> result_ok env cfg r (io_trace s')"
proof (induction "turns_left d" arbitrary: d s rule: less_induct)
  case less
  obtain x d1 s1 where tb: "turn_or_batch env cfg d s = (x, d1, s1)"
    by (cases "turn_or_batch env cfg d s") auto
  have T: "case x of
      Inl e \<Rightarrow> final_ok env cfg (io_trace s1)
    | Inr (TurnFinished out) \<Rightarrow> result_ok env cfg (Inr out) (io_trace s1)
    | Inr TurnBatch \<Rightarrow> loop_inv env cfg d1 (io_trace s1) \<and> dr_pending d1 \<noteq> None
    | Inr TurnContinue \<Rightarrow> loop_inv env cfg d1 (io_trace s1)
    | Inr (TurnOutOfTime n) \<Rightarrow> loop_inv env cfg d1 (io_trace s1)"
    using take_turn_inv [OF less.prems(1)] tb less.prems(1)
    by (auto simp: turn_or_batch_def split: if_splits)
  note D = less.prems(2) [unfolded drive.simps [of env cfg d s] tb prod.case]
  show ?case
  proof (cases x)
    case (Inl e)
    then show ?thesis using D T by auto
  next
    case (Inr y)
    show ?thesis
    proof (cases y)
      case (TurnFinished out)
      then show ?thesis using D T Inr by auto
    next
      case (TurnOutOfTime n)
      then show ?thesis using D T Inr by (auto simp: suspended_ok_def)
    next
      case TurnContinue
      then show ?thesis
        using less.hyps [of d1 s1] D T Inr turn_or_batch_left(1) [of env cfg d s y d1 s1] tb by simp
    next
      case TurnBatch
      then have I1: "loop_inv env cfg d1 (io_trace s1)" and p1: "dr_pending d1 \<noteq> None" using T Inr by auto
      obtain z d2 s2 where pb: "process_batch env cfg d1 s1 = (z, d2, s2)"
        by (cases "process_batch env cfg d1 s1") auto
      note B = process_batch_inv [OF I1 p1 pb] and F = process_batch_frame [OF pb]
      note D' = D [unfolded Inr TurnBatch sum.case turn_result.case pb prod.case]
      show ?thesis
      proof (cases z)
        case BatchCompleted
        then show ?thesis using D' B by auto
      next
        case (BatchSuspended rq)
        then show ?thesis using D' B by auto
      next
        case BatchDone
        let ?d3 = "d2\<lparr>dr_pending := None\<rparr>"
        have I2: "loop_inv env cfg d2 (io_trace s2)" and nc: "next_call d2 = None" and p2: "dr_pending d2 \<noteq> None"
          using B BatchDone by auto
        note J = loop_invD [OF I2]
        have conv: "owed [] (dr_messages d2) = Some []"
          using J(2) nc p2 by (auto simp: conv_ok_def next_call_def split: option.splits if_splits)
        show ?thesis
        proof (cases "dr_turn d2 \<ge> rl_max_turns (dr_limits d2)")
          case True
          then have "r = Inr (Completed (dr_events (emit (RunCompleted MaxTurns) ?d3)))" "s' = s2"
            using D' BatchDone by (simp_all add: Let_def)
          then show ?thesis using J(1,3) by auto
        next
          case False
          then have dr: "drive env cfg ?d3 s2 = (r, s')" using D' BatchDone by (simp add: Let_def)
          have "loop_inv env cfg ?d3 (io_trace s2)"
            using I2 J(8) [OF p2] conv False by (auto simp: loop_inv_def conv_ok_def)
          moreover have "turns_left ?d3 < turns_left d"
            using turn_or_batch_left(2) [of env cfg d s y d1 s1] tb Inr TurnBatch F False
            by (auto simp: turns_left_def)
          ultimately show ?thesis using less.hyps dr by blast
        qed
      qed
    qed
  qed
qed

lemma new_driver_inv:
  assumes "new_driver env cfg run history user_input streaming (io_start w) = (d, s)"
    and "owed [] history = Some []"
  shows "loop_inv env cfg d (io_trace s)"
proof -
  have "io_trace s = []" using assms(1)
    by (auto simp: new_driver_def io_start_def dest!: io_trace_frame split: prod.splits)
  then show ?thesis using assms
    by (auto simp: new_driver_def loop_inv_def final_ok_def conv_ok_def log_ok_def owed_append message_defs
        split: prod.splits option.splits)
qed

lemma apply_decision_inv:
  assumes ok: "suspended_ok env cfg sus (io_trace s)" and ap: "su_approval sus = Some rq"
    and i: "rq_id rq = dec_id dec" and ad: "apply_decision env cfg dec (su_driver sus) s = (d', s')"
  shows "loop_inv env cfg d' (io_trace s')"
proof -
  let ?d = "su_driver sus" and ?t = "io_trace s"
  have inv: "loop_inv env cfg ?d ?t" using ok by (simp add: suspended_ok_def)
  note I = loop_invD [OF inv]
  obtain c where aw: "awaited_call ?d = Some c" and perm: "permit_run None ?t = Some (Some (c, Require rq))"
    and made: "runs_of ?t < dr_tool_calls_made ?d" "dr_tool_calls_made ?d \<le> rl_max_tool_calls (rc_limits cfg)"
    using ok ap by (auto simp: suspended_ok_def)
  from aw obtain index where nc: "next_call ?d = Some (index, c)" by (auto simp: awaited_next)
  then obtain b where b: "dr_pending ?d = Some b" "index = ba_next b" by (auto simp: next_call_Some)
  note quiet = I(8) [unfolded b(1), simplified]
  show ?thesis
  proof (cases "granted dec")
    case True
    obtain d1 where rc: "run_call env (rc_generation cfg) c ?d (io_remember env dec c s) = (d1, s')"
      and d': "d' = d1\<lparr>dr_pending := map_option (\<lambda>b. b\<lparr>ba_next := ba_next b + 1\<rparr>) (dr_pending d1)\<rparr>"
      using ad aw True by (auto simp: apply_decision_def Let_def split: prod.splits)
    have trace: "io_trace s' = (?t @ [Remembered dec c]) @ [Invoked c]" and grow: "log_grows ?d d1"
      using run_call_io [OF rc] io_trace_step(4) [of env dec c s] by simp_all
    have ans: "answered c ?d d1" using run_call_answered rc .
    then obtain content where msg: "dr_messages d1 = dr_messages ?d @ [tool_result (cl_id c) content]"
      by (auto simp: answered_def)
    have fin: "final_ok env cfg (?t @ [Remembered dec c])"
      and perm': "permit_run None (?t @ [Remembered dec c]) = Some (Some (c, AutoApprove))"
      using final_ok_remember [OF I(1) _ perm True] quiet i by auto
    have "final_ok env cfg ((?t @ [Remembered dec c]) @ [Invoked c])"
      by (rule final_ok_invoke [OF fin _ perm']) (use quiet made in auto)
    then have "loop_inv env cfg d' (?t @ [Remembered dec c, Invoked c])"
      using ans made log_grows_ok [OF grow I(3)] msg b d'
      by (intro loop_inv_answered [OF inv nc, where content = content])
        (auto simp: answered_def turns_of_def runs_of_def)
    then show ?thesis using trace by simp
  next
    case False
    let ?d1 = "refuse_call c (denied_message c) ?d"
    have d': "d' = ?d1\<lparr>dr_pending := map_option (\<lambda>b. b\<lparr>ba_next := ba_next b + 1\<rparr>) (dr_pending ?d1)\<rparr>"
      and s': "s' = s" using ad aw False by (auto simp: apply_decision_def Let_def)
    have ans: "answered c ?d ?d1" by (rule refuse_call_answered)
    then obtain content where msg: "dr_messages ?d1 = dr_messages ?d @ [tool_result (cl_id c) content]"
      by (auto simp: answered_def)
    have log: "log_ok (dr_events ?d1)" using log_grows_ok [OF refuse_call_log [OF log_grows_refl] I(3)] .
    have "loop_inv env cfg d' (?t @ [])"
      using ans made log msg b d' I(1,6)
      by (intro loop_inv_answered [OF inv nc, where content = content]) (auto simp: answered_def)
    then show ?thesis using s' by simp
  qed
qed

lemma resume_inv:
  assumes "suspended_ok env cfg sus (io_trace s)" and "resume env cfg sus dec s = (r, s')"
  shows "result_ok env cfg r (io_trace s')"
proof (cases "case su_approval sus of None \<Rightarrow> True | Some rq \<Rightarrow> rq_id rq \<noteq> dec_id dec")
  case True
  then show ?thesis using assms by (auto simp: resume_def suspended_ok_def loop_inv_def)
next
  case False
  then obtain rq where "su_approval sus = Some rq" "rq_id rq = dec_id dec" by (auto split: option.splits)
  moreover obtain d1 s1 where "apply_decision env cfg dec (su_driver sus) s = (d1, s1)"
    by (cases "apply_decision env cfg dec (su_driver sus) s")
  ultimately show ?thesis
    using apply_decision_inv [OF assms(1)] drive_inv [of env cfg d1 s1 r s'] assms(2) False
    by (simp add: resume_def)
qed

lemma continue_inv:
  assumes "suspended_ok env cfg sus (io_trace s)" and "continue_out_of_time env cfg sus how s = (r, s')"
  shows "result_ok env cfg r (io_trace s')"
proof -
  have inv: "loop_inv env cfg (su_driver sus) (io_trace s)" using assms(1) by (simp add: suspended_ok_def)
  have "loop_inv env cfg (su_driver sus\<lparr>dr_started := n\<rparr>) t = loop_inv env cfg (su_driver sus) t"
    "loop_inv env cfg (su_driver sus\<lparr>dr_wrap_up := x\<rparr>) t = loop_inv env cfg (su_driver sus) t" for n x t
    by (simp_all add: loop_inv_def conv_ok_def split: option.splits)
  note inv' = this [THEN iffD2, OF inv]
  show ?thesis
  proof (cases how)
    case Extend
    obtain now s1 where n: "io_now env s = (now, s1)" by (cases "io_now env s")
    have "loop_inv env cfg (su_driver sus\<lparr>dr_started := now\<rparr>) (io_trace s1)"
      using inv' io_trace_frame(1) [OF n] by simp
    from drive_inv [OF this] show ?thesis
      using assms(2) Extend n by (simp add: continue_out_of_time_def)
  next
    case WrapUpNow
    then show ?thesis
      using assms(2) drive_inv [OF inv'(2)] by (simp add: continue_out_of_time_def Let_def)
  qed
qed

lemma session_moves_inv:
  "result_ok env cfg r (io_trace s) \<Longrightarrow> session_moves env cfg moves (r, s) = (r', s') \<Longrightarrow>
     result_ok env cfg r' (io_trace s')"
proof (induction moves arbitrary: r s)
  case (Cons m moves)
  show ?case
  proof (cases "case r of Inl _ \<Rightarrow> None | Inr outcome \<Rightarrow> outcome_suspended outcome")
    case None
    then show ?thesis using Cons.prems by simp
  next
    case (Some sus)
    have sus: "suspended_ok env cfg sus (io_trace s)"
      using Cons.prems(1) Some by (cases r; cases "projr r") auto
    obtain r1 s1 where m: "(case m of Decide dec \<Rightarrow> resume env cfg sus dec s
        | Prolong how \<Rightarrow> continue_out_of_time env cfg sus how s) = (r1, s1)"
      by (cases "case m of Decide dec \<Rightarrow> resume env cfg sus dec s
        | Prolong how \<Rightarrow> continue_out_of_time env cfg sus how s")
    then have "result_ok env cfg r1 (io_trace s1)"
      using resume_inv [OF sus] continue_inv [OF sus] by (cases m) auto
    then show ?thesis using Cons.IH [of r1 s1] Cons.prems(2) Some m by simp
  qed
qed simp

lemma session_inv:
  assumes "owed [] history = Some []"
    and "session env cfg run history user_input streaming moves w = (r, s)"
  shows "result_ok env cfg r (io_trace s)"
proof -
  obtain d s0 where nd: "new_driver env cfg run history user_input streaming (io_start w) = (d, s0)"
    by (cases "new_driver env cfg run history user_input streaming (io_start w)")
  obtain r1 s1 where "drive env cfg d s0 = (r1, s1)" by (cases "drive env cfg d s0")
  with drive_inv [OF new_driver_inv [OF nd assms(1)]] session_moves_inv [of env cfg r1 s1 moves r s] nd assms(2)
  show ?thesis by (simp add: session_def run_with_history_def)
qed

lemma result_final: "result_ok env cfg r t \<Longrightarrow> final_ok env cfg t"
  by (cases r; cases "projr r") (auto simp: suspended_ok_def loop_inv_def)

section \<open>What the invariant says of a conversation and of a run call\<close>

lemma owed_results:
  assumes "owed [] ms = Some []" and "k < length ms" and "j < length (pm_tool_calls (ms ! k))"
  shows "k + 1 + j < length ms \<and> pm_role (ms ! (k + 1 + j)) = Tool \<and>
    pm_tool_call_id (ms ! (k + 1 + j)) = Some (tc_id (pm_tool_calls (ms ! k) ! j))"
proof -
  have results: "owed ids ms = Some [] \<Longrightarrow> i < length ids \<Longrightarrow>
      i < length ms \<and> pm_role (ms ! i) = Tool \<and> pm_tool_call_id (ms ! i) = Some (ids ! i)" for ids ms i
  proof (induction ids ms arbitrary: i rule: owed.induct)
    case (3 i' ids m ms)
    then show ?case by (cases i) (auto split: if_splits)
  qed auto
  have split: "ms = take k ms @ ms ! k # drop (Suc k) ms" using assms(2) by (simp add: id_take_nth_drop)
  obtain rest where "owed [] (take k ms) = Some rest" "owed rest (ms ! k # drop (Suc k) ms) = Some []"
    using assms(1) owed_append [of "[]" "take k ms" "ms ! k # drop (Suc k) ms"] split
    by (auto split: option.splits)
  then have "owed (map tc_id (pm_tool_calls (ms ! k))) (drop (Suc k) ms) = Some []"
    using assms(3) by (cases rest) (auto split: if_splits)
  from results [OF this, of j] assms(3) show ?thesis by (auto simp: less_diff_conv add.commute)
qed

lemma owed_no_stray:
  assumes "owed [] ms = Some []" and "k < length ms" and "pm_role (ms ! k) = Tool"
  shows "\<exists>i j. k = i + 1 + j \<and> j < length (pm_tool_calls (ms ! i))"
proof -
  have stray: "owed ids ms = Some [] \<Longrightarrow> k < length ms \<Longrightarrow> pm_role (ms ! k) = Tool \<Longrightarrow>
      k < length ids \<or> (\<exists>i j. k = i + 1 + j \<and> j < length (pm_tool_calls (ms ! i)))" for ids ms k
  proof (induction ids ms arbitrary: k rule: owed.induct)
    case (2 m ms)
    then obtain k' where k: "k = Suc k'" by (cases k) auto
    with 2 consider "k' < length (pm_tool_calls m)" | i j where "k' = i + 1 + j" "j < length (pm_tool_calls (ms ! i))"
      by (fastforce split: if_splits)
    then show ?case
    proof cases
      case 1
      then show ?thesis using k by (intro disjI2 exI [of _ 0] exI [of _ k']) simp
    next
      case 2
      then show ?thesis using k by (intro disjI2 exI [of _ "Suc i"] exI [of _ j]) simp
    qed
  next
    case (3 i' ids m ms)
    show ?case
    proof (cases k)
      case (Suc k')
      with 3 consider "k' < length ids" | i j where "k' = i + 1 + j" "j < length (pm_tool_calls (ms ! i))"
        by (fastforce split: if_splits)
      then show ?thesis
      proof cases
        case 2
        then show ?thesis using Suc by (intro disjI2 exI [of _ "Suc i"] exI [of _ j]) simp
      qed (use Suc in simp)
    qed simp
  qed auto
  from stray [OF assms] show ?thesis by simp
qed

lemma permit_of_run:
  assumes "permit_run None (pre @ Invoked c # post) = Some st"
  shows "(\<exists>t. pre = t @ [Asked c AutoApprove]) \<or>
    (\<exists>t rq dec. pre = t @ [Asked c (Require rq), Remembered dec c] \<and> granted dec \<and> dec_id dec = rq_id rq)"
proof -
  have app: "permit_run st (a @ b) = (case permit_run st a of None \<Rightarrow> None | Some st' \<Rightarrow> permit_run st' b)"
    for st a and b :: "'a io_event list"
    by (induction a arbitrary: st) (auto split: option.splits)
  have p: "permit_run None pre = Some (Some (c, AutoApprove))"
    using assms by (auto simp: app split: option.splits if_splits)
  then obtain t e where pre: "pre = t @ [e]" by (cases pre rule: rev_cases) auto
  then obtain st1 where t: "permit_run None t = Some st1" and e: "permit_next st1 e = Some (Some (c, AutoApprove))"
    using p by (auto simp: permit_run_snoc split: option.splits)
  show ?thesis
  proof (cases e)
    case (Asked c' need)
    then show ?thesis using e pre by simp
  next
    case (Remembered dec c')
    then obtain rq where r: "st1 = Some (c, Require rq)" "granted dec" "dec_id dec = rq_id rq" "c' = c"
      using e by (auto split: option.splits approval_need.splits if_splits)
    then obtain t' e' where t': "t = t' @ [e']" using t by (cases t rule: rev_cases) auto
    then obtain st2 where "permit_next st2 e' = Some (Some (c, Require rq))"
      using t r(1) by (auto simp: permit_run_snoc split: option.splits)
    then have "e' = Asked c (Require rq)"
      by (cases e') (auto split: option.splits approval_need.splits if_splits)
    then show ?thesis using pre t' Remembered r by auto
  qed (use e in \<open>auto split: if_splits\<close>)
qed

section \<open>Properties\<close>

text \<open>
  C1. Every session of a run ends or pauses, and however often it is paused and resumed, its clock
  restarted or its calls asked again, it makes at most \<open>max_turns\<close> requests (one if that is zero)
  and runs at most \<open>max_tool_calls\<close> tool calls. A run that completed has a log that starts with
  \<open>RunStarted\<close> and ends with the only \<open>RunCompleted\<close> in it.
\<close>

theorem sessions_end_within_their_limits:
  assumes "owed [] history = Some []"
  shows "\<exists>r s. session env cfg run history user_input streaming moves w = (r, s) \<and>
    turns_of (io_trace s) \<le> max 1 (rl_max_turns (rc_limits cfg)) \<and>
    runs_of (io_trace s) \<le> rl_max_tool_calls (rc_limits cfg) \<and>
    (\<forall>es. r = Inr (Completed es) \<longrightarrow> log_ended es)"
proof -
  obtain r s where rs: "session env cfg run history user_input streaming moves w = (r, s)"
    by (cases "session env cfg run history user_input streaming moves w")
  note ok = session_inv [OF assms rs]
  from result_final [OF ok] ok rs show ?thesis by (auto simp: final_ok_def)
qed

definition sample_limits :: run_limits where
  "sample_limits = \<lparr>rl_max_turns = 2, rl_max_tool_calls = 1, rl_max_parallel_tools = 1,
     rl_max_repeated_identical_calls = 2, rl_max_tool_output_bytes = 9, rl_wall_clock_secs = None\<rparr>"

definition sample_config :: run_config where
  "sample_config = (run_config_new ''m'')\<lparr>rc_limits := sample_limits\<rparr>"

definition sample_call :: tool_call where
  "sample_call = \<lparr>cl_id = ''c'', cl_name = ''t'', cl_arguments = ''{}''\<rparr>"

text \<open>A model that asks for one tool, which needs an approval, and then answers.\<close>

definition sample_env :: "(unit, nat) loop_env" where
  "sample_env = \<lparr>le_json = \<lambda>_. '''',
     le_schemas = \<lambda>_. [\<lparr>ts_name = ''t'', ts_description = '''', ts_parameters = ()\<rparr>],
     le_now = \<lambda>w. (0, w), le_cancelled = \<lambda>w. (False, w),
     le_stream = \<lambda>_ w. (Inr (if w = 0
       then [StreamEvent (ToolCallDelta 0 (Some ''c'') (Some ''t'') (Some ''{}'')),
             StreamEvent (StreamFinished FinToolCalls None)]
       else [StreamEvent (ContentDelta ''ok''), StreamEvent (StreamFinished FinStop None)]), w + 1),
     le_approval = \<lambda>c w. (Require sample_request, w), le_remember = \<lambda>_ _ w. w,
     le_invoke = \<lambda>_ w. ([], outcome_ok ''r'', w),
     le_lock = \<lambda>_ w. (pool_new 0, w), le_unlock = \<lambda>_ _ w. w\<rparr>"

definition sample_session :: "(agent_error + run_outcome) \<times> (unit, nat) io" where
  "sample_session = session sample_env sample_config ''run'' [] ''hi'' False
     [Decide (decision_grant ''apr-1'')] 0"

lemmas loop_evaluation =
  session_def run_with_history_def new_driver_def io_now_def io_start_def io_pool_def io_pool_read_def
  turn_or_batch_def take_turn_def check_wall_clock_def wall_clock_def check_turn_budget_def
  check_context_def check_output_def reserve_turn_def send_turn_def start_turn_def turn_request_def
  planned_prompt_def budget_is_active_def io_stream_def turn_provider_request_def stream_start_def
  accumulator_new_def accumulator_push_def accumulator_is_empty_def into_calls_def call_of_partial_def
  finish_turn_def settle_def conclude_turn_def ask_for_tools_def push_message_def replayed_call_def
  release_held_def end_run_def emit_def next_call_def batch_step_def io_approval_def
  resume_def apply_decision_def awaited_call_def io_remember_def run_call_def io_invoke_def
  fit_to_context_def guards_context_def answer_call_def message_defs bt_remove_def
  has_tool_results_def sat_add32_def u32_max_def io_schemas_def default_budget_def run_config_new_def
  sample_env_def sample_config_def sample_limits_def sample_request_def decision_grant_def
  outcome_ok_def set_next_def call_key_def requested_max_tokens_def positive_def

text \<open>The requests of the sample: the turn that offers the tool, and the answer turn after its result.\<close>

lemma sample_session_trace:
  obtains rq1 rq2 where "io_trace (snd sample_session) =
     [Streamed rq1, Asked sample_call (Require sample_request),
      Remembered (decision_grant ''apr-1'') sample_call, Invoked sample_call, Streamed rq2]"
    "pq_tools rq2 = []" "map pm_role (pq_messages rq2) = [User, Assistant, Tool, User]"
    "map tc_id (pm_tool_calls (pq_messages rq2 ! 1)) = [''c'']"
proof -
  have "\<exists>rq1 rq2. io_trace (snd sample_session) =
     [Streamed rq1, Asked sample_call (Require sample_request),
      Remembered (decision_grant ''apr-1'') sample_call, Invoked sample_call, Streamed rq2] \<and>
     pq_tools rq2 = [] \<and> map pm_role (pq_messages rq2) = [User, Assistant, Tool, User] \<and>
     map tc_id (pm_tool_calls (pq_messages rq2 ! 1)) = [''c'']"
    by (simp add: sample_session_def loop_evaluation drive.simps process_batch.simps sample_call_def)
  then show thesis using that by (elim exE conjE)
qed

lemma sample_session_eq:
  "session sample_env sample_config ''run'' [] ''hi'' False [Decide (decision_grant ''apr-1'')] 0
     = (fst sample_session, snd sample_session)"
  by (simp add: sample_session_def)

theorem sessions_end_within_their_limits_witness:
  "turns_of (io_trace (snd sample_session)) \<le> 2 \<and> runs_of (io_trace (snd sample_session)) \<le> 1"
proof -
  obtain r s where rs: "sample_session = (r, s)" and
    "turns_of (io_trace s) \<le> max 1 (rl_max_turns (rc_limits sample_config))"
    "runs_of (io_trace s) \<le> rl_max_tool_calls (rc_limits sample_config)"
    using sessions_end_within_their_limits [of "[]" sample_env sample_config "''run''" "''hi''" False
      "[Decide (decision_grant ''apr-1'')]" 0] unfolding sample_session_eq
    by (metis owed.simps(1) prod.collapse)
  then show ?thesis by (simp add: rs sample_config_def sample_limits_def)
qed

text \<open>
  C2. In every request a session sends, each assistant message that asks for tools is followed by
  exactly one result per call, in the order of the calls and with their ids, and no tool result
  stands anywhere else, provided the history the caller restores has that form.
\<close>

theorem requests_hold_well_formed_conversations:
  assumes "owed [] history = Some []"
    and "session env cfg run history user_input streaming moves w = (r, s)"
    and "Streamed rq \<in> set (io_trace s)"
  shows "(\<forall>k < length (pq_messages rq). \<forall>j < length (pm_tool_calls (pq_messages rq ! k)).
       k + 1 + j < length (pq_messages rq) \<and> pm_role (pq_messages rq ! (k + 1 + j)) = Tool \<and>
       pm_tool_call_id (pq_messages rq ! (k + 1 + j)) = Some (tc_id (pm_tool_calls (pq_messages rq ! k) ! j))) \<and>
    (\<forall>k < length (pq_messages rq). pm_role (pq_messages rq ! k) = Tool \<longrightarrow>
       (\<exists>i j. k = i + 1 + j \<and> j < length (pm_tool_calls (pq_messages rq ! i))))"
proof -
  from result_final [OF session_inv [OF assms(1,2)]] assms(3) have "owed [] (pq_messages rq) = Some []"
    by (auto simp: final_ok_def list_all_iff)
  then show ?thesis using owed_results owed_no_stray by blast
qed

theorem requests_hold_well_formed_conversations_witness:
  "\<exists>rq. Streamed rq \<in> set (io_trace (snd sample_session)) \<and> pm_tool_call_id (pq_messages rq ! 2) = Some ''c''"
proof -
  obtain rq1 rq2 where t: "io_trace (snd sample_session) =
     [Streamed rq1, Asked sample_call (Require sample_request),
      Remembered (decision_grant ''apr-1'') sample_call, Invoked sample_call, Streamed rq2]"
    and roles: "map pm_role (pq_messages rq2) = [User, Assistant, Tool, User]"
    and ids: "map tc_id (pm_tool_calls (pq_messages rq2 ! 1)) = [''c'']"
    by (rule sample_session_trace)
  have len: "length (pq_messages rq2) = 4" "length (pm_tool_calls (pq_messages rq2 ! 1)) = 1"
    using arg_cong [OF roles, of length] arg_cong [OF ids, of length] by simp_all
  have "tc_id (pm_tool_calls (pq_messages rq2 ! 1) ! 0) = ''c''"
    using arg_cong [OF ids, of "\<lambda>l. l ! 0"] len by simp
  moreover have "Streamed rq2 \<in> set (io_trace (snd sample_session))" by (simp add: t)
  ultimately show ?thesis
    using requests_hold_well_formed_conversations [OF _ sample_session_eq, of rq2] len
    by (intro exI [of _ rq2]) (auto simp: numeral_2_eq_2 dest: spec [of _ 1])
qed

text \<open>
  C3. In a session that starts from a well-formed history and whose invoker offers at least one tool
  at every moment, a request without tools closes the work: once it is sent (the answer a budget
  forces, or the continuation of a cut answer), the session asks for no approval, runs no tool and
  sends only requests without tools from then on.
\<close>

theorem answer_turns_close_the_work:
  assumes "owed [] history = Some []" and "offers_tools env"
    and "session env cfg run history user_input streaming moves w = (r, s)"
    and "io_trace s = before @ Streamed rq # after" and "pq_tools rq = []"
  shows "list_all toolless after"
proof -
  have "closed_after (io_trace s)"
    using result_final [OF session_inv [OF assms(1,3)]] assms(2) by (simp add: final_ok_def)
  then have "closed_after (Streamed rq # after)" unfolding assms(4)
    by (induction before) (auto split: if_splits)
  then show ?thesis using assms(5) by simp
qed

theorem answer_turns_close_the_work_witness:
  "\<exists>before rq. io_trace (snd sample_session) = before @ [Streamed rq] \<and> pq_tools rq = []"
proof -
  obtain rq1 rq2 where t: "io_trace (snd sample_session) =
     [Streamed rq1, Asked sample_call (Require sample_request),
      Remembered (decision_grant ''apr-1'') sample_call, Invoked sample_call] @ Streamed rq2 # []"
    and none: "pq_tools rq2 = []"
    by (rule sample_session_trace) simp
  have "offers_tools sample_env" by (simp add: offers_tools_def sample_env_def)
  from answer_turns_close_the_work [OF _ this sample_session_eq t none] show ?thesis using t none by auto
qed

text \<open>
  C4. Every tool call a session runs was approved for exactly that call: directly before it the
  invoker approved it automatically, or raised a request for it that the caller answered with a
  granted decision bearing that request's id.
\<close>

theorem nothing_runs_unapproved:
  assumes "owed [] history = Some []"
    and "session env cfg run history user_input streaming moves w = (r, s)"
    and "io_trace s = before @ Invoked c # after"
  shows "(\<exists>t. before = t @ [Asked c AutoApprove]) \<or>
    (\<exists>t rq dec. before = t @ [Asked c (Require rq), Remembered dec c] \<and> granted dec \<and> dec_id dec = rq_id rq)"
  using result_final [OF session_inv [OF assms(1,2)]] permit_of_run [of before c after]
  by (auto simp: final_ok_def assms(3))

theorem nothing_runs_unapproved_witness:
  "\<exists>t rq dec. io_trace (snd sample_session) =
     t @ [Asked sample_call (Require rq), Remembered dec sample_call, Invoked sample_call,
          last (io_trace (snd sample_session))] \<and> granted dec"
proof -
  obtain rq1 rq2 where t: "io_trace (snd sample_session) =
     [Streamed rq1, Asked sample_call (Require sample_request),
      Remembered (decision_grant ''apr-1'') sample_call] @ Invoked sample_call # [Streamed rq2]"
    by (rule sample_session_trace) simp
  from nothing_runs_unapproved [OF _ sample_session_eq t] t show ?thesis by auto
qed

end
