(* ===== verification/ExecutorProperties.thy ===== *)
theory ExecutorProperties
  imports Executor RunWorld AgentLoopProperties
begin

text \<open>
  What the executor promises, alone and under the loop: every check of a call precedes its launch,
  every refusal is an error result, and in a whole session the launches that need a person are
  bounded by the decisions a person made.
\<close>

section \<open>Calls that need a person\<close>

definition needs_person :: "tool_call \<Rightarrow> tool_definition \<Rightarrow> bool" where
  "needs_person c t \<longleftrightarrow> td_risk t \<in> {Mutating, Executable} \<or>
     list_ex (\<lambda>s. s \<in> {''fs:write'', ''terminal:exec''}) (td_scopes t) \<or>
     cl_name c = ''agent.resume_worker''"

lemma request_for_fields:
  "request_for h ex c risk scopes w = (rq, w') \<Longrightarrow>
     rq_tool rq = cl_name c \<and> rq_risk rq = risk \<and> rq_scopes rq = scopes"
  by (auto simp: request_for_def Let_def split: prod.splits)

lemma call_need_auto:
  assumes "call_need h c rq st w = (AutoApprove, w')"
  shows "rq_risk rq \<noteq> Privileged \<and> \<not> mandatory_ask rq \<and> cl_name c \<noteq> ''agent.resume_worker''"
  using assms
  by (auto simp: call_need_def evaluate_def split: option.splits prod.splits if_splits)

lemma call_need_require:
  assumes "call_need h c rq st w = (Require rq', w')"
  shows "rq' = rq \<and> rq_risk rq \<noteq> Privileged"
  using assms
  by (auto simp: call_need_def evaluate_def split: option.splits prod.splits if_splits)

lemma settle_need_state:
  "settle_need c need st = (refused, st') \<Longrightarrow> st' \<in> {st, snd (take_approval c st)}"
  by (auto simp: settle_need_def split: approval_need.splits prod.splits)

text \<open>The stages of \<open>prepare\<close>, for a call it lets through.\<close>

lemma prepare_launch:
  assumes "prepare h ex c st w = (Inr (t, args), st', w')"
  obtains w1 w2 w3 w4 rq need where
    "bt_get (xe_registry ex) (cl_name c) = Some t" "unauthorized ex w = (None, w1)"
    "guard_refuses ex (cl_name c) w1 = (False, w2)" "parse_arguments h (cl_arguments c) = Inr args"
    "validate (ho_render h) (td_parameters t) args = Inr ()" "blocked_terminal_call h c = None"
    "request_for h ex c (td_risk t) (td_scopes t) w2 = (rq, w3)" "call_need h c rq st w3 = (need, w')"
    "settle_need c need st = (None, st')"
  using assms
  by (simp add: prepare_def Let_def split: option.split_asm prod.split_asm sum.split_asm if_split_asm)

lemma prepare_refusal:
  "prepare h ex c st w = (Inl why, st', w') \<Longrightarrow> st' \<in> {st, snd (take_approval c st)}"
  by (auto simp: prepare_def Let_def dest: settle_need_state
      split: option.split_asm prod.split_asm sum.split_asm if_split_asm)

lemma prepare_launch_approval:
  assumes "prepare h ex c st w = (Inr (t, args), st', w')"
  shows "bt_get (xe_registry ex) (cl_name c) = Some t \<and> td_risk t \<noteq> Privileged \<and>
    st' = snd (take_approval c st) \<and> (needs_person c t \<longrightarrow> fst (take_approval c st))"
proof -
  from prepare_launch [OF assms] obtain w1 w2 w3 rq need where
    t: "bt_get (xe_registry ex) (cl_name c) = Some t"
    and rq: "request_for h ex c (td_risk t) (td_scopes t) w2 = (rq, w3)"
    and need: "call_need h c rq st w3 = (need, w')" and settled: "settle_need c need st = (None, st')"
    by metis
  note fields = request_for_fields [OF rq]
  show ?thesis
  proof (cases need)
    case AutoApprove
    then show ?thesis using t settled fields call_need_auto [of h c rq st w3 w'] need
      by (simp add: settle_need_def needs_person_def mandatory_ask_def)
  next
    case (Require rq')
    then show ?thesis using t settled fields call_need_require [of h c rq st w3 rq' w'] need
      by (auto simp: settle_need_def split: prod.splits if_splits)
  qed (use settled in \<open>simp add: settle_need_def\<close>)
qed

text \<open>
  What the session's policy lets pass without asking: a request that a live grant covers, or of a
  risk up to the automatic limit.
\<close>

definition passes_freely :: "approval_policy \<Rightarrow> approval_request \<Rightarrow> time \<Rightarrow> bool" where
  "passes_freely p rq now \<longleftrightarrow>
     list_ex (\<lambda>g. covers g rq now) (grants p) \<or> rq_risk rq \<le> auto_approve_max p"

lemma call_need_policy:
  assumes "call_need h c rq st w = (need, w')" and "\<forall>why. need \<noteq> Deny why"
  shows "\<exists>p. es_policy st = Some p \<and> rq_risk rq \<notin> set (deny p) \<and>
    (need = AutoApprove \<longrightarrow> passes_freely p rq (fst (ho_now h w)))"
  using assms
  by (auto simp: call_need_def evaluate_def passes_freely_def split: option.splits prod.splits if_splits)

text \<open>The approval a launch is based on: one for exactly this call, which the launch uses up.\<close>

definition spends_approval :: "tool_call \<Rightarrow> exec_state \<Rightarrow> exec_state \<Rightarrow> bool" where
  "spends_approval c st st1 \<longleftrightarrow>
     (\<exists>approved. es_approved st = Some approved \<and> approved (cl_id c) = Some (call_key c) \<and>
        es_approved st1 = Some (approved(cl_id c := None)))"

lemma take_approval_spends: "fst (take_approval c st) \<Longrightarrow> spends_approval c st (snd (take_approval c st))"
  by (auto simp: take_approval_def spends_approval_def split: option.splits)

lemma prepare_policy:
  assumes "prepare h ex c st w = (Inr (t, args), st', w')"
  obtains w2 w3 w4 rq p where
    "unauthorized ex w = (None, w2)" "guard_refuses ex (cl_name c) w2 = (False, w3)"
    "request_for h ex c (td_risk t) (td_scopes t) w3 = (rq, w4)" "es_policy st = Some p"
    "td_risk t \<notin> set (deny p)"
    "needs_person c t \<or> \<not> passes_freely p rq (fst (ho_now h w4)) \<Longrightarrow> spends_approval c st st'"
proof -
  from prepare_launch [OF assms] obtain w1 w2 w3 rq need where
    w: "unauthorized ex w = (None, w1)" "guard_refuses ex (cl_name c) w1 = (False, w2)"
    and rq: "request_for h ex c (td_risk t) (td_scopes t) w2 = (rq, w3)"
    and need: "call_need h c rq st w3 = (need, w')" and settled: "settle_need c need st = (None, st')"
    by metis
  have "\<forall>why. need \<noteq> Deny why" using settled by (auto simp: settle_need_def)
  then obtain p where p: "es_policy st = Some p" "rq_risk rq \<notin> set (deny p)"
    "need = AutoApprove \<longrightarrow> passes_freely p rq (fst (ho_now h w3))"
    using call_need_policy [OF need] by blast
  have "spends_approval c st st'" if "needs_person c t \<or> \<not> passes_freely p rq (fst (ho_now h w3))"
  proof (cases need)
    case AutoApprove
    then show ?thesis using that p(3) prepare_launch_approval [OF assms] take_approval_spends by auto
  next
    case (Require rq')
    then show ?thesis using settled take_approval_spends [of c st]
      by (cases "take_approval c st") (auto simp: settle_need_def split: if_splits)
  qed (use settled in \<open>simp add: settle_need_def\<close>)
  then show ?thesis using that [OF w rq p(1)] p(2) request_for_fields [OF rq] by simp
qed

text \<open>
  C6. Every call is checked before it runs. Either the model gets an error result and no tool ran,
  the state changing at most by the approval that was used up; or the tool is one of the run's, the
  run was still authorized and the guard permitted the tool at that moment, the arguments are valid
  for its schema, the command is not a blocked one, the tool is neither privileged nor of a risk that
  the session's policy denies, and the call was approved by a person, for exactly this call, which
  used the approval up: always when it needs a person, and otherwise unless a live grant of the
  policy covers the request of this moment or its risk is within the automatic limit.
\<close>

theorem every_call_is_checked:
  "case prepare h ex c st w of
     (Inl why, st1, w1) \<Rightarrow>
       execute h ex c st w = (([], outcome_error why), st1, w1) \<and> st1 \<in> {st, snd (take_approval c st)}
   | (Inr (t, args), st1, w1) \<Rightarrow>
       bt_get (xe_registry ex) (cl_name c) = Some t \<and>
       parse_arguments h (cl_arguments c) = Inr args \<and>
       validate (ho_render h) (td_parameters t) args = Inr () \<and>
       blocked_terminal_call h c = None \<and> td_risk t \<noteq> Privileged \<and>
       (\<exists>w2 w3 w4 rq p. unauthorized ex w = (None, w2) \<and> guard_refuses ex (cl_name c) w2 = (False, w3) \<and>
          request_for h ex c (td_risk t) (td_scopes t) w3 = (rq, w4) \<and>
          es_policy st = Some p \<and> td_risk t \<notin> set (deny p) \<and>
          (needs_person c t \<or>
             \<not> (list_ex (\<lambda>g. covers g rq (fst (ho_now h w4))) (grants p) \<or> td_risk t \<le> auto_approve_max p) \<longrightarrow>
           (\<exists>approved. es_approved st = Some approved \<and>
              approved (cl_id c) = Some (call_key c) \<and>
              es_approved st1 = Some (approved(cl_id c := None)))))"
proof (cases "prepare h ex c st w")
  case (fields prepared st1 w1)
  show ?thesis
  proof (cases prepared)
    case (Inl why)
    then show ?thesis using prepare_refusal [of h ex c st w why st1 w1] fields
      by (simp add: execute_def)
  next
    case (Inr launched)
    obtain t args where "launched = (t, args)" by (cases launched)
    with fields Inr have p: "prepare h ex c st w = (Inr (t, args), st1, w1)" by simp
    have basic: "parse_arguments h (cl_arguments c) = Inr args"
      "validate (ho_render h) (td_parameters t) args = Inr ()" "blocked_terminal_call h c = None"
      using prepare_launch [OF p] by metis+
    obtain w2 w3 w4 rq po where checks: "unauthorized ex w = (None, w2)"
      "guard_refuses ex (cl_name c) w2 = (False, w3)"
      and rq: "request_for h ex c (td_risk t) (td_scopes t) w3 = (rq, w4)"
      and policy: "es_policy st = Some po" "td_risk t \<notin> set (deny po)"
        "needs_person c t \<or> \<not> passes_freely po rq (fst (ho_now h w4)) \<Longrightarrow> spends_approval c st st1"
      using prepare_policy [OF p] by metis
    have risk: "rq_risk rq = td_risk t" using request_for_fields [OF rq] by simp
    show ?thesis unfolding p prod.case sum.case
      using basic prepare_launch_approval [OF p] checks rq policy(1,2)
        policy(3) [unfolded passes_freely_def spends_approval_def risk]
      by (intro conjI exI [of _ w2] exI [of _ w3] exI [of _ w4] exI [of _ rq] exI [of _ po] impI) simp_all
  qed
qed

section \<open>The executor as the invoker of a run\<close>

text \<open>
  The world of a run whose tools go through the executor: its state, the tools launched so far,
  in order (an observation: nothing reads it), and the host around it. The provider, the clock, the
  cancellation and the output pools are those of a loop environment over the host.
\<close>

record 'w run_world =
  rw_exec :: exec_state
  rw_launches :: "(tool_call \<times> tool_definition) list"
  rw_host :: 'w

definition on_host :: "('w \<Rightarrow> 'r \<times> 'w) \<Rightarrow> 'w run_world \<Rightarrow> 'r \<times> 'w run_world" where
  "on_host f rw = (let (r, w) = f (rw_host rw) in (r, rw\<lparr>rw_host := w\<rparr>))"

definition launched_by :: "tool_call \<Rightarrow> string + tool_definition \<times> json \<Rightarrow> (tool_call \<times> tool_definition) list" where
  "launched_by c prepared = (case prepared of Inl _ \<Rightarrow> [] | Inr (t, _) \<Rightarrow> [(c, t)])"

definition invoke_call ::
  "'w host \<Rightarrow> 'w executor \<Rightarrow> tool_call \<Rightarrow> 'w run_world \<Rightarrow> tool_progress list \<times> tool_outcome \<times> 'w run_world" where
  "invoke_call h ex c rw =
     (let ((progress, outcome), st, w) = execute h ex c (rw_exec rw) (rw_host rw)
      in (progress, outcome,
          \<lparr>rw_exec = st,
           rw_launches = rw_launches rw @ launched_by c (fst (prepare h ex c (rw_exec rw) (rw_host rw))),
           rw_host = w\<rparr>))"

definition executor_env ::
  "(json, 'w) loop_env \<Rightarrow> 'w host \<Rightarrow> 'w executor \<Rightarrow> (json, 'w run_world) loop_env" where
  "executor_env base h ex =
     \<lparr>le_json = le_json base,
      le_schemas = \<lambda>_. exec_schemas ex,
      le_now = on_host (le_now base),
      le_cancelled = on_host (le_cancelled base),
      le_stream = \<lambda>rq. on_host (le_stream base rq),
      le_approval = \<lambda>c rw. (let (need, st, w) = approval_for h ex c (rw_exec rw) (rw_host rw)
                             in (need, rw\<lparr>rw_exec := st, rw_host := w\<rparr>)),
      le_remember = \<lambda>dec c rw. (let (st, w) = exec_remember h dec c (rw_exec rw) (rw_host rw)
                                 in rw\<lparr>rw_exec := st, rw_host := w\<rparr>),
      le_invoke = invoke_call h ex,
      le_lock = \<lambda>p. on_host (le_lock base p),
      le_unlock = \<lambda>p st rw. rw\<lparr>rw_host := le_unlock base p st (rw_host rw)\<rparr>\<rparr>"

text \<open>The calls a person approved that have not run yet.\<close>

definition open_approvals :: "exec_state \<Rightarrow> string set" where
  "open_approvals st = dom (unwrap_or Map.empty (es_approved st))"

definition launches_ok :: "'w executor \<Rightarrow> nat \<Rightarrow> 'w run_world \<Rightarrow> bool" where
  "launches_ok ex k rw \<longleftrightarrow> finite (open_approvals (rw_exec rw)) \<and>
     length (filter (\<lambda>(c, t). needs_person c t) (rw_launches rw)) +
       card (open_approvals (rw_exec rw)) \<le> k \<and>
     (\<forall>(c, t) \<in> set (rw_launches rw). bt_get (xe_registry ex) (cl_name c) = Some t \<and> td_risk t \<noteq> Privileged)"

lemma take_approval_open:
  "open_approvals (snd (take_approval c st)) = open_approvals st - {cl_id c}"
  "fst (take_approval c st) \<Longrightarrow> cl_id c \<in> open_approvals st"
  by (auto simp: take_approval_def open_approvals_def split: option.splits if_splits)

lemma prepare_open:
  assumes "prepare h ex c st w = (prepared, st', w')"
  shows "open_approvals st' \<subseteq> open_approvals st"
proof (cases prepared)
  case (Inl why)
  then show ?thesis using prepare_refusal assms by (fastforce simp: take_approval_open)
next
  case (Inr launched)
  then have "prepare h ex c st w = (Inr (fst launched, snd launched), st', w')" using assms by simp
  from prepare_launch_approval [OF this] show ?thesis by (auto simp: take_approval_open)
qed

lemma approval_for_open:
  "approval_for h ex c st w = (need, st', w') \<Longrightarrow> open_approvals st' = open_approvals st"
  by (auto simp: approval_for_def Let_def open_approvals_def
      split: option.split_asm prod.split_asm if_split_asm approval_need.split_asm)

lemma exec_remember_open:
  "exec_remember h dec c st w = (st', w') \<Longrightarrow> open_approvals st' \<subseteq> insert (cl_id c) (open_approvals st)"
  by (auto simp: exec_remember_def Let_def open_approvals_def unrestrict_session_def
      split: option.split_asm prod.split_asm if_split_asm)

lemma launches_ok_invoke:
  assumes "invoke_call h ex c rw = (progress, outcome, rw')" and "launches_ok ex k rw"
  shows "launches_ok ex k rw'"
proof -
  obtain prepared st1 w1 where p: "prepare h ex c (rw_exec rw) (rw_host rw) = (prepared, st1, w1)"
    by (cases "prepare h ex c (rw_exec rw) (rw_host rw)")
  have rw': "rw_exec rw' = st1" "rw_launches rw' = rw_launches rw @ launched_by c prepared"
    using assms(1) p by (auto simp: invoke_call_def execute_def Let_def split: sum.splits prod.splits)
  let ?A = "open_approvals (rw_exec rw)" and ?A1 = "open_approvals st1"
  have sub: "?A1 \<subseteq> ?A" by (rule prepare_open [OF p])
  have fin: "finite ?A" using assms(2) by (simp add: launches_ok_def)
  have "length (filter (\<lambda>(c, t). needs_person c t) (launched_by c prepared)) + card ?A1 \<le> card ?A \<and>
      (\<forall>(c, t) \<in> set (launched_by c prepared).
         bt_get (xe_registry ex) (cl_name c) = Some t \<and> td_risk t \<noteq> Privileged)"
  proof (cases prepared)
    case (Inl why)
    then show ?thesis using card_mono [OF fin sub] by (simp add: launched_by_def)
  next
    case (Inr launched)
    then obtain t args where t: "prepared = Inr (t, args)" by (cases launched) auto
    note L = prepare_launch_approval [OF p [unfolded t]]
    show ?thesis
    proof (cases "needs_person c t")
      case True
      then have "cl_id c \<in> ?A" and "?A1 = ?A - {cl_id c}" using L by (simp_all add: take_approval_open)
      then have "card ?A = Suc (card ?A1)" using card.remove [OF fin] by simp
      with t L True show ?thesis by (simp add: launched_by_def)
    next
      case False
      with t L card_mono [OF fin sub] show ?thesis by (simp add: launched_by_def)
    qed
  qed
  with assms(2) sub show ?thesis
    by (auto simp: launches_ok_def rw' intro: finite_subset)
qed

lemma launches_ok_remember:
  assumes "exec_remember h dec c (rw_exec rw) (rw_host rw) = (st, w)" and "launches_ok ex k rw"
  shows "launches_ok ex (Suc k) (rw\<lparr>rw_exec := st, rw_host := w\<rparr>)"
proof -
  have fin: "finite (insert (cl_id c) (open_approvals (rw_exec rw)))"
    using assms(2) by (simp add: launches_ok_def)
  have "card (open_approvals st) \<le> Suc (card (open_approvals (rw_exec rw)))"
    using card_mono [OF fin exec_remember_open [OF assms(1)]] card_insert_if [of "open_approvals (rw_exec rw)"] fin
    by (auto split: if_splits)
  with assms(2) finite_subset [OF exec_remember_open [OF assms(1)] fin] show ?thesis
    by (auto simp: launches_ok_def)
qed

interpretation executor_world: world_invariant "executor_env base h ex" "launches_ok ex" for base h ex
proof
  fix k rw c and dec :: approval_decision
  assume "granted dec" "launches_ok ex k rw"
  then show "launches_ok ex (Suc k) (le_remember (executor_env base h ex) dec c rw)"
    using launches_ok_remember [of h dec c rw _ _ ex k]
    by (simp add: executor_env_def split: prod.split)
next
  fix c rw need rw' k
  assume "le_approval (executor_env base h ex) c rw = (need, rw')" "launches_ok ex k rw"
  then show "launches_ok ex k rw'"
    by (auto simp: executor_env_def launches_ok_def approval_for_open split: prod.splits)
next
  fix c rw progress outcome rw' k
  assume "le_invoke (executor_env base h ex) c rw = (progress, outcome, rw')" "launches_ok ex k rw"
  then show "launches_ok ex k rw'"
    using launches_ok_invoke by (simp add: executor_env_def)
qed (auto simp: executor_env_def on_host_def launches_ok_def Let_def split: prod.splits)

text \<open>
  C5. In a whole session of a run whose registry its tool policy restricted, over every answer of
  the model, however calls fail, are denied or time out: the launches that need a person are at most
  as many as the decisions by which a person granted a call, and no launched tool is privileged,
  outside the installation's registry, or beyond what the profile offers and the caller's trust
  allows.
\<close>

theorem sessions_launch_only_what_was_granted:
  assumes "tools_ok r"
    and "xe_registry ex = apply_policy (resolve_policy r toolsets configured trust servers) r"
    and "es_approved st = Some Map.empty"
    and "session (executor_env base h ex) cfg run history user_input streaming moves
       \<lparr>rw_exec = st, rw_launches = [], rw_host = w\<rparr> = (outcome, s)"
  shows "length (filter (\<lambda>(c, t). needs_person c t) (rw_launches (io_world s))) \<le> grants_in moves \<and>
    (\<forall>(c, t) \<in> set (rw_launches (io_world s)). td_risk t \<noteq> Privileged \<and>
       bt_get r (cl_name c) = Some t \<and> run_offers configured trust r toolsets servers (cl_name c))"
proof -
  have "launches_ok ex 0 \<lparr>rw_exec = st, rw_launches = [], rw_host = w\<rparr>"
    by (simp add: launches_ok_def open_approvals_def assms(3))
  from executor_world.session [OF assms(4) this]
  have ok: "launches_ok ex (grants_in moves) (io_world s)" .
  have "bt_get (xe_registry ex) = bt_get r |` {n. run_offers configured trust r toolsets servers n}"
    unfolding assms(2) by (rule policy_restricts [OF assms(1)])
  with ok show ?thesis
    by (fastforce simp: launches_ok_def restrict_map_def split: if_splits)
qed

section \<open>A sample session\<close>

definition write_tool :: tool_definition where
  "write_tool = \<lparr>td_name = ''fs.write'', td_description = '''', td_parameters = JObject [],
     td_risk = Mutating, td_scopes = [''fs:write'']\<rparr>"

definition write_call :: tool_call where
  "write_call = \<lparr>cl_id = ''c'', cl_name = ''fs.write'', cl_arguments = ''{}''\<rparr>"

definition write_registry :: registry where
  "write_registry = [(''fs.write'', write_tool)]"

definition sample_host :: "nat host" where
  "sample_host = \<lparr>ho_parse = \<lambda>_. Inr (JObject []), ho_print = \<lambda>_. '''', ho_render = \<lambda>_. '''',
     ho_debug = \<lambda>_. '''', ho_duration = \<lambda>_. '''', ho_fresh = \<lambda>w. (''apr-1'', w),
     ho_now = \<lambda>w. (0, w), ho_call = \<lambda>_ _ _ w. (([], Returned (outcome_ok ''done'')), w)\<rparr>"

definition sample_executor :: "nat executor" where
  "sample_executor = fst (executor_new
     (apply_policy (resolve_policy write_registry [''fs.*''] Enforce LocalOperator []) write_registry)
     permissive 1 100)"

definition sample_state :: exec_state where
  "sample_state = snd (executor_new [] permissive 1 100 :: nat executor \<times> exec_state)"

text \<open>A model that asks for the write, and then answers.\<close>

definition sample_base :: "(json, nat) loop_env" where
  "sample_base = \<lparr>le_json = \<lambda>_. '''', le_schemas = \<lambda>_. [],
     le_now = \<lambda>w. (0, w), le_cancelled = \<lambda>w. (False, w),
     le_stream = \<lambda>_ w. (Inr (if w = 0
       then [StreamEvent (ToolCallDelta 0 (Some ''c'') (Some ''fs.write'') (Some ''{}'')),
             StreamEvent (StreamFinished FinToolCalls None)]
       else [StreamEvent (ContentDelta ''ok''), StreamEvent (StreamFinished FinStop None)]), w + 1),
     le_approval = \<lambda>_ w. (AutoApprove, w), le_remember = \<lambda>_ _ w. w,
     le_invoke = \<lambda>_ w. ([], outcome_ok '''', w),
     le_lock = \<lambda>_ w. (pool_new 0, w), le_unlock = \<lambda>_ _ w. w\<rparr>"

lemma sample_executor_registry: "xe_registry sample_executor = write_registry"
  by (simp add: sample_executor_def executor_new_def) code_simp

lemma write_tools_ok: "tools_ok write_registry"
  by (auto simp: tools_ok_def write_registry_def bt_wf_def write_tool_def split: if_splits)

lemma sample_executor_fields:
  "xe_guard sample_executor = None" "xe_authorization sample_executor = None"
  "xe_max_output_bytes sample_executor = 100" "xe_per_call sample_executor = 1"
  by (simp_all add: sample_executor_def executor_new_def)

definition write_request :: approval_request where
  "write_request = fst (request_for sample_host sample_executor write_call Mutating [''fs:write''] 0)"

lemma sample_checks:
  "bt_get (xe_registry sample_executor) (cl_name write_call) = Some write_tool"
  "classify sample_executor write_call = Some (Mutating, [''fs:write''])"
  "unauthorized sample_executor w = (None, w)"
  "guard_refuses sample_executor name w = (False, w)"
  "blocked_terminal_call sample_host write_call = None"
  "parse_arguments sample_host raw = Inr (JObject [])"
  "validate render (td_parameters write_tool) (JObject []) = Inr ()"
  "td_risk write_tool = Mutating" "td_scopes write_tool = [''fs:write'']"
  by (simp_all add: sample_executor_registry sample_executor_fields write_registry_def write_call_def
      write_tool_def classify_def unauthorized_def guard_refuses_def blocked_terminal_call_def
      parse_arguments_def sample_host_def validate_def check.simps check_object.simps check_enum_def
      missing_properties_def undeclared_properties_def declared_def)

lemma sample_asked:
  "request_for sample_host sample_executor write_call Mutating [''fs:write''] w = (write_request, w)"
  by (simp add: write_request_def request_for_def arguments_preview_def write_call_def sample_host_def)

lemma sample_request_fields:
  "rq_id write_request = ''apr-1''" "rq_tool write_request = ''fs.write''"
  "rq_risk write_request = Mutating" "rq_scopes write_request = [''fs:write'']"
  by (simp_all add: write_request_def request_for_def write_call_def sample_host_def Let_def)

lemma sample_need:
  "es_policy st = Some permissive \<Longrightarrow>
     call_need sample_host write_call write_request st w = (Require write_request, w)"
  by (simp add: call_need_def evaluate_def mandatory_ask_def sample_request_fields permissive_def
      sample_host_def)

lemma sample_state_fields:
  "es_policy sample_state = Some permissive" "es_pending sample_state = Some Map.empty"
  "es_approved sample_state = Some Map.empty"
  by (simp_all add: sample_state_def executor_new_def)

text \<open>The call of the sample: asked, refused without an approval, launched with one.\<close>

lemma sample_approval:
  "es_policy st = Some permissive \<Longrightarrow> es_pending st = Some pending \<Longrightarrow>
   approval_for sample_host sample_executor write_call st w =
     (Require write_request,
      st\<lparr>es_pending := Some (pending(cl_id write_call \<mapsto> (write_request, call_key write_call)))\<rparr>, w)"
  by (simp add: approval_for_def sample_checks sample_asked sample_need)

lemma sample_prepare:
  "es_policy st = Some permissive \<Longrightarrow> es_approved st = Some approved \<Longrightarrow>
   prepare sample_host sample_executor write_call st w =
     (if approved (cl_id write_call) = Some (call_key write_call) then Inr (write_tool, JObject [])
      else Inl (''the tool '' @ quoted (cl_name write_call) @ '' requires approval for this call''),
      st\<lparr>es_approved := Some (approved(cl_id write_call := None))\<rparr>, w)"
  by (simp add: prepare_def sample_checks sample_asked sample_need settle_need_def take_approval_def)

theorem every_call_is_checked_witness:
  "fst (execute sample_host sample_executor write_call sample_state 0) =
     ([], outcome_error (''the tool '' @ quoted (cl_name write_call) @ '' requires approval for this call'')) \<and>
   (\<exists>approved. approved (cl_id write_call) = Some (call_key write_call) \<and>
     es_approved (fst (snd (prepare sample_host sample_executor write_call
       (sample_state\<lparr>es_approved := Some approved\<rparr>) 0))) = Some (approved(cl_id write_call := None)))"
proof
  show "fst (execute sample_host sample_executor write_call sample_state 0) =
     ([], outcome_error (''the tool '' @ quoted (cl_name write_call) @ '' requires approval for this call''))"
    using every_call_is_checked [of sample_host sample_executor write_call sample_state 0]
    by (simp add: sample_prepare sample_state_fields)
  have "needs_person write_call write_tool"
    by (simp add: needs_person_def sample_checks)
  then show "\<exists>approved. approved (cl_id write_call) = Some (call_key write_call) \<and>
     es_approved (fst (snd (prepare sample_host sample_executor write_call
       (sample_state\<lparr>es_approved := Some approved\<rparr>) 0))) = Some (approved(cl_id write_call := None))"
    using every_call_is_checked [of sample_host sample_executor write_call
        "sample_state\<lparr>es_approved := Some [cl_id write_call \<mapsto> call_key write_call]\<rparr>" 0]
    by (auto simp: sample_prepare sample_state_fields)
qed

definition sample_exec_env :: "(json, nat run_world) loop_env" where
  "sample_exec_env = executor_env sample_base sample_host sample_executor"

lemma sample_exec_env_world:
  "le_now sample_exec_env rw = (0, rw)" "le_cancelled sample_exec_env rw = (False, rw)"
  "le_stream sample_exec_env rq rw =
     (fst (le_stream sample_base rq (rw_host rw)), rw\<lparr>rw_host := rw_host rw + 1\<rparr>)"
  by (simp_all add: sample_exec_env_def executor_env_def on_host_def sample_base_def)

lemma sample_launch: "launch sample_host sample_executor t write_call args w = ([], outcome_ok ''done'', w)"
  by (simp add: launch_def sample_host_def outcome_ok_def clamp_def sample_executor_fields)

lemma sample_exec_env_ask:
  "es_policy (rw_exec rw) = Some permissive \<Longrightarrow> es_pending (rw_exec rw) = Some pending \<Longrightarrow>
   le_approval sample_exec_env write_call rw =
     (Require write_request, rw\<lparr>rw_exec := (rw_exec rw)\<lparr>es_pending :=
        Some (pending(cl_id write_call \<mapsto> (write_request, call_key write_call)))\<rparr>\<rparr>)"
  by (simp add: sample_exec_env_def executor_env_def sample_approval)

lemma sample_exec_env_remember:
  "es_pending (rw_exec rw) = Some pending \<Longrightarrow> es_approved (rw_exec rw) = Some approved \<Longrightarrow>
   pending (cl_id write_call) = Some (write_request, call_key write_call) \<Longrightarrow>
   le_remember sample_exec_env (decision_grant ''apr-1'') write_call rw =
     rw\<lparr>rw_exec := (rw_exec rw)\<lparr>es_pending := Some (pending(cl_id write_call := None)),
       es_approved := Some (approved(cl_id write_call \<mapsto> call_key write_call))\<rparr>\<rparr>"
proof -
  have "cl_name write_call = ''fs.write''" by (simp add: write_call_def)
  then show "es_pending (rw_exec rw) = Some pending \<Longrightarrow> es_approved (rw_exec rw) = Some approved \<Longrightarrow>
      pending (cl_id write_call) = Some (write_request, call_key write_call) \<Longrightarrow> ?thesis"
    by (simp add: sample_exec_env_def executor_env_def exec_remember_def decision_grant_def
        sample_request_fields Let_def)
qed

lemma sample_exec_env_run:
  "es_policy (rw_exec rw) = Some permissive \<Longrightarrow> es_approved (rw_exec rw) = Some approved \<Longrightarrow>
   approved (cl_id write_call) = Some (call_key write_call) \<Longrightarrow>
   le_invoke sample_exec_env write_call rw =
     ([], outcome_ok ''done'', rw\<lparr>rw_exec := (rw_exec rw)\<lparr>es_approved :=
        Some (approved(cl_id write_call := None))\<rparr>,
      rw_launches := rw_launches rw @ [(write_call, write_tool)]\<rparr>)"
  by (simp add: sample_exec_env_def executor_env_def invoke_call_def execute_def sample_prepare
      launched_by_def sample_launch)

definition sample_run :: "(agent_error + run_outcome) \<times> (json, nat run_world) io" where
  "sample_run = session sample_exec_env sample_config ''run'' [] ''hi'' False
     [Decide (decision_grant ''apr-1'')] \<lparr>rw_exec = sample_state, rw_launches = [], rw_host = 0\<rparr>"

lemma sample_run_launches: "rw_launches (io_world (snd sample_run)) = [(write_call, write_tool)]"
  by (simp add: sample_run_def loop_evaluation drive.simps process_batch.simps sample_exec_env_world
      sample_exec_env_ask sample_exec_env_remember [unfolded decision_grant_def] sample_exec_env_run
      sample_state_fields sample_request_fields sample_base_def write_call_def [symmetric])

theorem sessions_launch_only_what_was_granted_witness:
  "rw_launches (io_world (snd sample_run)) = [(write_call, write_tool)] \<and>
   needs_person write_call write_tool \<and> 1 \<le> grants_in [Decide (decision_grant ''apr-1'')] \<and>
   run_offers Enforce LocalOperator write_registry [''fs.*''] [] ''fs.write''"
proof -
  have run: "session (executor_env sample_base sample_host sample_executor) sample_config ''run'' [] ''hi''
      False [Decide (decision_grant ''apr-1'')] \<lparr>rw_exec = sample_state, rw_launches = [], rw_host = 0\<rparr>
      = (fst sample_run, snd sample_run)"
    by (simp add: sample_run_def sample_exec_env_def)
  have registry: "xe_registry sample_executor = apply_policy
      (resolve_policy write_registry [''fs.*''] Enforce LocalOperator []) write_registry"
    by (simp add: sample_executor_def executor_new_def)
  have person: "needs_person write_call write_tool" by (simp add: needs_person_def sample_checks)
  have name: "cl_name write_call = ''fs.write''" by (simp add: write_call_def)
  show ?thesis
    using sessions_launch_only_what_was_granted
      [OF write_tools_ok registry sample_state_fields(3) run] person
    by (simp add: sample_run_launches name)
qed

end
