(* ===== verification/PoolProperties.thy ===== *)
theory PoolProperties
  imports OutputPool
begin

text \<open>
  The contract of the output pool: a run never spends more than its pool, no account reaches
  what another one holds, a reservation that is not used returns to where it came from, and an
  installed plan divides exactly what was free.
\<close>

section \<open>What a reservation touches\<close>

lemma plan_take_frame [frame_simps]:
  "acc \<noteq> Lead \<Longrightarrow> ps_lead_left (plan_take acc own fu ps) = ps_lead_left ps"
  by (cases acc; simp add: plan_take_def with_share_def)

lemma lend_loop_zero: "lend_loop i 0 ss = ([], ss)"
  by (cases ss) simp_all

lemma lend_zero [simp]: "lend 0 ps = ([], ps)"
  by (simp add: lend_def lend_loop_zero)

lemma draw_not_lead: "acc \<noteq> Lead \<Longrightarrow> snd (draw acc r rest) = 0"
  by (simp add: draw_def)

lemma draw_lead_turn:
  "draw Lead (reachable st Lead Turn) rest = (0, 0)"
  by (auto simp: draw_def reachable_def Let_def is_final_def split: option.splits)

text \<open>A worker's reservation only takes from its own share and, when it may, from the follow-up
  reserve; an ordinary turn of the lead only from the lead's reserve.\<close>

lemma reserve_worker_plan:
  assumes "reserve_in st acc ask p = Some (rv, st')" and "acc \<noteq> Lead" and "po_plan st = Some ps"
  shows "po_plan st' = Some (plan_take acc (rv_own rv) (rv_follow_up rv) ps)" and "rv_lent rv = []"
proof -
  have "draw_plan acc (rv_own rv) (rv_follow_up rv) 0 (po_plan st) = (rv_lent rv, po_plan st')"
    using reserve_in_unfold(7) [OF assms(1)] draw_not_lead [OF assms(2)] by simp
  then show "po_plan st' = Some (plan_take acc (rv_own rv) (rv_follow_up rv) ps)" "rv_lent rv = []"
    by (simp_all add: draw_plan_def assms(3))
qed

lemma reserve_lead_turn_plan:
  assumes "reserve_in st Lead ask Turn = Some (rv, st')" and "po_plan st = Some ps"
  shows "po_plan st' = Some (ps\<lparr>ps_lead_left := ps_lead_left ps - rv_own rv\<rparr>)"
  using reserve_in_unfold(6,7) [OF assms(1)]
  by (simp add: draw_plan_def assms(2) draw_lead_turn plan_take_def)

text \<open>The lead's reserve changes only by the lead's own reservations and settlements.\<close>

definition lead_left_of :: "pool_sys \<Rightarrow> nat option" where
  "lead_left_of s = map_option ps_lead_left (po_plan (sy_pool s))"

definition no_lead_flight :: "pool_sys \<Rightarrow> bool" where
  "no_lead_flight s \<longleftrightarrow> (\<forall>rv \<in> set (sy_flight s). rv_account rv \<noteq> Lead)"

definition worker_event :: "pool_event \<Rightarrow> bool" where
  "worker_event e \<longleftrightarrow> (\<forall>ask p. e \<noteq> EvReserve Lead ask p)"

lemma repay_lead [frame_simps]: "ps_lead_left (repay i t ps) = ps_lead_left ps"
  by (simp add: repay_def)

lemma repay_loop_lead [frame_simps]: "ps_lead_left (repay_loop r ls ps) = ps_lead_left ps"
  by (induction r ls ps rule: repay_loop.induct) (simp_all add: Let_def frame_simps)

lemma give_back_lead [frame_simps]: "acc \<noteq> Lead \<Longrightarrow> ps_lead_left (give_back acc own fu ps) = ps_lead_left ps"
  by (cases acc) (simp_all add: give_back_def with_share_def Let_def)

lemma settle_plan_lead [frame_simps]:
  "rv_account rv \<noteq> Lead \<Longrightarrow> ps_lead_left (settle_plan rv n ps) = ps_lead_left ps"
  by (simp add: settle_plan_def Let_def frame_simps)

lemma lead_left_reserve:
  assumes "acc \<noteq> Lead" and "no_lead_flight s" and "lead_left_of s = Some l"
  shows "lead_left_of (pool_step s (EvReserve acc ask p)) = Some l
    \<and> no_lead_flight (pool_step s (EvReserve acc ask p))"
proof (cases "reserve_in (sy_pool s) acc ask p")
  case (Some x)
  then obtain rv st where r: "reserve_in (sy_pool s) acc ask p = Some (rv, st)" by (cases x) auto
  obtain ps where ps: "po_plan (sy_pool s) = Some ps" "ps_lead_left ps = l"
    using assms(3) by (auto simp: lead_left_of_def)
  show ?thesis
    using assms reserve_worker_plan [OF r assms(1) ps(1)] reserve_in_unfold(3) [OF r] ps(2)
    by (auto simp: r lead_left_of_def no_lead_flight_def frame_simps)
qed (use assms in simp)

lemma lead_left_settle:
  assumes "no_lead_flight s" and "lead_left_of s = Some l"
  shows "lead_left_of (pool_step s (EvSettle i used)) = Some l
    \<and> no_lead_flight (pool_step s (EvSettle i used))"
proof (cases "i < length (sy_flight s)")
  case True
  then have "rv_account (sy_flight s ! i) \<noteq> Lead" using assms(1) by (auto simp: no_lead_flight_def)
  then show ?thesis
    using assms True
    by (cases used) (auto simp: lead_left_of_def no_lead_flight_def charge_Some_sel frame_simps
        dest: in_set_takeD in_set_dropD)
qed (use assms in simp)

lemma lead_left_step:
  assumes "worker_event e" and "no_lead_flight s" and "lead_left_of s = Some l"
  shows "lead_left_of (pool_step s e) = Some l \<and> no_lead_flight (pool_step s e)"
proof (cases e)
  case (EvReserve acc ask p)
  then show ?thesis using assms lead_left_reserve by (auto simp: worker_event_def)
next
  case (EvSettle i used)
  then show ?thesis using assms lead_left_settle by blast
next
  case (EvInstall plan)
  have "po_plan (sy_pool s) \<noteq> None" using assms(3) by (auto simp: lead_left_of_def)
  then have "snd (install (sy_pool s) plan) = sy_pool s"
    by (auto simp: install_def split: sum.splits)
  then show ?thesis using assms(2,3) EvInstall by (simp add: lead_left_of_def no_lead_flight_def)
next
  case (EvClaim role cap)
  then show ?thesis using assms(2,3) claim_plan [of "sy_pool s" role cap]
    by (auto simp: lead_left_of_def no_lead_flight_def redistribute_def with_share_def Let_def)
next
  case (EvRelease role)
  then show ?thesis using assms(2,3)
    by (auto simp: lead_left_of_def no_lead_flight_def release_plan with_share_def)
qed

interpretation lead: step_invariant pool_step "\<lambda>_ e. worker_event e"
  "\<lambda>s. pool_inv s \<and> no_lead_flight s \<and> lead_left_of s = Some l" for l
  using lead_left_step pool.step_inv by unfold_locales blast

lemma lead_ok_run: "list_all worker_event es \<Longrightarrow> lead.ok_run s es"
  by (induction es arbitrary: s) auto

section \<open>Undoing a reservation\<close>

lemma lend_loop_repay:
  assumes "lend_loop i tokens ss = (lent, ss')" and "length pre = i" and "ps_shares ps = pre @ ss'"
    and "shares_left ss \<le> u32_max"
  shows "repay_loop 0 lent ps = ps\<lparr>ps_shares := pre @ ss\<rparr>"
  using assms
proof (induction i tokens ss arbitrary: lent ss' pre ps rule: lend_loop.induct)
  case (2 i tokens s ss)
  consider (stop) "tokens = 0" | (skip) "tokens \<noteq> 0" "sh_stage s \<noteq> Planned \<or> sh_left s = 0"
    | (take) "tokens \<noteq> 0" "\<not> (sh_stage s \<noteq> Planned \<or> sh_left s = 0)"
    by metis
  then show ?case
  proof cases
    case stop
    then show ?thesis using "2.prems" by auto
  next
    case skip
    then obtain r where r: "lend_loop (Suc i) tokens ss = (lent, r)" and ss': "ss' = s # r"
      using "2.prems"(1) by (auto split: prod.splits)
    show ?thesis
      using "2.IH"(1) [OF skip r, of "pre @ [s]" ps] "2.prems" by (simp add: ss' shares_left_def)
  next
    case take
    let ?t = "min tokens (sh_left s)"
    obtain l r where r: "lend_loop (Suc i) (tokens - ?t) ss = (l, r)"
      and lent: "lent = (i, ?t) # l" and ss': "ss' = s\<lparr>sh_left := sh_left s - ?t\<rparr> # r"
      using "2.prems"(1) take by (auto simp: Let_def split: prod.splits)
    have "sat_add32 (sh_left s - ?t) ?t = sh_left s"
      using "2.prems"(4) by (simp add: sat_add32_def shares_left_def)
    then have rep: "repay i ?t ps = ps\<lparr>ps_shares := (pre @ [s]) @ r\<rparr>"
      using "2.prems"(2,3) take(2) by (simp add: repay_def ss' nth_append list_update_append)
    show ?thesis
      using "2.IH"(2) [OF take(1) _ _ r, of "pre @ [s]" "ps\<lparr>ps_shares := (pre @ [s]) @ r\<rparr>"]
        take(2) "2.prems"(2,4) rep
      by (simp add: lent shares_left_def)
  qed
qed simp

lemma update_first_undo:
  assumes "\<And>x. p (f x) = p x" and "\<And>y. find p xs = Some y \<Longrightarrow> g (f y) = y"
  shows "update_first p g (update_first p f xs) = xs"
  using assms(2) by (induction xs) (auto simp: assms(1) split: if_splits)

lemma give_back_take:
  assumes "plan_ok ps" and "own \<le> own_of ps acc" and "fu \<le> ps_follow_up_left ps"
    and "plan_hold ps \<le> u32_max"
  shows "give_back acc own fu (plan_take acc own fu ps) = ps"
proof -
  have fu: "sat_add32 (ps_follow_up_left ps - fu) fu = ps_follow_up_left ps"
    using assms(3,4) by (simp add: sat_add32_def plan_hold_def)
  show ?thesis
  proof (cases acc)
    case Lead
    have "sat_add32 (ps_lead_left ps - own) own = ps_lead_left ps"
      using assms(2,4) by (simp add: sat_add32_def plan_hold_def own_of_def Lead)
    then show ?thesis using fu by (simp add: give_back_def plan_take_def Lead)
  next
    case (Share role)
    let ?f = "\<lambda>s. s\<lparr>sh_left := sh_left s - own\<rparr>"
    let ?g = "\<lambda>s. if sh_stage s = Running then s\<lparr>sh_left := sat_add32 (sh_left s) own\<rparr> else s"
    have "?g (?f y) = y" if y: "find (\<lambda>s. sh_role s = role) (ps_shares ps) = Some y" for y
    proof -
      have le: "sh_left y \<le> u32_max"
        using find_le_sum [OF y, of sh_left] assms(4) by (simp add: plan_hold_def shares_left_def)
      show ?thesis
      proof (cases "find (\<lambda>s. sh_role s = role \<and> sh_stage s = Running) (ps_shares ps)")
        case None
        then have "own = 0" using assms(2) by (simp add: own_of_def Share)
        then show ?thesis using le by simp
      next
        case (Some s)
        then have "y = s" using find_role_running [OF _ Some] assms(1) y by (simp add: plan_ok_def)
        then show ?thesis
          using Some assms(2) le by (auto simp: own_of_def Share sat_add32_def dest: find_SomeD)
      qed
    qed
    then have "update_first (\<lambda>s. sh_role s = role) ?g
        (update_first (\<lambda>s. sh_role s = role) ?f (ps_shares ps)) = ps_shares ps"
      by (intro update_first_undo) simp_all
    then show ?thesis using fu by (simp add: give_back_def plan_take_def Share with_share_def Let_def)
  qed (use fu in \<open>simp_all add: give_back_def plan_take_def\<close>)
qed

lemma settle_plan_unused:
  assumes r: "reserve_in st acc ask p = Some (rv, st')" and fits: "pool_fits st"
    and ps: "po_plan st = Some ps"
  shows "map_option (settle_plan rv 0) (po_plan st') = Some ps"
proof -
  note u = reserve_in_unfold [OF r]
  have hold: "plan_hold ps \<le> u32_max" and ok: "plan_ok ps"
    using fits ps by (auto simp: pool_fits_def pool_hold_def pool_plan_ok_def)
  obtain f v where fv: "draw acc (reachable st acc p) (rv_tokens rv - rv_own rv) = (f, v)" by fastforce
  have "acc = Lead \<or> re_unstarted (reachable st acc p) = 0"
    by (cases "acc = Lead") (simp_all add: reach_parts_le(2) [OF fits])
  note d = draw_spec [OF fv this]
  let ?t = "plan_take acc (rv_own rv) (rv_follow_up rv) ps"
  have "rv_own rv \<le> own_of ps acc" "rv_follow_up rv \<le> ps_follow_up_left ps"
    using d(1) u(5,6) fv by (auto simp: reachable_def ps Let_def split: if_splits)
  note undo = give_back_take [OF ok this hold]
  obtain ss where l: "lend_loop 0 v (ps_shares ?t) = (rv_lent rv, ss)"
    and st': "po_plan st' = Some (?t\<lparr>ps_shares := ss\<rparr>)"
    using u(7) fv by (auto simp: draw_plan_def ps lend_def split: prod.splits)
  show ?thesis
  proof (cases "acc = Lead")
    case True
    have sh: "ps_shares ?t = ps_shares ps" by (simp add: True plan_take_def)
    have gb: "give_back Lead (rv_own rv) (rv_follow_up rv) (?t\<lparr>ps_shares := ss\<rparr>) = ps\<lparr>ps_shares := ss\<rparr>"
      using undo by (cases ps) (simp add: True give_back_def plan_take_def Let_def)
    have le: "shares_left (ps_shares ps) \<le> u32_max" using hold by (simp add: plan_hold_def)
    show ?thesis
      using lend_loop_repay [OF l [unfolded sh], of "[]" "ps\<lparr>ps_shares := ss\<rparr>"] le gb u(3)
      by (simp add: st' settle_plan_def True)
  next
    case False
    then have "ss = ps_shares ?t" "rv_lent rv = []"
      using l fv draw_not_lead [OF False] by (metis lend_loop_zero prod.inject snd_conv)+
    then show ?thesis using undo u(3) by (simp add: st' settle_plan_def Let_def)
  qed
qed

section \<open>Starting a role\<close>

lemma foldl_extra_other:
  "j \<notin> set is \<Longrightarrow>
     foldl (\<lambda>ss (i, extra). ss[i := add_extra extra (ss ! i)]) ss (zip is es) ! j = ss ! j"
  by (induction "is" es arbitrary: ss rule: list_induct2') auto

lemma foldl_extra_length [simp]:
  "length (foldl (\<lambda>ss (i, extra). ss[i := add_extra extra (ss ! i)]) ss (zip is es)) = length ss"
  by (induction "is" es arbitrary: ss rule: list_induct2') auto

lemma redistribute_frame:
  shows "ps_lead_left (redistribute t ps) = ps_lead_left ps"
    and "ps_follow_up_left (redistribute t ps) = ps_follow_up_left ps"
    and "length (ps_shares (redistribute t ps)) = length (ps_shares ps)"
    and "j < length (ps_shares ps) \<Longrightarrow> sh_stage (ps_shares ps ! j) \<noteq> Planned \<Longrightarrow>
           ps_shares (redistribute t ps) ! j = ps_shares ps ! j"
  by (simp_all add: redistribute_def Let_def foldl_extra_other)

lemma update_first_find:
  assumes "find p xs = Some y" and "\<And>x. p (f x) = p x"
  shows "find p (update_first p f xs) = Some (f y)"
  using assms by (induction xs) (auto split: if_splits)

text \<open>Looking a role up by its position, when roles are distinct.\<close>

lemma find_role_nth:
  "distinct (map sh_role ss) \<Longrightarrow> find (\<lambda>s. sh_role s = role) ss = Some s \<longleftrightarrow>
     (\<exists>j < length ss. ss ! j = s \<and> sh_role s = role)"
proof
  assume d: "distinct (map sh_role ss)" and "\<exists>j < length ss. ss ! j = s \<and> sh_role s = role"
  then obtain j where j: "j < length ss" "ss ! j = s" "sh_role s = role" by blast
  have "sh_role (ss ! i) \<noteq> role" if "i < j" for i
    using d j that nth_eq_iff_index_eq [OF d, of i j] by auto
  then show "find (\<lambda>s. sh_role s = role) ss = Some s"
    using j by (auto simp: find_Some_iff)
qed (auto simp: find_Some_iff)

lemma redistribute_find:
  assumes "plan_ok ps" and "t \<le> u32_max"
    and "find (\<lambda>s. sh_role s = role) (ps_shares ps) = Some s" and "sh_stage s \<noteq> Planned"
  shows "find (\<lambda>s. sh_role s = role) (ps_shares (redistribute t ps)) = Some s"
proof -
  obtain j where "j < length (ps_shares ps)" "ps_shares ps ! j = s" "sh_role s = role"
    using assms(1,3) by (auto simp: plan_ok_def find_role_nth)
  moreover have "distinct (map sh_role (ps_shares (redistribute t ps)))"
    using redistribute_hold(2) [OF assms(2), of ps] assms(1) by (simp add: plan_ok_def)
  ultimately show ?thesis
    using assms(4) redistribute_frame(3,4) by (auto simp: find_role_nth)
qed

lemma own_of_running:
  assumes "plan_ok ps" and "find (\<lambda>s. sh_role s = role) (ps_shares ps) = Some s"
    and "sh_stage s = Running"
  shows "own_of ps (Share role) = sh_left s"
proof -
  have "find (\<lambda>s. sh_role s = role \<and> sh_stage s = Running) (ps_shares ps) = Some s"
    using assms(2,3) by (fastforce simp: find_Some_iff)
  then show ?thesis by (simp add: own_of_def)
qed

section \<open>The contract\<close>

lemma pool_step_total: "po_total (sy_pool (pool_step s e)) = po_total (sy_pool s)"
proof (cases e)
  case (EvReserve acc ask p)
  then show ?thesis
    by (auto simp: reserve_in_def Let_def split: option.splits if_splits prod.splits)
next
  case (EvClaim role cap)
  then show ?thesis using claim_plan [of "sy_pool s" role cap] by auto
qed (auto simp: charge_Some_sel install_def release_plan Let_def split: sum.splits)

lemma pool_run_total: "po_total (sy_pool (foldl pool_step s es)) = po_total (sy_pool s)"
  by (induction es arbitrary: s) (simp_all add: pool_step_total)

lemma charge_zero:
  assumes "po_spent st \<le> u32_max" and "po_overrun st = 0" and "po_reserved st + rv_tokens rv \<le> u32_max"
  shows "charge (st\<lparr>po_plan := pl, po_reserved := sat_add32 (po_reserved st) (rv_tokens rv)\<rparr>) rv (Some 0)
       = st\<lparr>po_plan := map_option (settle_plan rv 0) pl\<rparr>"
  using assms by (cases st) (simp add: charge_def sat_add32_exact Let_def)

text \<open>
  C32. No run of reservations, settlements, installations, claims and releases spends more than
  the pool: what was spent, what the turns in flight were granted and what the accounts of the
  plan hold never exceed the pool plus the overrun that providers reported, the reserved amount
  is exactly what the turns in flight were granted, and once any overrun is recorded no account
  is granted anything more.
\<close>

theorem pool_never_overspends:
  assumes "tokens \<le> u32_max"
  shows "(let s = foldl pool_step (sys_new tokens) es; st = sy_pool s in
    po_total st = tokens \<and> po_reserved st = flight_tokens (sy_flight s) \<and>
    po_spent st + flight_tokens (sy_flight s) + pool_hold st \<le> tokens + po_overrun st \<and>
    flight_tokens (sy_flight s) + pool_hold st \<le> tokens \<and>
    (0 < po_overrun st \<longrightarrow> (\<forall>acc ask p. reserve_in st acc ask p = None)))"
proof -
  have "pool_inv (foldl pool_step (sys_new tokens) es)"
    by (rule pool_run_inv) (rule pool_inv_new [OF assms])
  moreover have "po_total (sy_pool (foldl pool_step (sys_new tokens) es)) = tokens"
    by (simp add: pool_run_total sys_new_def pool_new_def)
  ultimately show ?thesis
    by (auto simp: Let_def pool_inv_def pool_fits_def reserve_in_def)
qed

theorem pool_never_overspends_witness:
  "po_spent (sy_pool (foldl pool_step (sys_new 1000) [EvReserve Lead (Some 100) Turn, EvSettle 0 (Some 40)]))
    \<le> 1000 + po_overrun (sy_pool (foldl pool_step (sys_new 1000)
        [EvReserve Lead (Some 100) Turn, EvSettle 0 (Some 40)]))"
  using pool_never_overspends [of 1000 "[EvReserve Lead (Some 100) Turn, EvSettle 0 (Some 40)]"]
  by (simp only: Let_def u32_max_def) linarith

text \<open>
  Every grant is between one token and what the account could reach, never more than was
  asked for (an ask of zero counts as one), comes from at least sixteen reachable tokens, and is
  fully paid for: by the account's own tokens, the follow-up reserve, the lent shares and the
  free rest of the pool. Only the lead borrows from shares.
\<close>

theorem grants_are_bounded_and_paid:
  assumes "pool_fits st" and "reserve_in st acc ask p = Some (rv, st')"
  shows "1 \<le> rv_tokens rv \<and> rv_tokens rv \<le> available_in st acc p \<and> min_grant \<le> available_in st acc p \<and>
    (\<forall>a. ask = Some a \<longrightarrow> rv_tokens rv \<le> max a 1) \<and>
    rv_tokens rv \<le> rv_own rv + rv_follow_up rv + sum_list (map snd (rv_lent rv)) + pool_free st \<and>
    pool_hold st' + (rv_own rv + rv_follow_up rv + sum_list (map snd (rv_lent rv))) = pool_hold st \<and>
    (acc \<noteq> Lead \<longrightarrow> rv_lent rv = [])"
proof -
  note r = reserve_in_Some [OF assms(2,1)] and u = reserve_in_unfold [OF assms(2)]
  have "rv_tokens rv \<le> max a 1" if "ask = Some a" for a
    using u(4) that by (simp add: grant_tokens_def)
  moreover have "rv_lent rv = []" if "acc \<noteq> Lead"
  proof (cases "po_plan st")
    case None
    then show ?thesis using u(7) by (simp add: draw_plan_def)
  qed (use reserve_worker_plan [OF assms(2) that] in blast)
  ultimately show ?thesis using r u(2) by (auto simp: add.assoc)
qed

definition sample_pool :: pool_state where
  "sample_pool = snd (install (pool_new 16000) sample_plan)"

lemma sample_pool_fits: "pool_fits sample_pool" and sample_pool_inv: "pool_inv \<lparr>sy_pool = sample_pool, sy_flight = []\<rparr>"
proof -
  have "pool_inv (pool_step (sys_new 16000) (EvInstall sample_plan))"
    by (rule pool_inv_install, rule pool_inv_new) (simp add: u32_max_def)
  then show i: "pool_inv \<lparr>sy_pool = sample_pool, sy_flight = []\<rparr>"
    by (simp add: sample_pool_def sys_new_def)
  then show "pool_fits sample_pool" by (simp add: pool_inv_def)
qed

lemma sample_alloc: "allocate 16000 sample_plan = \<lparr>al_lead = 4000, al_follow_up = 1600, al_shares = [2600, 7800], al_unallocated = 0\<rparr>" 
 by (simp add: sample_plan_def allocate_def percent_def u32_or_def u32_max_def split_def split_loop.simps Let_def upt_rec is_capped_def proportional_def assign_all_def total_weight_def lead_reserve_percent_def follow_up_reserve_percent_def sat_sum32_def sat_add32_def)
lemma sample_valid: "validate sample_plan = Inr ()" by code_simp

lemma sample_pool_eq: "sample_pool = (pool_new 16000)\<lparr>po_plan := Some
   \<lparr>ps_plan = sample_plan, ps_lead = 4000, ps_lead_left = 4000, ps_follow_up = 1600, ps_follow_up_left = 1600,
    ps_shares = [\<lparr>sh_role = ''researcher'', sh_demand = Light, sh_planned = 2600, sh_cap = None, sh_left = 2600, sh_stage = Planned\<rparr>,
                 \<lparr>sh_role = ''coder'', sh_demand = Heavy, sh_planned = 7800, sh_cap = None, sh_left = 7800, sh_stage = Planned\<rparr>]\<rparr>\<rparr>"
  by (simp add: sample_pool_def install_def sample_valid pool_new_def pool_free_def sample_alloc)
   (simp add: sample_plan_def)

lemma sample_lead_left: "lead_left_of \<lparr>sy_pool = sample_pool, sy_flight = rvs\<rparr> = Some 4000"
  by (simp add: lead_left_of_def sample_pool_eq)

lemma sample_reserve: "\<exists>st. reserve_in sample_pool Lead (Some 9000) Answer = Some
   (\<lparr>rv_account = Lead, rv_tokens = 9000, rv_own = 4000, rv_follow_up = 1600, rv_lent = [(0, 2600), (1, 800)]\<rparr>, st)"
  by (simp add: sample_pool_eq pool_new_def reserve_in_def Let_def reachable_def is_final_def unstarted_def own_of_def pool_free_def held_def sat_sum32_def sat_add32_def u32_max_def
   reach_total_def grant_tokens_def min_grant_def draw_def draw_plan_def plan_take_def lend_def)

theorem grants_are_bounded_and_paid_witness:
  "\<exists>rv st. reserve_in sample_pool Lead (Some 9000) Answer = Some (rv, st) \<and>
     rv_tokens rv \<le> available_in sample_pool Lead Answer \<and> rv_tokens rv = 9000"
proof -
  obtain st where r: "reserve_in sample_pool Lead (Some 9000) Answer = Some (\<lparr>rv_account = Lead,
      rv_tokens = 9000, rv_own = 4000, rv_follow_up = 1600, rv_lent = [(0, 2600), (1, 800)]\<rparr>, st)"
    using sample_reserve by blast
  show ?thesis
    using grants_are_bounded_and_paid [OF sample_pool_fits r] r by auto
qed

text \<open>
  C33. The lead's reserve cannot be reached by anyone else: through any run in which the lead
  itself reserves nothing (workers reserve and settle, roles are claimed and released, plans are
  offered), the reserve keeps its size and the lead can still reserve all of it, unless a
  provider overran its grant.
\<close>

theorem lead_reserve_survives_workers:
  assumes "pool_inv s" and "no_lead_flight s" and "lead_left_of s = Some l"
    and "list_all worker_event es"
  shows "lead_left_of (foldl pool_step s es) = Some l \<and>
    l \<le> available_in (sy_pool (foldl pool_step s es)) Lead p"
proof -
  let ?s = "foldl pool_step s es"
  have *: "pool_inv ?s \<and> no_lead_flight ?s \<and> lead_left_of ?s = Some l"
    by (rule lead.run_inv [OF _ lead_ok_run [OF assms(4)]]) (use assms in simp)
  then have "re_own (reachable (sy_pool ?s) Lead p) = l"
    by (auto simp: lead_left_of_def reachable_def Let_def own_of_def)
  moreover have "pool_fits (sy_pool ?s)" using * by (simp add: pool_inv_def)
  ultimately show ?thesis
    using * reach_total_exact by (simp add: available_in_def)
qed

theorem lead_reserve_survives_workers_witness:
  "4000 \<le> available_in (sy_pool (foldl pool_step \<lparr>sy_pool = sample_pool, sy_flight = []\<rparr>
     [EvClaim ''coder'' None, EvReserve (Share ''coder'') None Continuation])) Lead Turn"
  using lead_reserve_survives_workers [of "\<lparr>sy_pool = sample_pool, sy_flight = []\<rparr>" 4000
      "[EvClaim ''coder'' None, EvReserve (Share ''coder'') None Continuation]" Turn]
  by (simp add: sample_pool_inv no_lead_flight_def sample_lead_left worker_event_def del: foldl.simps pool_step.simps)

text \<open>
  A reservation that is settled with no use leaves no trace: the whole state of the pool,
  including the account's own tokens, the follow-up reserve and every share that lent, is what
  it was before the reservation.
\<close>

theorem unused_reservation_is_undone:
  assumes "pool_fits st" and "po_spent st \<le> u32_max" and "reserve_in st acc ask p = Some (rv, st')"
    and "po_reserved st + rv_tokens rv \<le> u32_max"
  shows "charge st' rv (Some 0) = st"
proof -
  note u = reserve_in_unfold [OF assms(3)]
  have "map_option (settle_plan rv 0) (po_plan st') = po_plan st"
  proof (cases "po_plan st")
    case None
    then show ?thesis using u(7) by (simp add: draw_plan_def)
  next
    case (Some ps)
    then show ?thesis using settle_plan_unused [OF assms(3,1) Some] by simp
  qed
  moreover have "charge st' rv (Some 0)
      = st\<lparr>po_plan := map_option (settle_plan rv 0) (po_plan st')\<rparr>"
    using charge_zero [OF assms(2) u(1) assms(4), of "po_plan st'"] u(8) by simp
  ultimately show ?thesis by simp
qed

theorem unused_reservation_is_undone_witness:
  "\<exists>rv st. reserve_in sample_pool Lead (Some 9000) Answer = Some (rv, st) \<and>
     charge st rv (Some 0) = sample_pool"
proof -
  obtain st where r: "reserve_in sample_pool Lead (Some 9000) Answer = Some (\<lparr>rv_account = Lead,
      rv_tokens = 9000, rv_own = 4000, rv_follow_up = 1600, rv_lent = [(0, 2600), (1, 800)]\<rparr>, st)"
    using sample_reserve by blast
  show ?thesis
    using unused_reservation_is_undone [OF sample_pool_fits _ r] r
    by (simp add: sample_pool_eq pool_new_def u32_max_def)
qed

text \<open>
  A plan is installed at most once, and only before any overrun. The installation divides
  exactly what was free: the accounts hold the free amount except the unallocated rest, which
  stays free. A refused plan changes nothing.
\<close>

theorem install_divides_the_free_amount:
  assumes "pool_fits st"
  shows "(case install st plan of
      (Inl _, st') \<Rightarrow> st' = st
    | (Inr al, st') \<Rightarrow>
        po_plan st = None \<and> po_overrun st = 0 \<and> al = allocate (pool_free st) plan \<and>
        pool_hold st' + al_unallocated al = pool_free st \<and> pool_free st' = al_unallocated al \<and>
        pool_fits st' \<and> (\<exists>e. install st' plan' = (Inl e, st')))"
proof (cases "install st plan")
  case (Pair r st')
  show ?thesis
  proof (cases r)
    case (Inl e)
    then show ?thesis using install_Inl Pair by fastforce
  next
    case (Inr al)
    from install_Inr [OF _ assms] Pair Inr obtain ps where
      st': "st' = st\<lparr>po_plan := Some ps\<rparr>" and ok: "plan_ok ps" and none: "po_plan st = None"
        and h: "plan_hold ps + al_unallocated al = pool_free st" by metis
    have free: "pool_free st = po_total st - po_spent st - po_reserved st"
      using none by (simp add: pool_free_def)
    then have "plan_hold ps \<le> u32_max" and fit: "po_reserved st + plan_hold ps \<le> po_total st"
      using h assms none by (auto simp: pool_fits_def pool_hold_def)
    then have "pool_free st' = al_unallocated al"
      using h free by (simp add: st' pool_free_def held_exact)
    moreover have "pool_fits st'"
      using assms ok fit by (simp add: st' pool_fits_def pool_hold_def pool_plan_ok_def)
    moreover have "\<exists>e. install st' plan' = (Inl e, st')"
      by (cases "validate plan'") (auto simp: install_def st')
    ultimately show ?thesis
      using install_Inr [OF _ assms] Pair Inr h by (auto simp: st' pool_hold_def)
  qed
qed

theorem install_divides_the_free_amount_witness:
  "\<exists>al. fst (install (pool_new 16000) sample_plan) = Inr al \<and>
     pool_hold sample_pool + al_unallocated al = 16000"
  using install_divides_the_free_amount [of "pool_new 16000" sample_plan]
  by (auto simp: sample_pool_def pool_fits_def pool_new_def u32_max_def pool_hold_def pool_plan_ok_def
      install_def sample_valid pool_free_def Let_def)

text \<open>
  A planned role starts once: its first claim becomes the role's running share with at most
  its own cap, gives the excess only to roles that have not started, leaves the reserves alone
  and creates no tokens; a second claim of the role is a repeat that gets the follow-up account
  and changes nothing. After the release, the role holds nothing.
\<close>

theorem claim_starts_a_role_once:
  assumes "pool_fits st" and "po_plan st = Some ps"
    and "find (\<lambda>s. sh_role s = role) (ps_shares ps) = Some share" and "sh_stage share = Planned"
  shows "\<exists>ps'. claim st role cap = (Share role, True, st\<lparr>po_plan := Some ps'\<rparr>) \<and>
    own_of ps' (Share role) = (case cap of None \<Rightarrow> sh_left share | Some c \<Rightarrow> min (sh_left share) c) \<and>
    ps_lead_left ps' = ps_lead_left ps \<and> ps_follow_up_left ps' = ps_follow_up_left ps \<and>
    plan_hold ps' \<le> plan_hold ps \<and>
    claim (st\<lparr>po_plan := Some ps'\<rparr>) role cap' = (FollowUp, False, st\<lparr>po_plan := Some ps'\<rparr>) \<and>
    (\<exists>q. po_plan (release (st\<lparr>po_plan := Some ps'\<rparr>) role) = Some q \<and> own_of q (Share role) = 0)"
proof -
  define excess where "excess = (case cap of None \<Rightarrow> 0 | Some c \<Rightarrow> sh_left share - c)"
  define g :: "share_state \<Rightarrow> share_state" where "g = (\<lambda>s. s\<lparr>sh_stage := Running, sh_cap := cap, sh_left := sh_left s - excess,
                 sh_planned := sh_planned s - excess\<rparr>)"
  let ?ps = "redistribute excess (with_share role g ps)"
  let ?r = "\<lambda>s. if sh_stage s = Running then s\<lparr>sh_stage := Released, sh_left := 0\<rparr> else s"
  have ok: "plan_ok ps" and h: "plan_hold ps \<le> u32_max"
    using assms by (auto simp: pool_fits_def pool_hold_def pool_plan_ok_def)
  have ex: "excess \<le> sh_left share" by (cases cap) (simp_all add: excess_def)
  have gs: "sh_role (g s) = sh_role s" for s by (simp add: g_def)
  have hold: "plan_hold (with_share role g ps) + excess = plan_hold ps"
    using with_share_hold [OF assms(3), of g] ex by (simp add: g_def)
  then have e32: "excess \<le> u32_max" using h by linarith
  have ok': "plan_ok (with_share role g ps)" "plan_ok ?ps"
    using ok redistribute_hold(2) [OF e32] by (simp_all add: with_share_ok gs)
  have found: "find (\<lambda>s. sh_role s = role) (ps_shares (with_share role g ps)) = Some (g share)"
    using update_first_find [OF assms(3)] gs by (simp add: with_share_def)
  have found': "find (\<lambda>s. sh_role s = role) (ps_shares ?ps) = Some (g share)"
    using redistribute_find [OF ok'(1) e32 found] by (simp add: g_def)
  have c: "claim st role cap = (Share role, True, st\<lparr>po_plan := Some ?ps\<rparr>)"
    using assms(2-4) by (simp add: claim_def excess_def g_def Let_def)
  have own: "own_of ?ps (Share role) = sh_left share - excess"
    using own_of_running [OF ok'(2) found'] by (simp add: g_def)
  have rel: "find (\<lambda>s. sh_role s = role) (ps_shares (with_share role ?r ?ps)) = Some (?r (g share))"
    using update_first_find [OF found', of ?r] by (simp add: with_share_def)
  have "own_of (with_share role ?r ?ps) (Share role) = 0"
  proof (cases "find (\<lambda>s. sh_role s = role \<and> sh_stage s = Running) (ps_shares (with_share role ?r ?ps))")
    case (Some s)
    then have "find (\<lambda>s. sh_role s = role) (ps_shares (with_share role ?r ?ps)) = Some s"
      using ok'(2) by (intro find_role_running) (simp_all add: with_share_ok flip: plan_ok_def)
    then show ?thesis using Some rel by (auto simp: g_def dest: find_SomeD)
  qed (simp add: own_of_def)
  then have "\<exists>q. po_plan (release (st\<lparr>po_plan := Some ?ps\<rparr>) role) = Some q \<and> own_of q (Share role) = 0"
    by (simp add: release_def)
  moreover have "claim (st\<lparr>po_plan := Some ?ps\<rparr>) role cap' = (FollowUp, False, st\<lparr>po_plan := Some ?ps\<rparr>)"
    by (simp add: claim_def found') (simp add: g_def)
  moreover have "plan_hold ?ps \<le> plan_hold ps"
    using redistribute_hold(1) [OF e32, of "with_share role g ps"] hold by linarith
  moreover have "own_of ?ps (Share role) = (case cap of None \<Rightarrow> sh_left share | Some c \<Rightarrow> min (sh_left share) c)"
    using own ex by (auto simp: excess_def split: option.splits)
  moreover have "ps_lead_left ?ps = ps_lead_left ps" "ps_follow_up_left ?ps = ps_follow_up_left ps"
    by (simp_all add: redistribute_frame with_share_def)
  ultimately show ?thesis using c by blast
qed

theorem claim_starts_a_role_once_witness:
  "fst (claim sample_pool ''coder'' (Some 1000)) = Share ''coder''"
  using claim_starts_a_role_once [OF sample_pool_fits, of _ "''coder''" _ "Some 1000"]
  by (fastforce simp: sample_pool_eq)

end
