(* ===== verification/Admission.thy ===== *)
theory Admission
  imports Prelude
begin

text \<open>
  The admission of workers (\<open>Admission::admit\<close> in \<open>crates/lightagent-tools/src/budget.rs\<close>): an
  installation-wide semaphore and one per requesting profile, the immediate attempt, and the
  wait that first takes a permit of the profile and then a global one.

  Each worker is in one phase; a step takes or returns permits of one worker, in any
  interleaving. A waiting worker keeps, until \<open>admit\<close> returns, the permits its immediate attempt
  took: the tuple \<open>immediate\<close> stays in scope for the whole function when its pattern does not
  match. The queue timeout, a cancellation and the end of a running worker are events the
  environment chooses. A semaphore is never closed.
\<close>

section \<open>State and steps\<close>

text \<open>\<open>Waiting kp kg hp\<close>: the permits kept from the immediate attempt (profile, global), and
  whether the wait has taken its permit of the profile.\<close>

datatype phase = Admitted | Waiting bool bool bool | Gone

record worker =
  wk_profile :: string
  wk_phase :: phase

record admission_state =
  ad_global :: nat
  ad_profiles :: "string \<Rightarrow> nat"
  ad_workers :: "worker list"

fun profile_permits :: "phase \<Rightarrow> nat" where
  "profile_permits Admitted = 1"
| "profile_permits (Waiting kp kg hp) = of_bool kp + of_bool hp"
| "profile_permits Gone = 0"

fun global_permits :: "phase \<Rightarrow> nat" where
  "global_permits Admitted = 1"
| "global_permits (Waiting kp kg hp) = of_bool kg"
| "global_permits Gone = 0"

definition admission_new :: "nat \<Rightarrow> nat \<Rightarrow> admission_state" where
  "admission_new global per_profile =
     \<lparr>ad_global = global, ad_profiles = (\<lambda>_. per_profile), ad_workers = []\<rparr>"

text \<open>The immediate attempt: \<open>try_acquire\<close> on both semaphores, in the order of the tuple.\<close>

definition attempt :: "admission_state \<Rightarrow> string \<Rightarrow> phase" where
  "attempt s p =
     (if ad_profiles s p > 0 \<and> ad_global s > 0 then Admitted
      else Waiting (ad_profiles s p > 0) (ad_global s > 0) False)"

definition move_to :: "nat \<Rightarrow> phase \<Rightarrow> admission_state \<Rightarrow> admission_state" where
  "move_to i ph s =
     (let w = ad_workers s ! i; p = wk_profile w; old = wk_phase w
      in \<lparr>ad_global = ad_global s + global_permits old - global_permits ph,
          ad_profiles = (ad_profiles s)(p := ad_profiles s p + profile_permits old - profile_permits ph),
          ad_workers = (ad_workers s)[i := w\<lparr>wk_phase := ph\<rparr>]\<rparr>)"

definition enter :: "string \<Rightarrow> admission_state \<Rightarrow> admission_state" where
  "enter p s =
     (let ph = attempt s p
      in \<lparr>ad_global = ad_global s - global_permits ph,
          ad_profiles = (ad_profiles s)(p := ad_profiles s p - profile_permits ph),
          ad_workers = ad_workers s @ [\<lparr>wk_profile = p, wk_phase = ph\<rparr>]\<rparr>)"

inductive admission_step :: "admission_state \<Rightarrow> admission_state \<Rightarrow> bool" where
  enter: "admission_step s (enter p s)"
| take_profile: "\<lbrakk>i < length (ad_workers s); wk_phase (ad_workers s ! i) = Waiting kp kg False;
     ad_profiles s (wk_profile (ad_workers s ! i)) > 0\<rbrakk>
   \<Longrightarrow> admission_step s (move_to i (Waiting kp kg True) s)"
| take_global: "\<lbrakk>i < length (ad_workers s); wk_phase (ad_workers s ! i) = Waiting kp kg True;
     ad_global s > 0\<rbrakk>
   \<Longrightarrow> admission_step s (move_to i Admitted s)"
| leave: "\<lbrakk>i < length (ad_workers s)\<rbrakk> \<Longrightarrow> admission_step s (move_to i Gone s)"

inductive_cases admission_stepE: "admission_step s s'"

abbreviation admission_reach :: "admission_state \<Rightarrow> admission_state \<Rightarrow> bool" where
  "admission_reach \<equiv> admission_step\<^sup>*\<^sup>*"

section \<open>The permits are conserved\<close>

definition profile_held :: "string \<Rightarrow> worker list \<Rightarrow> nat" where
  "profile_held p ws = sum_list (map (\<lambda>w. if wk_profile w = p then profile_permits (wk_phase w) else 0) ws)"

definition global_held :: "worker list \<Rightarrow> nat" where
  "global_held ws = sum_list (map (\<lambda>w. global_permits (wk_phase w)) ws)"

definition admission_inv :: "nat \<Rightarrow> nat \<Rightarrow> admission_state \<Rightarrow> bool" where
  "admission_inv gcap pcap s \<longleftrightarrow>
     ad_global s + global_held (ad_workers s) = gcap \<and>
     (\<forall>p. ad_profiles s p + profile_held p (ad_workers s) = pcap)"

lemma sum_list_update_nat:
  fixes f :: "'a \<Rightarrow> nat"
  shows "i < length xs \<Longrightarrow> sum_list (map f (xs[i := y])) + f (xs ! i) = sum_list (map f xs) + f y"
  by (induction xs arbitrary: i) (auto split: nat.splits simp: nth_Cons)

lemma held_mem:
  assumes "i < length ws"
  shows "profile_permits (wk_phase (ws ! i)) \<le> profile_held (wk_profile (ws ! i)) ws"
    and "global_permits (wk_phase (ws ! i)) \<le> global_held ws"
  using elem_le_sum_list [of i "map (\<lambda>w. if wk_profile w = wk_profile (ws ! i) then profile_permits (wk_phase w) else 0) ws"]
    elem_le_sum_list [of i "map (\<lambda>w. global_permits (wk_phase w)) ws"] assms
  by (simp_all add: profile_held_def global_held_def)

lemma held_update:
  assumes "i < length ws"
  shows "global_held (ws[i := (ws ! i)\<lparr>wk_phase := ph\<rparr>]) + global_permits (wk_phase (ws ! i))
      = global_held ws + global_permits ph"
    and "profile_held (wk_profile (ws ! i)) (ws[i := (ws ! i)\<lparr>wk_phase := ph\<rparr>])
        + profile_permits (wk_phase (ws ! i)) = profile_held (wk_profile (ws ! i)) ws + profile_permits ph"
    and "p \<noteq> wk_profile (ws ! i) \<Longrightarrow>
      profile_held p (ws[i := (ws ! i)\<lparr>wk_phase := ph\<rparr>]) = profile_held p ws"
proof -
  let ?f = "\<lambda>p w. if wk_profile w = p then profile_permits (wk_phase w) else 0"
  note u = sum_list_update_nat [OF assms]
  show "global_held (ws[i := (ws ! i)\<lparr>wk_phase := ph\<rparr>]) + global_permits (wk_phase (ws ! i))
      = global_held ws + global_permits ph"
    using u [of "\<lambda>w. global_permits (wk_phase w)" "(ws ! i)\<lparr>wk_phase := ph\<rparr>"]
    by (simp add: global_held_def)
  show "profile_held (wk_profile (ws ! i)) (ws[i := (ws ! i)\<lparr>wk_phase := ph\<rparr>])
        + profile_permits (wk_phase (ws ! i)) = profile_held (wk_profile (ws ! i)) ws + profile_permits ph"
    using u [of "?f (wk_profile (ws ! i))" "(ws ! i)\<lparr>wk_phase := ph\<rparr>"]
    by (simp add: profile_held_def)
  assume "p \<noteq> wk_profile (ws ! i)"
  then show "profile_held p (ws[i := (ws ! i)\<lparr>wk_phase := ph\<rparr>]) = profile_held p ws"
    using u [of "?f p" "(ws ! i)\<lparr>wk_phase := ph\<rparr>"] by (simp add: profile_held_def)
qed

lemma move_inv:
  assumes inv: "admission_inv gcap pcap s" and i: "i < length (ad_workers s)"
    and g: "global_permits ph \<le> ad_global s + global_permits (wk_phase (ad_workers s ! i))"
    and p: "profile_permits ph \<le> ad_profiles s (wk_profile (ad_workers s ! i))
              + profile_permits (wk_phase (ad_workers s ! i))"
  shows "admission_inv gcap pcap (move_to i ph s)"
proof -
  let ?w = "ad_workers s ! i"
  note h = held_update [OF i, where ph = ph]
  have "ad_global s + global_permits (wk_phase ?w) - global_permits ph
      + global_held ((ad_workers s)[i := ?w\<lparr>wk_phase := ph\<rparr>]) = gcap"
    using h(1) g inv unfolding admission_inv_def by linarith
  moreover have "ad_profiles s (wk_profile ?w) + profile_permits (wk_phase ?w) - profile_permits ph
      + profile_held (wk_profile ?w) ((ad_workers s)[i := ?w\<lparr>wk_phase := ph\<rparr>]) = pcap"
    using h(2) p inv [unfolded admission_inv_def, THEN conjunct2, rule_format, of "wk_profile ?w"]
    by linarith
  moreover have "ad_profiles s q + profile_held q ((ad_workers s)[i := ?w\<lparr>wk_phase := ph\<rparr>]) = pcap"
    if "q \<noteq> wk_profile ?w" for q
    using h(3) [OF that] inv by (simp add: admission_inv_def)
  ultimately show ?thesis by (simp add: admission_inv_def move_to_def Let_def)
qed

lemma enter_inv:
  assumes "admission_inv gcap pcap s"
  shows "admission_inv gcap pcap (enter p s)"
proof -
  have "global_permits (attempt s p) \<le> ad_global s" "profile_permits (attempt s p) \<le> ad_profiles s p"
    by (auto simp: attempt_def)
  then show ?thesis
    using assms by (auto simp: admission_inv_def enter_def Let_def global_held_def profile_held_def)
qed

lemma admission_step_inv:
  "admission_step s s' \<Longrightarrow> admission_inv gcap pcap s \<Longrightarrow> admission_inv gcap pcap s'"
  by (induction rule: admission_step.induct) (auto intro!: enter_inv move_inv)

lemma admission_reach_inv:
  "admission_reach s s' \<Longrightarrow> admission_inv gcap pcap s \<Longrightarrow> admission_inv gcap pcap s'"
  by (induction rule: rtranclp_induct) (auto intro: admission_step_inv)

lemma admission_inv_new: "admission_inv gcap pcap (admission_new gcap pcap)"
  by (simp add: admission_inv_def admission_new_def global_held_def profile_held_def)

lemma move_same:
  "i < length (ad_workers s) \<Longrightarrow>
     ad_workers (move_to j ph s) ! i = (if i = j then (ad_workers s ! i)\<lparr>wk_phase := ph\<rparr> else ad_workers s ! i)"
  "length (ad_workers (move_to j ph s)) = length (ad_workers s)"
  by (auto simp: move_to_def Let_def)

section \<open>Properties\<close>

text \<open>
  However workers enter, wait, run and leave, at most as many run at once as the
  installation admits, and of each profile at most as many as a profile may run; every permit is
  either free or held by exactly one worker.
\<close>

theorem running_workers_are_bounded:
  assumes "admission_reach (admission_new gcap pcap) s"
  shows "length (filter (\<lambda>w. wk_phase w = Admitted) (ad_workers s)) \<le> gcap \<and>
    length (filter (\<lambda>w. wk_profile w = p \<and> wk_phase w = Admitted) (ad_workers s)) \<le> pcap \<and>
    ad_global s + global_held (ad_workers s) = gcap \<and>
    ad_profiles s p + profile_held p (ad_workers s) = pcap"
proof -
  have inv: "admission_inv gcap pcap s"
    by (rule admission_reach_inv [OF assms admission_inv_new])
  have "length (filter (\<lambda>w. wk_phase w = Admitted) ws) \<le> global_held ws" for ws
    by (induction ws) (auto simp: global_held_def)
  moreover have "length (filter (\<lambda>w. wk_profile w = p \<and> wk_phase w = Admitted) ws) \<le> profile_held p ws" for ws
    by (induction ws) (auto simp: profile_held_def)
  note run = calculation(1) [of "ad_workers s"] this [of "ad_workers s"]
  have "ad_global s + global_held (ad_workers s) = gcap"
    "ad_profiles s p + profile_held p (ad_workers s) = pcap"
    using inv by (simp_all add: admission_inv_def)
  then show ?thesis using run by linarith
qed

theorem running_workers_are_bounded_witness:
  "length (filter (\<lambda>w. wk_phase w = Admitted) (ad_workers (enter ''b'' (enter ''a'' (admission_new 4 1))))) \<le> 4"
proof -
  have "admission_reach (admission_new 4 1) (enter ''b'' (enter ''a'' (admission_new 4 1)))"
    by (meson admission_step.enter rtranclp.rtrancl_refl rtranclp.rtrancl_into_rtrancl)
  from running_workers_are_bounded [OF this] show ?thesis by blast
qed

text \<open>
  C37. With one worker per profile (the default), a worker that finds its profile free but the
  installation full is never admitted: it keeps the only permit of its profile from the
  immediate attempt and then waits for a second one. Whatever the other workers do, also when
  all of them leave, it stays where it is until it gives up.
\<close>

theorem a_full_installation_starves_the_next_profile:
  assumes "admission_reach (admission_new gcap 1) s" and "ad_global s = 0" and "ad_profiles s p = 1"
    and "admission_reach (enter p s) s'"
  shows "wk_phase (ad_workers s' ! length (ad_workers s)) \<in> {Waiting True False False, Gone} \<and>
    length (ad_workers s) < length (ad_workers s')"
proof -
  let ?i = "length (ad_workers s)"
  have inv: "admission_inv gcap 1 s" by (rule admission_reach_inv [OF assms(1) admission_inv_new])
  have "wk_phase (ad_workers s' ! ?i) \<in> {Waiting True False False, Gone} \<and> ?i < length (ad_workers s')
      \<and> admission_inv gcap 1 s'"
    using assms(4)
  proof (induction rule: rtranclp_induct)
    case base
    have "attempt s p = Waiting True False False" using assms(2,3) by (simp add: attempt_def)
    then have "wk_phase (ad_workers (enter p s) ! ?i) = Waiting True False False \<and> ?i < length (ad_workers (enter p s))"
      by (simp add: enter_def Let_def)
    then show ?case using enter_inv [OF inv] by simp
  next
    case (step t t')
    let ?w = "ad_workers t ! ?i"
    have inv': "admission_inv gcap 1 t'" using step admission_step_inv by blast
    have stuck: "ad_profiles t (wk_profile ?w) = 0" if "wk_phase ?w = Waiting True False False"
    proof -
      have "1 \<le> profile_held (wk_profile ?w) (ad_workers t)"
        using held_mem(1) [of ?i "ad_workers t"] step.IH that by simp
      moreover have "ad_profiles t (wk_profile ?w) + profile_held (wk_profile ?w) (ad_workers t) = 1"
        using step.IH by (simp add: admission_inv_def)
      ultimately show ?thesis by linarith
    qed
    from step.hyps(2) show ?case
    proof cases
      case (enter q)
      then show ?thesis using step.IH inv' by (auto simp: enter_def Let_def nth_append)
    qed (use step.IH stuck inv' in \<open>auto simp: move_same split: if_splits\<close>)
  qed
  then show ?thesis by blast
qed

text \<open>The installation's single slot is taken by profile \<open>a\<close>; after it is free again, \<open>b\<close> still waits.\<close>

theorem a_full_installation_starves_the_next_profile_witness:
  "wk_phase (ad_workers (move_to 0 Gone (enter ''b'' (enter ''a'' (admission_new 1 1)))) ! 1)
     \<in> {Waiting True False False, Gone}
   \<and> ad_global (move_to 0 Gone (enter ''b'' (enter ''a'' (admission_new 1 1)))) = 1"
proof -
  let ?s = "enter ''a'' (admission_new 1 1)"
  have "admission_reach (admission_new 1 1) ?s"
    using admission_step.enter by blast
  moreover have "admission_reach (enter ''b'' ?s) (move_to 0 Gone (enter ''b'' ?s))"
    by (rule r_into_rtranclp, rule admission_step.leave) (simp add: enter_def Let_def)
  moreover have "ad_global ?s = 0" "ad_profiles ?s ''b'' = 1" "length (ad_workers ?s) = 1"
    by (simp_all add: enter_def attempt_def admission_new_def Let_def)
  ultimately show ?thesis
    using a_full_installation_starves_the_next_profile [of 1 ?s "''b''" "move_to 0 Gone (enter ''b'' ?s)"]
    by (simp add: move_to_def enter_def attempt_def admission_new_def Let_def)
qed

end
