(* ===== verification/Credentials.thy ===== *)
theory Credentials
  imports Identity "HOL-Library.Word"
begin

text \<open>
  Installation-issued API credentials (\<open>crates/lightagent-core/src/identity/credential.rs\<close>): the
  token format, the stored verifier, issue, rotation, revocation and authentication, with the
  hexadecimal rendering of \<open>ids.rs\<close>.

  SHA-256 is a parameter (\<open>sha\<close>, from bytes to the bytes of the digest), and so is the entropy of
  the operating system: the bytes drawn, or \<open>None\<close> when it is unavailable. Times are seconds.
\<close>

unbundle bit_operations_syntax

section \<open>Tokens and verifiers\<close>

definition hex_digit :: "nat \<Rightarrow> char" where
  "hex_digit v = (if v \<le> 9 then char_of (48 + v) else char_of (97 + (v - 10)))"

definition hex_bytes :: "nat list \<Rightarrow> string" where
  "hex_bytes bytes = concat (map (\<lambda>b. [hex_digit (b div 16), hex_digit (b mod 16)]) bytes)"

definition token_prefix :: string where
  "token_prefix = ''la_''"

definition key_id_bytes :: nat where
  "key_id_bytes = 8"

definition secret_bytes :: nat where
  "secret_bytes = 32"

definition is_lower_hex :: "char \<Rightarrow> bool" where
  "is_lower_hex c \<longleftrightarrow> is_digit c \<or> (CHR ''a'' \<le> c \<and> c \<le> CHR ''f'')"

definition lower_hex :: "string \<Rightarrow> nat \<Rightarrow> bool" where
  "lower_hex value len \<longleftrightarrow> length value = len \<and> list_all is_lower_hex value"

definition parse_token :: "string \<Rightarrow> (string \<times> string) option" where
  "parse_token token =
     (case strip_prefix token_prefix token of
        None \<Rightarrow> None
      | Some rest \<Rightarrow> (case split_once (CHR ''_'') rest of
          None \<Rightarrow> None
        | Some (key_id, secret) \<Rightarrow>
            if lower_hex key_id (key_id_bytes * 2) \<and> lower_hex secret (secret_bytes * 2)
            then Some (key_id, secret) else None))"

definition verifier_label :: string where
  "verifier_label = ''lightagent api credential verifier v1'' @ [CHR 0x00]"

definition verifier :: "(string \<Rightarrow> nat list) \<Rightarrow> string \<Rightarrow> string \<Rightarrow> string" where
  "verifier sha key_id secret =
     ''v1:'' @ hex_bytes (sha (verifier_label @ key_id @ [CHR 0x00] @ secret))"

definition byte :: "char \<Rightarrow> 8 word" where
  "byte c = of_nat (of_char c)"

definition constant_time_eq :: "string \<Rightarrow> string \<Rightarrow> bool" where
  "constant_time_eq a b =
     (if length a \<noteq> length b then False
      else foldl (\<lambda>acc (x, y). acc OR (byte x XOR byte y)) 0 (zip a b) = 0)"

section \<open>The store\<close>

record credential_record =
  cr_key_id :: string
  cr_principal :: string
  cr_role :: role
  cr_verifier :: string
  cr_restriction :: restriction
  cr_created :: nat
  cr_revoked :: "nat option"
  cr_expires :: "nat option"
  cr_replaces :: "string option"

datatype credential_error = Entropy | Unknown | KeyRevoked | Expiry

type_synonym credential_store = "(string, credential_record) btree"

definition issue_expiring ::
  "(string \<Rightarrow> nat list) \<Rightarrow> nat list option \<Rightarrow> nat list option \<Rightarrow> string \<Rightarrow> role \<Rightarrow> restriction \<Rightarrow> nat
    \<Rightarrow> nat option \<Rightarrow> credential_store \<Rightarrow> (credential_error + string \<times> string) \<times> credential_store" where
  "issue_expiring sha key secret pid role restr now expires st =
     (if (case expires of None \<Rightarrow> False | Some at \<Rightarrow> at \<le> now) then (Inl Expiry, st)
      else case (key, secret) of
          (Some k, Some s) \<Rightarrow>
            (let key_id = hex_bytes k
             in if bt_get st key_id \<noteq> None then (Inl Entropy, st)
                else
                  let secret = hex_bytes s;
                      record = \<lparr>cr_key_id = key_id, cr_principal = pid, cr_role = role,
                        cr_verifier = verifier sha key_id secret, cr_restriction = restr,
                        cr_created = now, cr_revoked = None, cr_expires = expires,
                        cr_replaces = None\<rparr>
                  in (Inr (key_id, token_prefix @ key_id @ ''_'' @ secret),
                      bt_insert key_id record st))
        | _ \<Rightarrow> (Inl Entropy, st))"

definition issue ::
  "(string \<Rightarrow> nat list) \<Rightarrow> nat list option \<Rightarrow> nat list option \<Rightarrow> string \<Rightarrow> role \<Rightarrow> restriction \<Rightarrow> nat
    \<Rightarrow> credential_store \<Rightarrow> (credential_error + string) \<times> credential_store" where
  "issue sha key secret pid role restr now st =
     (case issue_expiring sha key secret pid role restr now None st of
        (Inl e, st') \<Rightarrow> (Inl e, st')
      | (Inr (_, token), st') \<Rightarrow> (Inr token, st'))"

definition rotate ::
  "(string \<Rightarrow> nat list) \<Rightarrow> nat list option \<Rightarrow> nat list option \<Rightarrow> string \<Rightarrow> nat \<Rightarrow> nat option
    \<Rightarrow> credential_store \<Rightarrow> (credential_error + string \<times> string) \<times> credential_store" where
  "rotate sha key secret key_id now expires st =
     (case bt_get st key_id of
        None \<Rightarrow> (Inl Unknown, st)
      | Some old \<Rightarrow>
          if cr_revoked old \<noteq> None then (Inl KeyRevoked, st)
          else case issue_expiring sha key secret (cr_principal old) (cr_role old)
                 (cr_restriction old) now expires st of
              (Inl e, st') \<Rightarrow> (Inl e, st')
            | (Inr (new_id, token), st') \<Rightarrow>
                (Inr (new_id, token), bt_update new_id (\<lambda>r. r\<lparr>cr_replaces := Some key_id\<rparr>) st'))"

definition affected :: "string \<Rightarrow> credential_record \<Rightarrow> bool" where
  "affected pid r \<longleftrightarrow> cr_principal r = pid \<and> cr_revoked r = None"

definition revoke_principal ::
  "string \<Rightarrow> nat \<Rightarrow> credential_store \<Rightarrow> string list \<times> credential_store" where
  "revoke_principal pid now st =
     (map (\<lambda>(_, r). cr_key_id r) (filter (\<lambda>(_, r). affected pid r) st),
      map (\<lambda>(k, r). if affected pid r then (k, r\<lparr>cr_revoked := Some now\<rparr>) else (k, r)) st)"

definition revoke :: "string \<Rightarrow> nat \<Rightarrow> credential_store \<Rightarrow> (credential_error + unit) \<times> credential_store" where
  "revoke key_id now st =
     (case bt_get st key_id of
        None \<Rightarrow> (Inl Unknown, st)
      | Some _ \<Rightarrow> (Inr (), bt_update key_id
          (\<lambda>r. r\<lparr>cr_revoked := (case cr_revoked r of Some t \<Rightarrow> Some t | None \<Rightarrow> Some now)\<rparr>) st))"

definition caller_from :: "credential_record \<Rightarrow> nat \<Rightarrow> denial + caller" where
  "caller_from r now =
     (if cr_revoked r \<noteq> None then Inl Revoked
      else if (case cr_expires r of None \<Rightarrow> False | Some at \<Rightarrow> now \<ge> at) then Inl Expired
      else Inr \<lparr>ca_principal = \<lparr>pr_id = cr_principal r, pr_role = cr_role r,
                                pr_source = Credential (cr_key_id r)\<rparr>,
                ca_restriction = cr_restriction r\<rparr>)"

definition authenticate_at ::
  "(string \<Rightarrow> nat list) \<Rightarrow> credential_store \<Rightarrow> string \<Rightarrow> nat \<Rightarrow> denial + caller" where
  "authenticate_at sha st token now =
     (case parse_token token of
        None \<Rightarrow> Inl Unauthenticated
      | Some (key_id, secret) \<Rightarrow> (case bt_get st key_id of
          None \<Rightarrow> Inl Unauthenticated
        | Some record \<Rightarrow>
            if \<not> constant_time_eq (verifier sha key_id secret) (cr_verifier record)
            then Inl Unauthenticated
            else caller_from record now))"

definition caller_for_at :: "credential_store \<Rightarrow> string \<Rightarrow> nat \<Rightarrow> denial + caller" where
  "caller_for_at st key_id now =
     (case bt_get st key_id of None \<Rightarrow> Inl Revoked | Some record \<Rightarrow> caller_from record now)"

section \<open>Lemmas on tokens\<close>

lemma byte_inject: "byte x = byte y \<longleftrightarrow> x = y"
proof
  assume "byte x = byte y"
  then have "unat (byte x) = unat (byte y)" by simp
  then have "(of_char x :: nat) mod 256 = of_char y mod 256" by (simp add: byte_def unat_of_nat)
  moreover have "(of_char x :: nat) < 256" "(of_char y :: nat) < 256" by simp_all
  ultimately show "x = y" by simp
qed simp

lemma word_or_zero: "(a OR b = 0) \<longleftrightarrow> (a = 0 \<and> b = (0 :: 8 word))"
  by (auto simp: bit_eq_iff bit_or_iff)

lemma word_xor_zero: "(a XOR b = 0) \<longleftrightarrow> (a = (b :: 8 word))"
  by (auto simp: bit_eq_iff bit_xor_iff)

lemma foldl_or_zero:
  "foldl (\<lambda>acc (x, y). acc OR (byte x XOR byte y)) a ps = 0
     \<longleftrightarrow> a = 0 \<and> (\<forall>(x, y) \<in> set ps. x = y)"
  by (induction ps arbitrary: a) (auto simp: word_or_zero byte_inject word_xor_zero)

lemma constant_time_eq_iff [simp]: "constant_time_eq a b \<longleftrightarrow> a = b"
proof (cases "length a = length b")
  case True
  have "(\<forall>(x, y) \<in> set (zip a b). x = y) \<longleftrightarrow> a = b"
    using True by (auto simp: set_zip list_eq_iff_nth_eq)
  then show ?thesis using True by (simp add: constant_time_eq_def foldl_or_zero)
qed (auto simp: constant_time_eq_def)

lemma hex_digit_lower:
  assumes "v < 16"
  shows "is_lower_hex (hex_digit v)"
proof (cases "v \<le> 9")
  case True
  then have "(48 + v) mod 256 = 48 + v" by simp
  then show ?thesis using True
    by (simp add: hex_digit_def is_lower_hex_def is_digit_def less_eq_char_def)
next
  case False
  then have "(97 + (v - 10)) mod 256 = 97 + (v - 10)" using assms by simp
  then show ?thesis using False assms
    by (simp add: hex_digit_def is_lower_hex_def less_eq_char_def)
qed

lemma hex_bytes_length [simp]: "length (hex_bytes bs) = 2 * length bs"
  by (induction bs) (simp_all add: hex_bytes_def)

lemma hex_bytes_lower: "list_all (\<lambda>b. b < 256) bs \<Longrightarrow> list_all is_lower_hex (hex_bytes bs)"
  by (induction bs) (auto simp: hex_bytes_def intro!: hex_digit_lower)

lemma lower_hex_no_underscore: "list_all is_lower_hex s \<Longrightarrow> CHR ''_'' \<notin> set s"
  by (auto simp: list_all_iff is_lower_hex_def is_digit_def less_eq_char_def)

lemma split_once_append: "c \<notin> set a \<Longrightarrow> split_once c (a @ c # b) = Some (a, b)"
  by (induction a) auto

lemma parse_token_format:
  assumes "lower_hex key_id (key_id_bytes * 2)" and "lower_hex secret (secret_bytes * 2)"
  shows "parse_token (token_prefix @ key_id @ ''_'' @ secret) = Some (key_id, secret)"
proof -
  have "strip_prefix token_prefix (token_prefix @ key_id @ ''_'' @ secret) = Some (key_id @ CHR ''_'' # secret)"
    by (simp add: strip_prefix_Some)
  moreover have "split_once (CHR ''_'') (key_id @ CHR ''_'' # secret) = Some (key_id, secret)"
    using assms by (intro split_once_append lower_hex_no_underscore) (simp add: lower_hex_def)
  ultimately show ?thesis using assms by (simp add: parse_token_def)
qed

lemma parse_token_Some:
  assumes "parse_token token = Some (key_id, secret)"
  shows "token = token_prefix @ key_id @ ''_'' @ secret"
  using assms by (auto simp: parse_token_def strip_prefix_Some dest: split_once_Some
      split: option.splits prod.splits if_splits)

section \<open>The store as a state machine\<close>

datatype credential_event =
    Issue "nat list option" "nat list option" string role restriction nat "nat option"
  | Rotate "nat list option" "nat list option" string nat "nat option"
  | RevokeKey string nat
  | RevokePrincipal string nat

fun credential_step :: "(string \<Rightarrow> nat list) \<Rightarrow> credential_store \<Rightarrow> credential_event \<Rightarrow> credential_store" where
  "credential_step sha st (Issue key secret pid role restr now expires) =
     snd (issue_expiring sha key secret pid role restr now expires st)"
| "credential_step sha st (Rotate key secret key_id now expires) =
     snd (rotate sha key secret key_id now expires st)"
| "credential_step sha st (RevokeKey key_id now) = snd (revoke key_id now st)"
| "credential_step sha st (RevokePrincipal pid now) = snd (revoke_principal pid now st)"

lemma issue_Inr:
  "issue_expiring sha key secret pid role restr now expires st = (Inr (key_id, token), st') \<Longrightarrow>
     \<exists>k s. key = Some k \<and> secret = Some s \<and> key_id = hex_bytes k \<and> bt_get st key_id = None \<and>
       (\<forall>at. expires = Some at \<longrightarrow> now < at) \<and> token = token_prefix @ key_id @ ''_'' @ hex_bytes s \<and>
       st' = bt_insert key_id \<lparr>cr_key_id = key_id, cr_principal = pid, cr_role = role,
         cr_verifier = verifier sha key_id (hex_bytes s), cr_restriction = restr, cr_created = now,
         cr_revoked = None, cr_expires = expires, cr_replaces = None\<rparr> st"
  by (auto simp: issue_expiring_def Let_def split: option.splits if_splits)

lemma issue_Inl: "issue_expiring sha key secret pid role restr now expires st = (Inl e, st') \<Longrightarrow> st' = st"
  by (auto simp: issue_expiring_def Let_def split: option.splits if_splits)

lemma issue_get:
  "bt_get st k = Some r \<Longrightarrow> bt_get (snd (issue_expiring sha key secret pid role restr now expires st)) k = Some r"
  by (auto simp: issue_expiring_def Let_def bt_simps split: option.splits)

lemma revoke_principal_get:
  "bt_get (snd (revoke_principal pid now st)) k =
     map_option (\<lambda>r. if affected pid r then r\<lparr>cr_revoked := Some now\<rparr> else r) (bt_get st k)"
  by (induction st) (auto simp: revoke_principal_def)

text \<open>No operation brings a revoked credential back, or changes whose it is.\<close>

definition same_holder :: "credential_record \<Rightarrow> credential_record \<Rightarrow> bool" where
  "same_holder a b \<longleftrightarrow> cr_principal a = cr_principal b \<and> cr_role a = cr_role b
     \<and> cr_verifier a = cr_verifier b \<and> cr_key_id a = cr_key_id b \<and> cr_expires a = cr_expires b
     \<and> cr_restriction a = cr_restriction b"

lemma credential_step_get:
  assumes "bt_get st k = Some r"
  shows "\<exists>r'. bt_get (credential_step sha st e) k = Some r' \<and> same_holder r r' \<and>
    (cr_revoked r \<noteq> None \<longrightarrow> cr_revoked r' = cr_revoked r)"
proof (cases e)
  case (Issue key secret pid role restr now expires)
  then show ?thesis using issue_get [OF assms] by (simp add: same_holder_def)
next
  case (Rotate key secret key_id now expires)
  show ?thesis
  proof (cases "bt_get st key_id")
    case (Some old)
    show ?thesis
    proof (cases "issue_expiring sha key secret (cr_principal old) (cr_role old) (cr_restriction old) now expires st")
      case (Pair x st')
      have "bt_get st' k = Some r"
        using issue_get [OF assms, of sha key secret "cr_principal old" "cr_role old"
            "cr_restriction old" now expires] Pair by simp
      then show ?thesis
        using assms Some Pair by (cases x) (auto simp: Rotate rotate_def same_holder_def bt_simps)
    qed
  qed (use assms in \<open>simp add: Rotate rotate_def same_holder_def\<close>)
next
  case (RevokeKey key_id now)
  then show ?thesis using assms
    by (auto simp: revoke_def bt_simps same_holder_def split: option.splits)
next
  case (RevokePrincipal pid now)
  then show ?thesis using assms
    by (auto simp: revoke_principal_get same_holder_def affected_def)
qed

lemma revoke_principal_Some:
  assumes "bt_get (snd (revoke_principal pid now st)) k = Some r"
  shows "\<exists>r0. bt_get st k = Some r0 \<and> same_holder r0 r \<and>
    (cr_revoked r0 \<noteq> None \<longrightarrow> cr_revoked r \<noteq> None) \<and> (cr_principal r = pid \<longrightarrow> cr_revoked r \<noteq> None)"
proof -
  obtain r0 where r0: "bt_get st k = Some r0"
    "r = (if affected pid r0 then r0\<lparr>cr_revoked := Some now\<rparr> else r0)"
    using assms by (auto simp: revoke_principal_get)
  then show ?thesis
    by (cases "affected pid r0") (auto simp: same_holder_def affected_def)
qed

definition revoked_key :: "string \<Rightarrow> credential_store \<Rightarrow> bool" where
  "revoked_key k st \<longleftrightarrow> (\<exists>r. bt_get st k = Some r \<and> cr_revoked r \<noteq> None)"

interpretation revoked: step_invariant "credential_step sha" "\<lambda>_ _. True" "revoked_key k" for sha k
proof
  fix st e
  assume "revoked_key k st"
  then obtain r where r: "bt_get st k = Some r" "cr_revoked r \<noteq> None" by (auto simp: revoked_key_def)
  from credential_step_get [OF r(1)] obtain r' where
    "bt_get (credential_step sha st e) k = Some r'" "cr_revoked r \<noteq> None \<longrightarrow> cr_revoked r' = cr_revoked r"
    by blast
  then show "revoked_key k (credential_step sha st e)" using r(2) by (simp add: revoked_key_def)
qed

lemma revoked_key_run: "revoked_key k st \<Longrightarrow> revoked_key k (foldl (credential_step sha) st es)"
  by (rule revoked.run_inv_total) simp_all

lemma authenticate_Inr:
  assumes "authenticate_at sha st tok t = Inr caller"
  shows "\<exists>i x r. parse_token tok = Some (i, x) \<and> bt_get st i = Some r \<and> cr_verifier r = verifier sha i x \<and>
    cr_revoked r = None \<and> (\<forall>at. cr_expires r = Some at \<longrightarrow> t < at) \<and>
    pr_id (ca_principal caller) = cr_principal r \<and> pr_role (ca_principal caller) = cr_role r"
proof -
  obtain i x r where p: "parse_token tok = Some (i, x)" "bt_get st i = Some r"
    "verifier sha i x = cr_verifier r" "caller_from r t = Inr caller"
    using assms by (auto simp: authenticate_at_def split: option.splits if_splits)
  then show ?thesis
    by (intro exI [of _ i] exI [of _ x] exI [of _ r])
      (auto simp: caller_from_def split: if_splits option.splits)
qed

section \<open>Properties\<close>

text \<open>
  A credential works and nothing else does: the issued token parses into its key id and
  secret and authenticates as the principal, role and restriction it was issued for until it
  expires, and the same caller is found by the key id; every token that authenticates in any
  store names a record that is neither revoked nor expired and whose verifier is that of the
  token's own key id and secret.
\<close>

theorem issued_tokens_authenticate:
  assumes "issue_expiring sha (Some k) (Some s) pid role restr now expires st = (Inr (key_id, token), st')"
    and "length k = 8" and "length s = 32" and "list_all (\<lambda>b. b < 256) (k @ s)"
  shows "authenticate_at sha st' token t =
      (if (case expires of None \<Rightarrow> False | Some at \<Rightarrow> at \<le> t) then Inl Expired
       else Inr \<lparr>ca_principal = \<lparr>pr_id = pid, pr_role = role, pr_source = Credential key_id\<rparr>,
                 ca_restriction = restr\<rparr>) \<and>
    caller_for_at st' key_id t = authenticate_at sha st' token t \<and>
    (\<forall>tok caller. authenticate_at sha st'' tok t = Inr caller \<longrightarrow>
       (\<exists>i x r. tok = ''la_'' @ i @ ''_'' @ x \<and> bt_get st'' i = Some r \<and> cr_verifier r = verifier sha i x \<and>
          cr_revoked r = None \<and> (\<forall>at. cr_expires r = Some at \<longrightarrow> t < at) \<and>
          pr_id (ca_principal caller) = cr_principal r \<and> pr_role (ca_principal caller) = cr_role r))"
proof -
  note i = issue_Inr [OF assms(1)]
  have lh: "lower_hex (hex_bytes k) (key_id_bytes * 2)" "lower_hex (hex_bytes s) (secret_bytes * 2)"
    using assms(2-4) by (simp_all add: lower_hex_def key_id_bytes_def secret_bytes_def hex_bytes_lower)
  have p: "parse_token token = Some (key_id, hex_bytes s)"
    using i parse_token_format [OF lh] by auto
  have g: "bt_get st' key_id = Some \<lparr>cr_key_id = key_id, cr_principal = pid, cr_role = role,
         cr_verifier = verifier sha key_id (hex_bytes s), cr_restriction = restr, cr_created = now,
         cr_revoked = None, cr_expires = expires, cr_replaces = None\<rparr>"
    using i by (auto simp: bt_simps)
  have "\<exists>i x r. tok = ''la_'' @ i @ ''_'' @ x \<and> bt_get st'' i = Some r \<and> cr_verifier r = verifier sha i x \<and>
          cr_revoked r = None \<and> (\<forall>at. cr_expires r = Some at \<longrightarrow> t < at) \<and>
          pr_id (ca_principal caller) = cr_principal r \<and> pr_role (ca_principal caller) = cr_role r"
    if "authenticate_at sha st'' tok t = Inr caller" for tok caller
    using authenticate_Inr [OF that] parse_token_Some [of tok] unfolding token_prefix_def by blast
  moreover have "authenticate_at sha st' token t =
      (if (case expires of None \<Rightarrow> False | Some at \<Rightarrow> at \<le> t) then Inl Expired
       else Inr \<lparr>ca_principal = \<lparr>pr_id = pid, pr_role = role, pr_source = Credential key_id\<rparr>,
                 ca_restriction = restr\<rparr>)"
    by (auto simp: authenticate_at_def p g caller_from_def split: option.splits)
  moreover have "caller_for_at st' key_id t = authenticate_at sha st' token t"
    by (simp add: authenticate_at_def caller_for_at_def p g)
  ultimately show ?thesis by blast
qed

theorem issued_tokens_authenticate_witness:
  "\<exists>key_id token st'. issue_expiring (\<lambda>_. [1, 2]) (Some (replicate 8 7)) (Some (replicate 32 200))
       ''ana'' User no_restriction 100 (Some 200) [] = (Inr (key_id, token), st') \<and>
     authenticate_at (\<lambda>_. [1, 2]) st' token 150 = Inr \<lparr>ca_principal = \<lparr>pr_id = ''ana'', pr_role = User,
       pr_source = Credential key_id\<rparr>, ca_restriction = no_restriction\<rparr>"
proof -
  obtain key_id token st' where
    i: "issue_expiring (\<lambda>_. [1, 2]) (Some (replicate 8 7)) (Some (replicate 32 200))
       ''ana'' User no_restriction 100 (Some 200) [] = (Inr (key_id, token), st')"
    by (simp add: issue_expiring_def Let_def)
  show ?thesis
    using issued_tokens_authenticate [OF i, of 150 "[]"] i by (auto simp: list_all_iff)
qed

text \<open>
  Revocation is final: once a credential is revoked, by its key or with its principal, no
  sequence of later issues, rotations and revocations lets it authenticate or be resolved by its
  key id again, at any time; and suspending a principal revokes every credential it has.
\<close>

theorem revoked_credentials_never_authenticate:
  assumes "revoked_key key_id st"
  shows "(\<forall>token secret t caller. parse_token token = Some (key_id, secret) \<longrightarrow>
      authenticate_at sha (foldl (credential_step sha) st es) token t \<noteq> Inr caller) \<and>
    caller_for_at (foldl (credential_step sha) st es) key_id t = Inl Revoked \<and>
    (\<forall>k r. bt_get (snd (revoke_principal pid now st)) k = Some r \<and> cr_principal r = pid \<longrightarrow>
       revoked_key k (snd (revoke_principal pid now st)))"
proof -
  let ?st = "foldl (credential_step sha) st es"
  have "revoked_key key_id ?st" by (rule revoked_key_run [OF assms])
  then obtain r where r: "bt_get ?st key_id = Some r" "cr_revoked r \<noteq> None"
    unfolding revoked_key_def by blast
  have "authenticate_at sha ?st token t \<noteq> Inr caller"
    if "parse_token token = Some (key_id, secret)" for token secret t caller
  proof
    assume "authenticate_at sha ?st token t = Inr caller"
    from authenticate_Inr [OF this] that r show False by auto
  qed
  moreover have "caller_for_at ?st key_id t = Inl Revoked"
    using r by (simp add: caller_for_at_def caller_from_def)
  moreover have "revoked_key k (snd (revoke_principal pid now st))"
    if "bt_get (snd (revoke_principal pid now st)) k = Some r" "cr_principal r = pid" for k r
    using revoke_principal_Some [OF that(1)] that unfolding revoked_key_def by blast
  ultimately show ?thesis by blast
qed

definition sample_credential :: credential_record where
  "sample_credential = \<lparr>cr_key_id = ''k1'', cr_principal = ''ana'', cr_role = User, cr_verifier = ''v1:'',
     cr_restriction = no_restriction, cr_created = 1, cr_revoked = Some 5, cr_expires = None,
     cr_replaces = None\<rparr>"

theorem revoked_credentials_never_authenticate_witness:
  "caller_for_at (foldl (credential_step (\<lambda>_. [])) [(''k1'', sample_credential)]
     [Rotate (Some [1]) (Some [2]) ''k1'' 9 None, RevokeKey ''k1'' 12]) ''k1'' 20 = Inl Revoked"
proof -
  have "revoked_key ''k1'' [(''k1'', sample_credential)]"
    by (simp add: revoked_key_def sample_credential_def)
  then show ?thesis
    using revoked_credentials_never_authenticate [of "''k1''" "[(''k1'', sample_credential)]" "\<lambda>_. []"
        "[Rotate (Some [1]) (Some [2]) ''k1'' 9 None, RevokeKey ''k1'' 12]" 20 "''ana''" 0]
    by (simp del: foldl.simps)
qed

end
