(* ===== verification/IdentityStore.thy ===== *)
theory IdentityStore
  imports Credentials
begin

text \<open>
  The durable identity store (\<open>crates/lightagent-core/src/identity/store.rs\<close>): the document of
  principals, credentials, ownership, bindings and idempotency records, the operations of a
  transaction with their checks, the transaction itself with its audit, generation and recovery
  copy, and the ownership that counts for authorization.

  The JSON codec (\<open>serde_json\<close>), SHA-256, entropy and the outcome of each file operation are
  parameters. A file operation that fails leaves its file as it was: \<open>write_durable\<close> replaces a
  file by a rename. The cross-process lock makes a transaction one step. Marker files are a map
  from profiles to their content. The generation is a natural number: at one transaction per
  nanosecond \<open>u64\<close> lasts for centuries.
\<close>

section \<open>The document\<close>

definition schema_version :: nat where
  "schema_version = 1"

definition max_idempotency :: nat where
  "max_idempotency = 10000"

definition max_reassignments :: nat where
  "max_reassignments = 10000"

datatype principal_status = Active | Suspended

record external_identity =
  ei_issuer :: string
  ei_subject :: string

record principal_record =
  pp_id :: string
  pp_role :: role
  pp_status :: principal_status
  pp_created :: nat
  pp_updated :: nat
  pp_external :: "external_identity option"

record reassignment =
  ra_profile :: string
  ra_from :: string
  ra_to :: string
  ra_by :: string
  ra_at :: nat

record idempotency =
  ie_fingerprint :: string
  ie_generation :: nat
  ie_at :: nat

datatype continuity_action = ContinuityBind | ContinuityRevoke

record provisioning_continuity =
  pc_continuity_id :: string
  pc_sequence :: nat
  pc_ledger_generation_seen :: nat
  pc_last_operation :: string
  pc_last_action :: continuity_action

record identity_document =
  id_schema :: nat
  id_generation :: nat
  id_principals :: "(string, principal_record) btree"
  id_trusted_issuers :: "string set"
  id_credentials :: credential_store
  id_ownership :: ownership_registry
  id_bindings :: "(string, string) btree"
  id_reassignments :: "reassignment list"
  id_idempotency :: "(string, idempotency) btree"
  id_continuity :: "provisioning_continuity option"

definition empty_document :: identity_document where
  "empty_document = \<lparr>id_schema = schema_version, id_generation = 0, id_principals = [],
     id_trusted_issuers = {}, id_credentials = [], id_ownership = [], id_bindings = [],
     id_reassignments = [], id_idempotency = [], id_continuity = None\<rparr>"

definition external_principal :: "identity_document \<Rightarrow> external_identity \<Rightarrow> string option" where
  "external_principal d identity =
     map_option (\<lambda>(_, r). pp_id r) (find (\<lambda>(_, r). pp_external r = Some identity) (id_principals d))"

definition has_idempotency_key_with_prefix :: "identity_document \<Rightarrow> string \<Rightarrow> bool" where
  "has_idempotency_key_with_prefix d prefix \<longleftrightarrow>
     list_ex (\<lambda>(key, _). is_prefix_of prefix key) (id_idempotency d)"

section \<open>Errors\<close>

datatype refusal = PrincipalExists | UnknownPrincipal | PrincipalInactive
  | DuplicateExternalIdentity | UntrustedIssuer | InvalidIssuer | ProfileMissing | OwnerMustBeUser
  | OperatorOnlyRestriction | UnknownCredential | IdempotencyConflict | ContinuityMismatch

fun refusal_code :: "refusal \<Rightarrow> string" where
  "refusal_code PrincipalExists = ''principal_exists''"
| "refusal_code UnknownPrincipal = ''unknown_principal''"
| "refusal_code PrincipalInactive = ''principal_inactive''"
| "refusal_code DuplicateExternalIdentity = ''duplicate_external_identity''"
| "refusal_code UntrustedIssuer = ''untrusted_issuer''"
| "refusal_code InvalidIssuer = ''invalid_issuer''"
| "refusal_code ProfileMissing = ''profile_missing''"
| "refusal_code OwnerMustBeUser = ''owner_must_be_user''"
| "refusal_code OperatorOnlyRestriction = ''operator_only_restriction''"
| "refusal_code UnknownCredential = ''unknown_credential''"
| "refusal_code IdempotencyConflict = ''idempotency_conflict''"
| "refusal_code ContinuityMismatch = ''continuity_mismatch''"

datatype store_error = SIo string | SCorrupt | SIncompatibleSchema nat nat | SMigrationFailed nat
  | SDenied denial | SRefused refusal | SOwnership ownership_error | SCredential credential_error

section \<open>Transactions\<close>

type_synonym event = "audit_action \<times> string option \<times> string option \<times> string option"

record tx_env =
  te_actor :: caller
  te_now :: nat
  te_sha :: "string \<Rightarrow> nat list"
  te_profile_exists :: "string \<Rightarrow> bool"

record tx =
  tx_doc :: identity_document
  tx_events :: "event list"
  tx_markers :: "string \<Rightarrow> string option"

text \<open>How writing a binding marker ends: its sixteen random bytes, or which step failed.\<close>

datatype bind_outcome = BindOk "nat list" | BindNoEntropy | BindWriteFailed string

type_synonym 'a tx_result = "(store_error + 'a) \<times> tx"

definition require :: "tx_env \<Rightarrow> capability \<Rightarrow> store_error option" where
  "require env c =
     (case authorize_capability (te_actor env) c of Inl d \<Rightarrow> Some (SDenied d) | Inr _ \<Rightarrow> None)"

definition require_for :: "tx_env \<Rightarrow> role \<Rightarrow> store_error option" where
  "require_for env r = require env (case r of User \<Rightarrow> Provision | Operator \<Rightarrow> Administer)"

definition event :: "audit_action \<Rightarrow> string option \<Rightarrow> string option \<Rightarrow> string option \<Rightarrow> tx \<Rightarrow> tx" where
  "event a profile subj key t = t\<lparr>tx_events := tx_events t @ [(a, profile, subj, key)]\<rparr>"

definition active_principal :: "identity_document \<Rightarrow> string \<Rightarrow> store_error + principal_record" where
  "active_principal d i =
     (case bt_get (id_principals d) i of
        None \<Rightarrow> Inl (SRefused UnknownPrincipal)
      | Some r \<Rightarrow> if pp_status r \<noteq> Active then Inl (SRefused PrincipalInactive) else Inr r)"

definition on_doc :: "(identity_document \<Rightarrow> identity_document) \<Rightarrow> tx \<Rightarrow> tx" where
  "on_doc f t = t\<lparr>tx_doc := f (tx_doc t)\<rparr>"

definition set_continuity :: "tx_env \<Rightarrow> provisioning_continuity \<Rightarrow> tx \<Rightarrow> unit tx_result" where
  "set_continuity env c t =
     (case require env Provision of
        Some e \<Rightarrow> (Inl e, t)
      | None \<Rightarrow> (Inr (), on_doc (\<lambda>d. d\<lparr>id_continuity := Some c\<rparr>) t))"

fun contains_ws :: "string \<Rightarrow> bool" where
  "contains_ws [] = False"
| "contains_ws (c # cs) = (list_ex (\<lambda>w. is_prefix_of w (c # cs)) ws_seqs \<or> contains_ws cs)"

definition valid_issuer :: "string \<Rightarrow> bool" where
  "valid_issuer issuer \<longleftrightarrow>
     is_prefix_of ''https://'' issuer \<and> length issuer \<le> 256 \<and> \<not> contains_ws issuer"

definition trust_issuer :: "tx_env \<Rightarrow> string \<Rightarrow> tx \<Rightarrow> unit tx_result" where
  "trust_issuer env issuer t =
     (case require env Administer of
        Some e \<Rightarrow> (Inl e, t)
      | None \<Rightarrow>
          if \<not> valid_issuer issuer then (Inl (SRefused InvalidIssuer), t)
          else (Inr (), event IssuerTrusted None None None
                 (on_doc (\<lambda>d. d\<lparr>id_trusted_issuers := insert issuer (id_trusted_issuers d)\<rparr>) t)))"

definition external_refusal :: "identity_document \<Rightarrow> external_identity option \<Rightarrow> refusal option" where
  "external_refusal d external =
     (case external of
        None \<Rightarrow> None
      | Some identity \<Rightarrow>
          if ei_issuer identity \<notin> id_trusted_issuers d then Some UntrustedIssuer
          else if external_principal d identity \<noteq> None then Some DuplicateExternalIdentity
          else None)"

definition create_principal ::
  "tx_env \<Rightarrow> string \<Rightarrow> role \<Rightarrow> external_identity option \<Rightarrow> tx \<Rightarrow> unit tx_result" where
  "create_principal env i r external t =
     (case require_for env r of
        Some e \<Rightarrow> (Inl e, t)
      | None \<Rightarrow>
          if bt_get (id_principals (tx_doc t)) i \<noteq> None then (Inl (SRefused PrincipalExists), t)
          else case external_refusal (tx_doc t) external of
              Some refused \<Rightarrow> (Inl (SRefused refused), t)
            | None \<Rightarrow>
                (Inr (), event PrincipalCreated None (Some i) None
                   (on_doc (\<lambda>d. d\<lparr>id_principals := bt_insert i
                      \<lparr>pp_id = i, pp_role = r, pp_status = Active, pp_created = te_now env,
                       pp_updated = te_now env, pp_external = external\<rparr> (id_principals d)\<rparr>) t)))"

definition set_status :: "tx_env \<Rightarrow> string \<Rightarrow> principal_status \<Rightarrow> tx \<Rightarrow> unit tx_result" where
  "set_status env i status t =
     (case bt_get (id_principals (tx_doc t)) i of
        None \<Rightarrow> (Inl (SRefused UnknownPrincipal), t)
      | Some record \<Rightarrow> (case require_for env (pp_role record) of
          Some e \<Rightarrow> (Inl e, t)
        | None \<Rightarrow>
            (let t1 = (if status = Suspended then
                   (let (keys, st) = revoke_principal i (te_now env) (id_credentials (tx_doc t))
                    in foldl (\<lambda>t key. event CredentialRevoked None (Some i) (Some key) t)
                         (on_doc (\<lambda>d. d\<lparr>id_credentials := st\<rparr>) t) keys)
                 else t);
                 t2 = on_doc (\<lambda>d. d\<lparr>id_principals := bt_update i
                   (\<lambda>r. r\<lparr>pp_status := status, pp_updated := te_now env\<rparr>) (id_principals d)\<rparr>) t1
             in (Inr (), event (case status of Suspended \<Rightarrow> PrincipalSuspended
                   | Active \<Rightarrow> PrincipalReactivated) None (Some i) None t2))))"

definition restricts_operator_only :: "restriction \<Rightarrow> bool" where
  "restricts_operator_only r =
     (case rs_capabilities r of None \<Rightarrow> False | Some cs \<Rightarrow> \<exists>c \<in> cs. operator_only c)"

definition issue_credential ::
  "tx_env \<Rightarrow> nat list option \<Rightarrow> nat list option \<Rightarrow> string \<Rightarrow> restriction \<Rightarrow> nat option \<Rightarrow> tx
    \<Rightarrow> (string \<times> string) tx_result" where
  "issue_credential env key secret i restr expires t =
     (case active_principal (tx_doc t) i of
        Inl e \<Rightarrow> (Inl e, t)
      | Inr record \<Rightarrow> (case require_for env (pp_role record) of
          Some e \<Rightarrow> (Inl e, t)
        | None \<Rightarrow>
            if pp_role record = User \<and> restricts_operator_only restr
            then (Inl (SRefused OperatorOnlyRestriction), t)
            else case issue_expiring (te_sha env) key secret i (pp_role record) restr (te_now env)
                   expires (id_credentials (tx_doc t)) of
                (Inl e, st) \<Rightarrow> (Inl (SCredential e), on_doc (\<lambda>d. d\<lparr>id_credentials := st\<rparr>) t)
              | (Inr (key_id, token), st) \<Rightarrow>
                  (Inr (key_id, token), event CredentialIssued None (Some i) (Some key_id)
                     (on_doc (\<lambda>d. d\<lparr>id_credentials := st\<rparr>) t))))"

definition rotate_credential ::
  "tx_env \<Rightarrow> nat list option \<Rightarrow> nat list option \<Rightarrow> string \<Rightarrow> nat option \<Rightarrow> tx \<Rightarrow> (string \<times> string) tx_result" where
  "rotate_credential env key secret key_id expires t =
     (case bt_get (id_credentials (tx_doc t)) key_id of
        None \<Rightarrow> (Inl (SRefused UnknownCredential), t)
      | Some old \<Rightarrow> (case active_principal (tx_doc t) (cr_principal old) of
          Inl e \<Rightarrow> (Inl e, t)
        | Inr record \<Rightarrow> (case require_for env (pp_role record) of
            Some e \<Rightarrow> (Inl e, t)
          | None \<Rightarrow> (case rotate (te_sha env) key secret key_id (te_now env) expires
                           (id_credentials (tx_doc t)) of
              (Inl e, st) \<Rightarrow> (Inl (SCredential e), on_doc (\<lambda>d. d\<lparr>id_credentials := st\<rparr>) t)
            | (Inr (new_id, token), st) \<Rightarrow>
                (Inr (new_id, token), event CredentialRotated None (Some (cr_principal old)) (Some new_id)
                   (on_doc (\<lambda>d. d\<lparr>id_credentials := st\<rparr>) t))))))"

definition revoke_credential :: "tx_env \<Rightarrow> string \<Rightarrow> tx \<Rightarrow> unit tx_result" where
  "revoke_credential env key_id t =
     (case bt_get (id_credentials (tx_doc t)) key_id of
        None \<Rightarrow> (Inl (SRefused UnknownCredential), t)
      | Some record \<Rightarrow> (case require_for env (cr_role record) of
          Some e \<Rightarrow> (Inl e, t)
        | None \<Rightarrow> (case revoke key_id (te_now env) (id_credentials (tx_doc t)) of
            (Inl e, st) \<Rightarrow> (Inl (SCredential e), on_doc (\<lambda>d. d\<lparr>id_credentials := st\<rparr>) t)
          | (Inr _, st) \<Rightarrow>
              (Inr (), event CredentialRevoked None (Some (cr_principal record)) (Some key_id)
                 (on_doc (\<lambda>d. d\<lparr>id_credentials := st\<rparr>) t)))))"

definition bind_profile :: "bind_outcome \<Rightarrow> string \<Rightarrow> tx \<Rightarrow> unit tx_result" where
  "bind_profile io profile t =
     (case io of
        BindNoEntropy \<Rightarrow> (Inl (SCredential Entropy), t)
      | BindWriteFailed kind \<Rightarrow> (Inl (SIo kind), t)
      | BindOk bytes \<Rightarrow>
          (let token = hex_bytes bytes
           in (Inr (), on_doc (\<lambda>d. d\<lparr>id_bindings := bt_insert profile token (id_bindings d)\<rparr>)
                 (t\<lparr>tx_markers := (tx_markers t)(profile \<mapsto> token)\<rparr>))))"

text \<open>The checks both assignments share: an active user as owner, and an existing profile.\<close>

definition owner_error :: "tx_env \<Rightarrow> string \<Rightarrow> string \<Rightarrow> tx \<Rightarrow> store_error option" where
  "owner_error env profile owner t =
     (case active_principal (tx_doc t) owner of
        Inl e \<Rightarrow> Some e
      | Inr r \<Rightarrow>
          if pp_role r \<noteq> User then Some (SRefused OwnerMustBeUser)
          else if \<not> te_profile_exists env profile then Some (SRefused ProfileMissing)
          else None)"

definition assign_owner ::
  "tx_env \<Rightarrow> bind_outcome \<Rightarrow> string \<Rightarrow> string \<Rightarrow> tx \<Rightarrow> assignment tx_result" where
  "assign_owner env io profile owner t =
     (case require env Provision of
        Some e \<Rightarrow> (Inl e, t)
      | None \<Rightarrow> (case owner_error env profile owner t of
          Some e \<Rightarrow> (Inl e, t)
        | None \<Rightarrow> (case ownership_assign (id_ownership (tx_doc t)) profile owner of
            (Inl e, reg) \<Rightarrow> (Inl (SOwnership e), on_doc (\<lambda>d. d\<lparr>id_ownership := reg\<rparr>) t)
          | (Inr a, reg) \<Rightarrow>
              (let t1 = on_doc (\<lambda>d. d\<lparr>id_ownership := reg\<rparr>) t
               in if a \<noteq> Created then (Inr a, t1)
                  else case bind_profile io profile t1 of
                      (Inl e, t2) \<Rightarrow> (Inl e, t2)
                    | (Inr _, t2) \<Rightarrow>
                        (Inr a, event OwnerAssigned (Some profile) (Some owner) None t2)))))"

definition reassign_owner ::
  "tx_env \<Rightarrow> bind_outcome \<Rightarrow> string \<Rightarrow> string \<Rightarrow> tx \<Rightarrow> assignment tx_result" where
  "reassign_owner env io profile owner t =
     (case require env Administer of
        Some e \<Rightarrow> (Inl e, t)
      | None \<Rightarrow> (case owner_error env profile owner t of
          Some e \<Rightarrow> (Inl e, t)
        | None \<Rightarrow>
            (let previous = map_option ow_owner (bt_get (id_ownership (tx_doc t)) profile);
                 (a, reg) = ownership_reassign (id_ownership (tx_doc t)) profile owner;
                 t1 = on_doc (\<lambda>d. d\<lparr>id_ownership := reg\<rparr>) t
             in case (a, previous) of
                  (Reassigned, Some old) \<Rightarrow>
                    (Inr a, event OwnerReassigned (Some profile) (Some owner) None
                       (on_doc (\<lambda>d. d\<lparr>id_reassignments := id_reassignments d @
                          [\<lparr>ra_profile = profile, ra_from = old, ra_to = owner,
                            ra_by = pr_id (ca_principal (te_actor env)), ra_at = te_now env\<rparr>]\<rparr>) t1))
                | (Created, _) \<Rightarrow> (case bind_profile io profile t1 of
                      (Inl e, t2) \<Rightarrow> (Inl e, t2)
                    | (Inr _, t2) \<Rightarrow>
                        (Inr a, event OwnerAssigned (Some profile) (Some owner) None t2))
                | _ \<Rightarrow> (Inr a, t1))))"

definition grant :: "tx_env \<Rightarrow> string \<Rightarrow> string \<Rightarrow> capability \<Rightarrow> tx \<Rightarrow> unit tx_result" where
  "grant env profile i c t =
     (case require env Administer of
        Some e \<Rightarrow> (Inl e, t)
      | None \<Rightarrow> (case active_principal (tx_doc t) i of
          Inl e \<Rightarrow> (Inl e, t)
        | Inr _ \<Rightarrow> (case ownership_grant (id_ownership (tx_doc t)) profile i c of
            (Inl e, reg) \<Rightarrow> (Inl (SOwnership e), on_doc (\<lambda>d. d\<lparr>id_ownership := reg\<rparr>) t)
          | (Inr _, reg) \<Rightarrow>
              (Inr (), event GrantAdded (Some profile) (Some i) None
                 (on_doc (\<lambda>d. d\<lparr>id_ownership := reg\<rparr>) t)))))"

definition revoke_grant :: "tx_env \<Rightarrow> string \<Rightarrow> string \<Rightarrow> capability \<Rightarrow> tx \<Rightarrow> unit tx_result" where
  "revoke_grant env profile i c t =
     (case require env Provision of
        Some e \<Rightarrow> (Inl e, t)
      | None \<Rightarrow>
          (Inr (), event GrantRevoked (Some profile) (Some i) None
             (on_doc (\<lambda>d. d\<lparr>id_ownership := ownership_revoke (id_ownership d) profile i c\<rparr>) t)))"

definition remove_profile :: "tx_env \<Rightarrow> bool \<Rightarrow> string \<Rightarrow> tx \<Rightarrow> unit tx_result" where
  "remove_profile env unlinked profile t =
     (case require env Provision of
        Some e \<Rightarrow> (Inl e, t)
      | None \<Rightarrow>
          (let (removed, reg) = ownership_remove (id_ownership (tx_doc t)) profile;
               t1 = on_doc (\<lambda>d. d\<lparr>id_ownership := reg, id_bindings := bt_remove profile (id_bindings d)\<rparr>) t;
               t2 = (if unlinked then t1\<lparr>tx_markers := (tx_markers t1)(profile := None)\<rparr> else t1)
           in (Inr (), case removed of
                 None \<Rightarrow> t2
               | Some r \<Rightarrow> event OwnerRemoved (Some profile) (Some (ow_owner r)) None t2)))"

section \<open>Changes\<close>

text \<open>
  A change is the sequence of operations a caller's closure runs. The flag of an operation says
  whether the closure passes its error on (the \<open>?\<close> operator) or goes on without it.
  \<open>OpRefuse\<close> is an error the closure returns of its own.
\<close>

datatype tx_op =
    OpSetContinuity provisioning_continuity
  | OpTrustIssuer string
  | OpCreatePrincipal string role "external_identity option"
  | OpSetStatus string principal_status
  | OpIssueCredential "nat list option" "nat list option" string restriction "nat option"
  | OpRotateCredential "nat list option" "nat list option" string "nat option"
  | OpRevokeCredential string
  | OpAssignOwner bind_outcome string string
  | OpReassignOwner bind_outcome string string
  | OpGrant string string capability
  | OpRevokeGrant string string capability
  | OpRemoveProfile bool string
  | OpRefuse store_error

definition op_result :: "'a tx_result \<Rightarrow> store_error option \<times> tx" where
  "op_result r = (case fst r of Inl e \<Rightarrow> Some e | Inr _ \<Rightarrow> None, snd r)"

fun apply_op :: "tx_env \<Rightarrow> tx_op \<Rightarrow> tx \<Rightarrow> store_error option \<times> tx" where
  "apply_op env (OpSetContinuity c) t = op_result (set_continuity env c t)"
| "apply_op env (OpTrustIssuer issuer) t = op_result (trust_issuer env issuer t)"
| "apply_op env (OpCreatePrincipal i r external) t = op_result (create_principal env i r external t)"
| "apply_op env (OpSetStatus i status) t = op_result (set_status env i status t)"
| "apply_op env (OpIssueCredential key secret i restr expires) t =
     op_result (issue_credential env key secret i restr expires t)"
| "apply_op env (OpRotateCredential key secret key_id expires) t =
     op_result (rotate_credential env key secret key_id expires t)"
| "apply_op env (OpRevokeCredential key_id) t = op_result (revoke_credential env key_id t)"
| "apply_op env (OpAssignOwner io profile owner) t = op_result (assign_owner env io profile owner t)"
| "apply_op env (OpReassignOwner io profile owner) t =
     op_result (reassign_owner env io profile owner t)"
| "apply_op env (OpGrant profile i c) t = op_result (grant env profile i c t)"
| "apply_op env (OpRevokeGrant profile i c) t = op_result (revoke_grant env profile i c t)"
| "apply_op env (OpRemoveProfile unlinked profile) t =
     op_result (remove_profile env unlinked profile t)"
| "apply_op env (OpRefuse e) t = (Some e, t)"

fun run_change :: "tx_env \<Rightarrow> (tx_op \<times> bool) list \<Rightarrow> tx \<Rightarrow> store_error option \<times> tx" where
  "run_change env [] t = (None, t)"
| "run_change env ((op, passed_on) # ops) t =
     (case apply_op env op t of
        (Some e, t') \<Rightarrow> if passed_on then (Some e, t') else run_change env ops t'
      | (None, t') \<Rightarrow> run_change env ops t')"

section \<open>The stored state\<close>

datatype stored = Absent | Bytes string | Unreadable string

record stored_audit =
  sa_generation :: "nat option"
  sa_subject :: "string option"
  sa_record :: audit_record

record identity_store =
  is_state :: stored
  is_previous :: stored
  is_audit :: "stored_audit list"
  is_markers :: "string \<Rightarrow> string option"

definition new_store :: identity_store where
  "new_store = \<lparr>is_state = Absent, is_previous = Absent, is_audit = [], is_markers = (\<lambda>_. None)\<rparr>"

text \<open>The JSON library: bytes to a value, the \<open>schema\<close> of a value as a \<open>u32\<close>, a value to a
  document, and a document to bytes.\<close>

record 'j codec =
  jc_parse :: "string \<Rightarrow> 'j option"
  jc_schema :: "'j \<Rightarrow> nat option"
  jc_document :: "'j \<Rightarrow> identity_document option"
  jc_print :: "identity_document \<Rightarrow> string option"

definition migrate :: "nat \<Rightarrow> store_error + 'j" where
  "migrate from_schema = Inl (SMigrationFailed from_schema)"

definition parse_document :: "'j codec \<Rightarrow> string \<Rightarrow> store_error + identity_document" where
  "parse_document jc bytes =
     (case jc_parse jc bytes of
        None \<Rightarrow> Inl SCorrupt
      | Some value \<Rightarrow> (case jc_schema jc value of
          None \<Rightarrow> Inl SCorrupt
        | Some schema \<Rightarrow>
            (let migrated = (if schema = schema_version then Inr value
                 else if schema > schema_version then Inl (SIncompatibleSchema schema schema_version)
                 else migrate schema)
             in case migrated of
                  Inl e \<Rightarrow> Inl e
                | Inr v \<Rightarrow> (case jc_document jc v of None \<Rightarrow> Inl SCorrupt | Some d \<Rightarrow> Inr d))))"

definition store_load :: "'j codec \<Rightarrow> identity_store \<Rightarrow> store_error + identity_document" where
  "store_load jc s =
     (case is_state s of
        Absent \<Rightarrow> Inr empty_document
      | Unreadable kind \<Rightarrow> Inl (SIo kind)
      | Bytes bytes \<Rightarrow> parse_document jc bytes)"

text \<open>What the file operations of one transaction do: \<open>None\<close> when they succeed.\<close>

record tx_io =
  io_quiet_audit :: bool
  io_lock :: "string option"
  io_audit :: "string option"
  io_previous :: "string option"
  io_state :: "string option"

datatype tx_outcome = Applied nat | Replayed nat

definition oldest_key :: "(string, idempotency) btree \<Rightarrow> string option" where
  "oldest_key m = map_option fst (foldl (\<lambda>acc e. case acc of
       None \<Rightarrow> Some e
     | Some best \<Rightarrow> if ie_generation (snd e) < ie_generation (snd best) then Some e else Some best) None m)"

lemma foldl_oldest_mem:
  "foldl (\<lambda>acc e. case acc of
       None \<Rightarrow> Some e
     | Some best \<Rightarrow> if ie_generation (snd e) < ie_generation (snd best) then Some e else Some best) acc m
    = Some x \<Longrightarrow> acc = Some x \<or> x \<in> set m"
  by (induction m arbitrary: acc) (auto split: option.splits if_splits)

lemma oldest_key_mem: "oldest_key m = Some k \<Longrightarrow> k \<in> fst ` set m"
  unfolding oldest_key_def by (auto dest!: foldl_oldest_mem intro: rev_image_eqI)

function prune_idempotency :: "(string, idempotency) btree \<Rightarrow> (string, idempotency) btree" where
  "prune_idempotency m =
     (if length m > max_idempotency then
        (case oldest_key m of None \<Rightarrow> m | Some k \<Rightarrow> prune_idempotency (bt_remove k m))
      else m)"
  by pat_completeness auto
termination
proof (relation "measure length")
  fix m :: "(string, idempotency) btree" and k
  assume "oldest_key m = Some k"
  then have "\<exists>e \<in> set m. \<not> fst e \<noteq> k" using oldest_key_mem by force
  then show "(bt_remove k m, m) \<in> measure length"
    by (auto simp: bt_remove_def intro: length_filter_less)
qed simp

declare prune_idempotency.simps [simp del]

definition audit_denied :: "tx_env \<Rightarrow> denial \<Rightarrow> stored_audit" where
  "audit_denied env d = \<lparr>sa_generation = None, sa_subject = None,
     sa_record = audit_decision (te_now env) (Some (te_actor env)) (Request Administer) None (Inl d)\<rparr>"

definition quietly :: "tx_io \<Rightarrow> stored_audit \<Rightarrow> identity_store \<Rightarrow> identity_store" where
  "quietly io r s = (if io_quiet_audit io then s\<lparr>is_audit := is_audit s @ [r]\<rparr> else s)"

definition audit_events :: "tx_env \<Rightarrow> nat \<Rightarrow> event list \<Rightarrow> stored_audit list" where
  "audit_events env g events = map (\<lambda>(action, profile, subj, key).
     let r = audit_decision (te_now env) (Some (te_actor env)) action profile (Inr ())
     in \<lparr>sa_generation = Some g, sa_subject = subj,
         sa_record = (if key \<noteq> None then r\<lparr>au_key_id := key\<rparr> else r)\<rparr>) events"

definition commit_document ::
  "tx_env \<Rightarrow> (string \<times> string) option \<Rightarrow> nat \<Rightarrow> identity_document \<Rightarrow> identity_document" where
  "commit_document env idem g d =
     (let d1 = d\<lparr>id_generation := g, id_schema := schema_version\<rparr>;
          d2 = (case idem of None \<Rightarrow> d1
            | Some (key, fingerprint) \<Rightarrow> d1\<lparr>id_idempotency := prune_idempotency
                (bt_insert key \<lparr>ie_fingerprint = fingerprint, ie_generation = g, ie_at = te_now env\<rparr>
                   (id_idempotency d1))\<rparr>)
      in d2\<lparr>id_reassignments :=
           drop (length (id_reassignments d2) - max_reassignments) (id_reassignments d2)\<rparr>)"

text \<open>The durable end of a transaction: audit, recovery copy, document.\<close>

definition commit ::
  "'j codec \<Rightarrow> tx_env \<Rightarrow> tx_io \<Rightarrow> nat \<Rightarrow> event list \<Rightarrow> identity_document \<Rightarrow> identity_store
    \<Rightarrow> (store_error + tx_outcome) \<times> identity_store" where
  "commit jc env io g events d s =
     (case (if events = [] then None else io_audit io) of
        Some kind \<Rightarrow> (Inl (SIo kind), s)
      | None \<Rightarrow>
          (let s1 = s\<lparr>is_audit := is_audit s @ audit_events env g events\<rparr>
           in case jc_print jc d of
                None \<Rightarrow> (Inl SCorrupt, s1)
              | Some bytes \<Rightarrow>
                  (case (case is_state s1 of Bytes old \<Rightarrow>
                           (case io_previous io of Some kind \<Rightarrow> Inl (SIo kind)
                            | None \<Rightarrow> Inr (s1\<lparr>is_previous := Bytes old\<rparr>)) | _ \<Rightarrow> Inr s1) of
                     Inl e \<Rightarrow> (Inl e, s1)
                   | Inr s2 \<Rightarrow> (case io_state io of
                       Some kind \<Rightarrow> (Inl (SIo kind), s2)
                     | None \<Rightarrow> (Inr (Applied g), s2\<lparr>is_state := Bytes bytes\<rparr>)))))"

definition admitted :: "caller \<Rightarrow> bool" where
  "admitted actor \<longleftrightarrow> pr_role (ca_principal actor) = Operator \<and>
     (authorize_capability actor Provision = Inr () \<or> authorize_capability actor Administer = Inr ())"

definition transact ::
  "'j codec \<Rightarrow> tx_env \<Rightarrow> tx_io \<Rightarrow> (string \<times> string) option \<Rightarrow> (tx_op \<times> bool) list \<Rightarrow> identity_store
    \<Rightarrow> (store_error + tx_outcome) \<times> identity_store" where
  "transact jc env io idem change s =
     (if \<not> admitted (te_actor env) then
        (Inl (SDenied MissingCapability), quietly io (audit_denied env MissingCapability) s)
      else case io_lock io of
          Some kind \<Rightarrow> (Inl (SIo kind), s)
        | None \<Rightarrow> (case store_load jc s of
            Inl e \<Rightarrow> (Inl e, s)
          | Inr current \<Rightarrow>
              (case Option.bind idem (\<lambda>(key, _). bt_get (id_idempotency current) key) of
                 Some seen \<Rightarrow>
                   if Some (ie_fingerprint seen) = map_option snd idem then
                     (Inr (Replayed (ie_generation seen)),
                      quietly io \<lparr>sa_generation = Some (id_generation current), sa_subject = None,
                        sa_record = audit_decision (te_now env) (Some (te_actor env)) IdempotentReplay
                          None (Inr ())\<rparr> s)
                   else (Inl (SRefused IdempotencyConflict), s)
               | None \<Rightarrow>
                   (let g = Suc (id_generation current);
                        (err, t) = run_change env change
                          \<lparr>tx_doc = current, tx_events = [], tx_markers = is_markers s\<rparr>;
                        s1 = s\<lparr>is_markers := tx_markers t\<rparr>
                    in case err of
                         Some (SDenied d) \<Rightarrow> (Inl (SDenied d), quietly io (audit_denied env d) s1)
                       | Some e \<Rightarrow> (Inl e, s1)
                       | None \<Rightarrow>
                           commit jc env io g (tx_events t) (commit_document env idem g (tx_doc t)) s1))))"

text \<open>Ownership that counts for authorization: an existing profile with its marker.\<close>

definition bound :: "(string \<Rightarrow> bool) \<Rightarrow> identity_store \<Rightarrow> identity_document \<Rightarrow> string \<Rightarrow> bool" where
  "bound exists s d profile \<longleftrightarrow> exists profile \<and>
     (case bt_get (id_bindings d) profile of
        None \<Rightarrow> False
      | Some token \<Rightarrow> (case is_markers s profile of None \<Rightarrow> False | Some marker \<Rightarrow> trim marker = token))"

definition effective_ownership ::
  "(string \<Rightarrow> bool) \<Rightarrow> identity_store \<Rightarrow> identity_document \<Rightarrow> ownership_registry" where
  "effective_ownership exists s d =
     foldl (\<lambda>reg profile. if bound exists s d profile then reg else snd (ownership_remove reg profile))
       (id_ownership d) (map fst (id_ownership d))"

end
