(* ===== verification/IdentityProperties.thy ===== *)
theory IdentityProperties
  imports IdentityStore
begin

text \<open>
  The invariant of the identity document, its preservation by every operation of a transaction
  and by every transaction, and what it gives: no change by anyone but an operator, no partial
  change, idempotent repetition, and authorization that fails closed.
\<close>

section \<open>The invariant\<close>

definition principals_ok :: "identity_document \<Rightarrow> bool" where
  "principals_ok d \<longleftrightarrow> (\<forall>i p. bt_get (id_principals d) i = Some p \<longrightarrow> pp_id p = i \<and>
     (\<forall>x. pp_external p = Some x \<longrightarrow> ei_issuer x \<in> id_trusted_issuers d \<and>
        (\<forall>j q. bt_get (id_principals d) j = Some q \<and> pp_external q = Some x \<longrightarrow> j = i)))"

definition credential_ok :: "identity_document \<Rightarrow> string \<Rightarrow> credential_record \<Rightarrow> bool" where
  "credential_ok d k r \<longleftrightarrow> cr_key_id r = k \<and>
     (cr_role r = User \<longrightarrow> \<not> restricts_operator_only (cr_restriction r)) \<and>
     (\<exists>p. bt_get (id_principals d) (cr_principal r) = Some p \<and> pp_role p = cr_role r \<and>
        (pp_status p = Suspended \<longrightarrow> cr_revoked r \<noteq> None))"

definition credentials_ok :: "identity_document \<Rightarrow> bool" where
  "credentials_ok d \<longleftrightarrow> (\<forall>k r. bt_get (id_credentials d) k = Some r \<longrightarrow> credential_ok d k r)"

definition owners_ok :: "identity_document \<Rightarrow> bool" where
  "owners_ok d \<longleftrightarrow> registry_ok (id_ownership d) \<and>
     (\<forall>profile r. bt_get (id_ownership d) profile = Some r \<longrightarrow>
        (\<exists>p. bt_get (id_principals d) (ow_owner r) = Some p \<and> pp_role p = User))"

definition doc_inv :: "identity_document \<Rightarrow> bool" where
  "doc_inv d \<longleftrightarrow> principals_ok d \<and> credentials_ok d \<and> owners_ok d"

text \<open>The fields the invariant does not read.\<close>

lemma doc_inv_frame [simp]:
  "doc_inv (d\<lparr>id_continuity := c\<rparr>) = doc_inv d"
  "doc_inv (d\<lparr>id_bindings := b\<rparr>) = doc_inv d"
  "doc_inv (d\<lparr>id_reassignments := r\<rparr>) = doc_inv d"
  "doc_inv (d\<lparr>id_idempotency := m\<rparr>) = doc_inv d"
  "doc_inv (d\<lparr>id_generation := g\<rparr>) = doc_inv d"
  "doc_inv (d\<lparr>id_schema := n\<rparr>) = doc_inv d"
  by (simp_all add: doc_inv_def principals_ok_def credentials_ok_def credential_ok_def owners_ok_def)

lemma doc_inv_empty: "doc_inv empty_document"
  by (simp add: doc_inv_def principals_ok_def credentials_ok_def owners_ok_def empty_document_def
      bt.all_values_def)

lemma tx_doc_event [simp]: "tx_doc (event a p s k t) = tx_doc t"
  by (simp add: event_def)

lemma tx_doc_on_doc [simp]: "tx_doc (on_doc f t) = f (tx_doc t)"
  by (simp add: on_doc_def)

lemma tx_doc_events [simp]: "tx_doc (foldl (\<lambda>t key. event a p s (Some key) t) t keys) = tx_doc t"
  by (induction keys arbitrary: t) simp_all

lemma active_principal_Inr:
  "active_principal d i = Inr r \<Longrightarrow> bt_get (id_principals d) i = Some r \<and> pp_status r = Active"
  by (auto simp: active_principal_def split: option.splits if_splits)

section \<open>The operations keep it\<close>

lemma external_none:
  "external_principal d x = None \<Longrightarrow> bt_get (id_principals d) i = Some p \<Longrightarrow> pp_external p \<noteq> Some x"
  by (auto simp: external_principal_def find_None_iff dest!: map_of_SomeD)

lemma doc_inv_create:
  assumes "doc_inv d" and "bt_get (id_principals d) i = None" and "external_refusal d external = None"
    and "pp_id p = i" and "pp_external p = external"
  shows "doc_inv (d\<lparr>id_principals := bt_insert i p (id_principals d)\<rparr>)"
proof -
  have ext: "ei_issuer x \<in> id_trusted_issuers d \<and> external_principal d x = None" if "external = Some x" for x
    using assms(3) that by (auto simp: external_refusal_def split: if_splits)
  have "principals_ok (d\<lparr>id_principals := bt_insert i p (id_principals d)\<rparr>)"
    using assms(1,4,5) ext external_none
    by (auto simp: doc_inv_def principals_ok_def bt_simps)
  moreover have "credentials_ok (d\<lparr>id_principals := bt_insert i p (id_principals d)\<rparr>)"
    using assms(1,2) by (fastforce simp: doc_inv_def credentials_ok_def credential_ok_def bt_simps)
  moreover have "owners_ok (d\<lparr>id_principals := bt_insert i p (id_principals d)\<rparr>)"
    using assms(1,2) by (fastforce simp: doc_inv_def owners_ok_def bt_simps)
  ultimately show ?thesis by (simp add: doc_inv_def)
qed

lemma doc_inv_status:
  assumes "doc_inv d"
    and "st = (if status = Suspended then snd (revoke_principal i now (id_credentials d)) else id_credentials d)"
  shows "doc_inv (d\<lparr>id_credentials := st,
      id_principals := bt_update i (\<lambda>r. r\<lparr>pp_status := status, pp_updated := now\<rparr>) (id_principals d)\<rparr>)"
    (is "doc_inv ?d")
proof -
  let ?u = "\<lambda>r. r\<lparr>pp_status := status, pp_updated := now\<rparr>"
  have get: "bt_get (id_principals ?d) j =
      (if j = i then map_option ?u (bt_get (id_principals d) i) else bt_get (id_principals d) j)" for j
    by (simp add: bt_simps)
  have "principals_ok ?d"
    using assms(1) unfolding principals_ok_def get doc_inv_def by (auto split: if_splits)
  moreover have "credential_ok ?d k r" if r: "bt_get st k = Some r" for k r
  proof -
    obtain r0 where r0: "bt_get (id_credentials d) k = Some r0" "same_holder r0 r"
      "cr_revoked r0 \<noteq> None \<longrightarrow> cr_revoked r \<noteq> None"
      "status = Suspended \<and> cr_principal r0 = i \<longrightarrow> cr_revoked r \<noteq> None"
    proof (cases "status = Suspended")
      case True
      then have "bt_get (snd (revoke_principal i now (id_credentials d))) k = Some r"
        using r assms(2) by simp
      from revoke_principal_Some [OF this] obtain r0 where "bt_get (id_credentials d) k = Some r0"
        "same_holder r0 r" "cr_revoked r0 \<noteq> None \<longrightarrow> cr_revoked r \<noteq> None"
        "cr_principal r = i \<longrightarrow> cr_revoked r \<noteq> None" by blast
      then show ?thesis using that by (simp add: same_holder_def)
    next
      case False
      then show ?thesis using that r assms(2) by (simp add: same_holder_def)
    qed
    then have "credential_ok d k r0" using assms(1) by (simp add: doc_inv_def credentials_ok_def)
    then show ?thesis
      using r0(2-4) unfolding credential_ok_def get same_holder_def by (auto split: if_splits)
  qed
  moreover have "owners_ok ?d"
    using assms(1) unfolding owners_ok_def get doc_inv_def by (fastforce split: if_splits)
  ultimately show ?thesis by (simp add: doc_inv_def credentials_ok_def)
qed

lemma doc_inv_credentials:
  assumes "doc_inv d" and "\<And>k r. bt_get st k = Some r \<Longrightarrow> credential_ok d k r"
  shows "doc_inv (d\<lparr>id_credentials := st\<rparr>)"
  using assms by (auto simp: doc_inv_def principals_ok_def credentials_ok_def credential_ok_def owners_ok_def)

lemma credential_ok_issue:
  assumes "doc_inv d" and "bt_get (id_principals d) i = Some p" and "pp_status p = Active"
    and "pp_role p = r" and "r = User \<longrightarrow> \<not> restricts_operator_only restr"
    and "bt_get (snd (issue_expiring sha key secret i r restr now expires (id_credentials d))) k = Some c"
  shows "credential_ok d k c"
proof (cases "bt_get (id_credentials d) k = Some c")
  case True
  then show ?thesis using assms(1) by (simp add: doc_inv_def credentials_ok_def)
next
  case False
  obtain x st where x: "issue_expiring sha key secret i r restr now expires (id_credentials d) = (x, st)"
    by fastforce
  show ?thesis
  proof (cases x)
    case (Inl e)
    then show ?thesis using False assms(6) x issue_Inl by fastforce
  next
    case (Inr y)
    obtain key_id token where y: "y = (key_id, token)" by fastforce
    from issue_Inr [OF x [unfolded Inr y]] assms(6) x False show ?thesis
      using assms(2-5) by (auto simp: bt_simps credential_ok_def split: if_splits)
  qed
qed

lemma credential_ok_rotate:
  assumes "doc_inv d" and "bt_get (id_credentials d) key_id = Some old"
    and "bt_get (id_principals d) (cr_principal old) = Some p" and "pp_status p = Active"
    and "bt_get (snd (rotate sha key secret key_id now expires (id_credentials d))) k = Some c"
  shows "credential_ok d k c"
proof (cases "cr_revoked old")
  case None
  have old: "pp_role p = cr_role old" "cr_role old = User \<longrightarrow> \<not> restricts_operator_only (cr_restriction old)"
  proof -
    have "credential_ok d key_id old" using assms(1,2) by (simp add: doc_inv_def credentials_ok_def)
    then show "pp_role p = cr_role old" "cr_role old = User \<longrightarrow> \<not> restricts_operator_only (cr_restriction old)"
      using assms(3) by (simp_all add: credential_ok_def)
  qed
  note iss = credential_ok_issue [OF assms(1,3,4) old]
  obtain x st where x: "issue_expiring sha key secret (cr_principal old) (cr_role old)
      (cr_restriction old) now expires (id_credentials d) = (x, st)"
    by fastforce
  have "\<exists>c0. bt_get st k = Some c0 \<and> (c = c0 \<or> c = c0\<lparr>cr_replaces := Some key_id\<rparr>)"
    using assms(2,5) None x
    by (cases x) (auto simp: rotate_def bt_simps split: prod.splits if_splits)
  then obtain c0 where c0: "bt_get st k = Some c0" "c = c0 \<or> c = c0\<lparr>cr_replaces := Some key_id\<rparr>" by blast
  have "credential_ok d k c0" using iss [of sha key secret now expires k c0] c0(1) x by simp
  then show ?thesis using c0(2) by (auto simp: credential_ok_def)
next
  case (Some t)
  then show ?thesis using assms(1,2,5)
    by (simp add: rotate_def doc_inv_def credentials_ok_def)
qed

lemma credential_ok_revoke:
  assumes "doc_inv d" and "bt_get (snd (revoke key_id now (id_credentials d))) k = Some c"
  shows "credential_ok d k c"
proof -
  obtain c0 where "bt_get (id_credentials d) k = Some c0" "same_holder c0 c"
    "cr_revoked c0 \<noteq> None \<longrightarrow> cr_revoked c \<noteq> None"
    using assms(2) by (auto simp: revoke_def bt_simps same_holder_def split: option.splits if_splits)
  moreover from this have "credential_ok d k c0" using assms(1) by (simp add: doc_inv_def credentials_ok_def)
  ultimately show ?thesis by (auto simp: credential_ok_def same_holder_def)
qed

lemma doc_inv_ownership:
  assumes "doc_inv d" and "registry_ok reg"
    and "\<And>profile r. bt_get reg profile = Some r \<Longrightarrow>
          (\<exists>p. bt_get (id_principals d) (ow_owner r) = Some p \<and> pp_role p = User)"
  shows "doc_inv (d\<lparr>id_ownership := reg\<rparr>)"
  using assms by (auto simp: doc_inv_def principals_ok_def credentials_ok_def credential_ok_def owners_ok_def)

text \<open>An operation on the registry that only names owners that are users.\<close>

definition owners_from :: "ownership_registry \<Rightarrow> string set \<Rightarrow> ownership_registry \<Rightarrow> bool" where
  "owners_from reg new reg' \<longleftrightarrow>
     (\<forall>profile r. bt_get reg' profile = Some r \<longrightarrow> ow_owner r \<in> new \<or>
        (\<exists>r0. bt_get reg profile = Some r0 \<and> ow_owner r = ow_owner r0))"

lemma owners_from_ops:
  "owners_from reg {owner} (snd (ownership_assign reg profile owner))"
  "owners_from reg {owner} (snd (ownership_reassign reg profile owner))"
  "owners_from reg {} (snd (ownership_grant reg profile i c))"
  "owners_from reg {} (ownership_revoke reg profile i c)"
  "owners_from reg {} (snd (ownership_remove reg profile))"
  by (auto simp: owners_from_def ownership_assign_def ownership_reassign_def ownership_grant_def
      ownership_revoke_def ownership_remove_def bt_simps new_ownership_def add_grant_def
      drop_grant_def split: option.splits if_splits)

lemma doc_inv_owners_from:
  assumes "doc_inv d" and "registry_ok (id_ownership d) \<Longrightarrow> registry_ok reg"
    and "owners_from (id_ownership d) new reg"
    and "\<And>owner. owner \<in> new \<Longrightarrow> (\<exists>p. bt_get (id_principals d) owner = Some p \<and> pp_role p = User)"
  shows "doc_inv (d\<lparr>id_ownership := reg\<rparr>)"
proof (rule doc_inv_ownership [OF assms(1)])
  show "registry_ok reg" using assms(1,2) by (simp add: doc_inv_def owners_ok_def)
  fix profile r
  assume "bt_get reg profile = Some r"
  then consider "ow_owner r \<in> new" | r0 where "bt_get (id_ownership d) profile = Some r0" "ow_owner r = ow_owner r0"
    using assms(3) by (auto simp: owners_from_def)
  then show "\<exists>p. bt_get (id_principals d) (ow_owner r) = Some p \<and> pp_role p = User"
  proof cases
    case 2
    then show ?thesis using assms(1) by (auto simp: doc_inv_def owners_ok_def)
  qed (use assms(4) in blast)
qed

lemma owner_error_None:
  "owner_error env profile owner t = None \<Longrightarrow>
     (\<exists>p. bt_get (id_principals (tx_doc t)) owner = Some p \<and> pp_role p = User) \<and> te_profile_exists env profile"
  by (auto simp: owner_error_def split: sum.splits if_splits dest!: active_principal_Inr intro: role.exhaust)

lemma bind_profile_doc:
  "tx_doc (snd (bind_profile io profile t)) = tx_doc t \<or>
   (\<exists>b. tx_doc (snd (bind_profile io profile t)) = (tx_doc t)\<lparr>id_bindings := b\<rparr>)"
  by (cases io) (auto simp: bind_profile_def Let_def)

lemma bind_profile_inv: "doc_inv (tx_doc (snd (bind_profile io profile t))) = doc_inv (tx_doc t)"
  using bind_profile_doc [of io profile t] by auto

lemma op_doc [simp]: "tx_doc (snd (op_result r)) = tx_doc (snd r)"
  by (simp add: op_result_def)

lemma doc_inv_issuers: "doc_inv d \<Longrightarrow> doc_inv (d\<lparr>id_trusted_issuers := insert x (id_trusted_issuers d)\<rparr>)"
  by (auto simp: doc_inv_def principals_ok_def credentials_ok_def credential_ok_def owners_ok_def)

lemma inv_create_principal [inv_pres]:
  "doc_inv (tx_doc t) \<Longrightarrow> doc_inv (tx_doc (snd (create_principal env i r external t)))"
  by (auto simp: create_principal_def intro!: doc_inv_create split: option.splits)

lemma inv_trust_issuer [inv_pres]:
  "doc_inv (tx_doc t) \<Longrightarrow> doc_inv (tx_doc (snd (trust_issuer env issuer t)))"
  by (auto simp: trust_issuer_def doc_inv_issuers split: option.splits)

lemma inv_set_continuity [inv_pres]:
  "doc_inv (tx_doc t) \<Longrightarrow> doc_inv (tx_doc (snd (set_continuity env c t)))"
  by (auto simp: set_continuity_def split: option.splits)

lemma inv_set_status [inv_pres]:
  assumes "doc_inv (tx_doc t)"
  shows "doc_inv (tx_doc (snd (set_status env i status t)))"
proof -
  let ?d = "tx_doc t"
  let ?u = "\<lambda>r. r\<lparr>pp_status := status, pp_updated := te_now env\<rparr>"
  let ?st = "if status = Suspended then snd (revoke_principal i (te_now env) (id_credentials ?d)) else id_credentials ?d"
  have "tx_doc (snd (set_status env i status t)) = ?d \<or>
      tx_doc (snd (set_status env i status t))
        = ?d\<lparr>id_credentials := ?st, id_principals := bt_update i ?u (id_principals ?d)\<rparr>"
    by (auto simp: set_status_def Let_def split: option.splits prod.splits)
  then show ?thesis using assms doc_inv_status [OF assms refl, where i = i and status = status and now = "te_now env"] by auto
qed

lemma inv_issue_credential [inv_pres]:
  assumes "doc_inv (tx_doc t)"
  shows "doc_inv (tx_doc (snd (issue_credential env key secret i restr expires t)))"
proof (cases "active_principal (tx_doc t) i")
  case (Inr p)
  note ap = active_principal_Inr [OF Inr]
  let ?x = "issue_expiring (te_sha env) key secret i (pp_role p) restr (te_now env) expires (id_credentials (tx_doc t))"
  have "doc_inv ((tx_doc t)\<lparr>id_credentials := snd ?x\<rparr>)"
    if "\<not> (pp_role p = User \<and> restricts_operator_only restr)"
    by (rule doc_inv_credentials [OF assms],
        rule credential_ok_issue [OF assms ap [THEN conjunct1] ap [THEN conjunct2] refl]) (use that in auto)
  then show ?thesis using assms
    by (cases ?x) (auto simp: issue_credential_def Inr split: option.splits sum.splits)
qed (use assms in \<open>simp add: issue_credential_def\<close>)

lemma inv_rotate_credential [inv_pres]:
  assumes "doc_inv (tx_doc t)"
  shows "doc_inv (tx_doc (snd (rotate_credential env key secret key_id expires t)))"
proof (cases "bt_get (id_credentials (tx_doc t)) key_id")
  case (Some old)
  show ?thesis
  proof (cases "active_principal (tx_doc t) (cr_principal old)")
    case (Inr p)
    note ap = active_principal_Inr [OF Inr]
    let ?x = "rotate (te_sha env) key secret key_id (te_now env) expires (id_credentials (tx_doc t))"
    have "doc_inv ((tx_doc t)\<lparr>id_credentials := snd ?x\<rparr>)"
      by (rule doc_inv_credentials [OF assms],
          rule credential_ok_rotate [OF assms Some ap [THEN conjunct1] ap [THEN conjunct2]])
    then show ?thesis using assms
      by (cases ?x) (auto simp: rotate_credential_def Some Inr split: option.splits sum.splits)
  qed (use assms Some in \<open>simp add: rotate_credential_def\<close>)
qed (use assms in \<open>simp add: rotate_credential_def\<close>)

lemma inv_revoke_credential [inv_pres]:
  assumes "doc_inv (tx_doc t)"
  shows "doc_inv (tx_doc (snd (revoke_credential env key_id t)))"
proof -
  let ?x = "revoke key_id (te_now env) (id_credentials (tx_doc t))"
  have "doc_inv ((tx_doc t)\<lparr>id_credentials := snd ?x\<rparr>)"
    by (rule doc_inv_credentials [OF assms], rule credential_ok_revoke [OF assms])
  then show ?thesis using assms
    by (cases ?x) (auto simp: revoke_credential_def split: option.splits sum.splits)
qed

lemma inv_assign_owner [inv_pres]:
  assumes "doc_inv (tx_doc t)"
  shows "doc_inv (tx_doc (snd (assign_owner env io profile owner t)))"
proof -
  let ?x = "ownership_assign (id_ownership (tx_doc t)) profile owner"
  have reg: "doc_inv ((tx_doc t)\<lparr>id_ownership := snd ?x\<rparr>)" if "owner_error env profile owner t = None"
    by (rule doc_inv_owners_from [OF assms _ owners_from_ops(1)])
      (use owner_error_None [OF that] registry_assign in auto)
  show ?thesis
    using assms reg bind_profile_inv [of io profile "on_doc (\<lambda>d. d\<lparr>id_ownership := snd ?x\<rparr>) t"]
    by (cases ?x) (auto simp: assign_owner_def Let_def split: option.splits sum.splits prod.splits)
qed

lemma inv_reassign_owner [inv_pres]:
  assumes "doc_inv (tx_doc t)"
  shows "doc_inv (tx_doc (snd (reassign_owner env io profile owner t)))"
proof -
  let ?x = "ownership_reassign (id_ownership (tx_doc t)) profile owner"
  have reg: "doc_inv ((tx_doc t)\<lparr>id_ownership := snd ?x\<rparr>)" if "owner_error env profile owner t = None"
    by (rule doc_inv_owners_from [OF assms _ owners_from_ops(2)])
      (use owner_error_None [OF that] registry_reassign in auto)
  show ?thesis
    using assms reg bind_profile_inv [of io profile "on_doc (\<lambda>d. d\<lparr>id_ownership := snd ?x\<rparr>) t"]
    by (cases ?x) (auto simp: reassign_owner_def Let_def split: option.splits sum.splits prod.splits
        assignment.splits)
qed

lemma inv_grant [inv_pres]:
  assumes "doc_inv (tx_doc t)"
  shows "doc_inv (tx_doc (snd (grant env profile i c t)))"
proof -
  let ?x = "ownership_grant (id_ownership (tx_doc t)) profile i c"
  have "doc_inv ((tx_doc t)\<lparr>id_ownership := snd ?x\<rparr>)"
    by (rule doc_inv_owners_from [OF assms _ owners_from_ops(3)]) (use registry_grant in auto)
  then show ?thesis using assms
    by (cases ?x) (auto simp: grant_def split: option.splits sum.splits)
qed

lemma inv_revoke_grant [inv_pres]:
  assumes "doc_inv (tx_doc t)"
  shows "doc_inv (tx_doc (snd (revoke_grant env profile i c t)))"
proof -
  have "doc_inv ((tx_doc t)\<lparr>id_ownership := ownership_revoke (id_ownership (tx_doc t)) profile i c\<rparr>)"
    by (rule doc_inv_owners_from [OF assms _ owners_from_ops(4)]) (use registry_revoke in auto)
  then show ?thesis using assms by (simp add: revoke_grant_def split: option.splits)
qed

lemma inv_remove_profile [inv_pres]:
  assumes "doc_inv (tx_doc t)"
  shows "doc_inv (tx_doc (snd (remove_profile env unlinked profile t)))"
proof -
  have "doc_inv ((tx_doc t)\<lparr>id_ownership := snd (ownership_remove (id_ownership (tx_doc t)) profile)\<rparr>)"
    by (rule doc_inv_owners_from [OF assms _ owners_from_ops(5)]) (use registry_remove in auto)
  then show ?thesis using assms
    by (auto simp: remove_profile_def ownership_remove_def Let_def split: option.splits)
qed

interpretation change: step_invariant "\<lambda>t op. snd (apply_op env op t)" "\<lambda>_ _. True"
  "\<lambda>t. doc_inv (tx_doc t)" for env
proof
  fix t :: tx and op
  assume "doc_inv (tx_doc t)"
  then show "doc_inv (tx_doc (snd (apply_op env op t)))" by (cases op) (simp_all add: inv_pres)
qed

lemma run_change_inv:
  "doc_inv (tx_doc t) \<Longrightarrow> doc_inv (tx_doc (snd (run_change env ops t)))"
proof (induction env ops t rule: run_change.induct)
  case (2 env op passed_on ops t)
  have *: "doc_inv (tx_doc (snd (apply_op env op t)))" using "2.prems" by (rule change.step_inv) simp
  then show ?case
    using 2 by (cases "apply_op env op t") (auto split: option.splits)
qed simp

section \<open>The transaction\<close>

definition codec_ok :: "'j codec \<Rightarrow> bool" where
  "codec_ok jc \<longleftrightarrow>
     (\<forall>d bytes. id_schema d = schema_version \<and> jc_print jc d = Some bytes \<longrightarrow>
        parse_document jc bytes = Inr d)"

lemma commit_state:
  "commit jc env io g events d s = (r, s') \<Longrightarrow>
     (case r of Inl _ \<Rightarrow> is_state s' = is_state s
      | Inr oc \<Rightarrow> oc = Applied g \<and> (\<exists>bytes. jc_print jc d = Some bytes \<and> is_state s' = Bytes bytes) \<and>
          (\<forall>old. is_state s = Bytes old \<longrightarrow> is_previous s' = Bytes old) \<and>
          is_audit s' = is_audit s @ audit_events env g events)"
  by (auto simp: commit_def Let_def split: option.splits stored.splits sum.splits if_splits)

lemma commit_document_inv: "doc_inv d \<Longrightarrow> doc_inv (commit_document env idem g d)"
  by (auto simp: commit_document_def Let_def split: option.splits)

lemma commit_document_sel:
  "id_generation (commit_document env idem g d) = g"
  "id_schema (commit_document env idem g d) = schema_version"
  "id_credentials (commit_document env idem g d) = id_credentials d"
  "id_ownership (commit_document env idem g d) = id_ownership d"
  "id_bindings (commit_document env idem g d) = id_bindings d"
  "id_principals (commit_document env idem g d) = id_principals d"
  by (auto simp: commit_document_def Let_def split: option.splits)

lemma quietly_state [simp]:
  "is_state (quietly io r s) = is_state s" "is_markers (quietly io r s) = is_markers s"
  "is_previous (quietly io r s) = is_previous s"
  by (simp_all add: quietly_def)

text \<open>How a transaction ends.\<close>

lemma transact_cases:
  assumes "transact jc env io idem ops s = (r, s')"
  obtains (unchanged) e where "r = Inl e" "is_state s' = is_state s"
  | (replayed) current key fp seen where "r = Inr (Replayed (ie_generation seen))" "is_state s' = is_state s"
      "store_load jc s = Inr current" "idem = Some (key, fp)" "ie_fingerprint seen = fp"
      "bt_get (id_idempotency current) key = Some seen" "is_markers s' = is_markers s"
  | (applied) current t bytes where "r = Inr (Applied (Suc (id_generation current)))"
      "store_load jc s = Inr current" "admitted (te_actor env)"
      "run_change env ops \<lparr>tx_doc = current, tx_events = [], tx_markers = is_markers s\<rparr> = (None, t)"
      "jc_print jc (commit_document env idem (Suc (id_generation current)) (tx_doc t)) = Some bytes"
      "is_state s' = Bytes bytes" "\<forall>old. is_state s = Bytes old \<longrightarrow> is_previous s' = Bytes old"
proof (cases "admitted (te_actor env) \<and> io_lock io = None")
  case True
  show ?thesis
  proof (cases "store_load jc s")
    case (Inl e)
    then show ?thesis using True assms unchanged by (auto simp: transact_def)
  next
    case (Inr current)
    show ?thesis
    proof (cases "Option.bind idem (\<lambda>(key, _). bt_get (id_idempotency current) key)")
      case (Some seen)
      then obtain key fp where "idem = Some (key, fp)" "bt_get (id_idempotency current) key = Some seen"
        by (cases idem) auto
      then show ?thesis using True assms Inr Some unchanged replayed
        by (auto simp: transact_def split: if_splits)
    next
      case None
      obtain err t where rc: "run_change env ops \<lparr>tx_doc = current, tx_events = [], tx_markers = is_markers s\<rparr> = (err, t)"
        by fastforce
      show ?thesis
      proof (cases err)
        case (Some e)
        then show ?thesis using True assms Inr None rc unchanged
          by (cases e) (auto simp: transact_def Let_def)
      next
        case e: None
        then have "commit jc env io (Suc (id_generation current)) (tx_events t)
            (commit_document env idem (Suc (id_generation current)) (tx_doc t)) (s\<lparr>is_markers := tx_markers t\<rparr>) = (r, s')"
          using True assms Inr None rc by (simp add: transact_def Let_def)
        from commit_state [OF this] show ?thesis
          using True Inr rc e unchanged applied by (cases r) auto
      qed
    qed
  qed
next
  case False
  then show ?thesis using assms unchanged by (auto simp: transact_def split: option.splits if_splits)
qed

lemma transact_inv:
  assumes "codec_ok jc" and "\<And>d. store_load jc s = Inr d \<Longrightarrow> doc_inv d"
    and "transact jc env io idem ops s = (r, s')" and "store_load jc s' = Inr d'"
  shows "doc_inv d'"
  using assms(3)
proof (cases rule: transact_cases)
  case (applied current t bytes)
  have "doc_inv (tx_doc t)"
    using run_change_inv [of "\<lparr>tx_doc = current, tx_events = [], tx_markers = is_markers s\<rparr>" env ops]
      assms(2) applied(2,4) by simp
  then have "doc_inv (commit_document env idem (Suc (id_generation current)) (tx_doc t))"
    by (rule commit_document_inv)
  moreover have "store_load jc s' = Inr (commit_document env idem (Suc (id_generation current)) (tx_doc t))"
    using assms(1) applied(5,6) by (simp add: codec_ok_def store_load_def commit_document_sel)
  ultimately show ?thesis using assms(4) by simp
qed (use assms(2,4) in \<open>simp_all add: store_load_def\<close>)

section \<open>Effective ownership\<close>

lemma effective_foldl:
  "bt_get (foldl (\<lambda>reg profile. if bound exists s d profile then reg else snd (ownership_remove reg profile)) reg ks) q
     = (if q \<in> set ks \<and> \<not> bound exists s d q then None else bt_get reg q)"
  by (induction ks arbitrary: reg) (auto simp: ownership_remove_def bt_simps)

lemma effective_get:
  "bt_get (effective_ownership exists s d) q = (if bound exists s d q then bt_get (id_ownership d) q else None)"
proof (cases "bt_get (id_ownership d) q")
  case None
  then show ?thesis by (simp add: effective_ownership_def effective_foldl)
next
  case (Some r)
  then have "q \<in> set (map fst (id_ownership d))" by (auto dest!: map_of_SomeD intro: rev_image_eqI)
  then show ?thesis by (simp add: effective_ownership_def effective_foldl)
qed

section \<open>What an actor without administration can change\<close>

definition granted :: "identity_document \<Rightarrow> string \<Rightarrow> string \<Rightarrow> capability \<Rightarrow> bool" where
  "granted d profile i c \<longleftrightarrow> (\<exists>r g. bt_get (id_ownership d) profile = Some r \<and>
     bt_get (ow_grants r) i = Some g \<and> c \<in> g)"

definition no_escalation :: "identity_document \<Rightarrow> identity_document \<Rightarrow> bool" where
  "no_escalation d d' \<longleftrightarrow>
     (\<forall>i p. pp_role p = Operator \<longrightarrow>
        (bt_get (id_principals d') i = Some p \<longleftrightarrow> bt_get (id_principals d) i = Some p)) \<and>
     (\<forall>k r. cr_role r = Operator \<longrightarrow>
        (bt_get (id_credentials d') k = Some r \<longleftrightarrow> bt_get (id_credentials d) k = Some r)) \<and>
     id_trusted_issuers d' = id_trusted_issuers d \<and>
     (\<forall>profile i c. granted d' profile i c \<longrightarrow> granted d profile i c)"

lemma no_escalation_refl [simp]: "no_escalation d d"
  by (simp add: no_escalation_def)

lemma no_escalation_trans: "no_escalation a b \<Longrightarrow> no_escalation b c \<Longrightarrow> no_escalation a c"
  by (auto simp: no_escalation_def)

lemma no_escalation_frame [simp]:
  "no_escalation d (d'\<lparr>id_continuity := c\<rparr>) = no_escalation d d'"
  "no_escalation d (d'\<lparr>id_bindings := b\<rparr>) = no_escalation d d'"
  "no_escalation d (d'\<lparr>id_reassignments := r\<rparr>) = no_escalation d d'"
  by (simp_all add: no_escalation_def granted_def)

lemma no_escalation_principals:
  assumes "\<And>i p. pp_role p = Operator \<Longrightarrow> (bt_get m i = Some p \<longleftrightarrow> bt_get (id_principals d) i = Some p)"
  shows "no_escalation d (d\<lparr>id_principals := m\<rparr>)"
  using assms by (simp add: no_escalation_def granted_def)

lemma no_escalation_credentials:
  assumes "\<And>k r. cr_role r = Operator \<Longrightarrow> (bt_get m k = Some r \<longleftrightarrow> bt_get (id_credentials d) k = Some r)"
  shows "no_escalation d (d\<lparr>id_credentials := m\<rparr>)"
  using assms by (simp add: no_escalation_def granted_def)

lemma no_escalation_ownership:
  assumes "\<And>profile r i g c. bt_get reg profile = Some r \<Longrightarrow> bt_get (ow_grants r) i = Some g \<Longrightarrow>
      c \<in> g \<Longrightarrow> granted d profile i c"
  shows "no_escalation d (d\<lparr>id_ownership := reg\<rparr>)"
  using assms by (auto simp: no_escalation_def granted_def)

lemma require_for_None:
  "require_for env r = None \<Longrightarrow> authorize_capability (te_actor env) Administer \<noteq> Inr () \<Longrightarrow> r = User"
  by (cases r) (auto simp: require_for_def require_def split: sum.splits)

lemma require_Administer:
  "authorize_capability (te_actor env) Administer \<noteq> Inr () \<Longrightarrow> require env Administer \<noteq> None"
  by (auto simp: require_def split: sum.splits)

lemma esc_issue:
  assumes "r = User"
  shows "no_escalation d (d\<lparr>id_credentials := snd (issue_expiring sha key secret i r restr now expires (id_credentials d))\<rparr>)"
proof (rule no_escalation_credentials)
  fix k and c :: credential_record
  assume c: "cr_role c = Operator"
  obtain x st where x: "issue_expiring sha key secret i r restr now expires (id_credentials d) = (x, st)" by fastforce
  show "bt_get (snd (issue_expiring sha key secret i r restr now expires (id_credentials d))) k = Some c
      \<longleftrightarrow> bt_get (id_credentials d) k = Some c"
  proof (cases x)
    case (Inl e)
    then show ?thesis using x issue_Inl by fastforce
  next
    case (Inr y)
    obtain key_id token where y: "y = (key_id, token)" by fastforce
    from issue_Inr [OF x [unfolded Inr y]] show ?thesis
      using c assms x by (auto simp: bt_simps split: if_splits)
  qed
qed

lemma esc_update_credentials:
  assumes "\<And>k. bt_get st k = map_option (f k) (bt_get (id_credentials d) k)"
    and "\<And>k r. bt_get (id_credentials d) k = Some r \<Longrightarrow> cr_role (f k r) = cr_role r"
    and "\<And>k r. bt_get (id_credentials d) k = Some r \<Longrightarrow> cr_role r = Operator \<Longrightarrow> f k r = r"
  shows "no_escalation d (d\<lparr>id_credentials := st\<rparr>)"
  by (rule no_escalation_credentials) (use assms in \<open>auto simp: assms(1)\<close>)

lemma esc_set_status:
  assumes inv: "doc_inv (tx_doc t)" and na: "authorize_capability (te_actor env) Administer \<noteq> Inr ()"
  shows "no_escalation (tx_doc t) (tx_doc (snd (set_status env i status t)))"
proof (cases "\<exists>p. bt_get (id_principals (tx_doc t)) i = Some p \<and> require_for env (pp_role p) = None")
  case True
  let ?d = "tx_doc t"
  let ?u = "\<lambda>r. r\<lparr>pp_status := status, pp_updated := te_now env\<rparr>"
  obtain p where p: "bt_get (id_principals ?d) i = Some p" "require_for env (pp_role p) = None" using True by blast
  have user: "pp_role p = User" by (rule require_for_None [OF p(2) na])
  let ?st = "if status = Suspended then snd (revoke_principal i (te_now env) (id_credentials ?d)) else id_credentials ?d"
  have "no_escalation ?d (?d\<lparr>id_credentials := ?st\<rparr>)"
  proof (rule esc_update_credentials)
    fix k
    show "bt_get ?st k = map_option (\<lambda>r. if status = Suspended \<and> affected i r
        then r\<lparr>cr_revoked := Some (te_now env)\<rparr> else r) (bt_get (id_credentials ?d) k)"
      by (simp add: revoke_principal_get option.map_ident)
    fix r
    assume r: "bt_get (id_credentials ?d) k = Some r"
    show "cr_role (if status = Suspended \<and> affected i r then r\<lparr>cr_revoked := Some (te_now env)\<rparr> else r) = cr_role r"
      by simp
    assume "cr_role r = Operator"
    moreover have "credential_ok ?d k r" using inv r by (simp add: doc_inv_def credentials_ok_def)
    ultimately have "cr_principal r \<noteq> i" using p(1) user by (auto simp: credential_ok_def)
    then show "(if status = Suspended \<and> affected i r then r\<lparr>cr_revoked := Some (te_now env)\<rparr> else r) = r"
      by (simp add: affected_def)
  qed
  moreover have "no_escalation (?d\<lparr>id_credentials := ?st\<rparr>) (?d\<lparr>id_credentials := ?st\<rparr>
      \<lparr>id_principals := bt_update i ?u (id_principals ?d)\<rparr>)"
    by (rule no_escalation_principals) (use p(1) user in \<open>auto simp: bt_simps\<close>)
  moreover have "tx_doc (snd (set_status env i status t))
      = ?d\<lparr>id_credentials := ?st\<rparr>\<lparr>id_principals := bt_update i ?u (id_principals ?d)\<rparr>"
    using p by (auto simp: set_status_def Let_def split: prod.splits)
  ultimately show ?thesis using no_escalation_trans by (simp only:)
qed (auto simp: set_status_def split: option.splits)

lemma esc_rotate:
  assumes "bt_get (id_credentials d) key_id = Some old" and "cr_role old = User"
  shows "no_escalation d (d\<lparr>id_credentials := snd (rotate sha key secret key_id now expires (id_credentials d))\<rparr>)"
proof (cases "cr_revoked old")
  case None
  let ?x = "issue_expiring sha key secret (cr_principal old) (cr_role old) (cr_restriction old) now expires (id_credentials d)"
  have iss: "no_escalation d (d\<lparr>id_credentials := snd ?x\<rparr>)" by (rule esc_issue [OF assms(2)])
  show ?thesis
  proof (cases ?x)
    case (Pair x st)
    show ?thesis
    proof (cases x)
      case (Inl e)
      then show ?thesis using iss assms(1) None Pair by (simp add: rotate_def)
    next
      case (Inr y)
      obtain new_id token where y: "y = (new_id, token)" by fastforce
      have new: "\<exists>c. bt_get st new_id = Some c \<and> cr_role c = User"
        using issue_Inr [OF Pair [unfolded Inr y]] assms(2) by (auto simp: bt_simps)
      have "no_escalation (d\<lparr>id_credentials := st\<rparr>)
          (d\<lparr>id_credentials := st\<rparr>\<lparr>id_credentials := bt_update new_id (\<lambda>r. r\<lparr>cr_replaces := Some key_id\<rparr>) st\<rparr>)"
        by (rule no_escalation_credentials) (use new in \<open>auto simp: bt_simps\<close>)
      then show ?thesis using iss assms(1) None Pair Inr y no_escalation_trans
        by (auto simp: rotate_def)
    qed
  qed
qed (use assms(1) in \<open>simp add: rotate_def\<close>)

lemma esc_credentials_ops:
  assumes inv: "doc_inv (tx_doc t)" and na: "authorize_capability (te_actor env) Administer \<noteq> Inr ()"
  shows "no_escalation (tx_doc t) (tx_doc (snd (issue_credential env key secret i restr expires t)))"
    and "no_escalation (tx_doc t) (tx_doc (snd (rotate_credential env key secret key_id expires t)))"
    and "no_escalation (tx_doc t) (tx_doc (snd (revoke_credential env key_id t)))"
proof -
  let ?d = "tx_doc t"
  have cred: "credential_ok ?d k r" if "bt_get (id_credentials ?d) k = Some r" for k r
    using inv that by (simp add: doc_inv_def credentials_ok_def)
  show "no_escalation ?d (tx_doc (snd (issue_credential env key secret i restr expires t)))"
  proof (cases "\<exists>p. active_principal ?d i = Inr p \<and> require_for env (pp_role p) = None")
    case True
    then obtain p where p: "active_principal ?d i = Inr p" "require_for env (pp_role p) = None" by blast
    have "pp_role p = User" by (rule require_for_None [OF p(2) na])
    note e = esc_issue [OF this, of ?d "te_sha env" key secret i restr "te_now env" expires]
    show ?thesis using e p
      by (cases "issue_expiring (te_sha env) key secret i (pp_role p) restr (te_now env) expires (id_credentials ?d)")
        (auto simp: issue_credential_def split: sum.splits)
  qed (auto simp: issue_credential_def split: sum.splits option.splits)
  show "no_escalation ?d (tx_doc (snd (rotate_credential env key secret key_id expires t)))"
  proof (cases "\<exists>old p. bt_get (id_credentials ?d) key_id = Some old \<and> active_principal ?d (cr_principal old) = Inr p
      \<and> require_for env (pp_role p) = None")
    case True
    then obtain old p where p: "bt_get (id_credentials ?d) key_id = Some old"
      "active_principal ?d (cr_principal old) = Inr p" "require_for env (pp_role p) = None" by blast
    have "pp_role p = User" by (rule require_for_None [OF p(3) na])
    then have "cr_role old = User"
      using cred [OF p(1)] active_principal_Inr [OF p(2)] by (auto simp: credential_ok_def)
    note e = esc_rotate [OF p(1) this, of "te_sha env" key secret "te_now env" expires]
    show ?thesis using e p
      by (cases "rotate (te_sha env) key secret key_id (te_now env) expires (id_credentials ?d)")
        (auto simp: rotate_credential_def split: sum.splits)
  qed (auto simp: rotate_credential_def split: sum.splits option.splits)
  show "no_escalation ?d (tx_doc (snd (revoke_credential env key_id t)))"
  proof (cases "\<exists>r. bt_get (id_credentials ?d) key_id = Some r \<and> require_for env (cr_role r) = None")
    case True
    then obtain r where r: "bt_get (id_credentials ?d) key_id = Some r" "require_for env (cr_role r) = None" by blast
    have "cr_role r = User" by (rule require_for_None [OF r(2) na])
    then have "no_escalation ?d (?d\<lparr>id_credentials := snd (revoke key_id (te_now env) (id_credentials ?d))\<rparr>)"
      by (intro no_escalation_credentials) (use r(1) in \<open>auto simp: revoke_def bt_simps\<close>)
    then show ?thesis using r
      by (cases "revoke key_id (te_now env) (id_credentials ?d)")
        (auto simp: revoke_credential_def split: sum.splits)
  qed (auto simp: revoke_credential_def split: option.splits)
qed

lemma esc_ownership_ops:
  assumes na: "authorize_capability (te_actor env) Administer \<noteq> Inr ()"
  shows "no_escalation (tx_doc t) (tx_doc (snd (assign_owner env io profile owner t)))"
    and "no_escalation (tx_doc t) (tx_doc (snd (revoke_grant env profile i c t)))"
    and "no_escalation (tx_doc t) (tx_doc (snd (remove_profile env unlinked profile t)))"
proof -
  let ?d = "tx_doc t"
  let ?a = "ownership_assign (id_ownership ?d) profile owner"
  have a: "no_escalation ?d (?d\<lparr>id_ownership := snd ?a\<rparr>)"
    by (rule no_escalation_ownership)
      (auto simp: ownership_assign_def bt_simps new_ownership_def granted_def split: option.splits if_splits)
  have b: "no_escalation ?d (tx_doc (snd (bind_profile io profile (on_doc (\<lambda>d. d\<lparr>id_ownership := snd ?a\<rparr>) t))))"
    using bind_profile_doc [of io profile "on_doc (\<lambda>d. d\<lparr>id_ownership := snd ?a\<rparr>) t"] a by auto
  show "no_escalation ?d (tx_doc (snd (assign_owner env io profile owner t)))"
    using a b by (cases ?a) (auto simp: assign_owner_def Let_def split: option.splits sum.splits prod.splits)
  have "no_escalation ?d (?d\<lparr>id_ownership := ownership_revoke (id_ownership ?d) profile i c\<rparr>)"
    by (rule no_escalation_ownership)
      (auto simp: ownership_revoke_def drop_grant_def bt_simps granted_def split: option.splits if_splits)
  then show "no_escalation ?d (tx_doc (snd (revoke_grant env profile i c t)))"
    by (simp add: revoke_grant_def split: option.splits)
  have "no_escalation ?d (?d\<lparr>id_ownership := bt_remove profile (id_ownership ?d)\<rparr>)"
    by (rule no_escalation_ownership) (auto simp: bt_simps granted_def split: if_splits)
  then show "no_escalation ?d (tx_doc (snd (remove_profile env unlinked profile t)))"
    by (auto simp: remove_profile_def ownership_remove_def Let_def split: option.splits)
qed

lemma apply_op_no_escalation:
  assumes "doc_inv (tx_doc t)" and "authorize_capability (te_actor env) Administer \<noteq> Inr ()"
  shows "no_escalation (tx_doc t) (tx_doc (snd (apply_op env op t)))"
proof (cases op)
  case (OpCreatePrincipal i r external)
  show ?thesis
  proof (cases "require_for env r")
    case None
    then have "r = User" using assms(2) by (rule require_for_None)
    then show ?thesis using OpCreatePrincipal None
      by (auto simp: create_principal_def bt_simps intro!: no_escalation_principals
          split: option.splits if_splits)
  qed (simp add: OpCreatePrincipal create_principal_def)
next
  case (OpTrustIssuer issuer)
  then show ?thesis using require_Administer [OF assms(2)] by (auto simp: trust_issuer_def)
next
  case (OpReassignOwner io profile owner)
  then show ?thesis using require_Administer [OF assms(2)] by (auto simp: reassign_owner_def)
next
  case (OpGrant profile i c)
  then show ?thesis using require_Administer [OF assms(2)] by (auto simp: grant_def)
next
  case (OpSetContinuity c)
  then show ?thesis by (auto simp: set_continuity_def split: option.splits)
qed (simp_all add: esc_set_status [OF assms] esc_credentials_ops [OF assms] esc_ownership_ops [OF assms(2)])

lemma run_change_no_escalation:
  assumes "authorize_capability (te_actor env) Administer \<noteq> Inr ()"
  shows "doc_inv (tx_doc t) \<Longrightarrow> no_escalation (tx_doc t) (tx_doc (snd (run_change env ops t)))"
  using assms
proof (induction env ops t rule: run_change.induct)
  case (2 env op passed_on ops t)
  have e: "no_escalation (tx_doc t) (tx_doc (snd (apply_op env op t)))"
    by (rule apply_op_no_escalation [OF "2.prems"])
  have i: "doc_inv (tx_doc (snd (apply_op env op t)))" using "2.prems"(1) by (rule change.step_inv) simp
  show ?case
    using 2 e i no_escalation_trans
    by (cases "apply_op env op t") (auto split: option.splits)
qed simp

end
