(* ===== verification/IdentityContract.thy ===== *)
theory IdentityContract
  imports IdentityProperties
begin

text \<open>
  The contract of the identity store: what holds in every history of transactions, what a
  provisioning credential can never do, that a transaction applies completely or not at all and
  only once per idempotency key, and that ownership counts only for the profile it was given to.
\<close>

section \<open>Histories\<close>

record tx_request =
  rq_env :: tx_env
  rq_io :: tx_io
  rq_idem :: "(string \<times> string) option"
  rq_change :: "(tx_op \<times> bool) list"

definition store_step :: "'j codec \<Rightarrow> identity_store \<Rightarrow> tx_request \<Rightarrow> identity_store" where
  "store_step jc s q = snd (transact jc (rq_env q) (rq_io q) (rq_idem q) (rq_change q) s)"

definition store_inv :: "'j codec \<Rightarrow> identity_store \<Rightarrow> bool" where
  "store_inv jc s \<longleftrightarrow> (\<forall>d. store_load jc s = Inr d \<longrightarrow> doc_inv d)"

interpretation history: step_invariant "store_step jc" "\<lambda>_ _. codec_ok jc" "store_inv jc" for jc
proof
  fix s :: identity_store and q :: tx_request
  assume inv: "store_inv jc s" and ok: "codec_ok jc"
  obtain r s' where t: "transact jc (rq_env q) (rq_io q) (rq_idem q) (rq_change q) s = (r, s')" by fastforce
  show "store_inv jc (store_step jc s q)"
    using transact_inv [OF ok _ t] inv by (auto simp: store_inv_def store_step_def t)
qed

lemma store_inv_new: "store_inv jc new_store"
  by (simp add: store_inv_def store_load_def new_store_def doc_inv_empty)

lemma doc_inv_sel:
  assumes "doc_inv d"
  shows "bt_get (id_credentials d) k = Some r \<Longrightarrow> credential_ok d k r"
    and "bt_get (id_ownership d) profile = Some ow \<Longrightarrow>
      (\<exists>p. bt_get (id_principals d) (ow_owner ow) = Some p \<and> pp_role p = User) \<and> grants_ok ow"
  using assms by (auto simp: doc_inv_def credentials_ok_def owners_ok_def bt.all_values_def)

text \<open>A codec that knows one document, for the concrete histories below.\<close>

definition one_document_codec :: "identity_document \<Rightarrow> identity_document codec" where
  "one_document_codec d0 = \<lparr>jc_parse = (\<lambda>b. if b = ''d'' then Some d0 else None),
     jc_schema = (\<lambda>d. Some (id_schema d)), jc_document = Some,
     jc_print = (\<lambda>d. if d = d0 then Some ''d'' else None)\<rparr>"

lemma one_document_codec_ok: "id_schema d0 = schema_version \<Longrightarrow> codec_ok (one_document_codec d0)"
  by (auto simp: codec_ok_def one_document_codec_def parse_document_def Let_def split: if_splits)

lemma one_document_parse:
  "id_schema d0 = schema_version \<Longrightarrow> parse_document (one_document_codec d0) ''d'' = Inr d0"
  by (simp add: parse_document_def one_document_codec_def Let_def)

definition root_env :: tx_env where
  "root_env = \<lparr>te_actor = caller_local_operator LocalProcess, te_now = 100, te_sha = (\<lambda>_. [1, 2]),
     te_profile_exists = (\<lambda>_. True)\<rparr>"

definition fine_io :: tx_io where
  "fine_io = \<lparr>io_quiet_audit = True, io_lock = None, io_audit = None, io_previous = None, io_state = None\<rparr>"

definition ana_record :: principal_record where
  "ana_record = \<lparr>pp_id = ''ana'', pp_role = User, pp_status = Active, pp_created = 100,
     pp_updated = 100, pp_external = None\<rparr>"

definition ana_document :: identity_document where
  "ana_document = empty_document\<lparr>id_generation := 1, id_principals := [(''ana'', ana_record)],
     id_idempotency := [(''req-1'', \<lparr>ie_fingerprint = ''fp'', ie_generation = 1, ie_at = 100\<rparr>)]\<rparr>"

definition ana_request :: tx_request where
  "ana_request = \<lparr>rq_env = root_env, rq_io = fine_io, rq_idem = Some (''req-1'', ''fp''),
     rq_change = [(OpCreatePrincipal ''ana'' User None, True)]\<rparr>"

lemma ana_run:
  "run_change root_env [(OpCreatePrincipal ''ana'' User None, True)]
     \<lparr>tx_doc = empty_document, tx_events = [], tx_markers = m\<rparr> = (None,
     \<lparr>tx_doc = empty_document\<lparr>id_principals := [(''ana'', ana_record)]\<rparr>,
      tx_events = [(PrincipalCreated, None, Some ''ana'', None)], tx_markers = m\<rparr>)"
  by (simp add: op_result_def create_principal_def require_for_def require_def authorize_capability_def
      root_env_def caller_local_operator_def principal_local_operator_def no_restriction_def
      empty_document_def external_refusal_def on_doc_def event_def ana_record_def)

lemma ana_commit:
  "commit_document root_env (Some (''req-1'', ''fp'')) (Suc 0)
     (empty_document\<lparr>id_principals := [(''ana'', ana_record)]\<rparr>) = ana_document"
  by (simp add: commit_document_def empty_document_def ana_document_def root_env_def Let_def
      prune_idempotency.simps max_idempotency_def)

lemma ana_step:
  "transact (one_document_codec ana_document) root_env fine_io (Some (''req-1'', ''fp''))
     [(OpCreatePrincipal ''ana'' User None, True)] new_store
   = (Inr (Applied 1), new_store\<lparr>is_state := Bytes ''d'',
        is_audit := audit_events root_env (Suc 0) [(PrincipalCreated, None, Some ''ana'', None)]\<rparr>)"
proof -
  have "admitted (te_actor root_env)"
    by (simp add: admitted_def root_env_def caller_local_operator_def principal_local_operator_def
        authorize_capability_def no_restriction_def)
  moreover have "store_load (one_document_codec ana_document) new_store = Inr empty_document"
    by (simp add: store_load_def new_store_def)
  moreover have "id_idempotency empty_document = []" "id_generation empty_document = 0"
    by (simp_all add: empty_document_def)
  ultimately show ?thesis
    using ana_run [of "\<lambda>_. None"]
    by (simp add: transact_def fine_io_def new_store_def ana_commit commit_def one_document_codec_def
        del: run_change.simps)
qed

lemma ana_history:
  "store_load (one_document_codec ana_document)
     (foldl (store_step (one_document_codec ana_document)) new_store [ana_request]) = Inr ana_document"
proof -
  have "id_schema ana_document = schema_version" by (simp add: ana_document_def empty_document_def)
  then show ?thesis
    by (simp add: store_step_def ana_request_def ana_step [unfolded One_nat_def] store_load_def one_document_parse)
qed

lemma ana_codec_ok: "codec_ok (one_document_codec ana_document)"
  by (rule one_document_codec_ok) (simp add: ana_document_def empty_document_def)

section \<open>Properties\<close>

text \<open>
  C39. In every document any history of transactions leaves behind, whoever authenticates is an
  existing, active principal with exactly the role of its record; a user's credential never names
  an operator-only capability; every recorded owner is a user; and no grant is operator-only.
\<close>

theorem every_history_keeps_identities_sound:
  assumes "codec_ok jc" and "store_load jc (foldl (store_step jc) new_store history) = Inr d"
  shows "(\<forall>sha token t caller. authenticate_at sha (id_credentials d) token t = Inr caller \<longrightarrow>
      (\<exists>p. bt_get (id_principals d) (pr_id (ca_principal caller)) = Some p \<and>
         pp_role p = pr_role (ca_principal caller) \<and> pp_status p = Active)) \<and>
    (\<forall>k r. bt_get (id_credentials d) k = Some r \<and> cr_role r = User \<longrightarrow>
       \<not> restricts_operator_only (cr_restriction r)) \<and>
    (\<forall>profile r. bt_get (id_ownership d) profile = Some r \<longrightarrow>
       (\<exists>p. bt_get (id_principals d) (ow_owner r) = Some p \<and> pp_role p = User) \<and> grants_ok r)"
proof -
  have "store_inv jc (foldl (store_step jc) new_store history)"
    by (rule history.run_inv_total [OF store_inv_new]) (rule assms(1))
  then have inv: "doc_inv d" using assms(2) by (simp add: store_inv_def)
  note sel = doc_inv_sel [OF inv]
  have "\<exists>p. bt_get (id_principals d) (pr_id (ca_principal caller)) = Some p \<and>
         pp_role p = pr_role (ca_principal caller) \<and> pp_status p = Active"
    if auth: "authenticate_at sha (id_credentials d) token t = Inr caller" for sha token t caller
  proof -
    from authenticate_Inr [OF auth] obtain i r where
      r: "bt_get (id_credentials d) i = Some r" "cr_revoked r = None"
        "pr_id (ca_principal caller) = cr_principal r" "pr_role (ca_principal caller) = cr_role r" by blast
    obtain p where p: "bt_get (id_principals d) (cr_principal r) = Some p" "pp_role p = cr_role r"
      "pp_status p = Suspended \<longrightarrow> cr_revoked r \<noteq> None"
      using sel(1) [OF r(1)] by (auto simp: credential_ok_def)
    then have "pp_status p = Active" using r(2) by (cases "pp_status p") auto
    then show ?thesis using p r by simp
  qed
  moreover have "\<not> restricts_operator_only (cr_restriction r)"
    if "bt_get (id_credentials d) k = Some r" "cr_role r = User" for k r
    using sel(1) [OF that(1)] that(2) by (simp add: credential_ok_def)
  ultimately show ?thesis using sel(2) by blast
qed

theorem every_history_keeps_identities_sound_witness:
  "\<not> (\<exists>r. bt_get (id_credentials ana_document) ''k'' = Some r \<and> cr_role r = User \<and>
      restricts_operator_only (cr_restriction r))
   \<and> bt_get (id_principals ana_document) ''ana'' = Some ana_record"
  using every_history_keeps_identities_sound [OF ana_codec_ok ana_history]
  by (auto simp: ana_document_def)

text \<open>
  C40. Provisioning is not administration: whatever operations a change by an actor without the
  administer capability runs, in any order and whether it heeds their errors or not, the
  operators and their credentials are exactly what they were, the trusted issuers are the same,
  and no grant exists that did not exist before.
\<close>

theorem provisioning_never_escalates:
  assumes "doc_inv d" and "authorize_capability (te_actor env) Administer \<noteq> Inr ()"
    and "run_change env ops \<lparr>tx_doc = d, tx_events = [], tx_markers = m\<rparr> = (err, t)"
  shows "(\<forall>i p. pp_role p = Operator \<longrightarrow>
      (bt_get (id_principals (tx_doc t)) i = Some p \<longleftrightarrow> bt_get (id_principals d) i = Some p)) \<and>
    (\<forall>k r. cr_role r = Operator \<longrightarrow>
      (bt_get (id_credentials (tx_doc t)) k = Some r \<longleftrightarrow> bt_get (id_credentials d) k = Some r)) \<and>
    id_trusted_issuers (tx_doc t) = id_trusted_issuers d \<and>
    (\<forall>profile i c. granted (tx_doc t) profile i c \<longrightarrow> granted d profile i c)"
proof -
  have "no_escalation d (tx_doc t)"
    using run_change_no_escalation [OF assms(2), of "\<lparr>tx_doc = d, tx_events = [], tx_markers = m\<rparr>" ops]
      assms(1,3) by simp
  then show ?thesis unfolding no_escalation_def by blast
qed

definition provisioner_env :: tx_env where
  "provisioner_env = root_env\<lparr>te_actor := \<lparr>ca_principal = principal_local_operator (Credential ''p1''),
     ca_restriction = \<lparr>rs_capabilities = Some {Provision}, rs_profiles = None\<rparr>\<rparr>\<rparr>"

theorem provisioning_never_escalates_witness:
  "id_trusted_issuers (tx_doc (snd (run_change provisioner_env
      [(OpTrustIssuer ''https://x'', False), (OpCreatePrincipal ''root'' Operator None, False)]
      \<lparr>tx_doc = empty_document, tx_events = [], tx_markers = (\<lambda>_. None)\<rparr>))) = {}"
proof -
  have na: "authorize_capability (te_actor provisioner_env) Administer \<noteq> Inr ()"
    by (simp add: provisioner_env_def authorize_capability_def principal_local_operator_def)
  obtain err t where t: "run_change provisioner_env
      [(OpTrustIssuer ''https://x'', False), (OpCreatePrincipal ''root'' Operator None, False)]
      \<lparr>tx_doc = empty_document, tx_events = [], tx_markers = (\<lambda>_. None)\<rparr> = (err, t)" by fastforce
  then show ?thesis
    using provisioning_never_escalates [OF doc_inv_empty na t]
    by (simp add: empty_document_def del: run_change.simps)
qed

text \<open>
  A transaction applies completely or not at all: a refused, failed or replayed one leaves
  the stored state as it was; an applied one was asked for by an operator holding provision or
  administer, is the document its change built, stamped with the next generation, and keeps the
  previous bytes for recovery. A caller that is not such an operator is always refused.
\<close>

theorem transactions_are_all_or_nothing:
  assumes "codec_ok jc" and "transact jc env io idem ops s = (r, s')"
  shows "(case r of
      Inl _ \<Rightarrow> is_state s' = is_state s
    | Inr (Replayed _) \<Rightarrow> is_state s' = is_state s \<and> is_markers s' = is_markers s
    | Inr (Applied g) \<Rightarrow> admitted (te_actor env) \<and>
        (\<exists>d t. store_load jc s = Inr d \<and> g = Suc (id_generation d) \<and>
           run_change env ops \<lparr>tx_doc = d, tx_events = [], tx_markers = is_markers s\<rparr> = (None, t) \<and>
           store_load jc s' = Inr (commit_document env idem g (tx_doc t)) \<and>
           id_generation (commit_document env idem g (tx_doc t)) = g) \<and>
        (\<forall>old. is_state s = Bytes old \<longrightarrow> is_previous s' = Bytes old)) \<and>
    (pr_role (ca_principal (te_actor env)) \<noteq> Operator \<longrightarrow>
       r = Inl (SDenied MissingCapability) \<and> is_state s' = is_state s \<and> is_markers s' = is_markers s)"
proof -
  have "r = Inl (SDenied MissingCapability) \<and> is_state s' = is_state s \<and> is_markers s' = is_markers s"
    if "pr_role (ca_principal (te_actor env)) \<noteq> Operator"
  proof -
    have "\<not> admitted (te_actor env)" using that by (simp add: admitted_def)
    then show ?thesis using assms(2) by (auto simp: transact_def)
  qed
  moreover from assms(2) have "case r of
      Inl _ \<Rightarrow> is_state s' = is_state s
    | Inr (Replayed _) \<Rightarrow> is_state s' = is_state s \<and> is_markers s' = is_markers s
    | Inr (Applied g) \<Rightarrow> admitted (te_actor env) \<and>
        (\<exists>d t. store_load jc s = Inr d \<and> g = Suc (id_generation d) \<and>
           run_change env ops \<lparr>tx_doc = d, tx_events = [], tx_markers = is_markers s\<rparr> = (None, t) \<and>
           store_load jc s' = Inr (commit_document env idem g (tx_doc t)) \<and>
           id_generation (commit_document env idem g (tx_doc t)) = g) \<and>
        (\<forall>old. is_state s = Bytes old \<longrightarrow> is_previous s' = Bytes old)"
  proof (cases rule: transact_cases)
    case (applied current t bytes)
    have "store_load jc s' = Inr (commit_document env idem (Suc (id_generation current)) (tx_doc t))"
      using assms(1) applied(5,6) by (simp add: codec_ok_def store_load_def commit_document_sel)
    then show ?thesis using applied by (simp add: commit_document_sel)
  qed simp_all
  ultimately show ?thesis by blast
qed

theorem transactions_are_all_or_nothing_witness:
  "\<exists>d t. store_load (one_document_codec ana_document) new_store = Inr d \<and>
     run_change root_env [(OpCreatePrincipal ''ana'' User None, True)]
       \<lparr>tx_doc = d, tx_events = [], tx_markers = is_markers new_store\<rparr> = (None, t) \<and> (1::nat) = Suc (id_generation d)"
  using transactions_are_all_or_nothing [OF ana_codec_ok ana_step] by auto

section \<open>Repeated requests\<close>

definition idem_inv :: "identity_document \<Rightarrow> bool" where
  "idem_inv d \<longleftrightarrow> bt_wf (id_idempotency d) \<and>
     (\<forall>(k, e) \<in> set (id_idempotency d). ie_generation e \<le> id_generation d)"

lemma foldl_oldest_min:
  "foldl (\<lambda>acc e. case acc of
       None \<Rightarrow> Some e
     | Some best \<Rightarrow> if ie_generation (snd e) < ie_generation (snd best) then Some e else Some best) (Some b) m
    = Some x \<Longrightarrow> ie_generation (snd x) \<le> ie_generation (snd b) \<and>
      (\<forall>y \<in> set m. ie_generation (snd x) \<le> ie_generation (snd y))"
  by (induction m arbitrary: b) (fastforce split: if_splits)+

lemma oldest_key_min:
  assumes "oldest_key m = Some k"
  shows "\<exists>e. (k, e) \<in> set m \<and> (\<forall>y \<in> set m. ie_generation e \<le> ie_generation (snd y))"
proof -
  obtain e where f: "foldl (\<lambda>acc e. case acc of
       None \<Rightarrow> Some e
     | Some best \<Rightarrow> if ie_generation (snd e) < ie_generation (snd best) then Some e else Some best) None m
      = Some (k, e)" using assms by (auto simp: oldest_key_def)
  then obtain b m' where m: "m = b # m'" by (cases m) auto
  have "ie_generation (snd (k, e)) \<le> ie_generation (snd b) \<and>
      (\<forall>y \<in> set m'. ie_generation (snd (k, e)) \<le> ie_generation (snd y))"
    by (rule foldl_oldest_min) (use f m in simp)
  moreover have "(k, e) \<in> set m" using foldl_oldest_mem [OF f] by simp
  ultimately show ?thesis using m by auto
qed

text \<open>Pruning drops the oldest entries, never the newest.\<close>

lemma prune_props:
  assumes "bt_wf m"
  shows "bt_wf (prune_idempotency m) \<and> set (prune_idempotency m) \<subseteq> set m \<and>
    (\<forall>k e. (k, e) \<in> set m \<and> (\<forall>(k', e') \<in> set m. k' \<noteq> k \<longrightarrow> ie_generation e' < ie_generation e) \<longrightarrow>
       (k, e) \<in> set (prune_idempotency m))"
  using assms
proof (induction m rule: prune_idempotency.induct)
  case (1 m)
  show ?case
  proof (cases "length m > max_idempotency \<and> oldest_key m \<noteq> None")
    case True
    then obtain o' where o: "oldest_key m = Some o'" by auto
    let ?m = "bt_remove o' m"
    have eq: "prune_idempotency m = prune_idempotency ?m"
      using True o by (subst prune_idempotency.simps) simp
    have sub: "set ?m \<subseteq> set m" by (auto simp: bt_remove_def)
    have IH: "bt_wf (prune_idempotency ?m) \<and> set (prune_idempotency ?m) \<subseteq> set ?m \<and>
      (\<forall>k e. (k, e) \<in> set ?m \<and> (\<forall>(k', e') \<in> set ?m. k' \<noteq> k \<longrightarrow> ie_generation e' < ie_generation e) \<longrightarrow>
       (k, e) \<in> set (prune_idempotency ?m))"
      using "1.IH" True o "1.prems" bt_remove_wf by blast
    have "(k, e) \<in> set ?m"
      if "(k, e) \<in> set m" "\<forall>(k', e') \<in> set m. k' \<noteq> k \<longrightarrow> ie_generation e' < ie_generation e" for k e
    proof -
      obtain eo where eo: "(o', eo) \<in> set m" "\<forall>y \<in> set m. ie_generation eo \<le> ie_generation (snd y)"
        using oldest_key_min [OF o] by blast
      have "o' \<noteq> k"
      proof
        assume "o' = k"
        then have "e = eo" using that(1) eo(1) bt_wf_get_iff [OF "1.prems"] by (metis option.inject)
        have "\<forall>y \<in> set m. fst y = k"
          using eo(2) that(2) \<open>e = eo\<close> by (fastforce simp: case_prod_beta)
        then have "set (map fst m) \<subseteq> {k}" by auto
        then have "card (set (map fst m)) \<le> card {k}" by (intro card_mono) simp_all
        then have "length m \<le> 1" using distinct_card [OF bt_wf_distinct [OF "1.prems"]] by simp
        then show False using True by (simp add: max_idempotency_def)
      qed
      then show ?thesis using that(1) by (simp add: bt_remove_def)
    qed
    then show ?thesis using IH sub unfolding eq by blast
  next
    case False
    then have "prune_idempotency m = m" by (subst prune_idempotency.simps) auto
    then show ?thesis using "1.prems" by simp
  qed
qed

definition idem_view :: "tx \<Rightarrow> (string, idempotency) btree \<times> nat" where
  "idem_view t = (id_idempotency (tx_doc t), id_generation (tx_doc t))"

lemma idem_view_op: "idem_view (snd (apply_op env op t)) = idem_view t"
  by (cases op) (auto simp: idem_view_def op_result_def set_continuity_def trust_issuer_def
      create_principal_def set_status_def issue_credential_def rotate_credential_def
      revoke_credential_def assign_owner_def reassign_owner_def grant_def revoke_grant_def
      remove_profile_def bind_profile_def Let_def
      split: option.splits sum.splits prod.splits bind_outcome.splits assignment.splits)

lemma idem_view_run: "idem_view (snd (run_change env ops t)) = idem_view t"
proof (induction env ops t rule: run_change.induct)
  case (2 env op passed_on ops t)
  then show ?case using idem_view_op [of env op t]
    by (cases "apply_op env op t") (auto split: option.splits)
qed simp

lemma idem_inv_empty: "idem_inv empty_document"
  by (simp add: idem_inv_def empty_document_def bt_wf_def)

lemma commit_idem:
  assumes "idem_inv d" and "idem_view t = (id_idempotency d, id_generation d)"
  shows "idem_inv (commit_document env idem (Suc (id_generation d)) (tx_doc t))"
    and "idem = Some (key, fp) \<Longrightarrow>
      bt_get (id_idempotency (commit_document env idem (Suc (id_generation d)) (tx_doc t))) key
        = Some \<lparr>ie_fingerprint = fp, ie_generation = Suc (id_generation d), ie_at = te_now env\<rparr>"
proof -
  have view: "id_idempotency (tx_doc t) = id_idempotency d" using assms(2) by (simp add: idem_view_def)
  have wf: "bt_wf (id_idempotency d)" using assms(1) by (simp add: idem_inv_def)
  let ?e = "\<lambda>fp. \<lparr>ie_fingerprint = fp, ie_generation = Suc (id_generation d), ie_at = te_now env\<rparr>"
  have mem: "ie_generation x \<le> Suc (id_generation d)" if "(k, x) \<in> set (bt_insert key (?e fp) (id_idempotency d))" for k x key fp
    using assms(1) bt_insert_mem [OF that] by (auto simp: idem_inv_def)
  show "idem_inv (commit_document env idem (Suc (id_generation d)) (tx_doc t))"
  proof (cases idem)
    case None
    then show ?thesis using assms(1) view
      by (auto simp: commit_document_def Let_def idem_inv_def)
  next
    case (Some x)
    then obtain key fp where x: "idem = Some (key, fp)" by (cases x) auto
    show ?thesis
      using prune_props [OF bt_insert_wf [OF wf], of key "?e fp"] mem view
      by (fastforce simp: x commit_document_def Let_def idem_inv_def)
  qed
  assume x: "idem = Some (key, fp)"
  let ?m = "bt_insert key (?e fp) (id_idempotency d)"
  have wf': "bt_wf ?m" by (rule bt_insert_wf [OF wf])
  have "(key, ?e fp) \<in> set ?m" using bt_wf_get_iff [OF wf', of key "?e fp"] by (simp add: bt_simps)
  moreover have "\<forall>(k', e') \<in> set ?m. k' \<noteq> key \<longrightarrow> ie_generation e' < ie_generation (?e fp)"
    using assms(1) by (auto simp: idem_inv_def less_Suc_eq_le dest!: bt_insert_mem)
  ultimately have "(key, ?e fp) \<in> set (prune_idempotency ?m)" "bt_wf (prune_idempotency ?m)"
    using prune_props [OF wf'] by blast+
  then have "bt_get (prune_idempotency ?m) key = Some (?e fp)" by (simp add: bt_wf_get_iff)
  then show "bt_get (id_idempotency (commit_document env idem (Suc (id_generation d)) (tx_doc t))) key = Some (?e fp)"
    using view by (simp add: x commit_document_def Let_def)
qed

definition idem_store_inv :: "'j codec \<Rightarrow> identity_store \<Rightarrow> bool" where
  "idem_store_inv jc s \<longleftrightarrow> (\<forall>d. store_load jc s = Inr d \<longrightarrow> idem_inv d)"

lemma applied_load:
  assumes "codec_ok jc" and "transact jc env io idem ops s = (Inr (Applied g), s')"
  shows "\<exists>d t. store_load jc s = Inr d \<and> g = Suc (id_generation d) \<and>
    idem_view t = (id_idempotency d, id_generation d) \<and>
    store_load jc s' = Inr (commit_document env idem g (tx_doc t))"
  using assms(2)
proof (cases rule: transact_cases)
  case (applied current t bytes)
  have "idem_view t = (id_idempotency current, id_generation current)"
    using idem_view_run [of env ops "\<lparr>tx_doc = current, tx_events = [], tx_markers = is_markers s\<rparr>"] applied(4)
    by (simp add: idem_view_def)
  moreover have "store_load jc s' = Inr (commit_document env idem (Suc (id_generation current)) (tx_doc t))"
    using assms(1) applied(5,6) by (simp add: codec_ok_def store_load_def commit_document_sel)
  ultimately show ?thesis using applied(1,2) by auto
qed simp_all

interpretation idem_history: step_invariant "store_step jc" "\<lambda>_ _. codec_ok jc" "idem_store_inv jc" for jc
proof
  fix s :: identity_store and q :: tx_request
  assume inv: "idem_store_inv jc s" and ok: "codec_ok jc"
  obtain r s' where t: "transact jc (rq_env q) (rq_io q) (rq_idem q) (rq_change q) s = (r, s')" by fastforce
  show "idem_store_inv jc (store_step jc s q)"
  proof (cases "\<exists>g. r = Inr (Applied g)")
    case True
    then obtain g where "r = Inr (Applied g)" by blast
    from applied_load [OF ok t [unfolded this]] show ?thesis
      using inv commit_idem(1) by (fastforce simp: idem_store_inv_def store_step_def t)
  next
    case False
    have "is_state s' = is_state s" using t by (cases rule: transact_cases) (use False in auto)
    then show ?thesis using inv by (simp add: idem_store_inv_def store_step_def t store_load_def)
  qed
qed

lemma idem_store_inv_new: "idem_store_inv jc new_store"
  by (simp add: idem_store_inv_def store_load_def new_store_def idem_inv_empty)

text \<open>
  A request applies once: after a keyed request was applied as some generation, at any point
  of any history, repeating the key with the same fingerprint reports that generation and changes
  nothing, whoever repeats it and whatever change it carries, and the same key with another
  fingerprint is refused.
\<close>

theorem a_request_applies_once:
  assumes "codec_ok jc" and "s = foldl (store_step jc) new_store history"
    and "transact jc env io (Some (key, fp)) ops s = (Inr (Applied g), s')"
    and "admitted (te_actor env')" and "io_lock io' = None"
    and "transact jc env' io' (Some (key, fp')) ops' s' = (r, s'')"
  shows "r = (if fp' = fp then Inr (Replayed g) else Inl (SRefused IdempotencyConflict)) \<and>
    is_state s'' = is_state s' \<and> is_markers s'' = is_markers s'"
proof -
  obtain d t where d: "store_load jc s = Inr d" "g = Suc (id_generation d)"
    "idem_view t = (id_idempotency d, id_generation d)"
    "store_load jc s' = Inr (commit_document env (Some (key, fp)) g (tx_doc t))"
    using applied_load [OF assms(1,3)] by blast
  have "idem_store_inv jc s"
    unfolding assms(2) by (rule idem_history.run_inv_total [OF idem_store_inv_new]) (rule assms(1))
  then have "idem_inv d" using d(1) by (simp add: idem_store_inv_def)
  from commit_idem(2) [OF this d(3) refl, of env key fp]
  have "bt_get (id_idempotency (commit_document env (Some (key, fp)) g (tx_doc t))) key
      = Some \<lparr>ie_fingerprint = fp, ie_generation = g, ie_at = te_now env\<rparr>" using d(2) by simp
  then show ?thesis
    using assms(4-6) d(4) by (auto simp: transact_def split: if_splits)
qed

theorem a_request_applies_once_witness:
  "fst (transact (one_document_codec ana_document) root_env fine_io (Some (''req-1'', ''fp''))
     [(OpSetStatus ''ana'' Suspended, True)] (snd (transact (one_document_codec ana_document) root_env
        fine_io (Some (''req-1'', ''fp'')) [(OpCreatePrincipal ''ana'' User None, True)] new_store)))
   = Inr (Replayed 1)"
proof -
  have a: "admitted (te_actor root_env)"
    by (simp add: admitted_def root_env_def caller_local_operator_def principal_local_operator_def
        authorize_capability_def no_restriction_def)
  obtain r s'' where t: "transact (one_document_codec ana_document) root_env fine_io (Some (''req-1'', ''fp''))
     [(OpSetStatus ''ana'' Suspended, True)] (snd (transact (one_document_codec ana_document) root_env
        fine_io (Some (''req-1'', ''fp'')) [(OpCreatePrincipal ''ana'' User None, True)] new_store)) = (r, s'')"
    by fastforce
  have st: "transact (one_document_codec ana_document) root_env fine_io (Some (''req-1'', ''fp''))
      [(OpCreatePrincipal ''ana'' User None, True)] new_store = (Inr (Applied 1),
      snd (transact (one_document_codec ana_document) root_env fine_io (Some (''req-1'', ''fp''))
        [(OpCreatePrincipal ''ana'' User None, True)] new_store))"
    by (simp only: ana_step snd_conv)
  show ?thesis
    using a_request_applies_once [OF ana_codec_ok _ st a _ t, of "[]"] t by (simp add: fine_io_def)
qed

section \<open>Ownership that counts\<close>

text \<open>
  Ownership fails closed: an ordinary user is authorized by the effective ownership only on a
  profile that exists and whose directory still carries the very marker recorded at the
  assignment; a profile that was deleted, or created anew under the same id, with no marker or
  another one, is authorized for no ordinary user, whatever the document records.
\<close>

theorem effective_ownership_fails_closed:
  assumes "pr_role (ca_principal caller) = User"
    and "authorize caller c profile (effective_ownership exists s d) = Inr p"
  shows "exists profile \<and>
    (\<exists>token marker. bt_get (id_bindings d) profile = Some token \<and> is_markers s profile = Some marker \<and>
       trim marker = token) \<and>
    (\<exists>r. bt_get (id_ownership d) profile = Some r \<and> permits r (pr_id (ca_principal caller)) c)"
proof -
  obtain r where r: "bt_get (effective_ownership exists s d) profile = Some r"
    "permits r (pr_id (ca_principal caller)) c"
    using assms by (auto simp: authorize_def Let_def split: sum.splits option.splits if_splits)
  then have "bound exists s d profile" "bt_get (id_ownership d) profile = Some r"
    by (simp_all add: effective_get split: if_splits)
  then show ?thesis using r(2) by (auto simp: bound_def split: option.splits)
qed

definition bot_document :: identity_document where
  "bot_document = ana_document\<lparr>id_ownership := [(''bot'', new_ownership ''ana'')], id_bindings := [(''bot'', ''7f'')]\<rparr>"

theorem effective_ownership_fails_closed_witness:
  "\<exists>p. authorize sample_user RunsRead ''bot'' (effective_ownership (\<lambda>_. True)
      (new_store\<lparr>is_markers := [''bot'' \<mapsto> ''7f'']\<rparr>) bot_document) = Inr p
    \<and> bt_get (id_bindings bot_document) ''bot'' = Some ''7f''"
proof -
  let ?o = "effective_ownership (\<lambda>_. True) (new_store\<lparr>is_markers := [''bot'' \<mapsto> ''7f'']\<rparr>) bot_document"
  have "trim ''7f'' = ''7f''" by code_simp
  then have "bt_get ?o ''bot'' = Some (new_ownership ''ana'')"
    by (simp add: effective_get bound_def bot_document_def)
  then obtain p where p: "authorize sample_user RunsRead ''bot'' ?o = Inr p"
    by (simp add: authorize_def authorize_capability_def sample_user_def no_restriction_def
        operator_only_def permits_def new_ownership_def owner_default_def)
  show ?thesis
    using effective_ownership_fails_closed [OF _ p] p by (auto simp: sample_user_def bot_document_def)
qed

end
