(* ===== verification/AuditLog.thy ===== *)
theory AuditLog
  imports IdentityStore
begin

text \<open>
  The bounded, rotated audit log of the identity store (\<open>append_audit\<close>, \<open>rotate_audit\<close> and
  \<open>audit\<close> in \<open>crates/lightagent-core/src/identity/store.rs\<close>). The directory is a map from the
  file's index (0 is \<open>audit.jsonl\<close>, \<open>i\<close> is \<open>audit.i.jsonl\<close>) to its content; the JSON codec of a
  record is a parameter. File operations succeed here; \<open>IdentityStore\<close> has the failing ones.
\<close>

record audit_retention =
  at_max_file_bytes :: nat
  at_max_files :: nat

definition default_retention :: audit_retention where
  "default_retention = \<lparr>at_max_file_bytes = 1024 * 1024, at_max_files = 8\<rparr>"

type_synonym audit_files = "nat \<Rightarrow> string option"

definition keep_files :: "audit_retention \<Rightarrow> nat" where
  "keep_files rt = max (at_max_files rt) 1"

definition shift_file :: "nat \<Rightarrow> audit_files \<Rightarrow> audit_files" where
  "shift_file i fs = (case fs i of None \<Rightarrow> fs | Some b \<Rightarrow> fs(Suc i := Some b, i := None))"

definition rotate_audit :: "audit_retention \<Rightarrow> audit_files \<Rightarrow> audit_files" where
  "rotate_audit rt fs =
     (let keep = keep_files rt
      in foldl (\<lambda>fs i. shift_file i fs) (fs(keep - 1 := None)) (rev [0..<keep - 1]))"

definition file_size :: "audit_files \<Rightarrow> nat" where
  "file_size fs = (case fs 0 of None \<Rightarrow> 0 | Some b \<Rightarrow> length b)"

fun record_lines :: "(stored_audit \<Rightarrow> string option) \<Rightarrow> stored_audit list \<Rightarrow> string option" where
  "record_lines to_vec [] = Some []"
| "record_lines to_vec (r # rs) =
     (case to_vec r of
        None \<Rightarrow> None
      | Some line \<Rightarrow> map_option (\<lambda>rest. line @ CHR 0x0A # rest) (record_lines to_vec rs))"

definition append_lines :: "audit_retention \<Rightarrow> string \<Rightarrow> audit_files \<Rightarrow> audit_files" where
  "append_lines rt lines fs =
     (let fs1 = (if file_size fs > 0 \<and> file_size fs + length lines > at_max_file_bytes rt
                 then rotate_audit rt fs else fs)
      in fs1(0 := Some ((case fs1 0 of None \<Rightarrow> [] | Some b \<Rightarrow> b) @ lines)))"

definition append_audit ::
  "(stored_audit \<Rightarrow> string option) \<Rightarrow> audit_retention \<Rightarrow> stored_audit list \<Rightarrow> audit_files
    \<Rightarrow> store_error option \<times> audit_files" where
  "append_audit to_vec rt records fs =
     (if records = [] then (None, fs)
      else case record_lines to_vec records of
          None \<Rightarrow> (Some SCorrupt, fs)
        | Some lines \<Rightarrow> (None, append_lines rt lines fs))"

text \<open>\<open>BufRead::lines\<close> on a file: the pieces between line feeds, without a final empty one.\<close>

definition audit_lines :: "string \<Rightarrow> string list" where
  "audit_lines s = (let ps = split_on (CHR 0x0A) s in if last ps = [] then butlast ps else ps)"

definition read_audit ::
  "(string \<Rightarrow> stored_audit option) \<Rightarrow> audit_retention \<Rightarrow> audit_files \<Rightarrow> stored_audit list" where
  "read_audit from_str rt fs =
     concat (map (\<lambda>i. case fs i of None \<Rightarrow> [] | Some b \<Rightarrow> List.map_filter from_str (audit_lines b))
       (rev [0..<keep_files rt]))"

section \<open>Lemmas\<close>

lemma shift_loop:
  assumes "fs k = None"
  shows "foldl (\<lambda>fs i. shift_file i fs) fs (rev [0..<k]) j
    = (if j = 0 then None else if j \<le> k then fs (j - 1) else fs j)"
  using assms
proof (induction k arbitrary: fs)
  case (Suc k)
  have "shift_file k fs k = None" by (simp add: shift_file_def split: option.splits)
  then have "foldl (\<lambda>fs i. shift_file i fs) (shift_file k fs) (rev [0..<k]) j
      = (if j = 0 then None else if j \<le> k then shift_file k fs (j - 1) else shift_file k fs j)"
    by (rule Suc.IH)
  moreover have "shift_file k fs (Suc k) = fs k" "shift_file k fs k = None"
    "\<And>i. i \<noteq> k \<Longrightarrow> i \<noteq> Suc k \<Longrightarrow> shift_file k fs i = fs i"
    using Suc.prems by (auto simp: shift_file_def split: option.splits)
  moreover have "rev [0..<Suc k] = k # rev [0..<k]" by simp
  ultimately show ?case by (auto simp: le_Suc_eq)
qed simp

lemma rotate_audit_at:
  "rotate_audit rt fs j = (if j = 0 then None else if j < keep_files rt then fs (j - 1) else fs j)"
proof -
  have "0 < keep_files rt" by (simp add: keep_files_def)
  then show ?thesis
    by (auto simp: rotate_audit_def Let_def shift_loop)
qed

definition content :: "audit_files \<Rightarrow> nat \<Rightarrow> string" where
  "content fs i = (case fs i of None \<Rightarrow> [] | Some b \<Rightarrow> b)"

text \<open>Everything retained, oldest first.\<close>

definition retained :: "audit_retention \<Rightarrow> audit_files \<Rightarrow> string" where
  "retained rt fs = concat (map (content fs) (rev [0..<keep_files rt]))"

lemma retained_split: "retained rt fs = concat (map (content fs) (rev [1..<keep_files rt])) @ content fs 0"
proof -
  have "[0..<keep_files rt] = 0 # [1..<keep_files rt]"
    by (simp add: keep_files_def upt_rec)
  then show ?thesis by (simp add: retained_def)
qed

lemma retained_rotate: "retained rt fs = content fs (keep_files rt - 1) @ retained rt (rotate_audit rt fs)"
proof -
  obtain k where k: "keep_files rt = Suc k" using not0_implies_Suc by (force simp: keep_files_def)
  have "map (content (rotate_audit rt fs)) (rev [1..<Suc k]) = map (content fs) (rev [0..<k])"
  proof -
    have "[1..<Suc k] = map Suc [0..<k]" by (simp only: map_Suc_upt One_nat_def)
    then show ?thesis by (auto simp: rev_map content_def rotate_audit_at k simp del: upt_Suc)
  qed
  moreover have "content (rotate_audit rt fs) 0 = []" by (simp add: content_def rotate_audit_at)
  ultimately have "retained rt (rotate_audit rt fs) = concat (map (content fs) (rev [0..<k]))"
    unfolding retained_split k by simp
  then show ?thesis by (simp add: retained_def k)
qed

lemma retained_write: "retained rt (fs(0 := Some (content fs 0 @ lines))) = retained rt fs @ lines"
proof -
  have "map (content (fs(0 := Some (content fs 0 @ lines)))) (rev [1..<keep_files rt])
      = map (content fs) (rev [1..<keep_files rt])"
    by (rule map_cong) (auto simp: content_def)
  then have "concat (map (content (fs(0 := Some (content fs 0 @ lines)))) (rev [1..<keep_files rt]))
      = concat (map (content fs) (rev [1..<keep_files rt]))" by (rule arg_cong)
  moreover have "content (fs(0 := Some (content fs 0 @ lines))) 0 = content fs 0 @ lines"
    by (simp add: content_def)
  ultimately show ?thesis unfolding retained_split by (simp only: append_assoc)
qed

definition audit_inv :: "audit_retention \<Rightarrow> string list \<Rightarrow> audit_files \<Rightarrow> bool" where
  "audit_inv rt chunks fs \<longleftrightarrow>
     (\<exists>dropped. concat chunks = dropped @ retained rt fs) \<and>
     (\<forall>i \<ge> keep_files rt. fs i = None) \<and>
     (\<forall>i b. fs i = Some b \<longrightarrow> length b \<le> at_max_file_bytes rt \<or> b \<in> set chunks)"

lemma append_lines_inv:
  assumes "audit_inv rt chunks fs"
  shows "audit_inv rt (chunks @ [lines]) (append_lines rt lines fs)"
proof -
  define fs1 where "fs1 = (if file_size fs > 0 \<and> file_size fs + length lines > at_max_file_bytes rt
                 then rotate_audit rt fs else fs)"
  have eq: "append_lines rt lines fs = fs1(0 := Some (content fs1 0 @ lines))"
    by (simp add: append_lines_def fs1_def content_def Let_def)
  have keep: "0 < keep_files rt" by (simp add: keep_files_def)
  obtain dropped0 where d0: "concat chunks = dropped0 @ retained rt fs"
    using assms by (auto simp: audit_inv_def)
  have "\<exists>x. retained rt fs = x @ retained rt fs1"
  proof (cases "file_size fs > 0 \<and> file_size fs + length lines > at_max_file_bytes rt")
    case True
    then have "fs1 = rotate_audit rt fs" by (simp add: fs1_def)
    then show ?thesis using retained_rotate [of rt fs] by metis
  next
    case False
    then show ?thesis by (intro exI [of _ "[]"]) (simp only: fs1_def if_False append_Nil)
  qed
  then obtain dropped where "concat chunks = dropped @ retained rt fs1"
    using d0 by (metis append_assoc)
  then have "concat (chunks @ [lines]) = dropped @ retained rt (append_lines rt lines fs)"
    by (simp add: eq retained_write)
  moreover have "\<forall>i \<ge> keep_files rt. fs1 i = None"
    using assms keep by (auto simp: audit_inv_def fs1_def rotate_audit_at)
  moreover have sizes: "\<forall>i b. fs1 i = Some b \<longrightarrow> length b \<le> at_max_file_bytes rt \<or> b \<in> set chunks"
    using assms by (auto simp: audit_inv_def fs1_def rotate_audit_at split: if_splits)
  moreover have "length (content fs1 0 @ lines) \<le> at_max_file_bytes rt \<or> content fs1 0 @ lines = lines"
    by (auto simp: fs1_def rotate_audit_at content_def file_size_def split: option.splits)
  ultimately show ?thesis
    using keep unfolding audit_inv_def eq by auto
qed

lemma audit_history_inv:
  "audit_inv rt chunks (foldl (\<lambda>fs lines. append_lines rt lines fs) (\<lambda>_. None) chunks)"
proof (induction chunks rule: rev_induct)
  case Nil
  show ?case by (simp add: audit_inv_def retained_def content_def)
next
  case (snoc x xs)
  then show ?case using append_lines_inv by simp
qed

text \<open>
  The audit log forgets only its oldest part: after any sequence of appends, what the files
  hold from the oldest to the newest is a suffix of everything appended and ends with the last
  append; there are never more files than the retention keeps, and each is within the size limit
  unless it is one append that alone is larger.
\<close>

theorem audit_log_forgets_only_the_oldest:
  "(let fs = foldl (\<lambda>fs lines. append_lines rt lines fs) (\<lambda>_. None) chunks in
    (\<exists>dropped. concat chunks = dropped @ retained rt fs) \<and>
    (\<exists>before. chunks = [] \<or> retained rt fs = before @ last chunks) \<and>
    (\<forall>i. fs i = None \<or> (i < max (at_max_files rt) 1 \<and>
       (length (the (fs i)) \<le> at_max_file_bytes rt \<or> the (fs i) \<in> set chunks))))"
proof -
  let ?fs = "\<lambda>chunks. foldl (\<lambda>fs lines. append_lines rt lines fs) (\<lambda>_. None) chunks"
  have inv: "audit_inv rt chunks (?fs chunks)" by (rule audit_history_inv)
  have "\<exists>before. chunks = [] \<or> retained rt (?fs chunks) = before @ last chunks"
  proof (cases chunks rule: rev_cases)
    case (snoc xs x)
    define fs where "fs = ?fs xs"
    have "\<exists>fs1. append_lines rt x fs = fs1(0 := Some (content fs1 0 @ x))"
      unfolding append_lines_def Let_def content_def by blast
    then show ?thesis by (auto simp: snoc retained_write simp flip: fs_def)
  qed simp
  moreover have "?fs chunks i = None \<or> (i < max (at_max_files rt) 1 \<and>
       (length (the (?fs chunks i)) \<le> at_max_file_bytes rt \<or> the (?fs chunks i) \<in> set chunks))" for i
  proof (cases "?fs chunks i")
    case (Some b)
    then have "i < max (at_max_files rt) 1" using inv unfolding audit_inv_def keep_files_def
      by (metis not_le option.distinct(1))
    moreover have "length b \<le> at_max_file_bytes rt \<or> b \<in> set chunks"
      using inv Some unfolding audit_inv_def by blast
    ultimately show ?thesis using Some by simp
  qed simp
  ultimately show ?thesis using inv unfolding audit_inv_def Let_def by blast
qed

theorem audit_log_forgets_only_the_oldest_witness:
  "\<exists>before. retained \<lparr>at_max_file_bytes = 4, at_max_files = 2\<rparr>
     (foldl (\<lambda>fs lines. append_lines \<lparr>at_max_file_bytes = 4, at_max_files = 2\<rparr> lines fs) (\<lambda>_. None)
        [''aaa'', ''bbb'', ''ccc'']) = before @ ''ccc''"
  using audit_log_forgets_only_the_oldest [of "\<lparr>at_max_file_bytes = 4, at_max_files = 2\<rparr>" "[''aaa'', ''bbb'', ''ccc'']"]
  by (simp add: Let_def del: foldl.simps)

end
