(* ===== verification/Provisioning.thy ===== *)
theory Provisioning
  imports Delegation Permissions Schema IdentityStore
begin

text \<open>
  Account and profile provisioning for an external control service
  (\<open>crates/lightagent-core/src/provisioning.rs\<close>): the ledger of operations with its harness stamp,
  the validation of requests, the templates and presets, who is admitted, and every call of the
  service over the three stores it keeps together: the ledger file, the profile directory and the
  identity store.

  SHA-256, the random source and the outcome of each file operation are parameters of a call. The
  ledger lock makes a call one step; what other processes do to the profile directory while a call
  runs is part of its parameters. The ledger file is the ledger it holds: \<open>serde_json\<close> reads back
  the values it wrote; a file that is no ledger is \<open>LedgerCorrupt\<close>. The generation is a natural
  number, as in the identity store.
\<close>

section \<open>Errors\<close>

datatype provisioning_error = PDenied string | PInvalid string | PConflict string
  | UnknownOperation | PUnavailable | PCorrupt

fun provisioning_code :: "provisioning_error \<Rightarrow> string" where
  "provisioning_code (PDenied code) = code"
| "provisioning_code (PInvalid code) = code"
| "provisioning_code (PConflict code) = code"
| "provisioning_code UnknownOperation = ''unknown_operation''"
| "provisioning_code PUnavailable = ''storage_unavailable''"
| "provisioning_code PCorrupt = ''storage_corrupt''"

fun provisioning_http_status :: "provisioning_error \<Rightarrow> nat" where
  "provisioning_http_status (PDenied code) = (if code = ''unauthenticated'' then 401 else 403)"
| "provisioning_http_status (PInvalid _) = 400"
| "provisioning_http_status (PConflict _) = 409"
| "provisioning_http_status UnknownOperation = 404"
| "provisioning_http_status PUnavailable = 503"
| "provisioning_http_status PCorrupt = 503"

section \<open>The ledger\<close>

definition ledger_schema_version :: nat where
  "ledger_schema_version = 1"

definition templates_known :: "string list" where
  "templates_known = [''assistant'']"

definition max_operations :: nat where
  "max_operations = 100000"

definition max_profiles_per_provisioner :: nat where
  "max_profiles_per_provisioner = 100000"

definition reserved_profiles :: "string list" where
  "reserved_profiles = [''default'']"

record provisioner =
  pv_principal :: string
  pv_issuers :: "string set"
  pv_templates :: "string set"
  pv_max_profiles :: nat
  pv_created :: nat
  pv_revoked :: "nat option"

datatype operation_state = OsPending | OsProfileCreated | OsCompleted | OsFailed | OsRevoked

definition is_terminal :: "operation_state \<Rightarrow> bool" where
  "is_terminal s = (case s of OsCompleted \<Rightarrow> True | OsFailed \<Rightarrow> True | OsRevoked \<Rightarrow> True | _ \<Rightarrow> False)"

definition holds_profile :: "operation_state \<Rightarrow> bool" where
  "holds_profile s =
     (case s of OsPending \<Rightarrow> True | OsProfileCreated \<Rightarrow> True | OsCompleted \<Rightarrow> True | _ \<Rightarrow> False)"

record operation =
  op_id :: string
  op_provisioner :: string
  op_idempotency_key :: string
  op_fingerprint :: string
  op_external :: external_identity
  op_principal :: string
  op_profile :: string
  op_template :: string
  op_display_name :: string
  op_marker :: string
  op_state :: operation_state
  op_failure :: "string option"
  op_created :: nat
  op_updated :: nat

record ledger_continuity =
  lc_harness_id :: string
  lc_continuity_id :: string
  lc_initialized :: nat
  lc_retired :: bool
  lc_retired_at :: nat
  lc_sequence_seen :: nat
  lc_generation_seen :: nat

record ledger =
  lg_schema :: nat
  lg_generation :: nat
  lg_provisioners :: "(string, provisioner) btree"
  lg_operations :: "(string, operation) btree"
  lg_keys :: "(string, string) btree"
  lg_continuity :: "ledger_continuity option"

definition empty_ledger :: ledger where
  "empty_ledger = \<lparr>lg_schema = ledger_schema_version, lg_generation = 0, lg_provisioners = [],
     lg_operations = [], lg_keys = [], lg_continuity = None\<rparr>"

definition stamped_retired :: "ledger \<Rightarrow> bool" where
  "stamped_retired l = (case lg_continuity l of None \<Rightarrow> False | Some stamp \<Rightarrow> lc_retired stamp)"

section \<open>Requests\<close>

record provision_request =
  rq_issuer :: string
  rq_subject :: string
  rq_profile_id :: string
  rq_display_name :: string
  rq_template :: string

record validated =
  vd_external :: external_identity
  vd_profile :: string
  vd_display_name :: string
  vd_template :: string
  vd_fingerprint :: string

definition valid_issuer :: "string \<Rightarrow> bool" where
  "valid_issuer issuer \<longleftrightarrow> length issuer \<le> 256 \<and>
     (case strip_prefix ''https://'' issuer of
        None \<Rightarrow> False
      | Some rest \<Rightarrow> rest \<noteq> [] \<and> \<not> is_prefix_of ''/'' rest) \<and>
     list_all is_graphic issuer \<and>
     \<not> list_ex (\<lambda>c. c \<in> {CHR ''@'', CHR ''?'', CHR ''#'', CHR 0x5C}) issuer"

definition valid_subject :: "string \<Rightarrow> bool" where
  "valid_subject subj \<longleftrightarrow> 1 \<le> length subj \<and> length subj \<le> 255 \<and> list_all is_graphic subj"

definition is_alphanumeric :: "char \<Rightarrow> bool" where
  "is_alphanumeric c \<longleftrightarrow> is_digit c \<or> is_lower c \<or> is_upper c"

definition valid_key :: "string \<Rightarrow> bool" where
  "valid_key key \<longleftrightarrow> 8 \<le> length key \<and> length key \<le> 128 \<and>
     list_all (\<lambda>c. is_alphanumeric c \<or> c \<in> {CHR ''-'', CHR ''_'', CHR ''.'', CHR '':''}) key"

definition valid_operation_id :: "string \<Rightarrow> bool" where
  "valid_operation_id i \<longleftrightarrow> length i = 32 \<and> list_all is_lower_hex i"

text \<open>\<open>char::is_control\<close> over UTF-8: the bytes below space, delete, and U+0080 to U+009F.\<close>

fun has_control :: "string \<Rightarrow> bool" where
  "has_control [] = False"
| "has_control (c # cs) = (c < CHR 0x20 \<or> c = CHR 0x7F \<or>
     (c = CHR 0xC2 \<and> (case cs of [] \<Rightarrow> False | d # _ \<Rightarrow> CHR 0x80 \<le> d \<and> d \<le> CHR 0x9F)) \<or>
     has_control cs)"

definition fingerprint_label :: string where
  "fingerprint_label = ''lightagent-provisioning-request-v1'' @ [CHR 0x00]"

definition fingerprint :: "(string \<Rightarrow> nat list) \<Rightarrow> provision_request \<Rightarrow> string" where
  "fingerprint sha r = hex_bytes (sha (fingerprint_label @
     concat (map (\<lambda>field. field @ [CHR 0x00])
       [rq_issuer r, rq_subject r, rq_profile_id r, rq_display_name r, rq_template r])))"

definition validate_request ::
  "(string \<Rightarrow> nat list) \<Rightarrow> provision_request \<Rightarrow> provisioning_error + validated" where
  "validate_request sha r =
     (if \<not> valid_issuer (rq_issuer r) then Inl (PInvalid ''invalid_issuer'')
      else if \<not> valid_subject (rq_subject r) then Inl (PInvalid ''invalid_subject'')
      else case profile_id_new (rq_profile_id r) of
          Inl _ \<Rightarrow> Inl (PInvalid ''invalid_profile_id'')
        | Inr profile \<Rightarrow>
            if profile \<in> set reserved_profiles then Inl (PInvalid ''reserved_profile_id'')
            else if char_count (rq_display_name r) < 1 \<or> char_count (rq_display_name r) > 64 \<or>
              trim (rq_display_name r) \<noteq> rq_display_name r \<or> has_control (rq_display_name r)
            then Inl (PInvalid ''invalid_display_name'')
            else if rq_template r \<notin> set templates_known then Inl (PInvalid ''invalid_template'')
            else Inr \<lparr>vd_external = \<lparr>ei_issuer = rq_issuer r, ei_subject = rq_subject r\<rparr>,
                      vd_profile = profile, vd_display_name = rq_display_name r,
                      vd_template = rq_template r, vd_fingerprint = fingerprint sha r\<rparr>)"

definition principal_label :: string where
  "principal_label = ''lightagent-external-principal-v1'' @ [CHR 0x00]"

definition derived_principal ::
  "(string \<Rightarrow> nat list) \<Rightarrow> external_identity \<Rightarrow> provisioning_error + string" where
  "derived_principal sha identity =
     (let digest = hex_bytes (sha (principal_label @ ei_issuer identity @ [CHR 0x00] @ ei_subject identity))
      in case principal_id_new (''ext-'' @ take 40 digest) of
           Inl _ \<Rightarrow> Inl PCorrupt
         | Inr i \<Rightarrow> Inr i)"

section \<open>Templates and presets\<close>

record model_routing =
  mr_model :: string
  mr_base_url :: "string option"

record agent_profile =
  ag_id :: string
  ag_name :: string
  ag_description :: string
  ag_persona :: string
  ag_routing :: model_routing
  ag_toolsets :: "string list"
  ag_approval_policy :: coarse_policy
  ag_limits :: run_limits

definition agent_profile_new :: "string \<Rightarrow> string \<Rightarrow> string \<Rightarrow> string \<Rightarrow> agent_profile" where
  "agent_profile_new i name persona model =
     \<lparr>ag_id = i, ag_name = name, ag_description = [], ag_persona = persona,
      ag_routing = \<lparr>mr_model = model, mr_base_url = None\<rparr>, ag_toolsets = [],
      ag_approval_policy = Balanced, ag_limits = default_limits\<rparr>"

definition template_profile ::
  "string \<Rightarrow> string \<Rightarrow> string \<Rightarrow> provisioning_error + agent_profile" where
  "template_profile template i display_name =
     (if template = ''assistant'' then
        Inr ((agent_profile_new i display_name ''You are a helpful assistant.'' [])
          \<lparr>ag_description := ''Provisioned by the account control service.'',
           ag_toolsets := [],
           ag_approval_policy := Strict,
           ag_limits := \<lparr>rl_max_turns = 8, rl_max_tool_calls = 16, rl_max_parallel_tools = 1,
             rl_max_repeated_identical_calls = 2, rl_max_tool_output_bytes = 65536,
             rl_wall_clock_secs = Some 300\<rparr>\<rparr>)
      else Inl (PInvalid ''invalid_template''))"

definition apply_preset :: "agent_profile \<Rightarrow> string \<Rightarrow> provisioning_error + agent_profile" where
  "apply_preset profile i =
     (if i = ''research@1'' then
        Inr (profile\<lparr>ag_toolsets := [''datetime.now'', ''web.search'', ''web.fetch'', ''rag.search'',
               ''rag.realtime'', ''skill.read'', ''agent.research''],
             ag_approval_policy := Balanced\<rparr>)
      else Inl (PInvalid ''invalid_preset''))"

section \<open>The installation\<close>

text \<open>
  The entry of a name in \<open>profiles/\<close>: no directory, or a directory with its manifest and the
  marker file of the operation that created it. A manifest that was not written from a template
  is \<open>ForeignManifest\<close>.
\<close>

datatype manifest = NoManifest | Manifest agent_profile | ForeignManifest

datatype profile_entry = NotADirectory | ProfileDir manifest stored

datatype ledger_file = NoLedgerFile | LedgerUnreadable | LedgerCorrupt | StoredLedger ledger

datatype fault = PendingRecorded | ProfileRenamed | ProfileCreatedRecorded | IdentityCommitted
  | RevokeIdentityCommitted

record provisioning_audit =
  pa_at :: nat
  pa_action :: string
  pa_actor :: "string option"
  pa_operation :: "string option"
  pa_profile :: "string option"
  pa_principal :: "string option"
  pa_outcome :: string

record world =
  pw_ledger :: ledger_file
  pw_identity :: identity_store
  pw_profiles :: "(string, profile_entry) btree"
  pw_staging :: "string list"
  pw_quarantine :: "(string, profile_entry) btree"
  pw_audit :: "provisioning_audit list"
  pw_audit_old :: "provisioning_audit list"
  pw_fault :: "fault option"

text \<open>
  What the files, the random source and other processes do during one call. A durable write
  succeeds, fails before the rename, or fails after it (\<open>SaveUnsynced\<close>): then the new content is
  in place and the call reports an error.
\<close>

datatype save_outcome = SaveOk | SaveFailed | SaveUnsynced

record materialize_io =
  mi_clear :: bool
  mi_staged :: bool
  mi_left_staging :: bool
  mi_parent :: bool
  mi_appears :: "profile_entry option"
  mi_rename :: bool
  mi_replaced :: "profile_entry option"

record 'j call =
  px_codec :: "'j codec"
  px_sha :: "string \<Rightarrow> nat list"
  px_now :: nat
  px_lock :: bool
  px_save :: "nat \<Rightarrow> save_outcome"
  px_id_bytes :: "nat list option"
  px_marker_bytes :: "nat list option"
  px_materialize :: "string \<Rightarrow> materialize_io"
  px_tx :: "string \<Rightarrow> tx_io"
  px_bind :: "string \<Rightarrow> bind_outcome"
  px_unlink :: "string \<Rightarrow> bool"
  px_quarantine :: "string \<Rightarrow> bool"
  px_cleared :: "string \<Rightarrow> bool"
  px_staging_read :: bool
  px_quarantine_read :: bool
  px_profiles_read :: bool
  px_audit :: bool
  px_line :: "provisioning_audit \<Rightarrow> nat"

definition load :: "world \<Rightarrow> provisioning_error + ledger" where
  "load w =
     (case pw_ledger w of
        NoLedgerFile \<Rightarrow> Inr empty_ledger
      | LedgerUnreadable \<Rightarrow> Inl PUnavailable
      | LedgerCorrupt \<Rightarrow> Inl PCorrupt
      | StoredLedger l \<Rightarrow> if lg_schema l \<noteq> ledger_schema_version then Inl PCorrupt else Inr l)"

definition save :: "'j call \<Rightarrow> ledger \<Rightarrow> world \<Rightarrow> provisioning_error option \<times> ledger \<times> world" where
  "save x l w =
     (let l1 = l\<lparr>lg_generation := lg_generation l + 1\<rparr>
      in case px_save x (lg_generation l1) of
           SaveOk \<Rightarrow> (None, l1, w\<lparr>pw_ledger := StoredLedger l1\<rparr>)
         | SaveFailed \<Rightarrow> (Some PUnavailable, l1, w)
         | SaveUnsynced \<Rightarrow> (Some PUnavailable, l1, w\<lparr>pw_ledger := StoredLedger l1\<rparr>))"

definition crash_point :: "fault \<Rightarrow> world \<Rightarrow> provisioning_error option \<times> world" where
  "crash_point here w =
     (if pw_fault w = Some here then (Some PUnavailable, w\<lparr>pw_fault := None\<rparr>) else (None, w))"

definition identity_document :: "'j call \<Rightarrow> world \<Rightarrow> provisioning_error + identity_document" where
  "identity_document x w =
     (case store_load (px_codec x) (pw_identity w) of Inl _ \<Rightarrow> Inl PUnavailable | Inr d \<Rightarrow> Inr d)"

definition exclusive ::
  "'j call \<Rightarrow> (world \<Rightarrow> (provisioning_error + 'a) \<times> world) \<Rightarrow> world
    \<Rightarrow> (provisioning_error + 'a) \<times> world" where
  "exclusive x work w = (if px_lock x then work w else (Inl PUnavailable, w))"

text \<open>The files of a profile as the identity store and the service see them.\<close>

definition is_file :: "world \<Rightarrow> string \<Rightarrow> bool" where
  "is_file w profile =
     (case bt_get (pw_profiles w) profile of
        Some (ProfileDir m _) \<Rightarrow> m \<noteq> NoManifest
      | _ \<Rightarrow> False)"

definition tx_env_of :: "'j call \<Rightarrow> caller \<Rightarrow> world \<Rightarrow> tx_env" where
  "tx_env_of x actor w = \<lparr>te_actor = actor, te_now = px_now x, te_sha = px_sha x,
     te_profile_exists = is_file w\<rparr>"

section \<open>Audit\<close>

definition max_audit_bytes :: nat where
  "max_audit_bytes = 1024 * 1024"

definition outcome_string :: "provisioning_error + 'a \<Rightarrow> string" where
  "outcome_string r =
     (case r of Inr _ \<Rightarrow> ''ok'' | Inl e \<Rightarrow> ''refused:'' @ provisioning_code e)"

definition audit ::
  "'j call \<Rightarrow> string \<Rightarrow> string option \<Rightarrow> string option \<Rightarrow> string option \<Rightarrow> string option \<Rightarrow> string
    \<Rightarrow> world \<Rightarrow> world" where
  "audit x action actor operation profile pid outcome w =
     (if \<not> px_audit x then w
      else
        let w1 = (if sum_list (map (px_line x) (pw_audit w)) > max_audit_bytes
                  then w\<lparr>pw_audit_old := pw_audit w, pw_audit := []\<rparr> else w)
        in w1\<lparr>pw_audit := pw_audit w1 @ [\<lparr>pa_at = px_now x, pa_action = action, pa_actor = actor,
             pa_operation = operation, pa_profile = profile, pa_principal = pid,
             pa_outcome = outcome\<rparr>]\<rparr>)"

definition audit_log :: "world \<Rightarrow> provisioning_audit list" where
  "audit_log w = pw_audit_old w @ pw_audit w"

section \<open>Provisioners\<close>

definition require_administrator :: "caller \<Rightarrow> provisioning_error option" where
  "require_administrator actor =
     (if pr_role (ca_principal actor) \<noteq> Operator \<or> authorize_capability actor Administer \<noteq> Inr ()
      then Some (PDenied ''operator_required'') else None)"

definition registration_error ::
  "identity_document \<Rightarrow> string \<Rightarrow> string set \<Rightarrow> string set \<Rightarrow> nat \<Rightarrow> provisioning_error option" where
  "registration_error d pid issuers templates max_profiles =
     (case bt_get (id_principals d) pid of
        None \<Rightarrow> Some (PInvalid ''unknown_principal'')
      | Some record \<Rightarrow>
          if pp_role record \<noteq> Operator \<or> pp_status record \<noteq> Active
          then Some (PInvalid ''provisioner_must_be_active_operator'')
          else if issuers = {} \<or> (\<exists>issuer \<in> issuers. \<not> valid_issuer issuer \<or> issuer \<notin> id_trusted_issuers d)
          then Some (PInvalid ''issuer_not_trusted'')
          else if templates = {} \<or> (\<exists>template \<in> templates. template \<notin> set templates_known)
          then Some (PInvalid ''invalid_template'')
          else if max_profiles < 1 \<or> max_profiles > max_profiles_per_provisioner
          then Some (PInvalid ''invalid_quota'')
          else None)"

definition add_provisioner ::
  "nat \<Rightarrow> string \<Rightarrow> string set \<Rightarrow> string set \<Rightarrow> nat \<Rightarrow> ledger \<Rightarrow> ledger" where
  "add_provisioner now pid issuers templates max_profiles l =
     l\<lparr>lg_provisioners := bt_insert pid
       \<lparr>pv_principal = pid, pv_issuers = issuers, pv_templates = templates,
        pv_max_profiles = max_profiles, pv_created = now, pv_revoked = None\<rparr> (lg_provisioners l)\<rparr>"

text \<open>The unit result of a call that ends by saving the ledger.\<close>

definition saved :: "provisioning_error option \<times> ledger \<times> world \<Rightarrow> (provisioning_error + unit) \<times> world" where
  "saved r = (case r of (Some e, _, w) \<Rightarrow> (Inl e, w) | (None, _, w) \<Rightarrow> (Inr (), w))"

definition register_provisioner ::
  "'j call \<Rightarrow> caller \<Rightarrow> string \<Rightarrow> string set \<Rightarrow> string set \<Rightarrow> nat \<Rightarrow> world
    \<Rightarrow> (provisioning_error + unit) \<times> world" where
  "register_provisioner x actor pid issuers templates max_profiles w =
     (case require_administrator actor of
        Some e \<Rightarrow> (Inl e, w)
      | None \<Rightarrow>
          (let (r, w1) = exclusive x (\<lambda>w. case identity_document x w of
                 Inl e \<Rightarrow> (Inl e, w)
               | Inr d \<Rightarrow> (case registration_error d pid issuers templates max_profiles of
                   Some e \<Rightarrow> (Inl e, w)
                 | None \<Rightarrow> (case load w of
                     Inl e \<Rightarrow> (Inl e, w)
                   | Inr l \<Rightarrow> saved (save x
                       (add_provisioner (px_now x) pid issuers templates max_profiles l) w)))) w
           in (r, audit x ''provisioner_registered'' (Some (pr_id (ca_principal actor))) None None
                 (Some pid) (outcome_string r) w1)))"

definition withdraw :: "nat \<Rightarrow> string \<Rightarrow> ledger \<Rightarrow> ledger" where
  "withdraw now pid l =
     l\<lparr>lg_provisioners := bt_update pid
       (\<lambda>p. p\<lparr>pv_revoked := (case pv_revoked p of None \<Rightarrow> Some now | Some earlier \<Rightarrow> Some earlier)\<rparr>)
       (lg_provisioners l)\<rparr>"

definition revoke_provisioner ::
  "'j call \<Rightarrow> caller \<Rightarrow> string \<Rightarrow> world \<Rightarrow> (provisioning_error + unit) \<times> world" where
  "revoke_provisioner x actor pid w =
     (case require_administrator actor of
        Some e \<Rightarrow> (Inl e, w)
      | None \<Rightarrow>
          (let (r, w1) = exclusive x (\<lambda>w. case load w of
                 Inl e \<Rightarrow> (Inl e, w)
               | Inr l \<Rightarrow>
                   if bt_get (lg_provisioners l) pid = None
                   then (Inl (PInvalid ''unknown_provisioner''), w)
                   else saved (save x (withdraw (px_now x) pid l) w)) w
           in (r, audit x ''provisioner_revoked'' (Some (pr_id (ca_principal actor))) None None
                 (Some pid) (outcome_string r) w1)))"

definition admit ::
  "caller \<Rightarrow> identity_document \<Rightarrow> ledger \<Rightarrow> nat \<Rightarrow> provisioning_error + (caller \<times> provisioner)" where
  "admit caller d l now =
     (case pr_source (ca_principal caller) of
        Credential key_id \<Rightarrow>
          (case caller_for_at (id_credentials d) key_id now of
             Inl _ \<Rightarrow> Inl (PDenied ''unauthenticated'')
           | Inr current \<Rightarrow>
               if pr_id (ca_principal current) \<noteq> pr_id (ca_principal caller)
               then Inl (PDenied ''unauthenticated'')
               else if pr_role (ca_principal current) \<noteq> Operator
               then Inl (PDenied ''not_a_provisioner'')
               else if rs_capabilities (ca_restriction current) \<noteq> Some {Provision}
               then Inl (PDenied ''credential_not_provisioning_only'')
               else if (case bt_get (id_principals d) (pr_id (ca_principal current)) of
                   None \<Rightarrow> True | Some record \<Rightarrow> pp_status record \<noteq> Active)
               then Inl (PDenied ''provisioner_inactive'')
               else case bt_get (lg_provisioners l) (pr_id (ca_principal current)) of
                   None \<Rightarrow> Inl (PDenied ''not_a_provisioner'')
                 | Some p \<Rightarrow>
                     if pv_revoked p \<noteq> None then Inl (PDenied ''provisioner_revoked'')
                     else Inr (current, p))
      | _ \<Rightarrow> Inl (PDenied ''unauthenticated''))"

section \<open>Recording an operation\<close>

definition scoped_key :: "string \<Rightarrow> string \<Rightarrow> string" where
  "scoped_key owner key = owner @ [CHR 0x00] @ key"

definition live_operations :: "ledger \<Rightarrow> string \<Rightarrow> nat" where
  "live_operations l owner =
     length (filter (\<lambda>(_, op). op_provisioner op = owner \<and> holds_profile (op_state op)) (lg_operations l))"

definition profile_known :: "world \<Rightarrow> identity_document \<Rightarrow> ledger \<Rightarrow> string \<Rightarrow> bool" where
  "profile_known w d l profile \<longleftrightarrow>
     bt_get (pw_profiles w) profile \<noteq> None \<or> bt_get (id_ownership d) profile \<noteq> None \<or>
     list_ex (\<lambda>(_, op). op_profile op = profile \<and> op_state op \<noteq> OsFailed) (lg_operations l)"

text \<open>The principal of the user: an existing mapping wins, else the derived id.\<close>

definition resolve_principal ::
  "(string \<Rightarrow> nat list) \<Rightarrow> identity_document \<Rightarrow> external_identity \<Rightarrow> provisioning_error + string" where
  "resolve_principal sha d external =
     (case external_principal d external of
        Some existing \<Rightarrow> (case bt_get (id_principals d) existing of
            None \<Rightarrow> Inl PCorrupt
          | Some record \<Rightarrow>
              if pp_role record \<noteq> User then Inl (PConflict ''external_identity_conflict'')
              else if pp_status record \<noteq> Active then Inl (PConflict ''principal_inactive'')
              else Inr existing)
      | None \<Rightarrow> (case derived_principal sha external of
            Inl e \<Rightarrow> Inl e
          | Inr derived \<Rightarrow>
              if bt_get (id_principals d) derived \<noteq> None
              then Inl (PConflict ''external_identity_conflict'')
              else Inr derived))"

definition begin_error ::
  "world \<Rightarrow> identity_document \<Rightarrow> ledger \<Rightarrow> provisioner \<Rightarrow> validated \<Rightarrow> provisioning_error option" where
  "begin_error w d l p v =
     (if stamped_retired l then Some (PDenied ''harness_retired'')
      else if ei_issuer (vd_external v) \<notin> pv_issuers p \<or> ei_issuer (vd_external v) \<notin> id_trusted_issuers d
      then Some (PDenied ''issuer_not_allowed'')
      else if vd_template v \<notin> pv_templates p then Some (PDenied ''template_not_allowed'')
      else if live_operations l (pv_principal p) \<ge> pv_max_profiles p then Some (PDenied ''quota_exceeded'')
      else if length (lg_operations l) \<ge> max_operations then Some (PDenied ''ledger_full'')
      else if profile_known w d l (vd_profile v) then Some (PConflict ''profile_unavailable'')
      else None)"

definition random_hex :: "nat list option \<Rightarrow> provisioning_error + string" where
  "random_hex bytes = (case bytes of None \<Rightarrow> Inl PUnavailable | Some b \<Rightarrow> Inr (hex_bytes b))"

definition new_operation ::
  "string \<Rightarrow> string \<Rightarrow> string \<Rightarrow> string \<Rightarrow> validated \<Rightarrow> string \<Rightarrow> nat \<Rightarrow> operation" where
  "new_operation i owner key pid v marker now =
     \<lparr>op_id = i, op_provisioner = owner, op_idempotency_key = key,
      op_fingerprint = vd_fingerprint v, op_external = vd_external v, op_principal = pid,
      op_profile = vd_profile v, op_template = vd_template v, op_display_name = vd_display_name v,
      op_marker = marker, op_state = OsPending, op_failure = None, op_created = now,
      op_updated = now\<rparr>"

definition record_operation :: "operation \<Rightarrow> ledger \<Rightarrow> ledger" where
  "record_operation op l =
     l\<lparr>lg_keys := bt_insert (scoped_key (op_provisioner op) (op_idempotency_key op)) (op_id op) (lg_keys l),
       lg_operations := bt_insert (op_id op) op (lg_operations l)\<rparr>"

definition begin_operation ::
  "'j call \<Rightarrow> identity_document \<Rightarrow> provisioner \<Rightarrow> string \<Rightarrow> validated \<Rightarrow> ledger \<Rightarrow> world
    \<Rightarrow> (provisioning_error + string) \<times> ledger \<times> world" where
  "begin_operation x d p key v l w =
     (case begin_error w d l p v of
        Some e \<Rightarrow> (Inl e, l, w)
      | None \<Rightarrow> (case resolve_principal (px_sha x) d (vd_external v) of
          Inl e \<Rightarrow> (Inl e, l, w)
        | Inr pid \<Rightarrow> (case random_hex (px_id_bytes x) of
            Inl e \<Rightarrow> (Inl e, l, w)
          | Inr i \<Rightarrow> (case random_hex (px_marker_bytes x) of
              Inl e \<Rightarrow> (Inl e, l, w)
            | Inr marker \<Rightarrow>
                if bt_get (lg_operations l) i \<noteq> None then (Inl PUnavailable, l, w)
                else (case save x (record_operation
                          (new_operation i (pv_principal p) key pid v marker (px_now x)) l) w of
                    (Some e, l1, w1) \<Rightarrow> (Inl e, l1, w1)
                  | (None, l1, w1) \<Rightarrow> (Inr i, l1, w1))))))"

section \<open>The steps of an operation\<close>

datatype step_error = Fail string | Retry provisioning_error

definition marker_matches :: "world \<Rightarrow> operation \<Rightarrow> bool" where
  "marker_matches w op =
     (case bt_get (pw_profiles w) (op_profile op) of
        Some (ProfileDir m (Bytes marker)) \<Rightarrow> m \<noteq> NoManifest \<and> trim marker = op_marker op
      | _ \<Rightarrow> False)"

definition clear_staging :: "'j call \<Rightarrow> string \<Rightarrow> world \<Rightarrow> world" where
  "clear_staging x i w =
     (if px_cleared x i then w\<lparr>pw_staging := filter (\<lambda>n. n \<noteq> i) (pw_staging w)\<rparr> else w)"

text \<open>What the profile directory holds at the target when another process acts on it.\<close>

definition disturb :: "string \<Rightarrow> profile_entry option \<Rightarrow> world \<Rightarrow> world" where
  "disturb profile found w =
     (case found of
        None \<Rightarrow> w
      | Some entry \<Rightarrow> w\<lparr>pw_profiles := bt_insert profile entry (pw_profiles w)\<rparr>)"

text \<open>A directory moved into place has no binding marker of the identity store.\<close>

definition place_profile :: "operation \<Rightarrow> agent_profile \<Rightarrow> world \<Rightarrow> world" where
  "place_profile op profile w =
     w\<lparr>pw_profiles := bt_insert (op_profile op)
         (ProfileDir (Manifest profile) (Bytes (op_marker op))) (pw_profiles w),
       pw_identity := (pw_identity w)\<lparr>is_markers := (is_markers (pw_identity w))(op_profile op := None)\<rparr>\<rparr>"

definition materialize :: "'j call \<Rightarrow> operation \<Rightarrow> world \<Rightarrow> (step_error + unit) \<times> world" where
  "materialize x op w =
     (let io = px_materialize x (op_id op);
          ours = (\<lambda>w. if marker_matches w op then Inr () else Inl (Fail ''profile_unavailable''))
      in if bt_get (pw_profiles w) (op_profile op) \<noteq> None then (ours w, w)
         else if op_id op \<in> set (pw_staging w) \<and> \<not> mi_clear io then (Inl (Retry PUnavailable), w)
         else
           let w1 = w\<lparr>pw_staging := filter (\<lambda>n. n \<noteq> op_id op) (pw_staging w)\<rparr>
           in case template_profile (op_template op) (op_profile op) (op_display_name op) of
                Inl _ \<Rightarrow> (Inl (Fail ''invalid_template''), w1)
              | Inr profile \<Rightarrow>
                  let w2 = (if mi_staged io \<or> mi_left_staging io
                    then w1\<lparr>pw_staging := pw_staging w1 @ [op_id op]\<rparr> else w1)
                  in if \<not> mi_staged io \<or> \<not> mi_parent io then (Inl (Retry PUnavailable), w2)
                     else
                       let w3 = disturb (op_profile op) (mi_appears io) w2
                       in if \<not> mi_rename io then
                            (if bt_get (pw_profiles w3) (op_profile op) \<noteq> None then ours w3
                             else Inl (Retry PUnavailable), clear_staging x (op_id op) w3)
                          else
                            (case crash_point ProfileRenamed
                                (clear_staging x (op_id op) (place_profile op profile w3)) of
                               (Some e, w4) \<Rightarrow> (Inl (Retry e), w4)
                             | (None, w4) \<Rightarrow>
                                 let w5 = disturb (op_profile op) (mi_replaced io) w4
                                 in (ours w5, w5)))"

record stamp =
  st_continuity_id :: string
  st_sequence_seen :: nat
  st_generation :: nat

definition stamp_of :: "ledger \<Rightarrow> stamp option" where
  "stamp_of l = map_option (\<lambda>c. \<lparr>st_continuity_id = lc_continuity_id c,
     st_sequence_seen = lc_sequence_seen c, st_generation = lg_generation l\<rparr>) (lg_continuity l)"

definition advance ::
  "stamp \<Rightarrow> identity_document \<Rightarrow> string \<Rightarrow> continuity_action \<Rightarrow> store_error + provisioning_continuity" where
  "advance st d operation action =
     (let seen = st_sequence_seen st;
          current = (case id_continuity d of
              None \<Rightarrow> if seen = 0 then Some 0 else None
            | Some m \<Rightarrow>
                if pc_continuity_id m = st_continuity_id st \<and>
                   (pc_sequence m = seen \<or>
                    (Some (pc_sequence m) = checked_add64 seen 1 \<and>
                     pc_last_operation m = operation \<and> pc_last_action m = action))
                then Some (pc_sequence m) else None)
      in case current of
           None \<Rightarrow> Inl (SRefused ContinuityMismatch)
         | Some c \<Rightarrow> (case checked_add64 c 1 of
             None \<Rightarrow> Inl SCorrupt
           | Some sequence \<Rightarrow> Inr \<lparr>pc_continuity_id = st_continuity_id st, pc_sequence = sequence,
               pc_ledger_generation_seen = st_generation st, pc_last_operation = operation,
               pc_last_action = action\<rparr>))"

definition advance_ops ::
  "stamp option \<Rightarrow> identity_document \<Rightarrow> string \<Rightarrow> continuity_action \<Rightarrow> (tx_op \<times> bool) list" where
  "advance_ops st d operation action =
     (case st of
        None \<Rightarrow> []
      | Some s \<Rightarrow> (case advance s d operation action of
          Inl e \<Rightarrow> [(OpRefuse e, True)]
        | Inr c \<Rightarrow> [(OpSetContinuity c, True)]))"

definition bind_change ::
  "bind_outcome \<Rightarrow> operation \<Rightarrow> stamp option \<Rightarrow> identity_document \<Rightarrow> (tx_op \<times> bool) list" where
  "bind_change io op st d =
     (case external_principal d (op_external op) of
        Some existing \<Rightarrow>
          if existing \<noteq> op_principal op then [(OpRefuse (SRefused DuplicateExternalIdentity), True)] else []
      | None \<Rightarrow>
          if bt_get (id_principals d) (op_principal op) \<noteq> None
          then [(OpRefuse (SRefused PrincipalExists), True)]
          else [(OpCreatePrincipal (op_principal op) User (Some (op_external op)), True)]) @
     (case bt_get (id_ownership d) (op_profile op) of
        None \<Rightarrow> []
      | Some record \<Rightarrow>
          if ow_owner record \<noteq> op_principal op then [(OpRefuse (SOwnership Conflict), True)] else []) @
     (OpAssignOwner io (op_profile op) (op_principal op), True) #
     advance_ops st d (op_id op) ContinuityBind"

record seen =
  sn_sequence :: nat
  sn_generation :: nat

definition record_seen :: "seen option \<Rightarrow> ledger \<Rightarrow> ledger" where
  "record_seen s l =
     (case s of
        None \<Rightarrow> l
      | Some v \<Rightarrow> l\<lparr>lg_continuity := map_option (\<lambda>c.
          c\<lparr>lc_sequence_seen := max (lc_sequence_seen c) (sn_sequence v),
            lc_generation_seen := max (lc_generation_seen c) (sn_generation v)\<rparr>) (lg_continuity l)\<rparr>)"

text \<open>The result of a transaction of the service on the identity store: the closure sees the
  document that the store loads.\<close>

definition transact_on ::
  "'j call \<Rightarrow> caller \<Rightarrow> string \<Rightarrow> operation \<Rightarrow> (identity_document \<Rightarrow> (tx_op \<times> bool) list) \<Rightarrow> world
    \<Rightarrow> (store_error + tx_outcome) \<times> world" where
  "transact_on x actor key op change w =
     (let ops = (case store_load (px_codec x) (pw_identity w) of Inl _ \<Rightarrow> [] | Inr d \<Rightarrow> change d);
          (r, s) = transact (px_codec x) (tx_env_of x actor w) (px_tx x (op_id op))
             (Some (key, op_fingerprint op)) ops (pw_identity w)
      in (r, w\<lparr>pw_identity := s\<rparr>))"

definition replayed_seen :: "'j call \<Rightarrow> stamp \<Rightarrow> nat \<Rightarrow> world \<Rightarrow> provisioning_error + seen" where
  "replayed_seen x st generation w =
     (case identity_document x w of
        Inl e \<Rightarrow> Inl e
      | Inr d \<Rightarrow> (case id_continuity d of
          None \<Rightarrow> Inl PUnavailable
        | Some m \<Rightarrow>
            if pc_continuity_id m = st_continuity_id st
            then Inr \<lparr>sn_sequence = pc_sequence m, sn_generation = generation\<rparr>
            else Inl PUnavailable))"

text \<open>What the ledger records after a transaction: the sequence the closure returned, or the
  marker of a transaction that had been applied before.\<close>

definition seen_after ::
  "'j call \<Rightarrow> stamp option \<Rightarrow> identity_document option \<Rightarrow> string \<Rightarrow> continuity_action \<Rightarrow> tx_outcome \<Rightarrow> world
    \<Rightarrow> provisioning_error + seen option" where
  "seen_after x st before operation action out w =
     (case st of
        None \<Rightarrow> Inr None
      | Some s \<Rightarrow> (case out of
          Applied g \<Rightarrow> Inr (case before of
              None \<Rightarrow> None
            | Some d \<Rightarrow> (case advance s d operation action of
                Inl _ \<Rightarrow> None
              | Inr c \<Rightarrow> Some \<lparr>sn_sequence = pc_sequence c, sn_generation = g\<rparr>))
        | Replayed g \<Rightarrow> map_sum id Some (replayed_seen x s g w)))"

fun identity_step :: "store_error \<Rightarrow> step_error" where
  "identity_step (SRefused UntrustedIssuer) = Fail ''issuer_not_trusted''"
| "identity_step (SRefused InvalidIssuer) = Fail ''issuer_not_trusted''"
| "identity_step (SRefused PrincipalInactive) = Fail ''principal_inactive''"
| "identity_step (SRefused DuplicateExternalIdentity) = Fail ''external_identity_conflict''"
| "identity_step (SRefused PrincipalExists) = Fail ''external_identity_conflict''"
| "identity_step (SRefused OwnerMustBeUser) = Fail ''external_identity_conflict''"
| "identity_step (SRefused ProfileMissing) = Fail ''profile_unavailable''"
| "identity_step (SOwnership Conflict) = Fail ''ownership_changed''"
| "identity_step (SDenied _) = Retry (PDenied ''not_a_provisioner'')"
| "identity_step _ = Retry PUnavailable"

definition bind_owner ::
  "'j call \<Rightarrow> caller \<Rightarrow> operation \<Rightarrow> stamp option \<Rightarrow> world \<Rightarrow> (step_error + seen option) \<times> world" where
  "bind_owner x actor op st w =
     (if \<not> marker_matches w op then (Inl (Fail ''profile_unavailable''), w)
      else
        let before = (case store_load (px_codec x) (pw_identity w) of Inl _ \<Rightarrow> None | Inr d \<Rightarrow> Some d);
            (r, w1) = transact_on x actor (''provisioning:'' @ op_id op) op
              (bind_change (px_bind x (op_id op)) op st) w
        in case r of
             Inl e \<Rightarrow> (Inl (identity_step e), w1)
           | Inr out \<Rightarrow> (case crash_point IdentityCommitted w1 of
               (Some e, w2) \<Rightarrow> (Inl (Retry e), w2)
             | (None, w2) \<Rightarrow>
                 (map_sum Retry id (seen_after x st before (op_id op) ContinuityBind out w2), w2)))"

definition set_state :: "string \<Rightarrow> operation_state \<Rightarrow> string option \<Rightarrow> nat \<Rightarrow> ledger \<Rightarrow> ledger" where
  "set_state i s failure now l =
     l\<lparr>lg_operations := bt_update i (\<lambda>op. op\<lparr>op_state := s, op_failure := failure, op_updated := now\<rparr>)
        (lg_operations l)\<rparr>"

definition transition ::
  "'j call \<Rightarrow> string \<Rightarrow> operation_state \<Rightarrow> string option \<Rightarrow> ledger \<Rightarrow> world
    \<Rightarrow> provisioning_error option \<times> ledger \<times> world" where
  "transition x i s failure l w =
     (case bt_get (lg_operations l) i of
        None \<Rightarrow> (Some PCorrupt, l, w)
      | Some _ \<Rightarrow> save x (set_state i s failure (px_now x) l) w)"

text \<open>Moving a failed profile away takes its binding marker with it.\<close>

definition quarantine :: "'j call \<Rightarrow> operation \<Rightarrow> world \<Rightarrow> world" where
  "quarantine x op w =
     (let owned = (case store_load (px_codec x) (pw_identity w) of
            Inl _ \<Rightarrow> True
          | Inr d \<Rightarrow> bt_get (id_ownership d) (op_profile op) \<noteq> None)
      in case bt_get (pw_profiles w) (op_profile op) of
           None \<Rightarrow> w
         | Some entry \<Rightarrow>
             if \<not> marker_matches w op \<or> owned \<or> \<not> px_quarantine x (op_id op) \<or>
               bt_get (pw_quarantine w) (op_id op) \<noteq> None
             then w
             else w\<lparr>pw_profiles := bt_remove (op_profile op) (pw_profiles w),
                   pw_quarantine := bt_insert (op_id op) entry (pw_quarantine w),
                   pw_identity := (pw_identity w)\<lparr>is_markers :=
                     (is_markers (pw_identity w))(op_profile op := None)\<rparr>\<rparr>)"

record operation_status =
  os_operation_id :: string
  os_state :: operation_state
  os_failure :: "string option"
  os_principal_id :: string
  os_profile_id :: string
  os_template :: string
  os_owner_bound :: bool
  os_created :: nat
  os_updated :: nat

definition owner_bound :: "world \<Rightarrow> identity_document \<Rightarrow> operation \<Rightarrow> bool" where
  "owner_bound w d op =
     (case bt_get (effective_ownership (is_file w) (pw_identity w) d) (op_profile op) of
        None \<Rightarrow> False
      | Some record \<Rightarrow> ow_owner record = op_principal op)"

definition status_of ::
  "'j call \<Rightarrow> operation \<Rightarrow> world \<Rightarrow> provisioning_error + operation_status" where
  "status_of x op w =
     (case identity_document x w of
        Inl e \<Rightarrow> Inl e
      | Inr d \<Rightarrow> Inr \<lparr>os_operation_id = op_id op, os_state = op_state op, os_failure = op_failure op,
          os_principal_id = op_principal op, os_profile_id = op_profile op,
          os_template = op_template op, os_owner_bound = owner_bound w d op,
          os_created = op_created op, os_updated = op_updated op\<rparr>)"

text \<open>One step of an unfinished operation: what it does to the stores and the state it reaches.\<close>

definition operation_step ::
  "'j call \<Rightarrow> caller \<Rightarrow> operation \<Rightarrow> ledger \<Rightarrow> world
    \<Rightarrow> (step_error + operation_state \<times> seen option) \<times> world" where
  "operation_step x actor op l w =
     (if op_state op = OsPending then
        (let (r, w1) = materialize x op w in (map_sum id (\<lambda>_. (OsProfileCreated, None)) r, w1))
      else
        (let (r, w1) = bind_owner x actor op (stamp_of l) w in (map_sum id (\<lambda>s. (OsCompleted, s)) r, w1)))"

definition fail_operation ::
  "'j call \<Rightarrow> string \<Rightarrow> operation \<Rightarrow> string \<Rightarrow> ledger \<Rightarrow> world
    \<Rightarrow> provisioning_error option \<times> ledger \<times> world" where
  "fail_operation x i op code l w =
     (case transition x i OsFailed (Some code) l w of
        (Some e, l1, w1) \<Rightarrow> (Some e, l1, w1)
      | (None, l1, w1) \<Rightarrow> (None, l1, clear_staging x (op_id op)
           (if op_state op = OsProfileCreated then quarantine x op w1 else w1)))"

definition progress ::
  "'j call \<Rightarrow> string \<Rightarrow> operation_state \<Rightarrow> seen option \<Rightarrow> ledger \<Rightarrow> world
    \<Rightarrow> provisioning_error option \<times> ledger \<times> world" where
  "progress x i next_state s l w =
     (case transition x i next_state None (record_seen s l) w of
        (Some e, l1, w1) \<Rightarrow> (Some e, l1, w1)
      | (None, l1, w1) \<Rightarrow>
          if next_state = OsProfileCreated
          then (let (e, w2) = crash_point ProfileCreatedRecorded w1 in (e, l1, w2))
          else (None, l1, w1))"

text \<open>The turn of the loop: the new ledger and world, or the result it returns.\<close>

definition resume_turn ::
  "'j call \<Rightarrow> string \<Rightarrow> caller \<Rightarrow> ledger \<Rightarrow> world
    \<Rightarrow> (provisioning_error + operation_status) option \<times> ledger \<times> world" where
  "resume_turn x i actor l w =
     (case bt_get (lg_operations l) i of
        None \<Rightarrow> (Some (Inl PCorrupt), l, w)
      | Some op \<Rightarrow>
          if is_terminal (op_state op) then (Some (status_of x op w), l, w)
          else if stamped_retired l then (Some (Inl (PDenied ''harness_retired'')), l, w)
          else (case operation_step x actor op l w of
              (Inl (Retry e), w1) \<Rightarrow> (Some (Inl e), l, w1)
            | (Inl (Fail code), w1) \<Rightarrow>
                (let (e, l2, w2) = fail_operation x i op code l w1 in (map_option Inl e, l2, w2))
            | (Inr (next_state, s), w1) \<Rightarrow>
                (let (e, l2, w2) = progress x i next_state s l w1 in (map_option Inl e, l2, w2))))"

text \<open>What is left of an operation: the measure of the loop.\<close>

definition state_rank :: "operation_state \<Rightarrow> nat" where
  "state_rank s = (case s of OsPending \<Rightarrow> 2 | OsProfileCreated \<Rightarrow> 1 | _ \<Rightarrow> 0)"

definition operation_rank :: "string \<Rightarrow> ledger \<Rightarrow> nat" where
  "operation_rank i l = (case bt_get (lg_operations l) i of None \<Rightarrow> 0 | Some op \<Rightarrow> state_rank (op_state op))"

lemma save_operations [simp]:
  "lg_operations (fst (snd (save x l w))) = lg_operations l"
  by (simp add: save_def Let_def split: save_outcome.splits)

lemma save_ledger: "save x l w = (e, l1, w1) \<Longrightarrow> l1 = l\<lparr>lg_generation := lg_generation l + 1\<rparr>"
  by (auto simp: save_def Let_def split: save_outcome.splits)

lemma record_seen_operations [simp]: "lg_operations (record_seen s l) = lg_operations l"
  by (simp add: record_seen_def split: option.splits)

lemma transition_ledger:
  assumes "transition x i s failure l w = (e, l1, w1)" and "bt_get (lg_operations l) i = Some op"
  shows "l1 = (set_state i s failure (px_now x) l)\<lparr>lg_generation := lg_generation l + 1\<rparr>"
  using assms by (auto simp: transition_def set_state_def dest!: save_ledger)

lemma set_state_get:
  "bt_get (lg_operations (set_state i s failure now l)) =
     (bt_get (lg_operations l))(i := map_option (\<lambda>op. op\<lparr>op_state := s, op_failure := failure, op_updated := now\<rparr>)
        (bt_get (lg_operations l) i))"
  by (simp add: set_state_def bt_simps)

lemma fail_operation_ledger:
  assumes "fail_operation x i op code l w = (e, l1, w1)" and "bt_get (lg_operations l) i = Some op'"
  shows "l1 = (set_state i OsFailed (Some code) (px_now x) l)\<lparr>lg_generation := lg_generation l + 1\<rparr>"
  using assms unfolding fail_operation_def
  by (auto split: prod.splits option.splits dest!: transition_ledger)

lemma progress_ledger:
  assumes "progress x i s sn l w = (e, l1, w1)" and "bt_get (lg_operations l) i = Some op"
  shows "l1 = (set_state i s None (px_now x) (record_seen sn l))\<lparr>lg_generation := lg_generation (record_seen sn l) + 1\<rparr>"
  using assms unfolding progress_def
  by (auto simp: Let_def split: prod.splits option.splits if_splits dest!: transition_ledger)

text \<open>The states an operation steps to.\<close>

lemma operation_step_state:
  "operation_step x actor op l w = (Inr (s, sn), w1) \<Longrightarrow>
     s = (if op_state op = OsPending then OsProfileCreated else OsCompleted) \<and>
     (op_state op = OsPending \<longrightarrow> sn = None)"
  by (cases "fst (materialize x op w)"; cases "fst (bind_owner x actor op (stamp_of l) w)")
    (auto simp: operation_step_def split: if_splits prod.splits)

lemma resume_turn_rank:
  assumes "resume_turn x i actor l w = (None, l1, w1)"
  shows "operation_rank i l1 < operation_rank i l"
proof -
  obtain op where op: "bt_get (lg_operations l) i = Some op" "\<not> is_terminal (op_state op)"
    using assms by (auto simp: resume_turn_def split: option.splits if_splits)
  have r: "0 < state_rank (op_state op)"
    using op(2) by (cases "op_state op") (simp_all add: is_terminal_def state_rank_def)
  obtain r2 w2 where s: "operation_step x actor op l w = (r2, w2)" by fastforce
  show ?thesis
  proof (cases r2)
    case (Inl e)
    then show ?thesis
      using assms op s r by (cases e) (auto simp: resume_turn_def operation_rank_def set_state_get state_rank_def
          split: if_splits prod.splits dest!: fail_operation_ledger)
  next
    case (Inr n)
    then obtain t sn where n: "r2 = Inr (t, sn)" by (cases n) auto
    have "state_rank t < state_rank (op_state op)"
      using operation_step_state [OF s [unfolded n]] op(2)
      by (cases "op_state op") (auto simp: state_rank_def is_terminal_def)
    then show ?thesis
      using assms op s n by (auto simp: resume_turn_def operation_rank_def set_state_get
          split: if_splits prod.splits dest!: progress_ledger)
  qed
qed

function resume_operation ::
  "'j call \<Rightarrow> string \<Rightarrow> caller \<Rightarrow> ledger \<Rightarrow> world
    \<Rightarrow> (provisioning_error + operation_status) \<times> ledger \<times> world" where
  "resume_operation x i actor l w =
     (case resume_turn x i actor l w of
        (Some r, l1, w1) \<Rightarrow> (r, l1, w1)
      | (None, l1, w1) \<Rightarrow> resume_operation x i actor l1 w1)"
  by pat_completeness auto
termination
  by (relation "measure (\<lambda>(x, i, actor, l, w). operation_rank i l)") (auto intro: resume_turn_rank [OF sym])

declare resume_operation.simps [simp del]

end
