(* ===== verification/ProvisioningService.thy ===== *)
theory ProvisioningService
  imports Provisioning
begin

text \<open>
  The calls of the provisioning service (\<open>crates/lightagent-core/src/provisioning.rs\<close>) over the
  steps of \<open>Provisioning\<close>: provision, status, revoke, reconcile, initialize, retire and the
  continuity check with its rules (\<open>provisioning/continuity.rs\<close>), each with its audit line; and
  the histories of an installation, in which other processes and the operator act between calls.
\<close>

section \<open>Provisioning and status\<close>

definition outside_credential :: "caller \<Rightarrow> string \<Rightarrow> bool" where
  "outside_credential actor profile =
     (case rs_profiles (ca_restriction actor) of None \<Rightarrow> False | Some allowed \<Rightarrow> profile \<notin> allowed)"

record provision_outcome =
  po_replayed :: bool
  po_status :: operation_status

definition state_outcome :: "operation_status \<Rightarrow> string" where
  "state_outcome s =
     (case os_state s of
        OsPending \<Rightarrow> ''pending''
      | OsProfileCreated \<Rightarrow> ''profile_created''
      | OsCompleted \<Rightarrow> ''completed''
      | OsRevoked \<Rightarrow> ''revoked''
      | OsFailed \<Rightarrow> ''failed:'' @ (case os_failure s of None \<Rightarrow> ''unknown'' | Some code \<Rightarrow> code))"

text \<open>The body of the call under the lock, with what the audit line names: the profile once the
  request is validated, the operation once there is one.\<close>

definition provision_body ::
  "'j call \<Rightarrow> caller \<Rightarrow> string \<Rightarrow> provision_request \<Rightarrow> world
    \<Rightarrow> (provisioning_error + provision_outcome) \<times> (string option \<times> string option) \<times> world" where
  "provision_body x caller key request w =
     (case identity_document x w of
        Inl e \<Rightarrow> (Inl e, (None, None), w)
      | Inr d \<Rightarrow> (case load w of
          Inl e \<Rightarrow> (Inl e, (None, None), w)
        | Inr l \<Rightarrow> (case admit caller d l (px_now x) of
            Inl e \<Rightarrow> (Inl e, (None, None), w)
          | Inr (actor, p) \<Rightarrow>
              if \<not> valid_key key then (Inl (PInvalid ''invalid_idempotency_key''), (None, None), w)
              else (case validate_request (px_sha x) request of
                  Inl e \<Rightarrow> (Inl e, (None, None), w)
                | Inr v \<Rightarrow>
                    let profile = Some (vd_profile v)
                    in if outside_credential actor (vd_profile v)
                       then (Inl (PDenied ''profile_outside_credential''), (profile, None), w)
                       else (case bt_get (lg_keys l) (scoped_key (pv_principal p) key) of
                           Some i \<Rightarrow> (case bt_get (lg_operations l) i of
                               None \<Rightarrow> (Inl PCorrupt, (profile, None), w)
                             | Some op \<Rightarrow>
                                 if op_fingerprint op \<noteq> vd_fingerprint v
                                 then (Inl (PConflict ''idempotency_conflict''), (profile, None), w)
                                 else (case resume_operation x i actor l w of
                                     (Inl e, _, w1) \<Rightarrow> (Inl e, (profile, Some i), w1)
                                   | (Inr status, _, w1) \<Rightarrow>
                                       (Inr \<lparr>po_replayed = True, po_status = status\<rparr>, (profile, Some i), w1)))
                         | None \<Rightarrow> (case begin_operation x d p key v l w of
                             (Inl e, _, w1) \<Rightarrow> (Inl e, (profile, None), w1)
                           | (Inr i, l1, w1) \<Rightarrow> (case crash_point PendingRecorded w1 of
                               (Some e, w2) \<Rightarrow> (Inl e, (profile, Some i), w2)
                             | (None, w2) \<Rightarrow> (case resume_operation x i actor l1 w2 of
                                 (Inl e, _, w3) \<Rightarrow> (Inl e, (profile, Some i), w3)
                               | (Inr status, _, w3) \<Rightarrow>
                                   (Inr \<lparr>po_replayed = False, po_status = status\<rparr>, (profile, Some i), w3)))))))))"

definition provision ::
  "'j call \<Rightarrow> caller \<Rightarrow> string \<Rightarrow> provision_request \<Rightarrow> world
    \<Rightarrow> (provisioning_error + provision_outcome) \<times> world" where
  "provision x caller key request w =
     (let (r, (profile, operation), w1) =
            (if px_lock x then provision_body x caller key request w else (Inl PUnavailable, (None, None), w))
      in (r, audit x
            (case r of Inr done_ \<Rightarrow> if po_replayed done_ then ''provision_replayed'' else ''provision''
             | Inl _ \<Rightarrow> ''provision'')
            (Some (pr_id (ca_principal caller))) operation profile
            (case r of Inr done_ \<Rightarrow> Some (os_principal_id (po_status done_)) | Inl _ \<Rightarrow> None)
            (case r of Inr done_ \<Rightarrow> state_outcome (po_status done_) | Inl e \<Rightarrow> outcome_string r) w1))"

definition owned_operation ::
  "ledger \<Rightarrow> caller \<Rightarrow> provisioner \<Rightarrow> string \<Rightarrow> provisioning_error + operation" where
  "owned_operation l actor p i =
     (if \<not> valid_operation_id i then Inl UnknownOperation
      else case bt_get (lg_operations l) i of
          None \<Rightarrow> Inl UnknownOperation
        | Some op \<Rightarrow>
            if op_provisioner op = pv_principal p \<and> \<not> outside_credential actor (op_profile op)
            then Inr op else Inl UnknownOperation)"

definition named_operation :: "string \<Rightarrow> string option" where
  "named_operation i = (if valid_operation_id i then Some i else None)"

definition status ::
  "'j call \<Rightarrow> caller \<Rightarrow> string \<Rightarrow> world \<Rightarrow> (provisioning_error + operation_status) \<times> world" where
  "status x caller i w =
     (let (r, w1) = exclusive x (\<lambda>w. case identity_document x w of
            Inl e \<Rightarrow> (Inl e, w)
          | Inr d \<Rightarrow> (case load w of
              Inl e \<Rightarrow> (Inl e, w)
            | Inr l \<Rightarrow> (case admit caller d l (px_now x) of
                Inl e \<Rightarrow> (Inl e, w)
              | Inr (actor, p) \<Rightarrow> (case owned_operation l actor p i of
                  Inl e \<Rightarrow> (Inl e, w)
                | Inr op \<Rightarrow> (status_of x op w, w))))) w
      in (r, case r of
           Inr _ \<Rightarrow> w1
         | Inl _ \<Rightarrow> audit x ''status'' (Some (pr_id (ca_principal caller))) (named_operation i) None None
             (outcome_string r) w1))"

section \<open>Revoking access\<close>

definition revoke_change ::
  "bool \<Rightarrow> operation \<Rightarrow> stamp option \<Rightarrow> identity_document \<Rightarrow> (tx_op \<times> bool) list" where
  "revoke_change unlinked op st d =
     (case bt_get (id_ownership d) (op_profile op) of
        Some record \<Rightarrow>
          if ow_owner record \<noteq> op_principal op then [(OpRefuse (SOwnership Conflict), True)]
          else [(OpRemoveProfile unlinked (op_profile op), True)]
      | None \<Rightarrow> []) @
     advance_ops st d (op_id op) ContinuityRevoke"

fun revoke_refusal :: "store_error \<Rightarrow> provisioning_error" where
  "revoke_refusal (SOwnership Conflict) = PConflict ''ownership_changed''"
| "revoke_refusal (SDenied _) = PDenied ''not_a_provisioner''"
| "revoke_refusal _ = PUnavailable"

definition revoke_completed ::
  "'j call \<Rightarrow> caller \<Rightarrow> operation \<Rightarrow> ledger \<Rightarrow> world \<Rightarrow> (provisioning_error + operation_status) \<times> world" where
  "revoke_completed x actor op l w =
     (let st = stamp_of l;
          before = (case store_load (px_codec x) (pw_identity w) of Inl _ \<Rightarrow> None | Inr d \<Rightarrow> Some d);
          (r, w1) = transact_on x actor (''provisioning-revoke:'' @ op_id op) op
            (revoke_change (px_unlink x (op_id op)) op st) w
      in case r of
           Inl e \<Rightarrow> (Inl (revoke_refusal e), w1)
         | Inr out \<Rightarrow> (case seen_after x st before (op_id op) ContinuityRevoke out w1 of
             Inl e \<Rightarrow> (Inl e, w1)
           | Inr s \<Rightarrow> (case crash_point RevokeIdentityCommitted w1 of
               (Some e, w2) \<Rightarrow> (Inl e, w2)
             | (None, w2) \<Rightarrow> (case transition x (op_id op) OsRevoked None (record_seen s l) w2 of
                 (Some e, _, w3) \<Rightarrow> (Inl e, w3)
               | (None, l1, w3) \<Rightarrow> (case bt_get (lg_operations l1) (op_id op) of
                   None \<Rightarrow> (Inl PCorrupt, w3)
                 | Some revoked \<Rightarrow> (status_of x revoked w3, w3))))))"

definition revoke_body ::
  "'j call \<Rightarrow> caller \<Rightarrow> string \<Rightarrow> world
    \<Rightarrow> (provisioning_error + operation_status) \<times> operation option \<times> world" where
  "revoke_body x caller i w =
     (case identity_document x w of
        Inl e \<Rightarrow> (Inl e, None, w)
      | Inr d \<Rightarrow> (case load w of
          Inl e \<Rightarrow> (Inl e, None, w)
        | Inr l \<Rightarrow> (case admit caller d l (px_now x) of
            Inl e \<Rightarrow> (Inl e, None, w)
          | Inr (actor, p) \<Rightarrow> (case owned_operation l actor p i of
              Inl e \<Rightarrow> (Inl e, None, w)
            | Inr op \<Rightarrow>
                (case op_state op of
                   OsRevoked \<Rightarrow> (status_of x op w, Some op, w)
                 | OsPending \<Rightarrow> (Inl (PConflict ''operation_in_progress''), Some op, w)
                 | OsProfileCreated \<Rightarrow> (Inl (PConflict ''operation_in_progress''), Some op, w)
                 | OsFailed \<Rightarrow> (Inl (PConflict ''not_revocable''), Some op, w)
                 | OsCompleted \<Rightarrow>
                     (let (r, w1) = revoke_completed x actor op l w in (r, Some op, w1)))))))"

definition revoke_access ::
  "'j call \<Rightarrow> caller \<Rightarrow> string \<Rightarrow> world \<Rightarrow> (provisioning_error + operation_status) \<times> world" where
  "revoke_access x caller i w =
     (let (r, about, w1) = (if px_lock x then revoke_body x caller i w else (Inl PUnavailable, None, w))
      in (r, audit x ''revoke'' (Some (pr_id (ca_principal caller))) (named_operation i)
            (map_option op_profile about) (map_option op_principal about)
            (case r of Inr s \<Rightarrow> state_outcome s | Inl _ \<Rightarrow> outcome_string r) w1))"

section \<open>Reconciliation\<close>

record reconcile_report =
  rr_completed :: nat
  rr_failed :: nat
  rr_still_pending :: nat
  rr_staging_removed :: nat

definition open_operations :: "ledger \<Rightarrow> operation list" where
  "open_operations l = filter (\<lambda>op. \<not> is_terminal (op_state op)) (map snd (lg_operations l))"

definition provisioner_live :: "ledger \<Rightarrow> string \<Rightarrow> bool" where
  "provisioner_live l owner =
     (case bt_get (lg_provisioners l) owner of None \<Rightarrow> False | Some p \<Rightarrow> pv_revoked p = None)"

fun reconcile_loop ::
  "'j call \<Rightarrow> caller \<Rightarrow> operation list \<Rightarrow> reconcile_report \<Rightarrow> ledger \<Rightarrow> world
    \<Rightarrow> (provisioning_error + reconcile_report) \<times> ledger \<times> world" where
  "reconcile_loop x actor [] report l w = (Inr report, l, w)"
| "reconcile_loop x actor (op # ops) report l w =
     (if \<not> provisioner_live l (op_provisioner op) then
        (case fail_operation x (op_id op) op ''provisioner_revoked'' l w of
           (Some e, l1, w1) \<Rightarrow> (Inl e, l1, w1)
         | (None, l1, w1) \<Rightarrow>
             reconcile_loop x actor ops (report\<lparr>rr_failed := rr_failed report + 1\<rparr>) l1 w1)
      else
        (case resume_operation x (op_id op) actor l w of
           (r, l1, w1) \<Rightarrow> reconcile_loop x actor ops
             (case r of
                Inr s \<Rightarrow> if os_state s = OsCompleted
                  then report\<lparr>rr_completed := rr_completed report + 1\<rparr>
                  else report\<lparr>rr_failed := rr_failed report + 1\<rparr>
              | Inl _ \<Rightarrow> report\<lparr>rr_still_pending := rr_still_pending report + 1\<rparr>) l1 w1))"

definition live_staging :: "ledger \<Rightarrow> string \<Rightarrow> bool" where
  "live_staging l name =
     (case bt_get (lg_operations l) name of None \<Rightarrow> False | Some op \<Rightarrow> \<not> is_terminal (op_state op))"

definition sweep_staging :: "'j call \<Rightarrow> ledger \<Rightarrow> reconcile_report \<Rightarrow> world \<Rightarrow> reconcile_report \<times> world" where
  "sweep_staging x l report w =
     (if \<not> px_staging_read x then (report, w)
      else
        let removed = filter (\<lambda>n. \<not> live_staging l n \<and> px_cleared x n) (pw_staging w)
        in (report\<lparr>rr_staging_removed := rr_staging_removed report + length removed\<rparr>,
            w\<lparr>pw_staging := filter (\<lambda>n. n \<notin> set removed) (pw_staging w)\<rparr>))"

definition reconcile ::
  "'j call \<Rightarrow> caller \<Rightarrow> world \<Rightarrow> (provisioning_error + reconcile_report) \<times> world" where
  "reconcile x actor w =
     (case require_administrator actor of
        Some e \<Rightarrow> (Inl e, w)
      | None \<Rightarrow>
          (let (r, w1) = exclusive x (\<lambda>w. case load w of
                 Inl e \<Rightarrow> (Inl e, w)
               | Inr l \<Rightarrow> (case reconcile_loop x actor (open_operations l)
                     \<lparr>rr_completed = 0, rr_failed = 0, rr_still_pending = 0, rr_staging_removed = 0\<rparr> l w of
                   (Inl e, _, w1) \<Rightarrow> (Inl e, w1)
                 | (Inr report, l1, w1) \<Rightarrow>
                     (let (report1, w2) = sweep_staging x l1 report w1 in (Inr report1, w2)))) w
           in (r, audit x ''reconcile'' (Some (pr_id (ca_principal actor))) None None None
                 (outcome_string r) w1)))"

section \<open>The harness stamp\<close>

definition valid_harness_id :: "string \<Rightarrow> bool" where
  "valid_harness_id i =
     (case strip_prefix ''hns_'' i of
        None \<Rightarrow> False
      | Some rest \<Rightarrow> 8 \<le> length rest \<and> length rest \<le> 60 \<and> list_all (\<lambda>b. is_digit b \<or> is_lower b) rest)"

text \<open>The marker tokens of the directories in \<open>profiles/\<close>.\<close>

fun collect_markers :: "(string \<times> profile_entry) list \<Rightarrow> provisioning_error + string set" where
  "collect_markers [] = Inr {}"
| "collect_markers ((_, NotADirectory) # rest) = collect_markers rest"
| "collect_markers ((_, ProfileDir _ Absent) # rest) = collect_markers rest"
| "collect_markers ((_, ProfileDir _ (Bytes token)) # rest) = map_sum id (insert (trim token)) (collect_markers rest)"
| "collect_markers ((_, ProfileDir _ (Unreadable _)) # rest) = Inl PUnavailable"

definition profile_markers :: "'j call \<Rightarrow> world \<Rightarrow> provisioning_error + string set" where
  "profile_markers x w =
     (if px_profiles_read x then collect_markers (pw_profiles w) else Inl PUnavailable)"

text \<open>\<open>has_entries\<close> of a directory that can be read, or not.\<close>

definition has_entries :: "bool \<Rightarrow> 'a list \<Rightarrow> provisioning_error + bool" where
  "has_entries readable entries = (if readable then Inr (entries \<noteq> []) else Inl PUnavailable)"

definition history_error :: "'j call \<Rightarrow> ledger \<Rightarrow> world \<Rightarrow> provisioning_error option" where
  "history_error x l w =
     (if lg_operations l \<noteq> [] \<or> lg_keys l \<noteq> [] then Some (PConflict ''provisioning_history_exists'')
      else case has_entries (px_staging_read x) (pw_staging w) of
          Inl e \<Rightarrow> Some e
        | Inr True \<Rightarrow> Some (PConflict ''provisioning_history_exists'')
        | Inr False \<Rightarrow> (case has_entries (px_quarantine_read x) (pw_quarantine w) of
            Inl e \<Rightarrow> Some e
          | Inr True \<Rightarrow> Some (PConflict ''provisioning_history_exists'')
          | Inr False \<Rightarrow> None))"

definition trace_error :: "'j call \<Rightarrow> world \<Rightarrow> provisioning_error option" where
  "trace_error x w =
     (case profile_markers x w of
        Inl e \<Rightarrow> Some e
      | Inr markers \<Rightarrow>
          if markers \<noteq> {} then Some (PConflict ''profile_markers_exist'')
          else (case identity_document x w of
              Inl e \<Rightarrow> Some e
            | Inr d \<Rightarrow>
                if id_continuity d \<noteq> None then Some (PConflict ''identity_continuity_exists'')
                else if list_ex (\<lambda>(_, p). pp_external p \<noteq> None) (id_principals d) \<or>
                  has_idempotency_key_with_prefix d ''provisioning''
                then Some (PConflict ''provisioned_identities_exist'')
                else None))"

definition stamp_ledger :: "ledger_continuity \<Rightarrow> ledger \<Rightarrow> ledger" where
  "stamp_ledger stamp l = l\<lparr>lg_continuity := Some stamp\<rparr>"

definition initialize_body ::
  "'j call \<Rightarrow> string \<Rightarrow> world \<Rightarrow> (provisioning_error + ledger_continuity) \<times> world" where
  "initialize_body x harness_id w =
     (case load w of
        Inl e \<Rightarrow> (Inl e, w)
      | Inr l \<Rightarrow>
          if lg_continuity l \<noteq> None then (Inl (PConflict ''already_initialized''), w)
          else (case history_error x l w of
              Some e \<Rightarrow> (Inl e, w)
            | None \<Rightarrow> (case trace_error x w of
                Some e \<Rightarrow> (Inl e, w)
              | None \<Rightarrow> (case random_hex (px_id_bytes x) of
                  Inl e \<Rightarrow> (Inl e, w)
                | Inr continuity_id \<Rightarrow>
                    (let stamp = \<lparr>lc_harness_id = harness_id, lc_continuity_id = continuity_id,
                           lc_initialized = px_now x, lc_retired = False, lc_retired_at = 0,
                           lc_sequence_seen = 0, lc_generation_seen = 0\<rparr>
                     in case save x (stamp_ledger stamp l) w of
                          (Some e, _, w1) \<Rightarrow> (Inl e, w1)
                        | (None, _, w1) \<Rightarrow> (Inr stamp, w1))))))"

definition initialize ::
  "'j call \<Rightarrow> caller \<Rightarrow> string \<Rightarrow> world \<Rightarrow> (provisioning_error + ledger_continuity) \<times> world" where
  "initialize x actor harness_id w =
     (case require_administrator actor of
        Some e \<Rightarrow> (Inl e, w)
      | None \<Rightarrow>
          if \<not> valid_harness_id harness_id then (Inl (PInvalid ''invalid_harness_id''), w)
          else (let (r, w1) = exclusive x (initialize_body x harness_id) w
                in (r, audit x ''ledger_initialized'' (Some (pr_id (ca_principal actor))) None None None
                      (outcome_string r) w1)))"

definition retire_stamp :: "nat \<Rightarrow> ledger \<Rightarrow> ledger" where
  "retire_stamp now l = l\<lparr>lg_continuity :=
     map_option (\<lambda>c. c\<lparr>lc_retired := True, lc_retired_at := now\<rparr>) (lg_continuity l)\<rparr>"

definition retire_body :: "'j call \<Rightarrow> string \<Rightarrow> world \<Rightarrow> (provisioning_error + unit) \<times> world" where
  "retire_body x harness_id w =
     (case load w of
        Inl e \<Rightarrow> (Inl e, w)
      | Inr l \<Rightarrow> (case lg_continuity l of
          None \<Rightarrow> (Inl (PInvalid ''not_initialized''), w)
        | Some stamp \<Rightarrow>
            if lc_harness_id stamp \<noteq> harness_id then (Inl (PInvalid ''harness_id_mismatch''), w)
            else if lc_retired stamp then (Inr (), w)
            else saved (save x (retire_stamp (px_now x) l) w)))"

definition retire ::
  "'j call \<Rightarrow> caller \<Rightarrow> string \<Rightarrow> world \<Rightarrow> (provisioning_error + unit) \<times> world" where
  "retire x actor harness_id w =
     (case require_administrator actor of
        Some e \<Rightarrow> (Inl e, w)
      | None \<Rightarrow>
          (let (r, w1) = (if pw_ledger w = NoLedgerFile then (Inl (PInvalid ''not_initialized''), w)
                 else exclusive x (retire_body x harness_id) w)
           in (r, audit x ''ledger_retired'' (Some (pr_id (ca_principal actor))) None None None
                 (outcome_string r) w1)))"

section \<open>The continuity check\<close>

datatype continuity_failure = NoLedger | UnstampedLedger | HarnessIdMismatch | Retired
  | LedgerBehindStores | StoresBehindLedger

fun continuity_code :: "continuity_failure \<Rightarrow> string" where
  "continuity_code NoLedger = ''NO_LEDGER''"
| "continuity_code UnstampedLedger = ''UNSTAMPED_LEDGER''"
| "continuity_code HarnessIdMismatch = ''HARNESS_ID_MISMATCH''"
| "continuity_code Retired = ''RETIRED''"
| "continuity_code LedgerBehindStores = ''LEDGER_BEHIND_STORES''"
| "continuity_code StoresBehindLedger = ''STORES_BEHIND_LEDGER''"

definition check_stamp :: "ledger \<Rightarrow> string \<Rightarrow> continuity_failure + ledger_continuity" where
  "check_stamp l harness_id =
     (case lg_continuity l of
        None \<Rightarrow> Inl UnstampedLedger
      | Some stamp \<Rightarrow>
          if \<not> (valid_harness_id (lc_harness_id stamp) \<and> valid_operation_id (lc_continuity_id stamp))
          then Inl UnstampedLedger
          else if lc_harness_id stamp \<noteq> harness_id then Inl HarnessIdMismatch
          else if lc_retired stamp \<or> lc_retired_at stamp \<noteq> 0 then Inl Retired
          else Inr stamp)"

definition in_flight :: "operation \<Rightarrow> continuity_action \<Rightarrow> identity_document \<Rightarrow> bool" where
  "in_flight op action d =
     (let owned = (case bt_get (id_ownership d) (op_profile op) of
            None \<Rightarrow> False | Some record \<Rightarrow> ow_owner record = op_principal op)
      in case action of
           ContinuityBind \<Rightarrow> op_state op = OsProfileCreated \<and>
             bt_get (id_principals d) (op_principal op) \<noteq> None \<and> owned
         | ContinuityRevoke \<Rightarrow> op_state op = OsCompleted \<and> \<not> owned)"

definition settled_state :: "continuity_action \<Rightarrow> operation_state" where
  "settled_state action = (case action of ContinuityBind \<Rightarrow> OsCompleted | ContinuityRevoke \<Rightarrow> OsRevoked)"

text \<open>The match on \<open>marker.sequence.checked_sub(seen)\<close>.\<close>

definition marker_consistent ::
  "ledger \<Rightarrow> nat \<Rightarrow> provisioning_continuity \<Rightarrow> identity_document \<Rightarrow> bool" where
  "marker_consistent l seen m d =
     (let last = bt_get (lg_operations l) (pc_last_operation m)
      in if pc_sequence m < seen then True
         else if pc_sequence m = seen
         then map_option op_state last = Some (settled_state (pc_last_action m))
         else if pc_sequence m = seen + 1
         then (case last of None \<Rightarrow> False | Some op \<Rightarrow> in_flight op (pc_last_action m) d)
         else False)"

definition bound_or_revoked :: "operation \<Rightarrow> bool" where
  "bound_or_revoked op \<longleftrightarrow> op_state op = OsCompleted \<or> op_state op = OsRevoked"

text \<open>C2: nothing outside the ledger records provisioning it lacks.\<close>

definition ledger_behind :: "ledger \<Rightarrow> ledger_continuity \<Rightarrow> identity_document \<Rightarrow> string set \<Rightarrow> bool" where
  "ledger_behind l stamp d markers \<longleftrightarrow>
     (case id_continuity d of
        None \<Rightarrow> False
      | Some m \<Rightarrow> pc_continuity_id m \<noteq> lc_continuity_id stamp \<or>
          pc_ledger_generation_seen m > lg_generation l \<or>
          \<not> marker_consistent l (lc_sequence_seen stamp) m d) \<or>
     \<not> markers \<subseteq> set (map (\<lambda>(_, op). op_marker op) (lg_operations l))"

text \<open>C3: the identity store holds every bind and revoke the ledger saw.\<close>

definition stores_behind :: "ledger \<Rightarrow> ledger_continuity \<Rightarrow> identity_document \<Rightarrow> bool" where
  "stores_behind l stamp d =
     (let seen = lc_sequence_seen stamp;
          bound = list_ex (\<lambda>(_, op). bound_or_revoked op) (lg_operations l)
      in list_ex (\<lambda>(_, op). bound_or_revoked op \<and> bt_get (id_principals d) (op_principal op) = None)
           (lg_operations l) \<or>
         (case id_continuity d of
            None \<Rightarrow> 0 < seen \<or> bound
          | Some m \<Rightarrow> pc_sequence m < seen) \<or>
         id_generation d < lc_generation_seen stamp \<or>
         (bound \<and> seen = 0))"

definition evaluate ::
  "string \<Rightarrow> ledger \<Rightarrow> identity_document \<Rightarrow> string set \<Rightarrow> continuity_failure + unit" where
  "evaluate harness_id l d markers =
     (case check_stamp l harness_id of
        Inl e \<Rightarrow> Inl e
      | Inr stamp \<Rightarrow>
          if ledger_behind l stamp d markers then Inl LedgerBehindStores
          else if stores_behind l stamp d then Inl StoresBehindLedger
          else Inr ())"

datatype continuity_error = ContinuityFailed continuity_failure | ContinuityStorage provisioning_error

definition check_continuity :: "'j call \<Rightarrow> string \<Rightarrow> world \<Rightarrow> continuity_error + unit" where
  "check_continuity x harness_id w =
     (if pw_ledger w = NoLedgerFile then Inl (ContinuityFailed NoLedger)
      else if \<not> px_lock x then Inl (ContinuityStorage PUnavailable)
      else case load w of
          Inl e \<Rightarrow> Inl (ContinuityStorage e)
        | Inr l \<Rightarrow> (case identity_document x w of
            Inl e \<Rightarrow> Inl (ContinuityStorage e)
          | Inr d \<Rightarrow> (case profile_markers x w of
              Inl e \<Rightarrow> Inl (ContinuityStorage e)
            | Inr markers \<Rightarrow> map_sum ContinuityFailed id (evaluate harness_id l d markers))))"

section \<open>Histories\<close>

text \<open>
  The calls of an installation, and what happens to it between them: other processes and the
  operator may change everything but the ledger, which only the service writes.
\<close>

datatype service_call =
    CallRegister caller string "string set" "string set" nat
  | CallWithdraw caller string
  | CallProvision caller string provision_request
  | CallStatus caller string
  | CallRevoke caller string
  | CallReconcile caller
  | CallInitialize caller string
  | CallRetire caller string
  | Elsewhere world

fun service_step :: "world \<Rightarrow> 'j call \<times> service_call \<Rightarrow> world" where
  "service_step w (x, CallRegister actor pid issuers templates quota) =
     snd (register_provisioner x actor pid issuers templates quota w)"
| "service_step w (x, CallWithdraw actor pid) = snd (revoke_provisioner x actor pid w)"
| "service_step w (x, CallProvision caller key request) = snd (provision x caller key request w)"
| "service_step w (x, CallStatus caller i) = snd (status x caller i w)"
| "service_step w (x, CallRevoke caller i) = snd (revoke_access x caller i w)"
| "service_step w (x, CallReconcile actor) = snd (reconcile x actor w)"
| "service_step w (x, CallInitialize actor harness_id) = snd (initialize x actor harness_id w)"
| "service_step w (x, CallRetire actor harness_id) = snd (retire x actor harness_id w)"
| "service_step w (x, Elsewhere v) = v\<lparr>pw_ledger := pw_ledger w\<rparr>"

end
