(* ===== verification/ProvisioningLedger.thy ===== *)
theory ProvisioningLedger
  imports ProvisioningService
begin

text \<open>
  The ledger of \<open>ProvisioningService\<close> in every history: the state diagram of an operation as the
  abstract specification, the invariant of the ledger, the contract between the ledger in memory
  and the ledger on disk (a locale), and for each call that the ledger on disk stays sound and only
  moves along the diagram.
\<close>

section \<open>The specification\<close>

text \<open>
  The diagram of the documentation. The flag says that the harness is retired: then nothing is
  created or bound any more.
\<close>

inductive diagram :: "bool \<Rightarrow> operation_state \<Rightarrow> operation_state \<Rightarrow> bool" where
  created: "diagram False OsPending OsProfileCreated"
| bound: "diagram False OsProfileCreated OsCompleted"
| failed_pending: "diagram r OsPending OsFailed"
| failed_created: "diagram r OsProfileCreated OsFailed"
| revoked: "diagram r OsCompleted OsRevoked"

inductive_simps diagram_simps:
  "diagram r OsPending s" "diagram r OsProfileCreated s" "diagram r OsCompleted s"
  "diagram r OsFailed s" "diagram r OsRevoked s"

lemma diagram_retired: "diagram True s t \<Longrightarrow> diagram r s t"
  by (cases r) (auto elim!: diagram.cases intro: diagram.intros)

definition moves :: "bool \<Rightarrow> operation_state \<Rightarrow> operation_state \<Rightarrow> bool" where
  "moves r = (diagram r)\<^sup>*\<^sup>*"

lemma moves_refl [simp]: "moves r s s"
  by (simp add: moves_def)

lemma moves_trans: "moves r s t \<Longrightarrow> moves r t u \<Longrightarrow> moves r s u"
  by (simp add: moves_def)

lemma moves_retired: "moves True s t \<Longrightarrow> moves r s t"
  unfolding moves_def by (rule rtranclp_mono [THEN predicate2D]) (auto intro: diagram_retired)

lemma moves_step: "diagram r s t \<Longrightarrow> moves r s t"
  by (simp add: moves_def)

text \<open>What an operation is, apart from where it stands.\<close>

definition frozen :: "operation \<Rightarrow> operation" where
  "frozen op = op\<lparr>op_state := OsPending, op_failure := None, op_updated := 0\<rparr>"

definition stamp_follows :: "ledger_continuity \<Rightarrow> ledger_continuity \<Rightarrow> bool" where
  "stamp_follows c c' \<longleftrightarrow> lc_harness_id c' = lc_harness_id c \<and> lc_continuity_id c' = lc_continuity_id c \<and>
     lc_initialized c' = lc_initialized c \<and> (lc_retired c \<longrightarrow> lc_retired c') \<and>
     lc_sequence_seen c \<le> lc_sequence_seen c' \<and> lc_generation_seen c \<le> lc_generation_seen c'"

definition follows :: "ledger \<Rightarrow> ledger \<Rightarrow> bool" where
  "follows l l' \<longleftrightarrow> lg_generation l \<le> lg_generation l' \<and>
     (\<forall>i op. bt_get (lg_operations l) i = Some op \<longrightarrow>
        (\<exists>op'. bt_get (lg_operations l') i = Some op' \<and> frozen op' = frozen op \<and>
           moves (stamped_retired l) (op_state op) (op_state op'))) \<and>
     (\<forall>k i. bt_get (lg_keys l) k = Some i \<longrightarrow> bt_get (lg_keys l') k = Some i) \<and>
     (\<forall>k. bt_get (lg_provisioners l) k \<noteq> None \<longrightarrow> bt_get (lg_provisioners l') k \<noteq> None) \<and>
     (\<forall>c. lg_continuity l = Some c \<longrightarrow> (\<exists>c'. lg_continuity l' = Some c' \<and> stamp_follows c c')) \<and>
     (stamped_retired l \<longrightarrow> dom (bt_get (lg_operations l')) \<subseteq> dom (bt_get (lg_operations l)))"

lemma followsI:
  assumes "lg_generation l \<le> lg_generation l'"
    and "\<And>i op. bt_get (lg_operations l) i = Some op \<Longrightarrow>
      \<exists>op'. bt_get (lg_operations l') i = Some op' \<and> frozen op' = frozen op \<and>
        moves (stamped_retired l) (op_state op) (op_state op')"
    and "\<And>k i. bt_get (lg_keys l) k = Some i \<Longrightarrow> bt_get (lg_keys l') k = Some i"
    and "\<And>k. bt_get (lg_provisioners l) k \<noteq> None \<Longrightarrow> bt_get (lg_provisioners l') k \<noteq> None"
    and "\<And>c. lg_continuity l = Some c \<Longrightarrow> \<exists>c'. lg_continuity l' = Some c' \<and> stamp_follows c c'"
    and "stamped_retired l \<Longrightarrow> dom (bt_get (lg_operations l')) \<subseteq> dom (bt_get (lg_operations l))"
  shows "follows l l'"
  unfolding follows_def using assms by blast

lemma stamp_follows_refl [simp]: "stamp_follows c c"
  by (simp add: stamp_follows_def)

lemma stamp_follows_trans: "stamp_follows a b \<Longrightarrow> stamp_follows b c \<Longrightarrow> stamp_follows a c"
  by (auto simp: stamp_follows_def)

lemma follows_refl [simp]: "follows l l"
  by (rule followsI) auto

lemma follows_retired: "follows l m \<Longrightarrow> stamped_retired l \<Longrightarrow> stamped_retired m"
  unfolding follows_def stamped_retired_def stamp_follows_def by (force split: option.splits)

lemma follows_trans:
  assumes "follows l m" and "follows m n"
  shows "follows l n"
proof (rule followsI)
  show "lg_generation l \<le> lg_generation n" using assms by (auto simp: follows_def)
next
  fix i op
  assume "bt_get (lg_operations l) i = Some op"
  then obtain o1 where o1: "bt_get (lg_operations m) i = Some o1" "frozen o1 = frozen op"
    "moves (stamped_retired l) (op_state op) (op_state o1)"
    using assms(1) unfolding follows_def by blast
  then obtain o2 where o2: "bt_get (lg_operations n) i = Some o2" "frozen o2 = frozen o1"
    "moves (stamped_retired m) (op_state o1) (op_state o2)"
    using assms(2) unfolding follows_def by blast
  have "moves (stamped_retired l) (op_state o1) (op_state o2)"
    using o2(3) follows_retired [OF assms(1)] moves_retired by (cases "stamped_retired l"; cases "stamped_retired m") auto
  then show "\<exists>op'. bt_get (lg_operations n) i = Some op' \<and> frozen op' = frozen op \<and>
      moves (stamped_retired l) (op_state op) (op_state op')"
    using o1 o2 moves_trans by metis
next
  fix c
  assume "lg_continuity l = Some c"
  then show "\<exists>c'. lg_continuity n = Some c' \<and> stamp_follows c c'"
    using assms stamp_follows_trans unfolding follows_def by metis
next
  assume "stamped_retired l"
  then show "dom (bt_get (lg_operations n)) \<subseteq> dom (bt_get (lg_operations l))"
    using assms follows_retired unfolding follows_def by blast
qed (use assms in \<open>auto simp: follows_def\<close>)

section \<open>The invariant of the ledger\<close>

definition operation_ok :: "ledger \<Rightarrow> string \<Rightarrow> operation \<Rightarrow> bool" where
  "operation_ok l i op \<longleftrightarrow> op_id op = i \<and>
     bt_get (lg_keys l) (scoped_key (op_provisioner op) (op_idempotency_key op)) = Some i \<and>
     bt_get (lg_provisioners l) (op_provisioner op) \<noteq> None \<and>
     (op_failure op = None \<longleftrightarrow> op_state op \<noteq> OsFailed) \<and>
     op_template op \<in> set templates_known \<and> valid_id (op_profile op) \<and>
     op_profile op \<notin> set reserved_profiles"

definition ledger_inv :: "ledger \<Rightarrow> bool" where
  "ledger_inv l \<longleftrightarrow> lg_schema l = ledger_schema_version \<and> bt_wf (lg_operations l) \<and>
     (\<forall>k p. bt_get (lg_provisioners l) k = Some p \<longrightarrow> pv_principal p = k) \<and>
     (\<forall>i op. bt_get (lg_operations l) i = Some op \<longrightarrow> operation_ok l i op) \<and>
     (\<forall>k i. bt_get (lg_keys l) k = Some i \<longrightarrow> (\<exists>op. bt_get (lg_operations l) i = Some op \<and>
        k = scoped_key (op_provisioner op) (op_idempotency_key op))) \<and>
     (\<forall>i j p q. bt_get (lg_operations l) i = Some p \<and> bt_get (lg_operations l) j = Some q \<and>
        op_state p \<noteq> OsFailed \<and> op_state q \<noteq> OsFailed \<and> op_profile p = op_profile q \<longrightarrow> i = j)"

lemma ledger_inv_empty: "ledger_inv empty_ledger"
  by (simp add: ledger_inv_def empty_ledger_def bt_wf_def)

lemma ledger_invD:
  assumes "ledger_inv l"
  shows "lg_schema l = ledger_schema_version" and "bt_wf (lg_operations l)"
    and "bt_get (lg_provisioners l) k = Some p \<Longrightarrow> pv_principal p = k"
    and "bt_get (lg_operations l) i = Some op \<Longrightarrow> operation_ok l i op"
    and "bt_get (lg_keys l) k = Some i \<Longrightarrow> \<exists>op. bt_get (lg_operations l) i = Some op \<and>
        k = scoped_key (op_provisioner op) (op_idempotency_key op)"
    and "bt_get (lg_operations l) i = Some op \<Longrightarrow> bt_get (lg_operations l) j = Some q \<Longrightarrow>
        op_state op \<noteq> OsFailed \<Longrightarrow> op_state q \<noteq> OsFailed \<Longrightarrow> op_profile op = op_profile q \<Longrightarrow> i = j"
  using assms by (simp_all add: ledger_inv_def)

text \<open>What each change of the ledger does to the invariant and to the diagram.\<close>

definition sound_step :: "ledger \<Rightarrow> ledger \<Rightarrow> bool" where
  "sound_step l l' \<longleftrightarrow> ledger_inv l' \<and> follows l l'"

lemma sound_continuity:
  assumes "ledger_inv l"
    and "\<And>c. lg_continuity l = Some c \<Longrightarrow> \<exists>c'. x = Some c' \<and> stamp_follows c c'"
  shows "sound_step l (l\<lparr>lg_continuity := x\<rparr>)"
  using assms unfolding sound_step_def
  by (auto intro!: followsI simp: ledger_inv_def operation_ok_def)

lemma sound_bump:
  "ledger_inv l \<Longrightarrow> sound_step l (l\<lparr>lg_generation := lg_generation l + 1\<rparr>)"
  unfolding sound_step_def by (auto intro!: followsI simp: ledger_inv_def operation_ok_def)

lemma sound_provisioners:
  assumes "ledger_inv l" and "\<And>k p. bt_get m k = Some p \<Longrightarrow> pv_principal p = k"
    and "\<And>k. bt_get (lg_provisioners l) k \<noteq> None \<Longrightarrow> bt_get m k \<noteq> None"
  shows "sound_step l (l\<lparr>lg_provisioners := m\<rparr>)"
  using assms unfolding sound_step_def
  by (auto intro!: followsI simp: ledger_inv_def operation_ok_def)

lemma sound_register:
  "ledger_inv l \<Longrightarrow> sound_step l (add_provisioner now pid issuers templates quota l)"
  unfolding add_provisioner_def
  by (rule sound_provisioners) (auto simp: bt_simps dest: ledger_invD(3) split: if_splits)

lemma sound_withdraw: "ledger_inv l \<Longrightarrow> sound_step l (withdraw now pid l)"
  unfolding withdraw_def
  by (rule sound_provisioners) (auto simp: bt_simps dest: ledger_invD(3) split: if_splits)

lemma sound_seen: "ledger_inv l \<Longrightarrow> sound_step l (record_seen s l)"
  by (cases s) (auto simp: record_seen_def sound_step_def stamp_follows_def intro!: sound_continuity
      [unfolded sound_step_def])

lemma sound_retire: "ledger_inv l \<Longrightarrow> sound_step l (retire_stamp now l)"
  unfolding retire_stamp_def by (rule sound_continuity) (auto simp: stamp_follows_def)

lemma sound_stamp: "ledger_inv l \<Longrightarrow> lg_continuity l = None \<Longrightarrow> sound_step l (stamp_ledger stamp l)"
  unfolding stamp_ledger_def by (rule sound_continuity) auto

lemma sound_move:
  assumes inv: "ledger_inv l" and op: "bt_get (lg_operations l) i = Some op"
    and d: "diagram (stamped_retired l) (op_state op) s" and f: "failure = None \<longleftrightarrow> s \<noteq> OsFailed"
  shows "sound_step l (set_state i s failure now l)"
proof -
  have nf: "op_state op \<noteq> OsFailed" using d by (auto elim: diagram.cases)
  have g: "bt_get (lg_operations (set_state i s failure now l)) =
      (bt_get (lg_operations l))(i \<mapsto> op\<lparr>op_state := s, op_failure := failure, op_updated := now\<rparr>)"
    using op by (simp add: set_state_get)
  have k: "lg_keys (set_state i s failure now l) = lg_keys l"
    "lg_provisioners (set_state i s failure now l) = lg_provisioners l"
    "lg_continuity (set_state i s failure now l) = lg_continuity l"
    "lg_generation (set_state i s failure now l) = lg_generation l"
    "lg_schema (set_state i s failure now l) = lg_schema l"
    "bt_wf (lg_operations (set_state i s failure now l))"
    using inv by (simp_all add: set_state_def bt_update_wf ledger_inv_def)
  let ?l = "set_state i s failure now l"
  have "operation_ok ?l j q" if "bt_get (lg_operations ?l) j = Some q" for j q
    using that ledger_invD(4) [OF inv, of j] op f by (auto simp: g k operation_ok_def split: if_splits)
  moreover have "\<exists>q. bt_get (lg_operations ?l) j = Some q \<and> c = scoped_key (op_provisioner q) (op_idempotency_key q)"
    if "bt_get (lg_keys ?l) c = Some j" for c j
    using that ledger_invD(5) [OF inv, of c j] op by (cases "j = i") (auto simp: g k)
  moreover have "j = j'" if "bt_get (lg_operations ?l) j = Some q" "bt_get (lg_operations ?l) j' = Some q'"
    "op_state q \<noteq> OsFailed" "op_state q' \<noteq> OsFailed" "op_profile q = op_profile q'" for j j' q q'
    using that op nf ledger_invD(6) [OF inv] by (auto simp: g split: if_splits)
  ultimately have "ledger_inv ?l"
    unfolding ledger_inv_def using ledger_invD(1-3) [OF inv] k(2,5,6) by simp
  moreover have "follows l (set_state i s failure now l)"
  proof (rule followsI)
    fix j p
    assume "bt_get (lg_operations l) j = Some p"
    then show "\<exists>op'. bt_get (lg_operations (set_state i s failure now l)) j = Some op' \<and>
        frozen op' = frozen p \<and> moves (stamped_retired l) (op_state p) (op_state op')"
      using op d by (cases "j = i") (auto simp: g frozen_def intro: moves_step)
  qed (use op in \<open>auto simp: k g\<close>)
  ultimately show ?thesis by (simp add: sound_step_def)
qed

lemma sound_record:
  assumes inv: "ledger_inv l" and b: "begin_error w d l p v = None"
    and p: "bt_get (lg_provisioners l) (pv_principal p) \<noteq> None"
    and v: "validate_request sha r = Inr v"
    and i: "bt_get (lg_operations l) i = None"
    and k: "bt_get (lg_keys l) (scoped_key (pv_principal p) key) = None"
  shows "sound_step l (record_operation (new_operation i (pv_principal p) key pid v marker now) l)"
proof -
  let ?op = "new_operation i (pv_principal p) key pid v marker now"
  let ?l = "record_operation ?op l"
  have fresh: "op_state q = OsFailed" if "bt_get (lg_operations l) j = Some q" "op_profile q = vd_profile v" for j q
    using b that by (auto simp: begin_error_def profile_known_def list_ex_iff dest!: map_of_SomeD split: if_splits)
  have nr: "\<not> stamped_retired l" using b by (auto simp: begin_error_def split: if_splits)
  have val: "vd_template v \<in> set templates_known" "valid_id (vd_profile v)" "vd_profile v \<notin> set reserved_profiles"
    using v by (auto simp: validate_request_def profile_id_new_def split: if_splits sum.splits)
  have f: "op_id ?op = i" "op_provisioner ?op = pv_principal p" "op_idempotency_key ?op = key"
    "op_profile ?op = vd_profile v" "op_template ?op = vd_template v" "op_state ?op = OsPending" "op_failure ?op = None"
    by (simp_all add: new_operation_def)
  have g: "bt_get (lg_operations ?l) = (bt_get (lg_operations l))(i \<mapsto> ?op)"
    "bt_get (lg_keys ?l) = (bt_get (lg_keys l))(scoped_key (pv_principal p) key \<mapsto> i)"
    "lg_provisioners ?l = lg_provisioners l" "lg_continuity ?l = lg_continuity l"
    "lg_generation ?l = lg_generation l" "lg_schema ?l = lg_schema l" "bt_wf (lg_operations ?l)"
    using inv by (simp_all add: record_operation_def bt_simps f bt_insert_wf ledger_inv_def)
  have "operation_ok ?l j q" if "bt_get (lg_operations ?l) j = Some q" for j q
    using that ledger_invD(4) [OF inv, of j q] k val p
    by (auto simp: g operation_ok_def f split: if_splits)
  moreover have "\<exists>op. bt_get (lg_operations ?l) j = Some op \<and> s = scoped_key (op_provisioner op) (op_idempotency_key op)"
    if "bt_get (lg_keys ?l) s = Some j" for s j
    using that ledger_invD(5) [OF inv, of s j] i by (auto simp: g f split: if_splits)
  moreover have "j = j'" if "bt_get (lg_operations ?l) j = Some q" "bt_get (lg_operations ?l) j' = Some q'"
    "op_state q \<noteq> OsFailed" "op_state q' \<noteq> OsFailed" "op_profile q = op_profile q'" for j j' q q'
    using that fresh ledger_invD(6) [OF inv] by (auto simp: g f split: if_splits)
  ultimately have "ledger_inv ?l"
    unfolding ledger_inv_def using ledger_invD(1-3) [OF inv] g(3,6,7) by simp
  moreover have "follows l ?l"
    using i k nr by (intro followsI) (auto simp: g)
  ultimately show ?thesis by (simp add: sound_step_def)
qed

section \<open>The ledger in memory and on disk\<close>

text \<open>
  The contract of the service with its file: every ledger it saves comes from the one on disk by
  sound steps, so the file is always at a point the ledger in memory has passed.
\<close>

locale write_ahead =
  fixes sound :: "ledger \<Rightarrow> bool"
    and reaches :: "ledger \<Rightarrow> ledger \<Rightarrow> bool"
  assumes reaches_refl: "sound l \<Longrightarrow> reaches l l"
    and reaches_sound: "reaches l m \<Longrightarrow> sound m"
    and reaches_trans: "reaches l m \<Longrightarrow> reaches m n \<Longrightarrow> reaches l n"
    and sound_schema: "sound l \<Longrightarrow> lg_schema l = ledger_schema_version"
    and reaches_bump: "sound l \<Longrightarrow> reaches l (l\<lparr>lg_generation := lg_generation l + 1\<rparr>)"
begin

definition tracks :: "ledger \<Rightarrow> world \<Rightarrow> ledger \<Rightarrow> world \<Rightarrow> bool" where
  "tracks l w l' w' \<longleftrightarrow> (sound l \<longrightarrow> reaches l l' \<and>
     (\<forall>m. load w = Inr m \<and> sound m \<and> reaches m l \<longrightarrow> (\<exists>m'. load w' = Inr m' \<and> reaches m m' \<and> reaches m' l')))"

definition keeps :: "world \<Rightarrow> world \<Rightarrow> bool" where
  "keeps w w' \<longleftrightarrow> (\<forall>m. load w = Inr m \<and> sound m \<longrightarrow> (\<exists>m'. load w' = Inr m' \<and> reaches m m'))"

lemma tracks_trans: "tracks l w l1 w1 \<Longrightarrow> tracks l1 w1 l2 w2 \<Longrightarrow> tracks l w l2 w2"
  unfolding tracks_def by (meson reaches_sound reaches_trans)

lemma tracks_frame: "(sound l \<Longrightarrow> reaches l l') \<Longrightarrow> load w' = load w \<Longrightarrow> tracks l w l' w'"
  unfolding tracks_def by (metis reaches_refl reaches_sound reaches_trans)

lemma tracks_refl: "load w' = load w \<Longrightarrow> tracks l w l w'"
  by (rule tracks_frame) (auto intro: reaches_refl)

lemma tracks_sound: "tracks l w l' w' \<Longrightarrow> sound l \<Longrightarrow> sound l'"
  unfolding tracks_def by (blast intro: reaches_sound)

lemma tracks_save:
  assumes "save x l w = (e, l1, w1)" shows "tracks l w l1 w1"
proof -
  have s: "load w1 = load w \<or> pw_ledger w1 = StoredLedger l1"
    using assms by (auto simp: save_def Let_def split: save_outcome.splits)
  show ?thesis unfolding tracks_def
  proof (intro impI conjI allI; (elim conjE)?)
    assume "sound l"
    then show r: "reaches l l1" using reaches_bump save_ledger [OF assms] by simp
    fix m
    assume m: "load w = Inr m" "sound m" "reaches m l"
    from r have "sound l1" by (rule reaches_sound)
    then have "load w1 = Inr m \<or> load w1 = Inr l1" "reaches l1 l1"
      using s m(1) sound_schema reaches_refl by (auto simp: load_def)
    moreover have "reaches m l1" using m(3) r by (rule reaches_trans)
    moreover have "reaches m m" using m(2) by (rule reaches_refl)
    ultimately show "\<exists>m'. load w1 = Inr m' \<and> reaches m m' \<and> reaches m' l1" by blast
  qed
qed

lemma tracks_keeps: "tracks l w l' w' \<Longrightarrow> load w = Inr l \<Longrightarrow> keeps w w'"
  unfolding tracks_def keeps_def by (metis Inr_inject reaches_refl)

lemma keeps_refl: "load w' = load w \<Longrightarrow> keeps w w'"
  unfolding keeps_def by (auto intro: reaches_refl)

lemma keeps_trans: "keeps w w1 \<Longrightarrow> keeps w1 w2 \<Longrightarrow> keeps w w2"
  unfolding keeps_def by (meson reaches_sound reaches_trans)

lemma keeps_then: "keeps w w1 \<Longrightarrow> load w2 = load w1 \<Longrightarrow> keeps w w2"
  by (rule keeps_trans) (auto intro: keeps_refl)

end

interpretation journal: write_ahead ledger_inv sound_step
proof
  show "sound_step l m \<Longrightarrow> sound_step m n \<Longrightarrow> sound_step l n" for l m n
    by (auto simp: sound_step_def intro: follows_trans)
  show "ledger_inv l \<Longrightarrow> sound_step l (l\<lparr>lg_generation := lg_generation l + 1\<rparr>)" for l
    by (rule sound_bump)
qed (simp_all add: sound_step_def ledger_invD(1))

section \<open>What leaves the ledger file alone\<close>

lemma load_cong: "pw_ledger w = pw_ledger v \<Longrightarrow> load w = load v"
  by (simp add: load_def)

lemma ledger_frame [frame_simps]:
  "pw_ledger (clear_staging x i w) = pw_ledger w"
  "pw_ledger (disturb profile found w) = pw_ledger w"
  "pw_ledger (place_profile op prof w) = pw_ledger w"
  "pw_ledger (snd (crash_point here w)) = pw_ledger w"
  "pw_ledger (quarantine x op w) = pw_ledger w"
  "pw_ledger (snd (transact_on x actor key op change w)) = pw_ledger w"
  "pw_ledger (audit x action who operation named pid outcome w) = pw_ledger w"
  "pw_ledger (snd (sweep_staging x l report w)) = pw_ledger w"
  by (auto simp: clear_staging_def disturb_def place_profile_def crash_point_def quarantine_def
      transact_on_def audit_def sweep_staging_def Let_def split: option.splits prod.splits)

lemma crash_point_ledger: "crash_point here w = (e, w1) \<Longrightarrow> pw_ledger w1 = pw_ledger w"
  using ledger_frame(4) [of here w] by simp

lemma transact_on_ledger: "transact_on x actor key op change w = (r, w1) \<Longrightarrow> pw_ledger w1 = pw_ledger w"
  using ledger_frame(6) [of x actor key op change w] by simp

lemma materialize_ledger [frame_simps]: "pw_ledger (snd (materialize x op w)) = pw_ledger w"
  by (auto simp: materialize_def Let_def frame_simps dest!: crash_point_ledger
      split: option.splits sum.splits prod.splits)

lemma bind_owner_ledger [frame_simps]: "pw_ledger (snd (bind_owner x actor op st w)) = pw_ledger w"
  by (auto simp: bind_owner_def Let_def dest!: crash_point_ledger transact_on_ledger
      split: option.splits sum.splits prod.splits)

lemma operation_step_ledger: "operation_step x actor op l w = (r, w1) \<Longrightarrow> pw_ledger w1 = pw_ledger w"
  using materialize_ledger [of x op w] bind_owner_ledger [of x actor op "stamp_of l" w]
  by (auto simp: operation_step_def split: if_splits prod.splits)

section \<open>The steps keep the ledger sound\<close>

lemma tracks_change:
  assumes "ledger_inv l \<Longrightarrow> sound_step l l1" and "save x l1 w = (e, l2, w2)"
  shows "journal.tracks l w l2 w2"
  using journal.tracks_frame [of l l1 w w] assms(1) journal.tracks_save [OF assms(2)]
  by (auto intro: journal.tracks_trans)

lemma tracks_transition:
  assumes "transition x i s failure l w = (e, l1, w1)"
    and "\<And>op. ledger_inv l \<Longrightarrow> bt_get (lg_operations l) i = Some op \<Longrightarrow> diagram (stamped_retired l) (op_state op) s"
    and "failure = None \<longleftrightarrow> s \<noteq> OsFailed"
  shows "journal.tracks l w l1 w1"
proof (cases "bt_get (lg_operations l) i")
  case None
  then show ?thesis using assms(1) by (auto simp: transition_def intro: journal.tracks_refl)
next
  case (Some op)
  then have "save x (set_state i s failure (px_now x) l) w = (e, l1, w1)"
    using assms(1) by (simp add: transition_def)
  then show ?thesis using assms(2,3) Some by (intro tracks_change) (auto intro: sound_move)
qed

lemma tracks_fail:
  assumes "fail_operation x i op code l w = (e, l1, w1)"
    and "\<And>q. ledger_inv l \<Longrightarrow> bt_get (lg_operations l) i = Some q \<Longrightarrow> \<not> is_terminal (op_state q)"
  shows "journal.tracks l w l1 w1"
proof -
  obtain e2 l2 w2 where t: "transition x i OsFailed (Some code) l w = (e2, l2, w2)"
    by (cases "transition x i OsFailed (Some code) l w") auto
  have d: "diagram r s OsFailed" if "\<not> is_terminal s" for r s
    using that by (cases s) (auto simp: is_terminal_def diagram_simps)
  have "journal.tracks l w l2 w2" using t by (rule tracks_transition) (use d assms(2) in auto)
  moreover have "l1 = l2" "pw_ledger w1 = pw_ledger w2"
    using assms(1) by (auto simp: fail_operation_def t frame_simps split: option.splits if_splits)
  ultimately show ?thesis by (metis journal.tracks_refl journal.tracks_trans load_cong)
qed

lemma record_seen_retired [simp]: "stamped_retired (record_seen s l) = stamped_retired l"
  by (auto simp: stamped_retired_def record_seen_def split: option.splits)

lemma tracks_progress:
  assumes p: "progress x i s sn l w = (e, l1, w1)"
    and "\<And>q. ledger_inv l \<Longrightarrow> bt_get (lg_operations l) i = Some q \<Longrightarrow> diagram (stamped_retired l) (op_state q) s"
    and "s \<noteq> OsFailed"
  shows "journal.tracks l w l1 w1"
proof -
  obtain e2 l2 w2 where t: "transition x i s None (record_seen sn l) w = (e2, l2, w2)"
    by (cases "transition x i s None (record_seen sn l) w") auto
  have "journal.tracks l w (record_seen sn l) w"
    by (rule journal.tracks_frame) (auto intro: sound_seen)
  moreover have "journal.tracks (record_seen sn l) w l2 w2" if "ledger_inv l"
    using t by (rule tracks_transition) (auto intro: assms(2) that simp: assms(3))
  moreover have "l1 = l2" "pw_ledger w1 = pw_ledger w2"
    using p by (auto simp: progress_def t Let_def dest!: crash_point_ledger split: option.splits if_splits prod.splits)
  ultimately show ?thesis
    by (metis journal.tracks_def journal.tracks_refl journal.tracks_trans load_cong)
qed

lemma tracks_turn:
  assumes "resume_turn x i actor l w = (r, l1, w1)"
  shows "journal.tracks l w l1 w1"
proof (cases "bt_get (lg_operations l) i")
  case None
  then show ?thesis using assms by (auto simp: resume_turn_def intro: journal.tracks_refl)
next
  case (Some op)
  show ?thesis
  proof (cases "is_terminal (op_state op) \<or> stamped_retired l")
    case True
    then show ?thesis using assms Some
      by (auto simp: resume_turn_def intro: journal.tracks_refl split: if_splits)
  next
    case open_: False
    obtain r2 w2 where s: "operation_step x actor op l w = (r2, w2)" by fastforce
    have f: "load w2 = load w" by (rule load_cong) (rule operation_step_ledger [OF s])
    have "journal.tracks l w2 l1 w1"
    proof (cases r2)
      case (Inl e)
      then show ?thesis
        using assms Some open_ s by (cases e)
          (auto simp: resume_turn_def intro: journal.tracks_refl tracks_fail split: prod.splits)
    next
      case (Inr n)
      then obtain t sn where n: "r2 = Inr (t, sn)" by (cases n) auto
      have "diagram (stamped_retired l) (op_state op) t" "t \<noteq> OsFailed"
        using operation_step_state [OF s [unfolded n]] open_
        by (cases "op_state op"; auto simp: is_terminal_def diagram_simps)+
      then show ?thesis
        using assms Some open_ s n
        by (auto simp: resume_turn_def intro!: tracks_progress split: prod.splits)
    qed
    then show ?thesis using journal.tracks_refl [OF f] by (rule journal.tracks_trans [rotated])
  qed
qed

lemma tracks_resume:
  "resume_operation x i actor l w = (r, l1, w1) \<Longrightarrow> journal.tracks l w l1 w1"
proof (induction x i actor l w rule: resume_operation.induct)
  case (1 x i actor l w)
  obtain e l2 w2 where t: "resume_turn x i actor l w = (e, l2, w2)"
    by (cases "resume_turn x i actor l w") auto
  note s = tracks_turn [OF t]
  show ?case
  proof (cases e)
    case None
    then show ?thesis
      using 1 t s journal.tracks_trans by (simp add: resume_operation.simps [of x i actor l w])
  next
    case (Some v)
    then show ?thesis using 1(2) t s by (simp add: resume_operation.simps [of x i actor l w])
  qed
qed

lemma tracks_begin:
  assumes "begin_operation x d p key v l w = (r, l1, w1)"
    and "bt_get (lg_provisioners l) (pv_principal p) \<noteq> None" and "validate_request sha req = Inr v"
    and "bt_get (lg_keys l) (scoped_key (pv_principal p) key) = None"
  shows "journal.tracks l w l1 w1"
proof -
  consider (same) "l1 = l" "w1 = w"
    | (new) i pid marker e where "begin_error w d l p v = None" "bt_get (lg_operations l) i = None"
        "save x (record_operation (new_operation i (pv_principal p) key pid v marker (px_now x)) l) w = (e, l1, w1)"
    using assms(1) by (auto simp: begin_operation_def split: option.splits sum.splits if_splits prod.splits)
  then show ?thesis
  proof cases
    case same
    then show ?thesis by (auto intro: journal.tracks_refl)
  next
    case new
    show ?thesis
      using new(3) by (rule tracks_change [rotated]) (use new assms in \<open>auto intro!: sound_record\<close>)
  qed
qed

section \<open>An operation changes only its own record\<close>

lemma fail_other:
  "fail_operation x i op code l w = (e, l1, w1) \<Longrightarrow> j \<noteq> i \<Longrightarrow>
     bt_get (lg_operations l1) j = bt_get (lg_operations l) j"
  by (auto simp: fail_operation_def transition_def set_state_get dest!: save_ledger
      split: option.splits prod.splits)

lemma progress_other:
  "progress x i s sn l w = (e, l1, w1) \<Longrightarrow> j \<noteq> i \<Longrightarrow>
     bt_get (lg_operations l1) j = bt_get (lg_operations l) j"
  by (auto simp: progress_def transition_def Let_def set_state_get dest!: save_ledger
      split: option.splits prod.splits if_splits)

lemma turn_other:
  "resume_turn x i actor l w = (r, l1, w1) \<Longrightarrow> j \<noteq> i \<Longrightarrow>
     bt_get (lg_operations l1) j = bt_get (lg_operations l) j"
  by (auto simp: resume_turn_def dest: fail_other progress_other
      split: option.splits if_splits prod.splits sum.splits step_error.splits)

lemma resume_other:
  "resume_operation x i actor l w = (r, l1, w1) \<Longrightarrow> j \<noteq> i \<Longrightarrow>
     bt_get (lg_operations l1) j = bt_get (lg_operations l) j"
proof (induction x i actor l w rule: resume_operation.induct)
  case (1 x i actor l w)
  obtain e l2 w2 where t: "resume_turn x i actor l w = (e, l2, w2)"
    by (cases "resume_turn x i actor l w") auto
  show ?case
    using 1 t turn_other [OF t "1.prems"(2)]
    by (cases e) (simp_all add: resume_operation.simps [of x i actor l w])
qed

section \<open>The calls keep the ledger on disk sound\<close>

definition pending_all :: "operation list \<Rightarrow> ledger \<Rightarrow> bool" where
  "pending_all ops l \<longleftrightarrow> distinct (map op_id ops) \<and>
     (\<forall>op \<in> set ops. \<exists>q. bt_get (lg_operations l) (op_id op) = Some q \<and> \<not> is_terminal (op_state q))"

lemma pending_rest:
  assumes "pending_all (op # ops) l"
    and "\<And>j. j \<noteq> op_id op \<Longrightarrow> bt_get (lg_operations l1) j = bt_get (lg_operations l) j"
  shows "pending_all ops l1"
proof -
  have "op_id o' \<noteq> op_id op" if "o' \<in> set ops" for o'
    using that assms(1) by (auto simp: pending_all_def) (metis imageI)
  then show ?thesis using assms by (simp add: pending_all_def)
qed

lemma pending_open: "ledger_inv l \<Longrightarrow> pending_all (open_operations l) l"
proof -
  assume inv: "ledger_inv l"
  have id: "op_id op = i \<and> bt_get (lg_operations l) i = Some op" if "(i, op) \<in> set (lg_operations l)" for i op
    using that ledger_invD(2,4) [OF inv] bt_wf_get_iff by (fastforce simp: operation_ok_def)
  have "map op_id (map snd (lg_operations l)) = map fst (lg_operations l)"
    using id by auto
  then have "distinct (map op_id (map snd (lg_operations l)))"
    using bt_wf_distinct [OF ledger_invD(2) [OF inv]] by (simp del: map_map)
  then show ?thesis
    using id by (fastforce simp: pending_all_def open_operations_def distinct_map_filter)
qed

lemma tracks_reconcile:
  "reconcile_loop x actor ops report l w = (r, l1, w1) \<Longrightarrow> (ledger_inv l \<Longrightarrow> pending_all ops l) \<Longrightarrow>
     journal.tracks l w l1 w1"
proof (induction ops arbitrary: report l w)
  case Nil
  then show ?case by (auto intro: journal.tracks_refl)
next
  case (Cons op ops)
  show ?case
  proof (cases "provisioner_live l (op_provisioner op)")
    case False
    obtain e l2 w2 where f: "fail_operation x (op_id op) op ''provisioner_revoked'' l w = (e, l2, w2)"
      by (cases "fail_operation x (op_id op) op ''provisioner_revoked'' l w") auto
    have t: "journal.tracks l w l2 w2"
      using f by (rule tracks_fail) (use Cons.prems(2) in \<open>auto simp: pending_all_def\<close>)
    show ?thesis
    proof (cases e)
      case None
      have p: "pending_all ops l2" if "ledger_inv l"
        using Cons.prems(2) [OF that] fail_other [OF f] by (rule pending_rest)
      have "journal.tracks l2 w2 l1 w1" if "ledger_inv l"
        using Cons.prems(1) f None False p [OF that] by (intro Cons.IH) auto
      then show ?thesis using t journal.tracks_trans by (metis journal.tracks_def)
    qed (use Cons.prems(1) f False t in auto)
  next
    case True
    obtain v l2 w2 where f: "resume_operation x (op_id op) actor l w = (v, l2, w2)"
      by (cases "resume_operation x (op_id op) actor l w") auto
    have t: "journal.tracks l w l2 w2" using f by (rule tracks_resume)
    have p: "pending_all ops l2" if "ledger_inv l"
      using Cons.prems(2) [OF that] resume_other [OF f] by (rule pending_rest)
    have "journal.tracks l2 w2 l1 w1" if "ledger_inv l"
      using Cons.prems(1) f True p [OF that] by (auto intro: Cons.IH)
    then show ?thesis using t journal.tracks_trans by (metis journal.tracks_def)
  qed
qed

lemma saved_world: "saved (save x l w) = (r, w1) \<Longrightarrow> \<exists>e l1. save x l w = (e, l1, w1)"
  by (auto simp: saved_def split: prod.splits option.splits)

lemma keeps_saved:
  assumes "saved (save x l1 w) = (r, w1)" and "load w = Inr l" and "ledger_inv l \<Longrightarrow> sound_step l l1"
  shows "journal.keeps w w1"
  using saved_world [OF assms(1)] tracks_change [OF assms(3)] journal.tracks_keeps [OF _ assms(2)] by blast

lemma keeps_same: "pw_ledger w' = pw_ledger w \<Longrightarrow> journal.keeps w w'"
  by (rule journal.keeps_refl) (rule load_cong)

lemma keeps_audited: "journal.keeps w w1 \<Longrightarrow> journal.keeps w (audit x a b c d e f w1)"
  by (erule journal.keeps_then) (rule load_cong, simp add: frame_simps)

lemma keeps_exclusive: "(\<And>v. journal.keeps v (snd (work v))) \<Longrightarrow> journal.keeps w (snd (exclusive x work w))"
  by (simp add: exclusive_def keeps_same)

lemmas keeps_simps = keeps_same keeps_audited

lemma keeps_register: "journal.keeps w (snd (register_provisioner x actor pid issuers templates quota w))"
  unfolding register_provisioner_def
  by (auto simp: Let_def exclusive_def keeps_same split: option.splits sum.splits prod.splits
      intro!: keeps_audited intro: keeps_same keeps_saved sound_register)

lemma keeps_withdraw: "journal.keeps w (snd (revoke_provisioner x actor pid w))"
  unfolding revoke_provisioner_def
  by (auto simp: Let_def exclusive_def keeps_same split: option.splits sum.splits prod.splits if_splits
      intro!: keeps_audited intro: keeps_same keeps_saved sound_withdraw)

lemma keeps_retire: "journal.keeps w (snd (retire x actor harness_id w))"
  unfolding retire_def retire_body_def
  by (auto simp: Let_def exclusive_def keeps_same split: option.splits sum.splits prod.splits if_splits
      intro!: keeps_audited intro: keeps_same keeps_saved sound_retire)

lemma keeps_status: "journal.keeps w (snd (status x caller i w))"
  unfolding status_def
  by (auto simp: Let_def exclusive_def keeps_same split: option.splits sum.splits prod.splits if_splits
      intro!: keeps_audited intro: keeps_same)

lemma keeps_stamp:
  assumes "save x (stamp_ledger stamp l) w = (e, l1, w1)" and "load w = Inr l" and "lg_continuity l = None"
  shows "journal.keeps w w1"
  using tracks_change [OF sound_stamp [OF _ assms(3)] assms(1)] assms(2) by (rule journal.tracks_keeps)

lemma keeps_initialize_body: "journal.keeps w (snd (initialize_body x harness_id w))"
  unfolding initialize_body_def
  by (auto simp: Let_def keeps_same split: sum.splits option.splits prod.splits if_splits intro: keeps_stamp)

lemma keeps_initialize: "journal.keeps w (snd (initialize x actor harness_id w))"
proof -
  have "journal.keeps w w1" if "exclusive x (initialize_body x harness_id) w = (r, w1)" for r w1
    using keeps_exclusive [of "initialize_body x harness_id" w x] keeps_initialize_body that by (metis snd_conv)
  then show ?thesis
    unfolding initialize_def by (auto simp: keeps_same split: option.splits prod.splits intro!: keeps_audited)
qed

lemma keeps_reconcile: "journal.keeps w (snd (reconcile x actor w))"
proof -
  have k: "journal.keeps w w1" if "load w = Inr l" "reconcile_loop x actor (open_operations l) rep l w = (r, l1, w1)"
    for l rep r l1 w1
    using tracks_reconcile [OF that(2)] pending_open that(1) by (blast intro: journal.tracks_keeps)
  have s: "journal.keeps w w2" if "journal.keeps w w1" "sweep_staging y l1 rep w1 = (rep2, w2)" for y l1 rep w1 rep2 w2
    using that(1) by (rule journal.keeps_then) (metis ledger_frame(8) load_cong snd_conv that(2))
  show ?thesis
    unfolding reconcile_def exclusive_def
    by (auto simp: keeps_same Let_def split: option.splits prod.splits sum.splits if_splits
        intro!: keeps_audited intro: k s)
qed

lemma revoke_completed_keeps:
  assumes "revoke_completed x actor op l w = (r, w1)" and "load w = Inr l"
    and "bt_get (lg_operations l) i = Some op" and "op_state op = OsCompleted"
  shows "journal.keeps w w1"
proof -
  have d: "op_state q = OsCompleted" if "ledger_inv l" "bt_get (lg_operations l) (op_id op) = Some q" for q
    using that assms(3,4) ledger_invD(4) [OF that(1) assms(3)] by (simp add: operation_ok_def)
  have t: "journal.tracks l w l3 w3" if "pw_ledger v = pw_ledger w"
    "transition x (op_id op) OsRevoked None (record_seen s l) v = (e, l3, w3)" for v s e l3 w3
  proof -
    have "journal.tracks (record_seen s l) v l3 w3" if "ledger_inv l"
      using \<open>transition _ _ _ _ _ _ = _\<close> by (rule tracks_transition) (use d that in \<open>auto simp: diagram_simps\<close>)
    moreover have "journal.tracks l w (record_seen s l) v"
      using that(1) by (intro journal.tracks_frame load_cong) (auto intro: sound_seen)
    ultimately show ?thesis using journal.tracks_trans by (metis journal.tracks_def)
  qed
  have "pw_ledger w1 = pw_ledger w \<or> (\<exists>v s e l3. pw_ledger v = pw_ledger w \<and>
      transition x (op_id op) OsRevoked None (record_seen s l) v = (e, l3, w1))"
    using assms(1) by (auto simp: revoke_completed_def Let_def dest!: transact_on_ledger crash_point_ledger
        split: prod.splits sum.splits option.splits) (metis+)?
  then show ?thesis using t assms(2) keeps_same journal.tracks_keeps by metis
qed

lemma keeps_revoke: "journal.keeps w (snd (revoke_access x caller i w))"
proof -
  have "journal.keeps w w1" if "revoke_body x caller i w = (r, about, w1)" for r about w1
    using that by (auto simp: revoke_body_def owned_operation_def keeps_same
        split: sum.splits option.splits prod.splits operation_state.splits if_splits
        dest: revoke_completed_keeps)
  then show ?thesis
    unfolding revoke_access_def by (auto simp: keeps_same split: prod.splits if_splits intro!: keeps_audited)
qed

lemma begin_keeps:
  assumes "load w = Inr l" and "admit caller d l now = Inr (actor, p)"
    and "validate_request sha request = Inr v"
    and "bt_get (lg_keys l) (scoped_key (pv_principal p) key) = None"
    and "begin_operation x d p key v l w = (b, l1, w2)"
  shows "journal.tracks l w l1 w2"
proof -
  have "bt_get (lg_provisioners l) (pv_principal p) \<noteq> None" if "ledger_inv l"
    using assms(2) ledger_invD(3) [OF that]
    by (fastforce simp: admit_def split: principal_source.splits sum.splits option.splits if_splits)
  then have "journal.tracks l w l1 w2" if "ledger_inv l"
    using tracks_begin [OF assms(5) _ assms(3,4)] that by blast
  then show ?thesis by (metis journal.tracks_def)
qed

lemma resume_keeps:
  assumes "journal.tracks l w l1 w2" and "load w = Inr l" and "pw_ledger w3 = pw_ledger w2"
    and "resume_operation x i actor l1 w3 = (u, l4, w1)"
  shows "journal.keeps w w1"
proof -
  have "journal.tracks l1 w2 l1 w3" using assms(3) by (intro journal.tracks_refl load_cong)
  then have "journal.tracks l w l4 w1"
    using assms(1) tracks_resume [OF assms(4)] by (blast intro: journal.tracks_trans)
  then show ?thesis using assms(2) by (rule journal.tracks_keeps)
qed

lemma provision_body_keeps:
  assumes "provision_body x caller key request w = (r, about, w1)"
  shows "journal.keeps w w1"
proof (cases "\<exists>d l actor p v. identity_document x w = Inr d \<and> load w = Inr l \<and>
    admit caller d l (px_now x) = Inr (actor, p) \<and> valid_key key \<and>
    validate_request (px_sha x) request = Inr v \<and> \<not> outside_credential actor (vd_profile v)")
  case False
  then have "w1 = w"
    using assms by (auto simp: provision_body_def Let_def split: sum.splits option.splits prod.splits if_splits)
  then show ?thesis by (simp add: keeps_same)
next
  case True
  then obtain d l actor p v where c: "identity_document x w = Inr d" "load w = Inr l"
    "admit caller d l (px_now x) = Inr (actor, p)" "valid_key key"
    "validate_request (px_sha x) request = Inr v" "\<not> outside_credential actor (vd_profile v)"
    by blast
  show ?thesis
  proof (cases "bt_get (lg_keys l) (scoped_key (pv_principal p) key)")
    case (Some i)
    then show ?thesis
      using assms c resume_keeps [OF journal.tracks_refl [OF refl] c(2) refl]
      by (auto simp: provision_body_def keeps_same Let_def split: option.splits if_splits sum.splits prod.splits)
  next
    case None
    obtain b l1 w2 where b: "begin_operation x d p key v l w = (b, l1, w2)"
      by (cases "begin_operation x d p key v l w") auto
    note t = begin_keeps [OF c(2,3,5) None b]
    have k: "journal.keeps w v" if "pw_ledger v = pw_ledger w2" for v
      using journal.tracks_keeps [OF t c(2)] load_cong [OF that] by (rule journal.keeps_then)
    show ?thesis
      using assms c None b
      by (auto simp: provision_body_def Let_def intro: k resume_keeps [OF t c(2)] dest!: crash_point_ledger
          split: sum.splits option.splits prod.splits)
  qed
qed

lemma keeps_provision: "journal.keeps w (snd (provision x caller key request w))"
  unfolding provision_def
  by (auto simp: keeps_same split: prod.splits if_splits intro!: keeps_audited dest: provision_body_keeps)

lemma service_step_keeps: "journal.keeps w (service_step w c)"
proof (cases c)
  case (Pair x call)
  show ?thesis
    unfolding Pair
    by (cases call) (simp_all add: keeps_register keeps_withdraw keeps_provision keeps_status
        keeps_revoke keeps_reconcile keeps_initialize keeps_retire keeps_same)
qed

lemma history_keeps: "journal.keeps w (foldl service_step w cs)"
  by (induction cs arbitrary: w) (auto intro: journal.keeps_refl journal.keeps_trans service_step_keeps)

end
