(* ===== verification/ProvisioningRecovery.thy ===== *)
theory ProvisioningRecovery
  imports ProvisioningLedger IdentityContract
begin

text \<open>
  Crashes and repetition: what a crash at any point of a provisioning operation leaves behind, and
  that a repetition of the request on working stores ends it. The lemmas follow an operation turn
  by turn through the three stores.
\<close>

section \<open>Tokens survive trimming\<close>

lemma lower_hex_no_ws:
  assumes "list_all is_lower_hex s" and "w \<in> set ws_seqs"
  shows "\<not> is_prefix_of w s" and "\<not> is_prefix_of (rev w) (rev s)"
proof -
  have "\<exists>c. c \<in> set w \<and> \<not> is_lower_hex c"
    using assms(2) by (auto simp: ws_seqs_def is_lower_hex_def is_digit_def less_eq_char_def)
  then show "\<not> is_prefix_of w s" "\<not> is_prefix_of (rev w) (rev s)"
    using assms(1) by (auto simp: is_prefix_of_iff list_all_iff) (metis Un_iff rev_append rev_rev_ident set_append set_rev)
qed

lemma strip_seqs_none: "(\<And>w. w \<in> set ws \<Longrightarrow> \<not> is_prefix_of w s) \<Longrightarrow> strip_seqs ws n s = s"
  by (cases n) (auto simp: find_None_iff2 split: option.splits dest!: find_Some_iff [THEN iffD1])

lemma trim_lower_hex:
  assumes "list_all is_lower_hex s" shows "trim s = s"
proof -
  have "strip_seqs ws_seqs n s = s" "strip_seqs (map rev ws_seqs) n (rev s) = rev s" for n
    using lower_hex_no_ws [OF assms] by (auto intro!: strip_seqs_none)
  then show ?thesis by (simp add: trim_def trim_start_def trim_end_def)
qed

section \<open>Working stores\<close>

definition working_files :: "materialize_io \<Rightarrow> bool" where
  "working_files io \<longleftrightarrow> mi_clear io \<and> mi_staged io \<and> mi_parent io \<and> mi_appears io = None \<and>
     mi_rename io \<and> mi_replaced io = None"

definition working_tx :: "tx_io \<Rightarrow> bool" where
  "working_tx io \<longleftrightarrow> io_lock io = None \<and> io_audit io = None \<and> io_previous io = None \<and> io_state io = None"

definition healthy :: "'j codec \<Rightarrow> 'j call \<Rightarrow> bool" where
  "healthy jc x \<longleftrightarrow> px_codec x = jc \<and> px_lock x \<and> (\<forall>g. px_save x g = SaveOk) \<and>
     (\<forall>i. working_files (px_materialize x i)) \<and> (\<forall>i. working_tx (px_tx x i)) \<and>
     (\<forall>i. \<exists>b. px_bind x i = BindOk b \<and> list_all (\<lambda>v. v < 256) b)"

definition may_provision :: "caller \<Rightarrow> bool" where
  "may_provision actor \<longleftrightarrow> pr_role (ca_principal actor) = Operator \<and> authorize_capability actor Provision = Inr ()"

lemma save_healthy:
  "healthy jc x \<Longrightarrow> save x l w = (None, l\<lparr>lg_generation := lg_generation l + 1\<rparr>,
     w\<lparr>pw_ledger := StoredLedger (l\<lparr>lg_generation := lg_generation l + 1\<rparr>)\<rparr>)"
  by (simp add: save_def healthy_def Let_def)

section \<open>Where an operation can be resumed\<close>

definition bindable :: "identity_document \<Rightarrow> operation \<Rightarrow> stamp option \<Rightarrow> bool" where
  "bindable d op st \<longleftrightarrow>
     (case external_principal d (op_external op) of
        Some e \<Rightarrow> e = op_principal op \<and> (\<exists>r. bt_get (id_principals d) e = Some r \<and> pp_role r = User \<and>
          pp_status r = Active)
      | None \<Rightarrow> bt_get (id_principals d) (op_principal op) = None \<and>
          ei_issuer (op_external op) \<in> id_trusted_issuers d) \<and>
     bt_get (id_ownership d) (op_profile op) = None \<and>
     bt_get (id_idempotency d) (''provisioning:'' @ op_id op) = None \<and>
     (case st of None \<Rightarrow> True | Some s \<Rightarrow> \<not> isl (advance s d (op_id op) ContinuityBind))"

definition bound_by :: "identity_store \<Rightarrow> identity_document \<Rightarrow> operation \<Rightarrow> stamp option \<Rightarrow> bool" where
  "bound_by s d op st \<longleftrightarrow>
     (\<exists>e. bt_get (id_idempotency d) (''provisioning:'' @ op_id op) = Some e \<and>
        ie_fingerprint e = op_fingerprint op) \<and>
     (\<exists>r. bt_get (id_ownership d) (op_profile op) = Some r \<and> ow_owner r = op_principal op) \<and>
     (\<exists>token. bt_get (id_bindings d) (op_profile op) = Some token \<and>
        is_markers s (op_profile op) = Some token \<and> trim token = token) \<and>
     (case st of None \<Rightarrow> True | Some c \<Rightarrow> (\<exists>m. id_continuity d = Some m \<and>
        pc_continuity_id m = st_continuity_id c))"

text \<open>What a bind leaves of the people of the store.\<close>

definition same_people :: "identity_document \<Rightarrow> identity_document \<Rightarrow> bool" where
  "same_people d d' \<longleftrightarrow> id_credentials d' = id_credentials d \<and>
     (\<forall>i r. bt_get (id_principals d) i = Some r \<longrightarrow> bt_get (id_principals d') i = Some r)"

definition new_principal :: "operation \<Rightarrow> nat \<Rightarrow> principal_record" where
  "new_principal op now = \<lparr>pp_id = op_principal op, pp_role = User, pp_status = Active,
     pp_created = now, pp_updated = now, pp_external = Some (op_external op)\<rparr>"

lemma active_principal_Some:
  "bt_get (id_principals d) i = Some r \<Longrightarrow> pp_status r = Active \<Longrightarrow> active_principal d i = Inr r"
  by (simp add: active_principal_def)

lemma run_assign:
  assumes "may_provision (te_actor env)" and "bt_get (id_principals (tx_doc t)) owner = Some r"
    and "pp_role r = User" "pp_status r = Active" and "te_profile_exists env profile"
    and "bt_get (id_ownership (tx_doc t)) profile = None" and "io = BindOk b"
  shows "run_change env ((OpAssignOwner io profile owner, True) # ops) t = run_change env ops
     (event OwnerAssigned (Some profile) (Some owner) None
       (on_doc (\<lambda>d. d\<lparr>id_bindings := bt_insert profile (hex_bytes b) (id_bindings d)\<rparr>)
         ((on_doc (\<lambda>d. d\<lparr>id_ownership := bt_insert profile (new_ownership owner) (id_ownership d)\<rparr>) t)
            \<lparr>tx_markers := (tx_markers t)(profile \<mapsto> hex_bytes b)\<rparr>)))"
  using assms by (simp add: op_result_def assign_owner_def require_def may_provision_def owner_error_def
      active_principal_Some ownership_assign_def bind_profile_def Let_def on_doc_def)

lemma run_create:
  assumes "may_provision (te_actor env)" and "bt_get (id_principals (tx_doc t)) i = None"
    and "ei_issuer ext \<in> id_trusted_issuers (tx_doc t)" and "external_principal (tx_doc t) ext = None"
  shows "run_change env ((OpCreatePrincipal i User (Some ext), True) # ops) t = run_change env ops
     (event PrincipalCreated None (Some i) None (on_doc (\<lambda>d. d\<lparr>id_principals := bt_insert i
        \<lparr>pp_id = i, pp_role = User, pp_status = Active, pp_created = te_now env, pp_updated = te_now env,
         pp_external = Some ext\<rparr> (id_principals d)\<rparr>) t))"
  using assms by (simp add: op_result_def create_principal_def require_for_def require_def
      may_provision_def external_refusal_def)

lemma run_advance:
  assumes "may_provision (te_actor env)"
    and "case st of None \<Rightarrow> True | Some s \<Rightarrow> \<not> isl (advance s d i action)"
  shows "\<exists>c. run_change env (advance_ops st d i action) t = (None, on_doc (\<lambda>d. d\<lparr>id_continuity := c\<rparr>) t) \<and>
     (case st of None \<Rightarrow> c = id_continuity (tx_doc t)
      | Some s \<Rightarrow> \<exists>m. c = Some m \<and> advance s d i action = Inr m \<and> pc_continuity_id m = st_continuity_id s)"
proof (cases st)
  case None
  then show ?thesis by (intro exI [of _ "id_continuity (tx_doc t)"]) (simp add: advance_ops_def on_doc_def)
next
  case (Some s)
  then obtain m where m: "advance s d i action = Inr m" using assms(2) by (auto simp: isl_def split: sum.splits)
      (metis sum.exhaust)
  moreover have "pc_continuity_id m = st_continuity_id s"
    using m by (auto simp: advance_def Let_def split: option.splits if_splits)
  ultimately show ?thesis
    using assms(1) Some by (intro exI [of _ "Some m"])
      (simp add: advance_ops_def op_result_def set_continuity_def require_def may_provision_def)
qed

section \<open>The transaction of a bind\<close>

lemma is_file_ours: "marker_matches w op \<Longrightarrow> is_file w (op_profile op)"
  by (auto simp: marker_matches_def is_file_def split: option.splits profile_entry.splits stored.splits)

text \<open>What the transaction makes of the document and the markers.\<close>

definition bind_effect :: "identity_document \<Rightarrow> operation \<Rightarrow> stamp option \<Rightarrow> string \<Rightarrow> tx \<Rightarrow> bool" where
  "bind_effect d op st token t \<longleftrightarrow> same_people d (tx_doc t) \<and>
     bt_get (id_ownership (tx_doc t)) (op_profile op) = Some (new_ownership (op_principal op)) \<and>
     bt_get (id_bindings (tx_doc t)) (op_profile op) = Some token \<and>
     tx_markers t (op_profile op) = Some token \<and>
     (case st of None \<Rightarrow> True | Some c \<Rightarrow> (\<exists>m. id_continuity (tx_doc t) = Some m \<and>
        pc_continuity_id m = st_continuity_id c \<and> advance c d (op_id op) ContinuityBind = Inr m))"

lemma run_bind:
  assumes "may_provision (te_actor env)" and "bindable d op st" and "te_profile_exists env (op_profile op)"
  shows "\<exists>t. run_change env (bind_change (BindOk b) op st d)
      \<lparr>tx_doc = d, tx_events = [], tx_markers = marks\<rparr> = (None, t) \<and> bind_effect d op st (hex_bytes b) t"
proof -
  note b = assms(2) [unfolded bindable_def]
  have assign: "\<exists>t'. run_change env ((OpAssignOwner (BindOk b) (op_profile op) (op_principal op), True) #
        advance_ops st d (op_id op) ContinuityBind) t = (None, t') \<and> bind_effect d op st (hex_bytes b) t'"
    if "same_people d (tx_doc t)" "bt_get (id_principals (tx_doc t)) (op_principal op) = Some r"
      "pp_role r = User" "pp_status r = Active" "id_ownership (tx_doc t) = id_ownership d" for t r
  proof -
    define t1 where "t1 = event OwnerAssigned (Some (op_profile op)) (Some (op_principal op)) None
       (on_doc (\<lambda>d. d\<lparr>id_bindings := bt_insert (op_profile op) (hex_bytes b) (id_bindings d)\<rparr>)
         ((on_doc (\<lambda>d. d\<lparr>id_ownership := bt_insert (op_profile op) (new_ownership (op_principal op)) (id_ownership d)\<rparr>) t)
            \<lparr>tx_markers := (tx_markers t)(op_profile op \<mapsto> hex_bytes b)\<rparr>))"
    have r: "run_change env ((OpAssignOwner (BindOk b) (op_profile op) (op_principal op), True) #
        advance_ops st d (op_id op) ContinuityBind) t = run_change env (advance_ops st d (op_id op) ContinuityBind) t1"
      unfolding t1_def by (rule run_assign [OF assms(1) that(2-4) assms(3)]) (use b that(5) in simp_all)
    obtain c where c: "run_change env (advance_ops st d (op_id op) ContinuityBind) t1 =
        (None, on_doc (\<lambda>d. d\<lparr>id_continuity := c\<rparr>) t1)"
      "case st of None \<Rightarrow> c = id_continuity (tx_doc t1)
        | Some s \<Rightarrow> \<exists>m. c = Some m \<and> advance s d (op_id op) ContinuityBind = Inr m \<and> pc_continuity_id m = st_continuity_id s"
      using run_advance [OF assms(1), where st = st and d = d and i = "op_id op" and
          action = ContinuityBind and t = t1] b by blast
    have "bind_effect d op st (hex_bytes b) (on_doc (\<lambda>d. d\<lparr>id_continuity := c\<rparr>) t1)"
      using that(1,5) c(2) by (auto simp: bind_effect_def t1_def same_people_def event_def on_doc_def bt_simps
          split: option.splits)
    then show ?thesis using r c(1) by simp
  qed
  show ?thesis
  proof (cases "external_principal d (op_external op)")
    case (Some e)
    then show ?thesis
      using b assign [of "\<lparr>tx_doc = d, tx_events = [], tx_markers = marks\<rparr>"]
      by (auto simp: bind_change_def same_people_def)
  next
    case None
    define t0 where "t0 = event PrincipalCreated None (Some (op_principal op)) None
      (on_doc (\<lambda>d. d\<lparr>id_principals := bt_insert (op_principal op) (new_principal op (te_now env)) (id_principals d)\<rparr>)
        \<lparr>tx_doc = d, tx_events = [], tx_markers = marks\<rparr>)"
    have "run_change env (bind_change (BindOk b) op st d) \<lparr>tx_doc = d, tx_events = [], tx_markers = marks\<rparr> =
      run_change env ((OpAssignOwner (BindOk b) (op_profile op) (op_principal op), True) #
        advance_ops st d (op_id op) ContinuityBind) t0"
      using b None by (simp add: bind_change_def run_create [OF assms(1)] t0_def new_principal_def del: run_change.simps)
    moreover have "same_people d (tx_doc t0)"
      "bt_get (id_principals (tx_doc t0)) (op_principal op) = Some (new_principal op (te_now env))"
      "id_ownership (tx_doc t0) = id_ownership d"
      using b None by (auto simp: t0_def same_people_def bt_simps event_def on_doc_def)
    ultimately show ?thesis using assign [of t0] by (auto simp: new_principal_def)
  qed
qed

lemma transact_applies:
  assumes jc: "codec_ok jc" and io: "working_tx io" and m: "may_provision (te_actor env)"
    and d: "store_load jc s = Inr d" and k: "bt_get (id_idempotency d) key = None"
    and r: "run_change env ops \<lparr>tx_doc = d, tx_events = [], tx_markers = is_markers s\<rparr> = (None, t)"
    and p: "jc_print jc (commit_document env (Some (key, fp)) (Suc (id_generation d)) (tx_doc t)) \<noteq> None"
  shows "\<exists>s'. transact jc env io (Some (key, fp)) ops s = (Inr (Applied (Suc (id_generation d))), s') \<and>
     is_markers s' = tx_markers t \<and>
     store_load jc s' = Inr (commit_document env (Some (key, fp)) (Suc (id_generation d)) (tx_doc t))"
proof -
  let ?d = "commit_document env (Some (key, fp)) (Suc (id_generation d)) (tx_doc t)"
  have a: "admitted (te_actor env)" using m by (simp add: admitted_def may_provision_def)
  obtain bytes where b: "jc_print jc ?d = Some bytes" using p by blast
  have p: "parse_document jc bytes = Inr ?d"
    using jc b commit_document_sel(2) [of env "Some (key, fp)" "Suc (id_generation d)" "tx_doc t"]
    unfolding codec_ok_def by blast
  have c: "\<exists>s'. commit jc env io (Suc (id_generation d)) (tx_events t) ?d (s\<lparr>is_markers := tx_markers t\<rparr>) =
      (Inr (Applied (Suc (id_generation d))), s') \<and> is_markers s' = tx_markers t \<and> is_state s' = Bytes bytes"
    using io b by (auto simp: commit_def Let_def working_tx_def split: stored.splits)
  then obtain s' where s': "commit jc env io (Suc (id_generation d)) (tx_events t) ?d (s\<lparr>is_markers := tx_markers t\<rparr>) =
      (Inr (Applied (Suc (id_generation d))), s')" "is_markers s' = tx_markers t" "is_state s' = Bytes bytes"
    by blast
  have "transact jc env io (Some (key, fp)) ops s = (Inr (Applied (Suc (id_generation d))), s')"
    using a io d k r s'(1) by (simp add: transact_def working_tx_def Let_def)
  then show ?thesis using s' p by (auto simp: store_load_def)
qed

lemma transact_replays:
  assumes io: "working_tx io" and m: "may_provision (te_actor env)"
    and d: "store_load jc s = Inr d" and k: "bt_get (id_idempotency d) key = Some e" and f: "ie_fingerprint e = fp"
  shows "\<exists>s'. transact jc env io (Some (key, fp)) ops s = (Inr (Replayed (ie_generation e)), s') \<and>
     is_markers s' = is_markers s \<and> is_state s' = is_state s"
  using assms by (simp add: transact_def working_tx_def admitted_def may_provision_def)

section \<open>One turn of an operation\<close>

text \<open>The document that the transaction of a bind commits, and that the JSON library writes it.\<close>

definition bound_document ::
  "'j call \<Rightarrow> caller \<Rightarrow> operation \<Rightarrow> stamp option \<Rightarrow> world \<Rightarrow> identity_document \<Rightarrow> identity_document" where
  "bound_document x actor op st w d =
     commit_document (tx_env_of x actor w) (Some (''provisioning:'' @ op_id op, op_fingerprint op))
       (Suc (id_generation d))
       (tx_doc (snd (run_change (tx_env_of x actor w) (bind_change (px_bind x (op_id op)) op st d)
          \<lparr>tx_doc = d, tx_events = [], tx_markers = is_markers (pw_identity w)\<rparr>)))"

text \<open>What a stamp must be for a bind does not depend on the generation of the ledger.\<close>

definition same_stamp :: "stamp option \<Rightarrow> stamp option \<Rightarrow> bool" where
  "same_stamp a b \<longleftrightarrow> (case (a, b) of
      (None, None) \<Rightarrow> True
    | (Some s, Some t) \<Rightarrow> st_continuity_id s = st_continuity_id t \<and> st_sequence_seen s = st_sequence_seen t
    | _ \<Rightarrow> False)"

definition serializes ::
  "'j codec \<Rightarrow> identity_document \<Rightarrow> stamp option \<Rightarrow> caller \<Rightarrow> 'j call \<Rightarrow> operation \<Rightarrow> bool" where
  "serializes jc d0 st0 actor x op \<longleftrightarrow> codec_ok jc \<and>
     (\<forall>q st w. frozen q = frozen op \<and> same_stamp st st0 \<and> is_file w (op_profile op) \<longrightarrow>
        jc_print jc (bound_document x actor q st w d0) \<noteq> None)"

lemma serializes_frozen: "frozen q = frozen op \<Longrightarrow> op_profile q = op_profile op \<Longrightarrow>
    serializes jc d0 st0 actor x q = serializes jc d0 st0 actor x op"
  by (simp add: serializes_def)

definition stage :: "identity_document \<Rightarrow> stamp option \<Rightarrow> identity_store \<Rightarrow> identity_document \<Rightarrow> world \<Rightarrow> operation \<Rightarrow> stamp option \<Rightarrow> bool" where
  "stage d0 st0 s d w op st \<longleftrightarrow>
     (case op_state op of
        OsPending \<Rightarrow> d = d0 \<and> same_stamp st st0 \<and> bindable d op st \<and>
          (bt_get (pw_profiles w) (op_profile op) = None \<or> marker_matches w op)
      | OsProfileCreated \<Rightarrow> marker_matches w op \<and>
          (d = d0 \<and> same_stamp st st0 \<and> bindable d op st \<or> bound_by s d op st)
      | OsCompleted \<Rightarrow> marker_matches w op \<and> bound_by s d op st
      | _ \<Rightarrow> False)"

definition resumable ::
  "'j codec \<Rightarrow> identity_document \<Rightarrow> stamp option \<Rightarrow> ledger \<Rightarrow> world \<Rightarrow> string \<Rightarrow> operation \<Rightarrow> bool" where
  "resumable jc d0 st0 l w i op \<longleftrightarrow> load w = Inr l \<and> lg_schema l = ledger_schema_version \<and>
     bt_get (lg_operations l) i = Some op \<and> op_id op = i \<and>
     \<not> stamped_retired l \<and> op_template op = ''assistant'' \<and> op_failure op = None \<and>
     trim (op_marker op) = op_marker op \<and>
     (\<exists>d. store_load jc (pw_identity w) = Inr d \<and> idem_inv d \<and> stage d0 st0 (pw_identity w) d w op (stamp_of l))"

definition people_kept :: "'j codec \<Rightarrow> world \<Rightarrow> world \<Rightarrow> bool" where
  "people_kept jc w w1 \<longleftrightarrow> (\<forall>d. store_load jc (pw_identity w) = Inr d \<longrightarrow>
     (\<exists>d1. store_load jc (pw_identity w1) = Inr d1 \<and> same_people d d1))"

definition same_book :: "ledger \<Rightarrow> ledger \<Rightarrow> bool" where
  "same_book l l1 \<longleftrightarrow> lg_provisioners l1 = lg_provisioners l \<and> lg_keys l1 = lg_keys l"

lemma people_kept_state: "is_state (pw_identity w1) = is_state (pw_identity w) \<Longrightarrow> people_kept jc w w1"
  by (simp add: people_kept_def same_people_def store_load_def)

lemma same_people_trans: "same_people a b \<Longrightarrow> same_people b c \<Longrightarrow> same_people a c"
  by (auto simp: same_people_def)

lemma people_kept_trans: "people_kept jc a b \<Longrightarrow> people_kept jc b c \<Longrightarrow> people_kept jc a c"
  unfolding people_kept_def by (meson same_people_trans)

lemma store_load_state: "is_state s = is_state s' \<Longrightarrow> store_load jc s = store_load jc s'"
  by (simp add: store_load_def)

lemma advance_same:
  "st_continuity_id s = st_continuity_id t \<Longrightarrow> st_sequence_seen s = st_sequence_seen t \<Longrightarrow>
     isl (advance s d i a) = isl (advance t d i a)"
  by (auto simp: advance_def Let_def isl_def split: option.splits)

lemma bindable_same: "same_stamp a b \<Longrightarrow> bindable d op a = bindable d op b"
  using advance_same [of "the a" "the b" d "op_id op" ContinuityBind]
  by (cases a; cases b) (simp_all add: same_stamp_def bindable_def)

lemma bindable_op:
  "op_external q = op_external op \<Longrightarrow> op_principal q = op_principal op \<Longrightarrow> op_profile q = op_profile op \<Longrightarrow>
     op_id q = op_id op \<Longrightarrow> bindable d q st = bindable d op st"
  by (auto simp: bindable_def split: option.splits)

lemma bound_by_op:
  "op_principal q = op_principal op \<Longrightarrow> op_profile q = op_profile op \<Longrightarrow> op_fingerprint q = op_fingerprint op \<Longrightarrow>
     op_id q = op_id op \<Longrightarrow> map_option st_continuity_id a = map_option st_continuity_id b \<Longrightarrow>
     bound_by s d q a = bound_by s d op b"
  by (auto simp: bound_by_def split: option.splits)

lemma marker_matches_op:
  "op_profile q = op_profile op \<Longrightarrow> op_marker q = op_marker op \<Longrightarrow> pw_profiles v = pw_profiles w \<Longrightarrow>
     marker_matches v q = marker_matches w op"
  by (auto simp: marker_matches_def split: option.splits profile_entry.splits stored.splits)

definition moved :: "operation \<Rightarrow> operation_state \<Rightarrow> nat \<Rightarrow> operation" where
  "moved op s now = op\<lparr>op_state := s, op_failure := None, op_updated := now\<rparr>"

lemma moved_sel [simp]:
  "op_id (moved op s now) = op_id op" "op_external (moved op s now) = op_external op"
  "op_principal (moved op s now) = op_principal op" "op_profile (moved op s now) = op_profile op"
  "op_marker (moved op s now) = op_marker op" "op_fingerprint (moved op s now) = op_fingerprint op"
  "op_template (moved op s now) = op_template op" "op_state (moved op s now) = s"
  "frozen (moved op s now) = frozen op" "op_display_name (moved op s now) = op_display_name op"
  "op_provisioner (moved op s now) = op_provisioner op" "op_failure (moved op s now) = None"
  by (simp_all add: moved_def frozen_def)

text \<open>The ledger after a working save of a step.\<close>

definition stepped :: "string \<Rightarrow> operation_state \<Rightarrow> seen option \<Rightarrow> nat \<Rightarrow> ledger \<Rightarrow> ledger" where
  "stepped i s sn now l = (set_state i s None now (record_seen sn l))\<lparr>lg_generation := lg_generation l + 1\<rparr>"

lemma stepped_sel:
  assumes "bt_get (lg_operations l) i = Some op"
  shows "bt_get (lg_operations (stepped i s sn now l)) i = Some (moved op s now)"
    and "same_book l (stepped i s sn now l)" and "lg_schema (stepped i s sn now l) = lg_schema l"
    and "stamped_retired (stepped i s sn now l) = stamped_retired l"
    and "map_option st_continuity_id (stamp_of (stepped i s sn now l)) = map_option st_continuity_id (stamp_of l)"
    and "sn = None \<Longrightarrow> same_stamp (stamp_of (stepped i s sn now l)) (stamp_of l)"
  using assms by (cases "lg_continuity l"; auto simp: stepped_def set_state_def bt_simps moved_def same_book_def record_seen_def
      stamped_retired_def stamp_of_def same_stamp_def split: option.splits)+

lemma progress_healthy:
  assumes "healthy jc x" and "bt_get (lg_operations l) i = Some op"
  shows "progress x i s sn l w =
    (let l1 = stepped i s sn (px_now x) l; w1 = w\<lparr>pw_ledger := StoredLedger l1\<rparr>
     in if s = OsProfileCreated \<and> pw_fault w = Some ProfileCreatedRecorded
        then (Some PUnavailable, l1, w1\<lparr>pw_fault := None\<rparr>) else (None, l1, w1))"
proof -
  have "lg_generation (record_seen sn l) = lg_generation l" by (simp add: record_seen_def split: option.splits)
  then have "transition x i s None (record_seen sn l) w =
      (None, stepped i s sn (px_now x) l, w\<lparr>pw_ledger := StoredLedger (stepped i s sn (px_now x) l)\<rparr>)"
    using assms by (simp add: transition_def save_healthy stepped_def set_state_def)
  then show ?thesis by (simp add: progress_def crash_point_def Let_def)
qed

definition turn_ok :: "'j codec \<Rightarrow> identity_document \<Rightarrow> stamp option \<Rightarrow> string \<Rightarrow> operation \<Rightarrow> ledger \<Rightarrow> world
    \<Rightarrow> (provisioning_error + operation_status) option \<times> ledger \<times> world \<Rightarrow> bool" where
  "turn_ok jc d0 st0 i op l w = (\<lambda>(r, l1, w1). (\<exists>op1. resumable jc d0 st0 l1 w1 i op1 \<and> frozen op1 = frozen op) \<and>
     people_kept jc w w1 \<and> same_book l l1 \<and>
     (r = None \<and> pw_fault w1 = pw_fault w \<or>
      r = Some (Inl PUnavailable) \<and> pw_fault w \<noteq> None \<and> pw_fault w1 = None))"

text \<open>The saved step of an operation whose stores are in the stage of its next state.\<close>

lemma turn_saved:
  assumes "healthy jc x" and res: "resumable jc d0 st0 l w0 i op"
    and w: "pw_ledger w = pw_ledger w0" "people_kept jc w0 w" "pw_fault w = pw_fault w0"
    and d: "store_load jc (pw_identity w) = Inr d" "idem_inv d"
    and st: "stage d0 st0 (pw_identity w) d w (moved op s (px_now x)) (stamp_of (stepped i s sn (px_now x) l))"
  shows "turn_ok jc d0 st0 i op l w0 (let (e, l2, w2) = progress x i s sn l w in (map_option Inl e, l2, w2))"
proof -
  let ?l = "stepped i s sn (px_now x) l"
  have op: "bt_get (lg_operations l) i = Some op" "lg_schema l = ledger_schema_version" "op_id op = i"
    "\<not> stamped_retired l" "op_template op = ''assistant''" "trim (op_marker op) = op_marker op"
    using res by (simp_all add: resumable_def)
  note sel = stepped_sel [OF op(1), where s = s and sn = sn and now = "px_now x"]
  have r: "resumable jc d0 st0 ?l v i (moved op s (px_now x))"
    if "pw_ledger v = StoredLedger ?l" "pw_identity v = pw_identity w" "pw_profiles v = pw_profiles w" for v
  proof -
    have "marker_matches v q = marker_matches w q" for q
      using that(3) by (intro marker_matches_op) simp_all
    then have "stage d0 st0 (pw_identity v) d v (moved op s (px_now x)) (stamp_of ?l)"
      using st that(2,3) by (auto simp: stage_def split: operation_state.splits)
    then show ?thesis
      using that op sel(1,3,4) d by (simp add: resumable_def load_def)
  qed
  moreover have "people_kept jc w0 v" if "pw_identity v = pw_identity w" for v
    using w(2) that by (simp add: people_kept_def)
  moreover have "\<exists>op1. resumable jc d0 st0 ?l v i op1 \<and> frozen op1 = frozen op"
    if "pw_ledger v = StoredLedger ?l" "pw_identity v = pw_identity w" "pw_profiles v = pw_profiles w" for v
    using r [OF that] moved_sel(9) by blast
  ultimately show ?thesis
    using sel(2) w(3) [symmetric] by (cases "s = OsProfileCreated \<and> pw_fault w = Some ProfileCreatedRecorded")
      (auto simp: turn_ok_def progress_healthy [OF assms(1) op(1)] Let_def)
qed

text \<open>The turn of a pending operation: its profile is there already, or it is built and renamed.\<close>

lemma marker_matches_placed:
  "trim (op_marker op) = op_marker op \<Longrightarrow>
     bt_get (pw_profiles w) (op_profile op) = Some (ProfileDir (Manifest p) (Bytes (op_marker op))) \<Longrightarrow>
     marker_matches w op"
  by (simp add: marker_matches_def)

lemma materialize_healthy:
  assumes "healthy jc x" and "op_template op = ''assistant''" and "trim (op_marker op) = op_marker op"
    and "bt_get (pw_profiles w) (op_profile op) = None \<or> marker_matches w op"
  obtains (there) "materialize x op w = (Inr (), w)" "marker_matches w op"
  | (made) w1 where "materialize x op w = (if pw_fault w = Some ProfileRenamed
        then (Inl (Retry PUnavailable), w1\<lparr>pw_fault := None\<rparr>) else (Inr (), w1))"
      "marker_matches w1 op" "pw_ledger w1 = pw_ledger w" "pw_fault w1 = pw_fault w"
      "is_state (pw_identity w1) = is_state (pw_identity w)"
proof (cases "bt_get (pw_profiles w) (op_profile op)")
  case (Some e)
  then have "marker_matches w op" using assms(4) by simp
  then show ?thesis using Some there by (simp add: materialize_def Let_def)
next
  case None
  obtain p where p: "template_profile (op_template op) (op_profile op) (op_display_name op) = Inr p"
    using assms(2) by (simp add: template_profile_def)
  have io: "working_files (px_materialize x (op_id op))" using assms(1) by (simp add: healthy_def)
  define w1 where "w1 = clear_staging x (op_id op) (place_profile op p
    (w\<lparr>pw_staging := filter (\<lambda>n. n \<noteq> op_id op) (pw_staging w) @ [op_id op]\<rparr>))"
  have f: "pw_profiles w1 = bt_insert (op_profile op) (ProfileDir (Manifest p) (Bytes (op_marker op))) (pw_profiles w)"
    "pw_ledger w1 = pw_ledger w" "pw_fault w1 = pw_fault w"
    "is_state (pw_identity w1) = is_state (pw_identity w)"
    by (simp_all add: w1_def clear_staging_def place_profile_def)
  have m: "marker_matches v op" if "pw_profiles v = pw_profiles w1" for v
    using that f(1) assms(3) by (intro marker_matches_placed [where p = p]) (simp_all add: bt_simps)
  have "materialize x op w = (if pw_fault w = Some ProfileRenamed
      then (Inl (Retry PUnavailable), w1\<lparr>pw_fault := None\<rparr>) else (Inr (), w1))"
    using None p io f(3) m by (simp add: materialize_def Let_def working_files_def crash_point_def disturb_def
        flip: w1_def)
  then show ?thesis using made m f by blast
qed

lemma stage_pending:
  "op_state op = OsPending \<Longrightarrow> stage d0 st0 s d w op st \<Longrightarrow> bindable d op st \<and> d = d0 \<and> same_stamp st st0"
  by (auto simp: stage_def)

lemma same_stamp_trans: "same_stamp a b \<Longrightarrow> same_stamp b c \<Longrightarrow> same_stamp a c"
  by (auto simp: same_stamp_def split: option.splits)

lemma turn_pending:
  assumes h: "healthy jc x" and r: "resumable jc d0 st0 l w i op" and s: "op_state op = OsPending"
  shows "turn_ok jc d0 st0 i op l w (resume_turn x i actor l w)"
proof -
  have op: "load w = Inr l" "bt_get (lg_operations l) i = Some op" "\<not> stamped_retired l"
    "op_template op = ''assistant''" "trim (op_marker op) = op_marker op" "op_id op = i"
    using r by (simp_all add: resumable_def)
  obtain d where d: "store_load jc (pw_identity w) = Inr d" "idem_inv d" "stage d0 st0 (pw_identity w) d w op (stamp_of l)"
    using r by (auto simp: resumable_def)
  have b: "bindable d op (stamp_of l)" "d = d0" "same_stamp (stamp_of l) st0"
    using stage_pending [OF s d(3)] by blast+
  have "bt_get (pw_profiles w) (op_profile op) = None \<or> marker_matches w op"
    using d(3) s by (simp add: stage_def)
  note mat = materialize_healthy [OF h op(4,5) this]
  have next_stage: "stage d0 st0 (pw_identity v) d v (moved op OsProfileCreated (px_now x))
      (stamp_of (stepped i OsProfileCreated None (px_now x) l))"
    if "marker_matches v op" for v
  proof -
    have st: "same_stamp (stamp_of (stepped i OsProfileCreated None (px_now x) l)) (stamp_of l)"
      using stepped_sel(6) [OF op(2)] by simp
    then have "bindable d (moved op OsProfileCreated (px_now x)) (stamp_of (stepped i OsProfileCreated None (px_now x) l))"
      using b(1) bindable_same bindable_op [of "moved op OsProfileCreated (px_now x)" op] by simp
    moreover have "marker_matches v (moved op OsProfileCreated (px_now x))"
      using that marker_matches_op [of "moved op OsProfileCreated (px_now x)" op v v] by simp
    ultimately show ?thesis using same_stamp_trans [OF st b(3)] b(2) by (simp add: stage_def)
  qed
  have step: "turn_ok jc d0 st0 i op l w (let (e, l2, w2) = progress x i OsProfileCreated None l v in (map_option Inl e, l2, w2))"
    if "marker_matches v op" "pw_ledger v = pw_ledger w" "pw_fault v = pw_fault w"
      "is_state (pw_identity v) = is_state (pw_identity w)" for v
    using h r that(2) people_kept_state [OF that(4)] that(3) _ d(2) next_stage [OF that(1)]
    by (rule turn_saved) (use d(1) store_load_state [OF that(4), of jc] in simp)
  show ?thesis
  proof (cases rule: mat [case_names there made])
    case there
    then show ?thesis using step [of w] op s
      by (simp add: resume_turn_def is_terminal_def operation_step_def)
  next
    case (made w1)
    show ?thesis
    proof (cases "pw_fault w = Some ProfileRenamed")
      case False
      then show ?thesis using step [of w1] made op s
        by (simp add: resume_turn_def is_terminal_def operation_step_def)
    next
      case True
      let ?v = "w1\<lparr>pw_fault := None\<rparr>"
      have t: "resume_turn x i actor l w = (Some (Inl PUnavailable), l, ?v)"
        using made True op s by (simp add: resume_turn_def is_terminal_def operation_step_def)
      have "marker_matches ?v op" using made(2) marker_matches_op [of op op ?v w1] by simp
      moreover have "store_load jc (pw_identity ?v) = Inr d"
        using d(1) store_load_state [of "pw_identity ?v" "pw_identity w" jc] made(5) by simp
      moreover have "load ?v = Inr l" using op(1) made(3) by (simp add: load_def)
      ultimately have "resumable jc d0 st0 l ?v i op"
        using r s b d(2) by (auto simp: resumable_def stage_def)
      moreover have "people_kept jc w ?v" using made(5) by (intro people_kept_state) simp
      ultimately show ?thesis using t True by (auto simp: turn_ok_def same_book_def)
    qed
  qed
qed

text \<open>The turn that binds: the transaction applies, or it had been applied before a crash.\<close>

lemma commit_continuity: "id_continuity (commit_document env idem g d) = id_continuity d"
  by (auto simp: commit_document_def Let_def split: option.splits)

text \<open>How a bind on working stores ends: the transaction is committed and its sequence known.\<close>

lemma bind_committed:
  assumes h: "healthy jc x" and p: "codec_ok jc" and a: "may_provision actor"
    and m: "marker_matches w op" and d: "store_load jc (pw_identity w) = Inr d" "idem_inv d"
    and b: "bindable d op st \<and> jc_print jc (bound_document x actor op st w d) \<noteq> None \<or>
      bound_by (pw_identity w) d op st"
  obtains s d1 sn where "bind_owner x actor op st w = (if pw_fault w = Some IdentityCommitted
        then (Inl (Retry PUnavailable), w\<lparr>pw_identity := s, pw_fault := None\<rparr>) else (Inr sn, w\<lparr>pw_identity := s\<rparr>))"
      "store_load jc s = Inr d1" "idem_inv d1" "bound_by s d1 op st" "same_people d d1"
proof -
  let ?key = "''provisioning:'' @ op_id op"
  let ?env = "tx_env_of x actor w"
  have jc: "px_codec x = jc" and tx: "working_tx (px_tx x (op_id op))" using h by (simp_all add: healthy_def)
  obtain bytes where bytes: "px_bind x (op_id op) = BindOk bytes" "list_all (\<lambda>v. v < 256) bytes"
    using h unfolding healthy_def by blast
  have env: "may_provision (te_actor ?env)" "te_profile_exists ?env (op_profile op)"
    using a is_file_ours [OF m] by (simp_all add: tx_env_of_def)
  have done_: "\<exists>sn. bind_owner x actor op st w = (if pw_fault w = Some IdentityCommitted
        then (Inl (Retry PUnavailable), w\<lparr>pw_identity := s, pw_fault := None\<rparr>) else (Inr sn, w\<lparr>pw_identity := s\<rparr>))"
    if "transact jc ?env (px_tx x (op_id op)) (Some (?key, op_fingerprint op)) (bind_change (px_bind x (op_id op)) op st d)
          (pw_identity w) = (Inr out, s)"
      "\<exists>sn. \<forall>v. pw_identity v = s \<longrightarrow> seen_after x st (Some d) (op_id op) ContinuityBind out v = Inr sn" for out s
  proof -
    have t: "transact_on x actor ?key op (bind_change (px_bind x (op_id op)) op st) w = (Inr out, w\<lparr>pw_identity := s\<rparr>)"
      using that(1) jc d(1) by (simp add: transact_on_def)
    note known = that(2)
    obtain sn where sn: "\<forall>v. pw_identity v = s \<longrightarrow> seen_after x st (Some d) (op_id op) ContinuityBind out v = Inr sn"
      using known by blast
    show ?thesis
      using t m jc d(1) sn by (intro exI [of _ sn]) (simp add: bind_owner_def crash_point_def del: append.simps)
  qed
  show thesis
  proof (cases "bindable d op st \<and> jc_print jc (bound_document x actor op st w d) \<noteq> None")
    case print: True
    then have True: "bindable d op st" by blast
    obtain t where t: "run_change ?env (bind_change (px_bind x (op_id op)) op st d)
        \<lparr>tx_doc = d, tx_events = [], tx_markers = is_markers (pw_identity w)\<rparr> = (None, t)"
      "bind_effect d op st (hex_bytes bytes) t"
      using run_bind [OF env(1) True env(2)] bytes(1) by metis
    let ?d = "commit_document ?env (Some (?key, op_fingerprint op)) (Suc (id_generation d)) (tx_doc t)"
    have k: "bt_get (id_idempotency d) ?key = None" using True by (simp add: bindable_def)
    obtain s where s: "transact jc ?env (px_tx x (op_id op)) (Some (?key, op_fingerprint op))
        (bind_change (px_bind x (op_id op)) op st d) (pw_identity w) = (Inr (Applied (Suc (id_generation d))), s)"
      "is_markers s = tx_markers t" "store_load jc s = Inr ?d"
      using transact_applies [OF p tx env(1) d(1) k t(1)] print t(1) by (auto simp: bound_document_def)
    have v: "idem_view t = (id_idempotency d, id_generation d)"
      using idem_view_run [of ?env "bind_change (px_bind x (op_id op)) op st d"
          "\<lparr>tx_doc = d, tx_events = [], tx_markers = is_markers (pw_identity w)\<rparr>"] t(1)
      by (simp add: idem_view_def)
    note e = t(2) [unfolded bind_effect_def]
    have "trim (hex_bytes bytes) = hex_bytes bytes" using bytes(2) by (intro trim_lower_hex hex_bytes_lower)
    then have "bound_by s ?d op st"
      using e commit_idem(2) [OF d(2) v, of "Some (?key, op_fingerprint op)" ?key "op_fingerprint op" ?env] s(2)
      by (auto simp: bound_by_def commit_document_sel commit_continuity new_ownership_def split: option.splits)
    moreover have "same_people d ?d" using e by (simp add: same_people_def commit_document_sel)
    moreover have "idem_inv ?d" using d(2) v by (rule commit_idem(1))
    moreover have "\<exists>sn. \<forall>v. pw_identity v = s \<longrightarrow>
        seen_after x st (Some d) (op_id op) ContinuityBind (Applied (Suc (id_generation d))) v = Inr sn"
      by (cases st) (simp_all add: seen_after_def split: sum.splits)
    ultimately show thesis using that done_ [OF s(1)] s(3) by blast
  next
    case False
    then have bb: "bound_by (pw_identity w) d op st" using b by blast
    obtain e where e: "bt_get (id_idempotency d) ?key = Some e" "ie_fingerprint e = op_fingerprint op"
      using bb by (auto simp: bound_by_def)
    obtain s where s: "transact jc ?env (px_tx x (op_id op)) (Some (?key, op_fingerprint op))
        (bind_change (px_bind x (op_id op)) op st d) (pw_identity w) = (Inr (Replayed (ie_generation e)), s)"
      "is_markers s = is_markers (pw_identity w)" "is_state s = is_state (pw_identity w)"
      using transact_replays [OF tx env(1) d(1) e] by blast
    have l: "store_load jc s = Inr d" using d(1) store_load_state [OF s(3), of jc] by simp
    have "bound_by s d op st" using bb s(2) by (simp add: bound_by_def)
    moreover have "\<exists>sn. \<forall>v. pw_identity v = s \<longrightarrow>
        seen_after x st (Some d) (op_id op) ContinuityBind (Replayed (ie_generation e)) v = Inr sn"
      using bb l jc by (auto simp: seen_after_def replayed_seen_def identity_document_def bound_by_def
          split: option.splits sum.splits)
    moreover have "same_people d d" by (simp add: same_people_def)
    ultimately show thesis using that done_ [OF s(1)] l d(2) by blast
  qed
qed

lemma turn_created:
  assumes h: "healthy jc x" and p: "serializes jc d0 st0 actor x op" and a: "may_provision actor"
    and r: "resumable jc d0 st0 l w i op" and s: "op_state op = OsProfileCreated"
  shows "turn_ok jc d0 st0 i op l w (resume_turn x i actor l w)"
proof -
  have op: "load w = Inr l" "bt_get (lg_operations l) i = Some op" "\<not> stamped_retired l" "op_id op = i"
    using r by (simp_all add: resumable_def)
  obtain d where d: "store_load jc (pw_identity w) = Inr d" "idem_inv d" "marker_matches w op"
    "d = d0 \<and> same_stamp (stamp_of l) st0 \<and> bindable d op (stamp_of l) \<or> bound_by (pw_identity w) d op (stamp_of l)"
    using r s by (auto simp: resumable_def stage_def)
  have c: "codec_ok jc" using p by (simp add: serializes_def)
  have bd: "bindable d op (stamp_of l) \<and> jc_print jc (bound_document x actor op (stamp_of l) w d) \<noteq> None \<or>
      bound_by (pw_identity w) d op (stamp_of l)"
    using d(4)
  proof
    assume "d = d0 \<and> same_stamp (stamp_of l) st0 \<and> bindable d op (stamp_of l)"
    moreover from this have "jc_print jc (bound_document x actor op (stamp_of l) w d) \<noteq> None"
      using p is_file_ours [OF d(3)] by (simp add: serializes_def)
    ultimately show ?thesis by blast
  qed simp
  obtain t d1 sn where b: "bind_owner x actor op (stamp_of l) w = (if pw_fault w = Some IdentityCommitted
        then (Inl (Retry PUnavailable), w\<lparr>pw_identity := t, pw_fault := None\<rparr>) else (Inr sn, w\<lparr>pw_identity := t\<rparr>))"
    "store_load jc t = Inr d1" "idem_inv d1" "bound_by t d1 op (stamp_of l)" "same_people d d1"
    using bind_committed [OF h c a d(3,1,2) bd] by blast
  have ours: "marker_matches v q" if "pw_profiles v = pw_profiles w" "op_profile q = op_profile op"
    "op_marker q = op_marker op" for v q
    using marker_matches_op [OF that(2,3,1)] d(3) by simp
  have people: "people_kept jc w v" if "pw_identity v = t" for v
    using that b(2,5) d(1) by (simp add: people_kept_def)
  show ?thesis
  proof (cases "pw_fault w = Some IdentityCommitted")
    case True
    let ?v = "w\<lparr>pw_identity := t, pw_fault := None\<rparr>"
    have "resume_turn x i actor l w = (Some (Inl PUnavailable), l, ?v)"
      using b(1) True op s by (simp add: resume_turn_def is_terminal_def operation_step_def)
    moreover have "load ?v = load w" by (simp add: load_def)
    then have "resumable jc d0 st0 l ?v i op"
      using r s b(2-4) ours [of ?v op] op(1) by (simp add: resumable_def stage_def)
    ultimately show ?thesis using True people [of ?v] by (auto simp: turn_ok_def same_book_def)
  next
    case False
    let ?v = "w\<lparr>pw_identity := t\<rparr>"
    let ?q = "moved op OsCompleted (px_now x)"
    have "bound_by t d1 ?q (stamp_of (stepped i OsCompleted sn (px_now x) l))"
      using b(4) bound_by_op [of ?q op "stamp_of (stepped i OsCompleted sn (px_now x) l)" "stamp_of l"]
        stepped_sel(5) [OF op(2)] by simp
    then have "stage d0 st0 (pw_identity ?v) d1 ?v ?q (stamp_of (stepped i OsCompleted sn (px_now x) l))"
      using ours [of ?v ?q] by (simp add: stage_def)
    then have "turn_ok jc d0 st0 i op l w (let (e, l2, w2) = progress x i OsCompleted sn l ?v in (map_option Inl e, l2, w2))"
      using b(2,3) people [of ?v] by (intro turn_saved [OF h r]) simp_all
    then show ?thesis
      using b(1) False op s by (simp add: resume_turn_def is_terminal_def operation_step_def)
  qed
qed

section \<open>Resuming an operation\<close>

definition finished :: "operation \<Rightarrow> operation_status \<Rightarrow> bool" where
  "finished op s \<longleftrightarrow> os_state s = OsCompleted \<and> os_owner_bound s \<and> os_operation_id s = op_id op \<and>
     os_principal_id s = op_principal op \<and> os_profile_id s = op_profile op \<and> os_failure s = None"

definition resume_ok :: "'j codec \<Rightarrow> identity_document \<Rightarrow> stamp option \<Rightarrow> string \<Rightarrow> operation \<Rightarrow> ledger \<Rightarrow> world
    \<Rightarrow> (provisioning_error + operation_status) \<times> ledger \<times> world \<Rightarrow> bool" where
  "resume_ok jc d0 st0 i op l w = (\<lambda>(r, l1, w1). (\<exists>op1. resumable jc d0 st0 l1 w1 i op1 \<and> frozen op1 = frozen op) \<and>
     people_kept jc w w1 \<and> same_book l l1 \<and>
     ((\<exists>s. r = Inr s \<and> finished op s) \<and> pw_fault w1 = pw_fault w \<or>
      r = Inl PUnavailable \<and> pw_fault w \<noteq> None \<and> pw_fault w1 = None))"

lemma owner_bound_now:
  assumes "marker_matches w op" and "bound_by (pw_identity w) d op st"
  shows "owner_bound w d op"
proof -
  have "bound (is_file w) (pw_identity w) d (op_profile op)"
    using assms(2) is_file_ours [OF assms(1)] by (auto simp: bound_def bound_by_def)
  then show ?thesis using assms(2) by (auto simp: owner_bound_def effective_get bound_by_def)
qed

lemma frozen_sel:
  assumes "frozen p = frozen q"
  shows "op_id p = op_id q" "op_principal p = op_principal q" "op_profile p = op_profile q"
    "op_provisioner p = op_provisioner q" "op_fingerprint p = op_fingerprint q"
    "op_idempotency_key p = op_idempotency_key q" "op_external p = op_external q"
  using arg_cong [OF assms, of op_id] arg_cong [OF assms, of op_principal] arg_cong [OF assms, of op_profile]
    arg_cong [OF assms, of op_provisioner] arg_cong [OF assms, of op_fingerprint]
    arg_cong [OF assms, of op_idempotency_key] arg_cong [OF assms, of op_external]
  by (simp_all add: frozen_def)

lemma finished_frozen: "frozen p = frozen q \<Longrightarrow> finished p s = finished q s"
  using frozen_sel [of p q] by (simp add: finished_def)

lemma resume_finishes:
  assumes "healthy jc x" and "serializes jc d0 st0 actor x op" and "may_provision actor"
    and "resumable jc d0 st0 l w i op"
  shows "resume_ok jc d0 st0 i op l w (resume_operation x i actor l w)"
  using assms
proof (induction x i actor l w arbitrary: op rule: resume_operation.induct)
  case (1 x i actor l w)
  note r = "1.prems"(4)
  obtain e l1 w1 where t: "resume_turn x i actor l w = (e, l1, w1)"
    by (cases "resume_turn x i actor l w") auto
  show ?case
  proof (cases "op_state op = OsCompleted")
    case True
    then obtain d where d: "store_load jc (pw_identity w) = Inr d" "marker_matches w op"
      "bound_by (pw_identity w) d op (stamp_of l)"
      using r by (auto simp: resumable_def stage_def)
    have "\<exists>s. status_of x op w = Inr s \<and> finished op s"
      using d r True owner_bound_now [OF d(2,3)] "1.prems"(1)
      by (simp add: status_of_def identity_document_def healthy_def finished_def resumable_def)
    moreover have "resume_turn x i actor l w = (Some (status_of x op w), l, w)"
      using r True by (simp add: resume_turn_def resumable_def is_terminal_def)
    ultimately show ?thesis
      using r people_kept_state [of w w jc] by (auto simp: resume_ok_def resume_operation.simps [of x i actor l w]
          same_book_def)
  next
    case False
    have ok: "turn_ok jc d0 st0 i op l w (e, l1, w1)"
      using turn_pending [OF "1.prems"(1,4), of actor] turn_created [OF "1.prems"] False t r
      by (cases "op_state op") (auto simp: resumable_def stage_def)
    then obtain op1 where op1: "resumable jc d0 st0 l1 w1 i op1" "frozen op1 = frozen op" by (auto simp: turn_ok_def)
    show ?thesis
    proof (cases e)
      case (Some v)
      then show ?thesis using ok t by (auto simp: turn_ok_def resume_ok_def resume_operation.simps [of x i actor l w])
    next
      case None
      have "resume_ok jc d0 st0 i op1 l1 w1 (resume_operation x i actor l1 w1)"
        using "1.IH" [OF t [symmetric] None refl "1.prems"(1) _ "1.prems"(3) op1(1)] "1.prems"(2)
          serializes_frozen [OF op1(2) frozen_sel(3) [OF op1(2)]] by blast
      then show ?thesis
        using ok t None op1(2) finished_frozen [OF op1(2)] people_kept_trans
        by (auto simp: turn_ok_def resume_ok_def same_book_def resume_operation.simps [of x i actor l w] split: prod.splits)
    qed
  qed
qed

section \<open>Repeating a request\<close>

lemma resumable_frame:
  assumes "pw_ledger v = pw_ledger w" "pw_identity v = pw_identity w" "pw_profiles v = pw_profiles w"
  shows "resumable jc d0 st0 l v i op = resumable jc d0 st0 l w i op"
proof -
  have "load v = load w" using assms(1) by (rule load_cong)
  moreover have "marker_matches v op = marker_matches w op" using assms(3) by (intro marker_matches_op) simp_all
  then have "stage d0 st0 (pw_identity v) d v op st = stage d0 st0 (pw_identity w) d w op st" for d st
    using assms(2,3) by (simp add: stage_def split: operation_state.splits)
  ultimately show ?thesis using assms(2) by (simp add: resumable_def)
qed

lemma audit_frame:
  "pw_identity (audit x a b c e f g w) = pw_identity w" "pw_profiles (audit x a b c e f g w) = pw_profiles w"
  "pw_fault (audit x a b c e f g w) = pw_fault w"
  by (simp_all add: audit_def Let_def)

lemma admit_kept:
  assumes "admit caller d l now = Inr (actor, p)" and "same_people d d'"
    and "lg_provisioners l' = lg_provisioners l"
  shows "admit caller d' l' now = Inr (actor, p)"
  using assms by (auto simp: admit_def same_people_def split: principal_source.splits sum.splits option.splits if_splits)

lemma admit_may_provision: "admit caller d l now = Inr (actor, p) \<Longrightarrow> may_provision actor"
  by (auto simp: admit_def may_provision_def authorize_capability_Inr
      split: principal_source.splits sum.splits option.splits if_splits)

text \<open>The request is recorded, and its operation can be resumed.\<close>

definition request_operation :: "'j call set \<Rightarrow> validated \<Rightarrow> string \<Rightarrow> operation \<Rightarrow> bool" where
  "request_operation X v pid op \<longleftrightarrow> op_external op = vd_external v \<and> op_principal op = pid \<and>
     op_profile op = vd_profile v \<and> op_fingerprint op = vd_fingerprint v \<and>
     (\<exists>x \<in> X. \<exists>b. px_id_bytes x = Some b \<and> op_id op = hex_bytes b)"

definition recorded ::
  "'j call set \<Rightarrow> 'j codec \<Rightarrow> identity_document \<Rightarrow> ledger \<Rightarrow> string \<Rightarrow> validated \<Rightarrow> string \<Rightarrow> world \<Rightarrow> bool" where
  "recorded X jc d l scoped v pid w \<longleftrightarrow> (\<exists>l1 i op. resumable jc d (stamp_of l) l1 w i op \<and>
     lg_provisioners l1 = lg_provisioners l \<and> bt_get (lg_keys l1) scoped = Some i \<and>
     request_operation X v pid op \<and>
     (\<exists>d1. store_load jc (pw_identity w) = Inr d1 \<and> same_people d d1))"

text \<open>How a call for a recorded request ends: finished, or stopped by the injected crash.\<close>

definition ends_well :: "string \<Rightarrow> validated \<Rightarrow> bool \<Rightarrow> fault option \<Rightarrow> provisioning_error + provision_outcome \<Rightarrow> bool" where
  "ends_well pid v again f r \<longleftrightarrow>
     (\<exists>s. r = Inr \<lparr>po_replayed = again, po_status = s\<rparr> \<and> os_state s = OsCompleted \<and> os_owner_bound s \<and>
        os_principal_id s = pid \<and> os_profile_id s = vd_profile v \<and> os_failure s = None) \<or>
     (r = Inl PUnavailable \<and> f \<noteq> None)"

lemma resumed_ends_well:
  assumes ok: "resume_ok jc d (stamp_of l) i op l1 w (r, l2, w2)" and r: "resumable jc d (stamp_of l) l1 w i op"
    and b: "lg_provisioners l1 = lg_provisioners l" "bt_get (lg_keys l1) scoped = Some i"
      "request_operation X v pid op" "store_load jc (pw_identity w) = Inr d1" "same_people d d1"
  shows "recorded X jc d l scoped v pid w2"
    and "r = Inl e \<Longrightarrow> e = PUnavailable \<and> pw_fault w \<noteq> None"
    and "r = Inr s \<Longrightarrow> finished op s"
proof -
  obtain op2 where o: "resumable jc d (stamp_of l) l2 w2 i op2" "frozen op2 = frozen op" using ok by (auto simp: resume_ok_def)
  have "people_kept jc w w2" using ok by (simp add: resume_ok_def)
  then have "\<exists>d2. store_load jc (pw_identity w2) = Inr d2 \<and> same_people d d2"
    using b(4,5) same_people_trans unfolding people_kept_def by blast
  then show "recorded X jc d l scoped v pid w2"
    unfolding recorded_def using ok o b(1-3) frozen_sel [OF o(2)]
    by (intro exI [of _ l2] exI [of _ i] exI [of _ op2]) (auto simp: resume_ok_def same_book_def request_operation_def)
  show "r = Inl e \<Longrightarrow> e = PUnavailable \<and> pw_fault w \<noteq> None" "r = Inr s \<Longrightarrow> finished op s"
    using ok by (auto simp: resume_ok_def)
qed

lemma recorded_frame:
  "pw_ledger w' = pw_ledger w \<Longrightarrow> pw_identity w' = pw_identity w \<Longrightarrow> pw_profiles w' = pw_profiles w \<Longrightarrow>
     recorded X jc d l scoped v pid w' = recorded X jc d l scoped v pid w"
  by (simp add: recorded_def resumable_frame [of w' w])

lemma recorded_fault:
  "recorded X jc d l scoped v pid (w\<lparr>pw_fault := f\<rparr>) = recorded X jc d l scoped v pid w"
  by (rule recorded_frame) simp_all

lemma recorded_audit: "recorded X jc d l scoped v pid w \<Longrightarrow> recorded X jc d l scoped v pid (audit x a b c e f g w)"
  by (rule recorded_frame [THEN iffD2]) (simp_all add: audit_frame frame_simps)

lemma provision_world:
  assumes "provision_body x caller key request w = (r, about, w2)" and "px_lock x"
  shows "fst (provision x caller key request w) = r \<and>
    (\<exists>a b c e f g. snd (provision x caller key request w) = audit x a b c e f g w2)"
  using assms by (cases about) (simp add: provision_def, blast)

lemma provision_again:
  assumes h: "healthy jc x" "\<And>op. request_operation X v pid op \<Longrightarrow> serializes jc d (stamp_of l) actor x op"
      "px_sha x = sha"
    and a: "admit caller d l (px_now x) = Inr (actor, p)"
    and q: "valid_key key" "validate_request sha request = Inr v" "\<not> outside_credential actor (vd_profile v)"
    and r: "recorded X jc d l (scoped_key (pv_principal p) key) v pid w"
  shows "recorded X jc d l (scoped_key (pv_principal p) key) v pid (snd (provision x caller key request w)) \<and>
     ends_well pid v True (pw_fault w) (fst (provision x caller key request w))"
proof -
  obtain l1 i op d1 where o: "resumable jc d (stamp_of l) l1 w i op" "lg_provisioners l1 = lg_provisioners l"
    "bt_get (lg_keys l1) (scoped_key (pv_principal p) key) = Some i" "request_operation X v pid op"
    "store_load jc (pw_identity w) = Inr d1" "same_people d d1"
    using r by (auto simp: recorded_def)
  have a1: "admit caller d1 l1 (px_now x) = Inr (actor, p)" using a o(6,2) by (rule admit_kept)
  obtain u l2 w2 where res: "resume_operation x i actor l1 w = (u, l2, w2)"
    by (cases "resume_operation x i actor l1 w") auto
  have ok: "resume_ok jc d (stamp_of l) i op l1 w (u, l2, w2)"
    using resume_finishes [OF h(1) h(2) [OF o(4)] admit_may_provision [OF a] o(1)] res by simp
  note e = resumed_ends_well [OF ok o]
  have rq: "op_fingerprint op = vd_fingerprint v" "op_principal op = pid" "op_profile op = vd_profile v"
    using o(4) by (simp_all add: request_operation_def)
  have l: "load w = Inr l1" "bt_get (lg_operations l1) i = Some op" using o(1) by (simp_all add: resumable_def)
  have "\<exists>about. provision_body x caller key request w =
      (map_sum id (\<lambda>s. \<lparr>po_replayed = True, po_status = s\<rparr>) u, about, w2)"
    using h(1,3) o(3,5) rq(1) a1 q l res
    by (cases u) (simp_all add: provision_body_def identity_document_def healthy_def Let_def)
  then obtain about where body: "provision_body x caller key request w =
      (map_sum id (\<lambda>s. \<lparr>po_replayed = True, po_status = s\<rparr>) u, about, w2)" by blast
  have "ends_well pid v True (pw_fault w) (map_sum id (\<lambda>s. \<lparr>po_replayed = True, po_status = s\<rparr>) u)"
    using e(2,3) rq by (cases u) (auto simp: ends_well_def finished_def)
  then show ?thesis
    using provision_world [OF body] h(1) e(1) recorded_audit by (auto simp: healthy_def)
qed

text \<open>A request the service would accept: everything \<open>begin\<close> checks, and a stamp that agrees with
  the identity store.\<close>

definition acceptable ::
  "'j codec \<Rightarrow> (string \<Rightarrow> nat list) \<Rightarrow> world \<Rightarrow> identity_document \<Rightarrow> ledger \<Rightarrow> provisioner \<Rightarrow> string \<Rightarrow> validated
    \<Rightarrow> string \<Rightarrow> bool" where
  "acceptable jc sha w d l p key v pid \<longleftrightarrow> load w = Inr l \<and>
     store_load jc (pw_identity w) = Inr d \<and> idem_inv d \<and>
     bt_get (lg_keys l) (scoped_key (pv_principal p) key) = None \<and> begin_error w d l p v = None \<and>
     resolve_principal sha d (vd_external v) = Inr pid \<and>
     (case lg_continuity l of
        None \<Rightarrow> True
      | Some c \<Rightarrow> lc_sequence_seen c < u64_max \<and>
          (case id_continuity d of
             None \<Rightarrow> lc_sequence_seen c = 0
           | Some m \<Rightarrow> pc_continuity_id m = lc_continuity_id c \<and> pc_sequence m = lc_sequence_seen c))"

text \<open>The random bytes of a call make an id that neither store knows.\<close>

definition fresh_id :: "'j call \<Rightarrow> identity_document \<Rightarrow> ledger \<Rightarrow> bool" where
  "fresh_id x d l \<longleftrightarrow> (\<exists>b m. px_id_bytes x = Some b \<and> px_marker_bytes x = Some m \<and>
     list_all (\<lambda>v. v < 256) m \<and> bt_get (lg_operations l) (hex_bytes b) = None \<and>
     bt_get (id_idempotency d) (''provisioning:'' @ hex_bytes b) = None)"

lemma acceptable_advance:
  assumes "acceptable jc sha w d l p key v pid"
  shows "case stamp_of l of None \<Rightarrow> True | Some s \<Rightarrow> \<not> isl (advance s d i ContinuityBind)"
  using assms by (auto simp: acceptable_def stamp_of_def advance_def Let_def checked_add64_def isl_def
      split: option.splits)

lemma load_schema: "load w = Inr l \<Longrightarrow> lg_schema l = ledger_schema_version"
  by (auto simp: load_def empty_ledger_def split: ledger_file.splits if_splits)

lemma begin_recorded:
  assumes h: "healthy jc x" "px_sha x = sha" and ok: "acceptable jc sha w d l p key v pid"
    and f: "fresh_id x d l" and v: "validate_request sha request = Inr v"
    and X: "x \<in> X"
  obtains i l1 op where
    "begin_operation x d p key v l w = (Inr i, l1, w\<lparr>pw_ledger := StoredLedger l1\<rparr>)"
    "resumable jc d (stamp_of l) l1 (w\<lparr>pw_ledger := StoredLedger l1\<rparr>) i op"
    "lg_provisioners l1 = lg_provisioners l" "bt_get (lg_keys l1) (scoped_key (pv_principal p) key) = Some i"
    "request_operation X v pid op"
proof -
  note a = ok [unfolded acceptable_def]
  obtain b m where b: "px_id_bytes x = Some b" "px_marker_bytes x = Some m" "list_all (\<lambda>v. v < 256) m"
    "bt_get (lg_operations l) (hex_bytes b) = None"
    "bt_get (id_idempotency d) (''provisioning:'' @ hex_bytes b) = None"
    using f by (auto simp: fresh_id_def)
  let ?i = "hex_bytes b"
  let ?op = "new_operation ?i (pv_principal p) key pid v (hex_bytes m) (px_now x)"
  let ?l = "(record_operation ?op l)\<lparr>lg_generation := lg_generation l + 1\<rparr>"
  let ?w = "w\<lparr>pw_ledger := StoredLedger ?l\<rparr>"
  have g: "lg_generation (record_operation ?op l) = lg_generation l" by (simp add: record_operation_def)
  have beg: "begin_operation x d p key v l w = (Inr ?i, ?l, ?w)"
    using a b(1,2,4) h by (simp add: begin_operation_def random_hex_def save_healthy g)
  have sel: "op_id ?op = ?i" "op_external ?op = vd_external v" "op_principal ?op = pid"
    "op_profile ?op = vd_profile v" "op_marker ?op = hex_bytes m" "op_state ?op = OsPending"
    "op_template ?op = vd_template v" "op_failure ?op = None" "op_fingerprint ?op = vd_fingerprint v"
    by (simp_all add: new_operation_def)
  have t: "vd_template v = ''assistant''"
    using v by (auto simp: validate_request_def templates_known_def split: if_splits sum.splits)
  have "same_stamp (stamp_of ?l) (stamp_of l)"
    by (cases "lg_continuity l") (simp_all add: same_stamp_def stamp_of_def record_operation_def)
  moreover have "bindable d ?op (stamp_of l)"
  proof -
    have e: "begin_error w d l p v = None" using a by blast
    have "bt_get (id_ownership d) (vd_profile v) = None" "ei_issuer (vd_external v) \<in> id_trusted_issuers d"
      using e by (auto simp: begin_error_def profile_known_def split: if_splits)
    moreover have "resolve_principal sha d (vd_external v) = Inr pid" using a by blast
    ultimately show ?thesis
      using b(5) acceptable_advance [OF ok, of ?i] unfolding bindable_def sel
      by (auto simp: resolve_principal_def split: option.splits sum.splits if_splits)
  qed
  ultimately have bind: "bindable d ?op (stamp_of ?l)" "same_stamp (stamp_of ?l) (stamp_of l)"
    using bindable_same by blast+
  have rq: "request_operation X v pid ?op" using X b(1) sel by (auto simp: request_operation_def)
  have "bt_get (pw_profiles w) (vd_profile v) = None"
    using a by (auto simp: begin_error_def profile_known_def split: if_splits)
  moreover have "\<not> stamped_retired l" using a by (auto simp: begin_error_def split: if_splits)
  moreover have "trim (hex_bytes m) = hex_bytes m" using b(3) by (intro trim_lower_hex hex_bytes_lower)
  moreover have "lg_schema l = ledger_schema_version" using a load_schema by blast
  ultimately have "resumable jc d (stamp_of l) ?l ?w ?i ?op"
    using a t bind unfolding resumable_def sel stage_def
    by (simp add: load_def record_operation_def bt_simps stamped_retired_def sel)
  then show thesis
    using that [OF beg _ _ _ rq] by (simp add: record_operation_def bt_simps new_operation_def)
qed

lemma provision_first:
  assumes h: "healthy jc x" "\<And>op. request_operation X v pid op \<Longrightarrow> serializes jc d (stamp_of l) actor x op"
      "px_sha x = sha"
    and a: "admit caller d l (px_now x) = Inr (actor, p)"
    and q: "valid_key key" "validate_request sha request = Inr v" "\<not> outside_credential actor (vd_profile v)"
    and ok: "acceptable jc sha w d l p key v pid" and f: "fresh_id x d l" "x \<in> X"
  shows "recorded X jc d l (scoped_key (pv_principal p) key) v pid (snd (provision x caller key request w)) \<and>
     ends_well pid v False (pw_fault w) (fst (provision x caller key request w))"
proof -
  note c = ok [unfolded acceptable_def]
  obtain i l1 op where b: "begin_operation x d p key v l w = (Inr i, l1, w\<lparr>pw_ledger := StoredLedger l1\<rparr>)"
    "resumable jc d (stamp_of l) l1 (w\<lparr>pw_ledger := StoredLedger l1\<rparr>) i op"
    "lg_provisioners l1 = lg_provisioners l" "bt_get (lg_keys l1) (scoped_key (pv_principal p) key) = Some i"
    "request_operation X v pid op"
    using begin_recorded [OF h(1,3) ok f(1) q(2) f(2)] by blast
  let ?w = "w\<lparr>pw_ledger := StoredLedger l1\<rparr>"
  have people: "same_people d d" by (simp add: same_people_def)
  have st: "provision_body x caller key request w = (case crash_point PendingRecorded ?w of
      (Some e, w2) \<Rightarrow> (Inl e, (Some (vd_profile v), Some i), w2)
    | (None, w2) \<Rightarrow> (case resume_operation x i actor l1 w2 of
        (Inl e, _, w3) \<Rightarrow> (Inl e, (Some (vd_profile v), Some i), w3)
      | (Inr s, _, w3) \<Rightarrow> (Inr \<lparr>po_replayed = False, po_status = s\<rparr>, (Some (vd_profile v), Some i), w3)))"
    using h(1,3) c a q b(1) by (simp add: provision_body_def identity_document_def healthy_def Let_def)
  show ?thesis
  proof (cases "pw_fault w = Some PendingRecorded")
    case True
    let ?v = "?w\<lparr>pw_fault := None\<rparr>"
    have body: "provision_body x caller key request w = (Inl PUnavailable, (Some (vd_profile v), Some i), ?v)"
      using st True by (simp add: crash_point_def)
    have "resumable jc d (stamp_of l) l1 ?v i op" using b(2) resumable_frame [of ?v ?w jc d "stamp_of l" l1 i op] by simp
    then have "recorded X jc d l (scoped_key (pv_principal p) key) v pid ?v"
      using b(3-5) c people by (auto simp: recorded_def)
    then show ?thesis
      using provision_world [OF body] h(1) recorded_audit True by (auto simp: healthy_def ends_well_def)
  next
    case False
    obtain u l2 w2 where res: "resume_operation x i actor l1 ?w = (u, l2, w2)"
      by (cases "resume_operation x i actor l1 ?w") auto
    have ro: "resume_ok jc d (stamp_of l) i op l1 ?w (u, l2, w2)"
      using resume_finishes [OF h(1) h(2) [OF b(5)] admit_may_provision [OF a] b(2)] res by simp
    have "store_load jc (pw_identity ?w) = Inr d" using c by simp
    note e = resumed_ends_well [OF ro b(2-5) this people]
    have body: "provision_body x caller key request w =
        (map_sum id (\<lambda>s. \<lparr>po_replayed = False, po_status = s\<rparr>) u, (Some (vd_profile v), Some i), w2)"
      using st False res by (cases u) (simp_all add: crash_point_def)
    have "ends_well pid v False (pw_fault w) (map_sum id (\<lambda>s. \<lparr>po_replayed = False, po_status = s\<rparr>) u)"
      using e(2,3) b(5) by (cases u) (auto simp: ends_well_def finished_def request_operation_def)
    then show ?thesis
      using provision_world [OF body] h(1) e(1) recorded_audit by (auto simp: healthy_def)
  qed
qed

text \<open>Attempts of one request, each stopped where the injected fault says.\<close>

definition attempt ::
  "caller \<Rightarrow> string \<Rightarrow> provision_request \<Rightarrow> world \<Rightarrow> 'j call \<times> fault \<Rightarrow> world" where
  "attempt caller key request w a =
     snd (provision (fst a) caller key request (w\<lparr>pw_fault := Some (snd a)\<rparr>))"

lemma attempts_recorded:
  assumes "\<And>x op. x \<in> X \<Longrightarrow> request_operation X v pid op \<Longrightarrow> serializes jc d (stamp_of l) actor x op"
    and "valid_key key" and "validate_request sha request = Inr v"
    and "\<not> outside_credential actor (vd_profile v)"
    and "\<And>x. x \<in> fst ` set as \<Longrightarrow> x \<in> X \<and> healthy jc x \<and> px_sha x = sha \<and> admit caller d l (px_now x) = Inr (actor, p)"
    and "recorded X jc d l (scoped_key (pv_principal p) key) v pid w"
  shows "recorded X jc d l (scoped_key (pv_principal p) key) v pid (foldl (attempt caller key request) w as)"
  using assms(5,6)
proof (induction as arbitrary: w)
  case (Cons a as)
  let ?v = "w\<lparr>pw_fault := Some (snd a)\<rparr>"
  have "recorded X jc d l (scoped_key (pv_principal p) key) v pid ?v"
    using Cons.prems(2) by (simp add: recorded_fault)
  then have "recorded X jc d l (scoped_key (pv_principal p) key) v pid (attempt caller key request w a)"
    using provision_again [OF _ assms(1) _ _ assms(2-4)] Cons.prems(1) [of "fst a"] unfolding attempt_def by auto
  then show ?case using Cons.IH Cons.prems(1) by simp
qed simp

lemma acceptable_fault: "acceptable jc sha (w\<lparr>pw_fault := f\<rparr>) d l p key v pid = acceptable jc sha w d l p key v pid"
proof -
  have "load (w\<lparr>pw_fault := f\<rparr>) = load w" by (rule load_cong) simp
  moreover have "begin_error (w\<lparr>pw_fault := f\<rparr>) d l p v = begin_error w d l p v"
    by (simp add: begin_error_def profile_known_def)
  ultimately show ?thesis by (simp add: acceptable_def)
qed

end
