(* ===== verification/ProvisioningProperties.thy ===== *)
theory ProvisioningProperties
  imports ProvisioningRecovery
begin

text \<open>
  The properties of profile provisioning: every history of calls and crashes refines the state
  diagram and keeps the ledger sound, an interrupted request is finished by its repetition, and
  what a withdrawn provisioner leaves behind.
\<close>

section \<open>Every history\<close>

lemma history_reaches:
  assumes "load w = Inr l" and "ledger_inv l"
  shows "\<exists>l'. load (foldl service_step w cs) = Inr l' \<and> ledger_inv l' \<and> follows l l'"
  using history_keeps [of w cs] assms by (auto simp: journal.keeps_def sound_step_def)

text \<open>
  C9. Every history of the service implements the documented state diagram. Whatever calls,
  crashes and failed writes follow, and whatever the operator and other processes do to the
  identity store and the profile directory in between: no operation is lost or changes its owner,
  its request, its principal or its profile, each moves only along the diagram from pending to
  completed, failed or revoked, an idempotency key names the same operation for ever, and the
  stamp keeps its harness, never forgets its retirement and never sees less. Once the harness is
  retired no operation is recorded and none is created or bound any more.
\<close>

theorem histories_follow_the_diagram:
  assumes "load w = Inr l" and "ledger_inv l"
  shows "\<exists>l'. load (foldl service_step w cs) = Inr l' \<and> lg_generation l \<le> lg_generation l' \<and>
    (\<forall>i op. bt_get (lg_operations l) i = Some op \<longrightarrow>
       (\<exists>op'. bt_get (lg_operations l') i = Some op' \<and> frozen op' = frozen op \<and>
          (diagram (stamped_retired l))\<^sup>*\<^sup>* (op_state op) (op_state op'))) \<and>
    (\<forall>k i. bt_get (lg_keys l) k = Some i \<longrightarrow> bt_get (lg_keys l') k = Some i) \<and>
    (\<forall>c. lg_continuity l = Some c \<longrightarrow> (\<exists>c'. lg_continuity l' = Some c' \<and>
       lc_harness_id c' = lc_harness_id c \<and> lc_continuity_id c' = lc_continuity_id c \<and>
       (lc_retired c \<longrightarrow> lc_retired c') \<and> lc_sequence_seen c \<le> lc_sequence_seen c' \<and>
       lc_generation_seen c \<le> lc_generation_seen c')) \<and>
    (stamped_retired l \<longrightarrow> dom (bt_get (lg_operations l')) \<subseteq> dom (bt_get (lg_operations l)))"
proof -
  obtain l' where l': "load (foldl service_step w cs) = Inr l'" "follows l l'"
    using history_reaches [OF assms] by blast
  have "\<exists>c'. lg_continuity l' = Some c' \<and> lc_harness_id c' = lc_harness_id c \<and>
      lc_continuity_id c' = lc_continuity_id c \<and> (lc_retired c \<longrightarrow> lc_retired c') \<and>
      lc_sequence_seen c \<le> lc_sequence_seen c' \<and> lc_generation_seen c \<le> lc_generation_seen c'"
    if "lg_continuity l = Some c" for c
    using l'(2) that unfolding follows_def stamp_follows_def by blast
  then show ?thesis using l' unfolding follows_def moves_def by blast
qed

definition sample_world :: world where
  "sample_world = \<lparr>pw_ledger = NoLedgerFile, pw_identity = new_store, pw_profiles = [],
     pw_staging = [], pw_quarantine = [], pw_audit = [], pw_audit_old = [], pw_fault = None\<rparr>"

text \<open>A call whose files and random source all work.\<close>

definition sample_call :: "identity_document \<Rightarrow> identity_document call" where
  "sample_call d = \<lparr>px_codec = one_document_codec d, px_sha = (\<lambda>_. replicate 32 7), px_now = 100,
     px_lock = True, px_save = (\<lambda>_. SaveOk), px_id_bytes = Some (replicate 16 1),
     px_marker_bytes = Some (replicate 16 2),
     px_materialize = (\<lambda>_. \<lparr>mi_clear = True, mi_staged = True, mi_left_staging = False, mi_parent = True,
       mi_appears = None, mi_rename = True, mi_replaced = None\<rparr>),
     px_tx = (\<lambda>_. \<lparr>io_quiet_audit = True, io_lock = None, io_audit = None, io_previous = None,
       io_state = None\<rparr>),
     px_bind = (\<lambda>_. BindOk (replicate 16 3)), px_unlink = (\<lambda>_. True), px_quarantine = (\<lambda>_. True),
     px_cleared = (\<lambda>_. True), px_staging_read = True, px_quarantine_read = True,
     px_profiles_read = True, px_audit = True, px_line = (\<lambda>_. 100)\<rparr>"

definition sample_operator :: caller where
  "sample_operator = caller_local_operator LocalProcess"

definition sample_history :: "(identity_document call \<times> service_call) list" where
  "sample_history = [(sample_call empty_document, CallInitialize sample_operator ''hns_abcdefgh''),
     (sample_call empty_document, CallRetire sample_operator ''hns_abcdefgh'')]"

theorem histories_follow_the_diagram_witness:
  "\<exists>l'. load (foldl service_step sample_world sample_history) = Inr l' \<and>
     lg_generation empty_ledger \<le> lg_generation l'"
  using histories_follow_the_diagram [of sample_world empty_ledger sample_history]
    ledger_inv_empty by (auto simp: load_def sample_world_def)

text \<open>
  C10. From an installation without a ledger, after any history: an idempotency key names exactly
  one operation, the one its provisioner recorded under it, so a request is recorded once; two
  operations that have not failed never share a profile; an operation carries a reason exactly
  when it failed; and only validated profiles of known templates are recorded, never a reserved
  one.
\<close>

theorem the_ledger_stays_sound:
  assumes "pw_ledger w = NoLedgerFile"
  shows "\<exists>l. load (foldl service_step w cs) = Inr l \<and>
    (\<forall>i op. bt_get (lg_operations l) i = Some op \<longrightarrow> op_id op = i \<and>
       bt_get (lg_keys l) (scoped_key (op_provisioner op) (op_idempotency_key op)) = Some i \<and>
       (op_failure op = None \<longleftrightarrow> op_state op \<noteq> OsFailed) \<and> op_template op \<in> set templates_known \<and>
       valid_id (op_profile op) \<and> op_profile op \<noteq> ''default'') \<and>
    (\<forall>k i. bt_get (lg_keys l) k = Some i \<longrightarrow> (\<exists>op. bt_get (lg_operations l) i = Some op \<and>
       k = scoped_key (op_provisioner op) (op_idempotency_key op))) \<and>
    (\<forall>i j p q. bt_get (lg_operations l) i = Some p \<and> bt_get (lg_operations l) j = Some q \<and>
       op_provisioner p = op_provisioner q \<and> op_idempotency_key p = op_idempotency_key q \<longrightarrow> i = j) \<and>
    (\<forall>i j p q. bt_get (lg_operations l) i = Some p \<and> bt_get (lg_operations l) j = Some q \<and>
       op_state p \<noteq> OsFailed \<and> op_state q \<noteq> OsFailed \<and> op_profile p = op_profile q \<longrightarrow> i = j)"
proof -
  have "load w = Inr empty_ledger" using assms by (simp add: load_def)
  then obtain l where l: "load (foldl service_step w cs) = Inr l" "ledger_inv l"
    using history_reaches ledger_inv_empty by blast
  note i = ledger_invD [OF l(2)]
  have ok: "op_id op = i" "bt_get (lg_keys l) (scoped_key (op_provisioner op) (op_idempotency_key op)) = Some i"
    "op_failure op = None \<longleftrightarrow> op_state op \<noteq> OsFailed" "op_template op \<in> set templates_known"
    "valid_id (op_profile op)" "op_profile op \<noteq> ''default''" if "bt_get (lg_operations l) i = Some op" for i op
    using i(4) [OF that] by (simp_all add: operation_ok_def reserved_profiles_def)
  have "i = j" if "bt_get (lg_operations l) i = Some p" "bt_get (lg_operations l) j = Some q"
    "op_provisioner p = op_provisioner q" "op_idempotency_key p = op_idempotency_key q" for i j p q
    using ok(2) [OF that(1)] ok(2) [OF that(2)] that(3,4) by simp
  then show ?thesis
    using l(1) ok i(5,6) by (intro exI [of _ l] conjI allI impI; (elim conjE)?) blast+
qed

theorem the_ledger_stays_sound_witness:
  "\<exists>l. load (foldl service_step sample_world sample_history) = Inr l \<and>
     (\<forall>i op. bt_get (lg_operations l) i = Some op \<longrightarrow> op_id op = i)"
  using the_ledger_stays_sound [of sample_world sample_history]
  by (auto simp: sample_world_def)

text \<open>
  C11. An interrupted request is finished by its repetition. A request the service accepts may be
  attempted any number of times, each attempt crashing at any of the points of the operation, with
  other bytes of entropy and at other times: the next attempt that is not interrupted succeeds,
  under the same idempotency key, as a replay, and ends with the operation completed, the user of
  the request as its principal and the profile effectively owned by that user. Without an
  earlier attempt it does so at once.
\<close>

theorem interrupted_requests_are_finished:
  assumes "X = insert y (fst ` set as)" and "valid_key key" and "validate_request sha request = Inr v"
    and "\<not> outside_credential actor (vd_profile v)" and "acceptable jc sha w d l p key v pid"
    and "\<forall>x \<in> X. healthy jc x \<and> px_sha x = sha \<and> admit caller d l (px_now x) = Inr (actor, p) \<and>
      fresh_id x d l \<and> (\<forall>op. request_operation X v pid op \<longrightarrow> serializes jc d (stamp_of l) actor x op)"
  shows "\<exists>s. fst (provision y caller key request ((foldl (attempt caller key request) w as)\<lparr>pw_fault := None\<rparr>))
      = Inr \<lparr>po_replayed = (as \<noteq> []), po_status = s\<rparr> \<and>
    os_state s = OsCompleted \<and> os_owner_bound s \<and> os_principal_id s = pid \<and>
    os_profile_id s = vd_profile v \<and> os_failure s = None"
proof -
  have y: "healthy jc y" "px_sha y = sha" "admit caller d l (px_now y) = Inr (actor, p)" "fresh_id y d l" "y \<in> X"
    using assms(6) by (simp_all add: assms(1))
  have ser: "serializes jc d (stamp_of l) actor x op" if "x \<in> X" "request_operation X v pid op" for x op
    using assms(6) that by blast
  let ?rec = "recorded X jc d l (scoped_key (pv_principal p) key) v pid"
  show ?thesis
  proof (cases as)
    case Nil
    have "acceptable jc sha (w\<lparr>pw_fault := None\<rparr>) d l p key v pid" using assms(5) by (simp add: acceptable_fault)
    from provision_first [OF y(1) ser [OF y(5)] y(2,3) assms(2-4) this y(4,5)] show ?thesis
      using Nil by (auto simp: ends_well_def)
  next
    case (Cons a rest)
    have a: "fst a \<in> X" "healthy jc (fst a)" "px_sha (fst a) = sha"
      "admit caller d l (px_now (fst a)) = Inr (actor, p)" "fresh_id (fst a) d l"
      using assms(6) Cons by (simp_all add: assms(1))
    have "acceptable jc sha (w\<lparr>pw_fault := Some (snd a)\<rparr>) d l p key v pid"
      using assms(5) by (simp add: acceptable_fault)
    then have first: "?rec (attempt caller key request w a)"
      using provision_first [OF a(2) ser [OF a(1)] a(3,4) assms(2-4) _ a(5,1)] unfolding attempt_def by blast
    have "x \<in> X \<and> healthy jc x \<and> px_sha x = sha \<and> admit caller d l (px_now x) = Inr (actor, p)"
      if "x \<in> fst ` set rest" for x
    proof -
      have "x \<in> X" using that Cons by (simp add: assms(1))
      then show ?thesis using assms(6) by blast
    qed
    from attempts_recorded [OF ser assms(2-4) this first]
    have "?rec (foldl (attempt caller key request) (attempt caller key request w a) rest)" .
    then have "?rec ((foldl (attempt caller key request) w as)\<lparr>pw_fault := None\<rparr>)"
      using Cons by (simp add: recorded_fault)
    from provision_again [OF y(1) ser [OF y(5)] y(2,3) assms(2-4) this] show ?thesis
      using Cons by (auto simp: ends_well_def)
  qed
qed

section \<open>Repetition\<close>

text \<open>An installation with one provisioner, its credential and an external user that it knows.\<close>

definition site_external :: external_identity where
  "site_external = \<lparr>ei_issuer = ''https://id'', ei_subject = ''ana''\<rparr>"

definition site_credential :: credential_record where
  "site_credential = \<lparr>cr_key_id = ''k'', cr_principal = ''site'', cr_role = Operator, cr_verifier = ''v'',
     cr_restriction = \<lparr>rs_capabilities = Some {Provision}, rs_profiles = None\<rparr>, cr_created = 1,
     cr_revoked = None, cr_expires = None, cr_replaces = None\<rparr>"

definition site_document :: identity_document where
  "site_document = empty_document\<lparr>id_generation := 3,
     id_principals := [(''ana'', \<lparr>pp_id = ''ana'', pp_role = User, pp_status = Active, pp_created = 1,
         pp_updated = 1, pp_external = Some site_external\<rparr>),
       (''site'', \<lparr>pp_id = ''site'', pp_role = Operator, pp_status = Active, pp_created = 1,
         pp_updated = 1, pp_external = None\<rparr>)],
     id_trusted_issuers := {''https://id''}, id_credentials := [(''k'', site_credential)]\<rparr>"

definition site_provisioner :: provisioner where
  "site_provisioner = \<lparr>pv_principal = ''site'', pv_issuers = {''https://id''},
     pv_templates = {''assistant''}, pv_max_profiles = 5, pv_created = 1, pv_revoked = None\<rparr>"

definition site_ledger :: ledger where
  "site_ledger = empty_ledger\<lparr>lg_provisioners := [(''site'', site_provisioner)]\<rparr>"

definition site_caller :: caller where
  "site_caller = \<lparr>ca_principal = \<lparr>pr_id = ''site'', pr_role = Operator, pr_source = Credential ''k''\<rparr>,
     ca_restriction = \<lparr>rs_capabilities = Some {Provision}, rs_profiles = None\<rparr>\<rparr>"

definition site_request :: provision_request where
  "site_request = \<lparr>rq_issuer = ''https://id'', rq_subject = ''ana'', rq_profile_id = ''lab'',
     rq_display_name = ''Lab'', rq_template = ''assistant''\<rparr>"

text \<open>The document that the bind commits, and a codec for it and the one before.\<close>

definition site_fingerprint :: string where
  "site_fingerprint = hex_bytes (replicate 32 7)"

definition bound_site :: identity_document where
  "bound_site = site_document\<lparr>id_generation := 4, id_ownership := [(''lab'', new_ownership ''ana'')],
     id_bindings := [(''lab'', hex_bytes (replicate 16 3))],
     id_idempotency := [(''provisioning:'' @ hex_bytes (replicate 16 1),
       \<lparr>ie_fingerprint = site_fingerprint, ie_generation = 4, ie_at = 100\<rparr>)]\<rparr>"

definition site_codec :: "identity_document codec" where
  "site_codec = \<lparr>jc_parse = (\<lambda>b. if b = ''d'' then Some site_document
       else if b = ''e'' then Some bound_site else None),
     jc_schema = (\<lambda>d. Some (id_schema d)), jc_document = Some,
     jc_print = (\<lambda>d. if d = site_document then Some ''d'' else if d = bound_site then Some ''e'' else None)\<rparr>"

definition site_call :: "identity_document call" where
  "site_call = (sample_call empty_document)\<lparr>px_codec := site_codec\<rparr>"

definition site_world :: world where
  "site_world = sample_world\<lparr>pw_ledger := StoredLedger site_ledger,
     pw_identity := new_store\<lparr>is_state := Bytes ''d''\<rparr>\<rparr>"

definition site_validated :: validated where
  "site_validated = \<lparr>vd_external = site_external, vd_profile = ''lab'', vd_display_name = ''Lab'',
     vd_template = ''assistant'', vd_fingerprint = site_fingerprint\<rparr>"

lemma site_codec_ok: "codec_ok site_codec"
  by (auto simp: codec_ok_def site_codec_def parse_document_def Let_def bound_site_def site_document_def
      empty_document_def split: if_splits)

lemma site_validates: "validate_request (\<lambda>_. replicate 32 7) site_request = Inr site_validated"
  by (simp add: validate_request_def site_request_def site_validated_def site_external_def
      site_fingerprint_def fingerprint_def, code_simp)

lemma site_admits: "admit site_caller site_document site_ledger 100 = Inr (site_caller, site_provisioner)"
  by code_simp

lemma site_acceptable:
  "acceptable site_codec (\<lambda>_. replicate 32 7) site_world site_document site_ledger site_provisioner
     ''request-1'' site_validated ''ana''"
proof -
  have "load site_world = Inr site_ledger"
    by (simp add: load_def site_world_def site_ledger_def empty_ledger_def)
  moreover have "store_load site_codec (pw_identity site_world) = Inr site_document"
    by (simp add: site_world_def store_load_def parse_document_def site_codec_def Let_def
        site_document_def empty_document_def)
  moreover have "idem_inv site_document"
    by (simp add: idem_inv_def site_document_def empty_document_def bt_wf_def)
  moreover have "begin_error site_world site_document site_ledger site_provisioner site_validated = None"
    by (simp add: begin_error_def site_ledger_def empty_ledger_def stamped_retired_def site_validated_def
        site_external_def site_provisioner_def site_document_def empty_document_def live_operations_def
        max_operations_def profile_known_def site_world_def sample_world_def)
  moreover have "resolve_principal (\<lambda>_. replicate 32 7) site_document (vd_external site_validated) = Inr ''ana''"
    by (simp add: resolve_principal_def external_principal_def site_document_def site_validated_def)
  ultimately show ?thesis by (simp add: acceptable_def site_ledger_def empty_ledger_def)
qed

lemma site_healthy: "healthy site_codec site_call"
  by (simp add: healthy_def site_call_def sample_call_def working_files_def working_tx_def list_all_iff)

lemma site_fresh: "fresh_id site_call site_document site_ledger"
  by (simp add: fresh_id_def site_call_def sample_call_def site_document_def site_ledger_def
      empty_document_def empty_ledger_def list_all_iff)

lemma site_binds:
  assumes "op_external q = site_external" "op_principal q = ''ana''" "op_profile q = ''lab''"
    "op_id q = hex_bytes (replicate 16 1)" "op_fingerprint q = site_fingerprint" and "is_file w ''lab''"
  shows "bound_document site_call site_caller q None w site_document = bound_site"
proof -
  have p: "te_profile_exists (tx_env_of site_call site_caller w) ''lab''" using assms(6) by (simp add: tx_env_of_def)
  have "run_change (tx_env_of site_call site_caller w) (bind_change (BindOk (replicate 16 3)) q None site_document)
      \<lparr>tx_doc = site_document, tx_events = [], tx_markers = m\<rparr> =
    run_change (tx_env_of site_call site_caller w) []
     (event OwnerAssigned (Some ''lab'') (Some ''ana'') None
       (on_doc (\<lambda>d. d\<lparr>id_bindings := bt_insert ''lab'' (hex_bytes (replicate 16 3)) (id_bindings d)\<rparr>)
         ((on_doc (\<lambda>d. d\<lparr>id_ownership := bt_insert ''lab'' (new_ownership ''ana'') (id_ownership d)\<rparr>)
             \<lparr>tx_doc = site_document, tx_events = [], tx_markers = m\<rparr>)
            \<lparr>tx_markers := m(''lab'' \<mapsto> hex_bytes (replicate 16 3))\<rparr>)))" for m
    using p assms(1-3) run_assign [of "tx_env_of site_call site_caller w"
        "\<lparr>tx_doc = site_document, tx_events = [], tx_markers = m\<rparr>" "''ana''" _ "''lab''"
        "BindOk (replicate 16 3)" "replicate 16 3" "[]"]
    by (simp add: bind_change_def external_principal_def site_document_def empty_document_def site_external_def
        advance_ops_def may_provision_def tx_env_of_def site_caller_def authorize_capability_def del: run_change.simps)
  then show ?thesis
    using assms(4,5) by (simp add: bound_document_def site_call_def sample_call_def commit_document_def
      tx_env_of_def bound_site_def site_document_def empty_document_def event_def on_doc_def Let_def
      prune_idempotency.simps max_idempotency_def max_reassignments_def)
qed

theorem interrupted_requests_are_finished_witness:
  "\<exists>s. fst (provision site_call site_caller ''request-1'' site_request
        ((foldl (attempt site_caller ''request-1'' site_request) site_world
           [(site_call, PendingRecorded), (site_call, IdentityCommitted)])\<lparr>pw_fault := None\<rparr>))
      = Inr \<lparr>po_replayed = True, po_status = s\<rparr> \<and> os_state s = OsCompleted"
proof -
  have "serializes site_codec site_document (stamp_of site_ledger) site_caller site_call op"
    if "request_operation {site_call} site_validated ''ana'' op" for op
    unfolding serializes_def
  proof (intro conjI allI impI, goal_cases)
    case (2 q st w)
    have q: "op_external q = op_external op" "op_principal q = op_principal op" "op_profile q = op_profile op"
      "op_id q = op_id op" "op_fingerprint q = op_fingerprint op"
      using 2 frozen_sel by metis+
    have "st = None" using 2 by (cases st) (simp_all add: same_stamp_def stamp_of_def site_ledger_def empty_ledger_def)
    moreover have "op_external q = site_external" "op_principal q = ''ana''" "op_profile q = ''lab''"
      "op_id q = hex_bytes (replicate 16 1)" "op_fingerprint q = site_fingerprint"
      using that q by (simp_all add: request_operation_def site_validated_def site_call_def sample_call_def)
    ultimately have "bound_document site_call site_caller q st w site_document = bound_site"
      using site_binds 2 q by metis
    then show ?case by (simp add: site_codec_def)
  qed (rule site_codec_ok)
  then show ?thesis
    using interrupted_requests_are_finished [of "{site_call}" site_call
        "[(site_call, PendingRecorded), (site_call, IdentityCommitted)]" "''request-1''" "\<lambda>_. replicate 32 7"
        site_request site_validated site_caller site_codec site_world site_document site_ledger
        site_provisioner "''ana''"]
      site_validates site_acceptable site_healthy site_fresh site_admits
    by (auto simp: outside_credential_def site_caller_def valid_key_def is_alphanumeric_def
        site_call_def sample_call_def is_digit_def is_lower_def)
qed

section \<open>A withdrawn provisioner\<close>

lemma fails_in_place:
  assumes h: "healthy jc x" and l: "load w = Inr l" "bt_get (lg_operations l) (op_id op) = Some op"
    and d: "store_load jc (pw_identity w) = Inr d" "bt_get (id_ownership d) (op_profile op) = Some r"
  shows "\<exists>l1 w1. fail_operation x (op_id op) op code l w = (None, l1, w1) \<and> pw_ledger w1 = StoredLedger l1 \<and>
    l1 = (set_state (op_id op) OsFailed (Some code) (px_now x) l)\<lparr>lg_generation := lg_generation l + 1\<rparr> \<and>
    pw_profiles w1 = pw_profiles w \<and> pw_identity w1 = pw_identity w"
proof -
  have "quarantine x op (w\<lparr>pw_ledger := s\<rparr>) = w\<lparr>pw_ledger := s\<rparr>" for s
    using h d by (auto simp: quarantine_def healthy_def split: option.splits)
  moreover have "lg_generation (set_state (op_id op) OsFailed (Some code) (px_now x) l) = lg_generation l"
    by (simp add: set_state_def)
  ultimately show ?thesis
    using l by (auto simp: fail_operation_def transition_def save_healthy [OF h] clear_staging_def)
qed

lemma sweep_keeps: "pw_ledger (snd (sweep_staging x l rep w)) = pw_ledger w"
  "pw_profiles (snd (sweep_staging x l rep w)) = pw_profiles w"
  "pw_identity (snd (sweep_staging x l rep w)) = pw_identity w"
  "rr_failed (fst (sweep_staging x l rep w)) = rr_failed rep"
  by (simp_all add: sweep_staging_def Let_def)

lemma audit_keeps: "pw_ledger (audit x a b c e f g w) = pw_ledger w"
  "pw_profiles (audit x a b c e f g w) = pw_profiles w"
  "pw_identity (audit x a b c e f g w) = pw_identity w"
  by (simp_all add: audit_def Let_def)

lemma failed_never_revoked:
  assumes "load w = Inr l" and "bt_get (lg_operations l) i = Some op" and "op_state op = OsFailed"
  shows "isl (fst (revoke_access y caller i w))"
  using assms by (auto simp: revoke_access_def revoke_body_def owned_operation_def Let_def isl_def
      split: sum.splits if_splits option.splits)

text \<open>
  C16. What the withdrawal of a provisioner leaves of an interrupted request. When the bind of an
  operation had committed before the crash, the reconciliation after a withdrawal marks the
  operation failed, but leaves the user the owner of the profile and the profile in place, and no
  call of any provisioner can revoke it. When the harness has a stamp, the identity store is left
  one transaction ahead of it: the continuity check fails and the transactions of every other
  operation, to bind or to revoke, are refused.
\<close>

theorem withdrawal_strands_a_bound_profile:
  assumes "healthy jc x" and "require_administrator actor = None" and "load w = Inr l" and "ledger_inv l"
    and "open_operations l = [op]" and "op_state op = OsProfileCreated"
    and "\<not> provisioner_live l (op_provisioner op)" and "store_load jc (pw_identity w) = Inr d"
    and "bt_get (id_ownership d) (op_profile op) = Some r" and "ow_owner r = op_principal op"
  shows "\<exists>rep w' l' op'. reconcile x actor w = (Inr rep, w') \<and> rr_failed rep = 1 \<and> load w' = Inr l' \<and>
    bt_get (lg_operations l') (op_id op) = Some op' \<and> op_state op' = OsFailed \<and>
    op_failure op' = Some ''provisioner_revoked'' \<and>
    pw_profiles w' = pw_profiles w \<and> pw_identity w' = pw_identity w \<and>
    owner_bound w' d op' = owner_bound w d op \<and>
    (\<forall>y caller. isl (fst (revoke_access (y :: 'j call) caller (op_id op) w'))) \<and>
    (\<forall>c m. lg_continuity l = Some c \<and> id_continuity d = Some m \<and> pc_sequence m = lc_sequence_seen c + 1 \<and>
       pc_last_operation m = op_id op \<longrightarrow>
       (\<forall>harness markers. isl (evaluate harness l' d markers)) \<and>
       (\<forall>st i a. stamp_of l' = Some st \<and> i \<noteq> op_id op \<longrightarrow>
          advance st d i a = Inl (SRefused ContinuityMismatch)))"
proof -
  have "op \<in> set (map snd (lg_operations l))"     using arg_cong [OF assms(5), of set] by (auto simp: open_operations_def)
  then have op: "bt_get (lg_operations l) (op_id op) = Some op"
    using ledger_invD [OF assms(4)] by (auto simp: operation_ok_def bt_wf_get_iff)
  obtain l1 w1 where f: "fail_operation x (op_id op) op ''provisioner_revoked'' l w = (None, l1, w1)"
    "pw_ledger w1 = StoredLedger l1" "pw_profiles w1 = pw_profiles w" "pw_identity w1 = pw_identity w"
    "l1 = (set_state (op_id op) OsFailed (Some ''provisioner_revoked'') (px_now x) l)\<lparr>lg_generation := lg_generation l + 1\<rparr>"
    using fails_in_place [OF assms(1,3) op assms(8,9)] by blast
  define op' where "op' = op\<lparr>op_state := OsFailed, op_failure := Some ''provisioner_revoked'', op_updated := px_now x\<rparr>"
  have op': "bt_get (lg_operations l1) (op_id op) = Some op'" "op_state op' = OsFailed"
    "op_failure op' = Some ''provisioner_revoked''" "op_profile op' = op_profile op" "op_principal op' = op_principal op"
    "lg_continuity l1 = lg_continuity l"
    using f(5) op by (simp_all add: op'_def set_state_def bt_simps)
  let ?r = "\<lparr>rr_completed = 0, rr_failed = 0, rr_still_pending = 0, rr_staging_removed = 0\<rparr>"
  obtain rep w2 where s: "sweep_staging x l1 (?r\<lparr>rr_failed := 1\<rparr>) w1 = (rep, w2)"
    by (cases "sweep_staging x l1 (?r\<lparr>rr_failed := 1\<rparr>) w1") auto
  note sw = sweep_keeps [of x l1 "?r\<lparr>rr_failed := 1\<rparr>" w1, unfolded s, simplified]
  obtain w' where rec: "reconcile x actor w = (Inr rep, w')" "pw_ledger w' = StoredLedger l1"
    "pw_profiles w' = pw_profiles w" "pw_identity w' = pw_identity w"
    using assms(1-3,5,7) f(1-4) s sw by (simp add: reconcile_def exclusive_def healthy_def audit_keeps Let_def)
  have load: "load w' = Inr l1"
    using rec(2) f(5) ledger_invD(1) [OF assms(4)] by (simp add: load_def set_state_def)
  have "is_file w' = is_file w" using rec(3) by (simp add: is_file_def fun_eq_iff)
  then have bound: "owner_bound w' d op' = owner_bound w d op"
    using rec(4) op'(4,5) by (simp add: owner_bound_def cong: option.case_cong)
  have behind: "isl (evaluate harness l1 d markers)"
    if "lg_continuity l = Some c" "id_continuity d = Some m" "pc_sequence m = lc_sequence_seen c + 1"
      "pc_last_operation m = op_id op" for c m harness markers
  proof (cases "check_stamp l1 harness")
    case (Inr stamp)
    then have "stamp = c" using that(1) op'(6) by (auto simp: check_stamp_def split: if_splits)
    then have "ledger_behind l1 stamp d markers"
      using that op'(1,2) by (cases "pc_last_action m")
        (auto simp: ledger_behind_def marker_consistent_def in_flight_def)
    then show ?thesis using Inr by (simp add: evaluate_def isl_def)
  qed (simp add: evaluate_def isl_def)
  have ahead: "advance st d i a = Inl (SRefused ContinuityMismatch)"
    if "lg_continuity l = Some c" "id_continuity d = Some m" "pc_sequence m = lc_sequence_seen c + 1"
      "pc_last_operation m = op_id op" "stamp_of l1 = Some st" "i \<noteq> op_id op" for c m st i a
    using that op'(6) by (auto simp: advance_def stamp_of_def Let_def)
  show ?thesis
    by (intro exI [of _ rep] exI [of _ w'] exI [of _ l1] exI [of _ op'])
      (use rec load bound op' behind ahead sw(4) failed_never_revoked [OF load op'(1,2)] in auto)
qed

text \<open>The bind of the sample request has committed, its provisioner was withdrawn.\<close>

definition stranded_operation :: operation where
  "stranded_operation = (new_operation (hex_bytes (replicate 16 1)) ''site'' ''request-1'' ''ana'' site_validated
     (hex_bytes (replicate 16 2)) 100)\<lparr>op_state := OsProfileCreated\<rparr>"

definition stranded_ledger :: ledger where
  "stranded_ledger = record_operation stranded_operation
     (site_ledger\<lparr>lg_provisioners := [(''site'', site_provisioner\<lparr>pv_revoked := Some 90\<rparr>)]\<rparr>)"

definition stranded_world :: world where
  "stranded_world = site_world\<lparr>pw_ledger := StoredLedger stranded_ledger,
     pw_identity := new_store\<lparr>is_state := Bytes ''e''\<rparr>\<rparr>"

lemma stranded_inv: "ledger_inv stranded_ledger"
proof -
  have "bt_get (lg_operations stranded_ledger) i = (if i = hex_bytes (replicate 16 1) then Some stranded_operation else None)"
    "bt_get (lg_keys stranded_ledger) k = (if k = scoped_key ''site'' ''request-1''
       then Some (hex_bytes (replicate 16 1)) else None)"
    "bt_get (lg_provisioners stranded_ledger) k = (if k = ''site'' then Some (site_provisioner\<lparr>pv_revoked := Some 90\<rparr>) else None)"
    "lg_schema stranded_ledger = ledger_schema_version" "bt_wf (lg_operations stranded_ledger)" for i k
    by (simp_all add: stranded_ledger_def stranded_operation_def record_operation_def new_operation_def
        site_ledger_def empty_ledger_def bt_wf_def)
  moreover have "valid_id ''lab''" by code_simp
  moreover have "''assistant'' \<in> set templates_known" by code_simp
  ultimately show ?thesis
    by (auto simp: ledger_inv_def operation_ok_def stranded_operation_def new_operation_def
        site_validated_def reserved_profiles_def site_provisioner_def)
qed

theorem withdrawal_strands_a_bound_profile_witness:
  "\<exists>rep w'. reconcile site_call sample_operator stranded_world = (Inr rep, w') \<and> rr_failed rep = 1 \<and>
     pw_identity w' = pw_identity stranded_world"
proof -
  have "load stranded_world = Inr stranded_ledger"
    by (simp add: load_def stranded_world_def stranded_ledger_def record_operation_def site_ledger_def empty_ledger_def)
  moreover have "open_operations stranded_ledger = [stranded_operation]"
    by (simp add: open_operations_def stranded_ledger_def record_operation_def site_ledger_def
        empty_ledger_def stranded_operation_def is_terminal_def)
  moreover have "op_state stranded_operation = OsProfileCreated" by (simp add: stranded_operation_def)
  moreover have "\<not> provisioner_live stranded_ledger (op_provisioner stranded_operation)"
    by (simp add: provisioner_live_def stranded_ledger_def record_operation_def stranded_operation_def new_operation_def)
  moreover have "store_load site_codec (pw_identity stranded_world) = Inr bound_site"
    by (simp add: stranded_world_def store_load_def parse_document_def site_codec_def Let_def
        site_document_def bound_site_def empty_document_def)
  moreover have "bt_get (id_ownership bound_site) (op_profile stranded_operation) = Some (new_ownership ''ana'')"
    by (simp add: bound_site_def stranded_operation_def new_operation_def site_validated_def)
  moreover have "ow_owner (new_ownership ''ana'') = op_principal stranded_operation"
    by (simp add: new_ownership_def stranded_operation_def new_operation_def)
  moreover have "require_administrator sample_operator = None" by code_simp
  ultimately show ?thesis
    using withdrawal_strands_a_bound_profile [OF site_healthy _ _ stranded_inv] by blast
qed

end
