(* ===== verification/SseDecoder.thy ===== *)
theory SseDecoder
  imports Permissions Credentials Schema
begin

text \<open>
  The incremental decoder of server-sent events
  (\<open>crates/lightagent-provider-lightweight/src/sse.rs\<close>) with the lossy UTF-8 conversion of the
  standard library it feeds on. The lemmas compare the decoder with the frames of the whole byte
  stream: how the stream is cut into chunks does not matter as long as no cut falls inside a
  character.
\<close>

section \<open>UTF-8\<close>

text \<open>
  \<open>String::from_utf8_lossy\<close>: a maximal prefix of a sequence that cannot go on becomes U+FFFD.
  \<open>utf8_head\<close> is the length of the first sequence, and whether it is whole.
\<close>

definition utf8_width :: "char \<Rightarrow> nat" where
  "utf8_width b =
     (if b < CHR 0x80 then 1
      else if CHR 0xC2 \<le> b \<and> b \<le> CHR 0xDF then 2
      else if CHR 0xE0 \<le> b \<and> b \<le> CHR 0xEF then 3
      else if CHR 0xF0 \<le> b \<and> b \<le> CHR 0xF4 then 4 else 0)"

definition between :: "char \<Rightarrow> char \<Rightarrow> char \<Rightarrow> bool" where
  "between lo hi c \<longleftrightarrow> lo \<le> c \<and> c \<le> hi"

definition second_ok :: "char \<Rightarrow> char \<Rightarrow> bool" where
  "second_ok b c =
     (if b = CHR 0xE0 then between (CHR 0xA0) (CHR 0xBF) c
      else if b = CHR 0xED then between (CHR 0x80) (CHR 0x9F) c
      else if b = CHR 0xF0 then between (CHR 0x90) (CHR 0xBF) c
      else if b = CHR 0xF4 then between (CHR 0x80) (CHR 0x8F) c
      else between (CHR 0x80) (CHR 0xBF) c)"

fun continuations :: "nat \<Rightarrow> string \<Rightarrow> nat" where
  "continuations 0 s = 0"
| "continuations (Suc k) [] = 0"
| "continuations (Suc k) (c # s) =
     (if between (CHR 0x80) (CHR 0xBF) c then Suc (continuations k s) else 0)"

fun utf8_head :: "string \<Rightarrow> nat \<times> bool" where
  "utf8_head [] = (0, True)"
| "utf8_head (b # rest) =
     (let w = utf8_width b
      in if w = 0 then (1, False)
         else if w = 1 then (1, True)
         else case rest of
             [] \<Rightarrow> (1, False)
           | c # cs \<Rightarrow>
               if \<not> second_ok b c then (1, False)
               else let n = continuations (w - 2) cs in (2 + n, n = w - 2))"

definition replacement :: string where
  "replacement = [CHR 0xEF, CHR 0xBF, CHR 0xBD]"

lemma utf8_head_pos: "s \<noteq> [] \<Longrightarrow> 0 < fst (utf8_head s)"
  by (cases s rule: utf8_head.cases) (auto simp: Let_def split: list.splits)

lemma utf8_head_shrinks: "s \<noteq> [] \<Longrightarrow> length s - fst (utf8_head s) < length s"
  using utf8_head_pos [of s] by (cases s) auto

function from_utf8_lossy :: "string \<Rightarrow> string" where
  "from_utf8_lossy s =
     (if s = [] then []
      else (if snd (utf8_head s) then take (fst (utf8_head s)) s else replacement) @
        from_utf8_lossy (drop (fst (utf8_head s)) s))"
  by pat_completeness auto
termination
  by (relation "measure length") (auto intro: utf8_head_shrinks)

declare from_utf8_lossy.simps [simp del]

function valid_utf8 :: "string \<Rightarrow> bool" where
  "valid_utf8 s =
     (if s = [] then True else snd (utf8_head s) \<and> valid_utf8 (drop (fst (utf8_head s)) s))"
  by pat_completeness auto
termination
  by (relation "measure length") (auto intro: utf8_head_shrinks)

declare valid_utf8.simps [simp del]

section \<open>Events\<close>

definition done_data :: string where
  "done_data = ''[DONE]''"

definition default_frame_limit :: nat where
  "default_frame_limit = 8 * 1024 * 1024"

record sse_event =
  sv_event :: "string option"
  sv_data :: string
  sv_id :: "string option"

definition sse_event_default :: sse_event where
  "sse_event_default = \<lparr>sv_event = None, sv_data = [], sv_id = None\<rparr>"

definition is_done :: "sse_event \<Rightarrow> bool" where
  "is_done e \<longleftrightarrow> trim (sv_data e) = done_data"

datatype decode_error = FrameOverLimit nat

record decoder =
  dc_buffer :: string
  dc_ready :: "sse_event list"
  dc_limit :: nat
  dc_poisoned :: bool

definition with_limit :: "nat \<Rightarrow> decoder" where
  "with_limit limit = \<lparr>dc_buffer = [], dc_ready = [], dc_limit = limit, dc_poisoned = False\<rparr>"

definition decoder_new :: decoder where
  "decoder_new = with_limit default_frame_limit"

text \<open>\<open>str::find\<close> of a nonempty needle.\<close>

fun find_str :: "string \<Rightarrow> string \<Rightarrow> nat option" where
  "find_str needle [] = None"
| "find_str needle (c # s) =
     (if is_prefix_of needle (c # s) then Some 0 else map_option Suc (find_str needle s))"

definition terminators :: "string list" where
  "terminators = [[CHR 0x0D, CHR 0x0A, CHR 0x0D, CHR 0x0A], [CHR 0x0A, CHR 0x0A],
     [CHR 0x0D, CHR 0x0D], [CHR 0x0A, CHR 0x0D, CHR 0x0A]]"

text \<open>\<open>min_by_key\<close> keeps the first of equal minima. The result is the length of the content and of
  the whole frame.\<close>

fun min_by_first :: "(nat \<times> nat) list \<Rightarrow> (nat \<times> nat) option" where
  "min_by_first [] = None"
| "min_by_first (x # xs) =
     (case min_by_first xs of
        None \<Rightarrow> Some x
      | Some y \<Rightarrow> if fst y < fst x then Some y else Some x)"

definition find_frame_end :: "string \<Rightarrow> (nat \<times> nat) option" where
  "find_frame_end buffer = min_by_first (List.map_filter
     (\<lambda>t. map_option (\<lambda>i. (i, i + length t)) (find_str t buffer)) terminators)"

text \<open>\<open>split\<close> at every line feed and carriage return.\<close>

fun split_lines :: "string \<Rightarrow> string list" where
  "split_lines [] = [[]]"
| "split_lines (x # xs) =
     (if x = CHR 0x0A \<or> x = CHR 0x0D then [] # split_lines xs
      else case split_lines xs of [] \<Rightarrow> [[x]] | p # ps \<Rightarrow> (x # p) # ps)"

definition field_of :: "string \<Rightarrow> string \<times> string" where
  "field_of line =
     (case split_once (CHR '':'') line of
        None \<Rightarrow> (line, [])
      | Some (field, val) \<Rightarrow>
          (field, case strip_prefix '' '' val of None \<Rightarrow> val | Some rest \<Rightarrow> rest))"

definition parse_line :: "sse_event \<times> bool \<Rightarrow> string \<Rightarrow> sse_event \<times> bool" where
  "parse_line st line =
     (let (e, has_data) = st
      in if is_prefix_of '':'' line then (e, has_data)
         else
           let (field, val) = field_of line
           in if field = ''data'' then
                (e\<lparr>sv_data := sv_data e @ (if has_data then [CHR 0x0A] else []) @ val\<rparr>, True)
              else if field = ''event'' then (e\<lparr>sv_event := Some val\<rparr>, has_data)
              else if field = ''id'' then (e\<lparr>sv_id := Some val\<rparr>, has_data)
              else (e, has_data))"

definition parse_frame :: "string \<Rightarrow> sse_event option" where
  "parse_frame frame =
     (let (e, has_data) = foldl parse_line (sse_event_default, False)
            (filter (\<lambda>line. line \<noteq> []) (split_lines frame))
      in if has_data then Some e else None)"

section \<open>The decoder\<close>

lemma find_str_bound: "find_str t s = Some i \<Longrightarrow> i + length t \<le> length s"
  by (induction s arbitrary: i) (auto simp: is_prefix_of_iff split: if_splits dest: arg_cong [of _ _ length])

lemma min_by_first_in: "min_by_first xs = Some x \<Longrightarrow> x \<in> set xs"
  by (induction xs arbitrary: x) (auto split: option.splits if_splits)

lemma find_frame_end_bound:
  assumes "find_frame_end s = Some (content, whole)"
  shows "content < whole" and "whole \<le> length s"
proof -
  have "(content, whole) \<in> set (List.map_filter (\<lambda>t. map_option (\<lambda>i. (i, i + length t)) (find_str t s)) terminators)"
    using assms min_by_first_in by (auto simp: find_frame_end_def)
  then obtain t where t: "t \<in> set terminators" "find_str t s = Some content" "whole = content + length t"
    by (auto simp: List.map_filter_def)
  then show "content < whole" "whole \<le> length s"
    using find_str_bound [OF t(2)] by (auto simp: terminators_def)
qed

lemma find_frame_end_shrinks: "find_frame_end s = Some (content, whole) \<Longrightarrow> length s - whole < length s"
  using find_frame_end_bound [of s content whole] by simp

function extract_frames :: "decoder \<Rightarrow> (decode_error + unit) \<times> decoder" where
  "extract_frames d =
     (case find_frame_end (dc_buffer d) of
        None \<Rightarrow>
          if length (dc_buffer d) > dc_limit d
          then (Inl (FrameOverLimit (dc_limit d)), d\<lparr>dc_poisoned := True, dc_buffer := []\<rparr>)
          else (Inr (), d)
      | Some (content, whole) \<Rightarrow> extract_frames (d\<lparr>dc_buffer := drop whole (dc_buffer d),
          dc_ready := dc_ready d @
            (case parse_frame (take content (dc_buffer d)) of None \<Rightarrow> [] | Some e \<Rightarrow> [e])\<rparr>))"
  by pat_completeness auto
termination
  by (relation "measure (\<lambda>d. length (dc_buffer d))")
    (auto dest!: sym [of "Some _"] find_frame_end_shrinks split: option.splits)

declare extract_frames.simps [simp del]

definition feed :: "decoder \<Rightarrow> string \<Rightarrow> (decode_error + unit) \<times> decoder" where
  "feed d chunk =
     (if dc_poisoned d then (Inl (FrameOverLimit (dc_limit d)), d)
      else extract_frames (d\<lparr>dc_buffer := dc_buffer d @ from_utf8_lossy chunk\<rparr>))"

definition next_event :: "decoder \<Rightarrow> sse_event option \<times> decoder" where
  "next_event d =
     (case dc_ready d of
        [] \<Rightarrow> (None, d)
      | e # rest \<Rightarrow> (Some e, d\<lparr>dc_ready := rest\<rparr>))"

definition drain :: "decoder \<Rightarrow> sse_event list \<times> decoder" where
  "drain d = (dc_ready d, d\<lparr>dc_ready := []\<rparr>)"

definition has_pending :: "decoder \<Rightarrow> bool" where
  "has_pending d \<longleftrightarrow> dc_buffer d \<noteq> []"

text \<open>A client that feeds chunk after chunk and stops at the first error.\<close>

fun feeds :: "decoder \<Rightarrow> string list \<Rightarrow> (decode_error + unit) \<times> decoder" where
  "feeds d [] = (Inr (), d)"
| "feeds d (c # cs) =
     (case feed d c of (Inl e, d1) \<Rightarrow> (Inl e, d1) | (Inr _, d1) \<Rightarrow> feeds d1 cs)"

section \<open>Whole characters\<close>

lemma continuations_le: "continuations k s \<le> k" "continuations k s \<le> length s"
  by (induction k s rule: continuations.induct) auto

lemma continuations_append: "continuations k s = k \<Longrightarrow> continuations k (s @ t) = k"
  by (induction k s rule: continuations.induct) (auto split: if_splits)

lemma utf8_head_le: "fst (utf8_head s) \<le> length s"
  using continuations_le(2) by (cases s rule: utf8_head.cases) (auto simp: Let_def split: list.splits)

lemma utf8_head_append: "s \<noteq> [] \<Longrightarrow> snd (utf8_head s) \<Longrightarrow> utf8_head (s @ t) = utf8_head s"
  using continuations_append by (cases s rule: utf8_head.cases) (auto simp: Let_def split: list.splits if_splits)

lemma lossy_append: "valid_utf8 s \<Longrightarrow> from_utf8_lossy (s @ t) = s @ from_utf8_lossy t"
proof (induction s rule: valid_utf8.induct)
  case (1 s)
  show ?case
  proof (cases "s = []")
    case False
    then have h: "utf8_head (s @ t) = utf8_head s" "snd (utf8_head s)"
      "valid_utf8 (drop (fst (utf8_head s)) s)"
      using "1.prems" by (simp_all add: utf8_head_append valid_utf8.simps [of s])
    show ?thesis
      using False h "1.IH" utf8_head_le [of s] by (subst from_utf8_lossy.simps) (simp add: h(2))
  qed simp
qed

lemma lossy_valid: "valid_utf8 s \<Longrightarrow> from_utf8_lossy s = s"
  using lossy_append [of s "[]"] by (simp add: from_utf8_lossy.simps)

lemma valid_append: "valid_utf8 s \<Longrightarrow> valid_utf8 t \<Longrightarrow> valid_utf8 (s @ t)"
proof (induction s rule: valid_utf8.induct)
  case (1 s)
  then show ?case
    using utf8_head_append [of s t] utf8_head_le [of s]
    by (cases "s = []") (auto simp: valid_utf8.simps [of s] valid_utf8.simps [of "s @ t"])
qed

lemma valid_concat: "list_all valid_utf8 ss \<Longrightarrow> valid_utf8 (concat ss)"
  by (induction ss) (simp_all add: valid_append valid_utf8.simps [of "[]"])

lemma valid_ascii: "list_all (\<lambda>c. c < CHR 0x80) s \<Longrightarrow> valid_utf8 s"
proof (induction s)
  case (Cons c s)
  then show ?case by (subst valid_utf8.simps) (simp add: utf8_width_def)
qed (simp add: valid_utf8.simps)

section \<open>The frames of a stream\<close>

text \<open>The blank line at the front of a text, and the first one anywhere.\<close>

definition blank_here :: "string \<Rightarrow> nat option" where
  "blank_here s = map_option length (find (\<lambda>t. is_prefix_of t s) terminators)"

lemma min_by_first_Suc:
  "min_by_first (map (\<lambda>(a, b). (Suc a, Suc b)) xs) = map_option (\<lambda>(a, b). (Suc a, Suc b)) (min_by_first xs)"
  by (induction xs) (auto split: option.splits)

lemma frame_end_Nil [simp]: "find_frame_end [] = None"
  by (simp add: find_frame_end_def terminators_def List.map_filter_def)

lemma min_by_first_zero:
  "(0, n) \<in> set xs \<Longrightarrow> (\<And>y. y \<in> set xs \<Longrightarrow> fst y = 0 \<Longrightarrow> y = (0, n)) \<Longrightarrow> min_by_first xs = Some (0, n)"
proof (induction xs)
  case (Cons x xs)
  show ?case
  proof (cases "(0, n) \<in> set xs")
    case True
    have "min_by_first xs = Some (0, n)"
      by (rule Cons.IH [OF True]) (rule Cons.prems(2), simp_all)
    then show ?thesis using Cons.prems(2) [of x] by auto
  next
    case False
    then have "x = (0, n)" using Cons.prems(1) by simp
    then show ?thesis using min_by_first_in [of xs] by (auto split: option.splits)
  qed
qed simp

text \<open>No terminator begins another, so at most one of them is at the front.\<close>

lemma terminators_apart:
  assumes "t \<in> set terminators" and "u \<in> set terminators" and "is_prefix_of t s" and "is_prefix_of u s"
  shows "t = u"
  using assms by (auto simp: terminators_def is_prefix_of_iff)

lemma blank_here_Some: "blank_here s = Some n \<longleftrightarrow> (\<exists>t \<in> set terminators. is_prefix_of t s \<and> n = length t)"
proof
  assume "\<exists>t \<in> set terminators. is_prefix_of t s \<and> n = length t"
  then obtain t where t: "t \<in> set terminators" "is_prefix_of t s" "n = length t" by blast
  then obtain u where "find (\<lambda>t. is_prefix_of t s) terminators = Some u"
    by (cases "find (\<lambda>t. is_prefix_of t s) terminators") (auto simp: find_None_iff)
  moreover from this have "u = t" using t terminators_apart by (auto simp: find_Some_iff)
  ultimately show "blank_here s = Some n" using t(3) by (simp add: blank_here_def)
qed (auto simp: blank_here_def find_Some_iff)

lemma map_filter_map: "List.map_filter (\<lambda>x. map_option g (f x)) xs = map g (List.map_filter f xs)"
  by (induction xs) (simp_all add: List.map_filter_simps split: option.splits)

lemma map_filter_cong: "(\<And>x. x \<in> set xs \<Longrightarrow> f x = g x) \<Longrightarrow> List.map_filter f xs = List.map_filter g xs"
  by (induction xs) (simp_all add: List.map_filter_simps cong: option.case_cong)

lemma frame_end_Cons:
  "find_frame_end (c # s) =
     (case blank_here (c # s) of
        Some n \<Rightarrow> Some (0, n)
      | None \<Rightarrow> map_option (\<lambda>(a, b). (Suc a, Suc b)) (find_frame_end s))"
proof (cases "blank_here (c # s)")
  case None
  then have "find_str t (c # s) = map_option Suc (find_str t s)" if "t \<in> set terminators" for t
    using that by (auto simp: blank_here_def find_None_iff)
  then have "List.map_filter (\<lambda>t. map_option (\<lambda>i. (i, i + length t)) (find_str t (c # s))) terminators =
      List.map_filter (\<lambda>t. map_option (\<lambda>(a, b). (Suc a, Suc b)) (map_option (\<lambda>i. (i, i + length t)) (find_str t s))) terminators"
    by (intro map_filter_cong) (simp add: option.map_comp comp_def)
  then have "List.map_filter (\<lambda>t. map_option (\<lambda>i. (i, i + length t)) (find_str t (c # s))) terminators =
      map (\<lambda>(a, b). (Suc a, Suc b)) (List.map_filter (\<lambda>t. map_option (\<lambda>i. (i, i + length t)) (find_str t s)) terminators)"
    by (simp only: map_filter_map)
  then show ?thesis using None by (simp add: find_frame_end_def min_by_first_Suc)
next
  case (Some n)
  then obtain t where t: "t \<in> set terminators" "is_prefix_of t (c # s)" "n = length t"
    by (auto simp: blank_here_Some)
  let ?xs = "List.map_filter (\<lambda>t. map_option (\<lambda>i. (i, i + length t)) (find_str t (c # s))) terminators"
  have "(0, n) \<in> set ?xs" using t by (force simp: List.map_filter_def)
  moreover have "y = (0, n)" if y: "y \<in> set ?xs" "fst y = 0" for y
  proof -
    obtain u where u: "u \<in> set terminators" "find_str u (c # s) = Some 0" "y = (0, length u)"
      using y by (auto simp: List.map_filter_def)
    then have "is_prefix_of u (c # s)" by (auto split: if_splits)
    then show ?thesis using u t terminators_apart by blast
  qed
  ultimately have "min_by_first ?xs = Some (0, n)" by (rule min_by_first_zero) blast+
  then show ?thesis using Some by (simp add: find_frame_end_def)
qed

lemma blank_here_append: "blank_here s = Some n \<Longrightarrow> blank_here (s @ t) = Some n"
  unfolding blank_here_Some is_prefix_of_iff by (metis append_assoc)

text \<open>A text that goes on never moves a blank line that was found: the beginnings of the
  terminators hold no terminator.\<close>

lemma no_blank_inside:
  assumes "blank_here (c # s) = None" and "blank_here (c # s @ t) = Some n"
  shows "find_frame_end s = None"
proof -
  obtain u r where u: "u \<in> set terminators" "(c # s) @ t = u @ r"
    using assms(2) by (auto simp: blank_here_Some is_prefix_of_iff)
  moreover have "\<nexists>r. c # s = u @ r"
    using assms(1) u(1) by (auto simp: blank_here_def find_None_iff is_prefix_of_iff)
  ultimately obtain x where "u = (c # s) @ x" "x \<noteq> []"
    by (metis append_eq_append_conv2 append_Nil2)
  then have "s \<in> {[], [CHR 0x0A], [CHR 0x0D], [CHR 0x0A, CHR 0x0D]}"
    using u(1) by (cases s rule: list.exhaust [case_names Nil Cons]; cases "tl s"; cases "tl (tl s)")
      (auto simp: terminators_def)
  then show ?thesis by (auto simp: frame_end_Cons blank_here_def terminators_def is_prefix_of_def)
qed

lemma frame_end_append: "find_frame_end s = Some x \<Longrightarrow> find_frame_end (s @ t) = Some x"
proof (induction s arbitrary: x)
  case (Cons c s)
  show ?case
  proof (cases "blank_here (c # s)")
    case None
    then have "blank_here (c # s @ t) = None"
      using Cons.prems no_blank_inside [OF None] by (cases "blank_here (c # s @ t)") (auto simp: frame_end_Cons)
    then show ?thesis using Cons None by (auto simp: frame_end_Cons)
  qed (use Cons.prems blank_here_append [of "c # s"] in \<open>simp add: frame_end_Cons\<close>)
qed simp

text \<open>All frames of a text, and what is left after the last one.\<close>

function frames_of :: "string \<Rightarrow> sse_event list \<times> string" where
  "frames_of s =
     (case find_frame_end s of
        None \<Rightarrow> ([], s)
      | Some (content, whole) \<Rightarrow>
          (let (es, rest) = frames_of (drop whole s)
           in ((case parse_frame (take content s) of None \<Rightarrow> [] | Some e \<Rightarrow> [e]) @ es, rest)))"
  by pat_completeness auto
termination
  by (relation "measure length") (auto dest!: sym [of "Some _"] find_frame_end_shrinks split: option.splits)

declare frames_of.simps [simp del]

lemma frames_of_append:
  "frames_of (s @ t) = (let (es, rest) = frames_of s; (fs, rest') = frames_of (rest @ t) in (es @ fs, rest'))"
proof (induction s rule: frames_of.induct)
  case (1 s)
  show ?case
  proof (cases "find_frame_end s")
    case None
    then show ?thesis by (simp add: frames_of.simps [of s] split: prod.splits)
  next
    case (Some p)
    then obtain content whole where p: "find_frame_end s = Some (content, whole)" by (cases p) auto
    then have b: "content < whole" "whole \<le> length s" using find_frame_end_bound by blast+
    have "find_frame_end (s @ t) = Some (content, whole)" using p frame_end_append by blast
    then show ?thesis
      using b "1.IH" [OF p refl] by (simp add: frames_of.simps [of s] frames_of.simps [of "s @ t"] p Let_def split: prod.splits)
  qed
qed

lemma extract_frames_of:
  "extract_frames d = (let (es, rest) = frames_of (dc_buffer d)
     in if length rest > dc_limit d
        then (Inl (FrameOverLimit (dc_limit d)), d\<lparr>dc_poisoned := True, dc_buffer := [], dc_ready := dc_ready d @ es\<rparr>)
        else (Inr (), d\<lparr>dc_buffer := rest, dc_ready := dc_ready d @ es\<rparr>))"
proof (induction d rule: extract_frames.induct)
  case (1 d)
  show ?case
  proof (cases "find_frame_end (dc_buffer d)")
    case None
    then show ?thesis by (simp add: extract_frames.simps [of d] frames_of.simps [of "dc_buffer d"])
  next
    case (Some p)
    then obtain content whole where p: "find_frame_end (dc_buffer d) = Some (content, whole)" by (cases p) auto
    show ?thesis
      using "1.IH" [OF p refl] p
      by (simp add: extract_frames.simps [of d] frames_of.simps [of "dc_buffer d"] Let_def split: prod.splits)
  qed
qed

lemma frames_of_length: "length (snd (frames_of s)) \<le> length s"
proof (induction s rule: frames_of.induct)
  case (1 s)
  show ?case
  proof (cases "find_frame_end s")
    case None
    then show ?thesis by (simp add: frames_of.simps [of s])
  next
    case (Some p)
    then obtain content whole where p: "find_frame_end s = Some (content, whole)" by (cases p) auto
    then show ?thesis
      using "1.IH" [OF p refl] by (cases "frames_of (drop whole s)") (simp add: frames_of.simps [of s])
  qed
qed

text \<open>
  The limit is on the text that stays pending: after no chunk is the unfinished frame longer. Frames
  that are already complete do not count, however long the stream is.
\<close>

definition pending_fits :: "nat \<Rightarrow> string \<Rightarrow> string list \<Rightarrow> bool" where
  "pending_fits limit buffer chunks \<longleftrightarrow>
     list_all (\<lambda>n. length (snd (frames_of (buffer @ concat (take n chunks)))) \<le> limit)
       [0..<Suc (length chunks)]"

lemma pending_fits_iff:
  "pending_fits limit buffer chunks \<longleftrightarrow>
     (\<forall>n \<le> length chunks. length (snd (frames_of (buffer @ concat (take n chunks)))) \<le> limit)"
  unfolding pending_fits_def list_all_iff by (auto simp del: upt_Suc)

lemma frames_of_rest: "snd (frames_of (snd (frames_of s) @ t)) = snd (frames_of (s @ t))"
  using frames_of_append [of s t] by (simp split: prod.splits)

lemma pending_fits_Cons:
  assumes "pending_fits limit buffer (c # cs)"
  shows "length (snd (frames_of (buffer @ c))) \<le> limit"
    and "pending_fits limit (snd (frames_of (buffer @ c))) cs"
proof -
  have n: "length (snd (frames_of (buffer @ c @ concat (take n cs)))) \<le> limit" if "n \<le> length cs" for n
    using assms that by (auto simp: pending_fits_iff dest!: spec [of _ "Suc n"])
  show "length (snd (frames_of (buffer @ c))) \<le> limit" using n [of 0] by simp
  show "pending_fits limit (snd (frames_of (buffer @ c))) cs" using n by (simp add: pending_fits_iff frames_of_rest)
qed

lemma pending_fits_short: "length buffer + length (concat cs) \<le> limit \<Longrightarrow> pending_fits limit buffer cs"
proof -
  assume short: "length buffer + length (concat cs) \<le> limit"
  have "length (snd (frames_of (buffer @ concat (take n cs)))) \<le> limit" for n
  proof -
    have "length (concat (take n cs)) + length (concat (drop n cs)) = length (concat cs)"
      by (metis append_take_drop_id concat_append length_append)
    then show ?thesis using short frames_of_length [of "buffer @ concat (take n cs)"] by simp
  qed
  then show ?thesis by (simp add: pending_fits_iff)
qed

lemma pending_fits_whole: "pending_fits limit [] cs \<Longrightarrow> pending_fits limit [] [concat cs]"
  unfolding pending_fits_iff by (auto simp: le_Suc_eq)

lemma feed_frames:
  assumes "\<not> dc_poisoned d" and "valid_utf8 c" and "length (snd (frames_of (dc_buffer d @ c))) \<le> dc_limit d"
  shows "feed d c = (let (es, rest) = frames_of (dc_buffer d @ c)
     in (Inr (), d\<lparr>dc_buffer := rest, dc_ready := dc_ready d @ es\<rparr>))"
  using assms by (cases "frames_of (dc_buffer d @ c)") (simp add: feed_def extract_frames_of lossy_valid)

lemma feeds_frames:
  assumes "\<not> dc_poisoned d" and "list_all valid_utf8 cs" and "frames_of (dc_buffer d) = ([], dc_buffer d)"
    and "pending_fits (dc_limit d) (dc_buffer d) cs"
  shows "feeds d cs = (let (es, rest) = frames_of (dc_buffer d @ concat cs)
     in (Inr (), d\<lparr>dc_buffer := rest, dc_ready := dc_ready d @ es\<rparr>))"
  using assms
proof (induction cs arbitrary: d)
  case (Cons c cs)
  obtain es rest where f: "frames_of (dc_buffer d @ c) = (es, rest)" by fastforce
  let ?d = "d\<lparr>dc_buffer := rest, dc_ready := dc_ready d @ es\<rparr>"
  note fits = pending_fits_Cons [OF Cons.prems(4)]
  have fd: "feed d c = (Inr (), ?d)" using Cons.prems f fits(1) by (simp add: feed_frames)
  have "frames_of rest = ([], rest)"
    using frames_of_append [of "dc_buffer d @ c" "[]"] f by (simp split: prod.splits)
  then have "feeds ?d cs = (let (fs, rest') = frames_of (rest @ concat cs)
      in (Inr (), ?d\<lparr>dc_buffer := rest', dc_ready := dc_ready ?d @ fs\<rparr>))"
    using Cons.prems f fits(2) by (subst Cons.IH) simp_all
  moreover have "frames_of (dc_buffer d @ concat (c # cs)) =
      (let (fs, rest') = frames_of (rest @ concat cs) in (es @ fs, rest'))"
    using frames_of_append [of "dc_buffer d @ c" "concat cs"] f by simp
  ultimately show ?case using fd by (simp split: prod.splits)
qed simp

lemma frames_of_Nil [simp]: "frames_of [] = ([], [])"
  by (simp add: frames_of.simps)

section \<open>Frames as an emitter writes them\<close>

text \<open>The format of the documentation: an optional name and an optional id, the data line by line,
  a blank line.\<close>

definition header_line :: "string \<Rightarrow> string option \<Rightarrow> string list" where
  "header_line field v = (case v of None \<Rightarrow> [] | Some x \<Rightarrow> [field @ '': '' @ x])"

definition data_line :: "string \<Rightarrow> string" where
  "data_line l = ''data: '' @ l"

definition frame_lines :: "sse_event \<Rightarrow> string list" where
  "frame_lines e = header_line ''event'' (sv_event e) @ header_line ''id'' (sv_id e) @
     map data_line (split_on (CHR 0x0A) (sv_data e))"

definition frame_text :: "sse_event \<Rightarrow> string" where
  "frame_text e = concat (map (\<lambda>l. l @ [CHR 0x0A]) (frame_lines e)) @ [CHR 0x0A]"

definition one_line :: "string \<Rightarrow> bool" where
  "one_line s \<longleftrightarrow> CHR 0x0A \<notin> set s \<and> CHR 0x0D \<notin> set s"

text \<open>What can be written: names and ids of one line, data without carriage returns.\<close>

definition writable :: "sse_event \<Rightarrow> bool" where
  "writable e \<longleftrightarrow> (\<forall>s. sv_event e = Some s \<or> sv_id e = Some s \<longrightarrow> one_line s) \<and> CHR 0x0D \<notin> set (sv_data e)"

lemma one_line_append [simp]: "one_line (a @ b) \<longleftrightarrow> one_line a \<and> one_line b"
  by (auto simp: one_line_def)

lemma split_on_one_line: "CHR 0x0D \<notin> set s \<Longrightarrow> l \<in> set (split_on (CHR 0x0A) s) \<Longrightarrow> one_line l"
  by (induction s arbitrary: l) (force simp: one_line_def split: list.splits if_splits)+

lemma frame_lines_ok:
  assumes "writable e" and "l \<in> set (frame_lines e)"
  shows "one_line l" and "l \<noteq> []"
  using assms split_on_one_line [of "sv_data e"]
  by (auto simp: frame_lines_def data_line_def header_line_def writable_def one_line_def split: option.splits)

text \<open>The end of such a frame is found where it is.\<close>

lemma blank_here_other: "c \<noteq> CHR 0x0A \<Longrightarrow> c \<noteq> CHR 0x0D \<Longrightarrow> blank_here (c # s) = None"
  by (simp add: blank_here_def find_None_iff terminators_def is_prefix_of_def)

lemma frame_end_skip:
  "one_line l \<Longrightarrow> find_frame_end (l @ s) = map_option (\<lambda>(a, b). (length l + a, length l + b)) (find_frame_end s)"
proof (induction l)
  case (Cons c l)
  then have "blank_here (c # l @ s) = None" by (intro blank_here_other) (auto simp: one_line_def)
  then show ?case
    using Cons by (cases "find_frame_end s") (auto simp: frame_end_Cons one_line_def)
qed (cases "find_frame_end s"; auto)

lemma frame_end_line:
  assumes "s \<noteq> []" and "hd s \<noteq> CHR 0x0A" and "hd s \<noteq> CHR 0x0D"
  shows "find_frame_end (CHR 0x0A # s) = map_option (\<lambda>(a, b). (Suc a, Suc b)) (find_frame_end s)"
proof -
  have "blank_here (CHR 0x0A # s) = None"
    using assms by (cases s) (simp_all add: blank_here_def find_None_iff terminators_def is_prefix_of_def)
  then show ?thesis by (simp add: frame_end_Cons)
qed

lemma frame_end_lines:
  assumes "list_all (\<lambda>l. one_line l \<and> l \<noteq> []) ls" and "ls \<noteq> []"
  shows "find_frame_end (concat (map (\<lambda>l. l @ [CHR 0x0A]) ls) @ CHR 0x0A # s) =
    Some (length (concat (map (\<lambda>l. l @ [CHR 0x0A]) ls)) - 1, length (concat (map (\<lambda>l. l @ [CHR 0x0A]) ls)) + 1)"
  using assms
proof (induction ls)
  case (Cons l ls)
  show ?case
  proof (cases "ls = []")
    case True
    have "blank_here (CHR 0x0A # CHR 0x0A # s) = Some 2"
      unfolding blank_here_Some by (intro bexI [of _ "[CHR 0x0A, CHR 0x0A]"]) (simp_all add: is_prefix_of_def terminators_def)
    then show ?thesis using Cons.prems True by (simp add: frame_end_skip frame_end_Cons)
  next
    case False
    let ?t = "concat (map (\<lambda>l. l @ [CHR 0x0A]) ls) @ CHR 0x0A # s"
    have h: "hd ?t \<noteq> CHR 0x0A" "hd ?t \<noteq> CHR 0x0D"
      using False Cons.prems(1) by (cases ls; cases "hd ls"; force simp: one_line_def)+
    have "0 < length (concat (map (\<lambda>l. l @ [CHR 0x0A]) ls))" using False by (cases ls) simp_all
    then show ?thesis
      using Cons False by (simp add: frame_end_skip frame_end_line [OF _ h])
  qed
qed simp

lemma split_lines_app: "one_line a \<Longrightarrow> split_lines (a @ CHR 0x0A # b) = a # split_lines b"
  by (induction a) (auto simp: one_line_def)

lemma split_lines_one: "one_line a \<Longrightarrow> split_lines a = [a]"
  by (induction a) (auto simp: one_line_def)

lemma split_lines_lines:
  assumes "list_all (\<lambda>l. one_line l \<and> l \<noteq> []) ls" and "ls \<noteq> []"
  shows "split_lines (butlast (concat (map (\<lambda>l. l @ [CHR 0x0A]) ls))) = ls"
  using assms
proof (induction ls)
  case (Cons l ls)
  then show ?case
    by (cases ls) (simp_all add: split_lines_one split_lines_app butlast_append)
qed simp

lemma split_on_join: "split_on c s = l # ls \<Longrightarrow> s = l @ concat (map (\<lambda>x. c # x) ls)"
proof (induction s arbitrary: l ls)
  case (Cons a s)
  obtain p ps where p: "split_on c s = p # ps" using split_on_nonempty [of c s] by (cases "split_on c s") auto
  from Cons.prems p have "a = c \<and> l = [] \<and> ls = p # ps \<or> a \<noteq> c \<and> l = a # p \<and> ls = ps"
    by (auto split: if_splits)
  then show ?case using Cons.IH [OF p] by auto
qed simp

lemma parse_data_line:
  "parse_line (e, b) (data_line l) = (e\<lparr>sv_data := sv_data e @ (if b then [CHR 0x0A] else []) @ l\<rparr>, True)"
  by (simp add: data_line_def parse_line_def field_of_def is_prefix_of_def strip_prefix_def)

lemma parse_more_data:
  "foldl parse_line (e, True) (map data_line ls) =
     (e\<lparr>sv_data := sv_data e @ concat (map (\<lambda>l. CHR 0x0A # l) ls)\<rparr>, True)"
  by (induction ls arbitrary: e) (simp_all add: parse_data_line)

lemma parse_data:
  "foldl parse_line (e, False) (map data_line (split_on (CHR 0x0A) s)) = (e\<lparr>sv_data := sv_data e @ s\<rparr>, True)"
proof (cases "split_on (CHR 0x0A) s")
  case (Cons l ls)
  then show ?thesis
    using split_on_join [OF Cons] by (simp add: parse_data_line parse_more_data)
qed (simp add: split_on_nonempty)

lemma parse_header:
  "foldl parse_line (e, b) (header_line ''event'' v) = (case v of None \<Rightarrow> e | Some x \<Rightarrow> e\<lparr>sv_event := Some x\<rparr>, b)"
  "foldl parse_line (e, b) (header_line ''id'' v) = (case v of None \<Rightarrow> e | Some x \<Rightarrow> e\<lparr>sv_id := Some x\<rparr>, b)"
  by (simp_all add: header_line_def parse_line_def field_of_def is_prefix_of_def strip_prefix_def split: option.splits)

lemma parse_frame_lines: "foldl parse_line (sse_event_default, False) (frame_lines e) = (e, True)"
  by (cases e) (simp add: frame_lines_def parse_header parse_data sse_event_default_def split: option.splits)

lemma frame_text_parsed:
  assumes "writable e"
  shows "frames_of (frame_text e @ s) = (let (es, rest) = frames_of s in (e # es, rest))"
proof -
  let ?body = "concat (map (\<lambda>l. l @ [CHR 0x0A]) (frame_lines e))"
  have ok: "list_all (\<lambda>l. one_line l \<and> l \<noteq> []) (frame_lines e)" "frame_lines e \<noteq> []"
    using frame_lines_ok [OF assms] split_on_nonempty by (auto simp: list_all_iff frame_lines_def)
  have "frame_text e @ s = ?body @ CHR 0x0A # s" by (simp add: frame_text_def)
  moreover have "find_frame_end (?body @ CHR 0x0A # s) = Some (length ?body - 1, length ?body + 1)"
    by (rule frame_end_lines [OF ok])
  moreover have "parse_frame (take (length ?body - 1) (?body @ CHR 0x0A # s)) = Some e"
  proof -
    have "take (length ?body - 1) (?body @ CHR 0x0A # s) = butlast ?body" by (simp add: butlast_conv_take)
    moreover have "filter (\<lambda>l. l \<noteq> []) (frame_lines e) = frame_lines e"
      using ok(1) by (simp add: list_all_iff filter_id_conv)
    ultimately show ?thesis using split_lines_lines [OF ok] parse_frame_lines by (simp add: parse_frame_def)
  qed
  ultimately show ?thesis
    using frames_of.simps [of "?body @ CHR 0x0A # s"] by simp
qed

lemma frame_texts_parsed: "list_all writable es \<Longrightarrow> frames_of (concat (map frame_text es)) = (es, [])"
  by (induction es) (simp_all add: frame_text_parsed)

text \<open>
  A piece of a stream of such frames never leaves a whole frame pending.
\<close>

lemma pending_prefix:
  assumes "list_all (\<lambda>e. writable e \<and> length (frame_text e) \<le> Suc limit) es"
    and "s @ u = concat (map frame_text es)"
  shows "length (snd (frames_of s)) \<le> limit"
  using assms
proof (induction es arbitrary: s)
  case (Cons e es)
  have e: "writable e" "length (frame_text e) \<le> Suc limit" using Cons.prems(1) by simp_all
  from Cons.prems(2) have "s @ u = frame_text e @ concat (map frame_text es)" by simp
  then obtain r where "s = frame_text e @ r \<and> r @ u = concat (map frame_text es) \<or>
      s @ r = frame_text e \<and> u = r @ concat (map frame_text es)"
    by (auto simp: append_eq_append_conv2)
  then consider t where "s = frame_text e @ t" "t @ u = concat (map frame_text es)"
    | t where "s @ t = frame_text e" "t \<noteq> []"
    by (cases "r = []") auto
  then show ?case
  proof cases
    case 1
    then show ?thesis using Cons.IH [of t] Cons.prems(1) e(1) by (cases "frames_of t") (simp add: frame_text_parsed)
  next
    case 2
    then have "length s \<le> limit" using e(2) by (cases t) (auto dest: arg_cong [of _ _ length])
    then show ?thesis using frames_of_length [of s] by simp
  qed
qed simp

lemma frames_fit:
  assumes "list_all (\<lambda>e. writable e \<and> length (frame_text e) \<le> Suc limit) es"
    and "concat chunks = concat (map frame_text es)"
  shows "pending_fits limit [] chunks"
proof -
  have "concat (take n chunks) @ concat (drop n chunks) = concat (map frame_text es)" for n
    using assms(2) by (metis append_take_drop_id concat_append)
  from pending_prefix [OF assms(1) this] show ?thesis by (simp add: pending_fits_iff)
qed

section \<open>Properties\<close>

text \<open>
  Chunk boundaries are meaningless between characters: a stream of valid text that never leaves
  more than the limit pending puts the decoder in the same state, with the same events, whether it
  arrives at once or in any pieces that do not cut a character.
\<close>

theorem chunk_boundaries_are_meaningless:
  assumes "list_all valid_utf8 chunks" and "pending_fits limit [] chunks"
  shows "feeds (with_limit limit) chunks = feed (with_limit limit) (concat chunks)"
proof -
  have "feeds (with_limit limit) chunks = (let (es, rest) = frames_of (concat chunks)
      in (Inr (), (with_limit limit)\<lparr>dc_buffer := rest, dc_ready := es\<rparr>))"
    using assms feeds_frames [of "with_limit limit" chunks] by (simp add: with_limit_def split: prod.splits)
  moreover have "feed (with_limit limit) (concat chunks) = (let (es, rest) = frames_of (concat chunks)
      in (Inr (), (with_limit limit)\<lparr>dc_buffer := rest, dc_ready := es\<rparr>))"
    using assms(1) pending_fits_Cons(1) [OF pending_fits_whole [OF assms(2)]]
      feed_frames [of "with_limit limit" "concat chunks"]
    by (simp add: with_limit_def valid_concat split: prod.splits)
  ultimately show ?thesis by simp
qed

text \<open>
  C26. What an emitter writes is what the decoder reads: the frames of any events (names and ids of
  one line, data without carriage returns), cut anywhere between characters, give back exactly
  these events in order, and nothing stays pending. The limit is per frame: a stream of any length
  is read as long as each frame, less the last character that completes it, is within the limit.
\<close>

theorem frames_round_trip:
  assumes "list_all (\<lambda>e. writable e \<and> length (frame_text e) \<le> Suc limit) es"
    and "concat chunks = concat (map frame_text es)" and "list_all valid_utf8 chunks"
  shows "\<exists>d. feeds (with_limit limit) chunks = (Inr (), d) \<and> fst (drain d) = es \<and> \<not> has_pending d"
proof -
  have "list_all writable es" using assms(1) by (simp add: list_all_iff)
  then show ?thesis
    using feeds_frames [of "with_limit limit" chunks] frames_fit [OF assms(1,2)] assms(2,3)
    by (simp add: with_limit_def frame_texts_parsed drain_def has_pending_def)
qed

theorem frames_round_trip_witness:
  "\<exists>d. feeds (with_limit 8) [''data: a'', [CHR 0x0A], CHR 0x0A # ''data: b'', [CHR 0x0A, CHR 0x0A]] = (Inr (), d) \<and>
     fst (drain d) = [\<lparr>sv_event = None, sv_data = ''a'', sv_id = None\<rparr>,
       \<lparr>sv_event = None, sv_data = ''b'', sv_id = None\<rparr>] \<and> \<not> has_pending d"
  by (rule frames_round_trip)
    (simp_all add: writable_def frame_text_def frame_lines_def data_line_def header_line_def valid_ascii less_char_def)

lemma one_line_frames: "one_line s \<Longrightarrow> frames_of s = ([], s)"
  using frame_end_skip [of s "[]"] by (simp add: frames_of.simps [of s])

lemma feed_extracts:
  assumes "\<not> dc_poisoned d" and "frames_of (dc_buffer d @ from_utf8_lossy c) = (es, rest)"
    and "length rest \<le> dc_limit d"
  shows "feed d c = (Inr (), d\<lparr>dc_buffer := rest, dc_ready := dc_ready d @ es\<rparr>)"
  using assms by (simp add: feed_def extract_frames_of)

lemma lossy_bad: "utf8_head (b # s) = (1, False) \<Longrightarrow> from_utf8_lossy (b # s) = replacement @ from_utf8_lossy s"
  by (simp add: from_utf8_lossy.simps [of "b # s"])

lemma lossy_ascii: "list_all (\<lambda>c. c < CHR 0x80) s \<Longrightarrow> from_utf8_lossy (s @ t) = s @ from_utf8_lossy t"
  by (intro lossy_append valid_ascii)

text \<open>
  C27. A character that a chunk boundary cuts is lost, although the frame completes: each of its two
  halves is replaced by U+FFFD, for every character of two bytes, where the uncut stream gives the
  character.
\<close>

theorem a_cut_character_is_lost:
  assumes "utf8_width a = 2" and "second_ok a b"
  shows "\<exists>d d'. feeds decoder_new [''data: '' @ [a], b # [CHR 0x0A, CHR 0x0A]] = (Inr (), d) \<and>
    fst (drain d) = [\<lparr>sv_event = None, sv_data = replacement @ replacement, sv_id = None\<rparr>] \<and>
    feed decoder_new (''data: '' @ [a, b, CHR 0x0A, CHR 0x0A]) = (Inr (), d') \<and>
    fst (drain d') = [\<lparr>sv_event = None, sv_data = [a, b], sv_id = None\<rparr>]"
proof -
  have a: "CHR 0xC2 \<le> a" "a \<le> CHR 0xDF" using assms(1) by (auto simp: utf8_width_def split: if_splits)
  then have b: "CHR 0x80 \<le> b" "b \<le> CHR 0xBF"
    using assms(2) by (auto simp: second_ok_def between_def less_eq_char_def split: if_splits)
  then have w: "utf8_width b = 0" by (auto simp: utf8_width_def less_eq_char_def less_char_def)
  have nl: "from_utf8_lossy [CHR 0x0A, CHR 0x0A] = [CHR 0x0A, CHR 0x0A]"
    by (intro lossy_valid valid_ascii) (simp add: less_char_def)
  have l1: "from_utf8_lossy (''data: '' @ [a]) = ''data: '' @ replacement"
    using lossy_bad [of a "[]"] lossy_ascii [of "''data: ''" "[a]"] assms(1)
    by (simp add: less_char_def from_utf8_lossy.simps [of "[]"])
  have l2: "from_utf8_lossy (b # [CHR 0x0A, CHR 0x0A]) = replacement @ [CHR 0x0A, CHR 0x0A]"
    using lossy_bad [of b "[CHR 0x0A, CHR 0x0A]"] w nl by simp
  have l3: "from_utf8_lossy (''data: '' @ [a, b, CHR 0x0A, CHR 0x0A]) = ''data: '' @ [a, b, CHR 0x0A, CHR 0x0A]"
  proof -
    have "valid_utf8 [a, b]" using assms by (simp add: valid_utf8.simps)
    then show ?thesis
      using lossy_ascii [of "''data: ''" "[a, b, CHR 0x0A, CHR 0x0A]"] lossy_append [of "[a, b]" "[CHR 0x0A, CHR 0x0A]"] nl
      by (simp add: less_char_def)
  qed
  have ft: "frame_text \<lparr>sv_event = None, sv_data = x, sv_id = None\<rparr> = ''data: '' @ x @ [CHR 0x0A, CHR 0x0A]"
    if "one_line x" for x
  proof -
    have "split_on (CHR 0x0A) x = [x]" using that by (induction x) (auto simp: one_line_def)
    then show ?thesis by (simp add: frame_text_def frame_lines_def header_line_def data_line_def)
  qed
  have fr: "frames_of (''data: '' @ x @ [CHR 0x0A, CHR 0x0A]) = ([\<lparr>sv_event = None, sv_data = x, sv_id = None\<rparr>], [])"
    if "one_line x" for x
    using frame_text_parsed [of "\<lparr>sv_event = None, sv_data = x, sv_id = None\<rparr>" "[]"] ft [OF that] that
    by (simp add: writable_def one_line_def)
  have one: "one_line (''data: '' @ replacement)" "one_line (replacement @ replacement)" "one_line [a, b]"
    using a b by (auto simp: one_line_def replacement_def less_eq_char_def)
  let ?d = "decoder_new\<lparr>dc_buffer := ''data: '' @ replacement\<rparr>"
  have "feed decoder_new (''data: '' @ [a]) = (Inr (), ?d)"
    using feed_extracts [of decoder_new "''data: '' @ [a]"] one_line_frames [OF one(1)] l1
    by (simp add: decoder_new_def with_limit_def default_frame_limit_def replacement_def)
  moreover have "feed ?d (b # [CHR 0x0A, CHR 0x0A]) =
      (Inr (), decoder_new\<lparr>dc_ready := [\<lparr>sv_event = None, sv_data = replacement @ replacement, sv_id = None\<rparr>]\<rparr>)"
    using feed_extracts [of ?d "b # [CHR 0x0A, CHR 0x0A]"] fr [OF one(2)] l2
    by (simp add: decoder_new_def with_limit_def)
  moreover have "feed decoder_new (''data: '' @ [a, b, CHR 0x0A, CHR 0x0A]) =
      (Inr (), decoder_new\<lparr>dc_ready := [\<lparr>sv_event = None, sv_data = [a, b], sv_id = None\<rparr>]\<rparr>)"
    using feed_extracts [of decoder_new "''data: '' @ [a, b, CHR 0x0A, CHR 0x0A]"] fr [OF one(3)] l3
    by (simp add: decoder_new_def with_limit_def)
  ultimately show ?thesis by (simp add: drain_def)
qed

theorem a_cut_character_is_lost_witness:
  "\<exists>d. feeds decoder_new [''data: '' @ [CHR 0xC3], CHR 0xA9 # [CHR 0x0A, CHR 0x0A]] = (Inr (), d) \<and>
     fst (drain d) = [\<lparr>sv_event = None, sv_data = replacement @ replacement, sv_id = None\<rparr>]"
  using a_cut_character_is_lost [of "CHR 0xC3" "CHR 0xA9"]
  by (auto simp: utf8_width_def second_ok_def between_def less_eq_char_def less_char_def)

end
