(* ===== verification/ToolNames.thy ===== *)
theory ToolNames
  imports RunEvents Credentials "HOL-Library.Word"
begin

text \<open>
  Provider-compatible tool names (\<open>crates/lightagent-provider-lightweight/src/names.rs\<close>): the
  two-way map of one request. A name is a string of UTF-8 bytes; a character outside ASCII is its
  first byte with the continuation bytes after it.
\<close>

unbundle bit_operations_syntax

section \<open>Names\<close>

definition max_portable_name :: nat where
  "max_portable_name = 64"

definition undeclared_prefix :: string where
  "undeclared_prefix = ''undeclared:''"

definition portable_char :: "char \<Rightarrow> bool" where
  "portable_char c \<longleftrightarrow> is_digit c \<or> is_lower c \<or> is_upper c \<or> c = CHR ''_'' \<or> c = CHR ''-''"

definition is_portable :: "string \<Rightarrow> bool" where
  "is_portable name \<longleftrightarrow> name \<noteq> [] \<and> length name \<le> max_portable_name \<and> list_all portable_char name"

definition readable :: "string \<Rightarrow> string" where
  "readable name =
     (let out = concat (map (\<lambda>c. if c = CHR ''.'' then ''__'' else if portable_char c then [c]
            else if is_continuation c then [] else ''_'') name)
      in if out = [] then ''_'' else out)"

text \<open>FNV-1a in 32 bits, as eight hexadecimal digits.\<close>

definition fnv_step :: "32 word \<Rightarrow> char \<Rightarrow> 32 word" where
  "fnv_step hash b = (hash XOR of_nat (of_char b)) * 0x01000193"

definition short_hash :: "string \<Rightarrow> string" where
  "short_hash name =
     (let hash = foldl fnv_step 0x811c9dc5 name
      in map (\<lambda>i. hex_digit (unat (drop_bit (4 * i) hash) mod 16)) [7, 6, 5, 4, 3, 2, 1, 0])"

definition hashed :: "string \<Rightarrow> string \<Rightarrow> string" where
  "hashed base internal =
     (let suffix = ''_'' @ short_hash internal; room = max_portable_name - length suffix
      in take room base @ suffix)"

section \<open>The map of a request\<close>

record name_map =
  nm_outbound :: "(string, string) btree"
  nm_inbound :: "(string, string) btree"

definition empty_name_map :: name_map where
  "empty_name_map = \<lparr>nm_outbound = [], nm_inbound = []\<rparr>"

definition candidate :: "string \<Rightarrow> string" where
  "candidate name = (if is_portable name then name else readable name)"

definition contested :: "(string \<times> string) list \<Rightarrow> string \<Rightarrow> bool" where
  "contested first c = (1 < length (filter (\<lambda>(_, c'). c' = c) first))"

definition chosen_name :: "(string \<times> string) list \<Rightarrow> string \<times> string \<Rightarrow> string" where
  "chosen_name first p =
     (let (name, c) = p
      in if contested first c \<or> length c > max_portable_name then hashed c name else c)"

definition clash_error :: "string \<Rightarrow> provider_error" where
  "clash_error chosen = Upstream (''two tools cannot be given distinct provider-compatible names ('' @
     chosen @ ''); rename one, or set inference.tool_names to native'')"

fun claim_names :: "(string \<times> string) list \<Rightarrow> (string \<times> string) list \<Rightarrow> name_map \<Rightarrow> provider_error + name_map" where
  "claim_names first [] m = Inr m"
| "claim_names first ((name, c) # rest) m =
     (let chosen = chosen_name first (name, c)
      in if bt_get (nm_inbound m) chosen \<noteq> None then Inl (clash_error chosen)
         else claim_names first rest
           \<lparr>nm_outbound = bt_insert name chosen (nm_outbound m),
            nm_inbound = bt_insert chosen name (nm_inbound m)\<rparr>)"

definition portable_map :: "string list \<Rightarrow> provider_error + name_map" where
  "portable_map names =
     (let internal = remdups_adj (sort names); first = map (\<lambda>n. (n, candidate n)) internal
      in claim_names first first empty_name_map)"

definition outbound_name :: "name_map \<Rightarrow> string \<Rightarrow> string" where
  "outbound_name m internal =
     (case bt_get (nm_outbound m) internal of
        Some chosen \<Rightarrow> chosen
      | None \<Rightarrow> hashed (readable internal) internal)"

definition inbound_name :: "name_map \<Rightarrow> string \<Rightarrow> string" where
  "inbound_name m provider =
     (case bt_get (nm_inbound m) provider of
        Some internal \<Rightarrow> internal
      | None \<Rightarrow> undeclared_prefix @ provider)"

section \<open>Portable spellings\<close>

lemma portable_hex: "portable_char (hex_digit n)" if "n < 16"
  using that hex_digit_lower [of n] by (auto simp: portable_char_def is_lower_hex_def is_lower_def less_eq_char_def)

lemma short_hash_portable: "list_all portable_char (short_hash name)"
  by (simp add: short_hash_def Let_def portable_hex)

lemma short_hash_length [simp]: "length (short_hash name) = 8"
  by (simp add: short_hash_def Let_def)

lemma readable_portable: "list_all portable_char (readable name)" "readable name \<noteq> []"
  by (auto simp: readable_def Let_def list_all_iff portable_char_def)

lemma candidate_portable: "list_all portable_char (candidate name)" "candidate name \<noteq> []"
  using readable_portable by (auto simp: candidate_def is_portable_def)

lemma hashed_portable: "list_all portable_char base \<Longrightarrow> is_portable (hashed base internal)"
  using short_hash_portable [of internal]
  by (auto simp: hashed_def Let_def is_portable_def max_portable_name_def list_all_iff portable_char_def dest: in_set_takeD)

lemma chosen_portable: "is_portable (chosen_name first (n, candidate n))"
  using candidate_portable [of n] hashed_portable by (auto simp: chosen_name_def is_portable_def)

section \<open>The loop\<close>

text \<open>The two maps are inverse to each other and hold exactly the names that were claimed.\<close>

definition paired :: "string set \<Rightarrow> name_map \<Rightarrow> bool" where
  "paired ns m \<longleftrightarrow> dom (bt_get (nm_outbound m)) = ns \<and>
     (\<forall>n c. bt_get (nm_outbound m) n = Some c \<longleftrightarrow> bt_get (nm_inbound m) c = Some n)"

lemma paired_empty: "paired {} empty_name_map"
  by (simp add: paired_def empty_name_map_def)

lemma paired_claim:
  assumes "paired ns m" and "n \<notin> ns" and "bt_get (nm_inbound m) c = None"
  shows "paired (insert n ns) \<lparr>nm_outbound = bt_insert n c (nm_outbound m), nm_inbound = bt_insert c n (nm_inbound m)\<rparr>"
  using assms by (auto simp: paired_def bt_simps)

lemma claim_names_paired:
  assumes "claim_names first ps m = Inr m'" and "paired ns m" and "distinct (map fst ps)"
    and "fst ` set ps \<inter> ns = {}"
  shows "paired (ns \<union> fst ` set ps) m' \<and>
    (\<forall>p \<in> set ps. bt_get (nm_outbound m') (fst p) = Some (chosen_name first p)) \<and>
    (\<forall>n \<in> ns. bt_get (nm_outbound m') n = bt_get (nm_outbound m) n)"
  using assms
proof (induction first ps m arbitrary: ns rule: claim_names.induct)
  case (2 first name c rest m)
  let ?c = "chosen_name first (name, c)"
  let ?m = "\<lparr>nm_outbound = bt_insert name ?c (nm_outbound m), nm_inbound = bt_insert ?c name (nm_inbound m)\<rparr>"
  have free: "bt_get (nm_inbound m) ?c = None" "claim_names first rest ?m = Inr m'"
    using "2.prems"(1) by (simp_all add: Let_def split: if_splits)
  have "paired (insert name ns) ?m"
    using "2.prems" free(1) by (intro paired_claim) auto
  then have "paired (insert name ns \<union> fst ` set rest) m' \<and>
    (\<forall>p \<in> set rest. bt_get (nm_outbound m') (fst p) = Some (chosen_name first p)) \<and>
    (\<forall>n \<in> insert name ns. bt_get (nm_outbound m') n = bt_get (nm_outbound ?m) n)"
    using "2.prems" free by (intro "2.IH") auto
  moreover have "n \<noteq> name" if "n \<in> ns" for n using that "2.prems"(4) by auto
  ultimately show ?case by (auto simp: bt_simps)
qed auto

lemma sorted_distinct: "sorted xs \<Longrightarrow> distinct (remdups_adj xs)"
  by (induction xs rule: remdups_adj.induct) (auto dest: antisym)

lemma portable_map_paired:
  assumes "portable_map names = Inr m"
  shows "paired (set names) m" and
    "n \<in> set names \<Longrightarrow> bt_get (nm_outbound m) n =
       Some (chosen_name (map (\<lambda>n. (n, candidate n)) (remdups_adj (sort names))) (n, candidate n))"
proof -
  let ?ns = "remdups_adj (sort names)"
  have "claim_names (map (\<lambda>n. (n, candidate n)) ?ns) (map (\<lambda>n. (n, candidate n)) ?ns) empty_name_map = Inr m"
    using assms by (simp add: portable_map_def Let_def)
  from claim_names_paired [OF this paired_empty]
  have r: "paired (set ?ns) m \<and> (\<forall>p \<in> set (map (\<lambda>n. (n, candidate n)) ?ns). bt_get (nm_outbound m) (fst p) =
      Some (chosen_name (map (\<lambda>n. (n, candidate n)) ?ns) p))"
    by (simp add: comp_def sorted_distinct image_image)
  then show "paired (set names) m" by simp
  show "n \<in> set names \<Longrightarrow> bt_get (nm_outbound m) n = Some (chosen_name (map (\<lambda>n. (n, candidate n)) ?ns) (n, candidate n))"
    using r by auto
qed

lemma inbound_known:
  assumes "portable_map names = Inr m"
  shows "inbound_name m q \<in> set names \<or> inbound_name m q = undeclared_prefix @ q"
  using portable_map_paired(1) [OF assms] by (auto simp: inbound_name_def paired_def split: option.splits)

lemma uncontested:
  assumes "distinct ns" and "n \<in> set ns" and "\<forall>n' \<in> set ns. n' \<noteq> n \<longrightarrow> candidate n' \<noteq> candidate n"
  shows "\<not> contested (map (\<lambda>n. (n, candidate n)) ns) (candidate n)"
proof -
  let ?f = "filter (\<lambda>(_, c). c = candidate n) (map (\<lambda>n. (n, candidate n)) ns)"
  have "distinct ?f" using assms(1) by (simp add: distinct_map inj_on_def)
  then have "length ?f = card (set ?f)" by (simp only: distinct_card)
  also have "\<dots> \<le> card {(n, candidate n)}" by (intro card_mono) (use assms(3) in auto)
  finally show ?thesis by (simp add: contested_def)
qed

section \<open>Properties\<close>

text \<open>
  C28. Tool names survive the round trip to the provider. Every name of a request whose map could be
  built is sent in the portable alphabet and length, comes back as the name it was, and no two
  names share a spelling; a name that is portable already and that no other name wants is sent as
  it is; a returned name that was not sent becomes an undeclared one.
\<close>

theorem tool_names_round_trip:
  assumes "portable_map names = Inr m"
  shows "(\<forall>n \<in> set names. is_portable (outbound_name m n) \<and> inbound_name m (outbound_name m n) = n) \<and>
    inj_on (outbound_name m) (set names) \<and>
    (\<forall>n \<in> set names. is_portable n \<and> (\<forall>n' \<in> set names. n' \<noteq> n \<longrightarrow> candidate n' \<noteq> n) \<longrightarrow>
       outbound_name m n = n) \<and>
    (\<forall>p. inbound_name m p \<in> set names \<and> outbound_name m (inbound_name m p) = p \<or>
       inbound_name m p = undeclared_prefix @ p \<and> p \<notin> outbound_name m ` set names)"
proof -
  note p = portable_map_paired [OF assms]
  have out: "bt_get (nm_outbound m) n = Some (outbound_name m n)" "is_portable (outbound_name m n)"
    if "n \<in> set names" for n
    using p(2) [OF that] chosen_portable by (simp_all add: outbound_name_def)
  then have ret: "inbound_name m (outbound_name m n) = n" if "n \<in> set names" for n
    using that p(1) by (simp add: paired_def inbound_name_def)
  have same: "outbound_name m n = n"
    if n: "n \<in> set names" "is_portable n" "\<forall>n' \<in> set names. n' \<noteq> n \<longrightarrow> candidate n' \<noteq> n" for n
  proof -
    have "candidate n = n" using n(2) by (simp add: candidate_def)
    moreover from this have "\<not> contested (map (\<lambda>n. (n, candidate n)) (remdups_adj (sort names))) n"
      using uncontested [of "remdups_adj (sort names)" n] n by (simp add: sorted_distinct)
    ultimately show ?thesis
      using p(2) [OF n(1)] n(2) by (simp add: outbound_name_def chosen_name_def is_portable_def)
  qed
  have "inbound_name m q \<in> set names \<and> outbound_name m (inbound_name m q) = q \<or>
       inbound_name m q = undeclared_prefix @ q \<and> q \<notin> outbound_name m ` set names" for q
  proof (cases "bt_get (nm_inbound m) q")
    case None
    then show ?thesis using out p(1) by (auto simp: inbound_name_def paired_def)
  next
    case (Some n)
    then have "bt_get (nm_outbound m) n = Some q" using p(1) by (simp add: paired_def)
    moreover from this have "n \<in> set names" using p(1) unfolding paired_def by blast
    ultimately show ?thesis using Some by (simp add: inbound_name_def outbound_name_def)
  qed
  moreover have "inj_on (outbound_name m) (set names)" using ret by (rule inj_on_inverseI)
  ultimately show ?thesis using out ret same by blast
qed

theorem tool_names_round_trip_witness:
  "\<exists>m. portable_map [''web.search'', ''fs''] = Inr m \<and>
     inbound_name m (outbound_name m ''web.search'') = ''web.search''"
proof -
  define m where "m = \<lparr>nm_outbound = [(''fs'', ''fs''), (''web.search'', ''web__search'')],
    nm_inbound = [(''fs'', ''fs''), (''web__search'', ''web.search'')]\<rparr>"
  have m: "portable_map [''web.search'', ''fs''] = Inr m"
    unfolding m_def by code_simp
  then show ?thesis using tool_names_round_trip [OF m] by auto
qed

end
