(* ===== verification/ProviderClient.thy ===== *)
theory ProviderClient
  imports SseDecoder ToolNames AgentLoop
begin

text \<open>
  The client of an OpenAI-compatible endpoint
  (\<open>crates/lightagent-provider-lightweight/src/provider.rs\<close> and \<open>wire.rs\<close>): the inbound
  chunk types with the reading rules their declarations give, the request body, the choice of the
  model, and the translation of the response stream into the provider events of the agent loop.

  The HTTP client and the JSON text parser are parameters, and so is the wording of a reading
  error and of the debug form of a string. The parser gives the members of an object in the order
  of the text, repeated ones included. What the body of a response delivers, and when the run is
  cancelled, is a list of polls.
\<close>

section \<open>Reading rules\<close>

text \<open>
  A declared structure is read from an object, where a known member may occur once and unknown
  members are ignored, or from an array of its fields in order; every field has a default.
\<close>

definition object_fields :: "string list \<Rightarrow> (string \<times> json) list \<Rightarrow> json option list option" where
  "object_fields names m =
     (if list_ex (\<lambda>n. 1 < length (filter (\<lambda>(k, _). k = n) m)) names then None
      else Some (map (\<lambda>n. map_of m n) names))"

definition array_fields :: "string list \<Rightarrow> json list \<Rightarrow> json option list option" where
  "array_fields names xs =
     (if length xs > length names then None
      else Some (map Some xs @ replicate (length names - length xs) None))"

fun struct_fields :: "string list \<Rightarrow> json \<Rightarrow> json option list option" where
  "struct_fields names (JObject m) = object_fields names m"
| "struct_fields names (JArray xs) = array_fields names xs"
| "struct_fields names _ = None"

definition defaulted :: "'a \<Rightarrow> (json \<Rightarrow> 'a option) \<Rightarrow> json option \<Rightarrow> 'a option" where
  "defaulted d f v = (case v of None \<Rightarrow> Some d | Some j \<Rightarrow> f j)"

fun optional :: "(json \<Rightarrow> 'a option) \<Rightarrow> json \<Rightarrow> 'a option option" where
  "optional f JNull = Some None"
| "optional f j = map_option Some (f j)"

fun all_some :: "'a option list \<Rightarrow> 'a list option" where
  "all_some [] = Some []"
| "all_some (None # xs) = None"
| "all_some (Some x # xs) = map_option ((#) x) (all_some xs)"

fun vec_of :: "(json \<Rightarrow> 'a option) \<Rightarrow> json \<Rightarrow> 'a list option" where
  "vec_of f (JArray xs) = all_some (map f xs)"
| "vec_of f _ = None"

definition u32_of :: "json \<Rightarrow> nat option" where
  "u32_of j = (case as_u64 j of None \<Rightarrow> None | Some n \<Rightarrow> if n \<le> u32_max then Some n else None)"

section \<open>Chunks\<close>

record function_delta =
  fd_name :: "string option"
  fd_arguments :: "string option"

record tool_call_delta =
  td_index :: nat
  td_id :: "string option"
  td_function :: "function_delta option"

record delta =
  dl_role :: "string option"
  dl_content :: "string option"
  dl_reasoning_content :: "string option"
  dl_reasoning :: "string option"
  dl_tool_calls :: "tool_call_delta list option"

record chunk_choice =
  cc_delta :: delta
  cc_finish_reason :: "string option"

record error_body =
  eb_message :: string
  eb_type :: "string option"

record chat_chunk =
  ck_choices :: "chunk_choice list"
  ck_usage :: "usage option"
  ck_error :: "error_body option"

definition empty_delta :: delta where
  "empty_delta = \<lparr>dl_role = None, dl_content = None, dl_reasoning_content = None, dl_reasoning = None,
     dl_tool_calls = None\<rparr>"

definition reasoning_text :: "delta \<Rightarrow> string option" where
  "reasoning_text d = (case dl_reasoning_content d of Some t \<Rightarrow> Some t | None \<Rightarrow> dl_reasoning d)"

abbreviation opt_string :: "json option \<Rightarrow> string option option" where
  "opt_string \<equiv> defaulted None (optional as_str)"

definition function_of :: "json \<Rightarrow> function_delta option" where
  "function_of j =
     (case struct_fields [''name'', ''arguments''] j of
        Some [n, a] \<Rightarrow> (case (opt_string n, opt_string a) of
            (Some n, Some a) \<Rightarrow> Some \<lparr>fd_name = n, fd_arguments = a\<rparr>
          | _ \<Rightarrow> None)
      | _ \<Rightarrow> None)"

definition call_of :: "json \<Rightarrow> tool_call_delta option" where
  "call_of j =
     (case struct_fields [''index'', ''id'', ''function''] j of
        Some [i, n, f] \<Rightarrow>
          (case (defaulted 0 u32_of i, opt_string n, defaulted None (optional function_of) f) of
            (Some i, Some n, Some f) \<Rightarrow> Some \<lparr>td_index = i, td_id = n, td_function = f\<rparr>
          | _ \<Rightarrow> None)
      | _ \<Rightarrow> None)"

definition delta_of :: "json \<Rightarrow> delta option" where
  "delta_of j =
     (case struct_fields [''role'', ''content'', ''reasoning_content'', ''reasoning'', ''tool_calls''] j of
        Some [r, c, rc, rs, t] \<Rightarrow>
          (case (opt_string r, opt_string c, opt_string rc, opt_string rs,
              defaulted None (optional (vec_of call_of)) t) of
            (Some r, Some c, Some rc, Some rs, Some t) \<Rightarrow>
              Some \<lparr>dl_role = r, dl_content = c, dl_reasoning_content = rc, dl_reasoning = rs, dl_tool_calls = t\<rparr>
          | _ \<Rightarrow> None)
      | _ \<Rightarrow> None)"

definition choice_of :: "json \<Rightarrow> chunk_choice option" where
  "choice_of j =
     (case struct_fields [''delta'', ''finish_reason''] j of
        Some [d, f] \<Rightarrow> (case (defaulted empty_delta delta_of d, opt_string f) of
            (Some d, Some f) \<Rightarrow> Some \<lparr>cc_delta = d, cc_finish_reason = f\<rparr>
          | _ \<Rightarrow> None)
      | _ \<Rightarrow> None)"

definition usage_of :: "json \<Rightarrow> usage option" where
  "usage_of j =
     (case struct_fields [''prompt_tokens'', ''completion_tokens'', ''total_tokens''] j of
        Some [p, c, t] \<Rightarrow> (case (defaulted 0 u32_of p, defaulted 0 u32_of c, defaulted 0 u32_of t) of
            (Some p, Some c, Some t) \<Rightarrow>
              Some \<lparr>us_prompt_tokens = p, us_completion_tokens = c, us_total_tokens = t\<rparr>
          | _ \<Rightarrow> None)
      | _ \<Rightarrow> None)"

definition error_of :: "json \<Rightarrow> error_body option" where
  "error_of j =
     (case struct_fields [''message'', ''type''] j of
        Some [m, t] \<Rightarrow> (case (defaulted [] as_str m, opt_string t) of
            (Some m, Some t) \<Rightarrow> Some \<lparr>eb_message = m, eb_type = t\<rparr>
          | _ \<Rightarrow> None)
      | _ \<Rightarrow> None)"

definition chunk_of :: "json \<Rightarrow> chat_chunk option" where
  "chunk_of j =
     (case struct_fields [''choices'', ''usage'', ''error''] j of
        Some [c, u, e] \<Rightarrow>
          (case (defaulted [] (vec_of choice_of) c, defaulted None (optional usage_of) u,
              defaulted None (optional error_of) e) of
            (Some c, Some u, Some e) \<Rightarrow> Some \<lparr>ck_choices = c, ck_usage = u, ck_error = e\<rparr>
          | _ \<Rightarrow> None)
      | _ \<Rightarrow> None)"

section \<open>Models and capabilities\<close>

record model_entry =
  me_id :: string
  me_n_ctx :: "nat option"
  me_hermes :: "json option"

definition entry_of :: "json \<Rightarrow> model_entry option" where
  "entry_of j =
     (case struct_fields [''id'', ''n_ctx'', ''hermes''] j of
        Some [i, n, h] \<Rightarrow>
          (case (defaulted [] as_str i, defaulted None (optional u32_of) n, defaulted None (optional Some) h) of
            (Some i, Some n, Some h) \<Rightarrow> Some \<lparr>me_id = i, me_n_ctx = n, me_hermes = h\<rparr>
          | _ \<Rightarrow> None)
      | _ \<Rightarrow> None)"

definition models_of :: "json \<Rightarrow> model_entry list option" where
  "models_of j =
     (case struct_fields [''data''] j of
        Some [d] \<Rightarrow> defaulted [] (vec_of entry_of) d
      | _ \<Rightarrow> None)"

definition capabilities_protocol :: string where
  "capabilities_protocol = ''lightweight-public-inference''"

definition protocol_of :: "json \<Rightarrow> string option" where
  "protocol_of j = (case struct_fields [''name''] j of Some [n] \<Rightarrow> defaulted [] as_str n | _ \<Rightarrow> None)"

definition resident_of :: "json \<Rightarrow> (string \<times> nat option) option" where
  "resident_of j =
     (case struct_fields [''id'', ''context_length''] j of
        Some [i, c] \<Rightarrow> (case (defaulted [] as_str i, defaulted None (optional u32_of) c) of
            (Some i, Some c) \<Rightarrow> Some (i, c) | _ \<Rightarrow> None)
      | _ \<Rightarrow> None)"

definition state_of :: "json \<Rightarrow> (string \<times> nat option) option option" where
  "state_of j =
     (case struct_fields [''model''] j of
        Some [m] \<Rightarrow> defaulted None (optional resident_of) m | _ \<Rightarrow> None)"

text \<open>The protocol name and the resident model of a \<open>/v1/capabilities\<close> answer.\<close>

definition capabilities_of :: "json \<Rightarrow> (string \<times> (string \<times> nat option) option) option" where
  "capabilities_of j =
     (case struct_fields [''protocol'', ''state''] j of
        Some [p, s] \<Rightarrow> (case (defaulted [] protocol_of p, defaulted None state_of s) of
            (Some p, Some s) \<Rightarrow> Some (p, s) | _ \<Rightarrow> None)
      | _ \<Rightarrow> None)"

section \<open>Requests\<close>

datatype tool_name_mode = NativeNames | PortableNames

record provider_config =
  pf_base_url :: string
  pf_model :: string
  pf_api_key :: "string option"
  pf_tool_names :: tool_name_mode

definition provider_config_new :: "string \<Rightarrow> string \<Rightarrow> provider_config" where
  "provider_config_new base_url model =
     \<lparr>pf_base_url = base_url, pf_model = model, pf_api_key = None, pf_tool_names = NativeNames\<rparr>"

text \<open>The answer to a \<open>GET\<close> of a path with the key of the configuration.\<close>

datatype http_answer =
    HttpFailed string
  | BodyUnreadable string
  | HttpAnswer string bool string

definition get_path :: "(string \<Rightarrow> http_answer) \<Rightarrow> string \<Rightarrow> provider_error + string" where
  "get_path http path =
     (case http path of
        HttpFailed e \<Rightarrow> Inl (Transport e)
      | BodyUnreadable e \<Rightarrow> Inl (Transport e)
      | HttpAnswer status success body \<Rightarrow>
          if success then Inr body
          else Inl (Upstream (''the provider answered '' @ status @ '' to GET '' @ path)))"

definition list_models ::
  "(string \<Rightarrow> string) \<Rightarrow> (string \<Rightarrow> json option) \<Rightarrow> (string \<Rightarrow> http_answer) \<Rightarrow> provider_error + string list" where
  "list_models reading parse http =
     (case get_path http ''/v1/models'' of
        Inl e \<Rightarrow> Inl e
      | Inr body \<Rightarrow> (case Option.bind (parse body) models_of of
          None \<Rightarrow> Inl (Upstream (reading body))
        | Some entries \<Rightarrow> Inr (map me_id entries)))"

text \<open>\<open>reading\<close> words why a body could not be read, \<open>quote\<close> is the debug form of a string.\<close>

definition resolve_model ::
  "(string \<Rightarrow> string) \<Rightarrow> (string \<Rightarrow> string) \<Rightarrow> (string \<Rightarrow> json option) \<Rightarrow> (string \<Rightarrow> http_answer) \<Rightarrow> provider_config
    \<Rightarrow> provider_error + string" where
  "resolve_model quote reading parse http config =
     (let configured = trim (pf_model config)
      in case list_models reading parse http of
           Inl e \<Rightarrow> Inl e
         | Inr listed \<Rightarrow>
             let models = filter (\<lambda>m. trim m \<noteq> []) listed
             in if configured \<noteq> [] \<and> configured \<in> set models then Inr (pf_model config)
                else case models of
                    [m] \<Rightarrow> Inr m
                  | [] \<Rightarrow> Inl (Upstream ''No model is loaded. Load a model in Lightweight's Models screen, then retry.'')
                  | _ \<Rightarrow> Inl (Upstream (''Model '' @ quote configured @ '' is not available. The provider advertises multiple models; set inference.model or the profile's model to one of them.'')))"

definition positive :: "nat option \<Rightarrow> nat option" where
  "positive n = (case n of Some t \<Rightarrow> if t > 0 then Some t else None | None \<Rightarrow> None)"

definition capability_window :: "(string \<Rightarrow> json option) \<Rightarrow> (string \<Rightarrow> http_answer) \<Rightarrow> string \<Rightarrow> nat option" where
  "capability_window parse http model =
     (case get_path http ''/v1/capabilities'' of
        Inl _ \<Rightarrow> None
      | Inr body \<Rightarrow> (case Option.bind (parse body) capabilities_of of
          Some (protocol, Some (resident, tokens)) \<Rightarrow>
            if protocol = capabilities_protocol \<and> resident = model then positive tokens else None
        | _ \<Rightarrow> None))"

definition listed_window :: "(string \<Rightarrow> json option) \<Rightarrow> (string \<Rightarrow> http_answer) \<Rightarrow> string \<Rightarrow> nat option" where
  "listed_window parse http model =
     (case get_path http ''/v1/models'' of
        Inl _ \<Rightarrow> None
      | Inr body \<Rightarrow> (case Option.bind (parse body) models_of of
          None \<Rightarrow> None
        | Some entries \<Rightarrow>
            (case find (\<lambda>m. me_id m = model \<and> me_hermes m \<noteq> None) entries of
               None \<Rightarrow> None
             | Some m \<Rightarrow> positive (me_n_ctx m))))"

definition served_context_window ::
  "(string \<Rightarrow> json option) \<Rightarrow> (string \<Rightarrow> http_answer) \<Rightarrow> string \<Rightarrow> nat option" where
  "served_context_window parse http model =
     (case capability_window parse http model of
        Some tokens \<Rightarrow> Some tokens
      | None \<Rightarrow> listed_window parse http model)"

definition served_model ::
  "(string \<Rightarrow> string) \<Rightarrow> (string \<Rightarrow> string) \<Rightarrow> (string \<Rightarrow> json option) \<Rightarrow> (string \<Rightarrow> http_answer) \<Rightarrow> provider_config
    \<Rightarrow> string option \<times> nat option" where
  "served_model quote reading parse http config =
     (case resolve_model quote reading parse http config of
        Inl _ \<Rightarrow> (None, None)
      | Inr model \<Rightarrow> (Some model, served_context_window parse http model))"

definition request_names :: "json provider_request \<Rightarrow> string list" where
  "request_names request = map ts_name (pq_tools request) @
     concat (map (\<lambda>m. map tc_name (pm_tool_calls m)) (pq_messages request))"

definition name_map_of :: "provider_config \<Rightarrow> json provider_request \<Rightarrow> provider_error + name_map option" where
  "name_map_of config request =
     (case pf_tool_names config of
        NativeNames \<Rightarrow> Inr None
      | PortableNames \<Rightarrow> map_sum id Some (portable_map (request_names request)))"

definition wire_name :: "string \<Rightarrow> name_map option \<Rightarrow> string" where
  "wire_name internal names = (case names of Some m \<Rightarrow> outbound_name m internal | None \<Rightarrow> internal)"

text \<open>\<open>json!\<close> of an object: a map ordered by its keys.\<close>

definition json_object :: "(string \<times> json) list \<Rightarrow> json" where
  "json_object members = JObject (foldl (\<lambda>m (k, v). bt_insert k v m) [] members)"

definition call_to_json :: "name_map option \<Rightarrow> provider_tool_call \<Rightarrow> json" where
  "call_to_json names c = json_object
     [(''id'', JString (tc_id c)), (''type'', JString ''function''),
      (''function'', json_object [(''name'', JString (wire_name (tc_name c) names)),
         (''arguments'', JString (tc_arguments c))])]"

definition message_to_json :: "name_map option \<Rightarrow> provider_message \<Rightarrow> json" where
  "message_to_json names m = json_object
     ([(''role'', JString (message_role_as_str (pm_role m))), (''content'', JString (pm_content m))] @
      (case pm_name m of
         None \<Rightarrow> []
       | Some n \<Rightarrow> [(''name'', JString (if pm_role m = Tool then wire_name n names else n))]) @
      (case pm_tool_call_id m of None \<Rightarrow> [] | Some i \<Rightarrow> [(''tool_call_id'', JString i)]) @
      (if pm_role m = Assistant \<and> pm_tool_calls m \<noteq> []
       then [(''tool_calls'', JArray (map (call_to_json names) (pm_tool_calls m)))] else []))"

definition tool_to_json :: "name_map option \<Rightarrow> json tool_schema \<Rightarrow> json" where
  "tool_to_json names tool = json_object
     [(''type'', JString ''function''),
      (''function'', json_object [(''name'', JString (wire_name (ts_name tool) names)),
         (''description'', JString (ts_description tool)),
         (''parameters'', if ts_parameters tool = JNull
            then json_object [(''type'', JString ''object''), (''properties'', JObject [])]
            else ts_parameters tool)])]"

text \<open>The loop never sets a temperature, so the body has none.\<close>

definition body_with :: "provider_config \<Rightarrow> json provider_request \<Rightarrow> name_map option \<Rightarrow> json" where
  "body_with config request names = json_object
     ([(''model'', JString (pf_model config)),
       (''messages'', JArray (map (message_to_json names) (pq_messages request))),
       (''stream'', JBool True),
       (''stream_options'', json_object [(''include_usage'', JBool True)])] @
      (if pq_tools request \<noteq> [] then [(''tools'', JArray (map (tool_to_json names) (pq_tools request)))] else []) @
      (case pq_max_tokens request of None \<Rightarrow> [] | Some n \<Rightarrow> [(''max_tokens'', JNumber (PosInt n))]) @
      (case pq_reasoning_effort request of None \<Rightarrow> [] | Some e \<Rightarrow> [(''reasoning_effort'', JString e)]))"

section \<open>The response stream\<close>

text \<open>What one wait for the body gives; no more entries is the end of the body.\<close>

datatype poll = PollBytes string | PollFailed string | PollCancelled

record translation =
  tr_body :: "poll list"
  tr_decoder :: decoder
  tr_pending :: "stream_item list"
  tr_role_seen :: bool
  tr_finish_reason :: "finish_reason option"
  tr_done :: bool
  tr_usage :: "usage option"
  tr_finished :: bool
  tr_emitted_finish :: bool
  tr_names :: "name_map option"

definition translation_new :: "poll list \<Rightarrow> name_map option \<Rightarrow> translation" where
  "translation_new body names =
     \<lparr>tr_body = body, tr_decoder = decoder_new, tr_pending = [], tr_role_seen = False,
      tr_finish_reason = None, tr_done = False, tr_usage = None, tr_finished = False,
      tr_emitted_finish = False, tr_names = names\<rparr>"

definition push_item :: "stream_item \<Rightarrow> translation \<Rightarrow> translation" where
  "push_item item t = t\<lparr>tr_pending := tr_pending t @ [item]\<rparr>"

definition finish_event :: "translation \<Rightarrow> provider_event" where
  "finish_event t = StreamFinished
     (case tr_finish_reason t of
        Some reason \<Rightarrow> reason
      | None \<Rightarrow> if tr_done t then FinStop else FinIncomplete) (tr_usage t)"

definition push_finish :: "translation \<Rightarrow> translation" where
  "push_finish t =
     (if tr_emitted_finish t then t
      else push_item (StreamEvent (finish_event t)) (t\<lparr>tr_emitted_finish := True\<rparr>))"

definition nonempty :: "string option \<Rightarrow> string option" where
  "nonempty s = (case s of Some x \<Rightarrow> if x = [] then None else Some x | None \<Rightarrow> None)"

definition finish_reason_of :: "string \<Rightarrow> finish_reason" where
  "finish_reason_of reason =
     (if reason = ''tool_calls'' then FinToolCalls
      else if reason = ''length'' then FinLength
      else if reason = ''error'' then FinError else FinStop)"

definition inbound_of :: "name_map option \<Rightarrow> string \<Rightarrow> string" where
  "inbound_of names name = (case names of Some m \<Rightarrow> inbound_name m name | None \<Rightarrow> name)"

definition delta_events :: "name_map option \<Rightarrow> delta \<Rightarrow> provider_event list" where
  "delta_events names d =
     (case nonempty (reasoning_text d) of None \<Rightarrow> [] | Some t \<Rightarrow> [ReasoningDelta t]) @
     (case nonempty (dl_content d) of None \<Rightarrow> [] | Some t \<Rightarrow> [ContentDelta t]) @
     map (\<lambda>c. ToolCallDelta (td_index c) (nonempty (td_id c))
        (map_option (inbound_of names) (nonempty (case td_function c of None \<Rightarrow> None | Some f \<Rightarrow> fd_name f)))
        (case td_function c of None \<Rightarrow> None | Some f \<Rightarrow> fd_arguments f))
       (case dl_tool_calls d of None \<Rightarrow> [] | Some cs \<Rightarrow> cs)"

definition absorb_choice :: "translation \<Rightarrow> chunk_choice \<Rightarrow> translation" where
  "absorb_choice t choice =
     (let d = cc_delta choice;
          t = (if dl_role d \<noteq> None \<and> \<not> tr_role_seen t
               then push_item (StreamEvent RoleStarted) (t\<lparr>tr_role_seen := True\<rparr>) else t);
          t = foldl (\<lambda>t e. push_item (StreamEvent e) t) t (delta_events (tr_names t) d)
      in case cc_finish_reason choice of
           None \<Rightarrow> t
         | Some reason \<Rightarrow> t\<lparr>tr_finish_reason := Some (finish_reason_of reason)\<rparr>)"

definition absorb_chunk :: "chat_chunk \<Rightarrow> translation \<Rightarrow> translation" where
  "absorb_chunk chunk t =
     (case ck_error chunk of
        Some e \<Rightarrow>
          let message = (if eb_message e = [] then ''the provider reported an error'' else eb_message e);
              t = t\<lparr>tr_finish_reason := Some FinError, tr_emitted_finish := True, tr_finished := True\<rparr>
          in push_item (StreamError (MidStream message))
               (push_item (StreamEvent (StreamFinished FinError (tr_usage t))) t)
      | None \<Rightarrow>
          let t = (case ck_usage chunk of None \<Rightarrow> t | Some u \<Rightarrow> t\<lparr>tr_usage := Some u\<rparr>)
          in foldl absorb_choice t (ck_choices chunk))"

definition absorb :: "(string \<Rightarrow> json option) \<Rightarrow> translation \<Rightarrow> sse_event \<Rightarrow> translation" where
  "absorb parse t e =
     (if is_done e then push_finish (t\<lparr>tr_done := True, tr_finished := True\<rparr>)
      else case Option.bind (parse (sv_data e)) chunk_of of
          None \<Rightarrow> t
        | Some chunk \<Rightarrow> absorb_chunk chunk t)"

definition decode_error_item :: "decode_error \<Rightarrow> stream_item" where
  "decode_error_item e = (case e of FrameOverLimit n \<Rightarrow> StreamError (FrameTooLarge n))"

text \<open>The body of the loop after a wait.\<close>

definition absorb_bytes :: "(string \<Rightarrow> json option) \<Rightarrow> string \<Rightarrow> translation \<Rightarrow> translation" where
  "absorb_bytes parse bytes t =
     (case feed (tr_decoder t) bytes of
        (Inl e, d) \<Rightarrow> push_item (decode_error_item e) (t\<lparr>tr_decoder := d, tr_finished := True\<rparr>)
      | (Inr _, d) \<Rightarrow>
          let (events, d) = drain d
          in foldl (absorb parse) (t\<lparr>tr_decoder := d\<rparr>) events)"

fun poll_step :: "(string \<Rightarrow> json option) \<Rightarrow> translation \<Rightarrow> translation option" where
  "poll_step parse t =
     (case tr_body t of
        [] \<Rightarrow> Some (push_finish (t\<lparr>tr_finished := True\<rparr>))
      | PollCancelled # _ \<Rightarrow> None
      | PollFailed e # rest \<Rightarrow> Some (push_item (StreamError (StreamBroken e)) (t\<lparr>tr_body := rest, tr_finished := True\<rparr>))
      | PollBytes bytes # rest \<Rightarrow> Some (absorb_bytes parse bytes (t\<lparr>tr_body := rest\<rparr>)))"

lemma push_item_body [simp]: "tr_body (push_item i t) = tr_body t" "tr_finished (push_item i t) = tr_finished t"
  by (simp_all add: push_item_def)

lemma push_finish_body [simp]: "tr_body (push_finish t) = tr_body t" "tr_finished (push_finish t) = tr_finished t"
  by (simp_all add: push_finish_def)

lemma foldl_body: "(\<And>t x. tr_body (f t x) = tr_body t) \<Longrightarrow> tr_body (foldl f t xs) = tr_body t"
  by (induction xs arbitrary: t) simp_all

lemma absorb_body [simp]: "tr_body (absorb parse t e) = tr_body t"
  by (auto simp: absorb_def absorb_chunk_def absorb_choice_def Let_def foldl_body split: sum.splits option.splits)

lemma absorb_bytes_body: "tr_body (absorb_bytes parse bytes t) = tr_body t"
  by (auto simp: absorb_bytes_def Let_def foldl_body split: sum.splits prod.splits)

function next_item :: "(string \<Rightarrow> json option) \<Rightarrow> translation \<Rightarrow> (stream_item \<times> translation) option" where
  "next_item parse t =
     (case tr_pending t of
        i # rest \<Rightarrow> Some (i, t\<lparr>tr_pending := rest\<rparr>)
      | [] \<Rightarrow>
          if tr_finished t then None
          else (case poll_step parse t of
              None \<Rightarrow> None
            | Some t1 \<Rightarrow> next_item parse t1))"
  by pat_completeness auto
termination
proof (relation "measure (\<lambda>(parse, t). (if tr_finished t then 0 else 1) + length (tr_body t))")
  fix parse t t1 assume "\<not> tr_finished t" "poll_step parse t = Some t1"
  then show "((parse, t1), parse, t) \<in> measure (\<lambda>(parse, t). (if tr_finished t then 0 else 1) + length (tr_body t))"
    by (auto simp: absorb_bytes_body split: list.splits poll.splits)
qed simp

text \<open>All the items that pulling until the end gives.\<close>

function all_items :: "(string \<Rightarrow> json option) \<Rightarrow> translation \<Rightarrow> stream_item list" where
  "all_items parse t = tr_pending t @
     (if tr_finished t then []
      else (case poll_step parse (t\<lparr>tr_pending := []\<rparr>) of None \<Rightarrow> [] | Some t1 \<Rightarrow> all_items parse t1))"
  by pat_completeness auto
termination
proof (relation "measure (\<lambda>(parse, t). (if tr_finished t then 0 else 1) + length (tr_body t))")
  fix parse t t1 assume "\<not> tr_finished t" "poll_step parse (t\<lparr>tr_pending := []\<rparr>) = Some t1"
  then show "((parse, t1), parse, t) \<in> measure (\<lambda>(parse, t). (if tr_finished t then 0 else 1) + length (tr_body t))"
    by (auto simp: absorb_bytes_body split: list.splits poll.splits)
qed simp

declare next_item.simps [simp del] all_items.simps [simp del] poll_step.simps [simp del]

lemma all_items_pulled:
  "all_items parse t = (case next_item parse t of None \<Rightarrow> [] | Some (i, t1) \<Rightarrow> i # all_items parse t1)"
proof (induction parse t rule: next_item.induct)
  case (1 parse t)
  show ?case
  proof (cases "tr_pending t")
    case Nil
    then have e: "poll_step parse (t\<lparr>tr_pending := []\<rparr>) = poll_step parse t" by (cases t) simp
    show ?thesis
      using Nil "1.IH" by (auto simp: e all_items.simps [of parse t] next_item.simps [of parse t] split: option.splits)
  next
    case (Cons i rest)
    then show ?thesis
      by (simp add: next_item.simps [of parse t] all_items.simps [of parse t] all_items.simps [of parse "t\<lparr>tr_pending := rest\<rparr>"])
  qed
qed

datatype post_answer = PostFailed string | PostAnswer string bool string "poll list"

text \<open>A turn: the model, the names and the body before anything is sent, then the response.\<close>

definition provider_stream ::
  "(string \<Rightarrow> string) \<Rightarrow> (string \<Rightarrow> string) \<Rightarrow> (string \<Rightarrow> json option) \<Rightarrow> (string \<Rightarrow> http_answer)
    \<Rightarrow> (json \<Rightarrow> post_answer) \<Rightarrow> provider_config \<Rightarrow> json provider_request \<Rightarrow> provider_error + stream_item list" where
  "provider_stream quote reading parse http post config request =
     (case resolve_model quote reading parse http config of
        Inl e \<Rightarrow> Inl e
      | Inr model \<Rightarrow>
          let config = config\<lparr>pf_model := model\<rparr>
          in case name_map_of config request of
               Inl e \<Rightarrow> Inl e
             | Inr names \<Rightarrow> (case post (body_with config request names) of
                 PostFailed e \<Rightarrow> Inl (Transport e)
               | PostAnswer status success detail body \<Rightarrow>
                   if \<not> success
                   then Inl (Upstream (''the provider answered '' @ status @ '': '' @ trim detail))
                   else Inr (all_items parse (translation_new body names))))"

section \<open>What one event does\<close>

text \<open>Events are absorbed the same whatever is pending or still to be read.\<close>

definition reframe :: "stream_item list \<Rightarrow> poll list \<Rightarrow> decoder \<Rightarrow> translation \<Rightarrow> translation" where
  "reframe p body d t = t\<lparr>tr_pending := p @ tr_pending t, tr_body := body, tr_decoder := d\<rparr>"

lemma reframe_push: "push_item i (reframe p b d t) = reframe p b d (push_item i t)"
  by (simp add: push_item_def reframe_def)

lemma reframe_sel [simp]:
  "tr_role_seen (reframe p b d t) = tr_role_seen t" "tr_names (reframe p b d t) = tr_names t"
  "tr_finished (reframe p b d t) = tr_finished t" "tr_usage (reframe p b d t) = tr_usage t"
  "tr_finish_reason (reframe p b d t) = tr_finish_reason t" "tr_done (reframe p b d t) = tr_done t"
  "tr_emitted_finish (reframe p b d t) = tr_emitted_finish t"
  "tr_body (reframe p b d t) = b" "tr_decoder (reframe p b d t) = d"
  "tr_pending (reframe p b d t) = p @ tr_pending t"
  by (simp_all add: reframe_def)

lemma reframe_updates:
  "(reframe p b d t)\<lparr>tr_role_seen := r\<rparr> = reframe p b d (t\<lparr>tr_role_seen := r\<rparr>)"
  "(reframe p b d t)\<lparr>tr_finish_reason := f\<rparr> = reframe p b d (t\<lparr>tr_finish_reason := f\<rparr>)"
  "(reframe p b d t)\<lparr>tr_done := x\<rparr> = reframe p b d (t\<lparr>tr_done := x\<rparr>)"
  "(reframe p b d t)\<lparr>tr_usage := u\<rparr> = reframe p b d (t\<lparr>tr_usage := u\<rparr>)"
  "(reframe p b d t)\<lparr>tr_finished := y\<rparr> = reframe p b d (t\<lparr>tr_finished := y\<rparr>)"
  "(reframe p b d t)\<lparr>tr_emitted_finish := z\<rparr> = reframe p b d (t\<lparr>tr_emitted_finish := z\<rparr>)"
  by (simp_all add: reframe_def)

lemma reframe_foldl:
  "(\<And>t x. f (reframe p b d t) x = reframe p b d (f t x)) \<Longrightarrow> foldl f (reframe p b d t) xs = reframe p b d (foldl f t xs)"
  by (induction xs arbitrary: t) simp_all

lemma reframe_finish: "push_finish (reframe p b d t) = reframe p b d (push_finish t)"
  by (simp add: push_finish_def finish_event_def reframe_push reframe_updates)

lemma reframe_choice: "absorb_choice (reframe p b d t) c = reframe p b d (absorb_choice t c)"
  by (simp add: absorb_choice_def Let_def reframe_push reframe_updates reframe_foldl split: option.splits)

lemma reframe_absorb: "absorb parse (reframe p b d t) e = reframe p b d (absorb parse t e)"
  by (auto simp: absorb_def absorb_chunk_def Let_def reframe_push reframe_updates reframe_foldl reframe_choice
      reframe_finish split: option.splits)

lemma reframe_absorbs: "foldl (absorb parse) (reframe p b d t) es = reframe p b d (foldl (absorb parse) t es)"
  by (rule reframe_foldl) (rule reframe_absorb)

text \<open>An event that ends the stream: the end marker or an error chunk.\<close>

definition is_terminal_event :: "(string \<Rightarrow> json option) \<Rightarrow> sse_event \<Rightarrow> bool" where
  "is_terminal_event parse e \<longleftrightarrow> is_done e \<or>
     (case Option.bind (parse (sv_data e)) chunk_of of None \<Rightarrow> False | Some c \<Rightarrow> ck_error c \<noteq> None)"

lemma foldl_keeps: "(\<And>t x. g (f t x) = g t) \<Longrightarrow> g (foldl f t xs) = g t"
  by (induction xs arbitrary: t) simp_all

lemma push_item_sel [simp]:
  "tr_emitted_finish (push_item i t) = tr_emitted_finish t" "tr_names (push_item i t) = tr_names t"
  "tr_pending (push_item i t) = tr_pending t @ [i]" "tr_done (push_item i t) = tr_done t"
  "tr_finish_reason (push_item i t) = tr_finish_reason t"
  by (simp_all add: push_item_def)

lemma absorb_choice_sel [simp]:
  "tr_finished (absorb_choice t c) = tr_finished t" "tr_emitted_finish (absorb_choice t c) = tr_emitted_finish t"
  "tr_names (absorb_choice t c) = tr_names t" "tr_done (absorb_choice t c) = tr_done t"
  by (simp_all add: absorb_choice_def Let_def foldl_keeps split: option.splits)

lemma absorb_finished: "tr_finished (absorb parse t e) \<longleftrightarrow> tr_finished t \<or> is_terminal_event parse e"
  by (auto simp: absorb_def absorb_chunk_def is_terminal_event_def Let_def foldl_keeps split: option.splits)

lemma absorbs_finished:
  "tr_finished (foldl (absorb parse) t es) \<longleftrightarrow> tr_finished t \<or> list_ex (is_terminal_event parse) es"
  by (induction es arbitrary: t) (auto simp: absorb_finished)

text \<open>A stream whose end is its end: nothing follows a terminal event.\<close>

definition ends_at_its_end :: "(string \<Rightarrow> json option) \<Rightarrow> sse_event list \<Rightarrow> bool" where
  "ends_at_its_end parse es \<longleftrightarrow> list_all (\<lambda>e. \<not> is_terminal_event parse e) (butlast es)"

lemma ends_append: "ends_at_its_end parse (es @ fs) \<Longrightarrow> fs \<noteq> [] \<Longrightarrow> \<not> list_ex (is_terminal_event parse) es"
  by (auto simp: ends_at_its_end_def butlast_append list_all_iff list_ex_iff)

lemma ends_tail: "ends_at_its_end parse (es @ fs) \<Longrightarrow> ends_at_its_end parse fs"
  by (cases "fs = []") (auto simp: ends_at_its_end_def butlast_append)

section \<open>The whole stream at once\<close>

text \<open>The items of a stream read as one text.\<close>

definition settled :: "translation \<Rightarrow> translation" where
  "settled t = (if tr_finished t then t else push_finish (t\<lparr>tr_finished := True\<rparr>))"

lemma settled_reframe: "settled (reframe p b d t) = reframe p b d (settled t)"
  by (simp add: settled_def reframe_updates reframe_finish)

lemma all_items_finished: "tr_finished t \<Longrightarrow> all_items parse t = tr_pending t"
  by (simp add: all_items.simps)

definition unframed :: "translation \<Rightarrow> translation" where
  "unframed t = t\<lparr>tr_pending := [], tr_body := [], tr_decoder := decoder_new\<rparr>"

lemma reframe_unframed: "reframe (tr_pending t) (tr_body t) (tr_decoder t) (unframed t) = t"
  by (simp add: reframe_def unframed_def)

lemma all_items_bytes:
  assumes "list_all valid_utf8 bs" and "\<not> dc_poisoned (tr_decoder t)" and "dc_ready (tr_decoder t) = []"
    and "frames_of (dc_buffer (tr_decoder t)) = ([], dc_buffer (tr_decoder t))"
    and "pending_fits (dc_limit (tr_decoder t)) (dc_buffer (tr_decoder t)) bs"
    and "tr_body t = map PollBytes bs" and "\<not> tr_finished t"
    and "frames_of (dc_buffer (tr_decoder t) @ concat bs) = (es, rest)" and "ends_at_its_end parse es"
  shows "all_items parse t = tr_pending (settled (foldl (absorb parse) t es))"
  using assms
proof (induction bs arbitrary: t es)
  case Nil
  then have "es = []" by simp
  moreover have "all_items parse t = tr_pending t @ tr_pending (push_finish (t\<lparr>tr_pending := [], tr_finished := True\<rparr>))"
    using Nil.prems(6,7) by (simp add: all_items.simps [of parse t] poll_step.simps all_items_finished)
  ultimately show ?case
    using Nil.prems(7) by (simp add: settled_def push_finish_def push_item_def finish_event_def)
next
  case (Cons c bs)
  let ?d = "tr_decoder t"
  obtain es1 r1 where f1: "frames_of (dc_buffer ?d @ c) = (es1, r1)" by fastforce
  obtain es2 where f2: "frames_of (r1 @ concat bs) = (es2, rest)" "es = es1 @ es2"
    using Cons.prems(8) frames_of_append [of "dc_buffer ?d @ c" "concat bs"] f1 by (auto split: prod.splits)
  note fits = pending_fits_Cons [OF Cons.prems(5), unfolded f1 snd_conv]
  define d1 where "d1 = ?d\<lparr>dc_buffer := r1, dc_ready := []\<rparr>"
  define u where "u = foldl (absorb parse) (unframed t) es1"
  have "feed ?d c = (Inr (), ?d\<lparr>dc_buffer := r1, dc_ready := es1\<rparr>)"
    using Cons.prems f1 fits(1) by (simp add: feed_frames)
  then have "poll_step parse (t\<lparr>tr_pending := []\<rparr>) =
      Some (foldl (absorb parse) (reframe [] (map PollBytes bs) d1 (unframed t)) es1)"
    using Cons.prems(6) by (simp add: poll_step.simps absorb_bytes_def drain_def d1_def reframe_def unframed_def)
  then have step: "all_items parse t = tr_pending t @ all_items parse (reframe [] (map PollBytes bs) d1 u)"
    using Cons.prems(7) by (simp add: all_items.simps [of parse t] u_def reframe_absorbs)
  have split: "foldl (absorb parse) t es = reframe (tr_pending t) (tr_body t) ?d (foldl (absorb parse) u es2)"
    using reframe_absorbs [of parse "tr_pending t" "tr_body t" ?d "unframed t" es]
    by (simp add: reframe_unframed f2(2) u_def)
  have fin: "tr_finished u \<longleftrightarrow> list_ex (is_terminal_event parse) es1"
    using Cons.prems(7) by (simp add: u_def absorbs_finished unframed_def)
  show ?case
  proof (cases "tr_finished u")
    case True
    then have "es2 = []" using fin ends_append [of parse es1 es2] Cons.prems(9) f2(2) by blast
    then show ?thesis using True step split by (simp add: all_items_finished settled_reframe settled_def)
  next
    case False
    let ?t = "reframe [] (map PollBytes bs) d1 u"
    have "frames_of r1 = ([], r1)"
      using frames_of_append [of "dc_buffer ?d @ c" "[]"] f1 by (simp split: prod.splits)
    then have "all_items parse ?t = tr_pending (settled (foldl (absorb parse) ?t es2))"
      using Cons.prems False f2 fits(2) ends_tail by (intro Cons.IH) (auto simp: d1_def)
    then show ?thesis using step split by (simp add: reframe_absorbs settled_reframe)
  qed
qed

lemma all_items_fresh:
  assumes "list_all valid_utf8 bs" and "pending_fits default_frame_limit [] bs"
    and "ends_at_its_end parse (fst (frames_of (concat bs)))"
  shows "all_items parse (translation_new (map PollBytes bs) names) =
      tr_pending (settled (foldl (absorb parse) (translation_new [] names) (fst (frames_of (concat bs)))))"
proof -
  let ?t = "translation_new (map PollBytes bs) names"
  obtain es rest where f: "frames_of (concat bs) = (es, rest)" by fastforce
  have "?t = reframe [] (map PollBytes bs) decoder_new (translation_new [] names)"
    by (simp add: translation_new_def reframe_def)
  moreover have "all_items parse ?t = tr_pending (settled (foldl (absorb parse) ?t es))"
    using assms f by (intro all_items_bytes) (simp_all add: translation_new_def decoder_new_def with_limit_def)
  ultimately show ?thesis using f by (simp add: reframe_absorbs settled_reframe)
qed

section \<open>One end\<close>

definition plain_item :: "stream_item \<Rightarrow> bool" where
  "plain_item i = (case i of StreamEvent (StreamFinished _ _) \<Rightarrow> False | StreamEvent _ \<Rightarrow> True | _ \<Rightarrow> False)"

text \<open>An event that says how the turn ended.\<close>

definition signals_end :: "(string \<Rightarrow> json option) \<Rightarrow> sse_event \<Rightarrow> bool" where
  "signals_end parse e \<longleftrightarrow> is_terminal_event parse e \<or>
     (case Option.bind (parse (sv_data e)) chunk_of of None \<Rightarrow> False
      | Some c \<Rightarrow> list_ex (\<lambda>ch. cc_finish_reason ch \<noteq> None) (ck_choices c))"

text \<open>A state before the end: only plain items, a reason exactly when one was signalled.\<close>

definition going_on :: "bool \<Rightarrow> translation \<Rightarrow> bool" where
  "going_on reason t \<longleftrightarrow> list_all plain_item (tr_pending t) \<and> \<not> tr_emitted_finish t \<and> \<not> tr_finished t \<and>
     \<not> tr_done t \<and> (tr_finish_reason t \<noteq> None \<longleftrightarrow> reason) \<and> tr_finish_reason t \<noteq> Some FinIncomplete"

lemma delta_events_plain: "e \<in> set (delta_events names d) \<Longrightarrow> plain_item (StreamEvent e)"
  by (auto simp: delta_events_def plain_item_def split: option.splits)

lemma foldl_push: "tr_pending (foldl (\<lambda>t e. push_item (StreamEvent e) t) t es) = tr_pending t @ map StreamEvent es"
  by (induction es arbitrary: t) simp_all

lemma finish_reason_known: "finish_reason_of r \<noteq> FinIncomplete"
  by (simp add: finish_reason_of_def)

lemma going_choice:
  assumes "going_on reason t"
  shows "going_on (reason \<or> cc_finish_reason c \<noteq> None) (absorb_choice t c)"
proof -
  let ?t = "if dl_role (cc_delta c) \<noteq> None \<and> \<not> tr_role_seen t
    then push_item (StreamEvent RoleStarted) (t\<lparr>tr_role_seen := True\<rparr>) else t"
  let ?u = "foldl (\<lambda>t e. push_item (StreamEvent e) t) ?t (delta_events (tr_names ?t) (cc_delta c))"
  have "going_on reason ?u"
    using assms delta_events_plain
    by (auto simp: going_on_def foldl_push foldl_keeps plain_item_def list_all_iff)
  then show ?thesis
    using finish_reason_known by (auto simp: absorb_choice_def Let_def going_on_def split: option.splits)
qed

lemma going_choices:
  "going_on reason t \<Longrightarrow> going_on (reason \<or> list_ex (\<lambda>c. cc_finish_reason c \<noteq> None) cs) (foldl absorb_choice t cs)"
proof (induction cs arbitrary: t reason)
  case (Cons c cs)
  from Cons.IH [OF going_choice [OF Cons.prems]] show ?case by (simp add: disj_assoc)
qed simp

lemma going_absorb:
  assumes "going_on reason t" and "\<not> is_terminal_event parse e"
  shows "going_on (reason \<or> signals_end parse e) (absorb parse t e)"
proof (cases "Option.bind (parse (sv_data e)) chunk_of")
  case None
  then show ?thesis using assms by (simp add: absorb_def signals_end_def is_terminal_event_def)
next
  case (Some c)
  let ?t = "case ck_usage c of None \<Rightarrow> t | Some u \<Rightarrow> t\<lparr>tr_usage := Some u\<rparr>"
  have "going_on reason ?t" using assms(1) by (simp add: going_on_def split: option.splits)
  from going_choices [OF this, of "ck_choices c"] show ?thesis
    using assms(2) Some by (simp add: absorb_def absorb_chunk_def signals_end_def is_terminal_event_def Let_def)
qed

lemma going_absorbs:
  "going_on reason t \<Longrightarrow> list_all (\<lambda>e. \<not> is_terminal_event parse e) es \<Longrightarrow>
     going_on (reason \<or> list_ex (signals_end parse) es) (foldl (absorb parse) t es)"
proof (induction es arbitrary: t reason)
  case (Cons e es)
  then have "going_on (reason \<or> signals_end parse e) (absorb parse t e)" using going_absorb by simp
  from Cons.IH [OF this] Cons.prems(2) show ?case by (simp add: disj_assoc)
qed simp

text \<open>How the items of a response end.\<close>

definition ends_once :: "bool \<Rightarrow> stream_item list \<Rightarrow> bool" where
  "ends_once signalled items \<longleftrightarrow> (\<exists>pre u. list_all plain_item pre \<and>
     ((\<exists>r. items = pre @ [StreamEvent (StreamFinished r u)] \<and> (r = FinIncomplete \<longleftrightarrow> \<not> signalled)) \<or>
      (\<exists>m. items = pre @ [StreamEvent (StreamFinished FinError u), StreamError (MidStream m)] \<and> signalled)))"

lemma settled_ends:
  assumes "going_on reason t"
  shows "ends_once reason (tr_pending (settled t))"
  using assms by (auto simp: going_on_def settled_def push_finish_def finish_event_def ends_once_def split: option.splits)

lemma terminal_ends:
  assumes "going_on reason t" and "is_terminal_event parse e"
  shows "ends_once True (tr_pending (absorb parse t e))"
proof (cases "is_done e")
  case True
  then show ?thesis
    using assms(1) by (auto simp: going_on_def absorb_def push_finish_def finish_event_def ends_once_def split: option.splits)
next
  case False
  then obtain c b where "Option.bind (parse (sv_data e)) chunk_of = Some c" "ck_error c = Some b"
    using assms(2) by (auto simp: is_terminal_event_def split: option.splits)
  then show ?thesis
    using False assms(1) by (auto simp: going_on_def absorb_def absorb_chunk_def Let_def ends_once_def)
qed

lemma absorbed_ends:
  assumes "going_on False t" and "ends_at_its_end parse es"
  shows "ends_once (list_ex (signals_end parse) es) (tr_pending (settled (foldl (absorb parse) t es)))"
proof (cases "list_all (\<lambda>e. \<not> is_terminal_event parse e) es")
  case True
  then show ?thesis using settled_ends going_absorbs [OF assms(1) True] by simp
next
  case False
  then have "es \<noteq> []" by auto
  then obtain fs e where es: "es = fs @ [e]" by (metis append_butlast_last_id)
  then have f: "list_all (\<lambda>e. \<not> is_terminal_event parse e) fs" "is_terminal_event parse e"
    using assms(2) False by (auto simp: ends_at_its_end_def)
  from terminal_ends [OF going_absorbs [OF assms(1) f(1)] f(2)]
  have "ends_once True (tr_pending (absorb parse (foldl (absorb parse) t fs) e))" .
  moreover have "tr_finished (foldl (absorb parse) t es)" using es f(2) by (simp add: absorb_finished)
  moreover have "signals_end parse e" using f(2) by (simp add: signals_end_def)
  ultimately show ?thesis using es by (simp add: settled_def)
qed

section \<open>Properties\<close>

text \<open>
  C19. How the network cuts a response does not matter to the run, under four conditions: the cuts
  fall between characters of valid UTF-8, every poll delivers its piece (none fails, is cancelled or
  times out), no piece leaves more than the frame limit of 8 MiB of an unfinished frame pending, and
  no frame of the response follows its end marker or error chunk, if it has one (what happens
  without that condition is stated further down). Then the pieces give exactly the provider events
  of reading the response whole.
\<close>

theorem responses_do_not_depend_on_chunking:
  assumes "list_all valid_utf8 bs" and "pending_fits default_frame_limit [] bs"
    and "ends_at_its_end parse (fst (frames_of (concat bs)))"
  shows "all_items parse (translation_new (map PollBytes bs) names) =
      all_items parse (translation_new [PollBytes (concat bs)] names)"
  using all_items_fresh [OF assms] all_items_fresh [of "[concat bs]" parse names] assms
  by (simp add: valid_concat pending_fits_whole)

text \<open>A reader of one word, for the concrete responses below.\<close>

definition word_reader :: "string \<Rightarrow> json option" where
  "word_reader txt = (if txt = ''stop''
     then Some (JObject [(''choices'', JArray [JObject [(''delta'', JObject [(''content'', JString ''hi'')]),
       (''finish_reason'', JString ''stop'')]])]) else None)"

theorem responses_do_not_depend_on_chunking_witness:
  "all_items word_reader (translation_new (map PollBytes [''data: st'', ''op'' @ [CHR 0x0A, CHR 0x0A]]) None) =
     all_items word_reader (translation_new [PollBytes (''data: stop'' @ [CHR 0x0A, CHR 0x0A])] None)"
proof -
  let ?bs = "[''data: st'', ''op'' @ [CHR 0x0A, CHR 0x0A]]"
  have f: "frames_of (concat ?bs) = ([\<lparr>sv_event = None, sv_data = ''stop'', sv_id = None\<rparr>], [])"
    using frame_text_parsed [of "\<lparr>sv_event = None, sv_data = ''stop'', sv_id = None\<rparr>" "[]"]
    by (simp add: writable_def frame_text_def frame_lines_def header_line_def data_line_def)
  show ?thesis
    using responses_do_not_depend_on_chunking [of ?bs word_reader None] f
    by (simp add: ends_at_its_end_def default_frame_limit_def pending_fits_short valid_ascii less_char_def)
qed

text \<open>
  C17. A turn ends once, and a cut stream never passes for an answer. The response arrives in pieces
  of valid UTF-8 that no poll fails to deliver, no piece leaves more than the frame limit of 8 MiB
  of an unfinished frame pending, and no frame follows an end marker or error chunk. Then it gives
  plain events followed by one end (the end of an error chunk is followed by its error), and the end
  says incomplete exactly when the text held no end marker, no finish reason and no error.
\<close>

theorem a_turn_ends_once:
  assumes "list_all valid_utf8 bs" and "pending_fits default_frame_limit [] bs"
    and "frames_of (concat bs) = (es, rest)" and "ends_at_its_end parse es"
  shows "\<exists>pre u. list_all plain_item pre \<and>
    ((\<exists>r. all_items parse (translation_new (map PollBytes bs) names) = pre @ [StreamEvent (StreamFinished r u)] \<and>
        (r = FinIncomplete \<longleftrightarrow> \<not> list_ex (signals_end parse) es)) \<or>
     (\<exists>m. all_items parse (translation_new (map PollBytes bs) names) =
        pre @ [StreamEvent (StreamFinished FinError u), StreamError (MidStream m)] \<and> list_ex (signals_end parse) es))"
proof -
  have "going_on False (translation_new [] names)" by (simp add: going_on_def translation_new_def)
  from absorbed_ends [OF this assms(4)] show ?thesis
    using all_items_fresh [of bs parse names] assms by (simp add: ends_once_def)
qed

theorem a_turn_ends_once_witness:
  "\<exists>pre r u. all_items word_reader (translation_new (map PollBytes [''data: st'']) None) =
     pre @ [StreamEvent (StreamFinished r u)] \<and> r = FinIncomplete"
proof -
  have "frames_of (concat [''data: st'']) = ([], ''data: st'')"
    using one_line_frames [of "''data: st''"] by (simp add: one_line_def)
  from a_turn_ends_once [OF _ _ this, of word_reader None] show ?thesis
    by (auto simp: ends_at_its_end_def default_frame_limit_def pending_fits_short valid_ascii less_char_def)
qed

section \<open>Names that come back\<close>

definition names_only :: "string set \<Rightarrow> stream_item \<Rightarrow> bool" where
  "names_only ns i = (case i of
     StreamEvent (ToolCallDelta _ _ (Some n) _) \<Rightarrow> n \<in> ns \<or> is_prefix_of undeclared_prefix n | _ \<Rightarrow> True)"

text \<open>The invariant of a translation whose names are those of a map.\<close>

definition names_kept :: "string set \<Rightarrow> name_map \<Rightarrow> translation \<Rightarrow> bool" where
  "names_kept ns m t \<longleftrightarrow> tr_names t = Some m \<and> list_all (names_only ns) (tr_pending t)"

lemma names_push: "names_kept ns m t \<Longrightarrow> names_only ns i \<Longrightarrow> names_kept ns m (push_item i t)"
  by (simp add: names_kept_def)

lemma names_only_plain [simp]:
  "names_only ns (StreamError e)" "names_only ns (StreamEvent RoleStarted)"
  "names_only ns (StreamEvent (StreamFinished r u))" "names_only ns (StreamEvent (ReasoningDelta s))"
  "names_only ns (StreamEvent (ContentDelta s))" "names_only ns (StreamEvent (ToolCallDelta i j None a))"
  by (simp_all add: names_only_def)

lemma names_delta:
  assumes "portable_map (names :: string list) = Inr m" and "e \<in> set (delta_events (Some m) d)"
  shows "names_only (set names) (StreamEvent e)"
proof -
  have "inbound_name m q \<in> set names \<or> is_prefix_of undeclared_prefix (inbound_name m q)" for q
    using inbound_known [OF assms(1), of q] by (auto simp: is_prefix_of_iff)
  then show ?thesis
    using assms(2) by (auto simp: delta_events_def names_only_def inbound_of_def split: option.splits)
qed

lemma names_choice:
  assumes "portable_map names = Inr m" and "names_kept (set names) m t"
  shows "names_kept (set names) m (absorb_choice t c)"
  using assms(2) names_delta [OF assms(1)]
  by (auto simp: absorb_choice_def Let_def names_kept_def foldl_push foldl_keeps list_all_iff split: option.splits)

lemma names_foldl:
  "(\<And>t x. names_kept ns m t \<Longrightarrow> names_kept ns m (f t x)) \<Longrightarrow> names_kept ns m t \<Longrightarrow> names_kept ns m (foldl f t xs)"
  by (induction xs arbitrary: t) simp_all

lemma names_update:
  "tr_names u = tr_names t \<Longrightarrow> tr_pending u = tr_pending t \<Longrightarrow> names_kept ns m t \<Longrightarrow> names_kept ns m u"
  by (simp add: names_kept_def)

lemma names_finish: "names_kept ns m t \<Longrightarrow> names_kept ns m (push_finish t)"
  by (simp add: push_finish_def finish_event_def names_kept_def)

lemma names_absorb:
  assumes "portable_map names = Inr m" and "names_kept (set names) m t"
  shows "names_kept (set names) m (absorb parse t e)"
proof -
  have keep: "names_kept (set names) m u" if "tr_names u = tr_names t" "tr_pending u = tr_pending t" for u
    using that assms(2) by (rule names_update)
  have "names_kept (set names) m (absorb_chunk c t)" for c
  proof (cases "ck_error c")
    case None
    have "names_kept (set names) m (case ck_usage c of None \<Rightarrow> t | Some u \<Rightarrow> t\<lparr>tr_usage := Some u\<rparr>)"
      by (rule keep) (simp_all split: option.splits)
    then have "names_kept (set names) m
        (foldl absorb_choice (case ck_usage c of None \<Rightarrow> t | Some u \<Rightarrow> t\<lparr>tr_usage := Some u\<rparr>) (ck_choices c))"
      by (rule names_foldl [rotated]) (rule names_choice [OF assms(1)])
    then show ?thesis using None by (simp add: absorb_chunk_def)
  next
    case (Some b)
    then show ?thesis using assms(2) by (simp add: absorb_chunk_def Let_def names_kept_def)
  qed
  then show ?thesis
    using assms(2) by (auto simp: absorb_def intro!: names_finish keep split: option.splits)
qed

lemma names_poll:
  assumes "portable_map names = Inr m" and "names_kept (set names) m t" and "poll_step parse t = Some t1"
  shows "names_kept (set names) m t1"
proof -
  have "names_kept (set names) m (absorb_bytes parse b u)" if "names_kept (set names) m u" for b u
    using names_update [OF _ _ that]
    by (auto simp: absorb_bytes_def Let_def decode_error_item_def
        intro!: names_foldl names_push names_absorb [OF assms(1)] split: sum.splits prod.splits decode_error.splits)
  then show ?thesis
    using assms(3) names_update [OF _ _ assms(2)]
    by (auto simp: poll_step.simps intro!: names_finish names_push split: list.splits poll.splits)
qed

lemma names_items:
  assumes "portable_map names = Inr m"
  shows "names_kept (set names) m t \<Longrightarrow> list_all (names_only (set names)) (all_items parse t)"
proof (induction parse t rule: all_items.induct)
  case (1 parse t)
  have k: "names_kept (set names) m (t\<lparr>tr_pending := []\<rparr>)" "list_all (names_only (set names)) (tr_pending t)"
    using "1.prems" by (simp_all add: names_kept_def)
  show ?case
  proof (cases "tr_finished t")
    case False
    show ?thesis
    proof (cases "poll_step parse (t\<lparr>tr_pending := []\<rparr>)")
      case (Some t1)
      from "1.IH" [OF False Some names_poll [OF assms k(1) Some]] show ?thesis
        using False Some k(2) by (subst all_items.simps) simp
    qed (use False k(2) in \<open>subst all_items.simps, simp\<close>)
  qed (use k(2) in \<open>simp add: all_items_finished\<close>)
qed

text \<open>
  C18. A response can only name tools of its request. With portable names, every tool name that a
  turn reports, whatever the endpoint sends and however its response is cut, fails or is
  cancelled, is a name the request carried or one in the undeclared space; and a request whose
  names could not be told apart was never sent.
\<close>

theorem only_names_of_the_request_come_back:
  assumes "pf_tool_names config = PortableNames"
    and "provider_stream quote reading parse http post config request = Inr items"
  shows "(\<exists>m. portable_map (request_names request) = Inr m) \<and>
    (\<forall>i c n a. StreamEvent (ToolCallDelta i c (Some n) a) \<in> set items \<longrightarrow>
       n \<in> set (request_names request) \<or> is_prefix_of undeclared_prefix n)"
proof -
  obtain m body where m: "portable_map (request_names request) = Inr m"
    "items = all_items parse (translation_new body (Some m))"
    using assms by (cases "portable_map (request_names request)")
      (auto simp: provider_stream_def name_map_of_def Let_def split: sum.splits post_answer.splits if_splits)
  have "names_kept (set (request_names request)) m (translation_new body (Some m))"
    by (simp add: names_kept_def translation_new_def)
  then have "list_all (names_only (set (request_names request))) items"
    using names_items [OF m(1)] m(2) by simp
  then show ?thesis using m(1) by (auto simp: list_all_iff names_only_def)
qed

lemma first_poll:
  assumes "valid_utf8 x" and "length x \<le> default_frame_limit" and "frames_of x = (es, [])"
  shows "all_items parse (translation_new (PollBytes x # body) names) =
    all_items parse (foldl (absorb parse) (translation_new body names) es)"
proof -
  have "feed decoder_new x = (Inr (), decoder_new\<lparr>dc_ready := es\<rparr>)"
    using feed_frames [of decoder_new x] assms(1,3) by (simp add: decoder_new_def with_limit_def)
  then have "poll_step parse ((translation_new (PollBytes x # body) names)\<lparr>tr_pending := []\<rparr>) =
      Some (foldl (absorb parse) (translation_new body names) es)"
    by (simp add: poll_step.simps absorb_bytes_def drain_def translation_new_def decoder_new_def with_limit_def)
  then show ?thesis
    by (subst all_items.simps) (simp add: translation_new_def)
qed

text \<open>
  C22. After its end, a response is cut differently: an error chunk that follows the end marker
  reaches the run when it came in the same piece, as a second end and an error, and does not when
  it came in the next one.
\<close>

theorem the_end_depends_on_the_cut:
  assumes "Option.bind (parse text) chunk_of = Some c" and "ck_error c = Some b"
    and "one_line text" and "valid_utf8 text" and "trim text \<noteq> done_data" and "length text < 1000"
  defines "done_frame \<equiv> frame_text \<lparr>sv_event = None, sv_data = done_data, sv_id = None\<rparr>"
    and "error_frame \<equiv> frame_text \<lparr>sv_event = None, sv_data = text, sv_id = None\<rparr>"
  shows "all_items parse (translation_new [PollBytes done_frame, PollBytes error_frame] names) =
      [StreamEvent (StreamFinished FinStop None)] \<and>
    (\<exists>m. all_items parse (translation_new [PollBytes (done_frame @ error_frame)] names) =
      [StreamEvent (StreamFinished FinStop None), StreamEvent (StreamFinished FinError None), StreamError (MidStream m)])"
proof -
  let ?done = "\<lparr>sv_event = None, sv_data = done_data, sv_id = None\<rparr>"
  let ?error = "\<lparr>sv_event = None, sv_data = text, sv_id = None\<rparr>"
  let ?t = "translation_new [] names"
  have w: "writable ?done" "writable ?error" using assms(3) by (simp_all add: writable_def done_data_def one_line_def)
  have sp: "split_on (CHR 0x0A) x = [x]" if "one_line x" for x using that by (induction x) (auto simp: one_line_def)
  have df: "done_frame = ''data: [DONE]'' @ [CHR 0x0A, CHR 0x0A]"
    by (simp add: done_frame_def frame_text_def frame_lines_def header_line_def data_line_def done_data_def)
  have ef: "error_frame = ''data: '' @ text @ [CHR 0x0A, CHR 0x0A]"
    using sp [OF assms(3)] by (simp add: error_frame_def frame_text_def frame_lines_def header_line_def data_line_def)
  have v: "valid_utf8 done_frame" "valid_utf8 error_frame"
  proof -
    have a: "valid_utf8 ''data: ''" "valid_utf8 ''data: [DONE]''" "valid_utf8 [CHR 0x0A, CHR 0x0A]"
      by (simp_all add: valid_ascii less_char_def)
    show "valid_utf8 done_frame" unfolding df by (rule valid_append [OF a(2,3)])
    show "valid_utf8 error_frame" unfolding ef by (rule valid_append [OF a(1) valid_append [OF assms(4) a(3)]])
  qed
  have len: "length done_frame + length error_frame \<le> default_frame_limit"
    using assms(6) by (simp add: df ef default_frame_limit_def)
  have fd: "frames_of done_frame = ([?done], [])" "frames_of (done_frame @ error_frame) = ([?done, ?error], [])"
    using frame_text_parsed [OF w(1), of "[]"] frame_text_parsed [OF w(1), of error_frame]
      frame_text_parsed [OF w(2), of "[]"] by (simp_all add: done_frame_def error_frame_def)
  have d: "is_done ?done" "\<not> is_done ?error"
    using assms(5) by (simp_all add: is_done_def, code_simp)
  have ab: "absorb parse (translation_new bd names) ?done =
      (translation_new bd names)\<lparr>tr_pending := [StreamEvent (StreamFinished FinStop None)], tr_done := True,
        tr_finished := True, tr_emitted_finish := True\<rparr>" for bd
    using d(1) by (simp add: absorb_def push_finish_def finish_event_def translation_new_def push_item_def)
  have "all_items parse (translation_new [PollBytes done_frame, PollBytes error_frame] names) =
      [StreamEvent (StreamFinished FinStop None)]"
    using first_poll [OF v(1) _ fd(1)] len ab by (simp add: all_items_finished)
  moreover have "all_items parse (translation_new [PollBytes (done_frame @ error_frame)] names) =
      all_items parse (absorb parse (absorb parse (translation_new [] names) ?done) ?error)"
    using first_poll [OF valid_append [OF v] _ fd(2)] len by simp
  moreover have "\<exists>m. all_items parse (absorb parse (absorb parse (translation_new [] names) ?done) ?error) =
      [StreamEvent (StreamFinished FinStop None), StreamEvent (StreamFinished FinError None), StreamError (MidStream m)]"
    using assms(1,2) d(2) ab by (simp add: absorb_def absorb_chunk_def push_item_def all_items_finished Let_def
        translation_new_def)
  ultimately show ?thesis by simp
qed

text \<open>A reader that knows an error chunk and a tool call.\<close>

definition error_reader :: "string \<Rightarrow> json option" where
  "error_reader txt =
     (if txt = ''error'' then Some (JObject [(''error'', JObject [(''message'', JString ''overload'')])])
      else if txt = ''models'' then Some (JObject [(''data'', JArray [JObject [(''id'', JString ''m'')]])])
      else None)"

theorem the_end_depends_on_the_cut_witness:
  "\<exists>m. all_items error_reader (translation_new [PollBytes
       (frame_text \<lparr>sv_event = None, sv_data = done_data, sv_id = None\<rparr> @
        frame_text \<lparr>sv_event = None, sv_data = ''error'', sv_id = None\<rparr>)] None) =
     [StreamEvent (StreamFinished FinStop None), StreamEvent (StreamFinished FinError None), StreamError (MidStream m)]"
proof -
  have "\<exists>c b. Option.bind (error_reader ''error'') chunk_of = Some c \<and> ck_error c = Some b"
    by (simp add: error_reader_def chunk_of_def object_fields_def defaulted_def error_of_def)
  then obtain c b where c: "Option.bind (error_reader ''error'') chunk_of = Some c" "ck_error c = Some b" by blast
  have "trim ''error'' \<noteq> done_data" by code_simp
  then show ?thesis
    using the_end_depends_on_the_cut [of error_reader "''error''" c b None] c by (simp add: one_line_def valid_ascii less_char_def)
qed

definition portable_config :: provider_config where
  "portable_config = \<lparr>pf_base_url = ''http://127.0.0.1'', pf_model = ''m'', pf_api_key = None,
     pf_tool_names = PortableNames\<rparr>"

definition empty_request :: "json provider_request" where
  "empty_request = \<lparr>pq_model = [], pq_messages = [], pq_tools = [], pq_max_tokens = None, pq_reasoning_effort = None\<rparr>"

theorem only_names_of_the_request_come_back_witness:
  "\<exists>items m. provider_stream id id error_reader (\<lambda>_. HttpAnswer ''200'' True ''models'')
      (\<lambda>_. PostAnswer ''200'' True [] []) portable_config empty_request = Inr items \<and>
    portable_map (request_names empty_request) = Inr m"
proof -
  have "\<exists>items. provider_stream id id error_reader (\<lambda>_. HttpAnswer ''200'' True ''models'')
      (\<lambda>_. PostAnswer ''200'' True [] []) portable_config empty_request = Inr items"
  proof -
    have r: "resolve_model id id error_reader (\<lambda>_. HttpAnswer ''200'' True ''models'') portable_config = Inr ''m''"
      by code_simp
    have m: "portable_map [] = Inr empty_name_map" by (simp add: portable_map_def)
    show ?thesis
      by (simp add: provider_stream_def r) (simp add: name_map_of_def portable_config_def request_names_def empty_request_def m)
  qed
  then show ?thesis
    using only_names_of_the_request_come_back [of portable_config id id error_reader
        "\<lambda>_. HttpAnswer ''200'' True ''models''" "\<lambda>_. PostAnswer ''200'' True [] []" empty_request]
    by (auto simp: portable_config_def)
qed

end
