(* ===== verification/CreateResolution.thy ===== *)
theory CreateResolution
  imports Prelude
begin

text \<open>
  Web's side of a create job (\<open>web.rs\<close> of the crate \<open>lightagent-protocol-conformance\<close>): the
  normative registry of error codes, the journal of the transmissions of one job, the rules R1 to
  R3 with R3a by which Web concludes, and what it does next. A code, a class and a state are the
  strings of the source. The stamps are \<open>u64\<close>; their additions wrap, as the release build's do.
\<close>

section \<open>The registry\<close>

record registered_code =
  rc_http :: nat
  rc_class :: string
  rc_operations :: "string list"

record registry =
  reg_codes :: "(string, registered_code) btree"
  reg_failure_codes :: "string list"

section \<open>Journal and conclusion\<close>

datatype outcome =
    Operation string string
  | Refused string
  | Uncertain

record transmission =
  t_issued_at :: nat
  t_expires_at :: nat
  t_outcome :: outcome

datatype resolution =
    Unresolved
  | Resolved string string
  | Failed string
  | Attention string

definition wrap_add64 :: "nat \<Rightarrow> nat \<Rightarrow> nat" where
  "wrap_add64 a b = (a + b) mod (u64_max + 1)"

lemma wrap_add64_exact [u32_simps]: "a + b \<le> u64_max \<Longrightarrow> wrap_add64 a b = a + b"
  by (simp add: wrap_add64_def)

definition acceptance_horizon_seconds :: nat where
  "acceptance_horizon_seconds = 60"

definition create_resolution :: "string \<Rightarrow> string" where
  "create_resolution c =
     (if c \<in> {''payload'', ''admission'', ''merits''} then ''final''
      else if c = ''protocol'' then ''transmission-only''
      else if c = ''indeterminate'' then ''indeterminate''
      else if c = ''conflict'' then ''conflict''
      else ''not-applicable'')"

definition class_of :: "registered_code option \<Rightarrow> string option" where
  "class_of entry = map_option rc_class entry"

text \<open>The operations and the refusals of a journal, in its order.\<close>

definition operations_of :: "transmission list \<Rightarrow> (string \<times> string) list" where
  "operations_of ts =
     List.map_filter (\<lambda>t. case t_outcome t of Operation i s \<Rightarrow> Some (i, s) | _ \<Rightarrow> None) ts"

type_synonym refusal = "transmission \<times> string \<times> registered_code option"

definition refusals_of :: "registry \<Rightarrow> transmission list \<Rightarrow> refusal list" where
  "refusals_of r ts =
     List.map_filter
       (\<lambda>t. case t_outcome t of Refused c \<Rightarrow> Some (t, c, bt_get (reg_codes r) c) | _ \<Rightarrow> None) ts"

text \<open>R3: a transmission is open when it is uncertain or was refused only for that copy.\<close>

definition is_open :: "registry \<Rightarrow> bool \<Rightarrow> transmission \<Rightarrow> bool" where
  "is_open r protocol_final t =
     (case t_outcome t of
        Uncertain \<Rightarrow> True
      | Refused c \<Rightarrow> \<not> protocol_final \<and>
          (case class_of (bt_get (reg_codes r) c) of
             None \<Rightarrow> False | Some k \<Rightarrow> create_resolution k = ''transmission-only'')
      | Operation _ _ \<Rightarrow> False)"

text \<open>\<open>max_by_key\<close> returns the last of the greatest elements.\<close>

fun max_by_key :: "('a \<Rightarrow> nat) \<Rightarrow> 'a list \<Rightarrow> 'a option" where
  "max_by_key f [] = None"
| "max_by_key f (x # xs) =
     (case max_by_key f xs of None \<Rightarrow> Some x | Some y \<Rightarrow> if f x \<le> f y then Some y else Some x)"

definition merits_of :: "refusal list \<Rightarrow> refusal list" where
  "merits_of rs = filter (\<lambda>(_, _, e). class_of e = Some ''merits'') rs"

definition ruled_out :: "refusal list \<Rightarrow> transmission list \<Rightarrow> bool" where
  "ruled_out merits open \<longleftrightarrow>
     (\<forall>u \<in> set open. \<exists>m \<in> set merits.
        wrap_add64 (t_expires_at u) acceptance_horizon_seconds \<le> t_issued_at (fst m))"

definition resolve_open ::
    "refusal list \<Rightarrow> transmission list \<Rightarrow> resolution" where
  "resolve_open refusals open =
     (let continuity = (\<exists>x \<in> set refusals. fst (snd x) = ''LEDGER_CONTINUITY_FAILED'');
          merits = merits_of refusals
      in if open = [] then
           (if refusals = [] then Unresolved else Failed (fst (snd (last refusals))))
         else case max_by_key (\<lambda>x. t_issued_at (fst x)) merits of
             Some m \<Rightarrow>
               if ruled_out merits open then Failed (fst (snd m))
               else if continuity then Attention ''LEDGER_CONTINUITY_FAILED'' else Unresolved
           | None \<Rightarrow> if continuity then Attention ''LEDGER_CONTINUITY_FAILED'' else Unresolved)"

definition resolve_refusals ::
    "registry \<Rightarrow> transmission list \<Rightarrow> bool \<Rightarrow> bool \<Rightarrow> resolution" where
  "resolve_refusals r ts protocol_final unavailable_rules_out =
     (let refusals = refusals_of r ts;
          open = filter (is_open r protocol_final) ts
      in case find (\<lambda>(_, c, e). c = ''IDEMPOTENCY_CONFLICT'' \<or> e = None) refusals of
           Some (_, c, _) \<Rightarrow> Attention c
         | None \<Rightarrow>
             (case find (\<lambda>(_, _, e). class_of e = Some ''payload'') (rev refusals) of
                Some (_, c, _) \<Rightarrow> Failed c
              | None \<Rightarrow>
                  if \<not> unavailable_rules_out \<and> open \<noteq> [] \<and>
                     (\<exists>x \<in> set refusals. fst (snd x) = ''PROFILE_UNAVAILABLE'')
                  then Attention ''PROFILE_UNAVAILABLE_WHILE_OPEN''
                  else resolve_open refusals open))"

definition resolve_create_job_with ::
    "registry \<Rightarrow> transmission list \<Rightarrow> bool \<Rightarrow> bool \<Rightarrow> resolution" where
  "resolve_create_job_with r ts protocol_final unavailable_rules_out =
     (case operations_of ts of
        [] \<Rightarrow> resolve_refusals r ts protocol_final unavailable_rules_out
      | (first, _) # _ \<Rightarrow>
          if \<exists>x \<in> set (operations_of ts). fst x \<noteq> first then Attention ''OPERATION_MISMATCH''
          else Resolved (fst (last (operations_of ts))) (snd (last (operations_of ts))))"

definition resolve_create_job :: "registry \<Rightarrow> transmission list \<Rightarrow> resolution" where
  "resolve_create_job r ts = resolve_create_job_with r ts False False"

section \<open>The normative registry\<close>

text \<open>\<open>errors.json\<close> of the mirrored candidate: each code with its status, class and operations.\<close>

abbreviation every_operation :: "string list" where
  "every_operation \<equiv> [''profile.create'', ''profile.status'', ''profile.revoke'']"

definition code_entry :: "nat \<Rightarrow> string \<Rightarrow> string list \<Rightarrow> registered_code" where
  "code_entry http c ops = \<lparr>rc_http = http, rc_class = c, rc_operations = ops\<rparr>"

definition normative_registry :: registry where
  "normative_registry = \<lparr>
     reg_codes = [
       (''BAD_SIGNATURE'', code_entry 401 ''protocol'' every_operation),
       (''CREDENTIAL_NOT_PROVISIONING_ONLY'', code_entry 403 ''admission'' every_operation),
       (''DUPLICATE_KEY'', code_entry 400 ''protocol'' every_operation),
       (''EXPIRED'', code_entry 401 ''protocol'' every_operation),
       (''EXTERNAL_IDENTITY_CONFLICT'', code_entry 409 ''merits'' [''profile.create'']),
       (''IDEMPOTENCY_CONFLICT'', code_entry 409 ''conflict'' [''profile.create'']),
       (''IDENTITY_UNAVAILABLE'', code_entry 503 ''indeterminate'' every_operation),
       (''INTERNAL_ERROR'', code_entry 500 ''indeterminate'' every_operation),
       (''INVALID_DISPLAY_NAME'', code_entry 400 ''payload'' [''profile.create'']),
       (''INVALID_ENVELOPE'', code_entry 400 ''protocol'' every_operation),
       (''INVALID_FIELD'', code_entry 400 ''protocol'' every_operation),
       (''INVALID_IDEMPOTENCY_KEY'', code_entry 400 ''payload'' [''profile.create'']),
       (''INVALID_ISSUER'', code_entry 400 ''payload'' [''profile.create'']),
       (''INVALID_JSON_VALUE'', code_entry 400 ''protocol'' every_operation),
       (''INVALID_LIFETIME'', code_entry 400 ''protocol'' every_operation),
       (''INVALID_OPERATION_ID'', code_entry 400 ''payload'' [''profile.status'', ''profile.revoke'']),
       (''INVALID_PROFILE_ID'', code_entry 400 ''payload'' every_operation),
       (''INVALID_SUBJECT'', code_entry 400 ''payload'' [''profile.create'']),
       (''INVALID_TEMPLATE'', code_entry 400 ''payload'' [''profile.create'']),
       (''ISSUER_NOT_ALLOWED'', code_entry 403 ''merits'' [''profile.create'']),
       (''KEY_REVOKED'', code_entry 401 ''protocol'' every_operation),
       (''LEDGER_CONTINUITY_FAILED'', code_entry 503 ''protocol'' every_operation),
       (''LEDGER_FULL'', code_entry 403 ''merits'' [''profile.create'']),
       (''MALFORMED_JSON'', code_entry 400 ''protocol'' every_operation),
       (''METHOD_NOT_ALLOWED'', code_entry 405 ''protocol'' every_operation),
       (''MISSING_FIELD'', code_entry 400 ''protocol'' every_operation),
       (''NONCE_STORE_UNAVAILABLE'', code_entry 503 ''protocol'' every_operation),
       (''NON_CANONICAL'', code_entry 400 ''protocol'' every_operation),
       (''NOT_A_PROVISIONER'', code_entry 403 ''admission'' every_operation),
       (''NOT_REVOCABLE'', code_entry 409 ''operation'' [''profile.revoke'']),
       (''NOT_YET_VALID'', code_entry 401 ''protocol'' every_operation),
       (''OPERATION_IN_PROGRESS'', code_entry 409 ''operation'' [''profile.revoke'']),
       (''OWNERSHIP_CHANGED'', code_entry 409 ''operation'' [''profile.revoke'']),
       (''PAYLOAD_TOO_LARGE'', code_entry 413 ''protocol'' every_operation),
       (''PRINCIPAL_INACTIVE'', code_entry 409 ''merits'' [''profile.create'']),
       (''PROFILE_OUTSIDE_CREDENTIAL'', code_entry 403 ''admission'' [''profile.create'']),
       (''PROFILE_UNAVAILABLE'', code_entry 409 ''merits'' [''profile.create'']),
       (''PROVISIONER_INACTIVE'', code_entry 403 ''admission'' every_operation),
       (''PROVISIONER_REVOKED'', code_entry 403 ''admission'' every_operation),
       (''QUOTA_EXCEEDED'', code_entry 403 ''merits'' [''profile.create'']),
       (''REPLAY_DETECTED'', code_entry 409 ''indeterminate'' every_operation),
       (''RESERVED_PROFILE_ID'', code_entry 400 ''payload'' [''profile.create'']),
       (''STORAGE_CORRUPT'', code_entry 503 ''indeterminate'' every_operation),
       (''STORAGE_UNAVAILABLE'', code_entry 503 ''indeterminate'' every_operation),
       (''TEMPLATE_NOT_ALLOWED'', code_entry 403 ''merits'' [''profile.create'']),
       (''UNAUTHENTICATED'', code_entry 401 ''admission'' every_operation),
       (''UNKNOWN_FIELD'', code_entry 400 ''protocol'' every_operation),
       (''UNKNOWN_KEY'', code_entry 401 ''protocol'' every_operation),
       (''UNKNOWN_OPERATION'', code_entry 404 ''operation'' [''profile.status'', ''profile.revoke'']),
       (''UNSUPPORTED_MEDIA_TYPE'', code_entry 415 ''protocol'' every_operation),
       (''UNSUPPORTED_OPERATION'', code_entry 400 ''protocol'' every_operation),
       (''UNSUPPORTED_PROTOCOL'', code_entry 400 ''protocol'' every_operation),
       (''WRONG_AUDIENCE'', code_entry 403 ''protocol'' every_operation),
       (''WRONG_PURPOSE'', code_entry 400 ''protocol'' every_operation)],
     reg_failure_codes = [''ISSUER_NOT_TRUSTED'',
       ''PRINCIPAL_INACTIVE'',
       ''EXTERNAL_IDENTITY_CONFLICT'',
       ''PROFILE_UNAVAILABLE'',
       ''OWNERSHIP_CHANGED'',
       ''PROVISIONER_REVOKED'',
       ''INVALID_TEMPLATE'']\<rparr>"

lemma normative_codes:
  "bt_get (reg_codes normative_registry) ''EXPIRED'' = Some (code_entry 401 ''protocol'' every_operation)"
  "bt_get (reg_codes normative_registry) ''NOT_YET_VALID'' = Some (code_entry 401 ''protocol'' every_operation)"
  "bt_get (reg_codes normative_registry) ''UNKNOWN_KEY'' = Some (code_entry 401 ''protocol'' every_operation)"
  "bt_get (reg_codes normative_registry) ''LEDGER_CONTINUITY_FAILED'' =
     Some (code_entry 503 ''protocol'' every_operation)"
  "bt_get (reg_codes normative_registry) ''QUOTA_EXCEEDED'' =
     Some (code_entry 403 ''merits'' [''profile.create''])"
  "bt_get (reg_codes normative_registry) [] = None"
  by (simp_all only: normative_registry_def registry.simps map_of.simps fun_upd_apply fst_conv snd_conv
      list.inject char.inject list.distinct if_True if_False simp_thms)

section \<open>What Web does next\<close>

definition plan :: "resolution \<Rightarrow> bool \<Rightarrow> string" where
  "plan res present =
     (case res of
        Unresolved \<Rightarrow> ''send-create''
      | Attention _ \<Rightarrow> ''operator-attention''
      | Failed _ \<Rightarrow> ''none''
      | Resolved _ s \<Rightarrow>
          if s = ''completed'' then (if present then ''none'' else ''revoke'')
          else if s = ''failed'' then (if present then ''none'' else ''confirm-status'')
          else if s = ''revoked'' then (if present then ''operator-attention'' else ''none'')
          else ''operator-attention'')"

definition plan_retired :: "resolution \<Rightarrow> bool \<Rightarrow> string" where
  "plan_retired res present =
     (let live = (case res of Resolved _ s \<Rightarrow> s = ''completed'' | _ \<Rightarrow> False)
      in if plan res present = ''none'' \<and> \<not> live then ''none'' else ''operator-attention'')"

definition assess_ownership :: "string \<Rightarrow> bool \<Rightarrow> string" where
  "assess_ownership s owner_bound =
     (if s = ''completed'' \<and> owner_bound then ''bound''
      else if s = ''completed'' then ''attention:OWNERSHIP_LOST''
      else if s = ''revoked'' \<and> owner_bound then ''attention:UNEXPECTED_BINDING''
      else if owner_bound then ''bound-informational''
      else ''unbound'')"

section \<open>Lemmas\<close>

lemma operations_of_simps [simp]:
  "operations_of [] = []"
  "operations_of (t # ts) =
     (case t_outcome t of Operation i s \<Rightarrow> (i, s) # operations_of ts | _ \<Rightarrow> operations_of ts)"
  by (auto simp: operations_of_def map_filter_simps split: outcome.split)

lemma refusals_of_simps [simp]:
  "refusals_of r [] = []"
  "refusals_of r (t # ts) =
     (case t_outcome t of
        Refused c \<Rightarrow> (t, c, bt_get (reg_codes r) c) # refusals_of r ts | _ \<Rightarrow> refusals_of r ts)"
  by (auto simp: refusals_of_def map_filter_simps split: outcome.split)

lemma operations_of_none:
  "operations_of ts = [] \<longleftrightarrow> (\<forall>t \<in> set ts. \<forall>i s. t_outcome t \<noteq> Operation i s)"
  by (induction ts) (auto split: outcome.split)

lemma refusals_of_set:
  "set (refusals_of r ts) =
     {(t, c, bt_get (reg_codes r) c) | t c. t \<in> set ts \<and> t_outcome t = Refused c}"
  by (induction ts) (auto split: outcome.split)

lemma max_by_key_in: "max_by_key f xs = Some x \<Longrightarrow> x \<in> set xs"
  by (induction xs arbitrary: x) (auto split: option.splits if_splits)

lemma max_by_key_none [simp]: "max_by_key f xs = None \<longleftrightarrow> xs = []"
  by (cases xs) (auto split: option.splits)

text \<open>
  The grounds of a conclusion \<open>Failed\<close>: no answer named an operation, and either a refusal
  of the payload, or every transmission is refused for good, or every open transmission is
  beyond its horizon when a refusal on the merits was issued.
\<close>

lemma failed_without_operation:
  assumes "resolve_create_job_with r ts p u = Failed c"
  shows "operations_of ts = []"
  using assms by (auto simp: resolve_create_job_with_def split: list.splits if_splits)

lemma failed_registered:
  assumes "resolve_create_job_with r ts p u = Failed c" "t \<in> set ts" "t_outcome t = Refused k"
  shows "bt_get (reg_codes r) k \<noteq> None"
proof -
  have "resolve_refusals r ts p u = Failed c"
    using assms(1) failed_without_operation [OF assms(1)] by (simp add: resolve_create_job_with_def)
  then have "find (\<lambda>(_, c, e). c = ''IDEMPOTENCY_CONFLICT'' \<or> e = None) (refusals_of r ts) = None"
    by (auto simp: resolve_refusals_def Let_def split: option.splits)
  moreover have "(t, k, bt_get (reg_codes r) k) \<in> set (refusals_of r ts)"
    using assms(2,3) by (auto simp: refusals_of_set)
  ultimately show ?thesis unfolding find_None_iff by blast
qed

lemma failed_cases:
  assumes failed: "resolve_create_job_with r ts False u = Failed c"
    and no_payload: "\<And>t k e. t \<in> set ts \<Longrightarrow> t_outcome t = Refused k \<Longrightarrow>
      bt_get (reg_codes r) k = Some e \<Longrightarrow> rc_class e \<noteq> ''payload''"
  shows "operations_of ts = []"
    and "\<And>t. t \<in> set ts \<Longrightarrow> is_open r False t \<Longrightarrow>
      \<exists>m k e. m \<in> set ts \<and> t_outcome m = Refused k \<and> bt_get (reg_codes r) k = Some e \<and>
        rc_class e = ''merits'' \<and>
        wrap_add64 (t_expires_at t) acceptance_horizon_seconds \<le> t_issued_at m"
proof -
  show ops: "operations_of ts = []" by (rule failed_without_operation [OF failed])
  fix t assume t: "t \<in> set ts" "is_open r False t"
  from failed ops have res: "resolve_refusals r ts False u = Failed c"
    by (simp add: resolve_create_job_with_def)
  have "find (\<lambda>(_, _, e). class_of e = Some ''payload'') (rev (refusals_of r ts)) = None"
    using no_payload by (fastforce simp: find_None_iff refusals_of_set class_of_def)
  with res have "resolve_open (refusals_of r ts) (filter (is_open r False) ts) = Failed c"
    by (auto simp: resolve_refusals_def Let_def split: option.splits if_splits)
  then have "ruled_out (merits_of (refusals_of r ts)) (filter (is_open r False) ts)"
    using t by (auto simp: resolve_open_def Let_def filter_empty_conv split: if_splits option.splits)
  then obtain m where m: "m \<in> set (merits_of (refusals_of r ts))"
    "wrap_add64 (t_expires_at t) acceptance_horizon_seconds \<le> t_issued_at (fst m)"
    using t by (auto simp: ruled_out_def)
  then show "\<exists>m k e. m \<in> set ts \<and> t_outcome m = Refused k \<and> bt_get (reg_codes r) k = Some e \<and>
        rc_class e = ''merits'' \<and>
        wrap_add64 (t_expires_at t) acceptance_horizon_seconds \<le> t_issued_at m"
    by (auto simp: merits_of_def refusals_of_set class_of_def) metis
qed

end
