(* ===== verification/CreateRaces.thy ===== *)
theory CreateRaces
  imports CreateResolution "HOL-Library.Word"
begin

text \<open>
  The model of one harness that serves one create job (\<open>model.rs\<close> of the crate
  \<open>lightagent-protocol-conformance\<close>): the attempts in the order of the ledger lock, the guard of
  a start of execution, what Web concludes from the answers, and the generators of the schedules
  of the tests. The lemmas show that the execution fence makes Web's conclusion safe whatever the
  clocks do, and that the deadline alone needs a harness clock that never steps back.
\<close>

unbundle bit_operations_syntax

section \<open>The guard and one attempt\<close>

definition max_clock_skew_seconds :: nat where
  "max_clock_skew_seconds = 30"

datatype guard = GuardNone | Deadline | DeadlineAndFence

definition execution_deadline :: "nat \<Rightarrow> nat \<Rightarrow> string" where
  "execution_deadline expires_at lock_clock =
     (if wrap_add64 expires_at max_clock_skew_seconds \<le> lock_clock then ''EXPIRED''
      else ''proceed'')"

record attempt =
  a_index :: nat
  a_issued_at :: nat
  a_expires_at :: nat
  a_admitted_clock :: nat
  a_lock_clock :: nat
  a_quota_free :: bool
  a_response_lost :: bool
  a_crash_after_record :: bool

record race_result =
  rr_harness :: "string list"
  rr_operation :: "string option"
  rr_web :: resolution
  rr_unsafe :: bool

definition operation_placeholder :: string where
  "operation_placeholder = replicate 32 (CHR ''0'')"

record race_state =
  rs_harness :: "string list"
  rs_operation :: "string option"
  rs_fence :: nat

text \<open>The refusals of the steps 12 and 14, before the ledger is consulted.\<close>

definition refused_early :: "guard \<Rightarrow> attempt \<Rightarrow> nat \<Rightarrow> string option" where
  "refused_early g a fence =
     (let skew = max_clock_skew_seconds
      in if wrap_add64 (a_expires_at a) skew \<le> a_admitted_clock a then Some ''EXPIRED''
         else if wrap_add64 (a_admitted_clock a) skew < a_issued_at a then Some ''NOT_YET_VALID''
         else if g \<noteq> GuardNone \<and>
             (execution_deadline (a_expires_at a) (a_lock_clock a) = ''EXPIRED'' \<or>
              (g = DeadlineAndFence \<and> wrap_add64 (a_expires_at a) skew \<le> fence))
           then Some ''EXPIRED''
         else None)"

text \<open>The idempotency lookup and the execution, on the operation of the job's key.\<close>

definition execute_attempt :: "attempt \<Rightarrow> string option \<Rightarrow> string \<times> string option" where
  "execute_attempt a op =
     (case op of
        Some _ \<Rightarrow> (''OPERATION:completed'', Some ''completed'')
      | None \<Rightarrow>
          if \<not> a_quota_free a then (''QUOTA_EXCEEDED'', None)
          else if a_crash_after_record a then (''STORAGE_UNAVAILABLE'', Some ''pending'')
          else (''OPERATION:completed'', Some ''completed''))"

text \<open>One turn of the loop; \<open>None\<close> is the panic of an index outside the answers.\<close>

definition race_step :: "guard \<Rightarrow> attempt \<Rightarrow> race_state \<Rightarrow> race_state option" where
  "race_step g a s =
     (let (answer, op, fence) =
        (case refused_early g a (rs_fence s) of
           Some code \<Rightarrow> (code, rs_operation s, rs_fence s)
         | None \<Rightarrow>
             (let f = (if g = DeadlineAndFence
                       then max (rs_fence s) (a_issued_at a - max_clock_skew_seconds)
                       else rs_fence s);
                  (ans, o') = execute_attempt a (rs_operation s)
              in (ans, o', f)))
      in if a_index a < length (rs_harness s)
         then Some \<lparr>rs_harness = (rs_harness s)[a_index a := answer],
                    rs_operation = op, rs_fence = fence\<rparr>
         else None)"

fun race_loop :: "guard \<Rightarrow> attempt list \<Rightarrow> race_state \<Rightarrow> race_state option" where
  "race_loop g [] s = Some s"
| "race_loop g (a # rest) s =
     (case race_step g a s of None \<Rightarrow> None | Some s' \<Rightarrow> race_loop g rest s')"

definition web_outcome :: "string \<Rightarrow> bool \<Rightarrow> outcome" where
  "web_outcome answer lost =
     (if lost \<or> answer = ''STORAGE_UNAVAILABLE'' then Uncertain
      else case strip_prefix ''OPERATION:'' answer of
          Some st \<Rightarrow> Operation operation_placeholder st
        | None \<Rightarrow> Refused answer)"

definition journal_of :: "string list \<Rightarrow> attempt list \<Rightarrow> transmission list" where
  "journal_of harness attempts =
     map (\<lambda>a. \<lparr>t_issued_at = a_issued_at a, t_expires_at = a_expires_at a,
                t_outcome = web_outcome (harness ! a_index a) (a_response_lost a)\<rparr>)
       (sort_key a_index attempts)"

definition run :: "registry \<Rightarrow> attempt list \<Rightarrow> guard \<Rightarrow> race_result option" where
  "run r attempts g =
     (case race_loop g attempts
        \<lparr>rs_harness = replicate (length attempts) [], rs_operation = None, rs_fence = 0\<rparr> of
        None \<Rightarrow> None
      | Some s \<Rightarrow>
          (let web = resolve_create_job r (journal_of (rs_harness s) attempts)
           in Some \<lparr>rr_harness = rs_harness s, rr_operation = rs_operation s, rr_web = web,
                    rr_unsafe = ((case web of Failed _ \<Rightarrow> True | _ \<Rightarrow> False) \<and>
                                 rs_operation s \<noteq> None)\<rparr>))"

section \<open>The generators of the schedules\<close>

text \<open>\<open>xorshift64*\<close>; the state and the value are 64-bit words.\<close>

type_synonym rng = "64 word"

definition rng_new :: "64 word \<Rightarrow> rng" where
  "rng_new seed = max seed 1"

definition next_u64 :: "rng \<Rightarrow> 64 word \<times> rng" where
  "next_u64 x =
     (let a = x XOR drop_bit 12 x; b = a XOR push_bit 25 a; c = b XOR drop_bit 27 b
      in (c * 0x2545F4914F6CDD1D, c))"

text \<open>
  \<open>range\<close>: the casts between \<open>i64\<close> and \<open>u64\<close> are written out for the divisor; the callers keep
  the sum within \<open>i64\<close>.
\<close>

definition rng_range :: "int \<Rightarrow> int \<Rightarrow> rng \<Rightarrow> int \<times> rng" where
  "rng_range lo hi x =
     (let (v, x') = next_u64 x
      in (lo + uint v mod ((hi - lo + 1) mod 18446744073709551616), x'))"

definition rng_chance :: "nat \<Rightarrow> rng \<Rightarrow> bool \<times> rng" where
  "rng_chance percent x = (let (v, x') = next_u64 x in (unat v mod 100 < percent, x'))"

definition schedule_t0 :: int where
  "schedule_t0 = 1791000000"

definition as_u64 :: "int \<Rightarrow> nat" where
  "as_u64 x = nat (x mod 18446744073709551616)"

text \<open>The issue times of \<open>n\<close> transmissions, each at most 200 seconds after the one before.\<close>

fun draw_issued :: "nat \<Rightarrow> int \<Rightarrow> rng \<Rightarrow> int list \<times> rng" where
  "draw_issued 0 t x = ([], x)"
| "draw_issued (Suc n) t x =
     (let (d, x1) = rng_range 0 200 x; (rest, x2) = draw_issued n (t + d) x1
      in ((t + d) # rest, x2))"

fun draw_steps :: "nat \<Rightarrow> int \<Rightarrow> rng \<Rightarrow> (int \<times> int) list \<times> rng" where
  "draw_steps 0 max_step x = ([], x)"
| "draw_steps (Suc n) max_step x =
     (let (t, x1) = rng_range 0 1200 x; (d, x2) = rng_range (- max_step) max_step x1;
          (rest, x3) = draw_steps n max_step x2
      in ((schedule_t0 + t, d) # rest, x3))"

record sched_plan =
  sp_lifetime :: int
  sp_arrive :: int
  sp_want :: int
  sp_lost :: bool
  sp_crash :: bool
  sp_hold :: int

definition draw_plan :: "int \<Rightarrow> rng \<Rightarrow> sched_plan \<times> rng" where
  "draw_plan issued_at x =
     (let (lifetime, x1) = rng_range 1 120 x;
          (near, x2) = rng_chance 70 x1;
          (delay, x3) = (if near then rng_range 0 2 x2 else rng_range 0 200 x2);
          arrive = issued_at + delay;
          (at_once, x4) = rng_chance 50 x3;
          (wait, x5) = (if at_once then (0, x4) else rng_range 0 600 x4);
          (lost, x6) = rng_chance 40 x5;
          (crash, x7) = rng_chance 10 x6;
          (hold, x8) = rng_range 0 30 x7
      in (\<lparr>sp_lifetime = lifetime, sp_arrive = arrive, sp_want = arrive + wait, sp_lost = lost,
           sp_crash = crash, sp_hold = hold\<rparr>, x8))"

fun draw_plans :: "int list \<Rightarrow> rng \<Rightarrow> sched_plan list \<times> rng" where
  "draw_plans [] x = ([], x)"
| "draw_plans (t # ts) x =
     (let (p, x1) = draw_plan t x; (ps, x2) = draw_plans ts x1 in (p # ps, x2))"

definition sched_clock :: "int \<Rightarrow> (int \<times> int) list \<Rightarrow> int \<Rightarrow> nat" where
  "sched_clock offset steps real =
     as_u64 (real + offset + sum_list (map snd (filter (\<lambda>(t, _). t \<le> real) steps)))"

text \<open>
  The first \<open>k\<close> transmissions on the lock: in the order of the time at which they want it, each
  after the one before has released it. \<open>None\<close> stands for \<open>i64::MIN\<close>.
\<close>

fun serialize ::
    "int list \<Rightarrow> sched_plan list \<Rightarrow> (int \<Rightarrow> nat) \<Rightarrow> int \<times> int \<Rightarrow> nat list \<Rightarrow> int option \<Rightarrow> attempt list" where
  "serialize issued plans clock quota [] free_at = []"
| "serialize issued plans clock quota (i # rest) free_at =
     (let p = plans ! i;
          acquired = (case free_at of None \<Rightarrow> sp_want p | Some f \<Rightarrow> max (sp_want p) f)
      in \<lparr>a_index = i, a_issued_at = as_u64 (issued ! i),
          a_expires_at = as_u64 (issued ! i + sp_lifetime p),
          a_admitted_clock = clock (sp_arrive p), a_lock_clock = clock acquired,
          a_quota_free = (fst quota \<le> acquired \<and> acquired \<le> snd quota),
          a_response_lost = sp_lost p, a_crash_after_record = sp_crash p\<rparr>
         # serialize issued plans clock quota rest (Some (acquired + sp_hold p)))"

definition lock_order :: "sched_plan list \<Rightarrow> nat \<Rightarrow> nat list" where
  "lock_order plans k = sort_key (\<lambda>i. sp_want (plans ! i)) [0..<k]"

text \<open>The loop over the prefixes of the journal, with the worst result so far.\<close>

fun worst_prefix ::
    "(nat \<Rightarrow> race_result option) \<Rightarrow> nat list \<Rightarrow> race_result option \<Rightarrow> race_result option option" where
  "worst_prefix f [] worst = Some worst"
| "worst_prefix f (k # ks) worst =
     (case f k of
        None \<Rightarrow> None
      | Some res \<Rightarrow>
          (let w = (if rr_unsafe res \<or> worst = None then Some res else worst)
           in if (case w of Some v \<Rightarrow> rr_unsafe v | None \<Rightarrow> False) then Some w
              else worst_prefix f ks w))"

definition random_schedule ::
    "registry \<Rightarrow> rng \<Rightarrow> guard \<Rightarrow> int \<Rightarrow> race_result option \<times> rng" where
  "random_schedule r x g max_step =
     (let (n, x1) = rng_range 1 4 x;
          (issued, x2) = draw_issued (nat n) schedule_t0 x1;
          (offset, x3) = rng_range (- 30) 30 x2;
          (count, x4) = (if 0 < max_step then rng_range 0 3 x3 else (0, x3));
          (steps, x5) = draw_steps (nat count) max_step x4;
          (q0, x6) = rng_range 0 1000 x5;
          (q1, x7) = rng_range 0 1400 x6;
          (plans, x8) = draw_plans issued x7;
          quota = (schedule_t0 + q0, schedule_t0 + q1);
          attempts = (\<lambda>k. serialize issued plans (sched_clock offset steps) quota
                            (lock_order plans k) None)
      in (case worst_prefix (\<lambda>k. run r (attempts k) g) [1..<nat n + 1] None of
            Some (Some res) \<Rightarrow> Some res | _ \<Rightarrow> None,
          x8))"

text \<open>The clock-step hazard of two transmissions.\<close>

definition stepped_pair ::
    "registry \<Rightarrow> rng \<Rightarrow> guard \<Rightarrow> (race_result option \<times> int) \<times> rng" where
  "stepped_pair r x g =
     (let (offset, x1) = rng_range (- 30) 30 x;
          u_issued = schedule_t0;
          (ul, x2) = rng_range 1 120 x1; u_expires = u_issued + ul;
          (gap, x3) = rng_range 0 30 x2; t_issued = u_expires + 60 + gap;
          (tl, x4) = rng_range 1 120 x3; t_expires = t_issued + tl;
          (ud, x5) = rng_range 0 2 x4; u_arrive = u_issued + ud;
          (td, x6) = rng_range 0 2 x5; t_arrive = t_issued + td;
          (lk, x7) = rng_range 1 300 x6; u_lock = t_arrive + lk;
          (step, x8) = rng_range (- 90) 90 x7;
          clock = (\<lambda>real stepped. as_u64 (real + offset + (if stepped then step else 0)))
      in ((run r
            [\<lparr>a_index = 1, a_issued_at = as_u64 t_issued, a_expires_at = as_u64 t_expires,
              a_admitted_clock = clock t_arrive False, a_lock_clock = clock t_arrive False,
              a_quota_free = False, a_response_lost = False, a_crash_after_record = False\<rparr>,
             \<lparr>a_index = 0, a_issued_at = as_u64 u_issued, a_expires_at = as_u64 u_expires,
              a_admitted_clock = clock u_arrive False, a_lock_clock = clock u_lock True,
              a_quota_free = True, a_response_lost = True, a_crash_after_record = False\<rparr>] g,
           step), x8))"

section \<open>Safety of the conclusion\<close>

text \<open>The registry classes that the argument uses.\<close>

definition race_registry :: "registry \<Rightarrow> bool" where
  "race_registry r \<longleftrightarrow>
     (\<forall>e. bt_get (reg_codes r) ''EXPIRED'' = Some e \<longrightarrow> rc_class e \<notin> {''payload'', ''merits''}) \<and>
     (\<forall>e. bt_get (reg_codes r) ''NOT_YET_VALID'' = Some e \<longrightarrow> rc_class e \<notin> {''payload'', ''merits''}) \<and>
     (\<forall>e. bt_get (reg_codes r) ''QUOTA_EXCEEDED'' = Some e \<longrightarrow> rc_class e \<noteq> ''payload'')"

text \<open>Stamps as the envelope allows them, and indices that name the rows of the journal.\<close>

definition stamps_ok :: "attempt list \<Rightarrow> bool" where
  "stamps_ok as \<longleftrightarrow> (\<forall>a \<in> set as. a_issued_at a \<le> 9999999999 \<and> a_expires_at a \<le> 9999999999)"

definition rows_ok :: "attempt list \<Rightarrow> bool" where
  "rows_ok as \<longleftrightarrow> distinct (map a_index as) \<and> (\<forall>a \<in> set as. a_index a < length as)"

text \<open>The harness clock never steps back: read at a lock, it is at or past every admission before.\<close>

fun steady_clock :: "attempt list \<Rightarrow> bool" where
  "steady_clock [] = True"
| "steady_clock (a # rest) =
     ((\<forall>b \<in> set rest. a_admitted_clock a \<le> a_lock_clock b) \<and> steady_clock rest)"

lemma steady_clock_append:
  "steady_clock (as @ bs) \<longleftrightarrow> steady_clock as \<and> steady_clock bs \<and>
     (\<forall>a \<in> set as. \<forall>b \<in> set bs. a_admitted_clock a \<le> a_lock_clock b)"
  by (induction as) auto

definition race_answers :: "string set" where
  "race_answers = {''EXPIRED'', ''NOT_YET_VALID'', ''QUOTA_EXCEEDED'', ''STORAGE_UNAVAILABLE'',
     ''OPERATION:completed''}"

text \<open>
  What the loop keeps about the attempts it has served: the fence is at or past the issue of
  every refusal on the merits, and when an operation exists, its creator was answered by it or
  left uncertain and expires late enough that no refusal on the merits rules it out.
\<close>

definition race_inv :: "guard \<Rightarrow> nat \<Rightarrow> attempt list \<Rightarrow> race_state \<Rightarrow> bool" where
  "race_inv g n served s \<longleftrightarrow>
     length (rs_harness s) = n \<and>
     (\<forall>a \<in> set served. a_index a < n \<and> rs_harness s ! a_index a \<in> race_answers) \<and>
     (\<forall>m \<in> set served. rs_harness s ! a_index m = ''QUOTA_EXCEEDED'' \<longrightarrow>
        (g = DeadlineAndFence \<longrightarrow> a_issued_at m - 30 \<le> rs_fence s) \<and>
        a_issued_at m \<le> wrap_add64 (a_admitted_clock m) 30) \<and>
     (rs_operation s \<noteq> None \<longrightarrow>
        (\<exists>u \<in> set served. rs_harness s ! a_index u \<in> {''STORAGE_UNAVAILABLE'', ''OPERATION:completed''} \<and>
           (\<forall>m \<in> set served. rs_harness s ! a_index m = ''QUOTA_EXCEEDED'' \<longrightarrow>
              a_issued_at m < a_expires_at u + 60)))"

lemma refused_early_answers: "refused_early g a f = Some c \<Longrightarrow> c \<in> {''EXPIRED'', ''NOT_YET_VALID''}"
  by (auto simp: refused_early_def Let_def split: if_splits)

lemma admitted_attempt:
  assumes "refused_early g a f = None" "a_expires_at a \<le> 9999999999"
  shows "a_issued_at a \<le> wrap_add64 (a_admitted_clock a) 30"
    and "g \<noteq> GuardNone \<Longrightarrow> a_lock_clock a < a_expires_at a + 30"
    and "g = DeadlineAndFence \<Longrightarrow> f < a_expires_at a + 30"
proof -
  have e: "wrap_add64 (a_expires_at a) 30 = a_expires_at a + 30"
    using assms(2) by (simp add: wrap_add64_def u64_max_def)
  show "a_issued_at a \<le> wrap_add64 (a_admitted_clock a) 30"
    and "g \<noteq> GuardNone \<Longrightarrow> a_lock_clock a < a_expires_at a + 30"
    and "g = DeadlineAndFence \<Longrightarrow> f < a_expires_at a + 30"
    using assms(1) e
    by (auto simp: refused_early_def Let_def max_clock_skew_seconds_def execution_deadline_def
        split: if_splits)
qed

text \<open>The condition under which an attempt is served after the others.\<close>

definition guarded :: "guard \<Rightarrow> attempt list \<Rightarrow> attempt \<Rightarrow> bool" where
  "guarded g served a \<longleftrightarrow>
     g = DeadlineAndFence \<or>
     (g = Deadline \<and>
      (\<forall>m \<in> set served. a_admitted_clock m \<le> u64_max - 30 \<and> a_admitted_clock m \<le> a_lock_clock a))"

lemma creator_is_late:
  assumes inv: "race_inv g n served s"
    and adm: "refused_early g a (rs_fence s) = None" "a_expires_at a \<le> 9999999999"
    and g: "guarded g served a"
    and m: "m \<in> set served" "rs_harness s ! a_index m = ''QUOTA_EXCEEDED''"
  shows "a_issued_at m < a_expires_at a + 60"
proof (cases "g = DeadlineAndFence")
  case True
  then have "a_issued_at m - 30 \<le> rs_fence s" using inv m by (simp add: race_inv_def)
  then show ?thesis using admitted_attempt(3) [OF adm True] by simp
next
  case False
  with g m have d: "g = Deadline" "a_admitted_clock m + 30 \<le> u64_max" "a_admitted_clock m \<le> a_lock_clock a"
    by (auto simp: guarded_def u64_max_def)
  have "a_issued_at m \<le> wrap_add64 (a_admitted_clock m) 30" using inv m by (simp add: race_inv_def)
  also have "\<dots> = a_admitted_clock m + 30" by (rule wrap_add64_exact) (rule d)
  finally show ?thesis using admitted_attempt(2) [OF adm] d by simp
qed

abbreviation may_have_created :: "string \<Rightarrow> bool" where
  "may_have_created ans \<equiv> ans \<in> {''STORAGE_UNAVAILABLE'', ''OPERATION:completed''}"

definition late_creator :: "race_state \<Rightarrow> attempt list \<Rightarrow> attempt \<Rightarrow> bool" where
  "late_creator s served u \<longleftrightarrow>
     (\<forall>m \<in> set served. rs_harness s ! a_index m = ''QUOTA_EXCEEDED'' \<longrightarrow>
        a_issued_at m < a_expires_at u + 60)"

lemma race_inv_add:
  assumes inv: "race_inv g n served s" and idx: "a_index a < n"
    and fresh: "a_index a \<notin> a_index ` set served"
    and ans: "ans \<in> race_answers" and f: "rs_fence s \<le> f"
    and quota: "ans = ''QUOTA_EXCEEDED'' \<Longrightarrow>
      (g = DeadlineAndFence \<longrightarrow> a_issued_at a - 30 \<le> f) \<and> a_issued_at a \<le> wrap_add64 (a_admitted_clock a) 30"
    and op: "op \<noteq> None \<Longrightarrow> rs_operation s \<noteq> None \<and> ans \<noteq> ''QUOTA_EXCEEDED'' \<or>
      may_have_created ans \<and> late_creator s served a"
  shows "race_inv g n (served @ [a])
    \<lparr>rs_harness = (rs_harness s)[a_index a := ans], rs_operation = op, rs_fence = f\<rparr>"
proof -
  let ?h = "(rs_harness s)[a_index a := ans]"
  have len: "length (rs_harness s) = n" using inv by (simp add: race_inv_def)
  have keep: "\<And>b. b \<in> set served \<Longrightarrow> ?h ! a_index b = rs_harness s ! a_index b"
    using fresh by (metis imageI nth_list_update_neq)
  have own: "?h ! a_index a = ans" using idx len by simp
  have 1: "\<forall>b \<in> set (served @ [a]). a_index b < n \<and> ?h ! a_index b \<in> race_answers"
    using inv keep own ans idx by (simp add: race_inv_def)
  have 2: "\<forall>m \<in> set (served @ [a]). ?h ! a_index m = ''QUOTA_EXCEEDED'' \<longrightarrow>
      (g = DeadlineAndFence \<longrightarrow> a_issued_at m - 30 \<le> f) \<and> a_issued_at m \<le> wrap_add64 (a_admitted_clock m) 30"
  proof
    fix m assume "m \<in> set (served @ [a])"
    then consider "m \<in> set served" | "m = a" by auto
    then show "?h ! a_index m = ''QUOTA_EXCEEDED'' \<longrightarrow>
      (g = DeadlineAndFence \<longrightarrow> a_issued_at m - 30 \<le> f) \<and> a_issued_at m \<le> wrap_add64 (a_admitted_clock m) 30"
    proof cases
      case 1
      then show ?thesis using inv keep [OF 1] f unfolding race_inv_def by (metis le_trans)
    qed (use own quota in simp)
  qed
  have 3: "\<exists>u \<in> set (served @ [a]). may_have_created (?h ! a_index u) \<and>
      (\<forall>m \<in> set (served @ [a]). ?h ! a_index m = ''QUOTA_EXCEEDED'' \<longrightarrow> a_issued_at m < a_expires_at u + 60)"
    if some: "op \<noteq> None"
    using op [OF some]
  proof
    assume old: "rs_operation s \<noteq> None \<and> ans \<noteq> ''QUOTA_EXCEEDED''"
    then obtain u where u: "u \<in> set served" "may_have_created (rs_harness s ! a_index u)"
        "late_creator s served u"
      using inv unfolding race_inv_def late_creator_def by blast
    have "\<forall>m \<in> set (served @ [a]). ?h ! a_index m = ''QUOTA_EXCEEDED'' \<longrightarrow> a_issued_at m < a_expires_at u + 60"
      using u(3) old own keep by (simp add: late_creator_def)
    then show ?thesis using u keep [OF u(1)] by (intro bexI [of _ u]) simp_all
  next
    assume new: "may_have_created ans \<and> late_creator s served a"
    then have "\<forall>m \<in> set (served @ [a]). ?h ! a_index m = ''QUOTA_EXCEEDED'' \<longrightarrow> a_issued_at m < a_expires_at a + 60"
      using own keep by (auto simp: late_creator_def)
    then show ?thesis using new own by (intro bexI [of _ a]) simp_all
  qed
  show ?thesis unfolding race_inv_def
    using 1 2 3 len ans by simp
qed

lemma race_step_inv:
  assumes inv: "race_inv g n served s" and step: "race_step g a s = Some s'"
    and fresh: "a_index a \<notin> a_index ` set served"
    and e: "a_expires_at a \<le> 9999999999" and g: "guarded g served a"
  shows "race_inv g n (served @ [a]) s'"
proof -
  have idx: "a_index a < n"
    using step inv by (auto simp: race_step_def race_inv_def Let_def split: option.splits if_splits prod.splits)
  show ?thesis
  proof (cases "refused_early g a (rs_fence s)")
    case (Some c)
    with step have s': "s' = \<lparr>rs_harness = (rs_harness s)[a_index a := c],
        rs_operation = rs_operation s, rs_fence = rs_fence s\<rparr>"
      by (auto simp: race_step_def split: if_splits)
    have "c \<in> {''EXPIRED'', ''NOT_YET_VALID''}" using Some by (rule refused_early_answers)
    then show ?thesis unfolding s'
      by (intro race_inv_add [OF inv idx fresh]) (auto simp: race_answers_def)
  next
    case None
    let ?f = "if g = DeadlineAndFence then max (rs_fence s) (a_issued_at a - 30) else rs_fence s"
    obtain ans o' where ex: "execute_attempt a (rs_operation s) = (ans, o')" by fastforce
    with step None have s': "s' = \<lparr>rs_harness = (rs_harness s)[a_index a := ans],
        rs_operation = o', rs_fence = ?f\<rparr>"
      by (auto simp: race_step_def Let_def max_clock_skew_seconds_def split: if_splits)
    have adm: "a_issued_at a \<le> wrap_add64 (a_admitted_clock a) 30"
      using admitted_attempt(1) [OF None e] .
    have late: "late_creator s served a"
      unfolding late_creator_def by (intro ballI impI creator_is_late [OF inv None e g])
    have ans: "ans \<in> race_answers"
      using ex by (auto simp: execute_attempt_def race_answers_def split: option.splits if_splits)
    have op: "o' \<noteq> None \<Longrightarrow> rs_operation s \<noteq> None \<and> ans \<noteq> ''QUOTA_EXCEEDED'' \<or>
        may_have_created ans \<and> late_creator s served a"
      using ex late by (auto simp: execute_attempt_def split: option.splits if_splits)
    show ?thesis unfolding s'
      by (intro race_inv_add [OF inv idx fresh ans _ _ op]) (use adm in auto)
  qed
qed

fun guarded_run :: "guard \<Rightarrow> attempt list \<Rightarrow> attempt list \<Rightarrow> bool" where
  "guarded_run g served [] = True"
| "guarded_run g served (a # rest) = (guarded g served a \<and> guarded_run g (served @ [a]) rest)"

lemma race_loop_inv:
  assumes "race_inv g n served s" "race_loop g as s = Some s'"
    "distinct (map a_index (served @ as))" "\<forall>a \<in> set as. a_expires_at a \<le> 9999999999"
    "guarded_run g served as"
  shows "race_inv g n (served @ as) s'"
  using assms
proof (induction as arbitrary: served s)
  case (Cons a as)
  then obtain s1 where s1: "race_step g a s = Some s1" "race_loop g as s1 = Some s'"
    by (auto split: option.splits)
  have "race_inv g n (served @ [a]) s1"
    by (rule race_step_inv [OF Cons.prems(1) s1(1)]) (use Cons.prems in auto)
  from Cons.IH [OF this s1(2)] Cons.prems show ?case by simp
qed simp

lemma race_step_total:
  "a_index a < length (rs_harness s) \<Longrightarrow>
     \<exists>s'. race_step g a s = Some s' \<and> length (rs_harness s') = length (rs_harness s)"
  by (cases "refused_early g a (rs_fence s)"; cases "execute_attempt a (rs_operation s)")
    (auto simp: race_step_def Let_def)

lemma race_loop_total:
  "(\<forall>a \<in> set as. a_index a < length (rs_harness s)) \<Longrightarrow> \<exists>s'. race_loop g as s = Some s'"
proof (induction as arbitrary: s)
  case (Cons a as)
  then obtain s1 where "race_step g a s = Some s1" "length (rs_harness s1) = length (rs_harness s)"
    using race_step_total [of a s g] by auto
  with Cons show ?case by (auto split: option.splits)
qed simp

lemma guarded_run_fence: "guarded_run DeadlineAndFence served as"
  by (induction as arbitrary: served) (auto simp: guarded_def)

lemma guarded_run_steady:
  "steady_clock (served @ as) \<Longrightarrow> \<forall>a \<in> set (served @ as). a_admitted_clock a \<le> u64_max - 30 \<Longrightarrow>
     guarded_run Deadline served as"
  by (induction as arbitrary: served) (auto simp: guarded_def steady_clock_append)

text \<open>The conclusion of Web on a journal of such answers.\<close>

lemma race_conclusion:
  assumes inv: "race_inv g (length as) as s" and op: "rs_operation s \<noteq> None"
    and reg: "race_registry r" and stamps: "stamps_ok as"
  shows "resolve_create_job r (journal_of (rs_harness s) as) \<noteq> Failed c"
proof
  let ?h = "rs_harness s"
  assume failed: "resolve_create_job r (journal_of ?h as) = Failed c"
  have row: "\<And>t. t \<in> set (journal_of ?h as) \<Longrightarrow> \<exists>a \<in> set as.
      t_issued_at t = a_issued_at a \<and> t_expires_at t = a_expires_at a \<and>
      t_outcome t = web_outcome (?h ! a_index a) (a_response_lost a)"
    by (auto simp: journal_of_def)
  have ref: "\<And>a k. a \<in> set as \<Longrightarrow> web_outcome (?h ! a_index a) (a_response_lost a) = Refused k \<Longrightarrow>
      k = ?h ! a_index a \<and> k \<in> {''EXPIRED'', ''NOT_YET_VALID'', ''QUOTA_EXCEEDED''}"
    using inv by (auto simp: race_inv_def race_answers_def web_outcome_def strip_prefix_def
        is_prefix_of_def split: if_splits)
  from op inv obtain u where u: "u \<in> set as"
      "?h ! a_index u \<in> {''STORAGE_UNAVAILABLE'', ''OPERATION:completed''}"
      "\<And>m. m \<in> set as \<Longrightarrow> ?h ! a_index m = ''QUOTA_EXCEEDED'' \<Longrightarrow> a_issued_at m < a_expires_at u + 60"
    by (auto simp: race_inv_def)
  have pay: "rc_class e \<noteq> ''payload''"
    if "t \<in> set (journal_of ?h as)" "t_outcome t = Refused k" "bt_get (reg_codes r) k = Some e" for t k e
    using that row [of t] ref reg by (fastforce simp: race_registry_def)
  let ?t = "\<lparr>t_issued_at = a_issued_at u, t_expires_at = a_expires_at u,
      t_outcome = web_outcome (?h ! a_index u) (a_response_lost u)\<rparr>"
  have t: "?t \<in> set (journal_of ?h as)" using u(1) by (auto simp: journal_of_def)
  have ops: "operations_of (journal_of ?h as) = []"
    using failed by (auto simp: resolve_create_job_def intro: failed_without_operation)
  have "web_outcome (?h ! a_index u) (a_response_lost u) = Uncertain"
    using u(2) t ops
    by (auto simp: operations_of_none web_outcome_def strip_prefix_def is_prefix_of_def
        split: if_splits)
  then have "is_open r False ?t" by (simp add: is_open_def)
  then have "\<exists>m k e. m \<in> set (journal_of ?h as) \<and> t_outcome m = Refused k \<and>
      bt_get (reg_codes r) k = Some e \<and> rc_class e = ''merits'' \<and>
      wrap_add64 (t_expires_at ?t) acceptance_horizon_seconds \<le> t_issued_at m"
    by (intro failed_cases(2) [OF failed [unfolded resolve_create_job_def]] t)
      (erule pay, assumption+)
  then obtain m k e where m: "m \<in> set (journal_of ?h as)" "t_outcome m = Refused k"
      "bt_get (reg_codes r) k = Some e" "rc_class e = ''merits''"
      "wrap_add64 (a_expires_at u) acceptance_horizon_seconds \<le> t_issued_at m" by auto
  then obtain a where a: "a \<in> set as" "t_issued_at m = a_issued_at a" "k = ?h ! a_index a"
      "k \<in> {''EXPIRED'', ''NOT_YET_VALID'', ''QUOTA_EXCEEDED''}"
    using row [of m] ref by (metis (no_types))
  with m reg have "?h ! a_index a = ''QUOTA_EXCEEDED''" by (auto simp: race_registry_def)
  moreover have "wrap_add64 (a_expires_at u) acceptance_horizon_seconds = a_expires_at u + 60"
    using stamps u(1) by (auto simp: wrap_add64_def acceptance_horizon_seconds_def u64_max_def stamps_ok_def)
  ultimately show False using u(3) [OF a(1)] m(5) a(2) by simp
qed

lemma guarded_run_safe:
  assumes "rows_ok as" "stamps_ok as" "race_registry r" "guarded_run g [] as"
  shows "\<exists>res. run r as g = Some res \<and> \<not> rr_unsafe res"
proof -
  let ?s = "\<lparr>rs_harness = replicate (length as) [], rs_operation = None, rs_fence = 0\<rparr>"
  obtain s where s: "race_loop g as ?s = Some s"
    using race_loop_total [of as ?s g] assms(1) by (auto simp: rows_ok_def)
  have "race_inv g (length as) [] ?s" by (simp add: race_inv_def)
  from race_loop_inv [OF this s] assms have "race_inv g (length as) as s"
    by (auto simp: rows_ok_def stamps_ok_def)
  then have "rs_operation s = None \<or> (\<forall>c. resolve_create_job r (journal_of (rs_harness s) as) \<noteq> Failed c)"
    using race_conclusion assms by blast
  then show ?thesis using s by (auto simp: run_def Let_def split: resolution.split)
qed

section \<open>Schedules of the generators\<close>

lemma rng_range_bounds:
  assumes "lo \<le> hi" "hi - lo + 1 < 18446744073709551616"
  shows "lo \<le> fst (rng_range lo hi x)" "fst (rng_range lo hi x) \<le> hi"
proof -
  have m: "(hi - lo + 1) mod 18446744073709551616 = hi - lo + 1" using assms by simp
  have pos: "0 < hi - lo + 1" using assms by simp
  have "0 \<le> v mod (hi - lo + 1)" "v mod (hi - lo + 1) < hi - lo + 1" for v :: int
    by (rule pos_mod_sign [OF pos], rule pos_mod_bound [OF pos])
  from this [of "uint (fst (next_u64 x))"]
  show "lo \<le> fst (rng_range lo hi x)" "fst (rng_range lo hi x) \<le> hi"
    by (auto simp: rng_range_def m split: prod.splits)
qed

lemma draw_issued_bounds:
  "t \<ge> 0 \<Longrightarrow> length (fst (draw_issued n t x)) = n \<and>
     (\<forall>u \<in> set (fst (draw_issued n t x)). t \<le> u \<and> u \<le> t + 200 * int n)"
proof (induction n arbitrary: t x)
  case (Suc n)
  obtain d x1 where d: "rng_range 0 200 x = (d, x1)" by fastforce
  then have b: "0 \<le> d" "d \<le> 200" using rng_range_bounds [of 0 200 x] by simp_all
  obtain rest x2 where r: "draw_issued n (t + d) x1 = (rest, x2)" by fastforce
  from Suc.IH [of "t + d" x1] Suc.prems b r have
    "length rest = n" "\<forall>u \<in> set rest. t + d \<le> u \<and> u \<le> t + d + 200 * int n" by simp_all
  then show ?case using d r b by (fastforce simp: algebra_simps)
qed simp

lemma draw_plan_bounds:
  assumes "draw_plan t x = (p, x')"
  shows "1 \<le> sp_lifetime p \<and> sp_lifetime p \<le> 120 \<and> t \<le> sp_arrive p \<and> sp_arrive p \<le> t + 200 \<and>
    sp_arrive p \<le> sp_want p \<and> sp_want p \<le> sp_arrive p + 600 \<and> 0 \<le> sp_hold p \<and> sp_hold p \<le> 30"
proof -
  obtain lifetime x1 where l: "rng_range 1 120 x = (lifetime, x1)" by fastforce
  obtain near x2 where n: "rng_chance 70 x1 = (near, x2)" by fastforce
  obtain delay x3 where d: "(if near then rng_range 0 2 x2 else rng_range 0 200 x2) = (delay, x3)"
    by fastforce
  obtain now x4 where a: "rng_chance 50 x3 = (now, x4)" by fastforce
  obtain pause x5 where w: "(if now then (0, x4) else rng_range 0 600 x4) = (pause, x5)" by fastforce
  obtain lost x6 where lo: "rng_chance 40 x5 = (lost, x6)" by fastforce
  obtain crash x7 where c: "rng_chance 10 x6 = (crash, x7)" by fastforce
  obtain hold x8 where h: "rng_range 0 30 x7 = (hold, x8)" by fastforce
  have "1 \<le> lifetime" "lifetime \<le> 120" "0 \<le> hold" "hold \<le> 30"
    using rng_range_bounds [of 1 120 x] rng_range_bounds [of 0 30 x7] l h by simp_all
  moreover have "0 \<le> delay" "delay \<le> 200"
    using d rng_range_bounds [of 0 2 x2] rng_range_bounds [of 0 200 x2] by (auto split: if_splits)
  moreover have "0 \<le> pause" "pause \<le> 600"
    using w rng_range_bounds [of 0 600 x4] by (auto split: if_splits)
  moreover have "p = \<lparr>sp_lifetime = lifetime, sp_arrive = t + delay, sp_want = t + delay + pause,
      sp_lost = lost, sp_crash = crash, sp_hold = hold\<rparr>"
    using assms unfolding draw_plan_def Let_def l n d a w lo c h prod.case by simp
  ultimately show ?thesis by simp
qed

lemma draw_plans_bounds:
  "length (fst (draw_plans ts x)) = length ts \<and>
   (\<forall>i < length ts. let p = fst (draw_plans ts x) ! i in
      1 \<le> sp_lifetime p \<and> sp_lifetime p \<le> 120 \<and> ts ! i \<le> sp_arrive p \<and> sp_arrive p \<le> ts ! i + 200 \<and>
      sp_arrive p \<le> sp_want p \<and> sp_want p \<le> sp_arrive p + 600 \<and> 0 \<le> sp_hold p \<and> sp_hold p \<le> 30)"
proof (induction ts arbitrary: x)
  case (Cons t ts)
  obtain p x1 where p: "draw_plan t x = (p, x1)" by fastforce
  obtain ps x2 where ps: "draw_plans ts x1 = (ps, x2)" by fastforce
  from Cons.IH [of x1] ps draw_plan_bounds [OF p] show ?case
    by (auto simp: p Let_def nth_Cons split: nat.split)
qed simp

lemma serialize_index: "map a_index (serialize issued plans clock quota is f) = is"
  by (induction "is" arbitrary: f) (simp_all add: Let_def)

lemma serialize_rows:
  "set is = {..<length is} \<Longrightarrow> distinct is \<Longrightarrow> rows_ok (serialize issued plans clock quota is f)"
proof -
  assume a: "set is = {..<length is}" "distinct is"
  let ?as = "serialize issued plans clock quota is f"
  have l: "length ?as = length is" by (metis length_map serialize_index)
  have "a_index ` set ?as = set is" by (metis serialize_index set_map)
  then show "rows_ok ?as" using a l by (auto simp: rows_ok_def serialize_index)
qed

lemma serialize_stamps:
  assumes "\<forall>i \<in> set is. 0 \<le> issued ! i \<and> issued ! i \<le> 9000000000 \<and>
      0 \<le> sp_lifetime (plans ! i) \<and> sp_lifetime (plans ! i) \<le> 120"
  shows "stamps_ok (serialize issued plans clock quota is f)"
  using assms by (induction "is" arbitrary: f) (auto simp: stamps_ok_def Let_def as_u64_def)

lemma lock_order_perm: "set (lock_order plans k) = {..<k}" "distinct (lock_order plans k)"
    "length (lock_order plans k) = k"
  by (auto simp: lock_order_def)

lemma worst_prefix_safe:
  assumes "\<forall>k \<in> set ks. \<exists>res. f k = Some res \<and> \<not> rr_unsafe res"
    "w \<noteq> None \<longrightarrow> \<not> rr_unsafe (the w)" "ks \<noteq> [] \<or> w \<noteq> None"
  shows "\<exists>res. worst_prefix f ks w = Some (Some res) \<and> \<not> rr_unsafe res"
  using assms
proof (induction ks arbitrary: w)
  case (Cons k ks)
  then obtain res where res: "f k = Some res" "\<not> rr_unsafe res" by auto
  let ?w = "if rr_unsafe res \<or> w = None then Some res else w"
  have w: "?w \<noteq> None" "\<not> rr_unsafe (the ?w)" using res Cons.prems by auto
  then have "worst_prefix f (k # ks) w = worst_prefix f ks ?w"
    using res by (auto simp: Let_def split: option.split)
  then show ?case using Cons.IH [of ?w] Cons.prems(1) w by simp
qed auto

text \<open>Every schedule of the generator, whatever the seed and the clock steps, is safe with the fence.\<close>

lemma serialized_stamps:
  assumes "k \<le> nat n" "1 \<le> n" "n \<le> 4"
    and issued: "draw_issued (nat n) schedule_t0 x1 = (issued, x2)"
    and plans: "draw_plans issued x7 = (plans, x8)"
  shows "rows_ok (serialize issued plans clock quota (lock_order plans k) None)"
    and "stamps_ok (serialize issued plans clock quota (lock_order plans k) None)"
proof -
  show "rows_ok (serialize issued plans clock quota (lock_order plans k) None)"
    by (rule serialize_rows) (simp_all add: lock_order_perm)
  have i: "length issued = nat n" "\<forall>u \<in> set issued. schedule_t0 \<le> u \<and> u \<le> schedule_t0 + 200 * int (nat n)"
    using draw_issued_bounds [of schedule_t0 "nat n" x1] issued by (simp_all add: schedule_t0_def)
  have p: "\<forall>i < length issued. 1 \<le> sp_lifetime (plans ! i) \<and> sp_lifetime (plans ! i) \<le> 120"
    using draw_plans_bounds [of issued x7] plans by (simp add: Let_def)
  show "stamps_ok (serialize issued plans clock quota (lock_order plans k) None)"
  proof (rule serialize_stamps, rule ballI)
    fix j assume "j \<in> set (lock_order plans k)"
    then have j: "j < length issued" using lock_order_perm(1) [of plans k] i(1) assms(1) by auto
    then have "issued ! j \<in> set issued" by simp
    with i(2) have "schedule_t0 \<le> issued ! j" "issued ! j \<le> schedule_t0 + 200 * int (nat n)" by auto
    then show "0 \<le> issued ! j \<and> issued ! j \<le> 9000000000 \<and>
        0 \<le> sp_lifetime (plans ! j) \<and> sp_lifetime (plans ! j) \<le> 120"
      using p j assms(2,3) by (force simp: schedule_t0_def)
  qed
qed

lemma fenced_schedule_safe:
  assumes "race_registry r"
  shows "\<exists>res. fst (random_schedule r x DeadlineAndFence max_step) = Some res \<and> \<not> rr_unsafe res"
proof -
  obtain n x1 where n: "rng_range 1 4 x = (n, x1)" by fastforce
  then have nb: "1 \<le> n" "n \<le> 4" using rng_range_bounds [of 1 4 x] by simp_all
  obtain issued x2 where issued: "draw_issued (nat n) schedule_t0 x1 = (issued, x2)" by fastforce
  obtain offset x3 where o: "rng_range (- 30) 30 x2 = (offset, x3)" by fastforce
  obtain count x4 where c: "(if 0 < max_step then rng_range 0 3 x3 else (0, x3)) = (count, x4)" by fastforce
  obtain steps x5 where st: "draw_steps (nat count) max_step x4 = (steps, x5)" by fastforce
  obtain q0 x6 where q0: "rng_range 0 1000 x5 = (q0, x6)" by fastforce
  obtain q1 x7 where q1: "rng_range 0 1400 x6 = (q1, x7)" by fastforce
  obtain plans x8 where plans: "draw_plans issued x7 = (plans, x8)" by fastforce
  let ?f = "\<lambda>k. run r (serialize issued plans (sched_clock offset steps)
      (schedule_t0 + q0, schedule_t0 + q1) (lock_order plans k) None) DeadlineAndFence"
  have "\<forall>k \<in> set [1..<nat n + 1]. \<exists>res. ?f k = Some res \<and> \<not> rr_unsafe res"
  proof
    fix k assume "k \<in> set [1..<nat n + 1]"
    then have "k \<le> nat n" by auto
    from serialized_stamps [OF this nb issued plans]
    show "\<exists>res. ?f k = Some res \<and> \<not> rr_unsafe res"
      by (rule guarded_run_safe) (simp_all add: assms guarded_run_fence)
  qed
  moreover have "[1..<nat n + 1] \<noteq> []" using nb by auto
  ultimately obtain res where "worst_prefix ?f [1..<nat n + 1] None = Some (Some res)" "\<not> rr_unsafe res"
    using worst_prefix_safe [of "[1..<nat n + 1]" ?f None] by blast
  then show ?thesis
    by (auto simp: random_schedule_def n issued o c st q0 q1 plans simp del: upt_Suc)
qed

text \<open>A harness clock without steps only depends on the offset, so it follows real time.\<close>

lemma sched_clock_mono:
  assumes "0 \<le> a + offset" "a \<le> b" "b + offset < 18446744073709551616"
  shows "sched_clock offset [] a \<le> sched_clock offset [] b"
  using assms by (simp add: sched_clock_def as_u64_def nat_mono)

definition plan_in :: "int \<Rightarrow> sched_plan \<Rightarrow> bool" where
  "plan_in m p \<longleftrightarrow> 0 \<le> sp_arrive p - 30 \<and> sp_arrive p \<le> sp_want p \<and> sp_want p \<le> m \<and>
     0 \<le> sp_hold p \<and> sp_hold p \<le> 30"

lemma serialize_lock_from:
  assumes "b \<in> set (serialize issued plans clock quota is (Some f))"
    "\<forall>i \<in> set is. plan_in m (plans ! i)" "f \<le> m + 30 * int k"
  shows "\<exists>acq. a_lock_clock b = clock acq \<and> f \<le> acq \<and> acq \<le> m + 30 * int (k + length is)"
  using assms
proof (induction "is" arbitrary: f k)
  case (Cons i "is")
  let ?acq = "max (sp_want (plans ! i)) f" and ?p = "plans ! i"
  have p: "sp_want ?p \<le> m" "0 \<le> sp_hold ?p" "sp_hold ?p \<le> 30" using Cons.prems by (auto simp: plan_in_def)
  from Cons.prems consider (this) "a_lock_clock b = clock ?acq"
    | (later) "b \<in> set (serialize issued plans clock quota is (Some (?acq + sp_hold ?p)))"
    by (auto simp: Let_def)
  then show ?case
  proof cases
    case this
    then show ?thesis using p Cons.prems(3) by (intro exI [of _ ?acq]) auto
  next
    case later
    have "?acq + sp_hold ?p \<le> m + 30 * int (Suc k)" using p Cons.prems(3) by auto
    from Cons.IH [OF later _ this] Cons.prems(2)
    obtain acq where "a_lock_clock b = clock acq" "?acq + sp_hold ?p \<le> acq" "acq \<le> m + 30 * int (Suc k + length is)"
      by auto
    then show ?thesis using p by (intro exI [of _ acq]) auto
  qed
qed simp

lemma serialize_steady:
  assumes "\<forall>i \<in> set is. plan_in m (plans ! i)" "\<bar>offset\<bar> \<le> 30"
    "m + 30 * int (k + length is) < 18446744073709551000"
    "case f of None \<Rightarrow> True | Some f \<Rightarrow> f \<le> m + 30 * int k"
  shows "steady_clock (serialize issued plans (sched_clock offset []) quota is f) \<and>
    (\<forall>a \<in> set (serialize issued plans (sched_clock offset []) quota is f). a_admitted_clock a \<le> u64_max - 30)"
  using assms
proof (induction "is" arbitrary: f k)
  case (Cons i "is")
  let ?p = "plans ! i" and ?c = "sched_clock offset []"
  define acq where "acq = (case f of None \<Rightarrow> sp_want ?p | Some f \<Rightarrow> max (sp_want ?p) f)"
  have p: "0 \<le> sp_arrive ?p - 30" "sp_arrive ?p \<le> sp_want ?p" "sp_want ?p \<le> m" "0 \<le> sp_hold ?p" "sp_hold ?p \<le> 30"
    using Cons.prems(1) by (auto simp: plan_in_def)
  have acq: "sp_want ?p \<le> acq" "acq \<le> m + 30 * int k"
    using p Cons.prems(4) by (auto simp: acq_def split: option.splits)
  let ?rest = "serialize issued plans ?c quota is (Some (acq + sp_hold ?p))"
  have all: "\<forall>i \<in> set is. plan_in m (plans ! i)" using Cons.prems(1) by simp
  have next_free: "acq + sp_hold ?p \<le> m + 30 * int (Suc k)" using acq p by simp
  have rest: "steady_clock ?rest \<and> (\<forall>a \<in> set ?rest. a_admitted_clock a \<le> u64_max - 30)"
    by (rule Cons.IH [where k = "Suc k"]) (use all next_free Cons.prems in auto)
  have first: "?c (sp_arrive ?p) \<le> a_lock_clock b" if b: "b \<in> set ?rest" for b
  proof -
    from serialize_lock_from [OF b all next_free] obtain q where
      "a_lock_clock b = ?c q" "acq + sp_hold ?p \<le> q" "q \<le> m + 30 * int (Suc k + length is)" by auto
    then show ?thesis using p acq Cons.prems(2,3)
      by (simp only:) (rule sched_clock_mono, auto)
  qed
  have "?c (sp_arrive ?p) \<le> u64_max - 30"
    using p acq Cons.prems(2,3) by (simp add: sched_clock_def as_u64_def u64_max_def)
  then show ?case using rest first by (auto simp: Let_def acq_def [symmetric])
qed simp

lemma steady_schedule_safe:
  assumes "race_registry r"
  shows "\<exists>res. fst (random_schedule r x Deadline 0) = Some res \<and> \<not> rr_unsafe res"
proof -
  obtain n x1 where n: "rng_range 1 4 x = (n, x1)" by fastforce
  then have nb: "1 \<le> n" "n \<le> 4" using rng_range_bounds [of 1 4 x] by simp_all
  obtain issued x2 where issued: "draw_issued (nat n) schedule_t0 x1 = (issued, x2)" by fastforce
  obtain offset x3 where o: "rng_range (- 30) 30 x2 = (offset, x3)" by fastforce
  then have ob: "\<bar>offset\<bar> \<le> 30" using rng_range_bounds [of "- 30" 30 x2] by simp
  obtain q0 x6 where q0: "rng_range 0 1000 x3 = (q0, x6)" by fastforce
  obtain q1 x7 where q1: "rng_range 0 1400 x6 = (q1, x7)" by fastforce
  obtain plans x8 where plans: "draw_plans issued x7 = (plans, x8)" by fastforce
  let ?as = "\<lambda>k. serialize issued plans (sched_clock offset [])
      (schedule_t0 + q0, schedule_t0 + q1) (lock_order plans k) None"
  have i: "length issued = nat n" "\<forall>u \<in> set issued. schedule_t0 \<le> u \<and> u \<le> schedule_t0 + 200 * int (nat n)"
    using draw_issued_bounds [of schedule_t0 "nat n" x1] issued by (simp_all add: schedule_t0_def)
  have pl: "plan_in 2000000000 (plans ! j)" if "j < nat n" for j
  proof -
    have "issued ! j \<in> set issued" using that i(1) by simp
    with i(2) have "schedule_t0 \<le> issued ! j" "issued ! j \<le> schedule_t0 + 200 * int (nat n)" by auto
    then show ?thesis using draw_plans_bounds [of issued x7] plans that i(1) nb
      by (auto simp: plan_in_def schedule_t0_def Let_def)
  qed
  have "\<exists>res. run r (?as k) Deadline = Some res \<and> \<not> rr_unsafe res" if k: "k \<in> set [1..<nat n + 1]" for k
  proof -
    have kn: "k \<le> nat n" "k \<le> 4" using k nb by auto
    have steady: "steady_clock (?as k) \<and> (\<forall>a \<in> set (?as k). a_admitted_clock a \<le> u64_max - 30)"
      by (rule serialize_steady [where m = 2000000000 and k = 0])
        (use pl kn ob in \<open>auto simp: lock_order_perm\<close>)
    show ?thesis
      by (rule guarded_run_safe [OF serialized_stamps [OF kn(1) nb issued plans] assms])
        (use steady in \<open>auto intro!: guarded_run_steady\<close>)
  qed
  moreover have "[1..<nat n + 1] \<noteq> []" using nb by auto
  ultimately obtain res where
    "worst_prefix (\<lambda>k. run r (?as k) Deadline) [1..<nat n + 1] None = Some (Some res)" "\<not> rr_unsafe res"
    using worst_prefix_safe [of "[1..<nat n + 1]" "\<lambda>k. run r (?as k) Deadline" None] by blast
  then show ?thesis
    by (auto simp: random_schedule_def n issued o q0 q1 plans simp del: upt_Suc)
qed

section \<open>Properties\<close>

lemma normative_race_registry: "race_registry normative_registry"
  by (simp add: race_registry_def normative_codes) (simp add: code_entry_def)

text \<open>The two attempts of the clock-step fixture, in lock order, with the clock of the second as given.\<close>

definition stepped_back :: "nat \<Rightarrow> attempt list" where
  "stepped_back clock =
     [\<lparr>a_index = 1, a_issued_at = 1791000120, a_expires_at = 1791000180,
       a_admitted_clock = 1791000090, a_lock_clock = 1791000090, a_quota_free = False,
       a_response_lost = False, a_crash_after_record = False\<rparr>,
      \<lparr>a_index = 0, a_issued_at = 1791000000, a_expires_at = 1791000060,
       a_admitted_clock = 1790999970, a_lock_clock = clock, a_quota_free = True,
       a_response_lost = True, a_crash_after_record = False\<rparr>]"

lemmas race_eval = run_def stepped_back_def race_step_def refused_early_def execute_attempt_def
  execution_deadline_def wrap_add64_def u64_max_def max_clock_skew_seconds_def journal_of_def
  web_outcome_def strip_prefix_def is_prefix_of_def resolve_create_job_def
  resolve_create_job_with_def resolve_refusals_def resolve_open_def merits_of_def ruled_out_def
  is_open_def class_of_def create_resolution_def normative_codes code_entry_def
  acceptance_horizon_seconds_def

lemma stepped_back_run:
  "map_option rr_unsafe (run normative_registry (stepped_back 1791000089) Deadline) = Some True"
  "map_option rr_unsafe (run normative_registry (stepped_back 1791000090) Deadline) = Some False"
  by (simp_all add: race_eval)

text \<open>
  C13. With the execution fence, Web's conclusion on a create job is safe whatever the harness
  clock shows: however the attempts are ordered on the lock, answered, lost or interrupted, the
  run ends, and Web never concludes \<open>Failed\<close> while the harness holds an operation of the job.
\<close>

theorem fenced_runs_are_safe:
  assumes "race_registry r" "stamps_ok as" "rows_ok as"
  shows "\<exists>res. run r as DeadlineAndFence = Some res \<and>
    \<not> ((\<exists>c. rr_web res = Failed c) \<and> rr_operation res \<noteq> None) \<and> \<not> rr_unsafe res"
proof -
  obtain res where res: "run r as DeadlineAndFence = Some res" "\<not> rr_unsafe res"
    using guarded_run_safe [OF assms(3,2,1) guarded_run_fence] by auto
  then have "rr_unsafe res \<longleftrightarrow> (\<exists>c. rr_web res = Failed c) \<and> rr_operation res \<noteq> None"
    by (auto simp: run_def Let_def split: option.splits resolution.splits)
  with res show ?thesis by auto
qed

theorem fenced_runs_are_safe_witness:
  "\<exists>res. run normative_registry (stepped_back 1791000089) DeadlineAndFence = Some res \<and>
    \<not> ((\<exists>c. rr_web res = Failed c) \<and> rr_operation res \<noteq> None) \<and> \<not> rr_unsafe res"
  by (rule fenced_runs_are_safe [OF normative_race_registry])
    (simp_all add: stepped_back_def stamps_ok_def rows_ok_def)

text \<open>
  C25. The deadline without the fence is safe on a clock that does not step back, and needs it: on
  every job whose lock clocks are at or past the admissions before them Web's conclusion is
  safe, as is every generated schedule without clock steps; but one second back lets Web
  conclude \<open>Failed\<close> while the user owns the profile.
\<close>

theorem the_deadline_needs_a_steady_clock:
  assumes "race_registry r"
  shows "(\<forall>as. rows_ok as \<and> stamps_ok as \<and> steady_clock as \<and>
      (\<forall>a \<in> set as. a_admitted_clock a \<le> u64_max - 30) \<longrightarrow>
      (\<exists>res. run r as Deadline = Some res \<and> \<not> rr_unsafe res)) \<and>
    (\<forall>seed. \<exists>res. fst (random_schedule r seed Deadline 0) = Some res \<and> \<not> rr_unsafe res) \<and>
    map_option rr_unsafe (run normative_registry (stepped_back 1791000089) Deadline) = Some True \<and>
    map_option rr_unsafe (run normative_registry (stepped_back 1791000090) Deadline) = Some False"
proof (intro conjI allI impI)
  fix as assume as: "rows_ok as \<and> stamps_ok as \<and> steady_clock as \<and>
      (\<forall>a \<in> set as. a_admitted_clock a \<le> u64_max - 30)"
  show "\<exists>res. run r as Deadline = Some res \<and> \<not> rr_unsafe res"
    by (rule guarded_run_safe) (use as assms in \<open>auto intro!: guarded_run_steady\<close>)
next
  fix seed show "\<exists>res. fst (random_schedule r seed Deadline 0) = Some res \<and> \<not> rr_unsafe res"
    by (rule steady_schedule_safe [OF assms])
qed (rule stepped_back_run)+

theorem the_deadline_needs_a_steady_clock_witness:
  "race_registry normative_registry \<and>
    (\<exists>res. run normative_registry (stepped_back 1791000120) Deadline = Some res \<and> \<not> rr_unsafe res)"
  using the_deadline_needs_a_steady_clock [OF normative_race_registry]
  by (auto simp: normative_race_registry stepped_back_def rows_ok_def stamps_ok_def u64_max_def
      dest!: spec [where x = "stepped_back 1791000120"])

end
