(* ===== verification/OrderingModel.thy ===== *)
theory OrderingModel
  imports CreateRaces "HOL-Library.Multiset"
begin

text \<open>
  The event-driven model of one harness serving one create job (\<open>ordering.rs\<close> of the crate
  \<open>lightagent-protocol-conformance\<close>): deliveries of the transmissions of a job in any order,
  duplicates and losses, restarts, housekeeping of the nonces, clock steps and recoveries of the
  stores, under the switches of the rules; and Web's conclusion over its journal at every moment.
  The main result is invariant S under the rules R4 for every scenario.
\<close>

section \<open>Rules and scenarios\<close>

record rules =
  r_execution_deadline :: bool
  r_fence :: bool
  r_fence_durable_before_unlock :: bool
  r_nonce_durable :: bool
  r_nonce_retained_until_fenced :: bool
  r_protocol_refusals_final :: bool
  r_journal_before_send :: bool
  r_restore_raises_fence :: bool
  r_ledger_continuity_check :: bool
  r_profile_unavailable_rules_out :: bool

definition rules_r3 :: rules where
  "rules_r3 = \<lparr>r_execution_deadline = True, r_fence = True, r_fence_durable_before_unlock = True,
     r_nonce_durable = True, r_nonce_retained_until_fenced = True, r_protocol_refusals_final = False,
     r_journal_before_send = True, r_restore_raises_fence = True, r_ledger_continuity_check = False,
     r_profile_unavailable_rules_out = True\<rparr>"

definition rules_r4 :: rules where
  "rules_r4 = rules_r3\<lparr>r_ledger_continuity_check := True, r_profile_unavailable_rules_out := False\<rparr>"

record recovery =
  rec_at :: nat
  rec_ledger :: bool
  rec_identity :: bool
  rec_nonces :: bool
  rec_fence :: bool
  rec_fence_to :: nat

record tx =
  tx_issued_at :: nat
  tx_expires_at :: nat
  tx_journaled :: bool

record delivery =
  d_transmission :: nat
  d_arrives_at :: nat
  d_lock_at :: "nat option"
  d_hold_for :: nat
  d_answer_to_web :: bool
  d_crash_after_record :: bool

record scenario =
  sc_transmissions :: "tx list"
  sc_deliveries :: "delivery list"
  sc_clock :: "(nat \<times> int) list"
  sc_quota :: "(nat \<times> nat) list"
  sc_restarts :: "nat list"
  sc_housekeeping :: "nat list"
  sc_key_trusted_from :: nat
  sc_recoveries :: "recovery list"

datatype kind = Restart | Restore | Housekeeping | Arrive | Lock

fun kind_rank :: "kind \<Rightarrow> nat" where
  "kind_rank Restart = 0"
| "kind_rank Restore = 1"
| "kind_rank Housekeeping = 2"
| "kind_rank Arrive = 3"
| "kind_rank Lock = 4"

type_synonym event = "nat \<times> kind \<times> nat"

record sim =
  sm_answers :: "string list"
  sm_answered_at :: "nat list"
  sm_nonces :: "(nat \<times> nat) list"
  sm_fence :: nat
  sm_pending_fence :: "(nat \<times> nat) option"
  sm_operation :: "(string \<times> nat) option"
  sm_bound :: "nat option"
  sm_failed_closed :: bool
  sm_profile_known :: bool
  sm_last_release :: nat

record ordering_run =
  or_answers :: "string list"
  or_operation :: "(string \<times> nat) option"
  or_web :: resolution
  or_failed_at :: "nat option"
  or_unsafe :: bool
  or_binding :: "nat option"
  or_failed_closed :: bool

section \<open>The events\<close>

definition skew :: nat where
  "skew = 30"

definition harness_clock :: "scenario \<Rightarrow> nat \<Rightarrow> nat" where
  "harness_clock s real =
     as_u64 (int real +
       (case find (\<lambda>(from, _). from \<le> real) (rev (sc_clock s)) of None \<Rightarrow> 0 | Some (_, o') \<Rightarrow> o'))"

definition quota_free :: "scenario \<Rightarrow> nat \<Rightarrow> bool" where
  "quota_free s real \<longleftrightarrow> (\<exists>w \<in> set (sc_quota s). fst w \<le> real \<and> real \<le> snd w)"

definition initial_events :: "scenario \<Rightarrow> event list" where
  "initial_events s =
     map (\<lambda>t. (t, Restart, 0)) (sc_restarts s) @
     map (\<lambda>(r, x). (rec_at x, Restore, r)) (enumerate 0 (sc_recoveries s)) @
     map (\<lambda>t. (t, Housekeeping, 0)) (sc_housekeeping s) @
     map (\<lambda>(i, d). (d_arrives_at d, Arrive, i)) (enumerate 0 (sc_deliveries s))"

definition initial_sim :: "scenario \<Rightarrow> sim" where
  "initial_sim s =
     \<lparr>sm_answers = replicate (length (sc_deliveries s)) [],
      sm_answered_at = replicate (length (sc_deliveries s)) 0,
      sm_nonces = [], sm_fence = 0, sm_pending_fence = None, sm_operation = None, sm_bound = None,
      sm_failed_closed = False, sm_profile_known = False, sm_last_release = 0\<rparr>"

definition settle_fence :: "nat \<Rightarrow> sim \<Rightarrow> sim" where
  "settle_fence now st =
     (case sm_pending_fence st of
        Some (value, visible) \<Rightarrow>
          if visible \<le> now
          then st\<lparr>sm_fence := max (sm_fence st) value, sm_pending_fence := None\<rparr> else st
      | None \<Rightarrow> st)"

definition restart :: "rules \<Rightarrow> sim \<Rightarrow> sim" where
  "restart r st = (if r_nonce_durable r then st else st\<lparr>sm_nonces := []\<rparr>)"

definition restore :: "rules \<Rightarrow> nat \<Rightarrow> recovery \<Rightarrow> sim \<Rightarrow> sim" where
  "restore r now x st =
     (let op = (if rec_ledger x then None else sm_operation st);
          bound = (if rec_identity x then None else sm_bound st);
          nonces = (if rec_nonces x then [] else sm_nonces st);
          fence = (if rec_fence x then rec_fence_to x else sm_fence st);
          pending = (if rec_fence x then None else sm_pending_fence st);
          fence' = (if r_restore_raises_fence r then max fence (wrap_add64 now 150) else fence);
          c2 = (bound \<noteq> None \<and> op = None);
          c3 = ((case op of Some (state, _) \<Rightarrow> state = ''completed'' | None \<Rightarrow> False) \<and> bound = None)
      in st\<lparr>sm_operation := op, sm_bound := bound, sm_nonces := nonces, sm_fence := fence',
            sm_pending_fence := pending, sm_profile_known := (bound \<noteq> None \<or> op \<noteq> None),
            sm_failed_closed :=
              (sm_failed_closed st \<or> (r_ledger_continuity_check r \<and> (c2 \<or> c3)))\<rparr>)"

text \<open>\<open>retain\<close> visits the nonces in order; a nonce is dropped only when it may be.\<close>

fun retain_nonces :: "rules \<Rightarrow> nat \<Rightarrow> (nat \<times> nat) list \<Rightarrow> nat \<Rightarrow> (nat \<times> nat) list \<times> nat" where
  "retain_nonces r c [] fence = ([], fence)"
| "retain_nonces r c ((t, expires) # ns) fence =
     (if c < wrap_add64 expires skew \<or> (r_nonce_retained_until_fenced r \<and> \<not> r_fence r)
      then (let (rest, f) = retain_nonces r c ns fence in ((t, expires) # rest, f))
      else retain_nonces r c ns
             (if r_nonce_retained_until_fenced r then max fence (wrap_add64 expires skew) else fence))"

definition housekeeping :: "rules \<Rightarrow> scenario \<Rightarrow> nat \<Rightarrow> sim \<Rightarrow> sim" where
  "housekeeping r s now st =
     (let (ns, f) = retain_nonces r (harness_clock s now) (sm_nonces st) (sm_fence st)
      in st\<lparr>sm_nonces := ns, sm_fence := f\<rparr>)"

text \<open>An arrival: the refusal, or the nonce is recorded and a lock event is due.\<close>

definition arrival_refusal :: "scenario \<Rightarrow> nat \<Rightarrow> tx \<Rightarrow> nat \<Rightarrow> sim \<Rightarrow> string option" where
  "arrival_refusal s now x t st =
     (let c = harness_clock s now
      in if sm_failed_closed st then Some ''LEDGER_CONTINUITY_FAILED''
         else if now < sc_key_trusted_from s then Some ''UNKNOWN_KEY''
         else if wrap_add64 c skew < tx_issued_at x then Some ''NOT_YET_VALID''
         else if wrap_add64 (tx_expires_at x) skew \<le> c then Some ''EXPIRED''
         else if \<exists>n \<in> set (sm_nonces st). fst n = t then Some ''REPLAY_DETECTED''
         else None)"

definition arrive :: "scenario \<Rightarrow> nat \<Rightarrow> nat \<Rightarrow> sim \<Rightarrow> sim \<times> event list" where
  "arrive s now i st =
     (let d = sc_deliveries s ! i; t = d_transmission d; x = sc_transmissions s ! t
      in case arrival_refusal s now x t st of
           Some code \<Rightarrow>
             (st\<lparr>sm_answers := (sm_answers st)[i := code],
                 sm_answered_at := (sm_answered_at st)[i := now]\<rparr>, [])
         | None \<Rightarrow>
             (st\<lparr>sm_nonces := sm_nonces st @ [(t, tx_expires_at x)]\<rparr>,
              [(case d_lock_at d of Some l \<Rightarrow> l | None \<Rightarrow> now, Lock, i)]))"

text \<open>The execution under the lock, on the operation of the job's key.\<close>

definition execute_create ::
    "scenario \<Rightarrow> nat \<Rightarrow> delivery \<Rightarrow> sim \<Rightarrow> string \<times> sim" where
  "execute_create s acquired d st =
     (case sm_operation st of
        Some (state, who) \<Rightarrow>
          if state = ''pending''
          then (''OPERATION:completed'',
                st\<lparr>sm_operation := Some (''completed'', who), sm_bound := Some who\<rparr>)
          else (''OPERATION:'' @ state, st)
      | None \<Rightarrow>
          if \<not> quota_free s acquired then (''QUOTA_EXCEEDED'', st)
          else if sm_profile_known st then (''PROFILE_UNAVAILABLE'', st)
          else if d_crash_after_record d
          then (''STORAGE_UNAVAILABLE'',
                st\<lparr>sm_operation := Some (''pending'', d_transmission d), sm_profile_known := True\<rparr>)
          else (''OPERATION:completed'',
                st\<lparr>sm_operation := Some (''completed'', d_transmission d), sm_profile_known := True,
                   sm_bound := Some (d_transmission d)\<rparr>))"

definition advance_fence :: "rules \<Rightarrow> nat \<Rightarrow> nat \<Rightarrow> sim \<Rightarrow> sim" where
  "advance_fence r value release st =
     (if \<not> r_fence r then st
      else if r_fence_durable_before_unlock r then st\<lparr>sm_fence := max (sm_fence st) value\<rparr>
      else st\<lparr>sm_pending_fence := Some (value, wrap_add64 release 1)\<rparr>)"

definition take_lock :: "rules \<Rightarrow> scenario \<Rightarrow> nat \<Rightarrow> nat \<Rightarrow> sim \<Rightarrow> sim" where
  "take_lock r s now i st =
     (let d = sc_deliveries s ! i; x = sc_transmissions s ! d_transmission d;
          acquired = max now (sm_last_release st);
          release = wrap_add64 acquired (d_hold_for d);
          c = harness_clock s acquired;
          deadline = wrap_add64 (tx_expires_at x) skew;
          (answer, st') =
            (if sm_failed_closed st then (''LEDGER_CONTINUITY_FAILED'', st)
             else if (r_execution_deadline r \<and> deadline \<le> c) \<or> (r_fence r \<and> deadline \<le> sm_fence st)
             then (''EXPIRED'', st)
             else execute_create s acquired d (advance_fence r (tx_issued_at x - skew) release st))
      in st'\<lparr>sm_answers := (sm_answers st')[i := answer],
             sm_answered_at := (sm_answered_at st')[i := release], sm_last_release := release\<rparr>)"

definition handle_event :: "rules \<Rightarrow> scenario \<Rightarrow> event \<Rightarrow> sim \<Rightarrow> sim \<times> event list" where
  "handle_event r s e st0 =
     (case e of (now, kind, i) \<Rightarrow>
       let st = settle_fence now st0
       in case kind of
            Restart \<Rightarrow> (restart r st, [])
          | Restore \<Rightarrow> (restore r now (sc_recoveries s ! i) st, [])
          | Housekeeping \<Rightarrow> (housekeeping r s now st, [])
          | Arrive \<Rightarrow> arrive s now i st
          | Lock \<Rightarrow> (take_lock r s now i st, []))"

definition in_order :: "event list \<Rightarrow> event list" where
  "in_order es = sort_key (\<lambda>(t, k, i). [t, kind_rank k, i]) es"

fun event_weight :: "event \<Rightarrow> nat" where
  "event_weight (t, k, i) = (if k = Arrive then 2 else 1)"

lemma in_order_perm: "mset (in_order es) = mset es"
  by (simp add: in_order_def)

lemma in_order_mset: "sum_list (map event_weight (in_order es)) = sum_list (map event_weight es)"
  by (metis in_order_perm mset_map sum_mset_sum_list)

lemma handle_event_weight: "sum_list (map event_weight (snd (handle_event r s e st))) < event_weight e"
  by (auto simp: handle_event_def arrive_def Let_def split: prod.split kind.split option.split)

lemma in_order_Cons:
  assumes "in_order es = e # rest"
  shows "event_weight e + sum_list (map event_weight rest) = sum_list (map event_weight es)"
  using in_order_mset [of es] by (simp add: assms)

function sim_loop :: "rules \<Rightarrow> scenario \<Rightarrow> event list \<Rightarrow> sim \<Rightarrow> sim" where
  "sim_loop r s es st =
     (case in_order es of
        [] \<Rightarrow> st
      | e # rest \<Rightarrow>
          (let (st', new) = handle_event r s e st in sim_loop r s (rest @ new) st'))"
  by pat_completeness auto
termination
proof (relation "measure (\<lambda>(r, s, es, st). sum_list (map event_weight es))", goal_cases)
  case (2 r s es st e rest x st' new)
  then have "new = snd (handle_event r s e st)" by (metis snd_conv)
  then show ?case
    using in_order_Cons [OF 2(1)] handle_event_weight [of r s e st] by simp
qed simp

declare sim_loop.simps [simp del]

section \<open>Web's conclusion\<close>

definition sim_outcome :: "string option \<Rightarrow> outcome" where
  "sim_outcome answer =
     (case answer of
        None \<Rightarrow> Uncertain
      | Some a \<Rightarrow>
          if a = ''STORAGE_UNAVAILABLE'' \<or> a = ''REPLAY_DETECTED'' then Uncertain
          else case strip_prefix ''OPERATION:'' a of
              Some state \<Rightarrow> Operation operation_placeholder state
            | None \<Rightarrow> Refused a)"

text \<open>\<open>min_by_key\<close> returns the first of the least elements.\<close>

fun min_by_key :: "('a \<Rightarrow> nat) \<Rightarrow> 'a list \<Rightarrow> 'a option" where
  "min_by_key f [] = None"
| "min_by_key f (x # xs) =
     (case min_by_key f xs of None \<Rightarrow> Some x | Some y \<Rightarrow> if f x \<le> f y then Some x else Some y)"

definition by_moment :: "nat \<Rightarrow> nat option \<Rightarrow> bool" where
  "by_moment t at_most = (case at_most of None \<Rightarrow> True | Some m \<Rightarrow> t \<le> m)"

definition answer_to :: "scenario \<Rightarrow> sim \<Rightarrow> nat option \<Rightarrow> nat \<Rightarrow> string option" where
  "answer_to s st at_most t =
     map_option (\<lambda>i. sm_answers st ! i)
       (min_by_key (\<lambda>i. sm_answered_at st ! i)
         (filter (\<lambda>i. d_transmission (sc_deliveries s ! i) = t \<and> d_answer_to_web (sc_deliveries s ! i) \<and>
              by_moment (sm_answered_at st ! i) at_most) [0..<length (sc_deliveries s)]))"

definition visible_rows :: "rules \<Rightarrow> scenario \<Rightarrow> nat list" where
  "visible_rows r s =
     filter (\<lambda>t. r_journal_before_send r \<or> tx_journaled (sc_transmissions s ! t))
       [0..<length (sc_transmissions s)]"

definition resolve_at :: "registry \<Rightarrow> rules \<Rightarrow> scenario \<Rightarrow> sim \<Rightarrow> nat option \<Rightarrow> resolution" where
  "resolve_at reg r s st at_most =
     resolve_create_job_with reg
       (map (\<lambda>t. \<lparr>t_issued_at = tx_issued_at (sc_transmissions s ! t),
                   t_expires_at = tx_expires_at (sc_transmissions s ! t),
                   t_outcome = sim_outcome (answer_to s st at_most t)\<rparr>)
         (filter (\<lambda>t. by_moment (tx_issued_at (sc_transmissions s ! t)) at_most) (visible_rows r s)))
       (r_protocol_refusals_final r) (r_profile_unavailable_rules_out r)"

definition moments :: "scenario \<Rightarrow> sim \<Rightarrow> nat list" where
  "moments s st =
     remdups_adj (sort (map fst (filter (\<lambda>(t, d). d_answer_to_web d)
       (zip (sm_answered_at st) (sc_deliveries s)))))"

definition is_failed :: "resolution \<Rightarrow> bool" where
  "is_failed res = (case res of Failed _ \<Rightarrow> True | _ \<Rightarrow> False)"

text \<open>An index of a delivery outside the transmissions panics at its arrival: \<open>None\<close>.\<close>

definition simulate :: "registry \<Rightarrow> scenario \<Rightarrow> rules \<Rightarrow> ordering_run option" where
  "simulate reg s r =
     (if \<exists>d \<in> set (sc_deliveries s). length (sc_transmissions s) \<le> d_transmission d then None
      else
        let st = sim_loop r s (initial_events s) (initial_sim s);
            failed_at = find (\<lambda>m. is_failed (resolve_at reg r s st (Some m))) (moments s st);
            issued_by = (\<lambda>t m. tx_issued_at (sc_transmissions s ! t) \<le> m)
        in Some \<lparr>or_answers = sm_answers st, or_operation = sm_operation st,
             or_web = resolve_at reg r s st None, or_failed_at = failed_at,
             or_unsafe = (case failed_at of
                None \<Rightarrow> False
              | Some m \<Rightarrow>
                  (case sm_operation st of None \<Rightarrow> False | Some (_, who) \<Rightarrow> issued_by who m) \<or>
                  (case sm_bound st of None \<Rightarrow> False | Some t \<Rightarrow> issued_by t m)),
             or_binding = sm_bound st, or_failed_closed = sm_failed_closed st\<rparr>)"

definition violates_s :: "ordering_run \<Rightarrow> bool" where
  "violates_s res = or_unsafe res"

section \<open>The invariant of the events\<close>

text \<open>
  A scenario within the limits: deliveries of transmissions of the job, sent before they arrive,
  with the lifetimes of the envelope. Nothing is assumed of the clock, the locks, the quota, the
  restarts, the housekeeping, the key or what a recovery restores.
\<close>

definition scenario_ok :: "scenario \<Rightarrow> bool" where
  "scenario_ok s \<longleftrightarrow>
     (\<forall>d \<in> set (sc_deliveries s). d_transmission d < length (sc_transmissions s) \<and>
        tx_issued_at (sc_transmissions s ! d_transmission d) \<le> d_arrives_at d) \<and>
     (\<forall>x \<in> set (sc_transmissions s). tx_expires_at x \<le> tx_issued_at x + 120 \<and>
        tx_expires_at x \<le> 9999999999) \<and>
     (\<forall>x \<in> set (sc_recoveries s). rec_at x \<le> 9999999999)"

abbreviation row :: "scenario \<Rightarrow> nat \<Rightarrow> nat" where
  "row s i \<equiv> d_transmission (sc_deliveries s ! i)"

abbreviation issued :: "scenario \<Rightarrow> nat \<Rightarrow> nat" where
  "issued s t \<equiv> tx_issued_at (sc_transmissions s ! t)"

abbreviation expires :: "scenario \<Rightarrow> nat \<Rightarrow> nat" where
  "expires s t \<equiv> tx_expires_at (sc_transmissions s ! t)"

lemma scenario_okD:
  assumes "scenario_ok s" "i < length (sc_deliveries s)"
  shows "row s i < length (sc_transmissions s)" "issued s (row s i) \<le> d_arrives_at (sc_deliveries s ! i)"
    "expires s (row s i) \<le> issued s (row s i) + 120"
    "wrap_add64 (expires s (row s i)) 30 = expires s (row s i) + 30"
    "expires s (row s i) \<le> 9999999999"
proof -
  have d: "sc_deliveries s ! i \<in> set (sc_deliveries s)" using assms(2) by simp
  then show r: "row s i < length (sc_transmissions s)"
    and "issued s (row s i) \<le> d_arrives_at (sc_deliveries s ! i)"
    using assms(1) by (auto simp: scenario_ok_def)
  have "sc_transmissions s ! row s i \<in> set (sc_transmissions s)" using r by simp
  with assms(1) have "expires s (row s i) \<le> issued s (row s i) + 120 \<and> expires s (row s i) \<le> 9999999999"
    by (auto simp: scenario_ok_def)
  then show "expires s (row s i) \<le> issued s (row s i) + 120"
    "wrap_add64 (expires s (row s i)) 30 = expires s (row s i) + 30"
    "expires s (row s i) \<le> 9999999999"
    by (simp_all add: wrap_add64_def u64_max_def)
qed

text \<open>The deliveries that wait for the lock, and those refused on the merits.\<close>

definition waiting :: "event list \<Rightarrow> nat set" where
  "waiting es = {i. \<exists>t. (t, Lock, i) \<in> set es}"

definition merit_set :: "string list \<Rightarrow> nat set" where
  "merit_set answers = {i. i < length answers \<and> answers ! i = ''QUOTA_EXCEEDED''}"

abbreviation on_merits :: "sim \<Rightarrow> nat set" where
  "on_merits st \<equiv> merit_set (sm_answers st)"

definition fence_inv :: "scenario \<Rightarrow> nat set \<Rightarrow> nat set \<Rightarrow> (nat \<times> nat) list \<Rightarrow> nat \<Rightarrow> bool" where
  "fence_inv s W M nonces fence \<longleftrightarrow>
     (\<forall>i \<in> M. issued s (row s i) - 30 \<le> fence) \<and>
     (\<forall>i \<in> W \<union> M. (\<exists>n \<in> set nonces. fst n = row s i) \<or> expires s (row s i) + 30 \<le> fence) \<and>
     (\<forall>i \<in> W \<union> M. \<forall>j \<in> W. i \<noteq> j \<and> row s i = row s j \<longrightarrow> expires s (row s i) + 30 \<le> fence) \<and>
     (\<forall>n \<in> set nonces. fst n \<in> (row s) ` {..<length (sc_deliveries s)} \<and> snd n = expires s (fst n))"

definition holders :: "(string \<times> nat) option \<Rightarrow> nat option \<Rightarrow> nat set" where
  "holders op bound = (snd ` set_option op) \<union> set_option bound"

definition holder_inv ::
    "scenario \<Rightarrow> nat set \<Rightarrow> (string \<times> nat) option \<Rightarrow> nat option \<Rightarrow> bool \<Rightarrow> bool \<Rightarrow> bool" where
  "holder_inv s M op bound closed' known \<longleftrightarrow>
     (\<not> closed' \<longrightarrow> (op = None \<longrightarrow> bound = None \<and> \<not> known) \<and>
        (\<forall>state who. op = Some (state, who) \<longrightarrow> bound = None \<or> bound = Some who)) \<and>
     (\<forall>u \<in> holders op bound. u \<in> row s ` {..<length (sc_deliveries s)} \<and>
        (\<forall>i \<in> M. row s i \<noteq> u \<and> issued s (row s i) < expires s u + 60))"

definition refusal_answers :: "string set" where
  "refusal_answers =
     {[], ''LEDGER_CONTINUITY_FAILED'', ''UNKNOWN_KEY'', ''NOT_YET_VALID'', ''EXPIRED'', ''QUOTA_EXCEEDED''}"

definition uncertain_answers :: "string set" where
  "uncertain_answers = {''REPLAY_DETECTED'', ''STORAGE_UNAVAILABLE''}"

definition known_answers :: "string set" where
  "known_answers = refusal_answers \<union> uncertain_answers \<union> {''OPERATION:'' @ x | x. True}"

definition is_delivery_event :: "event \<Rightarrow> bool" where
  "is_delivery_event e \<longleftrightarrow> fst (snd e) \<in> {Arrive, Lock}"

definition events_inv :: "scenario \<Rightarrow> event list \<Rightarrow> sim \<Rightarrow> bool" where
  "events_inv s es st \<longleftrightarrow>
     length (sm_answers st) = length (sc_deliveries s) \<and>
     length (sm_answered_at st) = length (sc_deliveries s) \<and>
     set (sm_answers st) \<subseteq> known_answers \<and>
     distinct (map (\<lambda>e. snd (snd e)) (filter is_delivery_event es)) \<and>
     (\<forall>e \<in> set es. is_delivery_event e \<longrightarrow>
        snd (snd e) < length (sc_deliveries s) \<and> sm_answers st ! snd (snd e) = []) \<and>
     (\<forall>t i. (t, Arrive, i) \<in> set es \<longrightarrow> t = d_arrives_at (sc_deliveries s ! i)) \<and>
     (\<forall>t i. (t, Restore, i) \<in> set es \<longrightarrow> t \<le> 9999999999 \<and>
        (\<forall>j \<in> waiting es \<union> on_merits st. d_arrives_at (sc_deliveries s ! j) \<le> t))"

definition sim_inv :: "scenario \<Rightarrow> event list \<Rightarrow> sim \<Rightarrow> bool" where
  "sim_inv s es st \<longleftrightarrow>
     events_inv s es st \<and> sm_pending_fence st = None \<and>
     fence_inv s (waiting es) (on_merits st) (sm_nonces st) (sm_fence st) \<and>
     holder_inv s (on_merits st) (sm_operation st) (sm_bound st) (sm_failed_closed st) (sm_profile_known st)"

lemma waiting_simps [simp]:
  "waiting [] = {}" "waiting (es @ fs) = waiting es \<union> waiting fs"
  "waiting ((t, k, i) # es) = (if k = Lock then insert i (waiting es) else waiting es)"
  by (auto simp: waiting_def)

lemma fence_inv_mono:
  assumes "fence_inv s W M ns f" "W' \<subseteq> W" "M' \<subseteq> M" "f \<le> f'"
  shows "fence_inv s W' M' ns f'"
proof -
  note a = assms(1) [unfolded fence_inv_def]
  have "issued s (row s i) - 30 \<le> f'" if "i \<in> M'" for i
  proof -
    have "issued s (row s i) - 30 \<le> f" using a that assms(3) by blast
    then show ?thesis using assms(4) by linarith
  qed
  moreover have "(\<exists>n \<in> set ns. fst n = row s i) \<or> expires s (row s i) + 30 \<le> f'" if "i \<in> W' \<union> M'" for i
  proof -
    have "(\<exists>n \<in> set ns. fst n = row s i) \<or> expires s (row s i) + 30 \<le> f" using a that assms(2,3) by blast
    then show ?thesis using assms(4) by fastforce
  qed
  moreover have "expires s (row s i) + 30 \<le> f'" if "i \<in> W' \<union> M'" "j \<in> W'" "i \<noteq> j" "row s i = row s j" for i j
  proof -
    have "expires s (row s i) + 30 \<le> f" using a that assms(2,3) by blast
    then show ?thesis using assms(4) by linarith
  qed
  ultimately show ?thesis using a unfolding fence_inv_def by blast
qed

lemma events_inv_tail: "events_inv s (e # es) st \<Longrightarrow> events_inv s es st"
  by (cases e) (auto simp: events_inv_def split: if_splits)

lemma sim_inv_tail: "sim_inv s (e # es) st \<Longrightarrow> sim_inv s es st"
  by (cases e) (auto simp: sim_inv_def intro: events_inv_tail fence_inv_mono split: if_splits)

lemma sim_inv_perm: "sim_inv s es st \<Longrightarrow> mset fs = mset es \<Longrightarrow> sim_inv s fs st"
proof -
  assume inv: "sim_inv s es st" and perm: "mset fs = mset es"
  have set: "set fs = set es" using perm by (rule mset_eq_setD)
  have w: "waiting fs = waiting es" by (simp add: waiting_def set)
  have "mset (map (\<lambda>e. snd (snd e)) (filter is_delivery_event fs)) =
      mset (map (\<lambda>e. snd (snd e)) (filter is_delivery_event es))"
    using perm by simp
  then have "distinct (map (\<lambda>e. snd (snd e)) (filter is_delivery_event fs)) \<longleftrightarrow>
      distinct (map (\<lambda>e. snd (snd e)) (filter is_delivery_event es))"
    by (rule mset_eq_imp_distinct_iff)
  then show "sim_inv s fs st" using inv by (simp add: sim_inv_def events_inv_def set w)
qed

text \<open>An answer to the delivery whose event was taken.\<close>

lemma merit_set_update:
  assumes "i < length as" "as ! i = []"
  shows "merit_set (as[i := a]) = (if a = ''QUOTA_EXCEEDED'' then insert i (merit_set as) else merit_set as)"
proof (rule set_eqI)
  fix j show "j \<in> merit_set (as[i := a]) \<longleftrightarrow>
      j \<in> (if a = ''QUOTA_EXCEEDED'' then insert i (merit_set as) else merit_set as)"
    using assms by (cases "j = i") (auto simp: merit_set_def)
qed

lemma head_event:
  assumes "events_inv s ((t, k, i) # es) st" "k \<in> {Arrive, Lock}"
  shows "i < length (sm_answers st)" "i < length (sc_deliveries s)" "sm_answers st ! i = []"
    "\<And>e. e \<in> set es \<Longrightarrow> is_delivery_event e \<Longrightarrow> snd (snd e) \<noteq> i"
    "i \<notin> waiting es" "i \<notin> on_merits st"
proof -
  have d: "is_delivery_event (t, k, i)" using assms(2) by (simp add: is_delivery_event_def)
  show i: "i < length (sc_deliveries s)" and "sm_answers st ! i = []"
    using assms(1) d by (auto simp: events_inv_def)
  show "i < length (sm_answers st)" using i assms(1) by (simp add: events_inv_def)
  show ne: "\<And>e. e \<in> set es \<Longrightarrow> is_delivery_event e \<Longrightarrow> snd (snd e) \<noteq> i"
  proof -
    fix e assume e: "e \<in> set es" "is_delivery_event e"
    have "distinct (i # map (\<lambda>e. snd (snd e)) (filter is_delivery_event es))"
      using assms(1) d by (simp add: events_inv_def)
    then show "snd (snd e) \<noteq> i" using e by auto
  qed
  show "i \<notin> waiting es" using ne by (force simp: waiting_def is_delivery_event_def)
  show "i \<notin> on_merits st" using \<open>sm_answers st ! i = []\<close> by (simp add: merit_set_def)
qed

lemma events_inv_answer:
  assumes inv: "events_inv s ((t, k, i) # es) st" and k: "k = Lock \<or> k = Arrive \<and> a \<noteq> ''QUOTA_EXCEEDED''"
    and a: "a \<in> known_answers"
    and st': "sm_answers st' = (sm_answers st)[i := a]" "length (sm_answered_at st') = length (sm_answered_at st)"
  shows "events_inv s es st'"
proof -
  have k': "k \<in> {Arrive, Lock}" using k by auto
  note h = head_event [OF inv k']
  have tail: "events_inv s es st" by (rule events_inv_tail [OF inv])
  have m: "on_merits st' = (if a = ''QUOTA_EXCEEDED'' then insert i (on_merits st) else on_merits st)"
    unfolding st' by (rule merit_set_update [OF h(1,3)])
  have r: "d_arrives_at (sc_deliveries s ! j) \<le> u"
    if "(u, Restore, q) \<in> set es" "j \<in> waiting es \<union> on_merits st'" for u q j
  proof -
    have all: "\<forall>j \<in> waiting ((t, k, i) # es) \<union> on_merits st. d_arrives_at (sc_deliveries s ! j) \<le> u"
      using inv that(1) unfolding events_inv_def by (meson list.set_intros(2))
    have "j \<in> waiting ((t, k, i) # es) \<union> on_merits st"
      using that(2) k m by (auto split: if_splits)
    with all show ?thesis by blast
  qed
  have "set (sm_answers st') \<subseteq> known_answers"
    using tail a set_update_subset_insert [of "sm_answers st" i a] by (auto simp: events_inv_def st')
  moreover have "sm_answers st' ! snd (snd e) = []" if "e \<in> set es" "is_delivery_event e" for e
    using h(4) [OF that] tail that by (auto simp: events_inv_def st')
  ultimately show ?thesis
    using tail r st' unfolding events_inv_def by auto
qed

lemma known_answersI [simp]:
  "''LEDGER_CONTINUITY_FAILED'' \<in> known_answers" "''UNKNOWN_KEY'' \<in> known_answers"
  "''NOT_YET_VALID'' \<in> known_answers" "''EXPIRED'' \<in> known_answers" "''REPLAY_DETECTED'' \<in> known_answers"
  "''QUOTA_EXCEEDED'' \<in> known_answers" "''STORAGE_UNAVAILABLE'' \<in> known_answers"
  "''OPERATION:completed'' \<in> known_answers" "''OPERATION:'' @ x \<in> known_answers"
  by (auto simp: known_answers_def refusal_answers_def uncertain_answers_def)

section \<open>The events keep the invariant\<close>

lemma settle_fence_none: "sm_pending_fence st = None \<Longrightarrow> settle_fence now st = st"
  by (simp add: settle_fence_def)

lemma retain_nonces_inv:
  assumes "retain_nonces rules_r4 c ns f = (ns', f')" "\<forall>n \<in> set ns. snd n + 30 \<le> u64_max"
  shows "f \<le> f' \<and> set ns' \<subseteq> set ns \<and> (\<forall>n \<in> set ns. n \<in> set ns' \<or> snd n + 30 \<le> f')"
  using assms
proof (induction ns arbitrary: f ns')
  case (Cons n ns)
  obtain t e where n: "n = (t, e)" by (cases n)
  have e: "wrap_add64 e skew = e + 30" using Cons.prems by (simp add: n skew_def wrap_add64_exact)
  show ?case
  proof (cases "c < e + 30")
    case True
    then obtain rest where r: "retain_nonces rules_r4 c ns f = (rest, f')" "ns' = (t, e) # rest"
      using Cons.prems(1) by (auto simp: n e split: prod.splits)
    from Cons.IH [OF r(1)] Cons.prems(2) have
      "f \<le> f' \<and> set rest \<subseteq> set ns \<and> (\<forall>n \<in> set ns. n \<in> set rest \<or> snd n + 30 \<le> f')" by simp
    then show ?thesis using r(2) n by auto
  next
    case False
    then have r: "retain_nonces rules_r4 c ns (max f (e + 30)) = (ns', f')"
      using Cons.prems(1) by (simp add: n e rules_r4_def rules_r3_def)
    from Cons.IH [OF r] Cons.prems(2) have
      "max f (e + 30) \<le> f' \<and> set ns' \<subseteq> set ns \<and> (\<forall>n \<in> set ns. n \<in> set ns' \<or> snd n + 30 \<le> f')" by simp
    then show ?thesis using n by auto
  qed
qed simp

lemma holder_inv_mono:
  "holder_inv s M op bound c known \<Longrightarrow> M' \<subseteq> M \<Longrightarrow> holder_inv s M' op bound c known"
  unfolding holder_inv_def by blast

text \<open>A recovery raises the fence beyond every delivery seen so far.\<close>

lemma restore_inv:
  assumes ok: "scenario_ok s" and inv: "sim_inv s ((now, Restore, q) # es) st"
  shows "sim_inv s es (restore rules_r4 now x st)"
proof -
  let ?st' = "restore rules_r4 now x st" and ?M = "on_merits st" and ?W = "waiting es"
  have tail: "sim_inv s es st" by (rule sim_inv_tail [OF inv])
  have e: "events_inv s es st" and f: "fence_inv s ?W ?M (sm_nonces st) (sm_fence st)"
    and h: "holder_inv s ?M (sm_operation st) (sm_bound st) (sm_failed_closed st) (sm_profile_known st)"
    using tail by (simp_all add: sim_inv_def)
  have seen: "now \<le> 9999999999" "\<And>j. j \<in> ?W \<union> ?M \<Longrightarrow> d_arrives_at (sc_deliveries s ! j) \<le> now"
    using inv unfolding sim_inv_def events_inv_def by auto
  have n: "j < length (sc_deliveries s)" if "j \<in> ?W \<union> ?M" for j
    using that e by (auto simp: events_inv_def waiting_def merit_set_def is_delivery_event_def)
  have w: "wrap_add64 now 150 = now + 150" using seen(1) by (simp add: wrap_add64_def u64_max_def)
  have fence: "now + 150 \<le> sm_fence ?st'"
    by (simp add: restore_def Let_def w rules_r4_def rules_r3_def)
  have late: "issued s (row s j) \<le> now" "expires s (row s j) + 30 \<le> sm_fence ?st'" if "j \<in> ?W \<union> ?M" for j
    using scenario_okD [OF ok n [OF that]] seen(2) [OF that] fence by auto
  have nonces: "set (sm_nonces ?st') \<subseteq> set (sm_nonces st)" by (simp add: restore_def Let_def)
  have same: "sm_answers ?st' = sm_answers st" "sm_answered_at ?st' = sm_answered_at st"
    by (simp_all add: restore_def Let_def)
  have "fence_inv s ?W ?M (sm_nonces ?st') (sm_fence ?st')"
    unfolding fence_inv_def
  proof (intro conjI ballI impI)
    fix i assume "i \<in> ?M"
    then show "issued s (row s i) - 30 \<le> sm_fence ?st'" using late(1) [of i] fence by simp
  next
    fix i assume "i \<in> ?W \<union> ?M"
    then show "(\<exists>n \<in> set (sm_nonces ?st'). fst n = row s i) \<or> expires s (row s i) + 30 \<le> sm_fence ?st'"
      using late(2) by blast
  next
    fix i assume "i \<in> ?W \<union> ?M"
    then show "expires s (row s i) + 30 \<le> sm_fence ?st'" using late(2) by blast
  next
    fix n assume "n \<in> set (sm_nonces ?st')"
    then show "fst n \<in> row s ` {..<length (sc_deliveries s)}" "snd n = expires s (fst n)"
      using nonces f unfolding fence_inv_def by blast+
  qed
  moreover have "holder_inv s ?M (sm_operation ?st') (sm_bound ?st') (sm_failed_closed ?st') (sm_profile_known ?st')"
  proof -
    have sub: "holders (sm_operation ?st') (sm_bound ?st') \<subseteq> holders (sm_operation st) (sm_bound st)"
      by (auto simp: restore_def Let_def holders_def)
    have "(sm_operation ?st' = None \<longrightarrow> sm_bound ?st' = None \<and> \<not> sm_profile_known ?st') \<and>
        (\<forall>state who. sm_operation ?st' = Some (state, who) \<longrightarrow> sm_bound ?st' = None \<or> sm_bound ?st' = Some who)"
      if "\<not> sm_failed_closed ?st'"
    proof -
      have "\<not> sm_failed_closed st" "\<not> (sm_bound ?st' \<noteq> None \<and> sm_operation ?st' = None)"
        using that by (auto simp: restore_def Let_def rules_r4_def)
      moreover have "sm_profile_known ?st' \<longleftrightarrow> sm_bound ?st' \<noteq> None \<or> sm_operation ?st' \<noteq> None"
        by (simp add: restore_def Let_def)
      moreover have "sm_operation ?st' = None \<or> sm_operation ?st' = sm_operation st"
          "sm_bound ?st' = None \<or> sm_bound ?st' = sm_bound st"
        by (auto simp: restore_def Let_def)
      ultimately show ?thesis using h unfolding holder_inv_def by metis
    qed
    then show ?thesis using h sub unfolding holder_inv_def by blast
  qed
  moreover have "events_inv s es ?st'" using e unfolding events_inv_def same .
  moreover have "sm_pending_fence ?st' = None"
    using tail by (simp add: sim_inv_def restore_def Let_def)
  ultimately show ?thesis unfolding sim_inv_def same by simp
qed

lemma housekeeping_inv:
  assumes ok: "scenario_ok s" and inv: "sim_inv s es st"
  shows "sim_inv s es (housekeeping rules_r4 s now st)"
proof -
  obtain ns' f' where r: "retain_nonces rules_r4 (harness_clock s now) (sm_nonces st) (sm_fence st) = (ns', f')"
    by fastforce
  have e: "events_inv s es st" and f: "fence_inv s (waiting es) (on_merits st) (sm_nonces st) (sm_fence st)"
    using inv by (simp_all add: sim_inv_def)
  have "snd n + 30 \<le> u64_max" if n: "n \<in> set (sm_nonces st)" for n
  proof -
    obtain j where j: "j < length (sc_deliveries s)" "fst n = row s j" "snd n = expires s (row s j)"
      using f n unfolding fence_inv_def by fastforce
    then show ?thesis using scenario_okD(5) [OF ok j(1)] by (simp add: u64_max_def)
  qed
  then have k: "sm_fence st \<le> f'" "set ns' \<subseteq> set (sm_nonces st)"
      "\<forall>n \<in> set (sm_nonces st). n \<in> set ns' \<or> snd n + 30 \<le> f'"
    using retain_nonces_inv [OF r] by blast+
  have raised: "fence_inv s (waiting es) (on_merits st) (sm_nonces st) f'"
    by (rule fence_inv_mono [OF f]) (use k in simp_all)
  have "fence_inv s (waiting es) (on_merits st) ns' f'"
    unfolding fence_inv_def
  proof (intro conjI)
    show "\<forall>i \<in> waiting es \<union> on_merits st. (\<exists>n \<in> set ns'. fst n = row s i) \<or> expires s (row s i) + 30 \<le> f'"
    proof
      fix i assume "i \<in> waiting es \<union> on_merits st"
      then consider n where "n \<in> set (sm_nonces st)" "fst n = row s i" | "expires s (row s i) + 30 \<le> f'"
        using raised unfolding fence_inv_def by blast
      then show "(\<exists>n \<in> set ns'. fst n = row s i) \<or> expires s (row s i) + 30 \<le> f'"
      proof cases
        case 1
        then have "snd n = expires s (row s i)" using f unfolding fence_inv_def by metis
        then show ?thesis using 1 k(3) by metis
      qed simp
    qed
  qed (use raised k(2) in \<open>unfold fence_inv_def, blast+\<close>)
  then show ?thesis using inv by (simp add: housekeeping_def r sim_inv_def events_inv_def)
qed

lemma arrive_inv:
  assumes ok: "scenario_ok s" and inv: "sim_inv s ((now, Arrive, i) # es) st"
    and first: "\<forall>e \<in> set es. now \<le> fst e" and step: "arrive s now i st = (st', new)"
  shows "sim_inv s (es @ new) st'"
proof -
  let ?t = "row s i" and ?W = "waiting es" and ?M = "on_merits st"
  have ev: "events_inv s ((now, Arrive, i) # es) st" using inv by (simp add: sim_inv_def)
  note h = head_event [OF ev, simplified]
  have tail: "sim_inv s es st" by (rule sim_inv_tail [OF inv])
  then have f: "fence_inv s ?W ?M (sm_nonces st) (sm_fence st)" by (simp add: sim_inv_def)
  show ?thesis
  proof (cases "arrival_refusal s now (sc_transmissions s ! ?t) ?t st")
    case (Some code)
    then have st': "st' = st\<lparr>sm_answers := (sm_answers st)[i := code],
        sm_answered_at := (sm_answered_at st)[i := now]\<rparr>" "new = []"
      using step by (auto simp: arrive_def Let_def)
    have code: "code \<in> known_answers" "code \<noteq> ''QUOTA_EXCEEDED''"
      using Some by (auto simp: arrival_refusal_def Let_def split: if_splits)
    have "events_inv s es st'"
      by (rule events_inv_answer [OF ev _ code(1)]) (use code st' in auto)
    moreover have "on_merits st' = ?M"
      using merit_set_update [OF h(1,3), of code] code(2) st' by simp
    ultimately show ?thesis using tail st' by (simp add: sim_inv_def)
  next
    case None
    then have st': "st' = st\<lparr>sm_nonces := sm_nonces st @ [(?t, expires s ?t)]\<rparr>"
      and new: "\<exists>l. new = [(l, Lock, i)]"
      using step by (auto simp: arrive_def Let_def)
    then obtain l where new: "new = [(l, Lock, i)]" by blast
    have fresh: "\<not> (\<exists>n \<in> set (sm_nonces st). fst n = ?t)"
      using None by (auto simp: arrival_refusal_def Let_def split: if_splits)
    have burnt: "expires s ?t + 30 \<le> sm_fence st" if "j \<in> ?W \<union> ?M" "row s j = ?t" for j
      using f fresh that unfolding fence_inv_def by metis
    have now: "now = d_arrives_at (sc_deliveries s ! i)" using ev by (auto simp: events_inv_def)
    have "fence_inv s (insert i ?W) ?M (sm_nonces st @ [(?t, expires s ?t)]) (sm_fence st)"
      unfolding fence_inv_def
    proof (intro conjI ballI impI)
      fix a b assume ab: "a \<in> insert i ?W \<union> ?M" "b \<in> insert i ?W" "a \<noteq> b \<and> row s a = row s b"
      then consider "a \<in> ?W \<union> ?M" "b \<in> ?W" | "a = i" "b \<in> ?W" | "b = i" "a \<in> ?W \<union> ?M" by blast
      then show "expires s (row s a) + 30 \<le> sm_fence st"
      proof cases
        case 1
        then show ?thesis using f ab(3) unfolding fence_inv_def by blast
      next
        case 2
        then show ?thesis using burnt [of b] ab(3) by simp
      next
        case 3
        then show ?thesis using burnt [of a] ab(3) by simp
      qed
    qed (use f h(2) in \<open>auto simp: fence_inv_def\<close>)
    moreover have "events_inv s (es @ new) st'"
    proof -
      have r: "\<forall>e \<in> set es. fst (snd e) = Restore \<longrightarrow> d_arrives_at (sc_deliveries s ! i) \<le> fst e"
        using first now by blast
      have d: "is_delivery_event (l, Lock, i)" by (simp add: is_delivery_event_def)
      have e: "events_inv s es st" using tail by (simp add: sim_inv_def)
      show ?thesis unfolding events_inv_def
      proof (intro conjI)
        show "distinct (map (\<lambda>e. snd (snd e)) (filter is_delivery_event (es @ new)))"
          using e h(4) d new by (auto simp: events_inv_def)
        show "\<forall>e \<in> set (es @ new). is_delivery_event e \<longrightarrow>
            snd (snd e) < length (sc_deliveries s) \<and> sm_answers st' ! snd (snd e) = []"
          using e h(2,3) new st' by (auto simp: events_inv_def)
        show "\<forall>t q. (t, Restore, q) \<in> set (es @ new) \<longrightarrow> t \<le> 9999999999 \<and>
            (\<forall>j \<in> waiting (es @ new) \<union> on_merits st'. d_arrives_at (sc_deliveries s ! j) \<le> t)"
          using e r new st' by (fastforce simp: events_inv_def)
      qed (use e new st' in \<open>auto simp: events_inv_def\<close>)
    qed
    ultimately show ?thesis using tail st' new by (simp add: sim_inv_def)
  qed
qed

lemma advance_fence_r4:
  "advance_fence rules_r4 v release st = st\<lparr>sm_fence := max (sm_fence st) v\<rparr>"
  by (simp add: advance_fence_def rules_r4_def rules_r3_def)

text \<open>The lock: what an execution changes, by the operation it finds.\<close>

lemma take_lock_cases:
  assumes "take_lock rules_r4 s now i st = st'" "wrap_add64 (expires s (row s i)) 30 = expires s (row s i) + 30"
  obtains
    (refused) code at' where "code \<in> {''LEDGER_CONTINUITY_FAILED'', ''EXPIRED''}"
      "st' = st\<lparr>sm_answers := (sm_answers st)[i := code], sm_answered_at := (sm_answered_at st)[i := at'],
         sm_last_release := at'\<rparr>"
  | (executed) a st1 acquired at' where "\<not> sm_failed_closed st" "sm_fence st < expires s (row s i) + 30"
      "execute_create s acquired (sc_deliveries s ! i)
         (st\<lparr>sm_fence := max (sm_fence st) (issued s (row s i) - 30)\<rparr>) = (a, st1)"
      "st' = st1\<lparr>sm_answers := (sm_answers st)[i := a], sm_answered_at := (sm_answered_at st)[i := at'],
         sm_last_release := at'\<rparr>"
proof -
  let ?acq = "max now (sm_last_release st)"
  let ?rel = "wrap_add64 ?acq (d_hold_for (sc_deliveries s ! i))"
  have r: "r_execution_deadline rules_r4" "r_fence rules_r4" by (simp_all add: rules_r4_def rules_r3_def)
  obtain a st1 where ex: "execute_create s ?acq (sc_deliveries s ! i)
      (st\<lparr>sm_fence := max (sm_fence st) (issued s (row s i) - 30)\<rparr>) = (a, st1)" by fastforce
  then have keep: "sm_answers st1 = sm_answers st" "sm_answered_at st1 = sm_answered_at st"
    by (auto simp: execute_create_def split: option.splits prod.splits if_splits)
  consider (closed') "sm_failed_closed st" | (late) "\<not> sm_failed_closed st"
      "expires s (row s i) + 30 \<le> harness_clock s ?acq \<or> expires s (row s i) + 30 \<le> sm_fence st"
    | (go) "\<not> sm_failed_closed st" "sm_fence st < expires s (row s i) + 30"
      "\<not> expires s (row s i) + 30 \<le> harness_clock s ?acq"
    by linarith
  then show thesis
  proof cases
    case closed'
    then show thesis using assms(1)
      by (intro refused [of "''LEDGER_CONTINUITY_FAILED''" ?rel]) (auto simp: take_lock_def Let_def)
  next
    case late
    then show thesis using assms
      by (intro refused [of "''EXPIRED''" ?rel]) (auto simp: take_lock_def Let_def r skew_def)
  next
    case go
    then show thesis using assms ex keep
      by (intro executed [of ?acq a st1 ?rel]) (auto simp: take_lock_def Let_def r skew_def advance_fence_r4)
  qed
qed

lemma lock_inv:
  assumes ok: "scenario_ok s" and inv: "sim_inv s ((now, Lock, i) # es) st"
  shows "sim_inv s es (take_lock rules_r4 s now i st)"
proof -
  let ?u = "row s i" and ?W = "waiting es" and ?M = "on_merits st"
  let ?st' = "take_lock rules_r4 s now i st"
  have ev: "events_inv s ((now, Lock, i) # es) st"
    and f: "fence_inv s (insert i ?W) ?M (sm_nonces st) (sm_fence st)"
    and hold: "holder_inv s ?M (sm_operation st) (sm_bound st) (sm_failed_closed st) (sm_profile_known st)"
    and pend: "sm_pending_fence st = None"
    using inv by (simp_all add: sim_inv_def)
  note h = head_event [OF ev, simplified]
  have e30: "wrap_add64 (expires s ?u) 30 = expires s ?u + 30" by (rule scenario_okD [OF ok h(2)])
  have f0: "fence_inv s ?W ?M (sm_nonces st) (sm_fence st)" by (rule fence_inv_mono [OF f]) auto
  show ?thesis
  proof (rule take_lock_cases [OF refl e30])
    fix code at' assume code: "code \<in> {''LEDGER_CONTINUITY_FAILED'', ''EXPIRED''}"
      and st': "?st' = st\<lparr>sm_answers := (sm_answers st)[i := code],
        sm_answered_at := (sm_answered_at st)[i := at'], sm_last_release := at'\<rparr>"
    have "events_inv s es ?st'"
      by (rule events_inv_answer [OF ev]) (use code st' in auto)
    moreover have "on_merits ?st' = ?M"
      using merit_set_update [OF h(1,3), of code] code st' by auto
    ultimately show ?thesis using f0 hold pend st' by (simp add: sim_inv_def)
  next
    fix a st1 acquired at'
    assume open': "\<not> sm_failed_closed st" and early: "sm_fence st < expires s ?u + 30"
      and ex: "execute_create s acquired (sc_deliveries s ! i)
         (st\<lparr>sm_fence := max (sm_fence st) (issued s ?u - 30)\<rparr>) = (a, st1)"
      and st': "?st' = st1\<lparr>sm_answers := (sm_answers st)[i := a],
        sm_answered_at := (sm_answered_at st)[i := at'], sm_last_release := at'\<rparr>"
    let ?F = "max (sm_fence st) (issued s ?u - 30)"
    have keep: "sm_fence st1 = ?F" "sm_nonces st1 = sm_nonces st" "sm_pending_fence st1 = None"
        "sm_failed_closed st1 = sm_failed_closed st"
      using ex pend by (auto simp: execute_create_def split: option.splits prod.splits if_splits)
    have raised: "fence_inv s (insert i ?W) ?M (sm_nonces st) ?F" by (rule fence_inv_mono [OF f]) auto
    have merits: "on_merits ?st' = (if a = ''QUOTA_EXCEEDED'' then insert i ?M else ?M)"
      using merit_set_update [OF h(1,3), of a] st' by simp
    have other: "row s j \<noteq> ?u \<and> issued s (row s j) < expires s ?u + 60" if j: "j \<in> ?M" for j
    proof -
      have "j \<noteq> i" using j h(6) by blast
      then have "row s j \<noteq> ?u" using f j early unfolding fence_inv_def by fastforce
      moreover have "issued s (row s j) - 30 \<le> sm_fence st" using f j unfolding fence_inv_def by blast
      ultimately show ?thesis using early by simp
    qed
    have fence': "fence_inv s ?W (on_merits ?st') (sm_nonces st) ?F"
    proof (cases "a = ''QUOTA_EXCEEDED''")
      case True
      have "fence_inv s ?W (insert i ?M) (sm_nonces st) ?F"
        unfolding fence_inv_def
      proof (intro conjI ballI impI)
        fix j assume "j \<in> insert i ?M"
        then show "issued s (row s j) - 30 \<le> ?F" using raised unfolding fence_inv_def by fastforce
      next
        fix j assume "j \<in> ?W \<union> insert i ?M"
        then show "(\<exists>n \<in> set (sm_nonces st). fst n = row s j) \<or> expires s (row s j) + 30 \<le> ?F"
          using raised unfolding fence_inv_def by blast
      next
        fix j k assume "j \<in> ?W \<union> insert i ?M" "k \<in> ?W" "j \<noteq> k \<and> row s j = row s k"
        then show "expires s (row s j) + 30 \<le> ?F" using raised unfolding fence_inv_def by blast
      qed (use raised in \<open>unfold fence_inv_def, blast+\<close>)
      then show ?thesis by (simp add: merits True)
    next
      case False
      then show ?thesis using fence_inv_mono [OF raised, of ?W ?M ?F] merits by auto
    qed
    have none: "sm_operation st = None \<Longrightarrow> sm_bound st = None \<and> \<not> sm_profile_known st"
      using hold open' by (simp add: holder_inv_def)
    have who: "sm_operation st = Some (state, w) \<Longrightarrow> sm_bound st = None \<or> sm_bound st = Some w" for state w
      using hold open' by (simp add: holder_inv_def)
    have "a \<in> known_answers \<and> holder_inv s (on_merits ?st') (sm_operation st1) (sm_bound st1) False (sm_profile_known st1)"
    proof (cases "sm_operation st")
      case (Some p)
      then obtain state w where p: "sm_operation st = Some (state, w)" by (cases p) auto
      have a: "a = ''OPERATION:completed'' \<or> a = ''OPERATION:'' @ state"
        and op: "\<exists>state'. sm_operation st1 = Some (state', w)" "sm_bound st1 = sm_bound st \<or> sm_bound st1 = Some w"
        using ex p by (auto simp: execute_create_def split: if_splits)
      from a have "a \<in> known_answers" by (metis known_answersI(8,9))
      moreover from a have "a \<noteq> ''QUOTA_EXCEEDED''" by auto
      moreover have "holders (sm_operation st1) (sm_bound st1) \<subseteq> holders (sm_operation st) (sm_bound st)"
        using op p by (auto simp: holders_def)
      ultimately show ?thesis using hold op who [OF p] merits unfolding holder_inv_def by auto
    next
      case None
      note n = none [OF None]
      consider (quota) "a = ''QUOTA_EXCEEDED''" "sm_operation st1 = None" "sm_bound st1 = None" "\<not> sm_profile_known st1"
        | (made) state where "a = ''STORAGE_UNAVAILABLE'' \<or> a = ''OPERATION:completed''"
            "sm_operation st1 = Some (state, ?u)" "sm_bound st1 = None \<or> sm_bound st1 = Some ?u"
        using ex None n by (auto simp: execute_create_def split: if_splits)
      then show ?thesis
      proof cases
        case quota
        then show ?thesis by (simp add: holder_inv_def holders_def)
      next
        case made
        then have "on_merits ?st' = ?M" "a \<in> known_answers" using merits by auto
        moreover have "holders (sm_operation st1) (sm_bound st1) = {?u}" using made by (auto simp: holders_def)
        ultimately show ?thesis using made other h(2) by (auto simp: holder_inv_def)
      qed
    qed
    moreover from this have "events_inv s es ?st'"
      by (intro events_inv_answer [OF ev]) (use st' in auto)
    ultimately show ?thesis using fence' keep st' open' by (simp add: sim_inv_def)
  qed
qed

section \<open>The whole simulation\<close>

lemma in_order_first:
  assumes "in_order es = e # rest" "e' \<in> set rest"
  shows "fst e \<le> fst e'"
proof -
  let ?key = "\<lambda>(t, k, i). [t, kind_rank k, i]"
  have "sorted (map ?key (in_order es))" unfolding in_order_def by (rule sorted_sort_key)
  then have "?key e \<le> ?key e'" using assms by (auto simp del: Cons_le_Cons)
  then show ?thesis by (cases e; cases e') auto
qed

lemma handle_event_inv:
  assumes ok: "scenario_ok s" and inv: "sim_inv s (e # es) st" and first: "\<forall>e' \<in> set es. fst e \<le> fst e'"
    and step: "handle_event rules_r4 s e st = (st', new)"
  shows "sim_inv s (es @ new) st'"
proof -
  obtain now k i where e: "e = (now, k, i)" by (cases e) auto
  have settled: "settle_fence now st = st" using inv by (simp add: sim_inv_def settle_fence_none)
  have tail: "sim_inv s es st" by (rule sim_inv_tail [OF inv])
  show ?thesis
  proof (cases k)
    case Restart
    then have "st' = st" "new = []"
      using step by (auto simp: handle_event_def e settled restart_def rules_r4_def rules_r3_def)
    then show ?thesis using tail by simp
  next
    case Restore
    then have "st' = restore rules_r4 now (sc_recoveries s ! i) st" "new = []"
      using step by (auto simp: handle_event_def e settled)
    then show ?thesis using restore_inv [OF ok] inv Restore by (simp add: e)
  next
    case Housekeeping
    then have "st' = housekeeping rules_r4 s now st" "new = []"
      using step by (auto simp: handle_event_def e settled)
    then show ?thesis using housekeeping_inv [OF ok tail] by simp
  next
    case Arrive
    then have "arrive s now i st = (st', new)" using step by (simp add: handle_event_def e settled)
    then show ?thesis using arrive_inv [OF ok] inv first Arrive by (simp add: e)
  next
    case Lock
    then have "st' = take_lock rules_r4 s now i st" "new = []"
      using step by (auto simp: handle_event_def e settled)
    then show ?thesis using lock_inv [OF ok] inv Lock by (simp add: e)
  qed
qed

lemma sim_loop_inv:
  assumes "scenario_ok s" "sim_inv s es st"
  shows "sim_inv s [] (sim_loop rules_r4 s es st)"
  using assms
proof (induction rules_r4 s es st rule: sim_loop.induct)
  case (1 s es st)
  show ?case
  proof (cases "in_order es")
    case Nil
    then have "es = []" using in_order_perm [of es] by simp
    then show ?thesis using "1.prems" by (subst sim_loop.simps) (simp add: in_order_def)
  next
    case (Cons e rest)
    obtain st' new where step: "handle_event rules_r4 s e st = (st', new)" by fastforce
    have least: "\<forall>e' \<in> set rest. fst e \<le> fst e'" using in_order_first [OF Cons] by blast
    have "sim_inv s (e # rest) st"
      using sim_inv_perm [OF "1.prems"(2) in_order_perm] by (simp add: Cons)
    from handle_event_inv [OF "1.prems"(1) this least step] have "sim_inv s (rest @ new) st'" .
    from "1.hyps" [OF Cons step [symmetric] refl "1.prems"(1) this] show ?thesis
      by (subst sim_loop.simps) (simp add: Cons step)
  qed
qed

lemma initial_inv:
  assumes "scenario_ok s"
  shows "sim_inv s (initial_events s) (initial_sim s)"
proof -
  let ?n = "length (sc_deliveries s)"
  have w: "waiting (initial_events s) = {}" by (auto simp: waiting_def initial_events_def)
  have m: "on_merits (initial_sim s) = {}" by (auto simp: merit_set_def initial_sim_def)
  have f: "filter is_delivery_event (initial_events s) =
      map (\<lambda>(i, d). (d_arrives_at d, Arrive, i)) (enumerate 0 (sc_deliveries s))"
    by (simp add: initial_events_def filter_map o_def is_delivery_event_def split_def)
  have "map (\<lambda>e. snd (snd e)) (filter is_delivery_event (initial_events s)) = [0..<?n]"
  proof -
    have "map (\<lambda>e. snd (snd e)) (filter is_delivery_event (initial_events s)) =
        map fst (enumerate 0 (sc_deliveries s))"
      unfolding f by (simp add: o_def split_def)
    then show ?thesis by simp
  qed
  moreover have "e \<in> set (initial_events s) \<Longrightarrow> is_delivery_event e \<Longrightarrow> snd (snd e) < ?n" for e
    by (auto simp: initial_events_def is_delivery_event_def in_set_enumerate_eq)
  moreover have "(t, Arrive, i) \<in> set (initial_events s) \<Longrightarrow> t = d_arrives_at (sc_deliveries s ! i)" for t i
    by (auto simp: initial_events_def in_set_enumerate_eq)
  moreover have "(t, Restore, i) \<in> set (initial_events s) \<Longrightarrow> t \<le> 9999999999" for t i
    using assms by (auto simp: initial_events_def in_set_enumerate_eq scenario_ok_def)
  ultimately have "events_inv s (initial_events s) (initial_sim s)"
    using w m by (auto simp: events_inv_def initial_sim_def known_answers_def refusal_answers_def)
  then show ?thesis
    using w m by (simp add: sim_inv_def fence_inv_def holder_inv_def holders_def) (simp add: initial_sim_def)
qed

text \<open>The registry classes that the conclusion uses.\<close>

definition ordering_registry :: "registry \<Rightarrow> bool" where
  "ordering_registry r \<longleftrightarrow>
     (\<forall>c \<in> {''EXPIRED'', ''NOT_YET_VALID'', ''UNKNOWN_KEY'', ''LEDGER_CONTINUITY_FAILED''}.
        map_option rc_class (bt_get (reg_codes r) c) = Some ''protocol'') \<and>
     map_option rc_class (bt_get (reg_codes r) ''QUOTA_EXCEEDED'') = Some ''merits'' \<and>
     bt_get (reg_codes r) [] = None"

lemma min_by_key_in: "min_by_key f xs = Some x \<Longrightarrow> x \<in> set xs"
  by (induction xs arbitrary: x) (auto split: option.splits if_splits)

lemma answer_to_Some:
  assumes "answer_to s st m t = Some a"
  shows "\<exists>i < length (sc_deliveries s). row s i = t \<and> a = sm_answers st ! i"
  using assms by (auto simp: answer_to_def dest!: min_by_key_in)

lemma refused_answer:
  assumes "sim_outcome a = Refused k"
  shows "a = Some k" "k \<notin> uncertain_answers" "\<And>x. k \<noteq> ''OPERATION:'' @ x"
proof -
  from assms obtain b where b: "a = Some b" by (cases a) (auto simp: sim_outcome_def)
  with assms have c: "\<not> (b = ''STORAGE_UNAVAILABLE'' \<or> b = ''REPLAY_DETECTED'')"
    "strip_prefix ''OPERATION:'' b = None" "b = k"
    by (auto simp: sim_outcome_def simp del: strip_prefix_def split: if_splits option.splits)
  then show "a = Some k" "k \<notin> uncertain_answers"
    using b by (simp_all add: uncertain_answers_def)
  show "\<And>x. k \<noteq> ''OPERATION:'' @ x" using c(2,3) strip_prefix_Some by (metis option.distinct(1))
qed

lemma refused_outcome:
  assumes inv: "sim_inv s [] st" and ref: "sim_outcome (answer_to s st m t) = Refused k"
  shows "k \<in> refusal_answers"
    and "k = ''QUOTA_EXCEEDED'' \<Longrightarrow> \<exists>i \<in> on_merits st. row s i = t"
proof -
  note r = refused_answer [OF ref]
  obtain i where i: "i < length (sc_deliveries s)" "row s i = t" "k = sm_answers st ! i"
    using answer_to_Some [OF r(1)] by blast
  have len: "length (sm_answers st) = length (sc_deliveries s)" "set (sm_answers st) \<subseteq> known_answers"
    using inv by (simp_all add: sim_inv_def events_inv_def)
  then have "k \<in> known_answers" using i by (metis nth_mem subsetD)
  then show "k \<in> refusal_answers"
    using r(2,3) unfolding known_answers_def by blast
  show "\<exists>i \<in> on_merits st. row s i = t" if "k = ''QUOTA_EXCEEDED''"
    using i len that by (intro bexI [of _ i]) (simp_all add: merit_set_def)
qed


text \<open>Web does not conclude \<open>Failed\<close> at a moment by which a holder had been issued.\<close>

lemma ordering_class:
  assumes "ordering_registry r" "k \<in> refusal_answers" "bt_get (reg_codes r) k = Some e"
  shows "k = ''QUOTA_EXCEEDED'' \<and> rc_class e = ''merits'' \<or> k \<noteq> ''QUOTA_EXCEEDED'' \<and> rc_class e = ''protocol''"
  using assms unfolding refusal_answers_def ordering_registry_def
  by (elim insertE emptyE conjE) simp_all

lemma conclusion_spares_holders:
  assumes ok: "scenario_ok s" and reg: "ordering_registry r" and inv: "sim_inv s [] st"
    and u: "u \<in> holders (sm_operation st) (sm_bound st)" "issued s u \<le> m"
  shows "resolve_at r rules_r4 s st (Some m) \<noteq> Failed c"
proof
  define ts where "ts = map (\<lambda>t. \<lparr>t_issued_at = issued s t, t_expires_at = expires s t,
      t_outcome = sim_outcome (answer_to s st (Some m) t)\<rparr>)
      (filter (\<lambda>t. by_moment (issued s t) (Some m)) (visible_rows rules_r4 s))"
  assume "resolve_at r rules_r4 s st (Some m) = Failed c"
  then have failed: "resolve_create_job_with r ts False False = Failed c"
    by (simp add: resolve_at_def rules_r4_def rules_r3_def ts_def)
  obtain i0 where i0: "i0 < length (sc_deliveries s)" "u = row s i0"
    using inv u(1) by (auto simp: sim_inv_def holder_inv_def)
  have late: "row s i \<noteq> u \<and> issued s (row s i) < expires s u + 60" if "i \<in> on_merits st" for i
    using inv u(1) that by (auto simp: sim_inv_def holder_inv_def)
  have ref: "\<exists>e. bt_get (reg_codes r) k = Some e \<and>
      (k = ''QUOTA_EXCEEDED'' \<and> rc_class e = ''merits'' \<or> k \<noteq> ''QUOTA_EXCEEDED'' \<and> rc_class e = ''protocol'')"
    if t: "t \<in> set ts" "t_outcome t = Refused k" for t k
  proof -
    obtain e where e: "bt_get (reg_codes r) k = Some e" using failed_registered [OF failed t] by blast
    have "k \<in> refusal_answers" using t refused_outcome(1) [OF inv] by (auto simp: ts_def)
    from ordering_class [OF reg this e] e show ?thesis by blast
  qed
  have payload: "rc_class e \<noteq> ''payload''"
    if "t \<in> set ts" "t_outcome t = Refused k" "bt_get (reg_codes r) k = Some e" for t k e
    using ref [OF that(1,2)] that(3) by auto
  let ?tu = "\<lparr>t_issued_at = issued s u, t_expires_at = expires s u,
      t_outcome = sim_outcome (answer_to s st (Some m) u)\<rparr>"
  have tu: "?tu \<in> set ts"
    using scenario_okD(1) [OF ok i0(1)] i0(2) u(2)
    by (auto simp: ts_def visible_rows_def by_moment_def rules_r4_def rules_r3_def)
  have "is_open r False ?tu"
  proof (cases "sim_outcome (answer_to s st (Some m) u)")
    case (Operation i x)
    then show ?thesis
      using failed_without_operation [OF failed] tu unfolding operations_of_none by fastforce
  next
    case (Refused k)
    then have "k \<noteq> ''QUOTA_EXCEEDED''" using refused_outcome(2) [OF inv] late by blast
    then show ?thesis using ref [OF tu, of k] Refused
      by (auto simp: is_open_def class_of_def create_resolution_def)
  qed (simp add: is_open_def)
  then have "\<exists>t k e. t \<in> set ts \<and> t_outcome t = Refused k \<and> bt_get (reg_codes r) k = Some e \<and>
      rc_class e = ''merits'' \<and> wrap_add64 (t_expires_at ?tu) acceptance_horizon_seconds \<le> t_issued_at t"
    by (intro failed_cases(2) [OF failed] tu) (erule payload, assumption+)
  then obtain t k e where t: "t \<in> set ts" "t_outcome t = Refused k" "bt_get (reg_codes r) k = Some e"
      "rc_class e = ''merits''" "wrap_add64 (expires s u) acceptance_horizon_seconds \<le> t_issued_at t"
    by auto
  then have "k = ''QUOTA_EXCEEDED''" using ref [OF t(1,2)] by auto
  moreover obtain x where x: "t_issued_at t = issued s x" "t_outcome t = sim_outcome (answer_to s st (Some m) x)"
    using t(1) by (auto simp: ts_def)
  ultimately obtain i where "i \<in> on_merits st" "row s i = x"
    using refused_outcome(2) [OF inv] t(2) by metis
  then have "i \<in> on_merits st" "t_issued_at t = issued s (row s i)" using x by simp_all
  moreover have "wrap_add64 (expires s u) acceptance_horizon_seconds = expires s u + 60"
    using scenario_okD(5) [OF ok i0(1)] i0(2)
    by (simp add: wrap_add64_def acceptance_horizon_seconds_def u64_max_def)
  ultimately show False using late t(5) by fastforce
qed

lemma simulated_safe:
  assumes ok: "scenario_ok s" and reg: "ordering_registry r"
  shows "\<exists>res. simulate r s rules_r4 = Some res \<and> \<not> or_unsafe res"
proof -
  let ?st = "sim_loop rules_r4 s (initial_events s) (initial_sim s)"
  have inv: "sim_inv s [] ?st" by (rule sim_loop_inv [OF ok initial_inv [OF ok]])
  have range: "\<not> (\<exists>d \<in> set (sc_deliveries s). length (sc_transmissions s) \<le> d_transmission d)"
    using ok by (auto simp: scenario_ok_def not_le)
  have none: "\<not> is_failed (resolve_at r rules_r4 s ?st (Some m))"
    if "u \<in> holders (sm_operation ?st) (sm_bound ?st)" "issued s u \<le> m" for u m
    using conclusion_spares_holders [OF ok reg inv that] by (simp add: is_failed_def split: resolution.split)
  have "\<not> (case find (\<lambda>m. is_failed (resolve_at r rules_r4 s ?st (Some m))) (moments s ?st) of
      None \<Rightarrow> False
    | Some m \<Rightarrow>
        (case sm_operation ?st of None \<Rightarrow> False | Some (_, who) \<Rightarrow> issued s who \<le> m) \<or>
        (case sm_bound ?st of None \<Rightarrow> False | Some t \<Rightarrow> issued s t \<le> m))"
    using none by (auto simp: holders_def dest!: find_SomeD split: option.splits prod.splits) blast+
  then show ?thesis using range by (simp add: simulate_def Let_def)
qed

section \<open>The generators of scenarios\<close>

definition draw_at :: "int \<Rightarrow> int \<Rightarrow> rng \<Rightarrow> nat \<times> rng" where
  "draw_at lo hi x = (let (v, x') = rng_range lo hi x in (as_u64 (schedule_t0 + v), x'))"

fun draw_times :: "nat \<Rightarrow> rng \<Rightarrow> nat list \<times> rng" where
  "draw_times 0 x = ([], x)"
| "draw_times (Suc n) x =
     (let (t, x1) = draw_at 0 900 x; (ts, x2) = draw_times n x1 in (t # ts, x2))"

text \<open>The transmissions, each from the issue and the expiry of the one before.\<close>

fun draw_txs :: "nat \<Rightarrow> (int \<times> int) option \<Rightarrow> rng \<Rightarrow> tx list \<times> rng" where
  "draw_txs 0 previous x = ([], x)"
| "draw_txs (Suc k) previous x =
     (let (at_time, x1) =
            (case previous of
               None \<Rightarrow> (schedule_t0, x)
             | Some (i, e) \<Rightarrow>
                 (let (c, y) = rng_chance 30 x
                  in if c then (e + 60, y) else let (d, z) = rng_range 0 250 y in (i + d, z)));
          (lifetime, x2) = rng_range 1 120 x1;
          (unjournaled, x3) = rng_chance 10 x2;
          (rest, x4) = draw_txs k (Some (at_time, at_time + lifetime)) x3
      in (\<lparr>tx_issued_at = as_u64 at_time, tx_expires_at = as_u64 (at_time + lifetime),
           tx_journaled = \<not> unjournaled\<rparr> # rest, x4))"

definition draw_delivery :: "nat \<Rightarrow> nat \<Rightarrow> rng \<Rightarrow> delivery \<times> rng" where
  "draw_delivery t issued_at x =
     (let (near, x1) = rng_chance 60 x;
          (delay, x2) = (if near then rng_range 0 2 x1 else rng_range 0 400 x1);
          arrives = issued_at + nat delay;
          (at_once, x3) = rng_chance 50 x2;
          (pause, x4) = (if at_once then (0, x3) else rng_range 0 300 x3);
          (short, x5) = rng_chance 80 x4;
          (hold, x6) = (if short then (1, x5) else rng_range 1 200 x5);
          (lost, x7) = rng_chance 40 x6;
          (crash, x8) = rng_chance 10 x7
      in (\<lparr>d_transmission = t, d_arrives_at = arrives, d_lock_at = Some (arrives + nat pause),
           d_hold_for = nat hold, d_answer_to_web = \<not> lost, d_crash_after_record = crash\<rparr>, x8))"

fun draw_copies :: "nat \<Rightarrow> nat \<Rightarrow> nat \<Rightarrow> rng \<Rightarrow> delivery list \<times> rng" where
  "draw_copies 0 t issued_at x = ([], x)"
| "draw_copies (Suc n) t issued_at x =
     (let (d, x1) = draw_delivery t issued_at x; (ds, x2) = draw_copies n t issued_at x1
      in (d # ds, x2))"

fun draw_deliveries :: "nat \<Rightarrow> tx list \<Rightarrow> rng \<Rightarrow> delivery list \<times> rng" where
  "draw_deliveries t [] x = ([], x)"
| "draw_deliveries t (tx # txs) x =
     (let (many, x1) = rng_chance 25 x;
          (copies, x2) = (if many then rng_range 2 3 x1 else (1, x1));
          (ds, x3) = draw_copies (nat copies) t (tx_issued_at tx) x2;
          (rest, x4) = draw_deliveries (Suc t) txs x3
      in (ds @ rest, x4))"

fun draw_clock_steps :: "nat \<Rightarrow> rng \<Rightarrow> (nat \<times> int) list \<times> rng" where
  "draw_clock_steps 0 x = ([], x)"
| "draw_clock_steps (Suc n) x =
     (let (t, x1) = draw_at 0 900 x; (o', x2) = rng_range (- 90) 90 x1;
          (rest, x3) = draw_clock_steps n x2
      in ((t, o') # rest, x3))"

text \<open>\<open>sort_unstable\<close> on pairs: by the time, then by the offset.\<close>

definition sorted_clock :: "(nat \<times> int) list \<Rightarrow> (nat \<times> int) list" where
  "sorted_clock c = sort_key (\<lambda>(t, o'). [int t, o']) c"

text \<open>A recovery of a random non-empty subset of the stores.\<close>

definition draw_recovery :: "nat \<Rightarrow> int \<Rightarrow> rng \<Rightarrow> recovery \<times> rng" where
  "draw_recovery moment fence_hi x =
     (let (ledger, x1) = rng_chance 50 x; (identity, x2) = rng_chance 50 x1;
          (nonces, x3) = rng_chance 50 x2; (fence, x4) = rng_chance 50 x3;
          ledger' = (ledger \<or> \<not> (ledger \<or> identity \<or> nonces \<or> fence));
          (older, x5) = (if fence then rng_chance 50 x4 else (False, x4));
          (to, x6) = (if older then draw_at (- 100) fence_hi x5 else (0, x5))
      in (\<lparr>rec_at = moment, rec_ledger = ledger', rec_identity = identity, rec_nonces = nonces,
           rec_fence = fence, rec_fence_to = to\<rparr>, x6))"

definition random_scenario :: "rng \<Rightarrow> bool \<Rightarrow> scenario \<times> rng" where
  "random_scenario x with_recovery =
     (let (n, x1) = rng_range 1 4 x;
          (txs, x2) = draw_txs (nat n) None x1;
          (ds, x3) = draw_deliveries 0 txs x2;
          (offset, x4) = rng_range (- 30) 30 x3;
          (k, x5) = rng_range 0 2 x4;
          (steps, x6) = draw_clock_steps (nat k) x5;
          (w0, x7) = draw_at 0 900 x6; (w1, x8) = draw_at 0 1300 x7;
          (nr, x9) = rng_range 0 2 x8; (restarts, x10) = draw_times (nat nr) x9;
          (nh, x11) = rng_range 0 2 x10; (housekeepings, x12) = draw_times (nat nh) x11;
          (late_key, x13) = rng_chance 30 x12;
          (key_from, x14) = (if late_key then draw_at 0 300 x13 else (0, x13));
          (recoveries, x15) =
            (if with_recovery then
               (let (moment, y) = draw_at 0 900 x14; (r, z) = draw_recovery moment 200 y in ([r], z))
             else ([], x14))
      in (\<lparr>sc_transmissions = txs, sc_deliveries = ds, sc_clock = sorted_clock ((0, offset) # steps),
           sc_quota = [(w0, w1)], sc_restarts = restarts, sc_housekeeping = housekeepings,
           sc_key_trusted_from = key_from, sc_recoveries = recoveries\<rparr>, x15))"

text \<open>The recovery hazard family.\<close>

fun draw_resends :: "nat \<Rightarrow> nat \<Rightarrow> int \<Rightarrow> rng \<Rightarrow> (tx list \<times> delivery list) \<times> rng" where
  "draw_resends 0 t at_time x = (([], []), x)"
| "draw_resends (Suc n) t at_time x =
     (let (lifetime, x1) = rng_range 1 120 x; (delay, x2) = rng_range 0 2 x1;
          (lost, x3) = rng_chance 20 x2; (gap, x4) = rng_range 0 200 x3;
          ((txs, ds), x5) = draw_resends n (Suc t) (at_time + gap) x4
      in ((\<lparr>tx_issued_at = as_u64 at_time, tx_expires_at = as_u64 (at_time + lifetime),
            tx_journaled = True\<rparr> # txs,
           \<lparr>d_transmission = t, d_arrives_at = as_u64 (at_time + delay), d_lock_at = None,
            d_hold_for = 1, d_answer_to_web = \<not> lost, d_crash_after_record = False\<rparr> # ds), x5))"

definition random_recovery_scenario :: "rng \<Rightarrow> scenario \<times> rng" where
  "random_recovery_scenario x =
     (let (lifetime, x1) = rng_range 1 120 x;
          (a0, x2) = draw_at 0 2 x1; (lost, x3) = rng_chance 70 x2; (crash, x4) = rng_chance 20 x3;
          first = \<lparr>d_transmission = 0, d_arrives_at = a0, d_lock_at = None, d_hold_for = 1,
                   d_answer_to_web = \<not> lost, d_crash_after_record = crash\<rparr>;
          (again, x5) = rng_chance 25 x4;
          (copies, x6) =
            (if again then
               (let (a1, y) = draw_at 3 90 x5
                in ([\<lparr>d_transmission = 0, d_arrives_at = a1, d_lock_at = None, d_hold_for = 1,
                      d_answer_to_web = False, d_crash_after_record = False\<rparr>], y))
             else ([], x5));
          (moment, x7) = draw_at 5 400 x6;
          (far, x8) = rng_range 0 1 x7; (off, x9) = rng_range 0 300 x8;
          (n, x10) = rng_range 1 3 x9;
          ((txs, ds), x11) = draw_resends (nat n) 1 (schedule_t0 + lifetime + 60 + far * off) x10;
          (recovery, x12) = draw_recovery moment 100 x11;
          (offset, x13) = rng_range (- 30) 30 x12;
          (stepped, x14) = rng_chance 30 x13;
          (clock, x15) =
            (if stepped then
               (let (t, y) = draw_at 0 600 x14; (o', z) = rng_range (- 60) 60 y
                in ([(0, offset), (t, o')], z))
             else ([(0, offset)], x14));
          (w0, x16) = draw_at (- 10) 300 x15; (w1, x17) = draw_at 0 900 x16
      in (\<lparr>sc_transmissions =
             \<lparr>tx_issued_at = as_u64 schedule_t0, tx_expires_at = as_u64 (schedule_t0 + lifetime),
              tx_journaled = True\<rparr> # txs,
           sc_deliveries = first # copies @ ds, sc_clock = clock, sc_quota = [(w0, w1)],
           sc_restarts = [], sc_housekeeping = [], sc_key_trusted_from = 0,
           sc_recoveries = [recovery]\<rparr>, x17))"

section \<open>Generated scenarios are within the limits\<close>

lemma as_u64_small: "0 \<le> x \<Longrightarrow> x < 18446744073709551616 \<Longrightarrow> as_u64 x = nat x"
  by (simp add: as_u64_def)

lemma draw_at_bounds:
  assumes "draw_at lo hi x = (t, x')" "lo \<le> hi" "- 1000 \<le> lo" "hi \<le> 2000"
  shows "schedule_t0 + lo \<le> int t" "int t \<le> schedule_t0 + hi"
proof -
  obtain v where v: "rng_range lo hi x = (v, x')" "t = as_u64 (schedule_t0 + v)"
    using assms(1) by (auto simp: draw_at_def split: prod.splits)
  have b: "lo \<le> v" "v \<le> hi" using rng_range_bounds [of lo hi x] assms(2-) v(1) by simp_all
  then have "t = nat (schedule_t0 + v)"
    unfolding v(2) using assms(3,4) by (intro as_u64_small) (simp_all add: schedule_t0_def)
  then show "schedule_t0 + lo \<le> int t" "int t \<le> schedule_t0 + hi"
    using b assms(3,4) by (simp_all add: schedule_t0_def)
qed

definition tx_ok :: "tx \<Rightarrow> bool" where
  "tx_ok x \<longleftrightarrow> tx_expires_at x \<le> tx_issued_at x + 120 \<and> tx_expires_at x \<le> 9999999999"

lemma tx_ok_drawn:
  assumes "0 \<le> i" "i \<le> 8000000000" "1 \<le> l" "l \<le> 120"
  shows "tx_ok \<lparr>tx_issued_at = as_u64 i, tx_expires_at = as_u64 (i + l), tx_journaled = j\<rparr>"
  using assms by (simp add: tx_ok_def as_u64_small nat_add_distrib) arith

lemma draw_txs_ok:
  assumes "draw_txs k previous x = (txs, x')"
    "case previous of None \<Rightarrow> b = schedule_t0 | Some (i, e) \<Rightarrow> 0 \<le> i \<and> i \<le> b \<and> i \<le> e \<and> e \<le> i + 120"
    "0 \<le> b" "b + 250 * int k \<le> 8000000000"
  shows "\<forall>t \<in> set txs. tx_ok t"
  using assms
proof (induction k arbitrary: previous x x' txs b)
  case (Suc k)
  obtain i x1 where i: "(case previous of
               None \<Rightarrow> (schedule_t0, x)
             | Some (i, e) \<Rightarrow>
                 (let (c, y) = rng_chance 30 x
                  in if c then (e + 60, y) else let (d, z) = rng_range 0 250 y in (i + d, z))) = (i, x1)"
    by fastforce
  obtain l x2 where l: "rng_range 1 120 x1 = (l, x2)" by fastforce
  obtain u x3 where u: "rng_chance 10 x2 = (u, x3)" by fastforce
  obtain rest x4 where r: "draw_txs k (Some (i, i + l)) x3 = (rest, x4)" by fastforce
  have lb: "1 \<le> l" "l \<le> 120" using rng_range_bounds [of 1 120 x1] l by simp_all
  have ib: "0 \<le> i \<and> i \<le> b + 250"
  proof (cases previous)
    case None
    then show ?thesis using i Suc.prems(2) by (simp add: schedule_t0_def)
  next
    case (Some p)
    then obtain a e where p: "previous = Some (a, e)" by (cases p) auto
    obtain c y where c: "rng_chance 30 x = (c, y)" by fastforce
    show ?thesis using i p c Suc.prems(2) rng_range_bounds [of 0 250 y]
      by (auto split: if_splits prod.splits)
  qed
  have txs: "txs = \<lparr>tx_issued_at = as_u64 i, tx_expires_at = as_u64 (i + l), tx_journaled = \<not> u\<rparr> # rest"
    using Suc.prems(1) by (simp add: i l u r)
  have "\<forall>t \<in> set rest. tx_ok t"
    by (rule Suc.IH [OF r, where b = "b + 250"]) (use ib lb Suc.prems(3,4) in auto)
  moreover have "tx_ok \<lparr>tx_issued_at = as_u64 i, tx_expires_at = as_u64 (i + l), tx_journaled = \<not> u\<rparr>"
    by (rule tx_ok_drawn) (use ib lb Suc.prems(3,4) in auto)
  ultimately show ?case by (simp add: txs)
qed simp

definition deliveries_ok :: "tx list \<Rightarrow> delivery list \<Rightarrow> bool" where
  "deliveries_ok txs ds \<longleftrightarrow>
     (\<forall>d \<in> set ds. d_transmission d < length txs \<and> tx_issued_at (txs ! d_transmission d) \<le> d_arrives_at d)"

lemma draw_copies_ok:
  "draw_copies n t i x = (ds, x') \<Longrightarrow> \<forall>d \<in> set ds. d_transmission d = t \<and> i \<le> d_arrives_at d"
proof (induction n arbitrary: x ds x')
  case (Suc n)
  then obtain d x1 rest where d: "draw_delivery t i x = (d, x1)" "draw_copies n t i x1 = (rest, x')" "ds = d # rest"
    by (auto split: prod.splits)
  have "d_transmission d = t \<and> i \<le> d_arrives_at d"
    using d(1) by (auto simp: draw_delivery_def Let_def split: prod.splits)
  then show ?case using Suc.IH [OF d(2)] d(3) by simp
qed simp

lemma draw_deliveries_ok:
  "draw_deliveries t txs x = (ds, x') \<Longrightarrow>
     \<forall>d \<in> set ds. \<exists>k < length txs. d_transmission d = t + k \<and> tx_issued_at (txs ! k) \<le> d_arrives_at d"
proof (induction txs arbitrary: t x ds x')
  case (Cons y ys)
  then obtain n x2 cs x3 rest where d: "draw_copies n t (tx_issued_at y) x2 = (cs, x3)"
    "draw_deliveries (Suc t) ys x3 = (rest, x')" "ds = cs @ rest"
    by (auto simp: Let_def split: prod.splits)
  show ?case
  proof
    fix d assume "d \<in> set ds"
    then consider "d \<in> set cs" | "d \<in> set rest" using d(3) by auto
    then show "\<exists>k < length (y # ys). d_transmission d = t + k \<and> tx_issued_at ((y # ys) ! k) \<le> d_arrives_at d"
    proof cases
      case 1
      then show ?thesis using draw_copies_ok [OF d(1)] by (intro exI [of _ 0]) simp
    next
      case 2
      then obtain k where "k < length ys" "d_transmission d = Suc t + k" "tx_issued_at (ys ! k) \<le> d_arrives_at d"
        using Cons.IH [OF d(2)] by blast
      then show ?thesis by (intro exI [of _ "Suc k"]) simp
    qed
  qed
qed simp

lemma scenario_okI:
  assumes "\<forall>t \<in> set (sc_transmissions s). tx_ok t" "deliveries_ok (sc_transmissions s) (sc_deliveries s)"
    "\<forall>x \<in> set (sc_recoveries s). rec_at x \<le> 9999999999"
  shows "scenario_ok s"
  using assms by (simp add: scenario_ok_def tx_ok_def deliveries_ok_def)

lemma draw_recovery_at: "draw_recovery moment hi x = (r, x') \<Longrightarrow> rec_at r = moment"
  by (auto simp: draw_recovery_def Let_def split: prod.splits)

lemma random_scenario_ok: "scenario_ok (fst (random_scenario x with_recovery))"
proof -
  obtain s x' where s: "random_scenario x with_recovery = (s, x')" by fastforce
  then obtain n x1 x2 x3 where d: "rng_range 1 4 x = (n, x1)"
      "draw_txs (nat n) None x1 = (sc_transmissions s, x2)"
      "draw_deliveries 0 (sc_transmissions s) x2 = (sc_deliveries s, x3)"
    by (auto simp: random_scenario_def Let_def split: prod.splits)
  have "1 \<le> n" "n \<le> 4" using rng_range_bounds [of 1 4 x] d(1) by simp_all
  then have "\<forall>t \<in> set (sc_transmissions s). tx_ok t"
    by (intro draw_txs_ok [OF d(2), where b = schedule_t0]) (auto simp: schedule_t0_def)
  moreover have "deliveries_ok (sc_transmissions s) (sc_deliveries s)"
    using draw_deliveries_ok [OF d(3)] by (fastforce simp: deliveries_ok_def)
  moreover have "rec_at r \<le> 9999999999" if r: "r \<in> set (sc_recoveries s)" for r
  proof -
    obtain moment y z y' where "draw_at 0 900 y = (moment, z)" "draw_recovery moment 200 z = (r, y')"
      using s r by (auto simp: random_scenario_def Let_def split: prod.splits if_splits)
    then show ?thesis using draw_at_bounds(2) [of 0 900 y moment z] draw_recovery_at by (simp add: schedule_t0_def)
  qed
  ultimately show ?thesis using s by (intro scenario_okI) auto
qed

lemma as_u64_mono: "0 \<le> a \<Longrightarrow> a \<le> b \<Longrightarrow> b < 18446744073709551616 \<Longrightarrow> as_u64 a \<le> as_u64 b"
  by (simp add: as_u64_small nat_mono)

lemma draw_resends_ok:
  "draw_resends n t i x = ((txs, ds), x') \<Longrightarrow> 0 \<le> i \<Longrightarrow> i + 200 * int n \<le> 8000000000 \<Longrightarrow>
     (\<forall>y \<in> set txs. tx_ok y) \<and>
     (\<forall>d \<in> set ds. \<exists>k < length txs. d_transmission d = t + k \<and> tx_issued_at (txs ! k) \<le> d_arrives_at d)"
proof (induction n arbitrary: t i x txs ds x')
  case (Suc n)
  obtain l x1 where l: "rng_range 1 120 x = (l, x1)" by fastforce
  obtain delay x2 where de: "rng_range 0 2 x1 = (delay, x2)" by fastforce
  obtain lost x3 where lo: "rng_chance 20 x2 = (lost, x3)" by fastforce
  obtain gap x4 where g: "rng_range 0 200 x3 = (gap, x4)" by fastforce
  obtain ys es x5 where r: "draw_resends n (Suc t) (i + gap) x4 = ((ys, es), x5)"
    by (metis surj_pair)
  have b: "1 \<le> l" "l \<le> 120" "0 \<le> delay" "delay \<le> 2" "0 \<le> gap" "gap \<le> 200"
    using rng_range_bounds [of 1 120 x] rng_range_bounds [of 0 2 x1] rng_range_bounds [of 0 200 x3] l de g
    by simp_all
  let ?y = "\<lparr>tx_issued_at = as_u64 i, tx_expires_at = as_u64 (i + l), tx_journaled = True\<rparr>"
  let ?d = "\<lparr>d_transmission = t, d_arrives_at = as_u64 (i + delay), d_lock_at = None, d_hold_for = 1,
      d_answer_to_web = \<not> lost, d_crash_after_record = False\<rparr>"
  have eq: "txs = ?y # ys" "ds = ?d # es"
    using Suc.prems(1) by (simp_all add: l de lo g r)
  have y: "tx_ok ?y" by (rule tx_ok_drawn) (use b Suc.prems in auto)
  have first: "as_u64 i \<le> as_u64 (i + delay)" by (rule as_u64_mono) (use b Suc.prems in auto)
  have rest: "(\<forall>y \<in> set ys. tx_ok y) \<and>
     (\<forall>d \<in> set es. \<exists>k < length ys. d_transmission d = Suc t + k \<and> tx_issued_at (ys ! k) \<le> d_arrives_at d)"
    by (rule Suc.IH [OF r]) (use b Suc.prems in auto)
  have "\<exists>k < length txs. d_transmission d = t + k \<and> tx_issued_at (txs ! k) \<le> d_arrives_at d"
    if "d \<in> set ds" for d
  proof (cases "d = ?d")
    case True
    then show ?thesis using first eq by (intro exI [of _ 0]) simp
  next
    case False
    then have "d \<in> set es" using that eq by simp
    then obtain k where "k < length ys" "d_transmission d = Suc t + k" "tx_issued_at (ys ! k) \<le> d_arrives_at d"
      using rest by blast
    then show ?thesis using eq by (intro exI [of _ "Suc k"]) simp
  qed
  then show ?case using y rest eq by simp
qed simp

lemma random_recovery_scenario_ok: "scenario_ok (fst (random_recovery_scenario x))"
proof -
  obtain s x' where s: "random_recovery_scenario x = (s, x')" by fastforce
  let ?first = "\<lambda>l. \<lparr>tx_issued_at = as_u64 schedule_t0, tx_expires_at = as_u64 (schedule_t0 + l), tx_journaled = True\<rparr>"
  obtain l x1 where 1: "rng_range 1 120 x = (l, x1)" by fastforce
  obtain a0 x2 where 2: "draw_at 0 2 x1 = (a0, x2)" by fastforce
  obtain lost x3 where 3: "rng_chance 70 x2 = (lost, x3)" by fastforce
  obtain crash x4 where 4: "rng_chance 20 x3 = (crash, x4)" by fastforce
  define d0 where "d0 = \<lparr>d_transmission = 0, d_arrives_at = a0, d_lock_at = None, d_hold_for = 1,
      d_answer_to_web = \<not> lost, d_crash_after_record = crash\<rparr>"
  obtain again x5 where 5: "rng_chance 25 x4 = (again, x5)" by fastforce
  obtain copies x6 where 6: "(if again then
               (let (a1, y) = draw_at 3 90 x5
                in ([\<lparr>d_transmission = 0, d_arrives_at = a1, d_lock_at = None, d_hold_for = 1,
                      d_answer_to_web = False, d_crash_after_record = False\<rparr>], y))
             else ([], x5)) = (copies, x6)" by fastforce
  obtain moment x7 where 7: "draw_at 5 400 x6 = (moment, x7)" by fastforce
  obtain far x8 where 8: "rng_range 0 1 x7 = (far, x8)" by fastforce
  obtain off x9 where 9: "rng_range 0 300 x8 = (off, x9)" by fastforce
  obtain n x10 where 10: "rng_range 1 3 x9 = (n, x10)" by fastforce
  obtain txs ds x11 where 11: "draw_resends (nat n) 1 (schedule_t0 + l + 60 + far * off) x10 = ((txs, ds), x11)"
    by (metis surj_pair)
  obtain rc x12 where 12: "draw_recovery moment 100 x11 = (rc, x12)" by fastforce
  have fields: "sc_transmissions s = ?first l # txs \<and> sc_deliveries s = d0 # copies @ ds \<and> sc_recoveries s = [rc]"
    using s unfolding random_recovery_scenario_def Let_def 1 2 3 4 5 prod.case
    unfolding 6 [unfolded Let_def] 7 8 9 10 prod.case unfolding 11 12 prod.case d0_def [symmetric]
    by (auto split: prod.splits)
  have cp: "copies = [] \<or> (\<exists>a1 y d1. draw_at 3 90 x5 = (a1, y) \<and> copies = [d1] \<and> d_transmission d1 = 0 \<and> d_arrives_at d1 = a1)"
    using 6 by (auto simp: Let_def split: if_splits prod.splits)
  have dd: "d_transmission d0 = 0 \<and> d_arrives_at d0 = a0" by (simp add: d0_def)
  note d = 1 2 dd cp 7 8 9 10 11 12 fields [THEN conjunct1] fields [THEN conjunct2, THEN conjunct1]
    fields [THEN conjunct2, THEN conjunct2]
  have b: "1 \<le> l" "l \<le> 120" "0 \<le> far" "far \<le> 1" "0 \<le> off" "off \<le> 300" "1 \<le> n" "n \<le> 3"
    using rng_range_bounds [of 1 120 x] rng_range_bounds [of 0 1 x7] rng_range_bounds [of 0 300 x8]
      rng_range_bounds [of 1 3 x9] d(1,6,7,8) by simp_all
  then have "far = 0 \<or> far = 1" by linarith
  then have "0 \<le> far * off" "far * off \<le> 1 * 300" using b by auto
  then have r: "(\<forall>y \<in> set txs. tx_ok y) \<and>
     (\<forall>d \<in> set ds. \<exists>k < length txs. d_transmission d = 1 + k \<and> tx_issued_at (txs ! k) \<le> d_arrives_at d)"
    using b by (intro draw_resends_ok [OF d(9)]) (auto simp: schedule_t0_def)
  have first: "tx_ok (?first l)" by (rule tx_ok_drawn) (use b in \<open>auto simp: schedule_t0_def\<close>)
  have t0: "as_u64 schedule_t0 = nat schedule_t0" by (simp add: as_u64_small schedule_t0_def)
  have early: "as_u64 schedule_t0 \<le> d_arrives_at e" if "e = d0 \<or> e \<in> set copies" for e
  proof -
    have "schedule_t0 \<le> int a0" using draw_at_bounds(1) [OF d(2)] by simp
    moreover have "schedule_t0 \<le> int a1" if "draw_at 3 90 x5 = (a1, y)" for a1 y
      using draw_at_bounds(1) [OF that] by simp
    ultimately have "schedule_t0 \<le> int (d_arrives_at e)" using that d(3,4) by auto
    then show ?thesis by (simp add: t0)
  qed
  have "deliveries_ok (?first l # txs) (d0 # copies @ ds)"
    unfolding deliveries_ok_def
  proof
    fix e assume "e \<in> set (d0 # copies @ ds)"
    then consider (a) "e = d0 \<or> e \<in> set copies" | (b) "e \<in> set ds" by auto
    then show "d_transmission e < length (?first l # txs) \<and>
        tx_issued_at ((?first l # txs) ! d_transmission e) \<le> d_arrives_at e"
    proof cases
      case a
      then have "d_transmission e = 0" using d(3,4) by auto
      then show ?thesis using early [OF a] by simp
    next
      case b
      then obtain k where "k < length txs" "d_transmission e = 1 + k" "tx_issued_at (txs ! k) \<le> d_arrives_at e"
        using r by blast
      then show ?thesis by simp
    qed
  qed
  moreover have "rec_at rc \<le> 9999999999"
    using draw_recovery_at [OF d(10)] draw_at_bounds(2) [OF d(5)] by (simp add: schedule_t0_def)
  ultimately have "scenario_ok s" using r first d(11-13) by (intro scenario_okI) auto
  then show ?thesis using s by simp
qed

section \<open>Properties\<close>

lemma normative_ordering_registry: "ordering_registry normative_registry"
  by (simp add: ordering_registry_def normative_codes) (simp add: code_entry_def)

text \<open>The recovery that keeps a binding and forgets its operation.\<close>

definition forgotten_operation :: scenario where
  "forgotten_operation =
     \<lparr>sc_transmissions =
        [\<lparr>tx_issued_at = 1791000000, tx_expires_at = 1791000060, tx_journaled = True\<rparr>,
         \<lparr>tx_issued_at = 1791000400, tx_expires_at = 1791000460, tx_journaled = True\<rparr>],
      sc_deliveries =
        [\<lparr>d_transmission = 0, d_arrives_at = 1791000001, d_lock_at = None, d_hold_for = 1,
          d_answer_to_web = False, d_crash_after_record = False\<rparr>,
         \<lparr>d_transmission = 1, d_arrives_at = 1791000401, d_lock_at = None, d_hold_for = 1,
          d_answer_to_web = True, d_crash_after_record = False\<rparr>],
      sc_clock = [(0, 0)], sc_quota = [(1791000000, 1791000100)], sc_restarts = [], sc_housekeeping = [],
      sc_key_trusted_from = 0,
      sc_recoveries = [\<lparr>rec_at = 1791000200, rec_ledger = True, rec_identity = False,
        rec_nonces = False, rec_fence = False, rec_fence_to = 0\<rparr>]\<rparr>"

lemma forgotten_ok: "scenario_ok forgotten_operation"
  by (simp add: forgotten_operation_def scenario_ok_def)

lemma sim_loop_step:
  assumes "in_order es = e # rest" "handle_event r s e st = (st', new)"
  shows "sim_loop r s es st = sim_loop r s (rest @ new) st'"
  by (subst sim_loop.simps) (simp add: assms)

lemma sim_loop_end: "sim_loop r s [] st = st"
  by (subst sim_loop.simps) (simp add: in_order_def)

definition forgotten_state :: "string list \<Rightarrow> nat list \<Rightarrow> (nat \<times> nat) list \<Rightarrow> nat \<Rightarrow>
    (string \<times> nat) option \<Rightarrow> nat option \<Rightarrow> bool \<Rightarrow> nat \<Rightarrow> sim" where
  "forgotten_state as ts ns f op bound known release =
     \<lparr>sm_answers = as, sm_answered_at = ts, sm_nonces = ns, sm_fence = f, sm_pending_fence = None,
      sm_operation = op, sm_bound = bound, sm_failed_closed = False, sm_profile_known = known,
      sm_last_release = release\<rparr>"

lemma forgotten_steps:
  "handle_event rules_r3 forgotten_operation (1791000001, Arrive, 0)
     (forgotten_state [[], []] [0, 0] [] 0 None None False 0) =
   (forgotten_state [[], []] [0, 0] [(0, 1791000060)] 0 None None False 0, [(1791000001, Lock, 0)])"
  "handle_event rules_r3 forgotten_operation (1791000001, Lock, 0)
     (forgotten_state [[], []] [0, 0] [(0, 1791000060)] 0 None None False 0) =
   (forgotten_state [''OPERATION:completed'', []] [1791000002, 0] [(0, 1791000060)] 1790999970
      (Some (''completed'', 0)) (Some 0) True 1791000002, [])"
  "handle_event rules_r3 forgotten_operation (1791000200, Restore, 0)
     (forgotten_state [''OPERATION:completed'', []] [1791000002, 0] [(0, 1791000060)] 1790999970
      (Some (''completed'', 0)) (Some 0) True 1791000002) =
   (forgotten_state [''OPERATION:completed'', []] [1791000002, 0] [(0, 1791000060)] 1791000350
      None (Some 0) True 1791000002, [])"
  "handle_event rules_r3 forgotten_operation (1791000401, Arrive, Suc 0)
     (forgotten_state [''OPERATION:completed'', []] [1791000002, 0] [(0, 1791000060)] 1791000350
      None (Some 0) True 1791000002) =
   (forgotten_state [''OPERATION:completed'', []] [1791000002, 0] [(0, 1791000060), (Suc 0, 1791000460)] 1791000350
      None (Some 0) True 1791000002, [(1791000401, Lock, Suc 0)])"
  "handle_event rules_r3 forgotten_operation (1791000401, Lock, Suc 0)
     (forgotten_state [''OPERATION:completed'', []] [1791000002, 0] [(0, 1791000060), (Suc 0, 1791000460)] 1791000350
      None (Some 0) True 1791000002) =
   (forgotten_state [''OPERATION:completed'', ''QUOTA_EXCEEDED''] [1791000002, 1791000402]
      [(0, 1791000060), (Suc 0, 1791000460)] 1791000370 None (Some 0) True 1791000402, [])"
  by (simp_all add: forgotten_state_def forgotten_operation_def handle_event_def settle_fence_def
      arrive_def arrival_refusal_def take_lock_def execute_create_def advance_fence_def restore_def
      harness_clock_def quota_free_def skew_def wrap_add64_def u64_max_def as_u64_def rules_r3_def)

lemma forgotten_loop:
  "sim_loop rules_r3 forgotten_operation (initial_events forgotten_operation) (initial_sim forgotten_operation) =
   forgotten_state [''OPERATION:completed'', ''QUOTA_EXCEEDED''] [1791000002, 1791000402]
      [(0, 1791000060), (Suc 0, 1791000460)] 1791000370 None (Some 0) True 1791000402"
proof -
  have start: "initial_sim forgotten_operation = forgotten_state [[], []] [0, 0] [] 0 None None False 0"
    by (simp add: initial_sim_def forgotten_operation_def forgotten_state_def)
  have events: "initial_events forgotten_operation =
      [(1791000200, Restore, 0), (1791000001, Arrive, 0), (1791000401, Arrive, Suc 0)]"
    by (simp add: initial_events_def forgotten_operation_def)
  have orders:
    "in_order [(1791000200, Restore, 0), (1791000001, Arrive, 0), (1791000401, Arrive, Suc 0)] =
       (1791000001, Arrive, 0) # [(1791000200, Restore, 0), (1791000401, Arrive, Suc 0)]"
    "in_order [(1791000200, Restore, 0), (1791000401, Arrive, Suc 0), (1791000001, Lock, 0)] =
       (1791000001, Lock, 0) # [(1791000200, Restore, 0), (1791000401, Arrive, Suc 0)]"
    "in_order [(1791000200, Restore, 0), (1791000401, Arrive, Suc 0)] =
       (1791000200, Restore, 0) # [(1791000401, Arrive, Suc 0)]"
    "in_order [(1791000401, Arrive, Suc 0)] = (1791000401, Arrive, Suc 0) # []"
    "in_order [(1791000401, Lock, Suc 0)] = (1791000401, Lock, Suc 0) # []"
    by (simp_all add: in_order_def)
  show ?thesis
    by (simp only: start events sim_loop_step [OF orders(1) forgotten_steps(1)]
        sim_loop_step [OF orders(2) forgotten_steps(2)] sim_loop_step [OF orders(3) forgotten_steps(3)]
        sim_loop_step [OF orders(4) forgotten_steps(4)] sim_loop_step [OF orders(5) forgotten_steps(5)]
        sim_loop_end append_Nil append_Cons append_Nil2)
qed

lemma forgotten_conclusion:
  "resolve_at normative_registry rules_r3 forgotten_operation
     (forgotten_state [''OPERATION:completed'', ''QUOTA_EXCEEDED''] [1791000002, 1791000402]
       [(0, 1791000060), (Suc 0, 1791000460)] 1791000370 None (Some 0) True 1791000402) (Some 1791000402) =
   Failed ''QUOTA_EXCEEDED''"
proof -
  let ?st = "forgotten_state [''OPERATION:completed'', ''QUOTA_EXCEEDED''] [1791000002, 1791000402]
       [(0, 1791000060), (Suc 0, 1791000460)] 1791000370 None (Some 0) True 1791000402"
  have answers: "answer_to forgotten_operation ?st (Some 1791000402) 0 = None"
    "answer_to forgotten_operation ?st (Some 1791000402) (Suc 0) = Some ''QUOTA_EXCEEDED''"
    by (simp_all add: answer_to_def forgotten_operation_def forgotten_state_def by_moment_def)
  have rows: "visible_rows rules_r3 forgotten_operation = [0, Suc 0]"
    by (simp add: visible_rows_def rules_r3_def forgotten_operation_def)
  have stamps: "issued forgotten_operation 0 = 1791000000" "expires forgotten_operation 0 = 1791000060"
    "issued forgotten_operation (Suc 0) = 1791000400" "expires forgotten_operation (Suc 0) = 1791000460"
    by (simp_all add: forgotten_operation_def)
  have js: "map (\<lambda>t. \<lparr>t_issued_at = issued forgotten_operation t, t_expires_at = expires forgotten_operation t,
                   t_outcome = sim_outcome (answer_to forgotten_operation ?st (Some 1791000402) t)\<rparr>)
         (filter (\<lambda>t. by_moment (issued forgotten_operation t) (Some 1791000402))
           (visible_rows rules_r3 forgotten_operation)) =
      [\<lparr>t_issued_at = 1791000000, t_expires_at = 1791000060, t_outcome = Uncertain\<rparr>,
       \<lparr>t_issued_at = 1791000400, t_expires_at = 1791000460, t_outcome = Refused ''QUOTA_EXCEEDED''\<rparr>]"
    unfolding rows by (simp add: answers stamps sim_outcome_def by_moment_def strip_prefix_def is_prefix_of_def)
  show ?thesis
    unfolding resolve_at_def js
    by (simp add: rules_r3_def resolve_create_job_with_def resolve_refusals_def resolve_open_def
        merits_of_def ruled_out_def is_open_def class_of_def create_resolution_def normative_codes code_entry_def
        acceptance_horizon_seconds_def wrap_add64_def u64_max_def)
qed

lemma forgotten_r3: "map_option or_unsafe (simulate normative_registry forgotten_operation rules_r3) = Some True"
proof -
  let ?st = "forgotten_state [''OPERATION:completed'', ''QUOTA_EXCEEDED''] [1791000002, 1791000402]
       [(0, 1791000060), (Suc 0, 1791000460)] 1791000370 None (Some 0) True 1791000402"
  have moment: "moments forgotten_operation ?st = [1791000402]"
    by (simp add: moments_def forgotten_operation_def forgotten_state_def)
  have "sm_operation ?st = None" "sm_bound ?st = Some 0" by (simp_all add: forgotten_state_def)
  moreover have "issued forgotten_operation 0 \<le> 1791000402" by (simp add: forgotten_operation_def)
  moreover have "\<not> (\<exists>d \<in> set (sc_deliveries forgotten_operation).
      length (sc_transmissions forgotten_operation) \<le> d_transmission d)"
    by (simp add: forgotten_operation_def)
  ultimately show ?thesis
    by (simp add: simulate_def forgotten_loop moment forgotten_conclusion is_failed_def Let_def)
qed

text \<open>
  C12. Invariant S holds under the rules R4 for every scenario within the limits, whatever the
  order, duplication, loss and delay of the deliveries, the clock, the restarts, the housekeeping
  and any number of partial recoveries: the run ends, and Web never concludes \<open>Failed\<close> while an
  operation or a binding exists from a transmission it had issued by then. Under R3 a recovery
  that forgets an operation violates it.
\<close>

theorem invariant_s_holds_under_r4:
  assumes "scenario_ok s" "ordering_registry r"
  shows "(\<exists>res. simulate r s rules_r4 = Some res \<and>
      \<not> (\<exists>m. or_failed_at res = Some m \<and>
          ((\<exists>state who. or_operation res = Some (state, who) \<and> issued s who \<le> m) \<or>
           (\<exists>who. or_binding res = Some who \<and> issued s who \<le> m))) \<and> \<not> violates_s res) \<and>
    map_option violates_s (simulate normative_registry forgotten_operation rules_r3) = Some True"
proof (intro conjI)
  obtain res where res: "simulate r s rules_r4 = Some res" "\<not> or_unsafe res"
    using simulated_safe [OF assms] by blast
  have "or_unsafe res \<longleftrightarrow> (\<exists>m. or_failed_at res = Some m \<and>
          ((\<exists>state who. or_operation res = Some (state, who) \<and> issued s who \<le> m) \<or>
           (\<exists>who. or_binding res = Some who \<and> issued s who \<le> m)))"
    using res(1) by (auto simp: simulate_def Let_def split: if_splits option.splits prod.splits)
  then show "\<exists>res. simulate r s rules_r4 = Some res \<and>
      \<not> (\<exists>m. or_failed_at res = Some m \<and>
          ((\<exists>state who. or_operation res = Some (state, who) \<and> issued s who \<le> m) \<or>
           (\<exists>who. or_binding res = Some who \<and> issued s who \<le> m))) \<and> \<not> violates_s res"
    using res by (auto simp: violates_s_def)
  show "map_option violates_s (simulate normative_registry forgotten_operation rules_r3) = Some True"
    using forgotten_r3 by (simp add: violates_s_def option.map_comp [symmetric] o_def)
qed

theorem invariant_s_holds_under_r4_witness:
  "scenario_ok forgotten_operation \<and>
    (\<exists>res. simulate normative_registry forgotten_operation rules_r4 = Some res \<and> \<not> violates_s res)"
  using invariant_s_holds_under_r4 [OF forgotten_ok normative_ordering_registry] forgotten_ok by blast

text \<open>Every scenario of the two generators is safe, whatever the seed.\<close>

theorem generated_scenarios_are_safe:
  "(\<exists>res. simulate normative_registry (fst (random_scenario seed with_recovery)) rules_r4 = Some res \<and>
      \<not> violates_s res) \<and>
    (\<exists>res. simulate normative_registry (fst (random_recovery_scenario seed)) rules_r4 = Some res \<and>
      \<not> violates_s res)"
  using simulated_safe [OF random_scenario_ok normative_ordering_registry]
    simulated_safe [OF random_recovery_scenario_ok normative_ordering_registry]
  by (simp add: violates_s_def)

end
