(* ===== verification/WireJson.thy ===== *)
theory WireJson
  imports SseDecoder
begin

text \<open>
  The JSON layer of the provisioning protocol (\<open>lib.rs\<close> of the crate
  \<open>lightagent-protocol-conformance\<close>): the strict parser with its depth limit, the checks on
  duplicates and on the value profile, and the canonical serialization (RFC 8785). A text is the
  list of its bytes; the parser's position is the input that is left.
\<close>

section \<open>Values\<close>

datatype wvalue =
    WNull
  | WBool bool
  | WNumber string
  | WString string
  | WArray "wvalue list"
  | WObject "(string \<times> wvalue) list"

fun member :: "string \<Rightarrow> wvalue \<Rightarrow> wvalue option" where
  "member name (WObject ms) = map_option snd (find (\<lambda>(k, _). k = name) ms)"
| "member name _ = None"

fun str_of :: "wvalue \<Rightarrow> string option" where
  "str_of (WString s) = Some s"
| "str_of _ = None"

section \<open>The scanner\<close>

definition max_message_bytes :: nat where
  "max_message_bytes = 8192"

definition max_nesting_depth :: nat where
  "max_nesting_depth = 16"

definition is_ws :: "char \<Rightarrow> bool" where
  "is_ws c \<longleftrightarrow> c \<in> {CHR 0x20, CHR 0x09, CHR 0x0A, CHR 0x0D}"

definition p_ws :: "string \<Rightarrow> string" where
  "p_ws s = dropWhile is_ws s"

fun p_expect :: "char \<Rightarrow> string \<Rightarrow> string option" where
  "p_expect b [] = None"
| "p_expect b (c # r) = (if c = b then Some r else None)"

definition p_literal :: "string \<Rightarrow> wvalue \<Rightarrow> string \<Rightarrow> (wvalue \<times> string) option" where
  "p_literal word v s =
     (if is_prefix_of word s then Some (v, drop (length word) s) else None)"

definition hex_digit :: "char \<Rightarrow> nat option" where
  "hex_digit c =
     (if is_digit c then Some (of_char c - 48)
      else if CHR ''a'' \<le> c \<and> c \<le> CHR ''f'' then Some (of_char c - 87)
      else if CHR ''A'' \<le> c \<and> c \<le> CHR ''F'' then Some (of_char c - 55)
      else None)"

fun p_hex4 :: "string \<Rightarrow> (nat \<times> string) option" where
  "p_hex4 (a # b # c # d # r) =
     (case (hex_digit a, hex_digit b, hex_digit c, hex_digit d) of
        (Some w, Some x, Some y, Some z) \<Rightarrow> Some (((w * 16 + x) * 16 + y) * 16 + z, r)
      | _ \<Rightarrow> None)"
| "p_hex4 _ = None"

text \<open>After \<open>\u\<close>: one scalar value, from one escape or a surrogate pair.\<close>

definition p_unicode_escape :: "string \<Rightarrow> (nat \<times> string) option" where
  "p_unicode_escape s =
     (case p_hex4 s of
        None \<Rightarrow> None
      | Some (first, r) \<Rightarrow>
          if 0xD800 \<le> first \<and> first \<le> 0xDBFF then
            (case Option.bind (p_expect (CHR 0x5C) r) (p_expect (CHR ''u'')) of
               None \<Rightarrow> None
             | Some r1 \<Rightarrow>
                 (case p_hex4 r1 of
                    None \<Rightarrow> None
                  | Some (low, r2) \<Rightarrow>
                      if 0xDC00 \<le> low \<and> low \<le> 0xDFFF
                      then Some (0x10000 + (first - 0xD800) * 1024 + (low - 0xDC00), r2)
                      else None))
          else if 0xDC00 \<le> first \<and> first \<le> 0xDFFF then None
          else Some (first, r))"

text \<open>\<open>char::encode_utf8\<close> of a scalar value.\<close>

definition encode_utf8 :: "nat \<Rightarrow> string" where
  "encode_utf8 n =
     (if n < 0x80 then [char_of n]
      else if n < 0x800 then [char_of (0xC0 + n div 64), char_of (0x80 + n mod 64)]
      else if n < 0x10000 then
        [char_of (0xE0 + n div 4096), char_of (0x80 + n div 64 mod 64), char_of (0x80 + n mod 64)]
      else [char_of (0xF0 + n div 262144), char_of (0x80 + n div 4096 mod 64),
            char_of (0x80 + n div 64 mod 64), char_of (0x80 + n mod 64)])"

definition simple_escape :: "char \<Rightarrow> char option" where
  "simple_escape e =
     (if e = CHR 0x22 then Some (CHR 0x22)
      else if e = CHR 0x5C then Some (CHR 0x5C)
      else if e = CHR ''/'' then Some (CHR ''/'')
      else if e = CHR ''b'' then Some (CHR 0x08)
      else if e = CHR ''f'' then Some (CHR 0x0C)
      else if e = CHR ''n'' then Some (CHR 0x0A)
      else if e = CHR ''r'' then Some (CHR 0x0D)
      else if e = CHR ''t'' then Some (CHR 0x09)
      else None)"

lemma p_hex4_shrinks: "p_hex4 s = Some (n, r) \<Longrightarrow> length r < length s"
  by (cases s rule: p_hex4.cases) (auto split: option.splits)

lemma p_expect_Some: "p_expect b s = Some r \<longleftrightarrow> s = b # r"
  by (cases s) auto

lemma p_unicode_escape_shrinks: "p_unicode_escape s = Some (n, r) \<Longrightarrow> length r < length s"
  by (fastforce simp: p_unicode_escape_def p_expect_Some bind_eq_Some_conv dest!: p_hex4_shrinks
      split: option.splits if_splits)

function p_chars :: "string \<Rightarrow> string \<Rightarrow> (string \<times> string) option" where
  "p_chars out [] = None"
| "p_chars out (b # r) =
     (if b = CHR 0x22 then Some (out, r)
      else if b = CHR 0x5C then
        (case r of
           [] \<Rightarrow> None
         | e # r1 \<Rightarrow>
             if e = CHR ''u'' then
               (case p_unicode_escape r1 of
                  None \<Rightarrow> None
                | Some (n, r2) \<Rightarrow> p_chars (out @ encode_utf8 n) r2)
             else (case simple_escape e of None \<Rightarrow> None | Some c \<Rightarrow> p_chars (out @ [c]) r1))
      else if b < CHR 0x20 then None
      else p_chars (out @ [b]) r)"
  by pat_completeness auto
termination
  by (relation "measure (\<lambda>(_, s). length s)") (auto dest!: p_unicode_escape_shrinks)

definition p_string :: "string \<Rightarrow> (string \<times> string) option" where
  "p_string s =
     (case p_expect (CHR 0x22) s of
        None \<Rightarrow> None
      | Some r \<Rightarrow>
          (case p_chars [] r of
             None \<Rightarrow> None
           | Some (out, r1) \<Rightarrow> if valid_utf8 out then Some (out, r1) else None))"

definition p_some_digits :: "string \<Rightarrow> string option" where
  "p_some_digits s =
     (let r = dropWhile is_digit s in if length r = length s then None else Some r)"

definition p_integer_part :: "string \<Rightarrow> string option" where
  "p_integer_part s =
     (case s of
        [] \<Rightarrow> None
      | c # r \<Rightarrow>
          if c = CHR ''0'' then Some r
          else if is_digit c then Some (dropWhile is_digit r)
          else None)"

definition p_fraction :: "string \<Rightarrow> string option" where
  "p_fraction s = (case s of c # r \<Rightarrow> if c = CHR ''.'' then p_some_digits r else Some s | [] \<Rightarrow> Some s)"

definition p_exponent :: "string \<Rightarrow> string option" where
  "p_exponent s =
     (case s of
        c # r \<Rightarrow>
          if c \<in> {CHR ''e'', CHR ''E''} then
            p_some_digits
              (case r of d # r1 \<Rightarrow> if d \<in> {CHR ''+'', CHR ''-''} then r1 else r | [] \<Rightarrow> r)
          else Some s
      | [] \<Rightarrow> Some s)"

definition p_number :: "string \<Rightarrow> (wvalue \<times> string) option" where
  "p_number s =
     (let s1 = (case s of c # r \<Rightarrow> if c = CHR ''-'' then r else s | [] \<Rightarrow> s)
      in case Option.bind (Option.bind (p_integer_part s1) p_fraction) p_exponent of
           None \<Rightarrow> None
         | Some r \<Rightarrow> Some (WNumber (take (length s - length r) s), r))"

section \<open>The parser\<close>

text \<open>
  The recursion of the source is on the position; here it is on a fuel, which every value and
  every turn of a loop spends. The lemma \<open>fuel_suffices\<close> shows that more than twice the length of the
  input is always enough, so the \<open>None\<close> of an empty fuel is never what the parser answers.
\<close>

fun p_value :: "nat \<Rightarrow> nat \<Rightarrow> string \<Rightarrow> (wvalue \<times> string) option"
  and p_members :: "nat \<Rightarrow> nat \<Rightarrow> (string \<times> wvalue) list \<Rightarrow> string \<Rightarrow> (wvalue \<times> string) option"
  and p_items :: "nat \<Rightarrow> nat \<Rightarrow> wvalue list \<Rightarrow> string \<Rightarrow> (wvalue \<times> string) option" where
  "p_value 0 d s = None"
| "p_value (Suc n) d s =
     (case s of
        [] \<Rightarrow> None
      | c # r \<Rightarrow>
          if c = CHR ''{'' then
            (if max_nesting_depth < d then None
             else case p_expect (CHR ''}'') (p_ws r) of
                 Some r1 \<Rightarrow> Some (WObject [], r1)
               | None \<Rightarrow> p_members n d [] (p_ws r))
          else if c = CHR ''['' then
            (if max_nesting_depth < d then None
             else case p_expect (CHR '']'') (p_ws r) of
                 Some r1 \<Rightarrow> Some (WArray [], r1)
               | None \<Rightarrow> p_items n d [] (p_ws r))
          else if c = CHR 0x22 then map_option (\<lambda>(t, r1). (WString t, r1)) (p_string s)
          else if c = CHR ''t'' then p_literal ''true'' (WBool True) s
          else if c = CHR ''f'' then p_literal ''false'' (WBool False) s
          else if c = CHR ''n'' then p_literal ''null'' WNull s
          else if c = CHR ''-'' \<or> is_digit c then p_number s
          else None)"
| "p_members 0 d acc s = None"
| "p_members (Suc n) d acc s =
     (case p_string (p_ws s) of
        None \<Rightarrow> None
      | Some (k, s1) \<Rightarrow>
          (case p_expect (CHR '':'') (p_ws s1) of
             None \<Rightarrow> None
           | Some s2 \<Rightarrow>
               (case p_value n (Suc d) (p_ws s2) of
                  None \<Rightarrow> None
                | Some (v, s3) \<Rightarrow>
                    (case p_ws s3 of
                       [] \<Rightarrow> None
                     | c # s4 \<Rightarrow>
                         if c = CHR '','' then p_members n d (acc @ [(k, v)]) s4
                         else if c = CHR ''}'' then Some (WObject (acc @ [(k, v)]), s4)
                         else None))))"
| "p_items 0 d acc s = None"
| "p_items (Suc n) d acc s =
     (case p_value n (Suc d) (p_ws s) of
        None \<Rightarrow> None
      | Some (v, s3) \<Rightarrow>
          (case p_ws s3 of
             [] \<Rightarrow> None
           | c # s4 \<Rightarrow>
               if c = CHR '','' then p_items n d (acc @ [v]) s4
               else if c = CHR '']'' then Some (WArray (acc @ [v]), s4)
               else None))"

definition malformed :: string where
  "malformed = ''MALFORMED_JSON''"

definition parse_strict :: "string \<Rightarrow> string + wvalue" where
  "parse_strict body =
     (if is_prefix_of [CHR 0xEF, CHR 0xBB, CHR 0xBF] body \<or> \<not> valid_utf8 body then Inl malformed
      else case p_value (2 * length body + 1) 1 (p_ws body) of
          None \<Rightarrow> Inl malformed
        | Some (v, r) \<Rightarrow> if p_ws r = [] then Inr v else Inl malformed)"

section \<open>Duplicates and the value profile\<close>

fun has_duplicate :: "wvalue \<Rightarrow> bool"
  and duplicate_member :: "string list \<Rightarrow> (string \<times> wvalue) list \<Rightarrow> bool"
  and duplicate_in_items :: "wvalue list \<Rightarrow> bool" where
  "has_duplicate (WObject ms) = duplicate_member [] ms"
| "has_duplicate (WArray vs) = duplicate_in_items vs"
| "has_duplicate (WString _) = False"
| "has_duplicate (WNumber _) = False"
| "has_duplicate (WBool _) = False"
| "has_duplicate WNull = False"
| "duplicate_member seen [] = False"
| "duplicate_member seen ((k, v) # ms) =
     (k \<in> set seen \<or> has_duplicate v \<or> duplicate_member (k # seen) ms)"
| "duplicate_in_items [] = False"
| "duplicate_in_items (v # vs) = (has_duplicate v \<or> duplicate_in_items vs)"

definition max_safe_integer :: nat where
  "max_safe_integer = 2 ^ 53 - 1"

text \<open>\<open>str::parse::<u64>\<close> of a text of digits.\<close>

definition digits_value :: "string \<Rightarrow> nat" where
  "digits_value s = foldl (\<lambda>n c. n * 10 + (of_char c - 48)) 0 s"

definition canonical_integer :: "string \<Rightarrow> bool" where
  "canonical_integer s \<longleftrightarrow>
     s = ''0'' \<or> (s \<noteq> [] \<and> CHR ''1'' \<le> hd s \<and> hd s \<le> CHR ''9'' \<and> list_all is_digit s)"

definition safe_integer :: "string \<Rightarrow> nat option" where
  "safe_integer s =
     (if \<not> canonical_integer s \<or> 16 < length s then None
      else if digits_value s \<le> max_safe_integer then Some (digits_value s) else None)"

fun in_value_profile :: "wvalue \<Rightarrow> bool" where
  "in_value_profile (WObject ms) = (\<forall>v \<in> set (map snd ms). in_value_profile v)"
| "in_value_profile (WString _) = True"
| "in_value_profile (WNumber s) = (safe_integer s \<noteq> None)"
| "in_value_profile _ = False"

section \<open>The canonical form\<close>

text \<open>
  \<open>str::encode_utf16\<close> of a text that is UTF-8: the scalar value of each character, and its one
  or two code units.
\<close>

definition scalar_of :: "string \<Rightarrow> nat" where
  "scalar_of cs =
     (case map of_char cs of
        [a] \<Rightarrow> a
      | [a, b] \<Rightarrow> (a - 0xC0) * 64 + (b - 0x80)
      | [a, b, c] \<Rightarrow> ((a - 0xE0) * 64 + (b - 0x80)) * 64 + (c - 0x80)
      | [a, b, c, d] \<Rightarrow> (((a - 0xF0) * 64 + (b - 0x80)) * 64 + (c - 0x80)) * 64 + (d - 0x80)
      | _ \<Rightarrow> 0)"

definition code_units :: "nat \<Rightarrow> nat list" where
  "code_units n =
     (if n < 0x10000 then [n]
      else [0xD800 + (n - 0x10000) div 1024, 0xDC00 + (n - 0x10000) mod 1024])"

function utf16_units :: "string \<Rightarrow> nat list" where
  "utf16_units s =
     (if s = [] then []
      else code_units (scalar_of (take (fst (utf8_head s)) s)) @
        utf16_units (drop (fst (utf8_head s)) s))"
  by pat_completeness auto
termination
  by (relation "measure length") (auto intro: utf8_head_shrinks)

declare utf16_units.simps [simp del]

definition hex_char :: "nat \<Rightarrow> char" where
  "hex_char n = char_of (if n < 10 then 48 + n else 87 + n)"

text \<open>
  \<open>write_jcs_string\<close>: the characters that are escaped are single bytes below \<open>0x80\<close>, and the
  bytes of every other character are copied, so the escape is one per byte.
\<close>

definition jcs_escape :: "char \<Rightarrow> string" where
  "jcs_escape c =
     (if c = CHR 0x22 then [CHR 0x5C, CHR 0x22]
      else if c = CHR 0x5C then [CHR 0x5C, CHR 0x5C]
      else if c = CHR 0x08 then [CHR 0x5C, CHR ''b'']
      else if c = CHR 0x09 then [CHR 0x5C, CHR ''t'']
      else if c = CHR 0x0A then [CHR 0x5C, CHR ''n'']
      else if c = CHR 0x0C then [CHR 0x5C, CHR ''f'']
      else if c = CHR 0x0D then [CHR 0x5C, CHR ''r'']
      else if c < CHR 0x20 then
        [CHR 0x5C, CHR ''u'', CHR ''0'', CHR ''0'', hex_char (of_char c div 16),
         hex_char (of_char c mod 16)]
      else [c])"

definition jcs_string :: "string \<Rightarrow> string" where
  "jcs_string s = [CHR 0x22] @ concat (map jcs_escape s) @ [CHR 0x22]"

fun join_comma :: "string list \<Rightarrow> string" where
  "join_comma [] = []"
| "join_comma [x] = x"
| "join_comma (x # y # xs) = x @ [CHR '',''] @ join_comma (y # xs)"

text \<open>The members are written in the order of their names; the sort only looks at the names.\<close>

definition by_name :: "(string \<times> 'a) list \<Rightarrow> (string \<times> 'a) list" where
  "by_name ms = sort_key (\<lambda>m. utf16_units (fst m)) ms"

fun jcs :: "wvalue \<Rightarrow> string" where
  "jcs (WObject ms) =
     [CHR ''{''] @
     join_comma (map (\<lambda>(k, t). jcs_string k @ [CHR '':''] @ t)
       (by_name (map (\<lambda>(k, v). (k, jcs v)) ms))) @ [CHR ''}'']"
| "jcs (WArray vs) = [CHR ''[''] @ join_comma (map jcs vs) @ [CHR '']'']"
| "jcs (WString s) = jcs_string s"
| "jcs (WNumber s) = s"
| "jcs (WBool b) = (if b then ''true'' else ''false'')"
| "jcs WNull = ''null''"

section \<open>The fuel\<close>

lemma p_ws_le: "length (p_ws s) \<le> length s"
  by (simp add: p_ws_def length_dropWhile_le)

lemma p_expect_shrinks: "p_expect b s = Some r \<Longrightarrow> length r < length s"
  by (simp add: p_expect_Some)

lemma p_chars_shrinks: "p_chars out s = Some (t, r) \<Longrightarrow> length r < length s"
proof (induction out s rule: p_chars.induct)
  case (2 out b r0)
  then show ?case
    by (auto split: if_splits list.splits option.splits prod.splits dest!: p_unicode_escape_shrinks)
      fastforce+
qed simp

lemma p_string_shrinks: "p_string s = Some (t, r) \<Longrightarrow> length r < length s"
  by (fastforce simp: p_string_def dest!: p_expect_shrinks p_chars_shrinks
      split: option.splits if_splits)

lemma dropWhile_less: "s \<noteq> [] \<Longrightarrow> P (hd s) \<Longrightarrow> length (dropWhile P s) < length s"
  by (cases s) (auto simp: le_imp_less_Suc length_dropWhile_le)

lemma p_some_digits_le: "p_some_digits s = Some r \<Longrightarrow> length r \<le> length s"
  by (auto simp: p_some_digits_def Let_def length_dropWhile_le split: if_splits)

lemma p_integer_part_shrinks: "p_integer_part s = Some r \<Longrightarrow> length r < length s"
  by (auto simp: p_integer_part_def le_imp_less_Suc length_dropWhile_le split: list.splits if_splits)

lemma p_fraction_le: "p_fraction s = Some r \<Longrightarrow> length r \<le> length s"
  by (fastforce simp: p_fraction_def dest: p_some_digits_le split: list.splits if_splits)

lemma p_exponent_le: "p_exponent s = Some r \<Longrightarrow> length r \<le> length s"
  by (fastforce simp: p_exponent_def dest!: p_some_digits_le split: list.splits if_splits)

lemma p_number_shrinks:
  assumes "p_number s = Some (v, r)"
  shows "length r < length s"
proof -
  let ?s1 = "case s of c # r \<Rightarrow> if c = CHR ''-'' then r else s | [] \<Rightarrow> s"
  obtain a b where "p_integer_part ?s1 = Some a" "p_fraction a = Some b" "p_exponent b = Some r"
    using assms by (auto simp: p_number_def Let_def bind_eq_Some_conv split: option.splits)
  moreover have "length ?s1 \<le> length s" by (auto split: list.splits)
  ultimately show ?thesis
    using p_integer_part_shrinks p_fraction_le p_exponent_le by fastforce
qed

lemma p_literal_shrinks: "p_literal w v s = Some (v', r) \<Longrightarrow> w \<noteq> [] \<Longrightarrow> s \<noteq> [] \<Longrightarrow> length r < length s"
  by (auto simp: p_literal_def split: if_splits)

lemmas scan_shrinks = p_expect_shrinks p_string_shrinks p_number_shrinks p_literal_shrinks

lemma p_value_scalar:
  assumes "c \<noteq> CHR ''{''" "c \<noteq> CHR ''[''" "p_value (Suc n) d (c # t) = Some (v, r)"
  shows "length r < length (c # t)"
proof -
  have "(if c = CHR 0x22 then map_option (\<lambda>(t, r1). (WString t, r1)) (p_string (c # t))
      else if c = CHR ''t'' then p_literal ''true'' (WBool True) (c # t)
      else if c = CHR ''f'' then p_literal ''false'' (WBool False) (c # t)
      else if c = CHR ''n'' then p_literal ''null'' WNull (c # t)
      else if c = CHR ''-'' \<or> is_digit c then p_number (c # t) else None) = Some (v, r)"
    using assms by (simp only: p_value.simps list.case if_False)
  then consider u where "p_string (c # t) = Some (u, r)"
    | "p_literal ''true'' (WBool True) (c # t) = Some (v, r)"
    | "p_literal ''false'' (WBool False) (c # t) = Some (v, r)"
    | "p_literal ''null'' WNull (c # t) = Some (v, r)"
    | "p_number (c # t) = Some (v, r)"
    by (auto split: if_splits)
  then show ?thesis by cases (auto dest: scan_shrinks(2-4))
qed

lemma parser_shrinks:
  "p_value n d s = Some (v, r) \<Longrightarrow> length r < length s"
  "p_members n d acc s' = Some (v', r') \<Longrightarrow> length r' < length s'"
  "p_items n d acc2 s'' = Some (v'', r'') \<Longrightarrow> length r'' < length s''"
proof (induction n d s and n d acc s' and n d acc2 s''
    arbitrary: v r and v' r' and v'' r'' rule: p_value_p_members_p_items.induct)
  case (2 n d s)
  show ?case
  proof (cases s)
    case (Cons c t)
    consider (obj) "c = CHR ''{''" | (arr) "c = CHR ''[''"
      | (other) "c \<noteq> CHR ''{''" "c \<noteq> CHR ''[''" by blast
    then show ?thesis
    proof cases
      case obj
      with "2.prems" Cons consider (empty) "p_expect (CHR ''}'') (p_ws t) = Some r"
        | (more) "\<not> max_nesting_depth < d" "p_expect (CHR ''}'') (p_ws t) = None"
            "p_members n d [] (p_ws t) = Some (v, r)"
        by (auto split: if_splits option.splits)
      then show ?thesis
      proof cases
        case empty
        then show ?thesis using Cons p_ws_le [of t] p_expect_shrinks [OF empty] by simp
      next
        case more
        from "2.IH"(1) [OF Cons obj more(1,2,3)] show ?thesis using Cons p_ws_le [of t] by simp
      qed
    next
      case arr
      with "2.prems" Cons consider (empty) "p_expect (CHR '']'') (p_ws t) = Some r"
        | (more) "\<not> max_nesting_depth < d" "p_expect (CHR '']'') (p_ws t) = None"
            "p_items n d [] (p_ws t) = Some (v, r)"
        by (auto split: if_splits option.splits)
      then show ?thesis
      proof cases
        case empty
        then show ?thesis using Cons p_ws_le [of t] p_expect_shrinks [OF empty] by simp
      next
        case more
        have "c \<noteq> CHR ''{''" using arr by simp
        from "2.IH"(2) [OF Cons this arr more(1,2,3)] show ?thesis using Cons p_ws_le [of t] by simp
      qed
    next
      case other
      from p_value_scalar [OF other] "2.prems" Cons have "length r < length (c # t)" by blast
      then show ?thesis using Cons by simp
    qed
  qed (use 2 in simp)
next
  case (4 n d acc s)
  from "4.prems" obtain k s1 s2 w s3 c s4 where steps:
    "p_string (p_ws s) = Some (k, s1)" "p_expect (CHR '':'') (p_ws s1) = Some s2"
    "p_value n (Suc d) (p_ws s2) = Some (w, s3)" "p_ws s3 = c # s4"
    and fin: "c = CHR '','' \<and> p_members n d (acc @ [(k, w)]) s4 = Some (v', r') \<or>
      s4 = r'"
    by (auto split: option.splits list.splits if_splits)
  have "length s4 < length s"
    using p_string_shrinks [OF steps(1)] p_expect_shrinks [OF steps(2)] "4.IH"(1) [OF steps(1) refl steps(2,3)]
      p_ws_le [of s] p_ws_le [of s1] p_ws_le [of s2] p_ws_le [of s3] steps(4) by simp
  moreover have "length r' \<le> length s4"
    using fin "4.IH"(2) [OF steps(1) refl steps(2) steps(3) refl steps(4)] by fastforce
  ultimately show ?case by simp
next
  case (6 n d acc s)
  from "6.prems" obtain w s3 c s4 where steps:
    "p_value n (Suc d) (p_ws s) = Some (w, s3)" "p_ws s3 = c # s4"
    and fin: "c = CHR '','' \<and> p_items n d (acc @ [w]) s4 = Some (v'', r'') \<or> s4 = r''"
    by (auto split: option.splits list.splits if_splits)
  have "length s4 < length s"
    using "6.IH"(1) [OF steps(1)] p_ws_le [of s] p_ws_le [of s3] steps(2) by simp
  moreover have "length r'' \<le> length s4"
    using fin "6.IH"(2) [OF steps(1) refl steps(2)] by fastforce
  ultimately show ?case by simp
qed simp_all

lemma fuel_step:
  "2 * length s < n \<Longrightarrow> p_value (Suc n) d s = p_value n d s"
  "2 * length s' < n \<Longrightarrow> p_members (Suc n) d acc s' = p_members n d acc s'"
  "2 * length s'' + 1 < n \<Longrightarrow> p_items (Suc n) d acc2 s'' = p_items n d acc2 s''"
proof (induction n d s and n d acc s' and n d acc2 s'' rule: p_value_p_members_p_items.induct)
  case (2 n d s)
  show ?case
  proof (cases s)
    case (Cons c t)
    have "2 * length (p_ws t) + 1 < n" using 2 Cons p_ws_le [of t] by simp
    then show ?thesis using 2 Cons
      by (auto simp del: p_members.simps p_items.simps split: option.split)
  qed simp
next
  case (4 n d acc s)
  show ?case
  proof (cases "p_string (p_ws s)")
    case (Some ks)
    then obtain k s1 where k: "p_string (p_ws s) = Some (k, s1)" by (cases ks) auto
    show ?thesis
    proof (cases "p_expect (CHR '':'') (p_ws s1)")
      case s2: (Some s2)
      have l: "2 * length (p_ws s2) < n"
        using p_string_shrinks [OF k] p_expect_shrinks [OF s2] p_ws_le [of s] p_ws_le [of s1]
          p_ws_le [of s2] "4.prems" by simp
      note v = "4.IH"(1) [OF k refl s2 l]
      show ?thesis
      proof (cases "p_value n (Suc d) (p_ws s2)")
        case None
        then show ?thesis using k s2 v by (simp del: p_value.simps)
      next
        case (Some r)
        then obtain w s3 where w: "p_value n (Suc d) (p_ws s2) = Some (w, s3)" by (cases r) auto
        have "p_members (Suc n) d (acc @ [(k, w)]) s4 = p_members n d (acc @ [(k, w)]) s4"
          if "p_ws s3 = CHR '','' # s4" for s4
        proof (rule "4.IH"(2) [OF k refl s2 w refl that refl])
          show "2 * length s4 < n"
            using parser_shrinks(1) [OF w] l p_ws_le [of s3] that by simp
        qed
        then show ?thesis using k s2 v w
          by (auto simp del: p_value.simps p_members.simps simp: p_members.simps(2) split: list.split)
      qed
    qed (use k in simp)
  qed simp
next
  case (6 n d acc s)
  have l: "2 * length (p_ws s) < n" using "6.prems" p_ws_le [of s] by simp
  note v = "6.IH"(1) [OF l]
  show ?case
  proof (cases "p_value n (Suc d) (p_ws s)")
    case None
    then show ?thesis using v by (simp del: p_value.simps)
  next
    case (Some r)
    then obtain w s3 where w: "p_value n (Suc d) (p_ws s) = Some (w, s3)" by (cases r) auto
    have "p_items (Suc n) d (acc @ [w]) s4 = p_items n d (acc @ [w]) s4"
      if "p_ws s3 = CHR '','' # s4" for s4
    proof (rule "6.IH"(2) [OF w refl that refl])
      show "2 * length s4 + 1 < n"
        using parser_shrinks(1) [OF w] l p_ws_le [of s3] that by simp
    qed
    then show ?thesis using v w
      by (auto simp del: p_value.simps p_items.simps simp: p_items.simps(2) split: list.split)
  qed
qed simp_all

lemma fuel_suffices: "2 * length s < n \<Longrightarrow> n \<le> m \<Longrightarrow> p_value m d s = p_value n d s"
proof (induction m)
  case (Suc m)
  then show ?case using fuel_step(1) [of s m d] by (cases "n = Suc m") auto
qed simp

section \<open>Parsing the canonical form\<close>

text \<open>The values a command may hold, at a nesting depth: profile values of well-formed text.\<close>

fun fits :: "nat \<Rightarrow> wvalue \<Rightarrow> bool" where
  "fits d (WObject ms) = (d \<le> max_nesting_depth \<and> (\<forall>m \<in> set ms. valid_utf8 (fst m) \<and> fits (Suc d) (snd m)))"
| "fits d (WString s) = valid_utf8 s"
| "fits d (WNumber s) = (safe_integer s \<noteq> None)"
| "fits d _ = False"

text \<open>The same value with the members of every object in the canonical order.\<close>

fun canon :: "wvalue \<Rightarrow> wvalue" where
  "canon (WObject ms) = WObject (by_name (map (\<lambda>(k, v). (k, canon v)) ms))"
| "canon (WArray vs) = WArray (map canon vs)"
| "canon v = v"

lemma hex_digit_char: "n < 16 \<Longrightarrow> hex_digit (hex_char n) = Some n"
proof -
  assume "n < 16"
  then have "n \<in> set [0..<16]" by simp
  moreover have "list_all (\<lambda>n. hex_digit (hex_char n) = Some n) [0..<16]" by code_simp
  ultimately show ?thesis by (simp only: list_all_iff)
qed

lemma p_hex4_low:
  assumes "of_char c < (256 :: nat)"
  shows "p_hex4 (CHR ''0'' # CHR ''0'' # hex_char (of_char c div 16) # hex_char (of_char c mod 16) # r)
    = Some (of_char c, r)"
proof -
  have "hex_digit (CHR ''0'') = Some 0" by code_simp
  moreover have "of_char c div 16 < (16 :: nat)"
    by (rule less_mult_imp_div_less) (use assms in linarith)
  ultimately show ?thesis by (simp add: hex_digit_char)
qed

lemma p_chars_escape:
  "p_chars out (jcs_escape c @ r) = p_chars (out @ [c]) r"
proof -
  consider "c \<in> {CHR 0x22, CHR 0x5C, CHR 0x08, CHR 0x09, CHR 0x0A, CHR 0x0C, CHR 0x0D}"
    | (ctl) "c \<notin> {CHR 0x22, CHR 0x5C, CHR 0x08, CHR 0x09, CHR 0x0A, CHR 0x0C, CHR 0x0D}" "c < CHR 0x20"
    | (copy) "c \<notin> {CHR 0x22, CHR 0x5C, CHR 0x08, CHR 0x09, CHR 0x0A, CHR 0x0C, CHR 0x0D}" "\<not> c < CHR 0x20"
    by blast
  then show ?thesis
  proof cases
    case 1
    then show ?thesis by (auto simp: jcs_escape_def simple_escape_def)
  next
    case ctl
    then have low: "of_char c < (32 :: nat)" by (simp add: less_char_def)
    then have "p_unicode_escape (CHR ''0'' # CHR ''0'' # hex_char (of_char c div 16) #
        hex_char (of_char c mod 16) # r) = Some (of_char c, r)"
      by (simp add: p_unicode_escape_def p_hex4_low del: p_hex4.simps)
    moreover have "encode_utf8 (of_char c) = [c]" using low by (simp add: encode_utf8_def)
    ultimately show ?thesis using ctl by (simp add: jcs_escape_def)
  next
    case copy
    then show ?thesis by (simp add: jcs_escape_def)
  qed
qed

lemma p_chars_jcs: "p_chars out (concat (map jcs_escape s) @ CHR 0x22 # r) = Some (out @ s, r)"
  by (induction s arbitrary: out) (simp_all add: p_chars_escape)

lemma p_string_jcs: "valid_utf8 s \<Longrightarrow> p_string (jcs_string s @ r) = Some (s, r)"
  using p_chars_jcs [of "[]" s r] by (simp add: p_string_def jcs_string_def)

definition delimited :: "string \<Rightarrow> bool" where
  "delimited r \<longleftrightarrow> (case r of [] \<Rightarrow> True | c # _ \<Rightarrow> c \<in> {CHR '','', CHR ''}''})"

lemma not_digit [simp]: "\<not> is_digit (CHR '','')" "\<not> is_digit (CHR ''}'')" "\<not> is_digit (CHR ''-'')"
    "is_digit (CHR ''0'')"
  by code_simp+

lemma dropWhile_delimited: "list_all is_digit t \<Longrightarrow> delimited r \<Longrightarrow> dropWhile is_digit (t @ r) = r"
  by (induction t) (auto simp: delimited_def split: list.splits)

lemma p_tail_delimited: "delimited r \<Longrightarrow> p_fraction r = Some r \<and> p_exponent r = Some r"
  by (auto simp: delimited_def p_fraction_def p_exponent_def split: list.splits)

lemma digit_range: "CHR ''1'' \<le> c \<Longrightarrow> c \<le> CHR ''9'' \<Longrightarrow> is_digit c \<and> c \<noteq> CHR ''0'' \<and> c \<noteq> CHR ''-''"
  by (auto simp: is_digit_def less_eq_char_def)

lemma p_integer_part_canonical:
  assumes "canonical_integer t" "delimited r"
  shows "p_integer_part (t @ r) = Some r" "t \<noteq> []" "hd t \<noteq> CHR ''-''" "is_digit (hd t)"
  using assms digit_range [of "hd t"] dropWhile_delimited [of "tl t" r]
  by (cases t; force simp: canonical_integer_def p_integer_part_def)+

lemma p_number_canonical:
  assumes "canonical_integer t" "delimited r"
  shows "p_number (t @ r) = Some (WNumber t, r)"
proof -
  note i = p_integer_part_canonical [OF assms]
  have "(case t @ r of [] \<Rightarrow> t @ r | c # r' \<Rightarrow> if c = CHR ''-'' then r' else t @ r) = t @ r"
    using i by (cases t) auto
  then show ?thesis using i p_tail_delimited [OF assms(2)] by (simp add: p_number_def)
qed

lemma p_ws_skip: "s \<noteq> [] \<Longrightarrow> \<not> is_ws (hd s) \<Longrightarrow> p_ws s = s"
  by (cases s) (auto simp: p_ws_def)

lemma p_ws_cons [simp]: "\<not> is_ws c \<Longrightarrow> p_ws (c # s) = c # s"
  by (simp add: p_ws_def)

lemma not_ws [simp]: "\<not> is_ws (CHR '','')" "\<not> is_ws (CHR ''}'')" "\<not> is_ws (CHR '':'')"
    "\<not> is_ws (CHR ''{'')" "\<not> is_ws (CHR 0x22)"
  by (simp_all add: is_ws_def)

lemma digit_not_ws: "is_digit c \<Longrightarrow> \<not> is_ws c \<and> c \<notin> {CHR ''{'', CHR ''['', CHR 0x22, CHR ''t'', CHR ''f'', CHR ''n''}"
  by (auto simp: is_digit_def is_ws_def less_eq_char_def)

lemma jcs_string_hd: "jcs_string s = CHR 0x22 # concat (map jcs_escape s) @ [CHR 0x22]"
  by (simp add: jcs_string_def)

lemma canonical_of_safe: "safe_integer t \<noteq> None \<Longrightarrow> canonical_integer t"
  by (auto simp: safe_integer_def split: if_splits)

lemma jcs_first:
  assumes "fits d v"
  obtains c t where "jcs v = c # t" "\<not> is_ws c"
proof (cases v)
  case (WNumber s)
  with assms have "canonical_integer s" by (simp add: canonical_of_safe)
  from p_integer_part_canonical [OF this, of "[]"] show ?thesis
    using WNumber digit_not_ws by (cases s) (auto simp: delimited_def intro: that)
qed (use assms that in \<open>auto simp: jcs_string_hd\<close>)

text \<open>The sort only looks at the names.\<close>

lemma insort_name_map:
  "insort_key (\<lambda>m. g (fst m)) (fst x, f (snd x)) (map (\<lambda>(k, v). (k, f v)) ms) =
     map (\<lambda>(k, v). (k, f v)) (insort_key (\<lambda>m. g (fst m)) x ms)"
  by (induction ms; cases x) auto

lemma by_name_map: "by_name (map (\<lambda>(k, v). (k, f v)) ms) = map (\<lambda>(k, v). (k, f v)) (by_name ms)"
proof (induction ms)
  case (Cons m ms)
  then show ?case using insort_name_map [of utf16_units m f "by_name ms"]
    by (cases m) (simp add: by_name_def)
qed (simp add: by_name_def)

lemma by_name_set [simp]: "set (by_name ms) = set ms" "by_name ms = [] \<longleftrightarrow> ms = []"
  by (auto simp: by_name_def) (metis length_0_conv length_sort)+

lemma canon_by_name: "by_name (map (\<lambda>(k, v). (k, f v)) (by_name ms)) = map (\<lambda>(k, v). (k, f v)) (by_name ms)"
proof -
  have "by_name (by_name ms) = by_name ms"
    unfolding by_name_def by (rule sort_key_id_if_sorted) simp
  then show ?thesis by (simp add: by_name_map)
qed

text \<open>One object, its members already in order.\<close>

abbreviation member_text :: "string \<times> wvalue \<Rightarrow> string" where
  "member_text m \<equiv> jcs_string (fst m) @ [CHR '':''] @ jcs (snd m)"

lemma jcs_object: "jcs (WObject ms) = [CHR ''{''] @ join_comma (map member_text (by_name ms)) @ [CHR ''}'']"
proof -
  have "map (\<lambda>(k, t). jcs_string k @ [CHR '':''] @ t) (by_name (map (\<lambda>(k, v). (k, jcs v)) ms)) =
      map member_text (by_name ms)"
    by (auto simp: by_name_map)
  then show ?thesis by simp
qed

lemma canon_object: "canon (WObject ms) = WObject (map (\<lambda>(k, v). (k, canon v)) (by_name ms))"
  by (simp add: by_name_map)

definition reads_back :: "nat \<Rightarrow> wvalue \<Rightarrow> bool" where
  "reads_back d v \<longleftrightarrow>
     (\<forall>n r. delimited r \<longrightarrow> 2 * length (jcs v @ r) < n \<longrightarrow> p_value n d (jcs v @ r) = Some (canon v, r))"

lemma p_members_jcs:
  assumes "ms \<noteq> []"
    "\<forall>m \<in> set ms. valid_utf8 (fst m) \<and> fits (Suc d) (snd m) \<and> reads_back (Suc d) (snd m)"
    "2 * length (join_comma (map member_text ms) @ CHR ''}'' # r) < n"
  shows "p_members n d acc (join_comma (map member_text ms) @ CHR ''}'' # r) =
    Some (WObject (acc @ map (\<lambda>(k, v). (k, canon v)) ms), r)"
  using assms
proof (induction ms arbitrary: acc n)
  case (Cons m ms)
  obtain k v where m: "m = (k, v)" by (cases m)
  let ?tail = "if ms = [] then CHR ''}'' # r else CHR '','' # join_comma (map member_text ms) @ CHR ''}'' # r"
  have shape: "join_comma (map member_text (m # ms)) @ CHR ''}'' # r = jcs_string k @ CHR '':'' # jcs v @ ?tail"
    by (cases ms) (simp_all add: m)
  obtain n' where n: "n = Suc n'" using Cons.prems(3) by (cases n) auto
  obtain c t where c: "jcs v = c # t" "\<not> is_ws c"
    using Cons.prems(2) jcs_first [of "Suc d" v] by (auto simp: m)
  have key: "p_string (p_ws (jcs_string k @ CHR '':'' # jcs v @ ?tail)) = Some (k, CHR '':'' # jcs v @ ?tail)"
    using Cons.prems(2) p_string_jcs [of k] by (simp add: m jcs_string_hd)
  have len: "2 * length (jcs_string k @ CHR '':'' # jcs v @ ?tail) < n" using Cons.prems(3) unfolding shape .
  then have "2 * length (jcs v @ ?tail) < n'" by (simp add: n)
  moreover have "delimited ?tail" by (simp add: delimited_def)
  ultimately have val: "p_value n' (Suc d) (jcs v @ ?tail) = Some (canon v, ?tail)"
    using Cons.prems(2) by (simp add: m reads_back_def)
  have ws: "p_ws (jcs v @ ?tail) = jcs v @ ?tail" "p_ws ?tail = ?tail" using c by simp_all
  show ?case
  proof (cases "ms = []")
    case True
    then show ?thesis unfolding shape n using key val ws
      by (simp add: m p_members.simps(2) del: p_value.simps)
  next
    case False
    have "p_members n' d (acc @ [(k, canon v)]) (join_comma (map member_text ms) @ CHR ''}'' # r) =
        Some (WObject ((acc @ [(k, canon v)]) @ map (\<lambda>(k, v). (k, canon v)) ms), r)"
      by (rule Cons.IH [OF False]) (use Cons.prems(2) len False n in auto)
    then show ?thesis unfolding shape n using key val ws False
      by (simp add: m p_members.simps(2) del: p_value.simps)
  qed
qed simp

lemma jcs_reads_back: "fits d v \<Longrightarrow> reads_back d v"
proof (induction d v rule: fits.induct)
  case (1 d ms)
  show ?case unfolding reads_back_def
  proof (intro allI impI)
    fix n r assume r: "delimited r" and n: "2 * length (jcs (WObject ms) @ r) < n"
    obtain n' where n': "n = Suc n'" using n by (cases n) auto
    have d: "\<not> max_nesting_depth < d" using 1 by simp
    let ?body = "join_comma (map member_text (by_name ms)) @ CHR ''}'' # r"
    have shape: "jcs (WObject ms) @ r = CHR ''{'' # ?body" by (simp add: jcs_object del: jcs.simps)
    show "p_value n d (jcs (WObject ms) @ r) = Some (canon (WObject ms), r)"
    proof (cases "ms = []")
      case True
      then show ?thesis unfolding shape n' canon_object using d by (simp add: by_name_def)
    next
      case False
      then obtain m rest where m: "by_name ms = m # rest" by (cases "by_name ms") (auto dest: by_name_set(2) [THEN iffD1])
      then have hd: "p_ws ?body = ?body" "hd ?body = CHR 0x22" "?body \<noteq> []"
        by (cases rest; simp add: jcs_string_hd)+
      then have brace: "p_expect (CHR ''}'') ?body = None" by (cases ?body) auto
      have "2 * length ?body < n'" using n by (simp add: shape n' del: jcs.simps)
      moreover have "by_name ms \<noteq> []" using False by simp
      moreover have "\<forall>m \<in> set (by_name ms). valid_utf8 (fst m) \<and> fits (Suc d) (snd m) \<and> reads_back (Suc d) (snd m)"
        using 1 by auto
      ultimately have "p_members n' d [] ?body = Some (WObject ([] @ map (\<lambda>(k, v). (k, canon v)) (by_name ms)), r)"
        by (intro p_members_jcs) simp_all
      then show ?thesis unfolding shape n' canon_object using d hd(1) brace
        by (simp del: p_members.simps)
    qed
  qed
next
  case (2 d s)
  show ?case unfolding reads_back_def
  proof (intro allI impI)
    fix n r assume "2 * length (jcs (WString s) @ r) < n"
    then show "p_value n d (jcs (WString s) @ r) = Some (canon (WString s), r)"
      using 2 p_string_jcs [of s r] by (cases n) (auto simp: jcs_string_hd)
  qed
next
  case (3 d s)
  show ?case unfolding reads_back_def
  proof (intro allI impI)
    fix n r assume r: "delimited r" and n: "2 * length (jcs (WNumber s) @ r) < n"
    have s: "canonical_integer s" using 3 by (simp add: canonical_of_safe)
    note i = p_integer_part_canonical [OF s r]
    obtain n' c t where "n = Suc n'" "s = c # t" using n i(2) by (cases n; cases s) auto
    then show "p_value n d (jcs (WNumber s) @ r) = Some (canon (WNumber s), r)"
      using p_number_canonical [OF s r] digit_not_ws [of c] i(4) by auto
  qed
qed simp_all

lemma jcs_canon: "fits d v \<Longrightarrow> jcs (canon v) = jcs v"
proof (induction d v rule: fits.induct)
  case (1 d ms)
  have "by_name (map (\<lambda>(k, v). (k, canon v)) (by_name ms)) = map (\<lambda>(k, v). (k, canon v)) (by_name ms)"
    by (rule canon_by_name)
  moreover have "map member_text (map (\<lambda>(k, v). (k, canon v)) (by_name ms)) = map member_text (by_name ms)"
    using 1 by (auto simp: case_prod_beta)
  ultimately show ?case by (simp only: canon_object jcs_object)
qed simp_all

text \<open>The canonical text of well-formed text is well-formed.\<close>

lemma continuations_high: "continuations k s = k \<Longrightarrow> list_all (\<lambda>c. CHR 0x80 \<le> c) (take k s)"
  by (induction k s rule: continuations.induct) (auto simp: between_def split: if_splits)

lemma utf8_width_high: "1 < utf8_width b \<Longrightarrow> CHR 0x80 \<le> b"
  by (auto simp: utf8_width_def less_eq_char_def less_char_def split: if_splits)

lemma second_ok_high: "second_ok b c \<Longrightarrow> CHR 0x80 \<le> c"
  by (auto simp: second_ok_def between_def less_eq_char_def split: if_splits)

lemma utf8_char_cases:
  assumes "s \<noteq> []" "snd (utf8_head s)"
  shows "(\<exists>c. c < CHR 0x80 \<and> take (fst (utf8_head s)) s = [c]) \<or>
    list_all (\<lambda>c. CHR 0x80 \<le> c) (take (fst (utf8_head s)) s)"
proof (cases s)
  case (Cons b rest)
  show ?thesis
  proof (cases "utf8_width b \<le> 1")
    case True
    then show ?thesis using assms Cons by (auto simp: utf8_width_def Let_def split: if_splits)
  next
    case False
    then obtain c cs where c: "rest = c # cs" "second_ok b c" "continuations (utf8_width b - 2) cs = utf8_width b - 2"
      using assms Cons by (auto simp: Let_def split: list.splits if_splits)
    then have "fst (utf8_head s) = utf8_width b" using Cons False by (auto simp: Let_def)
    moreover have "utf8_width b = Suc (Suc (utf8_width b - 2))" using False by simp
    moreover have "CHR 0x80 \<le> b" using False by (intro utf8_width_high) simp
    ultimately show ?thesis
      using Cons c(1) continuations_high [OF c(3)] second_ok_high [OF c(2)]
      by (metis list.pred_inject(2) take_Suc_Cons)
  qed
qed (use assms in simp)

lemma jcs_escape_copies:
  assumes "CHR 0x80 \<le> c"
  shows "jcs_escape c = [c]"
proof -
  have "list_all (\<lambda>x. \<not> CHR 0x80 \<le> x)
      [CHR 0x22, CHR 0x5C, CHR 0x08, CHR 0x09, CHR 0x0A, CHR 0x0C, CHR 0x0D]"
    by code_simp
  then have "c \<notin> set [CHR 0x22, CHR 0x5C, CHR 0x08, CHR 0x09, CHR 0x0A, CHR 0x0C, CHR 0x0D]"
    using assms unfolding list_all_iff by blast
  moreover have "\<not> c < CHR 0x20"
    using assms less_le_trans [of c "CHR 0x20" "CHR 0x80"] by (force simp: less_char_def less_eq_char_def)
  ultimately show ?thesis by (simp only: jcs_escape_def list.set insert_iff) simp
qed

lemma jcs_escape_high: "list_all (\<lambda>c. CHR 0x80 \<le> c) s \<Longrightarrow> concat (map jcs_escape s) = s"
  by (induction s) (simp_all add: jcs_escape_copies)

lemma hex_char_ascii: "n < 16 \<Longrightarrow> hex_char n < CHR 0x80"
  by (simp add: hex_char_def less_char_def)

lemma jcs_escape_ascii: "c < CHR 0x80 \<Longrightarrow> list_all (\<lambda>c. c < CHR 0x80) (jcs_escape c)"
proof -
  assume "c < CHR 0x80"
  moreover have "of_char c div 16 < (16 :: nat)" if "c < CHR 0x20"
    by (rule less_mult_imp_div_less) (use that in \<open>simp add: less_char_def\<close>)
  ultimately show ?thesis
    using hex_char_ascii by (auto simp: jcs_escape_def less_char_def)
qed

lemma continuations_take: "continuations k cs = k \<Longrightarrow> continuations k (take k cs) = k"
  by (induction k cs rule: continuations.induct) (auto split: if_splits)

lemma valid_char:
  assumes "s \<noteq> []" "snd (utf8_head s)"
  shows "valid_utf8 (take (fst (utf8_head s)) s)"
proof -
  let ?w = "fst (utf8_head s)"
  have w: "0 < ?w" "?w \<le> length s" using utf8_head_pos [OF assms(1)] utf8_head_le by auto
  have "utf8_head (take ?w s) = utf8_head s"
  proof (cases s)
    case (Cons b rest)
    show ?thesis
    proof (cases "utf8_width b \<le> 1")
      case True
      then show ?thesis using Cons assms by (auto simp: Let_def utf8_width_def split: if_splits)
    next
      case False
      then obtain c cs where c: "rest = c # cs" "second_ok b c" "continuations (utf8_width b - 2) cs = utf8_width b - 2"
        using assms Cons by (auto simp: Let_def split: list.splits if_splits)
      then have f: "?w = utf8_width b" using Cons False by (auto simp: Let_def)
      have "continuations (utf8_width b - 2) (take (utf8_width b - 2) cs) = utf8_width b - 2"
        using c(3) by (rule continuations_take)
      moreover have "take ?w s = b # c # take (utf8_width b - 2) cs"
        unfolding f using c(1) Cons False by (cases "utf8_width b"; cases "utf8_width b - 1") auto
      ultimately show ?thesis using Cons c False by (auto simp: Let_def)
    qed
  qed (use assms in simp)
  then show ?thesis using assms w
    by (subst valid_utf8.simps) (simp add: valid_utf8.simps [of "[]"])
qed

lemma valid_jcs_escapes: "valid_utf8 s \<Longrightarrow> valid_utf8 (concat (map jcs_escape s))"
proof (induction s rule: valid_utf8.induct)
  case (1 s)
  show ?case
  proof (cases "s = []")
    case False
    let ?w = "fst (utf8_head s)"
    have h: "snd (utf8_head s)" and t: "valid_utf8 (drop ?w s)"
      using "1.prems" False by (subst (asm) valid_utf8.simps; simp)+
    have "valid_utf8 (concat (map jcs_escape (take ?w s)))"
      using utf8_char_cases [OF False h]
    proof
      assume "\<exists>c. c < CHR 0x80 \<and> take ?w s = [c]"
      then show ?thesis by (auto intro!: valid_ascii jcs_escape_ascii)
    next
      assume "list_all (\<lambda>c. CHR 0x80 \<le> c) (take ?w s)"
      then show ?thesis using valid_char [OF False h] by (simp add: jcs_escape_high)
    qed
    then have "valid_utf8 (concat (map jcs_escape (take ?w s)) @ concat (map jcs_escape (drop ?w s)))"
      by (rule valid_append) (rule "1.IH" [OF False t])
    then show ?thesis by (metis append_take_drop_id concat_append map_append)
  qed (simp add: valid_utf8.simps)
qed

lemma valid_quote: "valid_utf8 [CHR 0x22]" "valid_utf8 [CHR '':'']" "valid_utf8 [CHR '','']"
  "valid_utf8 [CHR ''{'']" "valid_utf8 [CHR ''}'']"
  by (auto intro!: valid_ascii simp: less_char_def)

lemma valid_jcs_string: "valid_utf8 s \<Longrightarrow> valid_utf8 (jcs_string s)"
  unfolding jcs_string_def by (intro valid_append valid_quote valid_jcs_escapes)

lemma valid_join: "list_all valid_utf8 xs \<Longrightarrow> valid_utf8 (join_comma xs)"
  by (induction xs rule: join_comma.induct)
    (auto intro!: valid_append valid_quote simp del: append.simps simp: valid_utf8.simps [of "[]"])

lemma valid_jcs: "fits d v \<Longrightarrow> valid_utf8 (jcs v)"
proof (induction d v rule: fits.induct)
  case (1 d ms)
  have "valid_utf8 (member_text m)" if "m \<in> set (by_name ms)" for m
    using 1 that by (intro valid_append valid_quote valid_jcs_string) auto
  then show ?case unfolding jcs_object
    by (intro valid_append valid_quote valid_join) (auto simp: list_all_iff)
next
  case (3 d s)
  then have "canonical_integer s" by (simp add: canonical_of_safe)
  then have "list_all is_digit s" using digit_range [of "hd s"] by (auto simp: canonical_integer_def)
  then have "list_all (\<lambda>c. c < CHR 0x80) s"
    by (auto simp: list_all_iff is_digit_def less_char_def less_eq_char_def)
  then show ?case by (simp add: valid_ascii)
qed (simp_all add: valid_jcs_string)

lemma no_bom:
  assumes "fits d v"
  shows "\<not> is_prefix_of [CHR 0xEF, CHR 0xBB, CHR 0xBF] (jcs v)"
proof (cases v)
  case (WNumber s)
  with assms have "canonical_integer s" by (simp add: canonical_of_safe)
  from p_integer_part_canonical [OF this, of "[]"] have "s \<noteq> []" "is_digit (hd s)"
    by (simp_all add: delimited_def)
  then show ?thesis using WNumber by (cases s) (auto simp: is_prefix_of_iff is_digit_def less_eq_char_def)
qed (use assms in \<open>auto simp: is_prefix_of_iff jcs_string_hd jcs_object simp del: jcs.simps(1)\<close>)

lemma parse_jcs:
  assumes "fits 1 v"
  shows "parse_strict (jcs v) = Inr (canon v)"
proof -
  obtain c t where c: "jcs v = c # t" "\<not> is_ws c" using jcs_first [OF assms] .
  have "p_value (2 * length (jcs v) + 1) 1 (jcs v @ []) = Some (canon v, [])"
    using jcs_reads_back [OF assms, unfolded reads_back_def, rule_format, of "[]"]
    by (simp add: delimited_def del: p_value.simps)
  moreover have "p_ws (jcs v) = jcs v" "p_ws [] = []" using c by (simp_all add: p_ws_def)
  ultimately show ?thesis
    using no_bom [OF assms] valid_jcs [OF assms] by (simp add: parse_strict_def del: p_value.simps)
qed

text \<open>What the parser accepts and the profile admits has a canonical text.\<close>

definition fits_if_profile :: "nat \<Rightarrow> wvalue \<Rightarrow> bool" where
  "fits_if_profile d v \<longleftrightarrow> (in_value_profile v \<longrightarrow> fits d v)"

definition members_fit :: "nat \<Rightarrow> (string \<times> wvalue) list \<Rightarrow> bool" where
  "members_fit d ms \<longleftrightarrow> (\<forall>m \<in> set ms. valid_utf8 (fst m) \<and> fits_if_profile d (snd m))"

lemma members_fit_object:
  "members_fit (Suc d) ms \<Longrightarrow> d \<le> max_nesting_depth \<Longrightarrow> fits_if_profile d (WObject ms)"
  by (auto simp: members_fit_def fits_if_profile_def)

lemma p_string_valid: "p_string s = Some (t, r) \<Longrightarrow> valid_utf8 t"
  by (auto simp: p_string_def split: option.splits if_splits)

lemma p_value_scalar_fits:
  assumes "c \<noteq> CHR ''{''" "c \<noteq> CHR ''[''" "p_value (Suc n) d (c # t) = Some (v, r)"
  shows "fits_if_profile d v"
proof -
  have "(if c = CHR 0x22 then map_option (\<lambda>(t, r1). (WString t, r1)) (p_string (c # t))
      else if c = CHR ''t'' then p_literal ''true'' (WBool True) (c # t)
      else if c = CHR ''f'' then p_literal ''false'' (WBool False) (c # t)
      else if c = CHR ''n'' then p_literal ''null'' WNull (c # t)
      else if c = CHR ''-'' \<or> is_digit c then p_number (c # t) else None) = Some (v, r)"
    using assms by (simp only: p_value.simps list.case if_False)
  then consider u where "p_string (c # t) = Some (u, r)" "v = WString u"
    | "p_literal ''true'' (WBool True) (c # t) = Some (v, r)"
    | "p_literal ''false'' (WBool False) (c # t) = Some (v, r)"
    | "p_literal ''null'' WNull (c # t) = Some (v, r)"
    | "p_number (c # t) = Some (v, r)"
    by (auto split: if_splits)
  then show ?thesis
    by cases (auto simp: fits_if_profile_def p_literal_def p_number_def Let_def dest: p_string_valid
        split: if_splits option.splits)
qed

lemma parser_fits:
  "p_value n d s = Some (v, r) \<Longrightarrow> fits_if_profile d v"
  "p_members n d acc s' = Some (v', r') \<Longrightarrow> d \<le> max_nesting_depth \<Longrightarrow> members_fit (Suc d) acc \<Longrightarrow>
     fits_if_profile d v'"
  "p_items n d acc2 s'' = Some (v'', r'') \<Longrightarrow> fits_if_profile d v''"
proof (induction n d s and n d acc s' and n d acc2 s''
    arbitrary: v r and v' r' and v'' r'' rule: p_value_p_members_p_items.induct)
  case (2 n d s)
  show ?case
  proof (cases s)
    case (Cons c t)
    consider (obj) "c = CHR ''{''" | (arr) "c = CHR ''[''"
      | (other) "c \<noteq> CHR ''{''" "c \<noteq> CHR ''[''" by blast
    then show ?thesis
    proof cases
      case obj
      with "2.prems" Cons consider (empty) "d \<le> max_nesting_depth" "v = WObject []"
        | (more) "\<not> max_nesting_depth < d" "p_expect (CHR ''}'') (p_ws t) = None"
            "p_members n d [] (p_ws t) = Some (v, r)"
        by (auto split: if_splits option.splits)
      then show ?thesis
      proof cases
        case more
        from "2.IH"(1) [OF Cons obj more(1,2,3)] more(1) show ?thesis by (simp add: members_fit_def)
      qed (simp add: fits_if_profile_def)
    next
      case arr
      with "2.prems" Cons have "\<exists>vs. v = WArray vs \<or> p_items n d [] (p_ws t) = Some (v, r) \<and>
          \<not> max_nesting_depth < d \<and> p_expect (CHR '']'') (p_ws t) = None"
        by (auto split: if_splits option.splits)
      moreover have "c \<noteq> CHR ''{''" using arr by simp
      ultimately show ?thesis using "2.IH"(2) [OF Cons _ arr] by (auto simp: fits_if_profile_def)
    next
      case other
      then show ?thesis using p_value_scalar_fits [OF other] "2.prems" Cons by blast
    qed
  qed (use 2 in simp)
next
  case (4 n d acc s)
  from "4.prems"(1) obtain k s1 s2 w s3 c s4 where steps:
    "p_string (p_ws s) = Some (k, s1)" "p_expect (CHR '':'') (p_ws s1) = Some s2"
    "p_value n (Suc d) (p_ws s2) = Some (w, s3)" "p_ws s3 = c # s4"
    and fin: "c = CHR '','' \<and> p_members n d (acc @ [(k, w)]) s4 = Some (v', r') \<or>
      v' = WObject (acc @ [(k, w)])"
    by (auto split: option.splits list.splits if_splits)
  have "fits_if_profile (Suc d) w" using "4.IH"(1) [OF steps(1) refl steps(2,3)] .
  then have acc: "members_fit (Suc d) (acc @ [(k, w)])"
    using "4.prems"(3) p_string_valid [OF steps(1)] by (auto simp: members_fit_def)
  from fin show ?case
  proof
    assume "c = CHR '','' \<and> p_members n d (acc @ [(k, w)]) s4 = Some (v', r')"
    then show ?thesis
      using "4.IH"(2) [OF steps(1) refl steps(2) steps(3) refl steps(4)] acc "4.prems"(2) by blast
  next
    assume "v' = WObject (acc @ [(k, w)])"
    then show ?thesis using members_fit_object [OF acc "4.prems"(2)] by simp
  qed
next
  case (6 n d acc s)
  from "6.prems" obtain w s3 c s4 where steps:
    "p_value n (Suc d) (p_ws s) = Some (w, s3)" "p_ws s3 = c # s4"
    and fin: "c = CHR '','' \<and> p_items n d (acc @ [w]) s4 = Some (v'', r'') \<or> v'' = WArray (acc @ [w])"
    by (auto split: option.splits list.splits if_splits)
  then show ?case
    using "6.IH"(2) [OF steps(1) refl steps(2)] by (auto simp: fits_if_profile_def)
qed simp_all

lemma parse_fits: "parse_strict body = Inr v \<Longrightarrow> in_value_profile v \<Longrightarrow> fits 1 v"
  by (auto simp: parse_strict_def fits_if_profile_def simp del: p_value.simps
      dest!: parser_fits(1) split: if_splits option.splits)

lemma fits_canon: "fits d v \<Longrightarrow> fits d (canon v)"
proof (induction d v rule: fits.induct)
  case (1 d ms)
  then show ?case by (fastforce simp: canon_object simp del: canon.simps(1))
qed auto

section \<open>Properties\<close>

text \<open>
  C23. The canonical form of the protocol is read back: every value that the strict parser
  accepted and the value profile admits is written as a text which the parser reads as the same
  value, its members in canonical order, and which that value writes again; so a command has one
  canonical text.
\<close>

theorem canonical_text_is_read_back:
  assumes "parse_strict body = Inr v" "in_value_profile v"
  shows "parse_strict (jcs v) = Inr (canon v) \<and> jcs (canon v) = jcs v \<and>
    in_value_profile (canon v) \<and> parse_strict (jcs (canon v)) = Inr (canon (canon v))"
proof -
  have f: "fits 1 v" by (rule parse_fits [OF assms])
  then have "fits 1 (canon v)" by (rule fits_canon)
  moreover have "fits d u \<Longrightarrow> in_value_profile u" for d u
    by (induction d u rule: fits.induct) auto
  ultimately show ?thesis using parse_jcs jcs_canon f by blast
qed

definition sample_value :: wvalue where
  "sample_value = WObject [(''payload'', WObject [(''n'', WNumber ''7'')])]"

lemma sample_value_fits: "fits 1 sample_value" "canon sample_value = sample_value"
    "in_value_profile sample_value"
proof -
  have "is_digit (CHR ''7'')" "CHR ''1'' \<le> CHR ''7''" "CHR ''7'' \<le> CHR ''9''" by code_simp+
  then have "safe_integer ''7'' \<noteq> None"
    by (simp add: safe_integer_def canonical_integer_def digits_value_def max_safe_integer_def)
  then show "fits 1 sample_value" "canon sample_value = sample_value" "in_value_profile sample_value"
    by (auto simp: sample_value_def max_nesting_depth_def by_name_def less_char_def intro!: valid_ascii)
qed

theorem canonical_text_is_read_back_witness:
  \<open>parse_strict ''{"payload":{"n":7}}'' = Inr sample_value \<and>
   parse_strict (jcs sample_value) = Inr (canon sample_value) \<and> jcs sample_value = ''{"payload":{"n":7}}''\<close>
proof -
  have j: \<open>jcs sample_value = ''{"payload":{"n":7}}''\<close>
    by (simp add: sample_value_def by_name_def jcs_string_def jcs_escape_def less_char_def)
  have "parse_strict (jcs sample_value) = Inr sample_value"
    using parse_jcs [OF sample_value_fits(1)] by (simp add: sample_value_fits(2))
  from canonical_text_is_read_back [OF this sample_value_fits(3)] this show ?thesis by (simp add: j)
qed

end
