(* ===== verification/CommandVerifier.thy ===== *)
theory CommandVerifier
  imports WireJson
begin

text \<open>
  The verification of a signed command (\<open>lib.rs\<close> of the crate
  \<open>lightagent-protocol-conformance\<close>, steps 1 to 12 of the specification): the rules of the
  fields, the envelope and the payload, canonicality, trust, and the window and nonce of a
  transmission. SHA-256, Ed25519 (\<open>ring\<close>) and the test for NFC (\<open>icu_normalizer\<close>) are code of
  other crates: \<open>sha256\<close>, \<open>ed25519\<close> and \<open>nfc\<close> are arguments of the definitions that use them.
\<close>

section \<open>Constants\<close>

definition protocol :: string where
  "protocol = ''LA-WEB-PROVISIONING/1''"

definition purpose :: string where
  "purpose = ''provisioning-command''"

definition max_lifetime_seconds :: nat where
  "max_lifetime_seconds = 120"

definition max_skew :: nat where
  "max_skew = 30"

definition signing_context :: string where
  "signing_context = ''LA-WEB-PROVISIONING/1'' @ [CHR 0x00] @ ''provisioning-command'' @ [CHR 0x00]"

definition operations :: "string list" where
  "operations = [''profile.create'', ''profile.status'', ''profile.revoke'']"

definition envelope :: "string list" where
  "envelope =
     [''audience'', ''commandId'', ''expiresAt'', ''issuedAt'', ''jobId'', ''keyId'', ''nonce'',
      ''operation'', ''payload'', ''protocol'', ''purpose'', ''requestId'', ''signature'']"

definition create_payload :: "string list" where
  "create_payload =
     [''displayName'', ''idempotencyKey'', ''issuer'', ''profileId'', ''subject'', ''template'']"

definition operation_payload :: "string list" where
  "operation_payload = [''operationId'', ''profileId'']"

text \<open>The order of the Ed25519 group, least significant byte first.\<close>

definition group_order :: "nat list" where
  "group_order =
     [0xED, 0xD3, 0xF5, 0x5C, 0x1A, 0x63, 0x12, 0x58, 0xD6, 0x9C, 0xF7, 0xA2, 0xDE, 0xF9, 0xDE,
      0x14, 0, 0, 0, 0, 0, 0, 0, 0, 0, 0, 0, 0, 0, 0, 0, 0x10]"

section \<open>Field rules\<close>

text \<open>Base64url without padding; \<open>acc\<close> and \<open>bits\<close> stay below the width of \<open>u32\<close>.\<close>

definition b64_digit :: "char \<Rightarrow> nat option" where
  "b64_digit c =
     (if is_upper c then Some (of_char c - 65)
      else if is_lower c then Some (of_char c - 97 + 26)
      else if is_digit c then Some (of_char c - 48 + 52)
      else if c = CHR ''-'' then Some 62
      else if c = CHR ''_'' then Some 63
      else None)"

fun b64_loop :: "string \<Rightarrow> nat \<Rightarrow> nat \<Rightarrow> nat list \<Rightarrow> (nat list \<times> nat) option" where
  "b64_loop [] acc bits out = Some (out, acc)"
| "b64_loop (c # s) acc bits out =
     (case b64_digit c of
        None \<Rightarrow> None
      | Some v \<Rightarrow>
          let acc1 = acc * 64 + v; bits1 = bits + 6
          in if 8 \<le> bits1
             then b64_loop s (acc1 mod 2 ^ (bits1 - 8)) (bits1 - 8)
                    (out @ [acc1 div 2 ^ (bits1 - 8) mod 256])
             else b64_loop s acc1 bits1 out)"

definition base64url :: "string \<Rightarrow> nat \<Rightarrow> nat list option" where
  "base64url t bytes =
     (if length t \<noteq> (bytes * 8 + 5) div 6 then None
      else case b64_loop t 0 0 [] of
          None \<Rightarrow> None
        | Some (out, acc) \<Rightarrow> if length out = bytes \<and> acc = 0 then Some out else None)"

definition prefixed_id :: "wvalue \<Rightarrow> string \<Rightarrow> bool" where
  "prefixed_id v prefix =
     (case Option.bind (str_of v) (strip_prefix prefix) of
        None \<Rightarrow> False
      | Some rest \<Rightarrow> 8 \<le> length rest \<and> length rest \<le> 60 \<and>
          list_all (\<lambda>b. is_lower b \<or> is_digit b) rest)"

definition key_id :: "wvalue \<Rightarrow> bool" where
  "key_id v =
     (case str_of v of
        None \<Rightarrow> False
      | Some s \<Rightarrow> 3 \<le> length s \<and> length s \<le> 64 \<and>
          (\<forall>i < length s. is_lower (s ! i) \<or> is_digit (s ! i) \<or>
             (0 < i \<and> s ! i \<in> {CHR ''.'', CHR ''_'', CHR ''-''})))"

fun timestamp :: "wvalue \<Rightarrow> nat option" where
  "timestamp (WNumber s) = (if length s = 10 then safe_integer s else None)"
| "timestamp _ = None"

definition issuer_port :: "string \<Rightarrow> bool" where
  "issuer_port p \<longleftrightarrow>
     p \<noteq> [] \<and> length p \<le> 5 \<and> hd p \<noteq> CHR ''0'' \<and> list_all is_digit p \<and>
     1 \<le> digits_value p \<and> digits_value p \<le> 65535"

definition issuer_label :: "string \<Rightarrow> bool" where
  "issuer_label l \<longleftrightarrow>
     1 \<le> length l \<and> length l \<le> 63 \<and> hd l \<noteq> CHR ''-'' \<and> last l \<noteq> CHR ''-'' \<and>
     list_all (\<lambda>b. is_lower b \<or> is_digit b \<or> b = CHR ''-'') l"

definition issuer :: "wvalue \<Rightarrow> bool" where
  "issuer v =
     (case str_of v of
        None \<Rightarrow> False
      | Some s \<Rightarrow>
          (case strip_prefix ''https://'' s of
             None \<Rightarrow> False
           | Some rest \<Rightarrow>
               if 256 < length s then False
               else let (host, port) =
                      (case split_once (CHR '':'') rest of
                         Some (h, p) \<Rightarrow> (h, Some p) | None \<Rightarrow> (rest, None))
                    in (case port of None \<Rightarrow> True | Some p \<Rightarrow> issuer_port p) \<and>
                       host \<noteq> [] \<and> length host \<le> 253 \<and>
                       list_all issuer_label (split_on (CHR ''.'') host)))"

text \<open>
  On UTF-8: the characters are the bytes that do not continue one; the control characters are the
  bytes below \<open>0x20\<close>, \<open>0x7F\<close>, and \<open>0xC2\<close> before \<open>0x80..0x9F\<close>.
\<close>

definition char_count :: "string \<Rightarrow> nat" where
  "char_count s = length (filter (\<lambda>b. \<not> between (CHR 0x80) (CHR 0xBF) b) s)"

fun has_control :: "string \<Rightarrow> bool" where
  "has_control [] = False"
| "has_control (b # s) =
     (b < CHR 0x20 \<or> b = CHR 0x7F \<or>
      (b = CHR 0xC2 \<and> s \<noteq> [] \<and> between (CHR 0x80) (CHR 0x9F) (hd s)) \<or> has_control s)"

definition display_name :: "(string \<Rightarrow> bool) \<Rightarrow> string \<Rightarrow> bool" where
  "display_name nfc s \<longleftrightarrow>
     1 \<le> char_count s \<and> char_count s \<le> 64 \<and> \<not> has_control s \<and>
     \<not> (\<exists>w \<in> set ws_seqs. is_prefix_of w s) \<and>
     \<not> (\<exists>w \<in> set ws_seqs. is_prefix_of (rev w) (rev s)) \<and> nfc s"

definition idempotency_key :: "wvalue \<Rightarrow> bool" where
  "idempotency_key v =
     (case str_of v of
        None \<Rightarrow> False
      | Some s \<Rightarrow> 16 \<le> length s \<and> length s \<le> 128 \<and>
          list_all (\<lambda>b. is_lower b \<or> is_upper b \<or> is_digit b \<or> b = CHR ''_'' \<or> b = CHR ''-'') s)"

definition operation_id :: "wvalue \<Rightarrow> bool" where
  "operation_id v =
     (case str_of v of
        None \<Rightarrow> False
      | Some s \<Rightarrow> length s = 32 \<and>
          list_all (\<lambda>b. is_digit b \<or> (CHR ''a'' \<le> b \<and> b \<le> CHR ''f'')) s)"

text \<open>The scalar of a signature, compared with the group order from its most significant byte.\<close>

fun below_order :: "nat list \<Rightarrow> nat list \<Rightarrow> bool" where
  "below_order (x # xs) (y # ys) = (if x < y then True else if y < x then False else below_order xs ys)"
| "below_order _ _ = False"

definition scalar_is_canonical :: "nat list \<Rightarrow> bool" where
  "scalar_is_canonical s = below_order (rev s) (rev group_order)"

section \<open>Verification\<close>

record trusted_key =
  tk_key_id :: string
  tk_public_key :: string
  tk_revoked :: bool

record verifier =
  vf_harness_id :: string
  vf_keys :: "trusted_key list"
  vf_now :: nat
  vf_seen_nonces :: "string set"

record verified =
  vd_operation :: string
  vd_command :: wvalue
  vd_payload_hash :: string
  vd_unsigned_canonical :: string

definition closed_members :: "(string \<times> wvalue) list \<Rightarrow> string list \<Rightarrow> string option" where
  "closed_members ms allowed =
     (if \<exists>m \<in> set ms. fst m \<notin> set allowed then Some ''UNKNOWN_FIELD''
      else if \<exists>n \<in> set allowed. n \<notin> fst ` set ms then Some ''MISSING_FIELD''
      else None)"

text \<open>\<open>expect\<close> on a member of a closed object; \<open>WNull\<close> stands for the panic that cannot happen.\<close>

definition field :: "wvalue \<Rightarrow> string \<Rightarrow> wvalue" where
  "field doc name = (case member name doc of Some v \<Rightarrow> v | None \<Rightarrow> WNull)"

definition members_of :: "wvalue \<Rightarrow> (string \<times> wvalue) list" where
  "members_of v = (case v of WObject ms \<Rightarrow> ms | _ \<Rightarrow> [])"

definition hex_lower :: "string \<Rightarrow> string" where
  "hex_lower s = concat (map (\<lambda>b. [hex_char (of_char b div 16), hex_char (of_char b mod 16)]) s)"

definition payload_hash :: "(string \<Rightarrow> string) \<Rightarrow> string \<Rightarrow> wvalue \<Rightarrow> string" where
  "payload_hash sha256 operation payload =
     hex_lower (sha256 (''LA-WEB-PROVISIONING/1'' @ [CHR 0x00] @ ''payload'' @ [CHR 0x00] @
       operation @ [CHR 0x00] @ jcs payload))"

text \<open>Step 5: the protocol of the envelope.\<close>

definition check_protocol :: "wvalue \<Rightarrow> string option" where
  "check_protocol doc =
     (case doc of
        WObject _ \<Rightarrow>
          (case member ''protocol'' doc of
             Some (WString p) \<Rightarrow> if p = protocol then None else Some ''UNSUPPORTED_PROTOCOL''
           | _ \<Rightarrow> Some ''INVALID_ENVELOPE'')
      | _ \<Rightarrow> Some ''INVALID_ENVELOPE'')"

text \<open>Step 7: purpose, operation and the fields of the envelope.\<close>

definition envelope_fields_ok :: "wvalue \<Rightarrow> bool" where
  "envelope_fields_ok doc \<longleftrightarrow>
     prefixed_id (field doc ''audience'') ''hns_'' \<and>
     prefixed_id (field doc ''commandId'') ''cmd_'' \<and>
     timestamp (field doc ''expiresAt'') \<noteq> None \<and>
     timestamp (field doc ''issuedAt'') \<noteq> None \<and>
     prefixed_id (field doc ''jobId'') ''prv_'' \<and>
     key_id (field doc ''keyId'') \<and>
     (case str_of (field doc ''nonce'') of None \<Rightarrow> False | Some n \<Rightarrow> base64url n 32 \<noteq> None) \<and>
     (case field doc ''payload'' of WObject _ \<Rightarrow> True | _ \<Rightarrow> False) \<and>
     prefixed_id (field doc ''requestId'') ''req_'' \<and>
     (case str_of (field doc ''signature'') of None \<Rightarrow> False | Some s \<Rightarrow> base64url s 64 \<noteq> None)"

definition check_envelope :: "wvalue \<Rightarrow> string + string" where
  "check_envelope doc =
     (case str_of (field doc ''purpose'') of
        None \<Rightarrow> Inl ''INVALID_FIELD''
      | Some p \<Rightarrow>
          if p \<noteq> purpose then Inl ''WRONG_PURPOSE''
          else case str_of (field doc ''operation'') of
              None \<Rightarrow> Inl ''INVALID_FIELD''
            | Some op \<Rightarrow>
                if op \<notin> set operations then Inl ''UNSUPPORTED_OPERATION''
                else if \<not> envelope_fields_ok doc then Inl ''INVALID_FIELD''
                else Inr op)"

text \<open>Step 8: the payload of the operation, the first rule that fails first.\<close>

definition check_create_payload :: "(string \<Rightarrow> bool) \<Rightarrow> wvalue \<Rightarrow> string option" where
  "check_create_payload nfc p =
     (case closed_members (members_of p) create_payload of
        Some c \<Rightarrow> Some c
      | None \<Rightarrow>
          map_option snd (find (\<lambda>(ok, _). \<not> ok)
            [((case str_of (field p ''displayName'') of None \<Rightarrow> False | Some s \<Rightarrow> display_name nfc s),
              ''INVALID_DISPLAY_NAME''),
             (idempotency_key (field p ''idempotencyKey''), ''INVALID_IDEMPOTENCY_KEY''),
             (issuer (field p ''issuer''), ''INVALID_ISSUER''),
             (prefixed_id (field p ''profileId'') ''agt_'', ''INVALID_PROFILE_ID''),
             (prefixed_id (field p ''subject'') ''usr_'', ''INVALID_SUBJECT''),
             (str_of (field p ''template'') = Some ''assistant'', ''INVALID_TEMPLATE'')]))"

definition check_operation_payload :: "wvalue \<Rightarrow> string option" where
  "check_operation_payload p =
     (case closed_members (members_of p) operation_payload of
        Some c \<Rightarrow> Some c
      | None \<Rightarrow>
          if \<not> operation_id (field p ''operationId'') then Some ''INVALID_OPERATION_ID''
          else if \<not> prefixed_id (field p ''profileId'') ''agt_'' then Some ''INVALID_PROFILE_ID''
          else None)"

definition stamp :: "wvalue \<Rightarrow> string \<Rightarrow> nat" where
  "stamp doc name = (case timestamp (field doc name) of Some n \<Rightarrow> n | None \<Rightarrow> 0)"

text \<open>Steps 5 to 8 of a parsed document: the operation, or the first code that fails.\<close>

definition check_document :: "(string \<Rightarrow> bool) \<Rightarrow> wvalue \<Rightarrow> string + string" where
  "check_document nfc doc =
     (case check_protocol doc of
        Some c \<Rightarrow> Inl c
      | None \<Rightarrow>
          (case closed_members (members_of doc) envelope of
             Some c \<Rightarrow> Inl c
           | None \<Rightarrow>
               (case check_envelope doc of
                  Inl c \<Rightarrow> Inl c
                | Inr op \<Rightarrow>
                    (case (if op = ''profile.create'' then check_create_payload nfc (field doc ''payload'')
                           else check_operation_payload (field doc ''payload'')) of
                       Some c \<Rightarrow> Inl c
                     | None \<Rightarrow>
                         if stamp doc ''issuedAt'' < stamp doc ''expiresAt'' \<and>
                            stamp doc ''expiresAt'' - stamp doc ''issuedAt'' \<le> max_lifetime_seconds
                         then Inr op else Inl ''INVALID_LIFETIME''))))"

text \<open>Steps 1 to 9: the form of a body.\<close>

definition check_form :: "(string \<Rightarrow> bool) \<Rightarrow> string \<Rightarrow> string + wvalue \<times> string" where
  "check_form nfc body =
     (if max_message_bytes < length body then Inl ''PAYLOAD_TOO_LARGE''
      else case parse_strict body of
          Inl c \<Rightarrow> Inl c
        | Inr doc \<Rightarrow>
            if has_duplicate doc then Inl ''DUPLICATE_KEY''
            else if \<not> in_value_profile doc then Inl ''INVALID_JSON_VALUE''
            else case check_document nfc doc of
                Inl c \<Rightarrow> Inl c
              | Inr op \<Rightarrow> if jcs doc \<noteq> body then Inl ''NON_CANONICAL'' else Inr (doc, op))"

definition text_field :: "wvalue \<Rightarrow> string \<Rightarrow> string" where
  "text_field doc name = (case str_of (field doc name) of Some s \<Rightarrow> s | None \<Rightarrow> [])"

definition unsigned :: "wvalue \<Rightarrow> wvalue" where
  "unsigned doc = WObject (filter (\<lambda>m. fst m \<noteq> ''signature'') (members_of doc))"

definition signature_of :: "wvalue \<Rightarrow> nat list" where
  "signature_of doc = (case base64url (text_field doc ''signature'') 64 of Some s \<Rightarrow> s | None \<Rightarrow> [])"

text \<open>Steps 10 and 11: the key and the signature.\<close>

definition check_trust ::
    "(string \<Rightarrow> string \<Rightarrow> nat list \<Rightarrow> bool) \<Rightarrow> trusted_key list \<Rightarrow> wvalue \<Rightarrow> string option" where
  "check_trust ed25519 keys doc =
     (case find (\<lambda>k. tk_key_id k = text_field doc ''keyId'') keys of
        None \<Rightarrow> Some ''UNKNOWN_KEY''
      | Some k \<Rightarrow>
          if tk_revoked k then Some ''KEY_REVOKED''
          else if \<not> scalar_is_canonical (drop 32 (signature_of doc)) then Some ''BAD_SIGNATURE''
          else if ed25519 (tk_public_key k) (signing_context @ jcs (unsigned doc)) (signature_of doc)
          then None else Some ''BAD_SIGNATURE'')"

text \<open>Step 12: the audience and the window; the nonce is the last check.\<close>

definition check_window :: "verifier \<Rightarrow> wvalue \<Rightarrow> string option" where
  "check_window v doc =
     (if str_of (field doc ''audience'') \<noteq> Some (vf_harness_id v) then Some ''WRONG_AUDIENCE''
      else if vf_now v + max_skew < stamp doc ''issuedAt'' then Some ''NOT_YET_VALID''
      else if stamp doc ''expiresAt'' + max_skew \<le> vf_now v then Some ''EXPIRED''
      else None)"

definition verify_command ::
    "(string \<Rightarrow> bool) \<Rightarrow> (string \<Rightarrow> string) \<Rightarrow> (string \<Rightarrow> string \<Rightarrow> nat list \<Rightarrow> bool) \<Rightarrow>
     verifier \<Rightarrow> string \<Rightarrow> (string + verified) \<times> verifier" where
  "verify_command nfc sha256 ed25519 v body =
     (case check_form nfc body of
        Inl c \<Rightarrow> (Inl c, v)
      | Inr (doc, op) \<Rightarrow>
          (case check_trust ed25519 (vf_keys v) doc of
             Some c \<Rightarrow> (Inl c, v)
           | None \<Rightarrow>
               (case check_window v doc of
                  Some c \<Rightarrow> (Inl c, v)
                | None \<Rightarrow>
                    let nonce = text_field doc ''nonce''
                    in if nonce \<in> vf_seen_nonces v then (Inl ''REPLAY_DETECTED'', v)
                       else (Inr \<lparr>vd_operation = op, vd_command = doc,
                               vd_payload_hash = payload_hash sha256 op (field doc ''payload''),
                               vd_unsigned_canonical = jcs (unsigned doc)\<rparr>,
                             v\<lparr>vf_seen_nonces := insert nonce (vf_seen_nonces v)\<rparr>))))"

section \<open>Encodings\<close>

text \<open>Base64url: the decoded bytes and the digits are the same number, so the text is unique.\<close>

definition number_256 :: "nat list \<Rightarrow> nat" where
  "number_256 xs = foldl (\<lambda>n b. n * 256 + b) 0 xs"

fun number_64 :: "string \<Rightarrow> nat option" where
  "number_64 [] = Some 0"
| "number_64 (c # s) =
     (case (b64_digit c, number_64 s) of
        (Some v, Some n) \<Rightarrow> Some (v * 64 ^ length s + n) | _ \<Rightarrow> None)"

lemma number_256_snoc [simp]: "number_256 (xs @ [b]) = number_256 xs * 256 + b" "number_256 [] = 0"
  by (simp_all add: number_256_def)

lemma b64_digit_ranges:
  "b64_digit c = Some v \<longleftrightarrow>
     (is_upper c \<and> of_char c = v + 65) \<or> (is_lower c \<and> of_char c + 26 = v + 97) \<or>
     (is_digit c \<and> of_char c + 52 = v + 48) \<or> (c = CHR ''-'' \<and> v = 62) \<or> (c = CHR ''_'' \<and> v = 63)"
  by (auto simp: b64_digit_def is_upper_def is_lower_def is_digit_def less_eq_char_def split: if_splits)

lemma b64_digit_less: "b64_digit c = Some v \<Longrightarrow> v < 64"
  by (auto simp: b64_digit_ranges is_upper_def is_lower_def is_digit_def less_eq_char_def)

lemma of_char_inj: "(of_char c :: nat) = of_char d \<Longrightarrow> c = d"
  by (metis char_of_char)

lemma b64_digit_inj: "b64_digit c = Some v \<Longrightarrow> b64_digit d = Some v \<Longrightarrow> c = d"
  by (auto simp: b64_digit_ranges is_upper_def is_lower_def is_digit_def less_eq_char_def)
    (metis of_char_inj)+

lemma number_64_less: "number_64 s = Some n \<Longrightarrow> n < 64 ^ length s"
proof (induction s arbitrary: n)
  case (Cons c s)
  then obtain v m where v: "b64_digit c = Some v" "number_64 s = Some m" "n = v * 64 ^ length s + m"
    by (auto split: option.splits)
  then have "v < 64" "m < 64 ^ length s" using Cons.IH b64_digit_less by auto
  then have "v * 64 ^ length s + m < (v + 1) * 64 ^ length s" by (simp add: algebra_simps)
  also have "\<dots> \<le> 64 * 64 ^ length s" using \<open>v < 64\<close> by (intro mult_right_mono) auto
  finally show ?case using v by simp
qed simp

lemma number_64_inj:
  "number_64 s = Some n \<Longrightarrow> number_64 t = Some n \<Longrightarrow> length s = length t \<Longrightarrow> s = t"
proof (induction s arbitrary: t n)
  case (Cons c s)
  then obtain d u where t: "t = d # u" by (cases t) auto
  obtain v m where v: "b64_digit c = Some v" "number_64 s = Some m" "n = v * 64 ^ length s + m"
    using Cons.prems(1) by (auto split: option.splits)
  obtain w k where w: "b64_digit d = Some w" "number_64 u = Some k" "n = w * 64 ^ length s + k"
    using Cons.prems(2,3) t by (auto split: option.splits)
  have "m < 64 ^ length s" "k < 64 ^ length s"
    using number_64_less v(2) w(2) Cons.prems(3) t by fastforce+
  then have "(v * 64 ^ length s + m) div 64 ^ length s = v" "(w * 64 ^ length s + k) div 64 ^ length s = w"
    by simp_all
  then have "v = w" using v(3) w(3) by metis
  moreover from this have "m = k" using v(3) w(3) by simp
  ultimately show ?case using Cons.IH v w Cons.prems(3) t b64_digit_inj by force
qed simp

lemma b64_loop_number:
  assumes "b64_loop s acc bits out = Some (out', acc')" "acc < 2 ^ bits" "bits < 8"
  shows "\<exists>n bits'. number_64 s = Some n \<and> bits' < 8 \<and>
    8 * length out' + bits' = 8 * length out + bits + 6 * length s \<and>
    number_256 out' * 2 ^ bits' + acc' = (number_256 out * 2 ^ bits + acc) * 64 ^ length s + n"
  using assms
proof (induction s acc bits out rule: b64_loop.induct)
  case (2 c s acc bits out)
  then obtain v where v: "b64_digit c = Some v" by (auto split: option.splits)
  have v64: "v < 64" by (rule b64_digit_less [OF v])
  have acc1: "acc * 64 + v < 2 ^ (bits + 6)"
  proof -
    have "acc * 64 + v < (acc + 1) * 64" using v64 by simp
    also have "\<dots> \<le> 2 ^ bits * 64" using "2.prems"(2) by (intro mult_right_mono) auto
    finally show ?thesis by (simp add: power_add)
  qed
  show ?case
  proof (cases "8 \<le> bits + 6")
    case True
    let ?b = "bits + 6 - 8" and ?acc1 = "acc * 64 + v"
    have p2: "(2::nat) ^ (bits + 6) = 256 * 2 ^ ?b"
    proof -
      have "(2::nat) ^ (bits + 6) = 2 ^ (8 + ?b)" using True by simp
      then show ?thesis by (simp only: power_add) simp
    qed
    have "?acc1 div 2 ^ ?b < 256"
      by (rule less_mult_imp_div_less) (use acc1 p2 in simp)
    then have byte: "?acc1 div 2 ^ ?b mod 256 = ?acc1 div 2 ^ ?b" by simp
    have rest: "b64_loop s (?acc1 mod 2 ^ ?b) ?b (out @ [?acc1 div 2 ^ ?b]) = Some (out', acc')"
      using "2.prems"(1) True v byte by (simp add: Let_def)
    obtain n bits' where n: "number_64 s = Some n" "bits' < 8"
      "8 * length out' + bits' = 8 * length (out @ [?acc1 div 2 ^ ?b]) + ?b + 6 * length s"
      "number_256 out' * 2 ^ bits' + acc' =
         (number_256 (out @ [?acc1 div 2 ^ ?b]) * 2 ^ ?b + ?acc1 mod 2 ^ ?b) * 64 ^ length s + n"
    proof -
      have m: "?acc1 mod 2 ^ ?b < 2 ^ ?b" "?b < 8" using "2.prems"(3) by auto
      from "2.IH"(1) [OF v refl refl True, unfolded byte, OF rest m] that show thesis by blast
    qed
    have p: "(2::nat) ^ bits * 64 = 256 * 2 ^ ?b"
      using p2 by (simp only: power_add) simp
    have "number_256 (out @ [?acc1 div 2 ^ ?b]) * 2 ^ ?b + ?acc1 mod 2 ^ ?b =
        number_256 out * (256 * 2 ^ ?b) + (?acc1 div 2 ^ ?b * 2 ^ ?b + ?acc1 mod 2 ^ ?b)"
      by (simp only: number_256_snoc algebra_simps)
    also have "\<dots> = (number_256 out * 2 ^ bits + acc) * 64 + v"
      by (simp only: p [symmetric] div_mult_mod_eq) (simp add: algebra_simps)
    finally have "number_256 out' * 2 ^ bits' + acc' =
        ((number_256 out * 2 ^ bits + acc) * 64 + v) * 64 ^ length s + n" using n(4) by simp
    then show ?thesis using v n True by (auto simp: algebra_simps)
  next
    case False
    have rest: "b64_loop s (acc * 64 + v) (bits + 6) out = Some (out', acc')"
      using "2.prems"(1) False v by (simp add: Let_def)
    obtain n bits' where n: "number_64 s = Some n" "bits' < 8"
      "8 * length out' + bits' = 8 * length out + (bits + 6) + 6 * length s"
      "number_256 out' * 2 ^ bits' + acc' =
         (number_256 out * 2 ^ (bits + 6) + (acc * 64 + v)) * 64 ^ length s + n"
      using "2.IH"(2) [OF v refl refl False] rest acc1 False by auto
    then show ?thesis using v by (auto simp: algebra_simps power_add)
  qed
qed simp

lemma base64url_unique:
  assumes "base64url s n = Some b" "base64url t n = Some b"
  shows "s = t"
proof -
  have len: "length s = length t" using assms by (auto simp: base64url_def split: if_splits)
  have ls: "b64_loop s 0 0 [] = Some (b, 0)" and lt: "b64_loop t 0 0 [] = Some (b, 0)"
    using assms by (auto simp: base64url_def split: if_splits option.splits)
  from b64_loop_number [OF ls] b64_loop_number [OF lt] len show ?thesis
    by (auto intro: number_64_inj)
qed

text \<open>The scalar comparison is the comparison of the numbers.\<close>

definition le_number :: "nat list \<Rightarrow> nat" where
  "le_number xs = number_256 (rev xs)"

lemma number_256_Cons: "number_256 (x # xs) = x * 256 ^ length xs + number_256 xs"
proof -
  have "foldl (\<lambda>n b. n * 256 + b) a xs = a * 256 ^ length xs + foldl (\<lambda>n b. n * 256 + b) 0 xs" for a
  proof (induction xs arbitrary: a)
    case (Cons y ys)
    from Cons.IH [of "a * 256 + y"] Cons.IH [of y] show ?case by (simp add: algebra_simps)
  qed simp
  from this [of x] show ?thesis by (simp add: number_256_def)
qed

lemma number_256_less: "\<forall>x \<in> set xs. x < 256 \<Longrightarrow> number_256 xs < 256 ^ length xs"
proof (induction xs)
  case (Cons x xs)
  then have "number_256 (x # xs) < (x + 1) * 256 ^ length xs" by (simp add: number_256_Cons)
  also have "\<dots> \<le> 256 * 256 ^ length xs" using Cons.prems by (intro mult_right_mono) auto
  finally show ?case by simp
qed simp

lemma below_order_number:
  "length xs = length ys \<Longrightarrow> \<forall>x \<in> set xs. x < 256 \<Longrightarrow> \<forall>y \<in> set ys. y < 256 \<Longrightarrow>
     below_order xs ys \<longleftrightarrow> number_256 xs < number_256 ys"
proof (induction xs ys rule: below_order.induct)
  case (1 x xs y ys)
  have l: "length xs = length ys" using 1 by simp
  have less: "number_256 xs < 256 ^ length ys" "number_256 ys < 256 ^ length ys"
    using number_256_less [of xs] number_256_less [of ys] 1 by simp_all
  have step: "a * 256 ^ length ys + number_256 us < b * 256 ^ length ys + number_256 vs"
    if "a < b" "number_256 us < 256 ^ length ys" for a b :: nat and us vs
  proof -
    have "a * 256 ^ length ys + number_256 us < (a + 1) * 256 ^ length ys" using that by simp
    also have "\<dots> \<le> b * 256 ^ length ys" using that by (intro mult_right_mono) auto
    finally show ?thesis by simp
  qed
  show ?case using 1 l step [of x y xs ys] step [of y x ys xs] less
    by (cases x y rule: linorder_cases) (auto simp: number_256_Cons)
qed simp_all

lemma scalar_is_canonical_number:
  assumes "length s = 32" "\<forall>x \<in> set s. x < 256"
  shows "scalar_is_canonical s \<longleftrightarrow> le_number s < le_number group_order"
  unfolding scalar_is_canonical_def le_number_def
  by (rule below_order_number) (use assms in \<open>simp_all add: group_order_def\<close>)

section \<open>Acceptance\<close>

lemma fits_profile: "fits d v \<Longrightarrow> in_value_profile v"
  by (induction d v rule: fits.induct) auto

lemma parse_canonical_iff:
  "parse_strict body = Inr doc \<and> in_value_profile doc \<and> jcs doc = body \<longleftrightarrow>
     fits 1 doc \<and> canon doc = doc \<and> jcs doc = body"
proof
  assume a: "parse_strict body = Inr doc \<and> in_value_profile doc \<and> jcs doc = body"
  then have f: "fits 1 doc" using parse_fits by blast
  from parse_jcs [OF f] a f show "fits 1 doc \<and> canon doc = doc \<and> jcs doc = body" by simp
next
  assume a: "fits 1 doc \<and> canon doc = doc \<and> jcs doc = body"
  then show "parse_strict body = Inr doc \<and> in_value_profile doc \<and> jcs doc = body"
    using parse_jcs [of doc] fits_profile by auto
qed

text \<open>The form of a command, stated on the document instead of its bytes.\<close>

definition command_form :: "(string \<Rightarrow> bool) \<Rightarrow> wvalue \<Rightarrow> string \<Rightarrow> bool" where
  "command_form nfc doc op \<longleftrightarrow>
     fits 1 doc \<and> canon doc = doc \<and> \<not> has_duplicate doc \<and>
     length (jcs doc) \<le> max_message_bytes \<and> check_document nfc doc = Inr op"

lemma check_form_iff:
  "check_form nfc body = Inr (doc, op) \<longleftrightarrow> command_form nfc doc op \<and> body = jcs doc"
proof -
  have "check_form nfc body = Inr (doc, op) \<longleftrightarrow>
      length body \<le> max_message_bytes \<and> \<not> has_duplicate doc \<and> check_document nfc doc = Inr op \<and>
      (parse_strict body = Inr doc \<and> in_value_profile doc \<and> jcs doc = body)"
    by (auto simp: check_form_def split: sum.splits if_splits)
  then show ?thesis unfolding parse_canonical_iff command_form_def by auto
qed

definition fresh_nonce :: "verifier \<Rightarrow> wvalue \<Rightarrow> bool" where
  "fresh_nonce v doc \<longleftrightarrow> text_field doc ''nonce'' \<notin> vf_seen_nonces v"

definition verified_of :: "(string \<Rightarrow> string) \<Rightarrow> wvalue \<Rightarrow> string \<Rightarrow> verified" where
  "verified_of sha256 doc op =
     \<lparr>vd_operation = op, vd_command = doc,
      vd_payload_hash = payload_hash sha256 op (field doc ''payload''),
      vd_unsigned_canonical = jcs (unsigned doc)\<rparr>"

lemma verify_accepts_iff:
  "verify_command nfc sha256 ed25519 v body = (Inr vd, v') \<longleftrightarrow>
     (\<exists>doc op. body = jcs doc \<and> command_form nfc doc op \<and> check_trust ed25519 (vf_keys v) doc = None \<and>
        check_window v doc = None \<and> fresh_nonce v doc \<and> vd = verified_of sha256 doc op \<and>
        v' = v\<lparr>vf_seen_nonces := insert (text_field doc ''nonce'') (vf_seen_nonces v)\<rparr>)"
proof (cases "check_form nfc body")
  case (Inl c)
  then show ?thesis using check_form_iff [of nfc body] by (auto simp: verify_command_def)
next
  case (Inr r)
  then obtain doc op where r: "check_form nfc body = Inr (doc, op)" by (cases r) auto
  then have form: "command_form nfc doc op" "body = jcs doc" using check_form_iff by auto
  have uniq: "body = jcs doc' \<Longrightarrow> command_form nfc doc' op' \<Longrightarrow> doc' = doc \<and> op' = op" for doc' op'
    using check_form_iff [of nfc body doc' op'] r by auto
  have "verify_command nfc sha256 ed25519 v body = (Inr vd, v') \<longleftrightarrow>
      check_trust ed25519 (vf_keys v) doc = None \<and> check_window v doc = None \<and> fresh_nonce v doc \<and>
      vd = verified_of sha256 doc op \<and>
      v' = v\<lparr>vf_seen_nonces := insert (text_field doc ''nonce'') (vf_seen_nonces v)\<rparr>"
    by (auto simp: verify_command_def r fresh_nonce_def verified_of_def Let_def split: option.splits)
  then show ?thesis using form uniq by blast
qed

lemma verify_refuses_unchanged:
  "verify_command nfc sha256 ed25519 v body = (Inl c, v') \<Longrightarrow> v' = v"
  by (auto simp: verify_command_def Let_def split: sum.splits option.splits if_splits)

text \<open>Trust, as the conditions that hold of an accepted command.\<close>

lemma check_trust_None:
  "check_trust ed25519 keys doc = None \<longleftrightarrow>
     (\<exists>k. find (\<lambda>k. tk_key_id k = text_field doc ''keyId'') keys = Some k \<and> \<not> tk_revoked k \<and>
        scalar_is_canonical (drop 32 (signature_of doc)) \<and>
        ed25519 (tk_public_key k) (signing_context @ jcs (unsigned doc)) (signature_of doc))"
  by (auto simp: check_trust_def split: option.splits if_splits)

lemma check_window_None:
  "check_window v doc = None \<longleftrightarrow>
     str_of (field doc ''audience'') = Some (vf_harness_id v) \<and>
     stamp doc ''issuedAt'' \<le> vf_now v + max_skew \<and> vf_now v < stamp doc ''expiresAt'' + max_skew"
  by (auto simp: check_window_def not_less not_le)

text \<open>The document an accepted form has.\<close>

lemma closed_members_None:
  "closed_members ms allowed = None \<longleftrightarrow> fst ` set ms = set allowed"
  by (auto simp: closed_members_def split: if_splits)

lemma check_document_form:
  assumes "check_document nfc doc = Inr op"
  shows "\<exists>ms. doc = WObject ms \<and> fst ` set ms = set envelope"
    and "op \<in> set operations" and "str_of (field doc ''operation'') = Some op"
    and "envelope_fields_ok doc"
    and "fst ` set (members_of (field doc ''payload'')) =
      set (if op = ''profile.create'' then create_payload else operation_payload)"
    and "stamp doc ''issuedAt'' < stamp doc ''expiresAt''"
    and "stamp doc ''expiresAt'' \<le> stamp doc ''issuedAt'' + max_lifetime_seconds"
proof -
  have p: "check_protocol doc = None" and c: "closed_members (members_of doc) envelope = None"
    and e: "check_envelope doc = Inr op"
    and pl: "(if op = ''profile.create'' then check_create_payload nfc (field doc ''payload'')
       else check_operation_payload (field doc ''payload'')) = None"
    and st: "stamp doc ''issuedAt'' < stamp doc ''expiresAt''"
      "stamp doc ''expiresAt'' - stamp doc ''issuedAt'' \<le> max_lifetime_seconds"
    using assms by (auto simp: check_document_def simp del: not_None_eq split: option.splits sum.splits if_splits)
  from p obtain ms where ms: "doc = WObject ms" by (cases doc) (auto simp: check_protocol_def)
  with c show "\<exists>ms. doc = WObject ms \<and> fst ` set ms = set envelope"
    by (simp add: closed_members_None members_of_def)
  from e show "op \<in> set operations" "str_of (field doc ''operation'') = Some op" "envelope_fields_ok doc"
    by (auto simp: check_envelope_def split: option.splits if_splits)
  from pl show "fst ` set (members_of (field doc ''payload'')) =
      set (if op = ''profile.create'' then create_payload else operation_payload)"
    by (auto simp: check_create_payload_def check_operation_payload_def closed_members_None
        split: if_splits option.splits)
  from st show "stamp doc ''issuedAt'' < stamp doc ''expiresAt''"
    "stamp doc ''expiresAt'' \<le> stamp doc ''issuedAt'' + max_lifetime_seconds" by simp_all
qed

subsection \<open>The types of the wire\<close>

text \<open>
  The specification's types, written as sets of values: identifiers, key ids, times, binary fields,
  and the fields of the payloads.
\<close>

definition lower_alnum :: "char \<Rightarrow> bool" where
  "lower_alnum c \<longleftrightarrow> between (CHR ''a'') (CHR ''z'') c \<or> between (CHR ''0'') (CHR ''9'') c"

definition token_char :: "char \<Rightarrow> bool" where
  "token_char c \<longleftrightarrow> lower_alnum c \<or> between (CHR ''A'') (CHR ''Z'') c \<or> c = CHR ''_'' \<or> c = CHR ''-''"

definition wire_id :: "string \<Rightarrow> wvalue \<Rightarrow> bool" where
  "wire_id prefix v \<longleftrightarrow>
     (\<exists>r. v = WString (prefix @ r) \<and> 8 \<le> length r \<and> length r \<le> 60 \<and> (\<forall>c \<in> set r. lower_alnum c))"

definition wire_key_id :: "wvalue \<Rightarrow> bool" where
  "wire_key_id v \<longleftrightarrow>
     (\<exists>c r. v = WString (c # r) \<and> 2 \<le> length r \<and> length r \<le> 63 \<and> lower_alnum c \<and>
        (\<forall>x \<in> set r. lower_alnum x \<or> x \<in> {CHR ''.'', CHR ''_'', CHR ''-''}))"

definition wire_time :: "wvalue \<Rightarrow> bool" where
  "wire_time v \<longleftrightarrow>
     (\<exists>s. v = WNumber s \<and> length s = 10 \<and> hd s \<noteq> CHR ''0'' \<and> (\<forall>c \<in> set s. between (CHR ''0'') (CHR ''9'') c))"

definition wire_bytes :: "nat \<Rightarrow> wvalue \<Rightarrow> bool" where
  "wire_bytes n v \<longleftrightarrow>
     (\<exists>s bs. v = WString s \<and> (\<forall>c \<in> set s. token_char c) \<and> base64url s n = Some bs \<and> length bs = n)"

definition wire_name :: "(string \<Rightarrow> bool) \<Rightarrow> wvalue \<Rightarrow> bool" where
  "wire_name nfc v \<longleftrightarrow>
     (\<exists>s. v = WString s \<and> 1 \<le> char_count s \<and> char_count s \<le> 64 \<and> nfc s \<and>
        (\<forall>c \<in> set s. CHR 0x20 \<le> c \<and> c \<noteq> CHR 0x7F) \<and>
        (\<forall>a b r. s = a @ CHR 0xC2 # b # r \<longrightarrow> \<not> between (CHR 0x80) (CHR 0x9F) b) \<and>
        (\<forall>w \<in> set ws_seqs. \<forall>r. s \<noteq> w @ r \<and> s \<noteq> r @ w))"

definition wire_token :: "wvalue \<Rightarrow> bool" where
  "wire_token v \<longleftrightarrow>
     (\<exists>s. v = WString s \<and> 16 \<le> length s \<and> length s \<le> 128 \<and> (\<forall>c \<in> set s. token_char c))"

definition wire_operation_id :: "wvalue \<Rightarrow> bool" where
  "wire_operation_id v \<longleftrightarrow>
     (\<exists>s. v = WString s \<and> length s = 32 \<and>
        (\<forall>c \<in> set s. between (CHR ''0'') (CHR ''9'') c \<or> between (CHR ''a'') (CHR ''f'') c))"

definition wire_label :: "string \<Rightarrow> bool" where
  "wire_label l \<longleftrightarrow>
     1 \<le> length l \<and> length l \<le> 63 \<and> hd l \<noteq> CHR ''-'' \<and> last l \<noteq> CHR ''-'' \<and>
     (\<forall>c \<in> set l. lower_alnum c \<or> c = CHR ''-'')"

definition wire_port :: "string \<Rightarrow> bool" where
  "wire_port t \<longleftrightarrow>
     t = [] \<or> (\<exists>p. t = CHR '':'' # p \<and> p \<noteq> [] \<and> length p \<le> 5 \<and> hd p \<noteq> CHR ''0'' \<and>
       (\<forall>c \<in> set p. between (CHR ''0'') (CHR ''9'') c) \<and> 1 \<le> digits_value p \<and> digits_value p \<le> 65535)"

definition wire_issuer :: "wvalue \<Rightarrow> bool" where
  "wire_issuer v \<longleftrightarrow>
     (\<exists>host port. v = WString (''https://'' @ host @ port) \<and> length (''https://'' @ host @ port) \<le> 256 \<and>
        host \<noteq> [] \<and> length host \<le> 253 \<and> (\<forall>l \<in> set (split_on (CHR ''.'') host). wire_label l) \<and>
        wire_port port)"

definition wire_envelope :: "wvalue \<Rightarrow> bool" where
  "wire_envelope doc \<longleftrightarrow>
     field doc ''protocol'' = WString ''LA-WEB-PROVISIONING/1'' \<and>
     field doc ''purpose'' = WString ''provisioning-command'' \<and>
     wire_id ''hns_'' (field doc ''audience'') \<and> wire_id ''cmd_'' (field doc ''commandId'') \<and>
     wire_id ''prv_'' (field doc ''jobId'') \<and> wire_id ''req_'' (field doc ''requestId'') \<and>
     wire_key_id (field doc ''keyId'') \<and> wire_bytes 32 (field doc ''nonce'') \<and>
     wire_bytes 64 (field doc ''signature'') \<and>
     wire_time (field doc ''issuedAt'') \<and> wire_time (field doc ''expiresAt'')"

definition wire_payload :: "(string \<Rightarrow> bool) \<Rightarrow> string \<Rightarrow> wvalue \<Rightarrow> bool" where
  "wire_payload nfc op p \<longleftrightarrow>
     (if op = ''profile.create''
      then fst ` set (members_of p) =
          {''displayName'', ''idempotencyKey'', ''issuer'', ''profileId'', ''subject'', ''template''} \<and>
        wire_name nfc (field p ''displayName'') \<and> wire_token (field p ''idempotencyKey'') \<and>
        wire_issuer (field p ''issuer'') \<and> wire_id ''agt_'' (field p ''profileId'') \<and>
        wire_id ''usr_'' (field p ''subject'') \<and> field p ''template'' = WString ''assistant''
      else op \<in> {''profile.status'', ''profile.revoke''} \<and>
        fst ` set (members_of p) = {''operationId'', ''profileId''} \<and>
        wire_operation_id (field p ''operationId'') \<and> wire_id ''agt_'' (field p ''profileId''))"

lemma str_of_Some: "str_of v = Some s \<longleftrightarrow> v = WString s"
  by (cases v) simp_all

lemma char_ranges:
  "is_lower c \<longleftrightarrow> between (CHR ''a'') (CHR ''z'') c" "is_upper c \<longleftrightarrow> between (CHR ''A'') (CHR ''Z'') c"
  "is_digit c \<longleftrightarrow> between (CHR ''0'') (CHR ''9'') c"
  by (simp_all add: is_lower_def is_upper_def is_digit_def between_def)

lemma prefixed_id_wire: "prefixed_id v p \<longleftrightarrow> wire_id p v"
  by (cases v) (auto simp: prefixed_id_def wire_id_def strip_prefix_def is_prefix_of_iff list_all_iff
      lower_alnum_def char_ranges split: if_splits)

lemma key_id_wire:
  assumes "key_id v"
  shows "wire_key_id v"
proof -
  obtain s where s: "v = WString s" "3 \<le> length s" "length s \<le> 64"
    and i: "\<And>i. i < length s \<Longrightarrow> lower_alnum (s ! i) \<or> (0 < i \<and> s ! i \<in> {CHR ''.'', CHR ''_'', CHR ''-''})"
    using assms by (auto simp: key_id_def str_of_Some lower_alnum_def char_ranges split: option.splits)
  then obtain c r where cr: "s = c # r" by (cases s) auto
  have "lower_alnum x \<or> x \<in> {CHR ''.'', CHR ''_'', CHR ''-''}" if "x \<in> set r" for x
    using that i [of "Suc k" for k] by (auto simp: cr in_set_conv_nth)
  moreover have "lower_alnum c" using i [of 0] by (simp add: cr)
  ultimately show ?thesis using s by (simp add: wire_key_id_def cr)
qed

lemma timestamp_wire: "timestamp v \<noteq> None \<Longrightarrow> wire_time v"
  by (cases v) (auto simp: wire_time_def safe_integer_def canonical_integer_def list_all_iff char_ranges
      split: if_splits)

lemma b64_loop_chars: "b64_loop s acc bits out = Some r \<Longrightarrow> c \<in> set s \<Longrightarrow> token_char c"
proof (induction s arbitrary: acc bits out)
  case (Cons x s)
  have "token_char x" using Cons.prems(1)
    by (auto simp: b64_digit_def token_char_def lower_alnum_def char_ranges split: if_splits)
  then show ?case using Cons by (auto simp: Let_def split: option.splits if_splits)
qed simp

lemma base64url_wire: "base64url s n = Some bs \<Longrightarrow> wire_bytes n (WString s)"
  using b64_loop_chars [of s 0 0 "[]"]
  by (auto simp: wire_bytes_def base64url_def split: option.splits if_splits)

lemma has_control_char: "c \<in> set s \<Longrightarrow> c < CHR 0x20 \<or> c = CHR 0x7F \<Longrightarrow> has_control s"
  by (induction s) auto

lemma has_control_pair: "between (CHR 0x80) (CHR 0x9F) b \<Longrightarrow> has_control (a @ CHR 0xC2 # b # r)"
  by (induction a) auto

lemma display_name_wire:
  assumes "display_name nfc s"
  shows "wire_name nfc (WString s)"
proof -
  have "\<not> has_control s" and n: "1 \<le> char_count s" "char_count s \<le> 64" "nfc s"
    and ws: "\<forall>w \<in> set ws_seqs. \<not> is_prefix_of w s \<and> \<not> is_prefix_of (rev w) (rev s)"
    using assms by (auto simp: display_name_def)
  then have "\<forall>c \<in> set s. CHR 0x20 \<le> c \<and> c \<noteq> CHR 0x7F"
    "\<forall>a b r. s = a @ CHR 0xC2 # b # r \<longrightarrow> \<not> between (CHR 0x80) (CHR 0x9F) b"
    using has_control_char not_le has_control_pair by blast+
  moreover have "\<forall>w \<in> set ws_seqs. \<forall>r. s \<noteq> w @ r \<and> s \<noteq> r @ w"
    using ws by (metis is_prefix_of_iff rev_append)
  ultimately show ?thesis using n by (simp add: wire_name_def)
qed

lemma idempotency_key_wire: "idempotency_key v \<Longrightarrow> wire_token v"
  by (cases v) (auto simp: idempotency_key_def wire_token_def list_all_iff token_char_def lower_alnum_def char_ranges)

lemma operation_id_wire: "operation_id v \<Longrightarrow> wire_operation_id v"
  by (cases v) (auto simp: operation_id_def wire_operation_id_def list_all_iff char_ranges between_def)

lemma issuer_port_wire: "issuer_port p \<Longrightarrow> wire_port (CHR '':'' # p)"
  by (simp add: issuer_port_def wire_port_def list_all_iff char_ranges)

lemma issuer_label_wire: "issuer_label l \<Longrightarrow> wire_label l"
  by (auto simp: issuer_label_def wire_label_def list_all_iff char_ranges lower_alnum_def)

lemma issuer_wire:
  assumes "issuer v"
  shows "wire_issuer v"
proof -
  obtain rest where v: "v = WString (''https://'' @ rest)" "length (''https://'' @ rest) \<le> 256"
    using assms by (auto simp: issuer_def str_of_Some strip_prefix_Some not_less split: option.splits if_splits)
  then have "strip_prefix ''https://'' (''https://'' @ rest) = Some rest" by (simp add: strip_prefix_Some)
  then have i: "(case split_once (CHR '':'') rest of Some (h, p) \<Rightarrow> issuer_port p | None \<Rightarrow> True)"
    and h: "host = (case split_once (CHR '':'') rest of Some (h, p) \<Rightarrow> h | None \<Rightarrow> rest) \<Longrightarrow>
      host \<noteq> [] \<and> length host \<le> 253 \<and> list_all issuer_label (split_on (CHR ''.'') host)" for host
    using assms v(1) by (auto simp: issuer_def split: option.splits if_splits)
  obtain host port where split: "rest = host @ port" "wire_port port" and host: "host \<noteq> []"
    "length host \<le> 253" "list_all issuer_label (split_on (CHR ''.'') host)"
  proof (cases "split_once (CHR '':'') rest")
    case None
    then show ?thesis using that [of rest "[]"] h [of rest] by (simp add: wire_port_def)
  next
    case (Some hp)
    then show ?thesis
      using that [of "fst hp" "CHR '':'' # snd hp"] h [of "fst hp"] i issuer_port_wire [of "snd hp"]
        split_once_Some [of "CHR '':''" rest "fst hp" "snd hp"] by (cases hp) simp
  qed
  have labels: "\<forall>l \<in> set (split_on (CHR ''.'') host). wire_label l"
    using host(3) issuer_label_wire by (auto simp: list_all_iff)
  show ?thesis
    unfolding wire_issuer_def using v host(1,2) labels split by (intro exI [of _ host] exI [of _ port]) simp
qed

lemma create_payload_wire:
  assumes "check_create_payload nfc p = None"
  shows "wire_payload nfc ''profile.create'' p"
proof -
  have names: "fst ` set (members_of p) =
      {''displayName'', ''idempotencyKey'', ''issuer'', ''profileId'', ''subject'', ''template''}"
    using assms by (auto simp: check_create_payload_def closed_members_None create_payload_def
        split: option.splits)
  have failed: "find (\<lambda>(ok, _). \<not> ok) rules = None \<longleftrightarrow> list_all fst rules" for rules :: "(bool \<times> string) list"
    by (induction rules) auto
  from assms have "list_all fst
      [((case str_of (field p ''displayName'') of None \<Rightarrow> False | Some s \<Rightarrow> display_name nfc s),
        ''INVALID_DISPLAY_NAME''),
       (idempotency_key (field p ''idempotencyKey''), ''INVALID_IDEMPOTENCY_KEY''),
       (issuer (field p ''issuer''), ''INVALID_ISSUER''),
       (prefixed_id (field p ''profileId'') ''agt_'', ''INVALID_PROFILE_ID''),
       (prefixed_id (field p ''subject'') ''usr_'', ''INVALID_SUBJECT''),
       (str_of (field p ''template'') = Some ''assistant'', ''INVALID_TEMPLATE'')]"
    unfolding check_create_payload_def by (simp only: failed map_option_is_None option.distinct split: option.split_asm)
  moreover have "(case str_of v of None \<Rightarrow> False | Some s \<Rightarrow> display_name nfc s) \<Longrightarrow> wire_name nfc v" for v
    using display_name_wire by (simp add: str_of_Some split: option.split_asm)
  ultimately show ?thesis
    using names idempotency_key_wire issuer_wire
    by (simp add: wire_payload_def prefixed_id_wire str_of_Some)
qed

lemma operation_payload_wire:
  assumes "check_operation_payload p = None" and "op \<in> {''profile.status'', ''profile.revoke''}"
  shows "wire_payload nfc op p"
  using assms operation_id_wire
  by (auto simp: check_operation_payload_def wire_payload_def closed_members_None operation_payload_def
      prefixed_id_wire split: option.splits if_splits)

lemma check_document_typed:
  assumes "check_document nfc doc = Inr op"
  shows "wire_envelope doc" and "wire_payload nfc op (field doc ''payload'')"
proof -
  have p: "check_protocol doc = None" and e: "check_envelope doc = Inr op"
    and pl: "(if op = ''profile.create'' then check_create_payload nfc (field doc ''payload'')
       else check_operation_payload (field doc ''payload'')) = None"
    using assms by (auto simp: check_document_def simp del: not_None_eq split: option.splits sum.splits if_splits)
  have "field doc ''protocol'' = WString ''LA-WEB-PROVISIONING/1''"
    using p by (auto simp: check_protocol_def field_def protocol_def split: wvalue.splits option.splits if_splits)
  moreover have "field doc ''purpose'' = WString ''provisioning-command''"
    using e by (auto simp: check_envelope_def str_of_Some purpose_def split: option.splits if_splits)
  moreover have ok: "envelope_fields_ok doc" and ops: "op \<in> set operations"
    using check_document_form(2,4) [OF assms] by simp_all
  ultimately show "wire_envelope doc"
    using key_id_wire timestamp_wire base64url_wire
    by (auto simp: wire_envelope_def envelope_fields_ok_def prefixed_id_wire str_of_Some split: option.splits)
  show "wire_payload nfc op (field doc ''payload'')"
    using pl ops create_payload_wire operation_payload_wire by (auto simp: operations_def split: if_splits)
qed

lemma distinct_names: "duplicate_member seen ms \<longleftrightarrow>
    \<not> (distinct (map fst ms) \<and> set (map fst ms) \<inter> set seen = {} \<and> (\<forall>m \<in> set ms. \<not> has_duplicate (snd m)))"
proof (induction ms arbitrary: seen)
  case (Cons m ms)
  obtain k v where m: "m = (k, v)" by (cases m)
  have "duplicate_member seen (m # ms) \<longleftrightarrow> k \<in> set seen \<or> has_duplicate v \<or>
      \<not> (distinct (map fst ms) \<and> set (map fst ms) \<inter> set (k # seen) = {} \<and> (\<forall>m \<in> set ms. \<not> has_duplicate (snd m)))"
    unfolding m duplicate_member.simps Cons.IH ..
  then show ?case unfolding m by (simp del: duplicate_member.simps) blast
qed simp

section \<open>Histories of a verifier\<close>

text \<open>
  Calls at successive clocks and with the trusted keys of the moment; what a verifier accepts,
  in order. The nonces are kept between the calls.
\<close>

fun serve ::
    "(string \<Rightarrow> bool) \<Rightarrow> (string \<Rightarrow> string) \<Rightarrow> (string \<Rightarrow> string \<Rightarrow> nat list \<Rightarrow> bool) \<Rightarrow>
     (nat \<times> trusted_key list \<times> string) list \<Rightarrow> verifier \<Rightarrow> wvalue list" where
  "serve nfc sha256 ed25519 [] v = []"
| "serve nfc sha256 ed25519 ((now, keys, body) # calls) v =
     (case verify_command nfc sha256 ed25519 (v\<lparr>vf_now := now, vf_keys := keys\<rparr>) body of
        (Inl _, v') \<Rightarrow> serve nfc sha256 ed25519 calls v'
      | (Inr vd, v') \<Rightarrow> vd_command vd # serve nfc sha256 ed25519 calls v')"

lemma served_nonces:
  "distinct (map (\<lambda>doc. text_field doc ''nonce'') (serve nfc sha256 ed25519 calls v)) \<and>
   (\<forall>doc \<in> set (serve nfc sha256 ed25519 calls v). text_field doc ''nonce'' \<notin> vf_seen_nonces v)"
proof (induction calls arbitrary: v)
  case (Cons call calls)
  obtain now keys body where call: "call = (now, keys, body)" by (cases call) auto
  let ?v = "v\<lparr>vf_now := now, vf_keys := keys\<rparr>"
  obtain r v' where r: "verify_command nfc sha256 ed25519 ?v body = (r, v')" by fastforce
  show ?case
  proof (cases r)
    case (Inl c)
    with r have "v' = ?v" by (auto dest: verify_refuses_unchanged)
    then show ?thesis using Cons.IH [of v'] r Inl call by simp
  next
    case (Inr vd)
    from r [unfolded Inr verify_accepts_iff] obtain doc op where
      d: "fresh_nonce ?v doc" "vd = verified_of sha256 doc op"
        "v' = ?v\<lparr>vf_seen_nonces := insert (text_field doc ''nonce'') (vf_seen_nonces ?v)\<rparr>" by auto
    then show ?thesis using Cons.IH [of v'] r Inr call
      by (auto simp: verified_of_def fresh_nonce_def)
  qed
qed simp

lemma served_commands:
  "doc \<in> set (serve nfc sha256 ed25519 calls v) \<Longrightarrow>
     \<exists>now keys op. (now, keys, jcs doc) \<in> set calls \<and> command_form nfc doc op \<and>
       check_trust ed25519 keys doc = None \<and>
       check_window \<lparr>vf_harness_id = vf_harness_id v, vf_keys = keys, vf_now = now, vf_seen_nonces = {}\<rparr> doc = None"
proof (induction calls arbitrary: v)
  case (Cons call calls)
  obtain now keys body where call: "call = (now, keys, body)" by (cases call) auto
  let ?v = "v\<lparr>vf_now := now, vf_keys := keys\<rparr>"
  obtain r v' where r: "verify_command nfc sha256 ed25519 ?v body = (r, v')" by fastforce
  have id: "vf_harness_id v' = vf_harness_id v"
  proof (cases r)
    case (Inl c)
    then show ?thesis using r verify_refuses_unchanged by fastforce
  next
    case (Inr vd)
    from r [unfolded this verify_accepts_iff] show ?thesis by auto
  qed
  from Cons.prems call r consider (later) "doc \<in> set (serve nfc sha256 ed25519 calls v')"
    | (now) vd where "r = Inr vd" "doc = vd_command vd"
    by (cases r) auto
  then show ?case
  proof cases
    case later
    from Cons.IH [OF this] show ?thesis unfolding id by auto
  next
    case now
    from r [unfolded now(1) verify_accepts_iff] obtain doc' op where a: "body = jcs doc'"
      "command_form nfc doc' op" "check_trust ed25519 (vf_keys ?v) doc' = None"
      "check_window ?v doc' = None" "vd = verified_of sha256 doc' op" by blast
    then have "doc = doc'" using now(2) by (simp add: verified_of_def)
    with a show ?thesis unfolding call check_window_None
      by (intro exI [of _ now] exI [of _ keys] exI [of _ op]) simp
  qed
qed simp

section \<open>A sample command\<close>

lemma utf16_ascii: "list_all (\<lambda>c. c < CHR 0x80) s \<Longrightarrow> utf16_units s = map of_char s"
proof (induction s)
  case Nil
  then show ?case by (subst utf16_units.simps) simp
next
  case (Cons c s)
  have "utf8_head (c # s) = (1, True)" using Cons.prems by (auto simp: utf8_width_def)
  moreover have "(of_char c :: nat) < 0x10000" using Cons.prems by (simp add: less_char_def)
  ultimately show ?case using Cons by (subst utf16_units.simps) (simp add: scalar_of_def code_units_def)
qed

definition sample_fields :: "(string \<times> wvalue) list" where
  "sample_fields =
     [(''audience'', WString ''hns_00000000''), (''commandId'', WString ''cmd_00000000''),
      (''expiresAt'', WNumber ''1791000060''), (''issuedAt'', WNumber ''1791000000''),
      (''jobId'', WString ''prv_00000000''), (''keyId'', WString ''k00''),
      (''nonce'', WString (replicate 43 (CHR ''A''))), (''operation'', WString ''profile.status''),
      (''payload'', WObject
         [(''operationId'', WString (replicate 32 (CHR ''0''))), (''profileId'', WString ''agt_00000000'')]),
      (''protocol'', WString ''LA-WEB-PROVISIONING/1''), (''purpose'', WString ''provisioning-command''),
      (''requestId'', WString ''req_00000000''), (''signature'', WString (replicate 86 (CHR ''A'')))]"

definition sample_command :: wvalue where
  "sample_command = WObject sample_fields"

definition sample_verifier :: verifier where
  "sample_verifier = \<lparr>vf_harness_id = ''hns_00000000'',
     vf_keys = [\<lparr>tk_key_id = ''k00'', tk_public_key = [], tk_revoked = False\<rparr>],
     vf_now = 1791000030, vf_seen_nonces = {}\<rparr>"

lemma char_classes:
  "is_digit (CHR ''0'')" "is_digit (CHR ''1'')" "is_digit (CHR ''7'')" "is_digit (CHR ''9'')" "is_digit (CHR ''6'')"
  "is_lower (CHR ''k'')" "is_upper (CHR ''A'')" "CHR ''1'' \<le> CHR ''1''" "CHR ''1'' \<le> CHR ''9''"
  by code_simp+

lemma sample_stamps:
  "safe_integer ''1791000060'' = Some 1791000060" "safe_integer ''1791000000'' = Some 1791000000"
  by (simp_all add: safe_integer_def canonical_integer_def char_classes digits_value_def max_safe_integer_def)

lemma b64_zero_digit: "b64_digit (CHR ''A'') = Some 0"
  by (simp add: b64_digit_def char_classes)

lemma b64_zero_block:
  "b64_loop (CHR ''A'' # CHR ''A'' # CHR ''A'' # CHR ''A'' # s) 0 0 out = b64_loop s 0 0 (out @ [0, 0, 0])"
  by (simp add: b64_zero_digit Let_def)

lemma b64_zeros:
  "b64_loop (replicate (4 * n) (CHR ''A'') @ s) 0 0 out = b64_loop s 0 0 (out @ replicate (3 * n) 0)"
proof (induction n arbitrary: out)
  case (Suc n)
  have "replicate (4 * Suc n) (CHR ''A'') @ s =
      CHR ''A'' # CHR ''A'' # CHR ''A'' # CHR ''A'' # replicate (4 * n) (CHR ''A'') @ s"
    by (simp add: numeral_eq_Suc)
  moreover have "out @ replicate (3 * Suc n) (0 :: nat) = (out @ [0, 0, 0]) @ replicate (3 * n) 0"
    by (simp add: numeral_eq_Suc)
  ultimately show ?case using Suc.IH [of "out @ [0, 0, 0]"] by (simp only: b64_zero_block)
qed simp

lemma sample_base64:
  "base64url (replicate 43 (CHR ''A'')) 32 = Some (replicate 32 0)"
  "base64url (replicate 86 (CHR ''A'')) 64 = Some (replicate 64 0)"
proof -
  have r: "replicate 43 (CHR ''A'') = replicate (4 * 10) (CHR ''A'') @ [CHR ''A'', CHR ''A'', CHR ''A'']"
    "replicate 86 (CHR ''A'') = replicate (4 * 21) (CHR ''A'') @ [CHR ''A'', CHR ''A'']"
    by (simp_all add: numeral_eq_Suc)
  have "b64_loop (replicate 43 (CHR ''A'')) 0 0 [] = Some (replicate (3 * 10) 0 @ [0, 0], 0)"
    "b64_loop (replicate 86 (CHR ''A'')) 0 0 [] = Some (replicate (3 * 21) 0 @ [0], 0)"
    unfolding r b64_zeros by (simp_all add: b64_zero_digit Let_def)
  moreover have "replicate (3 * 10) 0 @ [0, 0] = replicate 32 (0 :: nat)"
    "replicate (3 * 21) 0 @ [0] = replicate 64 (0 :: nat)"
    by (simp_all add: numeral_eq_Suc)
  ultimately show "base64url (replicate 43 (CHR ''A'')) 32 = Some (replicate 32 0)"
    "base64url (replicate 86 (CHR ''A'')) 64 = Some (replicate 64 0)"
    by (simp_all add: base64url_def)
qed

lemma sample_ids:
  "prefixed_id (WString ''hns_00000000'') ''hns_''" "prefixed_id (WString ''cmd_00000000'') ''cmd_''"
  "prefixed_id (WString ''prv_00000000'') ''prv_''" "prefixed_id (WString ''req_00000000'') ''req_''"
  "prefixed_id (WString ''agt_00000000'') ''agt_''"
  "key_id (WString ''k00'')" "operation_id (WString (replicate 32 (CHR ''0'')))"
proof -
  have "list_all is_digit (replicate 32 (CHR ''0''))" by (simp add: list_all_iff char_classes)
  then show "operation_id (WString (replicate 32 (CHR ''0'')))"
    by (simp add: operation_id_def list_all_iff)
  show "key_id (WString ''k00'')"
    by (simp add: key_id_def numeral_eq_Suc All_less_Suc char_classes)
qed (simp_all add: prefixed_id_def strip_prefix_def is_prefix_of_def char_classes)

lemma sample_names: "map fst sample_fields = envelope"
  by (simp add: sample_fields_def envelope_def)

lemma sample_sorted:
  "by_name sample_fields = sample_fields"
  "by_name [(''operationId'', a), (''profileId'', b)] = [(''operationId'', a), (''profileId'', b)]"
proof -
  have "list_all (list_all (\<lambda>c. c < CHR 0x80)) envelope" by (simp add: envelope_def less_char_def)
  then have ascii: "map utf16_units envelope = map (map of_char) envelope"
    by (auto simp: list_all_iff intro!: utf16_ascii)
  have "sorted (map utf16_units envelope)" unfolding ascii by (simp add: envelope_def)
  moreover have "map (\<lambda>m. utf16_units (fst m)) sample_fields = map utf16_units envelope"
    unfolding sample_names [symmetric] by simp
  ultimately show "by_name sample_fields = sample_fields"
    unfolding by_name_def by (intro sort_key_id_if_sorted) simp
  show "by_name [(''operationId'', a), (''profileId'', b)] = [(''operationId'', a), (''profileId'', b)]"
    by (simp add: by_name_def utf16_ascii less_char_def)
qed

lemma sample_fits: "fits 1 sample_command"
  by (simp add: sample_command_def sample_fields_def sample_stamps max_nesting_depth_def)
    (intro conjI valid_ascii; simp add: less_char_def list_all_iff)

lemma sample_canon: "canon sample_command = sample_command"
proof -
  have "map (\<lambda>(k, v). (k, canon v)) sample_fields = sample_fields"
    by (simp add: sample_fields_def sample_sorted(2))
  then show ?thesis by (simp add: sample_command_def sample_sorted(1))
qed

lemma sample_lookup:
  "field sample_command ''purpose'' = WString ''provisioning-command''"
  "field sample_command ''operation'' = WString ''profile.status''"
  "field sample_command ''audience'' = WString ''hns_00000000''"
  "field sample_command ''commandId'' = WString ''cmd_00000000''"
  "field sample_command ''jobId'' = WString ''prv_00000000''"
  "field sample_command ''requestId'' = WString ''req_00000000''"
  "field sample_command ''keyId'' = WString ''k00''"
  "field sample_command ''nonce'' = WString (replicate 43 (CHR ''A''))"
  "field sample_command ''signature'' = WString (replicate 86 (CHR ''A''))"
  "field sample_command ''issuedAt'' = WNumber ''1791000000''"
  "field sample_command ''expiresAt'' = WNumber ''1791000060''"
  "field sample_command ''payload'' = WObject
     [(''operationId'', WString (replicate 32 (CHR ''0''))), (''profileId'', WString ''agt_00000000'')]"
  "member ''protocol'' sample_command = Some (WString ''LA-WEB-PROVISIONING/1'')"
  by (simp_all add: field_def sample_command_def sample_fields_def)

lemma sample_envelope_ok: "envelope_fields_ok sample_command"
  by (simp add: envelope_fields_ok_def sample_lookup sample_ids sample_stamps sample_base64)

lemma sample_document: "check_document nfc sample_command = Inr ''profile.status''"
proof -
  have "check_protocol sample_command = None"
    by (simp add: check_protocol_def protocol_def sample_command_def sample_fields_def)
  moreover have "closed_members (members_of sample_command) envelope = None"
    unfolding closed_members_None sample_names [symmetric] by (simp add: members_of_def sample_command_def)
  moreover have "check_envelope sample_command = Inr ''profile.status''"
    by (simp add: check_envelope_def sample_lookup purpose_def operations_def sample_envelope_ok)
  moreover have "check_operation_payload (field sample_command ''payload'') = None"
    unfolding sample_lookup
    by (simp add: check_operation_payload_def closed_members_None [THEN iffD2] members_of_def
        operation_payload_def field_def sample_ids)
  ultimately show ?thesis
    by (simp add: check_document_def stamp_def sample_lookup sample_stamps max_lifetime_seconds_def)
qed

lemma sample_length: "length (jcs sample_command) \<le> max_message_bytes"
  unfolding sample_command_def jcs_object sample_sorted(1)
  by (simp add: sample_fields_def jcs_object sample_sorted(2) jcs_string_def jcs_escape_def less_char_def
      length_concat sum_list_replicate max_message_bytes_def del: jcs.simps(1))

lemma sample_form: "command_form nfc sample_command ''profile.status''"
proof -
  have "\<not> has_duplicate sample_command"
    by (simp add: sample_command_def sample_fields_def)
  then show ?thesis
    by (simp add: command_form_def sample_fits [simplified] sample_canon sample_document sample_length)
qed

lemma sample_accepted:
  "verify_command nfc sha256 (\<lambda>_ _ _. True) sample_verifier (jcs sample_command) =
     (Inr (verified_of sha256 sample_command ''profile.status''),
      sample_verifier\<lparr>vf_seen_nonces := {replicate 43 (CHR ''A'')}\<rparr>)"
proof -
  have "drop 32 (signature_of sample_command) = replicate 32 0"
    by (simp add: signature_of_def text_field_def sample_lookup sample_base64)
  moreover have "scalar_is_canonical (replicate 32 0)"
    by (simp add: scalar_is_canonical_def group_order_def numeral_eq_Suc)
  ultimately have "check_trust (\<lambda>_ _ _. True) (vf_keys sample_verifier) sample_command = None"
    by (simp add: check_trust_def sample_verifier_def text_field_def sample_lookup)
  moreover have "check_window sample_verifier sample_command = None"
    by (simp add: check_window_def sample_verifier_def stamp_def sample_lookup sample_stamps max_skew_def)
  moreover have "fresh_nonce sample_verifier sample_command"
    by (simp add: fresh_nonce_def sample_verifier_def)
  ultimately show ?thesis
    unfolding verify_accepts_iff using sample_form [of nfc]
    by (intro exI [of _ sample_command] exI [of _ "''profile.status''"])
      (simp add: text_field_def sample_lookup sample_verifier_def)
qed

section \<open>Properties\<close>

text \<open>
  C14. A body is accepted exactly when it is the canonical text of a command: a document that is
  its own canonical form, without duplicates and of the allowed size, whose fields pass the
  rules, signed by the first key of its id, not revoked, over the domain-separated canonical
  bytes, addressed to this harness, inside its window, with a nonce not seen before. Acceptance
  only adds the nonce, and a refusal changes nothing.
\<close>

theorem exactly_canonical_commands_are_accepted:
  "verify_command nfc sha256 ed25519 v body = (Inr vd, v') \<longleftrightarrow>
     (\<exists>doc op k. body = jcs doc \<and> canon doc = doc \<and> fits 1 doc \<and> \<not> has_duplicate doc \<and>
        length body \<le> max_message_bytes \<and> check_document nfc doc = Inr op \<and>
        find (\<lambda>k. tk_key_id k = text_field doc ''keyId'') (vf_keys v) = Some k \<and> \<not> tk_revoked k \<and>
        scalar_is_canonical (drop 32 (signature_of doc)) \<and>
        ed25519 (tk_public_key k) (signing_context @ jcs (unsigned doc)) (signature_of doc) \<and>
        str_of (field doc ''audience'') = Some (vf_harness_id v) \<and>
        stamp doc ''issuedAt'' \<le> vf_now v + max_skew \<and> vf_now v < stamp doc ''expiresAt'' + max_skew \<and>
        text_field doc ''nonce'' \<notin> vf_seen_nonces v \<and> vd = verified_of sha256 doc op \<and>
        v' = v\<lparr>vf_seen_nonces := insert (text_field doc ''nonce'') (vf_seen_nonces v)\<rparr>)"
  unfolding verify_accepts_iff command_form_def check_trust_None check_window_None fresh_nonce_def
  by blast

text \<open>
  C24. What the verifier hands on is well typed: an object with exactly the thirteen members of the
  envelope, once each, for the protocol and purpose, every identifier, key id, time and binary field
  of its type, a lifetime of one to 120 seconds, nested at most 16 deep; and a payload with exactly
  the members of its operation, once each, every one of its type: the display name, the idempotency
  key, the issuer, the ids and the template of a creation, the ids of a status or revocation.
\<close>

theorem verified_commands_are_well_typed:
  assumes "verify_command nfc sha256 ed25519 v body = (Inr vd, v')"
  shows "\<exists>ms ps. vd_command vd = WObject ms \<and> distinct (map fst ms) \<and>
      fst ` set ms = {''audience'', ''commandId'', ''expiresAt'', ''issuedAt'', ''jobId'', ''keyId'',
        ''nonce'', ''operation'', ''payload'', ''protocol'', ''purpose'', ''requestId'', ''signature''} \<and>
      field (vd_command vd) ''operation'' = WString (vd_operation vd) \<and>
      wire_envelope (vd_command vd) \<and> fits 1 (vd_command vd) \<and>
      stamp (vd_command vd) ''issuedAt'' < stamp (vd_command vd) ''expiresAt'' \<and>
      stamp (vd_command vd) ''expiresAt'' \<le> stamp (vd_command vd) ''issuedAt'' + 120 \<and>
      field (vd_command vd) ''payload'' = WObject ps \<and> distinct (map fst ps) \<and>
      wire_payload nfc (vd_operation vd) (WObject ps)"
proof -
  from assms obtain doc op where d: "command_form nfc doc op" "vd = verified_of sha256 doc op"
    unfolding verify_accepts_iff by blast
  then have c: "check_document nfc doc = Inr op" "\<not> has_duplicate doc" "fits 1 doc"
    by (simp_all add: command_form_def)
  note form = check_document_form [OF c(1)] and typed = check_document_typed [OF c(1)]
  obtain ms where ms: "doc = WObject ms" "fst ` set ms = set envelope" using form(1) by blast
  obtain ps where ps: "field doc ''payload'' = WObject ps"
    using form(4) by (auto simp: envelope_fields_ok_def split: wvalue.splits)
  have "(''payload'', WObject ps) \<in> set ms"
    using ps by (auto simp: field_def ms(1) find_Some_iff split: option.splits) (metis nth_mem)
  then have "distinct (map fst ms)" "distinct (map fst ps)"
    using c(2) by (auto simp: ms(1) distinct_names)
  then show ?thesis
    using d(2) c(3) ms ps form(3,6,7) typed
    by (intro exI [of _ ms] exI [of _ ps]) (simp add: verified_of_def str_of_Some envelope_def max_lifetime_seconds_def)
qed

theorem verified_commands_are_well_typed_witness:
  "fits 1 sample_command \<and> wire_envelope sample_command \<and>
   wire_payload (\<lambda>_. True) ''profile.status'' (field sample_command ''payload'')"
proof -
  have "vd_command (verified_of sha256 sample_command op) = sample_command"
    "vd_operation (verified_of sha256 sample_command op) = op" for sha256 op
    by (simp_all add: verified_of_def)
  with verified_commands_are_well_typed [OF sample_accepted [of "\<lambda>_. True" "\<lambda>s. s"]]
  show ?thesis by auto
qed

text \<open>
  C15. However often and whenever bodies are presented, and whatever keys are trusted at the
  time, a command is accepted at most once; each accepted command was presented as its canonical
  text, signed under a key trusted at that moment, inside its window.
\<close>

theorem a_command_is_accepted_once:
  "distinct (map (\<lambda>doc. text_field doc ''nonce'') (serve nfc sha256 ed25519 calls v)) \<and>
   distinct (map jcs (serve nfc sha256 ed25519 calls v)) \<and>
   set (serve nfc sha256 ed25519 calls v) \<subseteq>
     {doc. \<exists>now keys k. (now, keys, jcs doc) \<in> set calls \<and> k \<in> set keys \<and> \<not> tk_revoked k \<and>
        ed25519 (tk_public_key k) (signing_context @ jcs (unsigned doc)) (signature_of doc) \<and>
        stamp doc ''issuedAt'' \<le> now + max_skew \<and> now < stamp doc ''expiresAt'' + max_skew}"
proof (intro conjI)
  let ?s = "serve nfc sha256 ed25519 calls v"
  show d: "distinct (map (\<lambda>doc. text_field doc ''nonce'') ?s)" using served_nonces by blast
  have form: "doc \<in> set ?s \<Longrightarrow> fits 1 doc \<and> canon doc = doc" for doc
    using served_commands [of doc] by (fastforce simp: command_form_def)
  have "inj_on jcs (set ?s)"
  proof (rule inj_onI)
    fix a b assume "a \<in> set ?s" "b \<in> set ?s" "jcs a = jcs b"
    then show "a = b" using form parse_jcs by (metis sum.inject(2))
  qed
  then show "distinct (map jcs ?s)" using d by (simp add: distinct_map)
  show "set ?s \<subseteq> {doc. \<exists>now keys k. (now, keys, jcs doc) \<in> set calls \<and> k \<in> set keys \<and> \<not> tk_revoked k \<and>
        ed25519 (tk_public_key k) (signing_context @ jcs (unsigned doc)) (signature_of doc) \<and>
        stamp doc ''issuedAt'' \<le> now + max_skew \<and> now < stamp doc ''expiresAt'' + max_skew}"
    by (auto simp: check_trust_None check_window_None dest!: served_commands find_SomeD) blast
qed

end
