(* ===== verification/WebResponses.thy ===== *)
theory WebResponses
  imports CreateResolution CommandVerifier
begin

text \<open>
  How Web reads a response of the gateway (\<open>classify_response\<close> of \<open>web.rs\<close>): an operation, a
  registered refusal, or uncertainty; and the continuity rules C1 to C3 (\<open>continuity.rs\<close>) by
  which a harness decides whether it may serve. A response only moves Web when it is about the
  command Web sent.
\<close>

section \<open>Responses\<close>

definition operation_states :: "string list" where
  "operation_states = [''pending'', ''profile_created'', ''completed'', ''failed'', ''revoked'']"

definition result_members :: "string list" where
  "result_members =
     [''createdUnix'', ''failure'', ''ownerBound'', ''operationId'', ''principalId'', ''profileId'',
      ''state'', ''template'', ''updatedUnix'']"

record web_request =
  wq_command_id :: string
  wq_audience :: string
  wq_operation :: string
  wq_profile_id :: string
  wq_operation_id :: "string option"

datatype classified =
    COperation wvalue "bool option" string
  | CRefused string string
  | CUncertain string

definition response_invalid :: string where
  "response_invalid = ''RESPONSE_INVALID''"

fun exactly :: "wvalue \<Rightarrow> string list \<Rightarrow> bool" where
  "exactly (WObject ms) names =
     (length ms = length names \<and> (\<forall>m \<in> set ms. fst m \<in> set names))"
| "exactly _ names = False"

definition string_member :: "wvalue \<Rightarrow> string \<Rightarrow> string option" where
  "string_member v name = Option.bind (member name v) str_of"

definition unix_member :: "wvalue \<Rightarrow> string \<Rightarrow> nat option" where
  "unix_member v name =
     (case member name v of Some (WNumber s) \<Rightarrow> safe_integer s | _ \<Rightarrow> None)"

definition bool_member :: "wvalue \<Rightarrow> string \<Rightarrow> bool option" where
  "bool_member v name = (case member name v of Some (WBool b) \<Rightarrow> Some b | _ \<Rightarrow> None)"

text \<open>The head of an answer to this command; the members of a create name the replay.\<close>

definition envelope_matches :: "web_request \<Rightarrow> wvalue \<Rightarrow> bool" where
  "envelope_matches q doc \<longleftrightarrow>
     exactly doc (if wq_operation q = ''profile.create''
       then [''audience'', ''commandId'', ''operation'', ''protocol'', ''replayed'', ''result'']
       else [''audience'', ''commandId'', ''operation'', ''protocol'', ''result'']) \<and>
     string_member doc ''protocol'' = Some protocol \<and>
     string_member doc ''commandId'' = Some (wq_command_id q) \<and>
     string_member doc ''audience'' = Some (wq_audience q) \<and>
     string_member doc ''operation'' = Some (wq_operation q)"

definition replayed_member :: "web_request \<Rightarrow> nat \<Rightarrow> wvalue \<Rightarrow> bool option option" where
  "replayed_member q http doc =
     (if wq_operation q = ''profile.create'' then
        (case bool_member doc ''replayed'' of
           None \<Rightarrow> None
         | Some replayed \<Rightarrow> if (http = 201) = replayed then None else Some (Some replayed))
      else if http \<noteq> 200 then None else Some None)"

definition operation_matches :: "web_request \<Rightarrow> string \<Rightarrow> string \<Rightarrow> bool" where
  "operation_matches q op_id state \<longleftrightarrow>
     length op_id = 32 \<and> list_all (\<lambda>b. is_digit b \<or> (CHR ''a'' \<le> b \<and> b \<le> CHR ''f'')) op_id \<and>
     (case wq_operation_id q of None \<Rightarrow> True | Some i \<Rightarrow> i = op_id) \<and>
     state \<in> set operation_states \<and>
     (wq_operation q = ''profile.create'' \<longrightarrow> state \<in> {''completed'', ''failed'', ''revoked''}) \<and>
     (wq_operation q = ''profile.revoke'' \<longrightarrow> state = ''revoked'')"

definition failure_matches :: "registry \<Rightarrow> string \<Rightarrow> wvalue option \<Rightarrow> bool" where
  "failure_matches r state failure \<longleftrightarrow>
     (case failure of
        None \<Rightarrow> False
      | Some f \<Rightarrow>
          if state = ''failed''
          then (case f of WString code \<Rightarrow> code \<in> set (reg_failure_codes r) | _ \<Rightarrow> False)
          else f = WNull)"

definition principal_ok :: "string \<Rightarrow> bool" where
  "principal_ok p \<longleftrightarrow>
     1 \<le> length p \<and> length p \<le> 64 \<and>
     (\<forall>i < length p. is_lower (p ! i) \<or> is_digit (p ! i) \<or>
        (0 < i \<and> p ! i \<in> {CHR ''_'', CHR ''-''}))"

definition result_ok :: "registry \<Rightarrow> web_request \<Rightarrow> wvalue \<Rightarrow> (string \<times> bool) option" where
  "result_ok r q result =
     (if \<not> exactly result result_members then None
      else case (string_member result ''operationId'', string_member result ''state'') of
          (Some op_id, Some state) \<Rightarrow>
            if \<not> operation_matches q op_id state \<or>
               \<not> failure_matches r state (member ''failure'' result) then None
            else (case (string_member result ''principalId'', bool_member result ''ownerBound'',
                     unix_member result ''createdUnix'', unix_member result ''updatedUnix'') of
                    (Some owner, Some bound, Some created, Some updated) \<Rightarrow>
                      if principal_ok owner \<and>
                         string_member result ''profileId'' = Some (wq_profile_id q) \<and>
                         prefixed_id (field result ''profileId'') ''agt_'' \<and>
                         string_member result ''template'' = Some ''assistant'' \<and>
                         created \<le> updated
                      then Some (state, bound) else None
                  | _ \<Rightarrow> None)
        | _ \<Rightarrow> None)"

definition operation_response :: "registry \<Rightarrow> web_request \<Rightarrow> nat \<Rightarrow> wvalue \<Rightarrow> classified option" where
  "operation_response r q http doc =
     (if \<not> envelope_matches q doc then None
      else case (replayed_member q http doc, member ''result'' doc) of
          (Some replayed, Some result) \<Rightarrow>
            map_option (\<lambda>(state, bound). COperation result replayed (assess_ownership state bound))
              (result_ok r q result)
        | _ \<Rightarrow> None)"

definition error_response :: "registry \<Rightarrow> web_request \<Rightarrow> nat \<Rightarrow> wvalue \<Rightarrow> classified option" where
  "error_response r q http doc =
     (if \<not> exactly doc [''code'', ''commandId'', ''protocol''] \<or>
         string_member doc ''protocol'' \<noteq> Some protocol then None
      else if \<not> (case member ''commandId'' doc of
              Some WNull \<Rightarrow> True | Some (WString i) \<Rightarrow> i = wq_command_id q | _ \<Rightarrow> False) then None
      else case string_member doc ''code'' of
          None \<Rightarrow> None
        | Some code \<Rightarrow>
            (case bt_get (reg_codes r) code of
               None \<Rightarrow> None
             | Some e \<Rightarrow>
                 if rc_http e \<noteq> http \<or> wq_operation q \<notin> set (rc_operations e) then None
                 else if rc_class e = ''indeterminate'' then Some (CUncertain code)
                 else Some (CRefused code (rc_class e))))"

definition classify_response :: "registry \<Rightarrow> web_request \<Rightarrow> nat \<Rightarrow> string \<Rightarrow> classified" where
  "classify_response r q http body =
     (if max_message_bytes < length body then CUncertain ''RESPONSE_TOO_LARGE''
      else case parse_strict body of
          Inl _ \<Rightarrow> CUncertain response_invalid
        | Inr doc \<Rightarrow>
            if has_duplicate doc then CUncertain response_invalid
            else if http = 200 \<or> http = 201 then
              (case operation_response r q http doc of
                 Some c \<Rightarrow> c | None \<Rightarrow> CUncertain response_invalid)
            else if 400 \<le> http \<and> http \<le> 599 then
              (case error_response r q http doc of
                 Some c \<Rightarrow> c | None \<Rightarrow> CUncertain response_invalid)
            else CUncertain response_invalid)"

section \<open>What moves Web\<close>

lemma operation_responseD:
  assumes "operation_response r q http doc = Some c"
  obtains result replayed state bound where
    "c = COperation result replayed (assess_ownership state bound)"
    "envelope_matches q doc" "replayed_member q http doc = Some replayed"
    "member ''result'' doc = Some result" "result_ok r q result = Some (state, bound)"
  using assms by (auto simp: operation_response_def split: if_splits option.splits)

lemma result_okD:
  assumes "result_ok r q result = Some (state, bound)"
  shows "exactly result result_members" "string_member result ''state'' = Some state"
    "bool_member result ''ownerBound'' = Some bound"
    "\<exists>op_id. string_member result ''operationId'' = Some op_id \<and> operation_matches q op_id state"
    "failure_matches r state (member ''failure'' result)"
    "string_member result ''profileId'' = Some (wq_profile_id q)"
  using assms by (auto simp: result_ok_def split: if_splits option.splits)

text \<open>A refusal is a registered code of the request's operation, at its status.\<close>

lemma error_responseD:
  assumes "error_response r q http doc = Some c"
  obtains code e where "string_member doc ''code'' = Some code" "bt_get (reg_codes r) code = Some e"
    "rc_http e = http" "wq_operation q \<in> set (rc_operations e)"
    "c = (if rc_class e = ''indeterminate'' then CUncertain code else CRefused code (rc_class e))"
  using assms by (auto simp: error_response_def split: if_splits option.splits)

text \<open>
  Whatever the bytes, a response is read as an operation only when it answers the command Web
  sent, with a state that the operation may end in, and as a refusal only with a registered,
  determinate code of the operation; everything else is uncertain.
\<close>

theorem only_answers_to_the_command_move_web:
  "(classify_response r q http body = COperation result replayed ownership \<longrightarrow>
      (\<exists>doc state bound op_id. parse_strict body = Inr doc \<and> \<not> has_duplicate doc \<and>
         envelope_matches q doc \<and> member ''result'' doc = Some result \<and>
         string_member result ''state'' = Some state \<and>
         string_member result ''operationId'' = Some op_id \<and> operation_matches q op_id state \<and>
         failure_matches r state (member ''failure'' result) \<and>
         string_member result ''profileId'' = Some (wq_profile_id q) \<and>
         (wq_operation q = ''profile.create'' \<longrightarrow> replayed = Some (http = 200)) \<and>
         ownership = assess_ownership state bound)) \<and>
   (classify_response r q http body = CRefused code c \<longrightarrow>
      (\<exists>e. bt_get (reg_codes r) code = Some e \<and> rc_class e = c \<and> c \<noteq> ''indeterminate'' \<and>
         rc_http e = http \<and> 400 \<le> http \<and> http \<le> 599 \<and> wq_operation q \<in> set (rc_operations e)))"
proof (intro conjI impI)
  assume a: "classify_response r q http body = COperation result replayed ownership"
  then obtain doc where d: "parse_strict body = Inr doc" "\<not> has_duplicate doc" "http = 200 \<or> http = 201"
      "operation_response r q http doc = Some (COperation result replayed ownership)"
    by (auto simp: classify_response_def elim!: error_responseD
        split: if_splits sum.splits option.splits)
  from d(4) obtain state bound where s: "ownership = assess_ownership state bound"
      "envelope_matches q doc" "replayed_member q http doc = Some replayed"
      "member ''result'' doc = Some result" "result_ok r q result = Some (state, bound)"
    by (rule operation_responseD) auto
  have "replayed = Some (http = 200)" if "wq_operation q = ''profile.create''"
    using s(3) d(3) that by (auto simp: replayed_member_def split: option.splits if_splits)
  then show "\<exists>doc state bound op_id. parse_strict body = Inr doc \<and> \<not> has_duplicate doc \<and>
         envelope_matches q doc \<and> member ''result'' doc = Some result \<and>
         string_member result ''state'' = Some state \<and>
         string_member result ''operationId'' = Some op_id \<and> operation_matches q op_id state \<and>
         failure_matches r state (member ''failure'' result) \<and>
         string_member result ''profileId'' = Some (wq_profile_id q) \<and>
         (wq_operation q = ''profile.create'' \<longrightarrow> replayed = Some (http = 200)) \<and>
         ownership = assess_ownership state bound"
    using d s result_okD [OF s(5)] by blast
next
  assume a: "classify_response r q http body = CRefused code c"
  then obtain doc where d: "400 \<le> http" "http \<le> 599" "error_response r q http doc = Some (CRefused code c)"
    by (auto simp: classify_response_def elim!: operation_responseD
        split: if_splits sum.splits option.splits)
  from d(3) obtain e where "bt_get (reg_codes r) code = Some e" "rc_http e = http"
      "wq_operation q \<in> set (rc_operations e)" "rc_class e = c" "c \<noteq> ''indeterminate''"
    by (rule error_responseD) (auto split: if_splits)
  then show "\<exists>e. bt_get (reg_codes r) code = Some e \<and> rc_class e = c \<and> c \<noteq> ''indeterminate'' \<and>
         rc_http e = http \<and> 400 \<le> http \<and> http \<le> 599 \<and> wq_operation q \<in> set (rc_operations e)"
    using d by blast
qed

section \<open>Ledger continuity\<close>

record ledger_state =
  ls_harness_id :: "string option"
  ls_retired :: bool
  ls_operations :: "(string \<times> string) list"

text \<open>The activation verdict: \<open>None\<close> to serve, or the first failing reason.\<close>

definition continuity_check ::
    "string \<Rightarrow> ledger_state option \<Rightarrow> string list \<Rightarrow> string list \<Rightarrow> string option" where
  "continuity_check configured ledger identity_records profile_markers =
     (case ledger of
        None \<Rightarrow> Some ''NO_LEDGER''
      | Some l \<Rightarrow>
          (case ls_harness_id l of
             None \<Rightarrow> Some ''UNSTAMPED_LEDGER''
           | Some i \<Rightarrow>
               if i \<noteq> configured then Some ''HARNESS_ID_MISMATCH''
               else if ls_retired l then Some ''RETIRED''
               else if \<exists>op \<in> set (identity_records @ profile_markers). op \<notin> fst ` set (ls_operations l)
               then Some ''LEDGER_BEHIND_STORES''
               else if \<exists>(i, state) \<in> set (ls_operations l).
                   state \<in> {''completed'', ''revoked''} \<and> i \<notin> set identity_records
               then Some ''STORES_BEHIND_LEDGER''
               else None))"

text \<open>A harness serves exactly when its ledger and the stores agree on what is bound.\<close>

lemma continuity_check_None:
  "continuity_check configured ledger records markers = None \<longleftrightarrow>
     (\<exists>l. ledger = Some l \<and> ls_harness_id l = Some configured \<and> \<not> ls_retired l \<and>
        set records \<union> set markers \<subseteq> fst ` set (ls_operations l) \<and>
        (\<forall>(i, state) \<in> set (ls_operations l). state \<in> {''completed'', ''revoked''} \<longrightarrow> i \<in> set records))"
  by (auto simp: continuity_check_def split: option.splits if_splits)

end
