(* ===== verification/Egress.thy ===== *)
theory Egress
  imports ToolPolicy "HOL-Library.Word"
begin

text \<open>
  The destination policy of the remote tools (\<open>crates/lightagent-tools/src/egress.rs\<close>) and the test
  for public addresses (\<open>is_public_ip\<close> of \<open>builtins/web.rs\<close>): networks in CIDR form, management
  endpoints, the scope of a run, the vetting of a destination on every address it resolves to, and
  the validation of redirects.

  An address is the octets or segments of the standard library's types. A URL is what the accessors
  of the URL library return for it; its parser and the resolution of a redirect are parameters of
  the theories that use them. The resolver acts on an unspecified world, so its answers may differ
  from call to call.
\<close>

unbundle bit_operations_syntax

section \<open>Addresses\<close>

datatype ipv4 = V4 "8 word" "8 word" "8 word" "8 word"

datatype ipv6 = V6 "16 word" "16 word" "16 word" "16 word" "16 word" "16 word" "16 word" "16 word"

datatype ip = IpV4 ipv4 | IpV6 ipv6

text \<open>\<open>u32::from\<close> and \<open>u128::from\<close>, with the width.\<close>

fun v4_bits :: "ipv4 \<Rightarrow> nat" where
  "v4_bits (V4 a b c d) = ((unat a * 256 + unat b) * 256 + unat c) * 256 + unat d"

fun v6_bits :: "ipv6 \<Rightarrow> nat" where
  "v6_bits (V6 a b c d e f g h) =
     ((((((unat a * 65536 + unat b) * 65536 + unat c) * 65536 + unat d) * 65536 + unat e) * 65536
       + unat f) * 65536 + unat g) * 65536 + unat h"

fun ip_bits :: "ip \<Rightarrow> nat \<times> nat" where
  "ip_bits (IpV4 v) = (v4_bits v, 32)"
| "ip_bits (IpV6 v) = (v6_bits v, 128)"

fun is_ipv4 :: "ip \<Rightarrow> bool" where
  "is_ipv4 (IpV4 _) = True"
| "is_ipv4 (IpV6 _) = False"

subsection \<open>Reading an address\<close>

text \<open>
  \<open>IpAddr::from_str\<close>: a number has at least one digit and at most the given count; an octet has no
  leading zero.
\<close>

definition radix_digit :: "nat \<Rightarrow> char \<Rightarrow> nat option" where
  "radix_digit radix c =
     (let d = (if is_digit c then of_char c - 48
               else if is_lower c then of_char c - 87
               else if is_upper c then of_char c - 55 else radix)
      in if d < radix then Some d else None)"

fun read_digits :: "nat \<Rightarrow> string \<Rightarrow> nat \<Rightarrow> nat \<Rightarrow> (nat \<times> nat) \<times> string" where
  "read_digits radix [] n count = ((n, count), [])"
| "read_digits radix (c # s) n count =
     (case radix_digit radix c of
        None \<Rightarrow> ((n, count), c # s)
      | Some d \<Rightarrow> read_digits radix s (n * radix + d) (count + 1))"

definition read_number :: "nat \<Rightarrow> nat \<Rightarrow> bool \<Rightarrow> nat \<Rightarrow> string \<Rightarrow> (nat \<times> string) option" where
  "read_number radix max_digits zero_prefix limit s =
     (let ((n, count), rest) = read_digits radix s 0 0
      in if count = 0 \<or> max_digits < count then None
         else if \<not> zero_prefix \<and> is_prefix_of ''0'' s \<and> 1 < count then None
         else if n < limit then Some (n, rest) else None)"

definition read_char :: "char \<Rightarrow> string \<Rightarrow> string option" where
  "read_char c s = strip_prefix [c] s"

fun read_octets :: "nat \<Rightarrow> string \<Rightarrow> (nat list \<times> string) option" where
  "read_octets 0 s = Some ([], s)"
| "read_octets (Suc n) s =
     Option.bind (if n = 3 then Some s else read_char (CHR ''.'') s) (\<lambda>s1.
     Option.bind (read_number 10 3 False 256 s1) (\<lambda>(x, s2).
     map_option (\<lambda>(xs, r). (x # xs, r)) (read_octets n s2)))"

definition read_ipv4 :: "string \<Rightarrow> (ipv4 \<times> string) option" where
  "read_ipv4 s =
     Option.bind (read_octets 4 s) (\<lambda>(xs, rest).
       case xs of
         [a, b, c, d] \<Rightarrow> Some (V4 (word_of_nat a) (word_of_nat b) (word_of_nat c) (word_of_nat d), rest)
       | _ \<Rightarrow> None)"

text \<open>
  Groups of four hexadecimal digits; when at least two places are left, the last two may be an
  embedded IPv4 address, which ends the groups.
\<close>

fun read_groups :: "nat \<Rightarrow> bool \<Rightarrow> string \<Rightarrow> (nat list \<times> bool) \<times> string" where
  "read_groups 0 first s = (([], False), s)"
| "read_groups (Suc n) first s =
     (let s1 = (if first then Some s else read_char (CHR '':'') s)
      in case (if 0 < n then Option.bind s1 read_ipv4 else None) of
           Some (V4 a b c d, rest) \<Rightarrow>
             (([unat a * 256 + unat b, unat c * 256 + unat d], True), rest)
         | None \<Rightarrow>
             (case Option.bind s1 (read_number 16 4 True 65536) of
                None \<Rightarrow> (([], False), s)
              | Some (g, rest) \<Rightarrow>
                  (let ((gs, v4), r) = read_groups n False rest in ((g # gs, v4), r))))"

definition v6_of_groups :: "nat list \<Rightarrow> ipv6 option" where
  "v6_of_groups gs =
     (case map word_of_nat gs of
        [a, b, c, d, e, f, g, h] \<Rightarrow> Some (V6 a b c d e f g h)
      | _ \<Rightarrow> None)"

definition read_ipv6 :: "string \<Rightarrow> (ipv6 \<times> string) option" where
  "read_ipv6 s =
     (let ((head, v4), rest) = read_groups 8 True s
      in if length head = 8 then map_option (\<lambda>v. (v, rest)) (v6_of_groups head)
         else if v4 then None
         else Option.bind (strip_prefix ''::'' rest) (\<lambda>s1.
           let ((tail, _), r) = read_groups (8 - (length head + 1)) True s1
           in map_option (\<lambda>v. (v, r))
                (v6_of_groups (head @ replicate (8 - length head - length tail) 0 @ tail))))"

definition parse_ip :: "string \<Rightarrow> ip option" where
  "parse_ip s =
     (case read_ipv4 s of
        Some (v, rest) \<Rightarrow> if rest = [] then Some (IpV4 v) else None
      | None \<Rightarrow>
          (case read_ipv6 s of
             Some (v, rest) \<Rightarrow> if rest = [] then Some (IpV6 v) else None
           | None \<Rightarrow> None))"

section \<open>Networks\<close>

record network =
  nw_base :: ip
  nw_prefix :: nat

definition ip_width :: "ip \<Rightarrow> nat" where
  "ip_width i = (if is_ipv4 i then 32 else 128)"

text \<open>\<open>u8::from_str\<close>: an optional plus sign and decimal digits.\<close>

definition parse_u8 :: "string \<Rightarrow> nat option" where
  "parse_u8 s =
     (let digits = (case strip_prefix ''+'' s of Some r \<Rightarrow> r | None \<Rightarrow> s);
          n = foldl (\<lambda>n c. n * 10 + (of_char c - 48)) 0 digits
      in if digits \<noteq> [] \<and> list_all is_digit digits \<and> n < 256 then Some n else None)"

text \<open>\<open>Network::from_str\<close>; the two messages quote the text, so the error is only its kind.\<close>

datatype network_error = NotANetwork | InvalidPrefix

definition parse_network :: "string \<Rightarrow> network_error + network" where
  "parse_network t =
     (let text = trim t;
          (address, prefix) =
            (case split_once (CHR ''/'') text of Some (a, p) \<Rightarrow> (a, Some p) | None \<Rightarrow> (text, None))
      in case parse_ip address of
           None \<Rightarrow> Inl NotANetwork
         | Some base \<Rightarrow>
             (case prefix of
                None \<Rightarrow> Inr \<lparr>nw_base = base, nw_prefix = ip_width base\<rparr>
              | Some p \<Rightarrow>
                  (case parse_u8 p of
                     None \<Rightarrow> Inl InvalidPrefix
                   | Some n \<Rightarrow>
                       if n \<le> ip_width base then Inr \<lparr>nw_base = base, nw_prefix = n\<rparr>
                       else Inl InvalidPrefix)))"

definition is_single :: "network \<Rightarrow> ip \<Rightarrow> bool" where
  "is_single n i \<longleftrightarrow> nw_base n = i \<and> nw_prefix n = ip_width i"

definition network_contains :: "network \<Rightarrow> ip \<Rightarrow> bool" where
  "network_contains n i =
     (let (base, width) = ip_bits (nw_base n);
          (candidate, candidate_width) = ip_bits i
      in if width \<noteq> candidate_width then False
         else if nw_prefix n = 0 then True
         else drop_bit (width - nw_prefix n) base = drop_bit (width - nw_prefix n) candidate)"

section \<open>Management endpoints and public addresses\<close>

fun to_ipv4_mapped :: "ipv6 \<Rightarrow> ipv4 option" where
  "to_ipv4_mapped (V6 a b c d e f g h) =
     (if a = 0 \<and> b = 0 \<and> c = 0 \<and> d = 0 \<and> e = 0 \<and> f = 0xFFFF
      then Some (V4 (ucast (drop_bit 8 g)) (ucast g) (ucast (drop_bit 8 h)) (ucast h))
      else None)"

definition management_v4 :: "ipv4 list" where
  "management_v4 =
     [V4 169 254 169 254, V4 169 254 170 2, V4 168 63 129 16, V4 100 100 100 200, V4 192 0 0 192]"

definition is_management_endpoint :: "ip \<Rightarrow> bool" where
  "is_management_endpoint i =
     (case (case i of IpV4 v \<Rightarrow> Some v | IpV6 v \<Rightarrow> to_ipv4_mapped v) of
        Some v \<Rightarrow> v \<in> set management_v4
      | None \<Rightarrow> i = IpV6 (V6 0xFD00 0x0EC2 0 0 0 0 0 0x0254))"

text \<open>The tests of \<open>Ipv4Addr\<close> that the source uses, and its own ranges.\<close>

fun is_public_v4 :: "ipv4 \<Rightarrow> bool" where
  "is_public_v4 (V4 a b c d) =
     (if V4 a b c d = V4 0 0 0 0 \<or> a = 127
         \<or> (a = 10 \<or> a = 172 \<and> 16 \<le> b \<and> b \<le> 31 \<or> a = 192 \<and> b = 168)
         \<or> a = 169 \<and> b = 254
         \<or> V4 a b c d = V4 255 255 255 255
         \<or> (a = 192 \<and> b = 0 \<and> c = 2 \<or> a = 198 \<and> b = 51 \<and> c = 100 \<or> a = 203 \<and> b = 0 \<and> c = 113)
      then False
      else if a = 0 \<or> 224 \<le> a then False
      else if a = 100 \<and> 64 \<le> b \<and> b \<le> 127 then False
      else if a = 192 \<and> b = 0 \<and> c = 0 then False
      else if a = 192 \<and> b = 88 \<and> c = 99 then False
      else if a = 198 \<and> (b = 18 \<or> b = 19) then False
      else True)"

definition v4_of_segments :: "16 word \<Rightarrow> 16 word \<Rightarrow> ipv4" where
  "v4_of_segments g h = V4 (ucast (drop_bit 8 g)) (ucast g) (ucast (drop_bit 8 h)) (ucast h)"

fun embedded_v4 :: "ipv6 \<Rightarrow> ipv4 option" where
  "embedded_v4 (V6 a b c d e f g h) =
     (case to_ipv4_mapped (V6 a b c d e f g h) of
        Some v \<Rightarrow> Some v
      | None \<Rightarrow>
          if [a, b, c, d, e, f] = [0, 0, 0, 0, 0, 0] \<and> [g, h] \<noteq> [0, 0] \<and> [g, h] \<noteq> [0, 1]
          then Some (v4_of_segments g h)
          else if a = 0x2002 then Some (v4_of_segments b c)
          else if a = 0x0064 \<and> b = 0xFF9B \<and> [c, d, e, f] = [0, 0, 0, 0]
          then Some (v4_of_segments g h)
          else None)"

fun is_public_v6 :: "ipv6 \<Rightarrow> bool" where
  "is_public_v6 (V6 a b c d e f g h) =
     (if V6 a b c d e f g h = V6 0 0 0 0 0 0 0 0 \<or> V6 a b c d e f g h = V6 0 0 0 0 0 0 0 1
         \<or> a AND 0xFF00 = 0xFF00
      then False
      else case embedded_v4 (V6 a b c d e f g h) of
          Some v \<Rightarrow> is_public_v4 v
        | None \<Rightarrow>
            if a AND 0xFE00 = 0xFC00 then False
            else if a AND 0xFFC0 = 0xFE80 then False
            else True)"

fun is_public_ip :: "ip \<Rightarrow> bool" where
  "is_public_ip (IpV4 v) = is_public_v4 v"
| "is_public_ip (IpV6 v) = is_public_v6 v"

section \<open>The scope of a run\<close>

datatype egress_denial =
    UnsupportedScheme
  | Userinfo
  | NoHost
  | NotInAllowList
  | NotAuthorizedForProfile
  | NonPublicAddress
  | ManagementEndpoint
  | ResolutionFailed
  | NoAddress
  | TooManyRedirects
  | RedirectLoop
  | CrossOriginRedirect
  | InsecureDowngrade
  | InvalidRedirect

fun denial_text :: "egress_denial \<Rightarrow> string" where
  "denial_text UnsupportedScheme = ''only http and https destinations are allowed''"
| "denial_text Userinfo = ''destinations must not carry credentials in the URL''"
| "denial_text NoHost = ''the destination has no host''"
| "denial_text NotInAllowList = ''the destination is not in web.allow_domains''"
| "denial_text NotAuthorizedForProfile = ''the destination is not authorized for this profile''"
| "denial_text NonPublicAddress = ''the destination resolves to a non-public address''"
| "denial_text ManagementEndpoint =
     ''the destination is a cloud metadata or host management endpoint''"
| "denial_text ResolutionFailed = ''the destination could not be resolved''"
| "denial_text NoAddress = ''the destination resolved to no address''"
| "denial_text TooManyRedirects = ''too many redirects''"
| "denial_text RedirectLoop = ''the redirects form a loop''"
| "denial_text CrossOriginRedirect =
     ''a credentialed request may not be redirected to another origin''"
| "denial_text InsecureDowngrade = ''a redirect from https to http is not followed''"
| "denial_text InvalidRedirect = ''the redirect target is invalid''"

record egress_rules =
  er_allow_domains :: "string list"
  er_trusted_networks :: "network list"
  er_block_private_addresses :: bool
  er_untrusted_destinations :: "string list option"

definition egress_default :: egress_rules where
  "egress_default =
     \<lparr>er_allow_domains = [], er_trusted_networks = [], er_block_private_addresses = True,
      er_untrusted_destinations = None\<rparr>"

text \<open>\<open>trim_start_matches\<close> and \<open>trim_end_matches\<close> of the dot, and \<open>to_ascii_lowercase\<close>.\<close>

definition dots_start :: "string \<Rightarrow> string" where
  "dots_start s = dropWhile (\<lambda>c. c = CHR ''.'') s"

definition dots_end :: "string \<Rightarrow> string" where
  "dots_end s = rev (dropWhile (\<lambda>c. c = CHR ''.'') (rev s))"

definition lower :: "string \<Rightarrow> string" where
  "lower s = map ascii_lower s"

definition ends_in :: "string \<Rightarrow> string \<Rightarrow> bool" where
  "ends_in s e \<longleftrightarrow> is_prefix_of (rev e) (rev s)"

definition host_matches :: "string \<Rightarrow> string list \<Rightarrow> bool" where
  "host_matches host domains \<longleftrightarrow>
     (let h = lower (dots_end host)
      in \<exists>d0 \<in> set domains.
           let d = lower (dots_end (dots_start (trim d0)))
           in d \<noteq> [] \<and> (h = d \<or> ends_in h (CHR ''.'' # d)))"

definition address_permitted :: "egress_rules \<Rightarrow> ip \<Rightarrow> egress_denial option" where
  "address_permitted r i =
     (let operator = (er_untrusted_destinations r = None)
      in if is_management_endpoint i
         then (if operator \<and> (\<exists>n \<in> set (er_trusted_networks r). is_single n i) then None
               else Some ManagementEndpoint)
         else if operator \<and> (\<exists>n \<in> set (er_trusted_networks r). network_contains n i) then None
         else if is_public_ip i then None
         else if operator \<and> \<not> er_block_private_addresses r then None
         else Some NonPublicAddress)"

section \<open>Vetting a destination\<close>

text \<open>
  What the accessors of a URL return; \<open>url_text\<close> is its text without the fragment and
  \<open>url_display\<close> the whole text. \<open>url_port\<close> is \<open>port_or_known_default\<close>.
\<close>

record url =
  url_scheme :: string
  url_username :: string
  url_password :: "string option"
  url_host :: "string option"
  url_port :: "nat option"
  url_text :: string
  url_display :: string

type_synonym socket = "ip \<times> nat"

record vetted =
  vt_url :: url
  vt_host :: string
  vt_addrs :: "socket list"
  vt_named :: bool

definition scheme_ok :: "url \<Rightarrow> bool" where
  "scheme_ok u \<longleftrightarrow> url_scheme u = ''http'' \<or> url_scheme u = ''https''"

definition has_userinfo :: "url \<Rightarrow> bool" where
  "has_userinfo u \<longleftrightarrow> url_username u \<noteq> [] \<or> url_password u \<noteq> None"

definition unbracketed :: "string \<Rightarrow> string" where
  "unbracketed raw =
     (case Option.bind (strip_prefix ''['' raw) (strip_suffix '']'') of Some s \<Rightarrow> s | None \<Rightarrow> raw)"

text \<open>The checks before the resolution: the host without brackets in lower case, or the denial.\<close>

definition vet_host :: "egress_rules \<Rightarrow> url \<Rightarrow> egress_denial + string" where
  "vet_host r u =
     (if \<not> scheme_ok u then Inl UnsupportedScheme
      else if has_userinfo u then Inl Userinfo
      else case url_host u of
          None \<Rightarrow> Inl NoHost
        | Some raw \<Rightarrow>
            if raw = [] then Inl NoHost
            else let host = lower (unbracketed raw)
              in if (case er_untrusted_destinations r of
                       Some authorized \<Rightarrow> \<not> host_matches host authorized | None \<Rightarrow> False)
                 then Inl NotAuthorizedForProfile
                 else if er_allow_domains r \<noteq> [] \<and> \<not> host_matches host (er_allow_domains r)
                 then Inl NotInAllowList
                 else Inr host)"

definition port_of :: "url \<Rightarrow> nat" where
  "port_of u = (case url_port u of Some p \<Rightarrow> p | None \<Rightarrow> 0)"

text \<open>The judgement of the addresses: the first that is not permitted denies all.\<close>

definition judge :: "egress_rules \<Rightarrow> socket list \<Rightarrow> egress_denial option" where
  "judge r addrs =
     (if addrs = [] then Some NoAddress
      else case find (\<lambda>a. address_permitted r (fst a) \<noteq> None) addrs of
          Some a \<Rightarrow> address_permitted r (fst a)
        | None \<Rightarrow> None)"

definition vet ::
    "('w \<Rightarrow> string \<Rightarrow> nat \<Rightarrow> socket list option \<times> 'w) \<Rightarrow> egress_rules \<Rightarrow> url \<Rightarrow> 'w \<Rightarrow>
     (egress_denial + vetted) \<times> 'w" where
  "vet resolve r u w =
     (case vet_host r u of
        Inl e \<Rightarrow> (Inl e, w)
      | Inr host \<Rightarrow>
          let literal = (case url_host u of Some raw \<Rightarrow> parse_ip (unbracketed raw) | None \<Rightarrow> None);
              (answer, w1) =
                (case literal of
                   Some i \<Rightarrow> (Some [(i, port_of u)], w)
                 | None \<Rightarrow> resolve w host (port_of u))
          in case answer of
               None \<Rightarrow> (Inl ResolutionFailed, w1)
             | Some addrs \<Rightarrow>
                 (case judge r addrs of
                    Some e \<Rightarrow> (Inl e, w1)
                  | None \<Rightarrow>
                      (Inr \<lparr>vt_url = u, vt_host = host, vt_addrs = addrs, vt_named = (literal = None)\<rparr>,
                       w1)))"

section \<open>The pinned client\<close>

text \<open>
  What the builder is told: no redirect, no proxy, and for a name the addresses that replace its
  resolution. Building may fail outside the model's control.
\<close>

record client =
  cl_timeout :: nat
  cl_follows_redirects :: bool
  cl_uses_proxy :: bool
  cl_pinned :: "(string \<times> socket list) option"

definition pinned_client :: "vetted \<Rightarrow> nat \<Rightarrow> client" where
  "pinned_client v timeout =
     \<lparr>cl_timeout = timeout, cl_follows_redirects = False, cl_uses_proxy = False,
      cl_pinned = (if vt_named v then Some (vt_host v, vt_addrs v) else None)\<rparr>"

section \<open>Redirects\<close>

type_synonym origin = "string \<times> string option \<times> nat option"

definition origin :: "url \<Rightarrow> origin" where
  "origin u = (url_scheme u, map_option lower (url_host u), url_port u)"

record redirects =
  rd_start :: origin
  rd_visited :: "string set"
  rd_hops :: nat
  rd_max :: nat
  rd_credentialed :: bool

definition redirects_new :: "url \<Rightarrow> nat \<Rightarrow> bool \<Rightarrow> redirects" where
  "redirects_new start m credentialed =
     \<lparr>rd_start = origin start, rd_visited = {url_text start}, rd_hops = 0, rd_max = m,
      rd_credentialed = credentialed\<rparr>"

text \<open>\<open>next\<close>: the checks of a target, in their order; only a target that passes them is recorded.\<close>

definition redirect_denial :: "redirects \<Rightarrow> url \<Rightarrow> url \<Rightarrow> egress_denial option" where
  "redirect_denial rd current target =
     (if \<not> scheme_ok target then Some UnsupportedScheme
      else if has_userinfo target then Some Userinfo
      else if url_scheme current = ''https'' \<and> url_scheme target = ''http'' then Some InsecureDowngrade
      else if rd_credentialed rd \<and> origin target \<noteq> rd_start rd then Some CrossOriginRedirect
      else if url_text target \<in> rd_visited rd then Some RedirectLoop
      else None)"

definition next_url ::
    "(url \<Rightarrow> string \<Rightarrow> url option) \<Rightarrow> redirects \<Rightarrow> url \<Rightarrow> string \<Rightarrow> (egress_denial + url) \<times> redirects" where
  "next_url join rd current location =
     (let rd1 = rd\<lparr>rd_hops := rd_hops rd + 1\<rparr>
      in if rd_max rd < rd_hops rd1 then (Inl TooManyRedirects, rd1)
         else case join current location of
             None \<Rightarrow> (Inl InvalidRedirect, rd1)
           | Some target \<Rightarrow>
               (case redirect_denial rd1 current target of
                  Some e \<Rightarrow> (Inl e, rd1)
                | None \<Rightarrow>
                    (Inr target, rd1\<lparr>rd_visited := insert (url_text target) (rd_visited rd1)\<rparr>)))"

definition display_host :: "url \<Rightarrow> string" where
  "display_host u = (case url_host u of Some h \<Rightarrow> h | None \<Rightarrow> ''?'')"

end
