(* ===== verification/WebText.thy ===== *)
theory WebText
  imports Egress WireJson
begin

text \<open>
  How a fetched page becomes text (\<open>html_to_text\<close> and its helpers in
  \<open>crates/lightagent-tools/src/builtins/web.rs\<close>): elements dropped whole, tags flattened, entities
  decoded, white space collapsed. A string is the list of its bytes. The scans of the source look
  for ASCII bytes, which never occur inside a longer character, so a scan that copies characters is
  one that copies bytes; where the source counts characters, so does the model.
\<close>

section \<open>Characters and words\<close>

fun take_chars :: "nat \<Rightarrow> string \<Rightarrow> string" where
  "take_chars 0 s = []"
| "take_chars (Suc n) [] = []"
| "take_chars (Suc n) (c # s) =
     c # takeWhile is_continuation s @ take_chars n (dropWhile is_continuation s)"

fun drop_chars :: "nat \<Rightarrow> string \<Rightarrow> string" where
  "drop_chars 0 s = s"
| "drop_chars (Suc n) [] = []"
| "drop_chars (Suc n) (c # s) = drop_chars n (dropWhile is_continuation s)"

definition chars_in :: "string \<Rightarrow> nat" where
  "chars_in s = length (filter (\<lambda>c. \<not> is_continuation c) s)"

text \<open>\<open>str::split_whitespace\<close>; \<open>cur\<close> is the word read so far.\<close>

definition ws_at :: "string \<Rightarrow> string option" where
  "ws_at s = find (\<lambda>w. is_prefix_of w s) ws_seqs"

lemma ws_at_pos: "ws_at s = Some w \<Longrightarrow> 0 < length w"
proof -
  assume "ws_at s = Some w"
  then have "w \<in> set ws_seqs" unfolding ws_at_def by (blast dest: find_SomeD)
  then show ?thesis by (auto simp: ws_seqs_def)
qed

function split_ws :: "string \<Rightarrow> string \<Rightarrow> string list" where
  "split_ws cur [] = (if cur = [] then [] else [cur])"
| "split_ws cur (c # s) =
     (case ws_at (c # s) of
        Some w \<Rightarrow>
          (if cur = [] then [] else [cur]) @ split_ws [] (drop (length w) (c # s))
      | None \<Rightarrow> split_ws (cur @ [c]) s)"
  by pat_completeness auto
termination
  by (relation "measure (\<lambda>(cur, s). length s)") (auto dest: ws_at_pos)

fun join_space :: "string list \<Rightarrow> string" where
  "join_space [] = []"
| "join_space [x] = x"
| "join_space (x # y # xs) = x @ [CHR '' ''] @ join_space (y # xs)"

text \<open>\<open>collapse_whitespace\<close>: the text so far and whether a blank line is pending.\<close>

definition collapse_line :: "string \<times> bool \<Rightarrow> string \<Rightarrow> string \<times> bool" where
  "collapse_line st line =
     (case st of (out, pending) \<Rightarrow>
       let collapsed = join_space (split_ws [] line)
       in if collapsed = [] then (out, out \<noteq> [])
          else (out @ (if out = [] then []
                       else [CHR 0x0A] @ (if pending then [CHR 0x0A] else [])) @ collapsed, False))"

definition collapse_whitespace :: "string \<Rightarrow> string" where
  "collapse_whitespace s = fst (foldl collapse_line ([], False) (split_on (CHR 0x0A) s))"

section \<open>Entities\<close>

text \<open>\<open>u32::from_str_radix\<close>: an optional plus sign and at least one digit.\<close>

definition from_str_radix :: "nat \<Rightarrow> string \<Rightarrow> nat option" where
  "from_str_radix radix s =
     (let digits = (case strip_prefix ''+'' s of Some r \<Rightarrow> r | None \<Rightarrow> s);
          ((n, _), rest) = read_digits radix digits 0 0
      in if digits \<noteq> [] \<and> rest = [] \<and> n \<le> u32_max then Some n else None)"

text \<open>\<open>char::from_u32\<close>.\<close>

definition char_from_u32 :: "nat \<Rightarrow> nat option" where
  "char_from_u32 n = (if n < 0xD800 \<or> 0xE000 \<le> n \<and> n \<le> 0x10FFFF then Some n else None)"

definition named_entities :: "(string \<times> nat) list" where
  "named_entities =
     [(''amp'', 0x26), (''lt'', 0x3C), (''gt'', 0x3E), (''quot'', 0x22), (''apos'', 0x27), (''nbsp'', 0x20)]"

definition decode_entity :: "string \<Rightarrow> nat option" where
  "decode_entity name =
     (case map_of named_entities name of
        Some n \<Rightarrow> Some n
      | None \<Rightarrow>
          (case (case strip_prefix ''#x'' name of
                   Some digits \<Rightarrow> Some digits | None \<Rightarrow> strip_prefix ''#X'' name) of
             Some digits \<Rightarrow> Option.bind (from_str_radix 16 digits) char_from_u32
           | None \<Rightarrow>
               (case strip_prefix ''#'' name of
                  Some dec \<Rightarrow> Option.bind (from_str_radix 10 dec) char_from_u32
                | None \<Rightarrow> None)))"

text \<open>An entity at an ampersand: the decoded character and the characters to skip.\<close>

definition entity_at :: "string \<Rightarrow> (nat \<times> nat) option" where
  "entity_at s =
     (let ahead = take_chars 12 s
      in case find_str '';'' ahead of
           None \<Rightarrow> None
         | Some k \<Rightarrow> map_option (\<lambda>n. (n, k + 1)) (decode_entity (take k ahead)))"

lemma drop_chars_length: "length (drop_chars n s) \<le> length s"
proof (induction n s rule: drop_chars.induct)
  case (3 n c s)
  then show ?case using length_dropWhile_le [of is_continuation s] by (simp add: le_SucI order_trans)
qed simp_all

function decode_entities :: "string \<Rightarrow> string" where
  "decode_entities [] = []"
| "decode_entities (c # s) =
     (if c \<noteq> CHR ''&'' then c # decode_entities s
      else case entity_at s of
          Some (n, k) \<Rightarrow> encode_utf8 n @ decode_entities (drop_chars k s)
        | None \<Rightarrow> CHR ''&'' # decode_entities s)"
  by pat_completeness auto
termination
  by (relation "measure length") (auto simp: less_Suc_eq_le drop_chars_length)

section \<open>Tags\<close>

definition block_tags :: "string list" where
  "block_tags =
     [''br'', ''p'', ''div'', ''li'', ''tr'', ''ul'', ''ol'', ''table'', ''section'', ''article'', ''header'',
      ''footer'', ''h1'', ''h2'', ''h3'', ''h4'', ''h5'', ''h6'', ''blockquote'', ''pre'']"

fun until_ws :: "string \<Rightarrow> string" where
  "until_ws [] = []"
| "until_ws (c # s) = (if ws_at (c # s) \<noteq> None then [] else c # until_ws s)"

definition tag_name :: "string \<Rightarrow> string" where
  "tag_name tag = lower (until_ws (dropWhile (\<lambda>c. c = CHR ''/'') tag))"

function strip_tags :: "string \<Rightarrow> string" where
  "strip_tags [] = []"
| "strip_tags (c # s) =
     (if c \<noteq> CHR ''<'' then c # strip_tags s
      else let tag = takeWhile (\<lambda>x. x \<noteq> CHR ''>'') s
        in (if tag_name tag \<in> set block_tags then CHR 0x0A else CHR '' '')
             # strip_tags (drop (length tag + 1) s))"
  by pat_completeness auto
termination
  by (relation "measure length") auto

text \<open>\<open>remove_element\<close>: an element that is not closed takes the rest of the page with it.\<close>

function remove_element :: "string \<Rightarrow> string \<Rightarrow> string" where
  "remove_element tag [] = []"
| "remove_element tag (c # s) =
     (if is_prefix_of (CHR ''<'' # tag) (lower (c # s))
      then (case find_str (''</'' @ tag @ ''>'') (lower (c # s)) of
              Some offset \<Rightarrow>
                CHR '' '' # remove_element tag (drop (offset + (length tag + 3)) (c # s))
            | None \<Rightarrow> [])
      else c # remove_element tag s)"
  by pat_completeness auto
termination
  by (relation "measure (\<lambda>(tag, s). length s)") auto

definition removed_tags :: "string list" where
  "removed_tags = [''script'', ''style'', ''noscript'', ''head'', ''svg'']"

definition remove_blocks :: "string \<Rightarrow> string" where
  "remove_blocks html = foldl (\<lambda>s tag. remove_element tag s) html removed_tags"

definition extract_title :: "string \<Rightarrow> string option" where
  "extract_title html =
     (let l = lower html
      in Option.bind (find_str ''<title'' l) (\<lambda>open.
         Option.bind (find_str ''>'' (drop open l)) (\<lambda>k.
         let start = k + open + 1
         in Option.bind (find_str ''</title>'' (drop start l)) (\<lambda>e.
            let t = collapse_whitespace (decode_entities (take e (drop start html)))
            in if t = [] then None else Some t))))"

definition html_to_text :: "string \<Rightarrow> string option \<times> string" where
  "html_to_text html =
     (extract_title html, collapse_whitespace (decode_entities (strip_tags (remove_blocks html))))"

definition max_readable_chars :: nat where
  "max_readable_chars = 50000"

definition limit_readable_text :: "string \<Rightarrow> string" where
  "limit_readable_text t =
     (if chars_in t \<le> max_readable_chars then t
      else take_chars max_readable_chars t @ [CHR 0x0A, CHR 0x0A] @ ''[page text truncated]'')"

section \<open>Removed elements\<close>

lemma find_str_first:
  "find_str t s = Some i \<Longrightarrow> is_prefix_of t (drop i s) \<and> (\<forall>j < i. \<not> is_prefix_of t (drop j s)) \<and> i < length s"
proof (induction t s arbitrary: i rule: find_str.induct)
  case (2 t c s)
  show ?case
  proof (cases "is_prefix_of t (c # s)")
    case True
    then show ?thesis using 2(2) by simp
  next
    case False
    with 2(2) obtain k where k: "find_str t s = Some k" "i = Suc k" by auto
    with 2(1) [OF False k(1)] False show ?thesis by (auto simp: less_Suc_eq_0_disj)
  qed
qed simp

lemma drop_lower: "drop i (lower s) = lower (drop i s)"
  by (simp add: lower_def drop_map)

text \<open>Up to the first opening the text is copied; there the rest is decided by the closing.\<close>

lemma remove_element_copies:
  "\<forall>j < i. \<not> is_prefix_of (CHR ''<'' # tag) (lower (drop j s)) \<Longrightarrow>
     remove_element tag s = take i s @ remove_element tag (drop i s)"
proof (induction tag s arbitrary: i rule: remove_element.induct)
  case (2 tag c s)
  show ?case
  proof (cases i)
    case (Suc k)
    have opn: "\<not> is_prefix_of (CHR ''<'' # tag) (lower (c # s))" using spec [OF 2(3), of 0] Suc by simp
    have "\<forall>j < k. \<not> is_prefix_of (CHR ''<'' # tag) (lower (drop j s))" using 2(3) Suc by force
    with 2(2) [OF opn] opn Suc show ?thesis by simp
  qed simp
qed simp

lemma remove_element_open:
  assumes "find_str (CHR ''<'' # tag) (lower s) = Some i"
  shows "remove_element tag s = take i s @
    (case find_str (''</'' @ tag @ ''>'') (lower (drop i s)) of
       Some k \<Rightarrow> CHR '' '' # remove_element tag (drop (k + (length tag + 3) + i) s)
     | None \<Rightarrow> [])"
proof -
  have f: "is_prefix_of (CHR ''<'' # tag) (lower (drop i s))"
    "\<forall>j < i. \<not> is_prefix_of (CHR ''<'' # tag) (lower (drop j s))" "i < length s"
    using find_str_first [OF assms] by (simp_all add: drop_lower) (simp add: lower_def)
  then obtain c r where r: "drop i s = c # r" by (cases "drop i s") auto
  have "remove_element tag (drop i s) =
      (case find_str (''</'' @ tag @ ''>'') (lower (drop i s)) of
         Some k \<Rightarrow> CHR '' '' # remove_element tag (drop (k + (length tag + 3)) (drop i s))
       | None \<Rightarrow> [])"
    using f(1) unfolding r by (subst remove_element.simps) simp
  then show ?thesis
    using remove_element_copies [OF f(2)] by (simp split: option.splits)
qed

section \<open>Flattened tags\<close>

lemma strip_tags_no_open: "CHR ''<'' \<notin> set (strip_tags s)"
  by (induction s rule: strip_tags.induct) (auto simp: Let_def)

lemma limit_bounds:
  "chars_in (limit_readable_text t) \<le> max_readable_chars + 23"
proof -
  have "chars_in (take_chars n s) \<le> n" for n s
  proof (induction n s rule: take_chars.induct)
    case (3 n c s)
    have "filter (\<lambda>x. \<not> is_continuation x) (takeWhile is_continuation s) = []"
      by (auto simp: filter_empty_conv dest: set_takeWhileD)
    with 3 show ?case by (simp add: chars_in_def)
  qed (simp_all add: chars_in_def)
  moreover have "chars_in (a @ b) = chars_in a + chars_in b" for a b by (simp add: chars_in_def)
  moreover have "chars_in ([CHR 0x0A, CHR 0x0A] @ ''[page text truncated]'') \<le> 23"
    unfolding chars_in_def by (rule order_trans [OF length_filter_le]) simp
  ultimately show ?thesis unfolding limit_readable_text_def
    by (smt (verit) add_le_mono le_add1 order_trans)
qed

lemma lower_Cons: "lower (c # s) = ascii_lower c # lower s"
  by (simp add: lower_def)

lemma remove_element_other: "c \<noteq> CHR ''<'' \<Longrightarrow> remove_element tag (c # s) = c # remove_element tag s"
proof -
  assume "c \<noteq> CHR ''<''"
  moreover have "char_of (n + 32) \<noteq> CHR ''<''" if "65 \<le> n" "n \<le> 90" for n :: nat
  proof
    assume e: "char_of (n + 32) = CHR ''<''"
    have "of_char (char_of (n + 32)) = (60 :: nat)" by (simp only: e) simp
    then show False using that by simp
  qed
  then have "ascii_lower c = CHR ''<'' \<Longrightarrow> c = CHR ''<''"
    by (auto simp: ascii_lower_def is_upper_def less_eq_char_def split: if_splits)
  ultimately show ?thesis by (auto simp: lower_Cons is_prefix_of_def)
qed

lemma lower_Nil: "lower [] = []"
  by (simp add: lower_def)

lemmas page_simps = html_to_text_def remove_blocks_def removed_tags_def remove_element_other lower_Cons
  lower_Nil is_prefix_of_def ascii_lower_def is_upper_def less_eq_char_def extract_title_def Let_def
  collapse_whitespace_def collapse_line_def ws_at_def ws_seqs_def

lemma header_page_text:
  "html_to_text ''<head></head><header>Menu</header>Text'' = (None, [])"
  by (simp add: page_simps)

text \<open>
  C21. A page with a \<open>header\<close> element loses everything from it on. The removal of the \<open>head\<close> element
  takes every tag whose name begins with \<open>head\<close> for its opening: after the page's own head, the
  first \<open>header\<close> is such a tag, no closing of a head follows it, and the rest of the page is dropped
  as an element that was not closed.
\<close>

theorem a_header_element_hides_the_page:
  assumes "find_str ''<head'' (lower p) = Some i" "find_str ''</head>'' (lower (drop i p)) = Some k"
    and "q = drop (k + 7 + i) p" "find_str ''<head'' (lower q) = Some j"
    and "find_str ''</head>'' (lower (drop j q)) = None"
  shows "remove_element ''head'' p = take i p @ [CHR '' ''] @ take j q \<and>
    html_to_text ''<head></head><header>Menu</header>Text'' = (None, [])"
proof -
  have "remove_element ''head'' q = take j q"
    using remove_element_open [of "''head''" q j] assms(4,5) by simp
  moreover have "remove_element ''head'' p = take i p @ CHR '' '' # remove_element ''head'' q"
    using remove_element_open [of "''head''" p i] assms(1-3) by (simp add: eval_nat_numeral)
  ultimately show ?thesis using header_page_text by simp
qed

theorem a_header_element_hides_the_page_witness:
  "remove_element ''head'' ''<head></head><header>Menu</header>Text'' = '' ''"
  using a_header_element_hides_the_page [of "''<head></head><header>Menu</header>Text''" 0 6
    "''<header>Menu</header>Text''" 0]
  by (simp add: page_simps)


end
