(* ===== verification/AddressSpace.thy ===== *)
theory AddressSpace
  imports Egress
begin

text \<open>
  The test for public addresses against the registries. First the networks the test refuses, as a
  table of prefixes, and the networks whose addresses carry an IPv4 address: the test passes an
  address exactly when it lies in no network of the table and carries no address that does. Then,
  written from the registries and not from the code, the networks whose addresses are not globally
  reachable and the assignments inside them that are: the two differ in eight networks the test does
  not know and in two anycast addresses it refuses. Last, what the policy lets through because it
  asks the public test alone: addresses that carry the address of a management endpoint.
\<close>

unbundle bit_operations_syntax

section \<open>The networks the test refuses\<close>

definition v4_net :: "8 word \<Rightarrow> 8 word \<Rightarrow> 8 word \<Rightarrow> 8 word \<Rightarrow> nat \<Rightarrow> network" where
  "v4_net a b c d p = \<lparr>nw_base = IpV4 (V4 a b c d), nw_prefix = p\<rparr>"

definition v6_net ::
    "16 word \<Rightarrow> 16 word \<Rightarrow> 16 word \<Rightarrow> 16 word \<Rightarrow> 16 word \<Rightarrow> 16 word \<Rightarrow> 16 word \<Rightarrow> 16 word \<Rightarrow> nat \<Rightarrow> network" where
  "v6_net a b c d e f g h p = \<lparr>nw_base = IpV6 (V6 a b c d e f g h), nw_prefix = p\<rparr>"

definition refused_v4 :: "network list" where
  "refused_v4 =
     [v4_net 0 0 0 0 8, v4_net 10 0 0 0 8, v4_net 100 64 0 0 10, v4_net 127 0 0 0 8,
      v4_net 169 254 0 0 16, v4_net 172 16 0 0 12, v4_net 192 0 0 0 24, v4_net 192 0 2 0 24,
      v4_net 192 88 99 0 24, v4_net 192 168 0 0 16, v4_net 198 18 0 0 15, v4_net 198 51 100 0 24,
      v4_net 203 0 113 0 24, v4_net 224 0 0 0 4, v4_net 240 0 0 0 4]"

definition refused_v6 :: "network list" where
  "refused_v6 =
     [v6_net 0 0 0 0 0 0 0 0 128, v6_net 0 0 0 0 0 0 0 1 128, v6_net 0xFC00 0 0 0 0 0 0 0 7,
      v6_net 0xFE80 0 0 0 0 0 0 0 10, v6_net 0xFF00 0 0 0 0 0 0 0 8]"

definition refused_networks :: "network list" where
  "refused_networks = refused_v4 @ refused_v6"

text \<open>
  The networks of the transition schemes, each with the position of the IPv4 address in the number
  of the address.
\<close>

definition v4_of_number :: "nat \<Rightarrow> ipv4" where
  "v4_of_number n =
     V4 (word_of_nat (n div 2 ^ 24)) (word_of_nat (n div 2 ^ 16)) (word_of_nat (n div 2 ^ 8)) (word_of_nat n)"

definition carriers :: "(network \<times> nat) list" where
  "carriers =
     [(v6_net 0 0 0 0 0 0xFFFF 0 0 96, 0), (v6_net 0 0 0 0 0 0 0 0 96, 0),
      (v6_net 0x2002 0 0 0 0 0 0 0 16, 80), (v6_net 0x0064 0xFF9B 0 0 0 0 0 0 96, 0)]"

definition refused_address :: "ip \<Rightarrow> bool" where
  "refused_address i \<longleftrightarrow> (\<exists>n \<in> set refused_networks. network_contains n i)"

fun carried :: "ip \<Rightarrow> ipv4 list" where
  "carried (IpV4 _) = []"
| "carried (IpV6 v) =
     map (\<lambda>(n, k). v4_of_number (v6_bits v div 2 ^ k))
       (filter (\<lambda>(n, k). network_contains n (IpV6 v)) carriers)"

section \<open>Prefixes of IPv4\<close>

definition refused_octets :: "nat \<Rightarrow> nat \<Rightarrow> nat \<Rightarrow> bool" where
  "refused_octets a b c \<longleftrightarrow>
     a = 0 \<or> a = 10 \<or> (a = 100 \<and> 64 \<le> b \<and> b \<le> 127) \<or> a = 127 \<or> (a = 169 \<and> b = 254) \<or>
     (a = 172 \<and> 16 \<le> b \<and> b \<le> 31) \<or> (a = 192 \<and> b = 0 \<and> c = 0) \<or> (a = 192 \<and> b = 0 \<and> c = 2) \<or>
     (a = 192 \<and> b = 88 \<and> c = 99) \<or> (a = 192 \<and> b = 168) \<or> (a = 198 \<and> (b = 18 \<or> b = 19)) \<or>
     (a = 198 \<and> b = 51 \<and> c = 100) \<or> (a = 203 \<and> b = 0 \<and> c = 113) \<or> 224 \<le> a"

lemma octet_bound: "unat (x :: 8 word) < 256"
  using unsigned_less [of x] by simp

lemma digits_eq: "b < k \<Longrightarrow> b' < k \<Longrightarrow> a * k + b = a' * k + b' \<longleftrightarrow> a = a' \<and> b = b'" for k :: nat
  by (metis add.commute div_mult_self3 mod_less mod_mult_self1 div_less add_0 less_nat_zero_code)

lemma digits3_eq:
  fixes a a' :: nat
  assumes "b < 256" "b' < 256" "c < 256" "c' < 256"
  shows "65536 * a + b * 256 + c = 65536 * a' + b' * 256 + c' \<longleftrightarrow> a = a' \<and> b = b' \<and> c = c'"
  using digits_eq [of c 256 c' "a * 256 + b" "a' * 256 + b'"] digits_eq [of b 256 b' a a'] assms
  by (simp add: algebra_simps)

lemma v4_drops:
  "drop_bit 24 (v4_bits (V4 w x y z)) = unat w"
  "drop_bit 16 (v4_bits (V4 w x y z)) = unat w * 256 + unat x"
  "drop_bit 8 (v4_bits (V4 w x y z)) = (unat w * 256 + unat x) * 256 + unat y"
  "drop_bit 28 (v4_bits (V4 w x y z)) = unat w div 16"
  "drop_bit 22 (v4_bits (V4 w x y z)) = unat w * 4 + unat x div 64"
  "drop_bit 20 (v4_bits (V4 w x y z)) = unat w * 16 + unat x div 16"
  "drop_bit 17 (v4_bits (V4 w x y z)) = unat w * 128 + unat x div 2"
  using octet_bound [of w] octet_bound [of x] octet_bound [of y] octet_bound [of z]
  by (simp_all add: drop_bit_eq_div)

lemma v4_contains:
  "network_contains (v4_net a b c d p) (IpV4 v) \<longleftrightarrow>
     p = 0 \<or> drop_bit (32 - p) (v4_bits (V4 a b c d)) = drop_bit (32 - p) (v4_bits v)"
  by (simp add: network_contains_def v4_net_def)

lemma v4_contains_prefix:
  "network_contains (v4_net a b c d 4) (IpV4 (V4 w x y z)) \<longleftrightarrow> unat a div 16 = unat w div 16"
  "network_contains (v4_net a b c d 8) (IpV4 (V4 w x y z)) \<longleftrightarrow> unat a = unat w"
  "network_contains (v4_net a b c d 10) (IpV4 (V4 w x y z)) \<longleftrightarrow>
     unat a = unat w \<and> unat b div 64 = unat x div 64"
  "network_contains (v4_net a b c d 12) (IpV4 (V4 w x y z)) \<longleftrightarrow>
     unat a = unat w \<and> unat b div 16 = unat x div 16"
  "network_contains (v4_net a b c d 15) (IpV4 (V4 w x y z)) \<longleftrightarrow>
     unat a = unat w \<and> unat b div 2 = unat x div 2"
  "network_contains (v4_net a b c d 16) (IpV4 (V4 w x y z)) \<longleftrightarrow> unat a = unat w \<and> unat b = unat x"
  "network_contains (v4_net a b c d 24) (IpV4 (V4 w x y z)) \<longleftrightarrow>
     unat a = unat w \<and> unat b = unat x \<and> unat c = unat y"
  using octet_bound [of b] octet_bound [of x] octet_bound [of c] octet_bound [of y]
  by (simp_all add: v4_contains v4_drops digits_eq digits3_eq less_mult_imp_div_less del: v4_bits.simps)

lemma public_octets: "is_public_v4 (V4 a b c d) \<longleftrightarrow> \<not> refused_octets (unat a) (unat b) (unat c)"
proof -
  have "unat a = 255 \<Longrightarrow> 224 \<le> unat a" by simp
  then show ?thesis
    unfolding refused_octets_def
    by (simp add: word_unat_eq_iff [where 'a = 8] word_le_nat_alt [where 'a = 8])
qed

lemma quotient_eq: "0 < m \<Longrightarrow> k = n div m \<longleftrightarrow> k * m \<le> n \<and> n < Suc k * m" for n m k :: nat
  by (metis div_nat_eqI div_times_less_eq_dividend dividend_less_div_times mult_Suc mult.commute)

lemma octet_div:
  "Suc 0 = n div 64 \<longleftrightarrow> 64 \<le> n \<and> n \<le> 127" "Suc 0 = n div 16 \<longleftrightarrow> 16 \<le> n \<and> n \<le> 31"
  "9 = n div 2 \<longleftrightarrow> n = 18 \<or> n = 19"
  "n < 256 \<Longrightarrow> 14 = n div 16 \<or> 15 = n div 16 \<longleftrightarrow> 224 \<le> n" for n :: nat
  by (auto simp: quotient_eq)

lemma refused_v4_iff:
  "(\<exists>n \<in> set refused_v4. network_contains n (IpV4 (V4 a b c d))) \<longleftrightarrow> \<not> is_public_v4 (V4 a b c d)"
proof -
  have "(\<exists>n \<in> set refused_v4. network_contains n (IpV4 (V4 a b c d))) \<longleftrightarrow>
      refused_octets (unat a) (unat b) (unat c)"
    unfolding refused_v4_def refused_octets_def octet_div(4) [OF octet_bound, symmetric]
    by (simp add: v4_contains_prefix octet_div(1-3) eq_commute [of _ "unat _"] disj_assoc)
  then show ?thesis by (simp add: public_octets del: is_public_v4.simps)
qed

section \<open>Prefixes of IPv6\<close>

lemma segment_bound: "unat (x :: 16 word) < 65536"
  using unsigned_less [of x] by simp

lemma drop_segment:
  "16 \<le> n \<Longrightarrow> drop_bit n (x * 65536 + unat (y :: 16 word)) = drop_bit (n - 16) x" for x :: nat
proof -
  assume "16 \<le> n"
  then have "drop_bit n (x * 65536 + unat y) = drop_bit (n - 16) (drop_bit 16 (x * 65536 + unat y))"
    by (simp add: add.commute)
  then show ?thesis using segment_bound [of y] by (simp add: drop_bit_eq_div)
qed

lemma v6_contains:
  "network_contains (v6_net a b c d e f g h p) (IpV6 v) \<longleftrightarrow>
     p = 0 \<or> drop_bit (128 - p) (v6_bits (V6 a b c d e f g h)) = drop_bit (128 - p) (v6_bits v)"
  by (simp add: network_contains_def v6_net_def)

lemma segments_eq:
  "x * 65536 + unat (y :: 16 word) = x' * 65536 + unat y' \<longleftrightarrow> x = x' \<and> y = y'" for x :: nat
  using digits_eq [OF segment_bound segment_bound] by (auto simp: word_unat_eq_iff)

lemma v6_contains_prefix:
  "network_contains (v6_net a b c d e f g h 128) (IpV6 (V6 q r s t u v w x)) \<longleftrightarrow>
     [a, b, c, d, e, f, g, h] = [q, r, s, t, u, v, w, x]"
  "network_contains (v6_net a b c d e f g h 96) (IpV6 (V6 q r s t u v w x)) \<longleftrightarrow>
     [a, b, c, d, e, f] = [q, r, s, t, u, v]"
  "network_contains (v6_net a b c d e f g h 16) (IpV6 (V6 q r s t u v w x)) \<longleftrightarrow> a = q"
  "network_contains (v6_net a b c d e f g h 7) (IpV6 (V6 q r s t u v w x)) \<longleftrightarrow>
     unat a div 512 = unat q div 512"
  "network_contains (v6_net a b c d e f g h 10) (IpV6 (V6 q r s t u v w x)) \<longleftrightarrow>
     unat a div 64 = unat q div 64"
  "network_contains (v6_net a b c d e f g h 8) (IpV6 (V6 q r s t u v w x)) \<longleftrightarrow>
     unat a div 256 = unat q div 256"
  by (simp_all add: v6_contains drop_segment segments_eq word_unat_eq_iff conj_assoc del: distrib_right_numeral)
    (simp_all add: drop_bit_eq_div)

lemma and_high:
  "w AND NOT (mask n) = push_bit n (drop_bit n w)" for w :: "'a::len word"
  by (rule bit_word_eqI) (auto simp: bit_simps)

lemma high_bits:
  "a AND 0xFE00 = (0xFC00 :: 16 word) \<longleftrightarrow> unat a div 512 = 126"
  "a AND 0xFFC0 = (0xFE80 :: 16 word) \<longleftrightarrow> unat a div 64 = 1018"
  "a AND 0xFF00 = (0xFF00 :: 16 word) \<longleftrightarrow> unat a div 256 = 255"
proof -
  have high: "a AND NOT (mask n) = w \<longleftrightarrow> unat a div 2 ^ n * 2 ^ n = unat w" for w n
  proof -
    have "unat a div 2 ^ n * 2 ^ n < 65536"
      using segment_bound [of a] by (metis div_times_less_eq_dividend le_less_trans)
    then have "unat (push_bit n (drop_bit n a)) = unat a div 2 ^ n * 2 ^ n"
      using segment_bound [of a] by (simp only: unsigned_push_bit_eq unsigned_drop_bit_eq)
        (simp add: push_bit_eq_mult drop_bit_eq_div take_bit_eq_mod)
    then show ?thesis by (simp add: and_high word_unat_eq_iff)
  qed
  have "(0xFE00 :: 16 word) = NOT (mask 9)" "(0xFFC0 :: 16 word) = NOT (mask 6)"
    "(0xFF00 :: 16 word) = NOT (mask 8)" by (simp_all add: mask_eq_exp_minus_1)
  then show "a AND 0xFE00 = (0xFC00 :: 16 word) \<longleftrightarrow> unat a div 512 = 126"
    "a AND 0xFFC0 = (0xFE80 :: 16 word) \<longleftrightarrow> unat a div 64 = 1018"
    "a AND 0xFF00 = (0xFF00 :: 16 word) \<longleftrightarrow> unat a div 256 = 255"
    by (simp_all only: high) auto
qed

lemma v4_of_number_segments:
  "v4_of_number ((x * 65536 + unat g) * 65536 + unat h) = v4_of_segments g h" for x :: nat
proof -
  let ?n = "(x * 65536 + unat g) * 65536 + unat h"
  have d: "?n div 2 ^ 16 = x * 65536 + unat g" "?n div 2 ^ 24 = x * 256 + unat g div 256"
    "?n div 2 ^ 8 = (x * 65536 + unat g) * 256 + unat h div 256"
    using segment_bound [of g] segment_bound [of h] by simp_all
  have octet: "word_of_nat (k * 256 + m) = (word_of_nat m :: 8 word)" for k m :: nat
    by (simp only: word_unat_eq_iff unsigned_of_nat) (simp add: take_bit_eq_mod)
  have low: "word_of_nat (unat w) = (ucast w :: 8 word)" for w :: "16 word"
    by (simp add: unsigned_ucast_eq)
  have high: "word_of_nat (unat w div 256) = (ucast (drop_bit 8 w) :: 8 word)" for w :: "16 word"
    using segment_bound [of w]
    by (simp only: word_unat_eq_iff unsigned_of_nat unsigned_ucast_eq unsigned_drop_bit_eq)
      (simp add: drop_bit_eq_div take_bit_eq_mod)
  have "word_of_nat (x * 65536 + unat g) = (ucast g :: 8 word)"
    using octet [of "x * 256" "unat g"] by (simp only: low mult.assoc) simp
  moreover have "word_of_nat ?n = (ucast h :: 8 word)"
    using octet [of "(x * 65536 + unat g) * 256" "unat h"] by (simp only: low mult.assoc) simp
  ultimately show ?thesis
    unfolding v4_of_number_def v4_of_segments_def d octet high by simp
qed

lemma carriers_iff:
  "(\<exists>(n, k) \<in> set carriers. network_contains n (IpV6 (V6 a b c d e f g h)) \<and>
       P (v4_of_number (v6_bits (V6 a b c d e f g h) div 2 ^ k))) \<longleftrightarrow>
     ([a, b, c, d, e] = [0, 0, 0, 0, 0] \<and> (f = 0xFFFF \<or> f = 0) \<and> P (v4_of_segments g h)) \<or>
     (a = 0x2002 \<and> P (v4_of_segments b c)) \<or>
     (a = 0x0064 \<and> b = 0xFF9B \<and> [c, d, e, f] = [0, 0, 0, 0] \<and> P (v4_of_segments g h))"
proof -
  let ?v = "V6 a b c d e f g h"
  have whole: "v4_of_number (v6_bits ?v) = v4_of_segments g h"
    by (simp add: v4_of_number_segments del: distrib_right_numeral add_mult_distrib)
  have "v6_bits ?v div 2 ^ 80 = drop_bit 80 (v6_bits ?v)" by (simp add: drop_bit_eq_div)
  also have "\<dots> = (unat a * 65536 + unat b) * 65536 + unat c"
    by (simp add: drop_segment del: distrib_right_numeral add_mult_distrib)
  finally have part: "v4_of_number (v6_bits ?v div 2 ^ 80) = v4_of_segments b c"
    by (simp only: v4_of_number_segments)
  show ?thesis
    unfolding carriers_def
    by (simp add: v6_contains_prefix whole part del: v6_bits.simps power_numeral) auto
qed

lemma refused_v6_iff:
  "(\<exists>n \<in> set refused_v6. network_contains n (IpV6 (V6 a b c d e f g h))) \<longleftrightarrow>
     V6 a b c d e f g h = V6 0 0 0 0 0 0 0 0 \<or> V6 a b c d e f g h = V6 0 0 0 0 0 0 0 1 \<or>
     a AND 0xFF00 = 0xFF00 \<or> a AND 0xFE00 = 0xFC00 \<or> a AND 0xFFC0 = 0xFE80"
  unfolding refused_v6_def by (simp add: v6_contains_prefix high_bits) auto

lemma other_family:
  "\<not> network_contains (v6_net a b c d e f g h p) (IpV4 v)"
  "\<not> network_contains (v4_net w x y z p) (IpV6 v')"
  by (simp_all add: network_contains_def v4_net_def v6_net_def)

lemma refused_of_v4: "(\<exists>n \<in> set refused_networks. network_contains n (IpV4 v)) \<longleftrightarrow> \<not> is_public_v4 v"
proof -
  have "\<not> (\<exists>n \<in> set refused_v6. network_contains n (IpV4 v))"
    by (simp add: refused_v6_def other_family)
  then show ?thesis
    by (cases v) (simp only: refused_networks_def set_append bex_Un refused_v4_iff simp_thms)
qed

lemma refused_of_v6:
  "(\<exists>n \<in> set refused_networks. network_contains n (IpV6 v)) \<longleftrightarrow>
     (\<exists>n \<in> set refused_v6. network_contains n (IpV6 v))"
proof -
  have "\<not> (\<exists>n \<in> set refused_v4. network_contains n (IpV6 v))"
    by (simp add: refused_v4_def other_family)
  then show ?thesis by (simp only: refused_networks_def set_append bex_Un simp_thms)
qed

lemma public_v6_iff:
  "is_public_v6 v \<longleftrightarrow> \<not> (\<exists>n \<in> set refused_v6. network_contains n (IpV6 v)) \<and>
     \<not> (\<exists>(n, k) \<in> set carriers. network_contains n (IpV6 v) \<and>
          \<not> is_public_v4 (v4_of_number (v6_bits v div 2 ^ k)))"
proof (cases v)
  case [simp]: (V6 a b c d e f g h)
  let ?mapped = "[a, b, c, d, e] = [0, 0, 0, 0, 0] \<and> f = 0xFFFF"
    and ?compatible = "[a, b, c, d, e, f] = [0, 0, 0, 0, 0, 0]"
    and ?nat64 = "a = 0x0064 \<and> b = 0xFF9B \<and> [c, d, e, f] = [0, 0, 0, 0]"
  note forms = V6 refused_v6_iff carriers_iff [where P = "\<lambda>w. \<not> is_public_v4 w"]
  consider "?mapped" | "?compatible" | "a = 0x2002" | "?nat64"
    | "\<not> ?mapped" "\<not> ?compatible" "a \<noteq> 0x2002" "\<not> ?nat64" by blast
  then show ?thesis
  proof cases
    case 1
    then show ?thesis unfolding forms by (simp add: v4_of_segments_def [symmetric] del: is_public_v4.simps)
  next
    case 2
    then show ?thesis unfolding forms by (auto simp: v4_of_segments_def [symmetric] simp del: is_public_v4.simps)
  next
    case 3
    then show ?thesis unfolding forms by (simp add: v4_of_segments_def [symmetric] del: is_public_v4.simps)
  next
    case 4
    then show ?thesis unfolding forms by (simp add: v4_of_segments_def [symmetric] del: is_public_v4.simps)
  next
    case 5
    then have "embedded_v4 (V6 a b c d e f g h) = None" by auto
    with 5 show ?thesis unfolding forms by auto
  qed
qed

lemma bex_map_filter:
  "(\<exists>w \<in> set (map (\<lambda>(n, k). f n k) (filter (\<lambda>(n, k). c n) l)). P w) \<longleftrightarrow>
     (\<exists>(n, k) \<in> set l. c n \<and> P (f n k))"
  by (induction l) auto

lemma carried_iff:
  "(\<exists>w \<in> set (carried (IpV6 v)). P w) \<longleftrightarrow>
     (\<exists>(n, k) \<in> set carriers. network_contains n (IpV6 v) \<and> P (v4_of_number (v6_bits v div 2 ^ k)))"
  by (simp only: carried.simps bex_map_filter)

lemma public_address_iff:
  "is_public_ip i \<longleftrightarrow>
     \<not> refused_address i \<and> \<not> (\<exists>v \<in> set (carried i). refused_address (IpV4 v))"
proof (cases i)
  case (IpV4 v)
  then show ?thesis by (simp add: refused_address_def refused_of_v4)
next
  case (IpV6 v)
  have "refused_address (IpV4 w) \<longleftrightarrow> \<not> is_public_v4 w" for w
    by (simp add: refused_address_def refused_of_v4)
  with IpV6 show ?thesis
    by (simp only: is_public_ip.simps carried_iff refused_address_def refused_of_v6 public_v6_iff)
qed

section \<open>The registries\<close>

text \<open>
  The special-purpose registries of IANA for IPv4 and IPv6 (RFC 6890 and its updates), with the
  multicast blocks and the deprecated site-local block, by the column that says whether an address
  is globally reachable; an entry that is deprecated or for which the column does not apply (the 6to4
  relays, Teredo) counts as not reachable. The networks of the four schemes in \<open>carriers\<close> are left
  out: their addresses are judged by the IPv4 address they carry.
\<close>

definition unreachable_networks :: "network list" where
  "unreachable_networks =
     [v4_net 0 0 0 0 8, v4_net 10 0 0 0 8, v4_net 100 64 0 0 10, v4_net 127 0 0 0 8,
      v4_net 169 254 0 0 16, v4_net 172 16 0 0 12, v4_net 192 0 0 0 24, v4_net 192 0 2 0 24,
      v4_net 192 88 99 0 24, v4_net 192 168 0 0 16, v4_net 198 18 0 0 15, v4_net 198 51 100 0 24,
      v4_net 203 0 113 0 24, v4_net 224 0 0 0 4, v4_net 240 0 0 0 4,
      v6_net 0 0 0 0 0 0 0 0 128, v6_net 0 0 0 0 0 0 0 1 128,
      v6_net 0x0064 0xFF9B 1 0 0 0 0 0 48, v6_net 0x0100 0 0 0 0 0 0 0 64,
      v6_net 0x0100 0 0 1 0 0 0 0 64, v6_net 0x2001 0 0 0 0 0 0 0 23,
      v6_net 0x2001 0x0DB8 0 0 0 0 0 0 32, v6_net 0x3FFF 0 0 0 0 0 0 0 20,
      v6_net 0x5F00 0 0 0 0 0 0 0 16, v6_net 0xFC00 0 0 0 0 0 0 0 7,
      v6_net 0xFE80 0 0 0 0 0 0 0 10, v6_net 0xFEC0 0 0 0 0 0 0 0 10,
      v6_net 0xFF00 0 0 0 0 0 0 0 8]"

text \<open>
  The assignments inside these networks that are reachable again: two anycast addresses of
  \<open>192.0.0.0/24\<close>, and three addresses and four networks of \<open>2001::/23\<close>.
\<close>

definition anycast_v4 :: "network list" where
  "anycast_v4 = [v4_net 192 0 0 9 32, v4_net 192 0 0 10 32]"

definition assigned_v6 :: "network list" where
  "assigned_v6 =
     [v6_net 0x2001 1 0 0 0 0 0 1 128, v6_net 0x2001 1 0 0 0 0 0 2 128,
      v6_net 0x2001 1 0 0 0 0 0 3 128, v6_net 0x2001 3 0 0 0 0 0 0 32,
      v6_net 0x2001 4 0x0112 0 0 0 0 0 48, v6_net 0x2001 0x0020 0 0 0 0 0 0 28,
      v6_net 0x2001 0x0030 0 0 0 0 0 0 28]"

definition in_some :: "network list \<Rightarrow> ip \<Rightarrow> bool" where
  "in_some ns i \<longleftrightarrow> list_ex (\<lambda>n. network_contains n i) ns"

definition globally_reachable :: "ip \<Rightarrow> bool" where
  "globally_reachable i \<longleftrightarrow>
     in_some (anycast_v4 @ assigned_v6) i \<or> \<not> in_some unreachable_networks i"

text \<open>What the test for public addresses does not know.\<close>

definition unknown_networks :: "network list" where
  "unknown_networks =
     [v6_net 0x0064 0xFF9B 1 0 0 0 0 0 48, v6_net 0x0100 0 0 0 0 0 0 0 64,
      v6_net 0x0100 0 0 1 0 0 0 0 64, v6_net 0x2001 0 0 0 0 0 0 0 23,
      v6_net 0x2001 0x0DB8 0 0 0 0 0 0 32, v6_net 0x3FFF 0 0 0 0 0 0 0 20,
      v6_net 0x5F00 0 0 0 0 0 0 0 16, v6_net 0xFEC0 0 0 0 0 0 0 0 10]"

text \<open>Two networks are nested or apart, which is decided on the base of the narrower one.\<close>

lemma drop_bit_shorter:
  fixes b c :: nat
  assumes "drop_bit (w - p') b = drop_bit (w - p') c" "p \<le> p'" "p' \<le> w"
  shows "drop_bit (w - p) b = drop_bit (w - p) c"
proof -
  have "drop_bit (w - p) x = drop_bit (p' - p) (drop_bit (w - p') x)" for x :: nat
    using assms(2,3) by (simp add: drop_bit_drop_bit)
  with assms(1) show ?thesis by (simp only:)
qed

lemma contains_base:
  assumes "network_contains n i" "network_contains n' i" "nw_prefix n \<le> nw_prefix n'"
    "nw_prefix n' \<le> ip_width (nw_base n')"
  shows "network_contains n (nw_base n')"
proof (cases "nw_prefix n = 0")
  case True
  then show ?thesis using assms
    by (auto simp: network_contains_def Let_def split: prod.splits if_splits)
next
  case False
  then show ?thesis using assms
    by (cases i; cases "nw_base n"; cases "nw_base n'")
      (auto simp: network_contains_def ip_width_def Let_def dest: drop_bit_shorter)
qed

definition proper :: "network \<Rightarrow> bool" where
  "proper n \<longleftrightarrow> nw_prefix n \<le> ip_width (nw_base n)"

lemma within:
  assumes "network_contains n (nw_base n')" "network_contains n' i" "nw_prefix n \<le> nw_prefix n'"
    "proper n'"
  shows "network_contains n i"
proof (cases "nw_prefix n = 0")
  case True
  then show ?thesis using assms
    by (auto simp: network_contains_def Let_def split: prod.splits if_splits)
next
  case False
  then show ?thesis using assms
    by (cases i; cases "nw_base n"; cases "nw_base n'")
      (auto simp: network_contains_def proper_def ip_width_def Let_def dest: drop_bit_shorter)
qed

definition apart :: "network \<Rightarrow> network \<Rightarrow> bool" where
  "apart n n' \<longleftrightarrow>
     (if nw_prefix n \<le> nw_prefix n' then \<not> network_contains n (nw_base n')
      else \<not> network_contains n' (nw_base n))"

lemma apart_disjoint:
  "apart n n' \<Longrightarrow> proper n \<Longrightarrow> proper n' \<Longrightarrow> network_contains n i \<Longrightarrow> \<not> network_contains n' i"
  unfolding apart_def proper_def
  by (metis contains_base nat_le_linear)

lemma v6_net_fields:
  "nw_prefix (v6_net a b c d e f g h p) = p" "nw_base (v6_net a b c d e f g h p) = IpV6 (V6 a b c d e f g h)"
  by (simp_all add: v6_net_def)

lemma unknown_apart:
  "list_all (\<lambda>u. proper u \<and> list_all (\<lambda>n. proper n \<and> apart u n) (refused_v6 @ map fst carriers))
     unknown_networks"
  by (simp add: unknown_networks_def refused_v6_def carriers_def apart_def proper_def v6_net_fields
      ip_width_def v6_contains drop_bit_eq_div)

lemma assigned_nested: "in_some assigned_v6 i \<Longrightarrow> in_some unknown_networks i"
proof -
  let ?u = "v6_net 0x2001 0 0 0 0 0 0 0 23"
  have "list_all (\<lambda>n. nw_prefix ?u \<le> nw_prefix n \<and> proper n \<and> network_contains ?u (nw_base n)) assigned_v6"
    by (simp add: assigned_v6_def proper_def v6_net_fields ip_width_def v6_contains drop_bit_eq_div)
  moreover assume "in_some assigned_v6 i"
  ultimately have "network_contains ?u i" by (auto simp: in_some_def list_all_iff list_ex_iff dest: within)
  then show ?thesis by (simp add: in_some_def unknown_networks_def)
qed

lemma unknown_is_v6: "\<not> in_some unknown_networks (IpV4 v)"
  by (simp add: in_some_def unknown_networks_def other_family)

lemma unreachable_iff:
  "in_some unreachable_networks i \<longleftrightarrow> refused_address i \<or> in_some unknown_networks i"
  unfolding in_some_def refused_address_def unreachable_networks_def refused_networks_def refused_v4_def
    refused_v6_def unknown_networks_def
  by (simp only: list_ex_iff list.set append.simps bex_simps simp_thms insert_iff) blast

lemma unknown_is_public:
  assumes "in_some unknown_networks i"
  shows "is_public_ip i"
proof -
  obtain v where i: "i = IpV6 v" using assms unknown_is_v6 by (cases i) auto
  obtain u where u: "u \<in> set unknown_networks" "network_contains u i"
    using assms by (auto simp: in_some_def list_ex_iff)
  have away: "\<not> network_contains n i" if "n \<in> set (refused_v6 @ map fst carriers)" for n
    using unknown_apart u that by (metis apart_disjoint list_all_iff)
  have "\<not> network_contains n (IpV6 v)" if "(n, k) \<in> set carriers" for n k
    using away [of n] that by (force simp: i)
  moreover have "\<not> network_contains n (IpV6 v)" if "n \<in> set refused_v6" for n
    using away [of n] that by (simp add: i)
  ultimately show ?thesis unfolding i is_public_ip.simps public_v6_iff by blast
qed

lemma anycast_refused: "in_some anycast_v4 (IpV4 v) \<Longrightarrow> refused_address (IpV4 v)"
proof -
  let ?n = "v4_net 192 0 0 0 24"
  have "list_all (\<lambda>n. nw_prefix ?n \<le> nw_prefix n \<and> proper n \<and> network_contains ?n (nw_base n)) anycast_v4"
    by (simp add: anycast_v4_def proper_def v4_net_def ip_width_def network_contains_def drop_bit_eq_div)
  moreover assume "in_some anycast_v4 (IpV4 v)"
  ultimately have "network_contains ?n (IpV4 v)"
    by (auto simp: in_some_def list_all_iff list_ex_iff dest: within)
  then show ?thesis by (simp add: refused_address_def refused_networks_def refused_v4_def)
qed

lemma anycast_is_v4: "\<not> in_some anycast_v4 (IpV6 v)"
  by (simp add: in_some_def anycast_v4_def other_family)

lemma in_some_append: "in_some (ms @ ns) i \<longleftrightarrow> in_some ms i \<or> in_some ns i"
  by (auto simp: in_some_def)

lemma known_reachable_iff:
  "\<not> in_some unknown_networks i \<Longrightarrow>
     globally_reachable i \<and> \<not> in_some anycast_v4 i \<longleftrightarrow> \<not> refused_address i"
  unfolding globally_reachable_def in_some_append unreachable_iff
  using assigned_nested anycast_refused anycast_is_v4 by (cases i) auto

text \<open>
  C20. The test for public addresses against the registries. An address passes exactly when it and
  the IPv4 addresses it carries are globally reachable and none is one of the two anycast addresses
  of \<open>192.0.0.0/24\<close>, or when it lies in one of the eight networks the test does not know. Of those
  networks only the assignments the registry names are reachable: the rest, such as the
  documentation prefix \<open>2001:db8::/32\<close> and site-local \<open>fec0::/10\<close>, pass and are not.
\<close>

theorem public_test_against_the_registries:
  "(is_public_ip i \<longleftrightarrow>
      in_some unknown_networks i \<or>
      list_all (\<lambda>j. globally_reachable j \<and> \<not> in_some anycast_v4 j) (i # map IpV4 (carried i))) \<and>
   (in_some unknown_networks i \<and> globally_reachable i \<longleftrightarrow> in_some assigned_v6 i)"
proof
  have carried: "globally_reachable (IpV4 v) \<and> \<not> in_some anycast_v4 (IpV4 v) \<longleftrightarrow> \<not> refused_address (IpV4 v)" for v
    by (rule known_reachable_iff [OF unknown_is_v6])
  show "is_public_ip i \<longleftrightarrow> in_some unknown_networks i \<or>
      list_all (\<lambda>j. globally_reachable j \<and> \<not> in_some anycast_v4 j) (i # map IpV4 (carried i))"
  proof (cases "in_some unknown_networks i")
    case False
    then show ?thesis
      by (auto simp: public_address_iff list_all_iff known_reachable_iff [OF False] carried)
  qed (simp add: unknown_is_public)
  show "in_some unknown_networks i \<and> globally_reachable i \<longleftrightarrow> in_some assigned_v6 i"
    using assigned_nested [of i] anycast_is_v4 unknown_is_v6
    by (cases i) (auto simp: globally_reachable_def in_some_append unreachable_iff)
qed

section \<open>Management endpoints in another coat\<close>

lemma management_reach:
  "v \<in> {V4 169 254 169 254, V4 169 254 170 2, V4 168 63 129 16, V4 100 100 100 200, V4 192 0 0 192}
     \<Longrightarrow> is_management_endpoint (IpV4 v) \<and> (is_public_v4 v \<longleftrightarrow> v = V4 168 63 129 16)"
  by (auto simp: is_management_endpoint_def management_v4_def)

lemma carried_cases:
  assumes "v \<in> set (carried (IpV6 (V6 a b c d e f g h)))"
  shows "[a, b, c, d, e] = [0, 0, 0, 0, 0] \<and> (f = 0xFFFF \<or> f = 0) \<and> v = v4_of_segments g h \<or>
    a = 0x2002 \<and> v = v4_of_segments b c \<or>
    a = 0x0064 \<and> b = 0xFF9B \<and> [c, d, e, f] = [0, 0, 0, 0] \<and> v = v4_of_segments g h"
proof -
  have "\<exists>w \<in> set (carried (IpV6 (V6 a b c d e f g h))). v = w" using assms by blast
  then show ?thesis unfolding carried_iff carriers_iff .
qed

lemma embedded_carried:
  assumes "v \<in> set (carried (IpV6 w))" "v \<noteq> V4 0 0 0 0" "v \<noteq> V4 0 0 0 1"
  shows "embedded_v4 w = Some v \<and> is_public_v6 w = is_public_v4 v"
proof (cases w)
  case w: (V6 a b c d e f g h)
  have local: "v4_of_segments 0 0 = V4 0 0 0 0" "v4_of_segments 0 1 = V4 0 0 0 1"
    by (simp_all add: v4_of_segments_def)
  note fold = v4_of_segments_def [symmetric]
  from carried_cases [OF assms(1) [unfolded w]] show ?thesis
  proof (elim disjE conjE)
    assume "[a, b, c, d, e] = [0, 0, 0, 0, 0]" "f = 0xFFFF" "v = v4_of_segments g h"
    then show ?thesis by (simp add: w fold del: is_public_v4.simps)
  next
    assume z: "[a, b, c, d, e] = [0, 0, 0, 0, 0]" "f = 0" and v: "v = v4_of_segments g h"
    have "\<not> (g = 0 \<and> h = 0)" "\<not> (g = 0 \<and> h = 1)" using assms(2,3) local v by auto
    with z show ?thesis by (auto simp: w v simp del: is_public_v4.simps)
  next
    assume "a = 0x2002" "v = v4_of_segments b c"
    then show ?thesis by (simp add: w del: is_public_v4.simps)
  next
    assume "a = 0x0064" "b = 0xFF9B" "[c, d, e, f] = [0, 0, 0, 0]" "v = v4_of_segments g h"
    then show ?thesis by (simp add: w del: is_public_v4.simps)
  qed
qed

text \<open>
  C8. The management endpoints are refused to an untrusted run, and to an operator's run that does
  not name the address, under the address the list has and its mapped form. Any other address that
  carries one through a transition scheme is judged by the public test alone: an untrusted run may
  reach it exactly when the endpoint is Azure's host agent, the one with an address of the public
  range; and where the operator lets runs reach private addresses, which the documentation says
  never covers management endpoints, every run of the operator may reach every endpoint this way.
\<close>

theorem wrapped_management_endpoints_pass:
  assumes endpoint: "v \<in> {V4 169 254 169 254, V4 169 254 170 2, V4 168 63 129 16,
      V4 100 100 100 200, V4 192 0 0 192}"
    and carries: "v \<in> set (carried (IpV6 w))"
    and untrusted: "er_untrusted_destinations r = Some ds"
    and operator: "er_untrusted_destinations s = None" "\<not> er_block_private_addresses s"
      "\<not> list_ex (\<lambda>n. is_single n (IpV4 v) \<or> is_single n (IpV6 w)) (er_trusted_networks s)"
  shows "address_permitted r (IpV4 v) = Some ManagementEndpoint \<and>
    address_permitted s (IpV4 v) = Some ManagementEndpoint \<and>
    (if to_ipv4_mapped w = Some v
     then address_permitted r (IpV6 w) = Some ManagementEndpoint \<and>
       address_permitted s (IpV6 w) = Some ManagementEndpoint
     else address_permitted r (IpV6 w) =
         (if v = V4 168 63 129 16 then None else Some NonPublicAddress) \<and>
       address_permitted s (IpV6 w) = None)"
proof -
  have listed: "is_management_endpoint (IpV4 v)" and public: "is_public_v4 v \<longleftrightarrow> v = V4 168 63 129 16"
    using management_reach [OF endpoint] by auto
  have embedded: "embedded_v4 w = Some v" "is_public_v6 w \<longleftrightarrow> v = V4 168 63 129 16"
    using embedded_carried [OF carries] endpoint public by auto
  have "is_management_endpoint (IpV6 w) \<longleftrightarrow> to_ipv4_mapped w = Some v"
  proof (cases "to_ipv4_mapped w")
    case None
    then have "w \<noteq> V6 0xFD00 0x0EC2 0 0 0 0 0 0x0254" using embedded(1) by auto
    with None show ?thesis by (simp add: is_management_endpoint_def)
  next
    case (Some v')
    then have "v' = v" using embedded(1) by (cases w) auto
    with Some listed show ?thesis by (simp add: is_management_endpoint_def)
  qed
  then show ?thesis
    using listed untrusted operator embedded(2)
    by (auto simp: address_permitted_def Let_def list_ex_iff)
qed

lemma wrapped_management_endpoints_pass_witness:
  "address_permitted (egress_default\<lparr>er_untrusted_destinations := Some []\<rparr>)
     (IpV6 (V6 0x0064 0xFF9B 0 0 0 0 0xA83F 0x8110)) = None"
proof -
  have "V4 168 63 129 16 \<in> set (carried (IpV6 (V6 0x0064 0xFF9B 0 0 0 0 0xA83F 0x8110)))"
    by (simp add: carriers_def network_contains_def v6_net_def drop_bit_eq_div v4_of_number_def)
  from wrapped_management_endpoints_pass [OF _ this,
      of "egress_default\<lparr>er_untrusted_destinations := Some []\<rparr>" "[]"
        "egress_default\<lparr>er_block_private_addresses := False\<rparr>"]
  show ?thesis by (simp add: egress_default_def)
qed

end
