(* ===== verification/WebFetch.thy ===== *)
theory WebFetch
  imports WebText AddressSpace Json "HOL-Library.Sublist"
begin

text \<open>
  The fetch and the search of the web tools (\<open>crates/lightagent-tools/src/builtins/web.rs\<close>): the loop
  that vets, pins and sends each hop and follows redirects, the rendering of the answer, and the
  search with its guards and the two result formats. The text of an error of the URL parser is left
  out of the message that carries it. The URL library, the resolver, the HTTP client,
  the authorization of the run and the JSON reader are parameters; those with an effect act on an
  unspecified world. The requests that were sent are the observation.
\<close>

section \<open>The environment\<close>

datatype body_chunk = Chunk string | ReadError string

record response =
  rs_status :: nat
  rs_location :: "string option"
  rs_content_type :: "string option"
  rs_body :: "body_chunk list"

record web_policy =
  wp_allow_domains :: "string list"
  wp_block_private_addresses :: bool
  wp_trusted_networks :: "network list"
  wp_untrusted_destinations :: "string list option"
  wp_search_credential_withheld :: bool
  wp_max_fetch_bytes :: nat
  wp_timeout :: nat
  wp_search_endpoint :: "string option"
  wp_search_query_param :: string
  wp_search_api_key :: "string option"
  wp_search_credential :: bool
  wp_search_max_results :: nat

definition policy_rules :: "web_policy \<Rightarrow> egress_rules" where
  "policy_rules p =
     \<lparr>er_allow_domains = wp_allow_domains p, er_trusted_networks = wp_trusted_networks p,
      er_block_private_addresses = wp_block_private_addresses p,
      er_untrusted_destinations = wp_untrusted_destinations p\<rparr>"

record 'w web_env =
  we_parse :: "string \<Rightarrow> url option"
  we_join :: "url \<Rightarrow> string \<Rightarrow> url option"
  we_path :: "url \<Rightarrow> string"
  we_query :: "url \<Rightarrow> (string \<times> string) list"
  we_append :: "url \<Rightarrow> string \<Rightarrow> string \<Rightarrow> url"
  we_json :: "string \<Rightarrow> string + json"
  we_builds :: "client \<Rightarrow> bool"
  we_resolve :: "'w \<Rightarrow> string \<Rightarrow> nat \<Rightarrow> socket list option \<times> 'w"
  we_send :: "'w \<Rightarrow> client \<Rightarrow> url \<Rightarrow> (string + response) \<times> 'w"
  we_authorized :: "'w \<Rightarrow> string option \<times> 'w"
  we_credential :: "'w \<Rightarrow> url \<Rightarrow> string option \<times> 'w"
  we_search :: "'w \<Rightarrow> url \<Rightarrow> string option \<Rightarrow> (string + response) \<times> 'w"

section \<open>Rendering\<close>

fun read_bounded :: "nat \<Rightarrow> string \<Rightarrow> body_chunk list \<Rightarrow> string + string" where
  "read_bounded cap buffer [] = Inr buffer"
| "read_bounded cap buffer (x # xs) =
     (if cap \<le> length buffer then Inr buffer
      else case x of
          Chunk b \<Rightarrow> read_bounded cap (buffer @ take (cap - length buffer) b) xs
        | ReadError e \<Rightarrow> Inl (''error reading body: '' @ e))"

definition contains_str :: "string \<Rightarrow> string \<Rightarrow> bool" where
  "contains_str s t \<longleftrightarrow> find_str t s \<noteq> None"

definition is_textual :: "string \<Rightarrow> bool" where
  "is_textual ct \<longleftrightarrow>
     ct = [] \<or> is_prefix_of ''text/'' ct \<or> contains_str ct ''json'' \<or> contains_str ct ''xml'' \<or>
     contains_str ct ''javascript''"

definition render_fetch :: "url \<Rightarrow> string \<Rightarrow> string \<Rightarrow> string" where
  "render_fetch u ct body =
     ''URL: '' @ url_display u @ [CHR 0x0A] @
     (if contains_str ct ''html'' then
        let (title, t) = html_to_text (from_utf8_lossy body)
        in (case title of Some x \<Rightarrow> ''Title: '' @ x @ [CHR 0x0A] | None \<Rightarrow> []) @ [CHR 0x0A] @ t
      else if is_textual ct then [CHR 0x0A] @ from_utf8_lossy body
      else [CHR 0x0A] @ ''['' @ decimal (length body) @ '' bytes of '' @
        (if ct = [] then ''binary'' else ct) @ '' content, not shown]'')"

definition content_type_of :: "response \<Rightarrow> string" where
  "content_type_of r = lower (case rs_content_type r of Some ct \<Rightarrow> ct | None \<Rightarrow> [])"

section \<open>The fetch\<close>

definition max_redirects :: nat where
  "max_redirects = 5"

datatype hop = Finished "string + string" | Redirected url redirects

definition is_redirection :: "nat \<Rightarrow> bool" where
  "is_redirection s \<longleftrightarrow> 300 \<le> s \<and> s \<le> 399"

definition is_success :: "nat \<Rightarrow> bool" where
  "is_success s \<longleftrightarrow> 200 \<le> s \<and> s \<le> 299"

text \<open>What an answer leads to.\<close>

definition after_response ::
    "'w web_env \<Rightarrow> web_policy \<Rightarrow> url \<Rightarrow> redirects \<Rightarrow> response \<Rightarrow> hop" where
  "after_response env p u rd r =
     (if is_redirection (rs_status r) then
        (case rs_location r of
           None \<Rightarrow> Finished (Inl ''redirect without a Location header'')
         | Some location \<Rightarrow>
             (case next_url (we_join env) rd u location of
                (Inl e, _) \<Rightarrow>
                  Finished (Inl (''refused a redirect from '' @ display_host u @ '': '' @ denial_text e))
              | (Inr target, rd') \<Rightarrow> Redirected target rd'))
      else if \<not> is_success (rs_status r) then
        Finished (Inl (display_host u @ '' returned HTTP '' @ decimal (rs_status r)))
      else
        (case read_bounded (wp_max_fetch_bytes p) [] (rs_body r) of
           Inl e \<Rightarrow> Finished (Inl e)
         | Inr body \<Rightarrow>
             Finished (Inr (limit_readable_text (render_fetch u (content_type_of r) body)))))"

text \<open>One turn of the loop; the last components are the requests sent and the world.\<close>

definition fetch_hop ::
    "'w web_env \<Rightarrow> web_policy \<Rightarrow> bool \<Rightarrow> url \<Rightarrow> redirects \<Rightarrow> 'w \<Rightarrow> hop \<times> (client \<times> url) list \<times> 'w" where
  "fetch_hop env p checked u rd w =
     (let (revoked, w0) = (if checked then we_authorized env w else (None, w))
      in case revoked of
           Some message \<Rightarrow> (Finished (Inl message), [], w0)
         | None \<Rightarrow>
             (case vet (we_resolve env) (policy_rules p) u w0 of
                (Inl e, w1) \<Rightarrow>
                  (Finished (Inl (''refused to fetch from '' @ display_host u @ '': '' @ denial_text e)),
                   [], w1)
              | (Inr v, w1) \<Rightarrow>
                  let c = pinned_client v (wp_timeout p)
                  in if \<not> we_builds env c
                     then (Finished (Inl ''could not build the outbound client''), [], w1)
                     else case we_send env w1 c u of
                         (Inl e, w2) \<Rightarrow>
                           (Finished (Inl (''could not fetch from '' @ display_host u @ '': '' @ e)),
                            [(c, u)], w2)
                       | (Inr r, w2) \<Rightarrow> (after_response env p u rd r, [(c, u)], w2)))"

lemma next_url_hops:
  "next_url join rd u l = (Inr t, rd') \<Longrightarrow>
     rd_hops rd' = rd_hops rd + 1 \<and> rd_hops rd' \<le> rd_max rd \<and> rd_max rd' = rd_max rd"
  by (auto simp: next_url_def Let_def split: if_splits option.splits)

lemma fetch_hop_redirected:
  "fetch_hop env p checked u rd w = (Redirected t rd', sent, w') \<Longrightarrow>
     \<exists>l. next_url (we_join env) rd u l = (Inr t, rd')"
  by (auto simp: fetch_hop_def after_response_def Let_def
      split: prod.splits option.splits sum.splits if_splits)

lemma fetch_hop_less:
  "fetch_hop env p checked u rd w = (Redirected t rd', sent, w') \<Longrightarrow>
     Suc (rd_max rd') - rd_hops rd' < Suc (rd_max rd) - rd_hops rd"
  using fetch_hop_redirected [of env p checked u rd w t rd' sent w'] next_url_hops [of "we_join env" rd u _ t rd']
  by fastforce

function fetch_loop ::
    "'w web_env \<Rightarrow> web_policy \<Rightarrow> bool \<Rightarrow> url \<Rightarrow> redirects \<Rightarrow> 'w \<Rightarrow>
     (string + string) \<times> (client \<times> url) list \<times> 'w" where
  "fetch_loop env p checked u rd w =
     (case fetch_hop env p checked u rd w of
        (Finished r, sent, w1) \<Rightarrow> (r, sent, w1)
      | (Redirected t rd', sent, w1) \<Rightarrow>
          (case fetch_loop env p checked t rd' w1 of (r, later, w2) \<Rightarrow> (r, sent @ later, w2)))"
  by pat_completeness auto
termination
  by (relation "measure (\<lambda>(env, p, checked, u, rd, w). Suc (rd_max rd) - rd_hops rd)")
    (auto dest: fetch_hop_less [OF sym] fetch_hop_less)

declare fetch_loop.simps [simp del]

definition fetch ::
    "'w web_env \<Rightarrow> web_policy \<Rightarrow> bool \<Rightarrow> string \<Rightarrow> 'w \<Rightarrow>
     (string + string) \<times> (client \<times> url) list \<times> 'w" where
  "fetch env p checked start w =
     (case we_parse env start of
        None \<Rightarrow> (Inl ''invalid URL'', [], w)
      | Some u \<Rightarrow> fetch_loop env p checked u (redirects_new u max_redirects False) w)"

section \<open>The search\<close>

record search_hit =
  sh_title :: string
  sh_url :: string
  sh_snippet :: string

text \<open>\<open>str::rfind\<close> and \<open>str::split\<close> on a text.\<close>

fun rfind_str :: "string \<Rightarrow> string \<Rightarrow> nat option" where
  "rfind_str needle [] = None"
| "rfind_str needle (c # s) =
     (case rfind_str needle s of
        Some i \<Rightarrow> Some (Suc i)
      | None \<Rightarrow> if is_prefix_of needle (c # s) then Some 0 else None)"

definition result_marker :: string where
  "result_marker = ''result results_links''"

function split_results :: "string \<Rightarrow> string list" where
  "split_results s =
     (case find_str result_marker s of
        None \<Rightarrow> [s]
      | Some i \<Rightarrow> take i s # split_results (drop (i + length result_marker) s))"
  by pat_completeness auto
termination
proof (relation "measure length")
  fix s i assume "find_str result_marker s = Some i"
  from find_str_bound [OF this] show "(drop (i + length result_marker) s, s) \<in> measure length"
    by (simp add: result_marker_def)
qed simp

declare split_results.simps [simp del]

definition anchor_with_class :: "string \<Rightarrow> string \<Rightarrow> (string \<times> string) option" where
  "anchor_with_class html class =
     Option.bind (find_str (''class='' @ [CHR 0x22] @ class @ [CHR 0x22]) html) (\<lambda>class_at.
     Option.bind (rfind_str ''<a'' (take class_at html)) (\<lambda>open_at.
     Option.bind (find_str ''>'' (drop class_at html)) (\<lambda>k.
     let tag_end = k + class_at; tag = take (tag_end + 1 - open_at) (drop open_at html)
     in Option.bind (find_str (''href='' @ [CHR 0x22]) tag) (\<lambda>h.
        let href_at = h + 6
        in Option.bind (find_str [CHR 0x22] (drop href_at tag)) (\<lambda>href_len.
           Option.bind (find_str ''</a>'' (drop (tag_end + 1) html)) (\<lambda>text_len.
           let href = decode_entities (take href_len (drop href_at tag));
               title = collapse_whitespace
                 (decode_entities (strip_tags (take text_len (drop (tag_end + 1) html))))
           in if href \<noteq> [] \<and> title \<noteq> [] then Some (href, title) else None))))))"

definition is_duckduckgo :: "url \<Rightarrow> bool" where
  "is_duckduckgo u \<longleftrightarrow>
     (case url_host u of
        Some h \<Rightarrow> h = ''duckduckgo.com'' \<or> ends_in h ''.duckduckgo.com''
      | None \<Rightarrow> False)"

definition duckduckgo_target :: "'w web_env \<Rightarrow> string \<Rightarrow> string option" where
  "duckduckgo_target env href =
     (let absolute = (if is_prefix_of ''//'' href then ''https:'' @ href else href)
      in case we_parse env absolute of
           None \<Rightarrow> None
         | Some u \<Rightarrow>
             if is_duckduckgo u \<and> we_path env u = ''/l/''
             then map_option snd (find (\<lambda>(k, _). k = ''uddg'') (we_query env u))
             else if scheme_ok u then Some absolute else None)"

definition duckduckgo_hit :: "'w web_env \<Rightarrow> string \<Rightarrow> search_hit option" where
  "duckduckgo_hit env result =
     Option.bind (anchor_with_class result ''result__a'') (\<lambda>(href, title).
     Option.bind (duckduckgo_target env href) (\<lambda>u.
       Some \<lparr>sh_title = title, sh_url = u,
             sh_snippet = (case anchor_with_class result ''result__snippet'' of
                             Some (_, t) \<Rightarrow> t | None \<Rightarrow> [])\<rparr>))"

definition parse_duckduckgo_results :: "'w web_env \<Rightarrow> string \<Rightarrow> nat \<Rightarrow> search_hit list" where
  "parse_duckduckgo_results env html limit =
     take limit (List.map_filter (duckduckgo_hit env) (drop 1 (split_results html)))"

text \<open>\<open>json.get(key).and_then(Value::as_str)\<close>.\<close>

definition str_at :: "json \<Rightarrow> string \<Rightarrow> string option" where
  "str_at item key = Option.bind (json_get key item) as_str"

definition json_hit :: "json \<Rightarrow> search_hit option" where
  "json_hit item =
     Option.bind (str_at item ''url'') (\<lambda>u.
       Some \<lparr>sh_title = (case str_at item ''title'' of Some t \<Rightarrow> t | None \<Rightarrow> u), sh_url = u,
             sh_snippet =
               (case List.map_filter (str_at item) [''content'', ''snippet'', ''description'', ''body''] of
                  [] \<Rightarrow> [] | t # _ \<Rightarrow> t)\<rparr>)"

definition parse_search_results :: "json \<Rightarrow> nat \<Rightarrow> search_hit list" where
  "parse_search_results j limit =
     (case json_get ''results'' j of
        Some (JArray items) \<Rightarrow> take limit (List.map_filter json_hit items)
      | _ \<Rightarrow> [])"

text \<open>The checks before anything is sent: the error, or the URL of the request.\<close>

definition search_guard ::
    "'w web_env \<Rightarrow> web_policy \<Rightarrow> string \<Rightarrow> 'w \<Rightarrow> (string + url) \<times> 'w" where
  "search_guard env p query w =
     (case wp_search_endpoint p of
        None \<Rightarrow> (Inl ''no search backend is configured (set web.search.endpoint)'', w)
      | Some endpoint \<Rightarrow>
          if wp_search_credential_withheld p
          then (Inl (''the search credential is not granted to this profile, or it cannot be used; ''
                  @ ''nothing was sent''), w)
          else case we_parse env endpoint of
              None \<Rightarrow> (Inl ''invalid search endpoint'', w)
            | Some u \<Rightarrow>
                if (case wp_untrusted_destinations p of
                      Some authorized \<Rightarrow>
                        (case url_host u of Some h \<Rightarrow> \<not> host_matches h authorized | None \<Rightarrow> True)
                    | None \<Rightarrow> False)
                then (Inl ''the search endpoint is not authorized for this profile'', w)
                else let (denial, w1) =
                    (if wp_search_credential p then we_credential env w u else (None, w))
                  in case denial of
                      Some code \<Rightarrow> (Inl (''the search credential was refused ('' @ code @ '')''), w1)
                    | None \<Rightarrow> (Inr (we_append env u (wp_search_query_param p) query), w1))"

definition search_limit :: "web_policy \<Rightarrow> nat option \<Rightarrow> nat" where
  "search_limit p requested =
     (let ceiling = max (wp_search_max_results p) 1
      in min (max (case requested of Some n \<Rightarrow> n | None \<Rightarrow> ceiling) 1) ceiling)"

definition search_answer ::
    "'w web_env \<Rightarrow> web_policy \<Rightarrow> nat \<Rightarrow> response \<Rightarrow> string + search_hit list" where
  "search_answer env p limit r =
     (if \<not> is_success (rs_status r)
      then Inl (''search endpoint returned HTTP '' @ decimal (rs_status r))
      else case read_bounded (wp_max_fetch_bytes p) [] (rs_body r) of
          Inl e \<Rightarrow> Inl e
        | Inr body \<Rightarrow>
            if contains_str (content_type_of r) ''html'' then
              (if \<not> (case Option.bind (wp_search_endpoint p) (we_parse env) of
                       Some u \<Rightarrow> is_duckduckgo u | None \<Rightarrow> False)
               then Inl ''search endpoint returned HTML; use DuckDuckGo HTML or a JSON endpoint''
               else Inr (parse_duckduckgo_results env (from_utf8_lossy body) limit))
            else (case we_json env body of
                Inl e \<Rightarrow> Inl (''search endpoint did not return JSON: '' @ e)
              | Inr j \<Rightarrow> Inr (parse_search_results j limit)))"

text \<open>The search: the answer, the request that was sent with its key, and the world.\<close>

definition search_results ::
    "'w web_env \<Rightarrow> web_policy \<Rightarrow> string \<Rightarrow> nat option \<Rightarrow> 'w \<Rightarrow>
     (string + search_hit list) \<times> (url \<times> string option) option \<times> 'w" where
  "search_results env p query requested w =
     (case search_guard env p query w of
        (Inl e, w1) \<Rightarrow> (Inl e, None, w1)
      | (Inr u, w1) \<Rightarrow>
          (case we_search env w1 u (wp_search_api_key p) of
             (Inl e, w2) \<Rightarrow>
               (Inl (''search request failed: '' @ e), Some (u, wp_search_api_key p), w2)
           | (Inr r, w2) \<Rightarrow>
               (search_answer env p (search_limit p requested) r, Some (u, wp_search_api_key p), w2)))"

section \<open>Hosts by their labels\<close>

fun join_dots :: "string list \<Rightarrow> string" where
  "join_dots [] = []"
| "join_dots [x] = x"
| "join_dots (x # y # xs) = x @ [CHR ''.''] @ join_dots (y # xs)"

lemma split_on_ne [simp]: "split_on c s \<noteq> []"
  by (induction s) (auto split: list.splits)

lemma split_on_labels: "split_on c (x @ c # d) = split_on c x @ split_on c d"
proof (induction x)
  case (Cons a x)
  obtain p ps where "split_on c x = p # ps" by (cases "split_on c x") auto
  with Cons show ?case by simp
qed simp

lemma join_split_dots: "join_dots (split_on (CHR ''.'') s) = s"
proof (induction s)
  case (Cons a s)
  obtain p ps where p: "split_on (CHR ''.'') s = p # ps" by (cases "split_on (CHR ''.'') s") auto
  with Cons show ?case by (cases ps) auto
qed simp

lemma join_dots_append: "xs \<noteq> [] \<Longrightarrow> ys \<noteq> [] \<Longrightarrow> join_dots (xs @ ys) = join_dots xs @ CHR ''.'' # join_dots ys"
proof (induction xs rule: join_dots.induct)
  case (2 x)
  then show ?case by (cases ys) auto
qed auto

definition in_scope :: "string \<Rightarrow> string \<Rightarrow> bool" where
  "in_scope name host \<longleftrightarrow>
     name \<noteq> [] \<and> suffix (split_on (CHR ''.'') name) (split_on (CHR ''.'') host)"

lemma in_scope_iff: "in_scope d h \<longleftrightarrow> d \<noteq> [] \<and> (h = d \<or> ends_in h (CHR ''.'' # d))"
proof -
  have e: "ends_in h (CHR ''.'' # d) \<longleftrightarrow> (\<exists>x. h = x @ CHR ''.'' # d)"
    unfolding ends_in_def is_prefix_of_iff by (metis rev_append rev_rev_ident)
  have "suffix (split_on (CHR ''.'') d) (split_on (CHR ''.'') h) \<longleftrightarrow> h = d \<or> (\<exists>x. h = x @ CHR ''.'' # d)"
  proof
    assume "suffix (split_on (CHR ''.'') d) (split_on (CHR ''.'') h)"
    then obtain xs where xs: "split_on (CHR ''.'') h = xs @ split_on (CHR ''.'') d" by (auto simp: suffix_def)
    then have "h = join_dots (xs @ split_on (CHR ''.'') d)" by (metis join_split_dots)
    then show "h = d \<or> (\<exists>x. h = x @ CHR ''.'' # d)"
      by (cases "xs = []") (auto simp: join_split_dots join_dots_append)
  qed (auto simp: split_on_labels suffix_def)
  with e show ?thesis by (simp add: in_scope_def)
qed

definition scope_name :: "string \<Rightarrow> string" where
  "scope_name d = lower (dots_end (dots_start (trim d)))"

lemma host_matches_iff:
  "host_matches h ds \<longleftrightarrow> (\<exists>d \<in> set ds. in_scope (scope_name d) (lower (dots_end h)))"
  by (simp add: host_matches_def in_scope_iff scope_name_def Let_def)

section \<open>What a fetch reaches\<close>

text \<open>
  The contract of a run's destinations, by the table of refused networks in \<open>AddressSpace\<close> (which
  also compares that table with the registries). An untrusted run reaches public addresses only, an
  operator's run also the networks the operator trusts.
\<close>

definition public_destination :: "ip \<Rightarrow> bool" where
  "public_destination i \<longleftrightarrow>
     \<not> refused_address i \<and> \<not> (\<exists>v \<in> set (carried i). refused_address (IpV4 v))"

definition destination_ok :: "egress_rules \<Rightarrow> ip \<Rightarrow> bool" where
  "destination_ok r i \<longleftrightarrow>
     (case er_untrusted_destinations r of
        Some _ \<Rightarrow> \<not> is_management_endpoint i \<and> public_destination i
      | None \<Rightarrow>
          if is_management_endpoint i then (\<exists>n \<in> set (er_trusted_networks r). is_single n i)
          else (\<exists>n \<in> set (er_trusted_networks r). network_contains n i) \<or> public_destination i \<or>
            \<not> er_block_private_addresses r)"

definition host_ok :: "egress_rules \<Rightarrow> string \<Rightarrow> bool" where
  "host_ok r host \<longleftrightarrow>
     (\<forall>ds. er_untrusted_destinations r = Some ds \<or> er_allow_domains r = ds \<and> ds \<noteq> [] \<longrightarrow>
        (\<exists>d \<in> set ds. in_scope (scope_name d) (lower (dots_end host))))"

definition request_ok :: "egress_rules \<Rightarrow> client \<times> url \<Rightarrow> bool" where
  "request_ok r x \<longleftrightarrow>
     (let c = fst x; u = snd x
      in scheme_ok u \<and> \<not> has_userinfo u \<and> \<not> cl_follows_redirects c \<and> \<not> cl_uses_proxy c \<and>
         (\<exists>raw addrs. url_host u = Some raw \<and> host_ok r (lower (unbracketed raw)) \<and> addrs \<noteq> [] \<and>
            (cl_pinned c = Some (lower (unbracketed raw), addrs) \<or>
             cl_pinned c = None \<and>
               (\<exists>i. parse_ip (unbracketed raw) = Some i \<and> addrs = [(i, port_of u)])) \<and>
            (\<forall>a \<in> set addrs. destination_ok r (fst a))))"

lemma address_permitted_iff: "address_permitted r i = None \<longleftrightarrow> destination_ok r i"
  unfolding destination_ok_def address_permitted_def public_destination_def
    public_address_iff
  by (auto simp: Let_def split: option.splits)

lemma vet_sound:
  assumes "vet resolve r u w = (Inr v, w')"
  shows "request_ok r (pinned_client v t, u)"
proof -
  have find_None: "find P xs = None \<longleftrightarrow> (\<forall>x \<in> set xs. \<not> P x)" for P :: "socket \<Rightarrow> bool" and xs
    by (induction xs) auto
  have "\<exists>raw. url_host u = Some raw \<and> vt_host v = lower (unbracketed raw) \<and> host_ok r (vt_host v)
      \<and> scheme_ok u \<and> \<not> has_userinfo u"
    using assms by (auto simp: vet_def vet_host_def host_ok_def host_matches_iff Let_def
        split: sum.splits option.splits if_splits prod.splits)
  moreover have "vt_addrs v \<noteq> [] \<and> (\<forall>a \<in> set (vt_addrs v). destination_ok r (fst a))"
    using assms by (auto simp: vet_def judge_def find_None address_permitted_iff Let_def
        split: sum.splits option.splits if_splits prod.splits dest!: find_SomeD)
  moreover have "vt_named v \<or> (\<exists>raw i. url_host u = Some raw \<and> parse_ip (unbracketed raw) = Some i
      \<and> vt_addrs v = [(i, port_of u)])"
    using assms by (auto simp: vet_def Let_def split: sum.splits option.splits if_splits prod.splits)
  ultimately show ?thesis by (auto simp: request_ok_def pinned_client_def)
qed

lemma fetch_hop_requests:
  assumes "fetch_hop env p checked u rd w = (h, sent, w')"
  shows "(sent = [] \<or> (\<exists>c. sent = [(c, u)] \<and> request_ok (policy_rules p) (c, u))) \<and>
    (\<forall>t rd'. h = Redirected t rd' \<longrightarrow> sent \<noteq> [])"
  using assms
  by (auto simp: fetch_hop_def Let_def split: prod.splits option.splits sum.splits if_splits
      dest!: vet_sound [where t = "wp_timeout p"])

definition no_downgrade :: "url \<Rightarrow> url \<Rightarrow> bool" where
  "no_downgrade u t \<longleftrightarrow> \<not> (url_scheme u = ''https'' \<and> url_scheme t = ''http'')"

lemma next_url_sound:
  assumes "next_url join rd u l = (Inr t, rd')"
  shows "no_downgrade u t \<and> url_text t \<notin> rd_visited rd \<and>
    rd_visited rd' = insert (url_text t) (rd_visited rd) \<and> rd_credentialed rd' = rd_credentialed rd \<and>
    rd_start rd' = rd_start rd \<and> (rd_credentialed rd \<longrightarrow> origin t = rd_start rd)"
  using assms by (auto simp: next_url_def redirect_denial_def no_downgrade_def Let_def
      split: if_splits option.splits)

abbreviation texts :: "(client \<times> url) list \<Rightarrow> string list" where
  "texts sent \<equiv> map (\<lambda>x. url_text (snd x)) sent"

lemma fetch_loop_requests:
  assumes "fetch_loop env p checked u rd w = (r, sent, w')" "rd_hops rd \<le> rd_max rd"
    "url_text u \<in> rd_visited rd"
  shows "list_all (request_ok (policy_rules p)) sent \<and> length sent \<le> Suc (rd_max rd - rd_hops rd) \<and>
    distinct (texts sent) \<and> set (tl (texts sent)) \<inter> rd_visited rd = {} \<and>
    (sent \<noteq> [] \<longrightarrow> snd (hd sent) = u) \<and> successively no_downgrade (map snd sent)"
  using assms
proof (induction env p checked u rd w arbitrary: r sent w' rule: fetch_loop.induct)
  case (1 env p checked u rd w)
  obtain h now w1 where hop: "fetch_hop env p checked u rd w = (h, now, w1)" by (metis prod_cases3)
  note here = fetch_hop_requests [OF hop]
  show ?case
  proof (cases h)
    case (Finished a)
    then have "sent = now" using 1(2) hop by (simp add: fetch_loop.simps)
    then show ?thesis using here by auto
  next
    case (Redirected t rd')
    obtain r2 later w2 where rest: "fetch_loop env p checked t rd' w1 = (r2, later, w2)"
      by (metis prod_cases3)
    have sent: "sent = now @ later" using 1(2) hop Redirected rest by (simp add: fetch_loop.simps)
    obtain c where now: "now = [(c, u)]" "request_ok (policy_rules p) (c, u)"
      using here Redirected by auto
    obtain l where l: "next_url (we_join env) rd u l = (Inr t, rd')"
      using fetch_hop_redirected [OF hop [unfolded Redirected]] by blast
    note hops = next_url_hops [OF l] and sound = next_url_sound [OF l]
    have IH: "list_all (request_ok (policy_rules p)) later \<and>
        length later \<le> Suc (rd_max rd' - rd_hops rd') \<and> distinct (texts later) \<and>
        set (tl (texts later)) \<inter> rd_visited rd' = {} \<and> (later \<noteq> [] \<longrightarrow> snd (hd later) = t) \<and>
        successively no_downgrade (map snd later)"
      using 1(1) [OF hop [symmetric] Redirected refl rest] hops sound by simp
    show ?thesis
    proof (cases later)
      case Nil
      then show ?thesis using sent now by simp
    next
      case (Cons x xs)
      then have "url_text (snd x) = url_text t" using IH by simp
      then show ?thesis
        using IH Cons sent now hops sound 1(4) by (auto simp: disjoint_iff)
    qed
  qed
qed

text \<open>
  C7. Whatever the resolver answers and wherever redirects lead, a fetch sends at most six
  requests, each over http or https without userinfo to a host in the scope of the run, by a
  client without proxy and redirects that is pinned to the addresses that were judged (or to the
  literal address of the URL). Every one of these addresses is permitted: for an untrusted run it
  is no management endpoint, in no network of the table of refused networks and carries no address
  of one. No URL is
  requested twice and no request over https is followed by one over http.
\<close>

theorem fetches_reach_only_permitted_destinations:
  "case fetch env p checked start w of (r, sent, w') \<Rightarrow>
     list_all (request_ok (policy_rules p)) sent \<and> length sent \<le> 6 \<and> distinct (texts sent) \<and>
     successively no_downgrade (map snd sent)"
proof (cases "we_parse env start")
  case None
  then show ?thesis by (simp add: fetch_def)
next
  case (Some u)
  obtain r sent w' where f: "fetch_loop env p checked u (redirects_new u max_redirects False) w = (r, sent, w')"
    by (metis prod_cases3)
  show ?thesis
    using fetch_loop_requests [OF f] Some f by (simp add: fetch_def redirects_new_def max_redirects_def)
qed

section \<open>What a search sends\<close>

definition search_allowed :: "'w web_env \<Rightarrow> web_policy \<Rightarrow> string \<Rightarrow> 'w \<Rightarrow> url \<Rightarrow> bool" where
  "search_allowed env p query w v \<longleftrightarrow>
     \<not> wp_search_credential_withheld p \<and>
     (\<exists>endpoint u. wp_search_endpoint p = Some endpoint \<and> we_parse env endpoint = Some u \<and>
        v = we_append env u (wp_search_query_param p) query \<and>
        (wp_search_credential p \<longrightarrow> fst (we_credential env w u) = None) \<and>
        (\<forall>ds. wp_untrusted_destinations p = Some ds \<longrightarrow>
           (\<exists>h d. url_host u = Some h \<and> d \<in> set ds \<and> in_scope (scope_name d) (lower (dots_end h)))))"

definition hits_within :: "web_policy \<Rightarrow> nat option \<Rightarrow> search_hit list \<Rightarrow> bool" where
  "hits_within p requested hits \<longleftrightarrow>
     length hits \<le> max (wp_search_max_results p) 1 \<and>
     (\<forall>n. requested = Some n \<longrightarrow> length hits \<le> max n 1)"

lemma search_guard_sound:
  "search_guard env p query w = (Inr v, w1) \<Longrightarrow> search_allowed env p query w v"
  by (auto simp: search_guard_def search_allowed_def host_matches_iff Let_def
      split: option.splits if_splits prod.splits)

lemma search_answer_within:
  assumes "search_answer env p (search_limit p requested) x = Inr hits"
  shows "hits_within p requested hits"
proof -
  have "length hits \<le> search_limit p requested"
    using assms by (auto simp: search_answer_def parse_duckduckgo_results_def parse_search_results_def
        split: if_splits sum.splits option.splits json.splits)
  moreover have "search_limit p requested \<le> max (wp_search_max_results p) 1"
    by (simp add: search_limit_def Let_def)
  moreover have "search_limit p (Some n) \<le> max n 1" for n by (simp add: search_limit_def Let_def)
  ultimately show ?thesis unfolding hits_within_def by (metis order_trans)
qed

text \<open>
  A search sends at most one request, and none when its credential is withheld or refused or
  the endpoint is outside the scope of an untrusted run; what it returns exceeds neither the
  configured ceiling nor the number asked for.
\<close>

theorem searches_send_only_what_is_granted:
  "case search_results env p query requested w of (r, sent, w') \<Rightarrow>
     pred_option (\<lambda>x. search_allowed env p query w (fst x) \<and> snd x = wp_search_api_key p) sent \<and>
     (case r of Inl _ \<Rightarrow> True | Inr hits \<Rightarrow> sent \<noteq> None \<and> hits_within p requested hits)"
  by (auto simp: search_results_def split: prod.splits sum.splits
      dest: search_guard_sound search_answer_within)

end
