(* ===== verification/Spec2Isabelle.thy ===== *)
theory Spec2Isabelle
  imports ExecutorProperties AgentLoopProperties Permissions PoolProperties Delegation Admission IdentityContract AuditLog
    Revocation ProvisioningProperties ProviderClient OrderingModel WebResponses WebFetch
begin

text \<open>
  A model of the core of Lightagent, an agent that lets a language model work with tools, delegates
  parts of a task to worker agents and serves several principals from one installation.

  \<^bold>\<open>How the parts interact.\<close> A run is started by an authorized caller. The identity document
  (\<open>crates/lightagent-core/src/identity/store.rs\<close>) holds the principals, the credentials and the
  ownership of the profiles; a token is authenticated against the credentials
  (\<open>identity/credential.rs\<close>), the caller is authorized against the ownership
  (\<open>identity/mod.rs\<close>, \<open>identity/ownership.rs\<close>), every decision goes to the audit log, and a running
  run verifies its authorization again before each step (\<open>identity/revocation.rs\<close>). The run spends
  output tokens from one pool (\<open>generation.rs\<close>), which its lead may divide among roles with a plan
  (\<open>allocation.rs\<close>); its context window bounds what a tool may return. The tools a run has are the
  installation's, narrowed by its profile and the trust in its caller
  (\<open>crates/lightagent-tools/src/policy.rs\<close>); each call is checked, approved and launched by the
  executor (\<open>executor.rs\<close>), which asks the approval engine (\<open>permissions.rs\<close>) and validates the
  arguments (\<open>schema.rs\<close>). Workers get part of the turns and calls of the run
  (\<open>crates/lightagent-tools/src/budget.rs\<close>, \<open>limits.rs\<close>) and wait for one of a bounded number of
  slots. The loop of a run (\<open>loop_.rs\<close>) is where these meet: it sends the conversation to the model,
  asks for approval of each tool call, runs the approved ones, appends their results and decides,
  from the budgets, when the model has to answer. The model is reached over a streaming protocol
  (\<open>crates/lightagent-provider-lightweight\<close>), whose client decodes the response and gives the loop
  its events. Profiles are created and withdrawn for the users of a web service by provisioning
  (\<open>crates/lightagent-core/src/provisioning.rs\<close>): its ledger survives crashes and its operations
  go through the identity store. The protocol between the two installations, with its signed
  commands and the conclusions the web service may draw from the answers, has executable models in
  \<open>crates/lightagent-protocol-conformance\<close>; they are modelled here as programs of their own.

  \<^bold>\<open>Theories.\<close>
  \<^item> \<open>Prelude\<close>: saturating and wrapping 32- and 64-bit arithmetic on naturals, ordered maps (the
    sorted association lists that stand for \<open>BTreeMap\<close>) with their laws, UTF-8 boundaries, sums.
  \<^item> \<open>Permissions\<close>: \<open>permissions.rs\<close>. Risk classes, policies, \<open>evaluate\<close> and the approvals log.
  \<^item> \<open>Allocation\<close>: \<open>allocation.rs\<close>. Validation of a plan, \<open>split\<close> and \<open>allocate\<close>.
  \<^item> \<open>OutputPool\<close> and \<open>PoolProperties\<close>: the pool of \<open>generation.rs\<close>. Every operation that takes the
    pool's lock is one function on \<open>pool_state\<close>; runs are lists of operations, so interleavings of
    handles are orders of the list. The properties hold for runs of any length.
  \<^item> \<open>GenBudget\<close>: the budget arithmetic of \<open>generation.rs\<close>: estimates, room, shortened results,
    worker budgets and the trimming of continuations.
  \<^item> \<open>RunEvents\<close>: the data of a run: messages and requests of \<open>provider.rs\<close>, tool calls of
    \<open>invoker.rs\<close>, their assembly from a stream (\<open>tool_stream.rs\<close>) and the events of \<open>event.rs\<close>.
  \<^item> \<open>AgentLoop\<close>: \<open>loop_.rs\<close>. The driver of a run and every stage of \<open>take_turn\<close> in its order,
    \<open>process_batch\<close> with \<open>run_call\<close> and \<open>out_of_tool_calls\<close>, \<open>drive\<close> (a recursive function with a
    termination proof) and the entries \<open>run_with_history\<close>, \<open>resume\<close> and \<open>continue_out_of_time\<close>;
    \<open>session\<close> is a run with any list of answers of its caller to its pauses.
    \<open>AgentLoopProperties\<close> has its invariants and the properties of whole sessions. The provider, the
    invoker, the pool and the clock act on an unspecified world; \<open>io_trace\<close> records what was sent,
    asked, remembered and invoked, in order, and is the observation the properties speak of.
  \<^item> \<open>RunWorld\<close>: the contract \<open>world_invariant\<close> between the loop and the world: a predicate that every
    operation of the environment keeps is kept by a whole session, and a bound that only granted
    decisions raise is raised once per granted decision.
  \<^item> \<open>Json\<close>, \<open>Schema\<close>: JSON values and the validator of \<open>schema.rs\<close>, with a declarative reference
    (which subschema governs which part of a value, and when a part meets one) that its verdicts and
    the pointers of its errors are proved to agree with.
  \<^item> \<open>ToolPolicy\<close>: \<open>registry.rs\<close>, \<open>definition.rs\<close> and \<open>policy.rs\<close>: the ordered registry, the reach of
    a tool, the entries of a profile and the resolved policy, proved to restrict the registry as a
    finite map.
  \<^item> \<open>Executor\<close>, \<open>ExecutorProperties\<close>: \<open>executor.rs\<close>, \<open>output.rs\<close> and the terminal deny-list. The
    executor's three mutexes are its state (\<open>None\<close> is a poisoned one); \<open>prepare\<close> is everything
    before a launch. \<open>executor_env\<close> makes the executor the invoker of the loop and interprets
    \<open>world_invariant\<close>, so that the bound on launches holds for whole sessions.
  \<^item> \<open>Delegation\<close>: \<open>limits.rs\<close> and the delegation tree and the generation slot of \<open>budget.rs\<close>.
  \<^item> \<open>Admission\<close>: \<open>Admission::admit\<close> of \<open>budget.rs\<close>. The two semaphores are counters and the waiting
    of a worker is a step relation, so that all interleavings of workers, cancellations and timeouts
    are covered. One of its theorems shows that permits kept from the failed immediate attempt make
    a worker wait for itself.
  \<^item> \<open>Identity\<close>, \<open>Credentials\<close>: \<open>identity/mod.rs\<close>, \<open>identity/ownership.rs\<close>,
    \<open>identity/credential.rs\<close>. Bytes are 8-bit words, a random source gives an optional byte list.
  \<^item> \<open>IdentityStore\<close>: \<open>identity/store.rs\<close>. The document, the operations inside a transaction and
    \<open>transact\<close> with the points at which the file system fails; \<open>IdentityProperties\<close> holds the
    preservation lemmas and \<open>IdentityContract\<close> the contract of the store over all histories.
  \<^item> \<open>AuditLog\<close>: append, rotation and reading of the audit files of \<open>identity/store.rs\<close>.
  \<^item> \<open>Revocation\<close>: \<open>identity/revocation.rs\<close>. \<open>verify\<close> is split at the consultation of the check,
    so that a revocation in between is expressible.
  \<^item> \<open>Provisioning\<close>, \<open>ProvisioningService\<close>: \<open>provisioning.rs\<close> and \<open>provisioning/continuity.rs\<close>. The
    ledger, its validation, every call of the service over the stores it writes, with a crash or a
    failed write possible at each write. \<open>ProvisioningLedger\<close> has the invariants of the ledger and
    the locale \<open>write_ahead\<close>, the contract of the service with its file (the ledger on disk is at a
    point the one in memory has passed), interpreted as \<open>journal\<close> on the steps of the ledger;
    \<open>ProvisioningRecovery\<close> follows crashes and repetitions, and \<open>ProvisioningProperties\<close> has the
    refinement of the state diagram, soundness over all histories and recovery.
  \<^item> \<open>SseDecoder\<close>, \<open>ToolNames\<close>, \<open>ProviderClient\<close>: \<open>sse.rs\<close>, \<open>names.rs\<close>, \<open>wire.rs\<close> and \<open>provider.rs\<close>. The
    incremental decoder of server-sent events, whose limit is on the frame that is still pending
    (\<open>pending_fits\<close>) and not on the stream, the portable spellings of tool names, the translation
    of chunks to events, the end of a turn and the request body.
  \<^item> \<open>CreateResolution\<close>: the second half of \<open>web.rs\<close>, with the registry of \<open>errors.json\<close>: what the web
    service concludes from the answers to the transmissions of a create job, and what it does next.
  \<^item> \<open>CreateRaces\<close>: \<open>model.rs\<close>. Copies of a create command serialized by a lock, with the generator
    of its random schedules (xorshift on 64-bit words), so that a property of all schedules covers
    every seed of the tests.
  \<^item> \<open>OrderingModel\<close>: \<open>ordering.rs\<close>. The simulation of one job over deliveries, lock waits, crashes,
    restarts, housekeeping and recoveries as a loop over an ordered event list (it ends because an
    arrival adds at most one lock event), under any set of rules, with its generators; \<open>sim_inv\<close> is
    the invariant that carries invariant S.
  \<^item> \<open>WireJson\<close>, \<open>CommandVerifier\<close>: \<open>lib.rs\<close>. The strict JSON parser on bytes, the value profile and
    the canonical form; the field rules and the staged verifier of a signed command, with the types
    of the specification as sets of values (\<open>wire_envelope\<close>, \<open>wire_payload\<close>) that what it accepts has.
  \<^item> \<open>WebResponses\<close>: the first half of \<open>web.rs\<close> and \<open>continuity.rs\<close>: how a response is classified,
    and the activation check of the ledger.
  \<^item> \<open>Egress\<close>: \<open>crates/lightagent-tools/src/egress.rs\<close> and the address test of \<open>builtins/web.rs\<close>.
    Addresses by their octets and segments, their text form, networks, the scope of a run, vetting
    and redirects. \<open>AddressSpace\<close> compares the address test with the special-purpose registries,
    written as tables of prefixes (it differs from them in eight networks it does not know and two
    anycast addresses it refuses), and shows which management endpoints pass behind a transition
    scheme.
  \<^item> \<open>WebText\<close>, \<open>WebFetch\<close>: \<open>builtins/web.rs\<close>. HTML to text; the loop of a fetch, which ends because
    each redirect counts against a maximum, with the requests sent as its observation; the search.

  \<^bold>\<open>Correspondence.\<close> A struct is a record, an enum a datatype. \<open>u32\<close> and \<open>u64\<close> are naturals, with
  saturation, wrap-around and checked operations written out where the code has them and the
  ranges stated where a property needs them; \<open>usize\<close> is taken to be 64 bits wide. Strings are
  lists of bytes. An \<open>Err\<close>
  is the left side of a sum. State under a lock is passed explicitly. The code never panics on the
  modelled paths; where Rust would index out of range the model proves the index in range.

  \<^bold>\<open>Where the model is coarser.\<close> Counters that the code increments by one without a check are
  unbounded naturals: the tool calls of a run (\<open>batch_step\<close>, a \<open>u32\<close>), the generations of the ledger
  (\<open>save\<close>) and of the identity document (\<open>transact\<close>), both \<open>u64\<close>; they would wrap after more steps
  than a run or an installation takes. A write of the ledger, the identity document or its marker
  (\<open>save\<close>, \<open>commit\<close>, \<open>bind_profile\<close>) either takes effect or leaves the old file; the code can
  also report a failure of the last directory flush with the new file already in place, an outcome
  the model leaves out (the file is then one that a successful write would have left, so what holds
  of every document holds of it). An append to the audit log is
  complete or absent; a torn last line is not represented.

  \<^bold>\<open>Parameters.\<close> Code outside the repository is an argument: SHA-256, the URL library, the HTTP client, the random source, the JSON
  and TOML codecs, the file system's answers, the model's stream (a finite list of events) and the
  clock (nanoseconds). What a property needs of them (a codec
  reads what it wrote) is a hypothesis of that property, and its witness instantiates it.

  \<^bold>\<open>Loops.\<close> The loops of \<open>split\<close> and of the lending in \<open>draw_plan\<close> are recursive functions with a
  termination proof or structural recursion over the list the code iterates over, and so are the
  loops over turns and batches (they decrease in the turns and calls left) and the event loop of
  the ordering model. The mutually recursive JSON parser has fuel, twice the length of the text and
  one more; \<open>fuel_suffices\<close> shows that more fuel does not change its answer. Sums of stamps wrap at
  64 bits; the stamps of commands have ten digits, so that the window of an accepted command does
  not wrap; the verifier's own clock is taken to be at least 30 seconds below the limit.

  \<^bold>\<open>Not modelled.\<close> Serialisation formats, real time, logging, the database layers, the text
  interfaces, what the built-in tools other than those of the web do, the HTTP interface and its manager of runs, the
  configuration files, the placement of runtimes and the crates named as such in the manifest.
\<close>

end
